(* ===== verification/RK_Prelude.thy ===== *)
theory RK_Prelude
  imports Main "HOL-Library.Word"
begin

text \<open>
  The prelude of the development: the machine types of the program (an LP64 Mac OS X build, so
  that \<open>RKUInteger\<close> and \<open>size_t\<close> have 64 bits and \<open>int\<close> has 32), the result type of code that
  may raise an Objective-C exception or run into undefined behaviour, the \<open>NSRange\<close> structure with
  the macros of \<open>RegexKitPrivate.h\<close> that work on it, and the lemma collections and generic lemmas
  the component theories share.
\<close>

unbundle bit_operations_syntax

section \<open>Lemma collections\<close>

named_theorems run_simps \<open>evaluation of results\<close>
named_theorems range_simps \<open>arithmetic of ranges and of 64 bit lengths\<close>
named_theorems rk_defs \<open>definitions unfolded by the automation of a component\<close>

section \<open>Machine types\<close>

type_synonym byte = "8 word"
type_synonym u64 = "64 word"
type_synonym u32 = "32 word"

text \<open>\<open>RKIntegerMax\<close>, which is also \<open>NSNotFound\<close> and \<open>RKReplaceAll\<close>, \<open>RKUIntegerMax\<close> and \<open>INT_MAX\<close>.\<close>

definition RKIntegerMax :: u64 where
  "RKIntegerMax = 0x7FFFFFFFFFFFFFFF"

definition NSNotFound :: u64 where
  "NSNotFound = RKIntegerMax"

definition RKReplaceAll :: u64 where
  "RKReplaceAll = RKIntegerMax"

definition RKUIntegerMax :: u64 where
  "RKUIntegerMax = 0xFFFFFFFFFFFFFFFF"

definition INT_MAX_U :: u64 where
  "INT_MAX_U = 0x7FFFFFFF"

lemma unat_NSNotFound [range_simps]: "unat NSNotFound = 2 ^ 63 - 1"
  by (simp add: NSNotFound_def RKIntegerMax_def)

lemma unat_INT_MAX_U [range_simps]: "unat INT_MAX_U = 2147483647"
  by (simp add: INT_MAX_U_def)

section \<open>Results\<close>

text \<open>
  The names of the exceptions the code raises. A raise carries only its name: the localised reason
  and the user info dictionary are text for people.
\<close>

datatype ns_exception =
    NSInvalidArgumentException
  | NSRangeException
  | NSInternalInconsistencyException
  | NSMallocException
  | NSInvalidUnarchiveOperationException
  | RKRegexSyntaxErrorException
  | RKRegexUnsupportedException
  | RKRegexCaptureReferenceException
  | RKLockingException
  | RKConditionLockException
  | NSGenericException

text \<open>
  A call returns a value, raises an exception, or reads or writes memory outside the objects it was
  given (\<open>Undefined\<close>), which C leaves open. Theorems that an operation returns \<open>Ok\<close> therefore
  also state its memory safety.
\<close>

datatype 'a run = Ok 'a | Raise ns_exception | Undefined

fun run_bind :: "'a run \<Rightarrow> ('a \<Rightarrow> 'b run) \<Rightarrow> 'b run" where
  "run_bind (Ok x) f = f x"
| "run_bind (Raise e) f = Raise e"
| "run_bind Undefined f = Undefined"

fun is_ok :: "'a run \<Rightarrow> bool" where
  "is_ok (Ok x) = True"
| "is_ok (Raise e) = False"
| "is_ok Undefined = False"

fun run_map :: "('a \<Rightarrow> 'b) \<Rightarrow> 'a run \<Rightarrow> 'b run" where
  "run_map f (Ok x) = Ok (f x)"
| "run_map f (Raise e) = Raise e"
| "run_map f Undefined = Undefined"

lemma run_bind_Ok_iff [run_simps]: "run_bind m f = Ok y \<longleftrightarrow> (\<exists>x. m = Ok x \<and> f x = Ok y)"
  by (cases m) auto

lemma run_bind_Raise_iff [run_simps]:
  "run_bind m f = Raise e \<longleftrightarrow> m = Raise e \<or> (\<exists>x. m = Ok x \<and> f x = Raise e)"
  by (cases m) auto

lemma run_bind_Undefined_iff [run_simps]:
  "run_bind m f = Undefined \<longleftrightarrow> m = Undefined \<or> (\<exists>x. m = Ok x \<and> f x = Undefined)"
  by (cases m) auto

lemma run_bind_assoc: "run_bind (run_bind m f) g = run_bind m (\<lambda>x. run_bind (f x) g)"
  by (cases m) auto

lemma is_ok_iff [run_simps]: "is_ok m \<longleftrightarrow> (\<exists>x. m = Ok x)"
  by (cases m) auto

lemma run_map_Ok_iff [run_simps]: "run_map f m = Ok y \<longleftrightarrow> (\<exists>x. m = Ok x \<and> y = f x)"
  by (cases m) auto

section \<open>Ranges\<close>

record ns_range =
  range_location :: u64
  range_length :: u64

definition NSMakeRange :: "u64 \<Rightarrow> u64 \<Rightarrow> ns_range" where
  "NSMakeRange loc len = \<lparr>range_location = loc, range_length = len\<rparr>"

definition NSMaxRange :: "ns_range \<Rightarrow> u64" where
  "NSMaxRange r = range_location r + range_length r"

definition NSEqualRanges :: "ns_range \<Rightarrow> ns_range \<Rightarrow> bool" where
  "NSEqualRanges r1 r2 \<longleftrightarrow>
     range_location r1 = range_location r2 \<and> range_length r1 = range_length r2"

definition RKRangeInsideRange :: "ns_range \<Rightarrow> ns_range \<Rightarrow> bool" where
  "RKRangeInsideRange inside within \<longleftrightarrow>
     range_location inside - range_location within \<le> range_length within \<and>
     NSMaxRange inside - range_location within \<le> range_length within"

text \<open>The range \<open>{NSNotFound, 0}\<close>, returned wherever there is no match.\<close>

definition range_not_found :: ns_range where
  "range_not_found = NSMakeRange NSNotFound 0"

text \<open>A range whose end does not wrap around; \<open>range_begin\<close> and \<open>range_end\<close> read it in \<open>nat\<close>.\<close>

abbreviation range_begin :: "ns_range \<Rightarrow> nat" where
  "range_begin r \<equiv> unat (range_location r)"

definition range_end :: "ns_range \<Rightarrow> nat" where
  "range_end r = unat (range_location r) + unat (range_length r)"

definition range_within :: "ns_range \<Rightarrow> nat \<Rightarrow> bool" where
  "range_within r n \<longleftrightarrow> range_end r \<le> n"

lemma NSMakeRange_sel [simp]:
  "range_location (NSMakeRange a b) = a" "range_length (NSMakeRange a b) = b"
  by (simp_all add: NSMakeRange_def)

lemma NSMakeRange_collapse [simp]: "NSMakeRange (range_location r) (range_length r) = r"
  by (simp add: NSMakeRange_def)

lemma NSMakeRange_eq_iff [simp]: "NSMakeRange a b = NSMakeRange c d \<longleftrightarrow> a = c \<and> b = d"
  by (auto simp: NSMakeRange_def)

lemma range_eqI: "range_location r = range_location s \<Longrightarrow> range_length r = range_length s \<Longrightarrow> r = (s :: ns_range)"
  by simp

lemma NSEqualRanges_iff: "NSEqualRanges r s \<longleftrightarrow> r = s"
  by (auto simp: NSEqualRanges_def)

lemma unat_plus_small: "unat (a :: 64 word) + unat b < 2 ^ 64 \<Longrightarrow> unat (a + b) = unat a + unat b"
  by (simp add: unat_word_ariths)

lemma unat_minus_small: "b \<le> (a :: 64 word) \<Longrightarrow> unat (a - b) = unat a - unat b"
  by (rule unat_sub)

lemma unat_of_nat_small: "n < 2 ^ 64 \<Longrightarrow> unat (of_nat n :: 64 word) = n"
  by (simp add: unat_of_nat)

lemma unat_of_nat32_small: "n < 2 ^ 32 \<Longrightarrow> unat (of_nat n :: 32 word) = n"
  by (simp add: unat_of_nat)

lemma of_nat64_less_iff [range_simps]:
  "m < 2 ^ 64 \<Longrightarrow> n < 2 ^ 64 \<Longrightarrow> (of_nat m :: 64 word) < of_nat n \<longleftrightarrow> m < n"
  by (simp add: word_less_nat_alt unat_of_nat_small)

lemma of_nat64_le_iff [range_simps]:
  "m < 2 ^ 64 \<Longrightarrow> n < 2 ^ 64 \<Longrightarrow> (of_nat m :: 64 word) \<le> of_nat n \<longleftrightarrow> m \<le> n"
  by (simp add: word_le_nat_alt unat_of_nat_small)

lemma of_nat64_eq_iff [range_simps]:
  "m < 2 ^ 64 \<Longrightarrow> n < 2 ^ 64 \<Longrightarrow> (of_nat m :: 64 word) = of_nat n \<longleftrightarrow> m = n"
  by (metis unat_of_nat_small)

lemma of_nat_minus64: "m \<le> n \<Longrightarrow> (of_nat n - of_nat m :: 64 word) = of_nat (n - m)"
  by (simp add: of_nat_diff)

lemma unat_lt64 [simp]: "unat (a :: 64 word) < 18446744073709551616"
  using unsigned_less [of a, where 'a = nat] by simp

lemma unat_minus_one_32: "unat (- 1 :: 32 word) = 4294967295"
  by (simp add: unsigned_minus_1_eq_mask mask_eq_exp_minus_1)

lemma unat_minus_one_64: "unat (- 1 :: 64 word) = 18446744073709551615"
  by (simp add: unsigned_minus_1_eq_mask mask_eq_exp_minus_1)

lemma unat_max_range: "range_end r < 2 ^ 64 \<Longrightarrow> unat (NSMaxRange r) = range_end r"
  by (simp add: NSMaxRange_def range_end_def unat_plus_small)

lemma not_wrapped_max_range:
  assumes "range_location r \<le> NSMaxRange r"
  shows "unat (NSMaxRange r) = range_end r"
  using assms unfolding NSMaxRange_def range_end_def
  by (metis no_olen_add_nat unat_add_lem unat_plus_small)

section \<open>Lists, options and numbers\<close>

lemma nth_append_skip: "(xs @ ys) ! (length xs + i) = ys ! i"
  by (simp add: nth_append)

lemma sum_list_take_mono: "i \<le> j \<Longrightarrow> sum_list (take i xs) \<le> sum_list (take j (xs :: nat list))"
proof -
  assume "i \<le> j"
  then have "take j xs = take i xs @ take (j - i) (drop i xs)"
    by (metis le_add_diff_inverse take_add)
  then show ?thesis by simp
qed

text \<open>A decision over an initial segment of the naturals that the simplifier can evaluate.\<close>

lemma all_less_upt: "(\<forall>k < n. P k) \<longleftrightarrow> list_all P [0..<n]"
  by (auto simp: list_all_iff)

end
