(* ===== verification/RK_Types.thy ===== *)
theory RK_Types
  imports RK_Prelude
begin

text \<open>
  The constants of \<open>RegexKitTypes.h\<close>: the bits of the match, compile and build options and the numbers
  of the match and compile error codes, the latter as tables from the enumerator's name to its value.
  A C enumeration is an \<open>int\<close>, so an option set is a 32 bit word.
\<close>

section \<open>Match options\<close>

definition RKMatchNoOptions :: u32 where "RKMatchNoOptions = 0"
definition RKMatchAnchored :: u32 where "RKMatchAnchored = 0x10"
definition RKMatchNotBeginningOfLine :: u32 where "RKMatchNotBeginningOfLine = 0x80"
definition RKMatchNotEndOfLine :: u32 where "RKMatchNotEndOfLine = 0x100"
definition RKMatchNotEmpty :: u32 where "RKMatchNotEmpty = 0x400"
definition RKMatchNoUTF8Check :: u32 where "RKMatchNoUTF8Check = 0x2000"
definition RKMatchPartial :: u32 where "RKMatchPartial = 0x8000"
definition RKMatchNewlineDefault :: u32 where "RKMatchNewlineDefault = 0x00000000"
definition RKMatchNewlineCR :: u32 where "RKMatchNewlineCR = 0x00100000"
definition RKMatchNewlineLF :: u32 where "RKMatchNewlineLF = 0x00200000"
definition RKMatchNewlineCRLF :: u32 where "RKMatchNewlineCRLF = 0x00300000"
definition RKMatchNewlineAny :: u32 where "RKMatchNewlineAny = 0x00400000"
definition RKMatchNewlineAnyCRLF :: u32 where "RKMatchNewlineAnyCRLF = 0x00500000"
definition RKMatchNewlineMask :: u32 where "RKMatchNewlineMask = 0x00700000"
definition RKMatchBackslashRAnyCRLR :: u32 where "RKMatchBackslashRAnyCRLR = 0x800000"
definition RKMatchBackslashRUnicode :: u32 where "RKMatchBackslashRUnicode = 0x1000000"

section \<open>Compile options\<close>

definition RKCompileNoOptions :: u32 where "RKCompileNoOptions = 0"
definition RKCompileCaseless :: u32 where "RKCompileCaseless = 0x1"
definition RKCompileMultiline :: u32 where "RKCompileMultiline = 0x2"
definition RKCompileDotAll :: u32 where "RKCompileDotAll = 0x4"
definition RKCompileExtended :: u32 where "RKCompileExtended = 0x8"
definition RKCompileAnchored :: u32 where "RKCompileAnchored = 0x10"
definition RKCompileDollarEndOnly :: u32 where "RKCompileDollarEndOnly = 0x20"
definition RKCompileExtra :: u32 where "RKCompileExtra = 0x40"
definition RKCompileUngreedy :: u32 where "RKCompileUngreedy = 0x200"
definition RKCompileUTF8 :: u32 where "RKCompileUTF8 = 0x800"
definition RKCompileNoAutoCapture :: u32 where "RKCompileNoAutoCapture = 0x1000"
definition RKCompileNoUTF8Check :: u32 where "RKCompileNoUTF8Check = 0x2000"
definition RKCompileAutoCallout :: u32 where "RKCompileAutoCallout = 0x4000"
definition RKCompileFirstLine :: u32 where "RKCompileFirstLine = 0x40000"
definition RKCompileDupNames :: u32 where "RKCompileDupNames = 0x80000"
definition RKCompileBackslashRAnyCRLR :: u32 where "RKCompileBackslashRAnyCRLR = 0x800000"
definition RKCompileBackslashRUnicode :: u32 where "RKCompileBackslashRUnicode = 0x1000000"
definition RKCompileNewlineDefault :: u32 where "RKCompileNewlineDefault = 0x00000000"
definition RKCompileNewlineCR :: u32 where "RKCompileNewlineCR = 0x00100000"
definition RKCompileNewlineLF :: u32 where "RKCompileNewlineLF = 0x00200000"
definition RKCompileNewlineCRLF :: u32 where "RKCompileNewlineCRLF = 0x00300000"
definition RKCompileNewlineAny :: u32 where "RKCompileNewlineAny = 0x00400000"
definition RKCompileNewlineAnyCRLF :: u32 where "RKCompileNewlineAnyCRLF = 0x00500000"
definition RKCompileNewlineMask :: u32 where "RKCompileNewlineMask = 0x00700000"
definition RKCompileNewlineShift :: u32 where "RKCompileNewlineShift = 20"

definition RKCompileAllOptions :: u32 where
  "RKCompileAllOptions =
     RKCompileCaseless OR RKCompileMultiline OR RKCompileDotAll OR RKCompileExtended OR RKCompileAnchored OR
     RKCompileDollarEndOnly OR RKCompileExtra OR RKCompileUngreedy OR RKCompileUTF8 OR RKCompileNoAutoCapture OR
     RKCompileNoUTF8Check OR RKCompileAutoCallout OR RKCompileFirstLine OR RKCompileDupNames OR
     RKCompileBackslashRAnyCRLR OR RKCompileBackslashRUnicode"

definition RKCompileUnsupported :: u32 where
  "RKCompileUnsupported = RKCompileAutoCallout"

section \<open>Build configuration\<close>

definition RKBuildConfigNoOptions :: u32 where "RKBuildConfigNoOptions = 0"
definition RKBuildConfigUTF8 :: u32 where "RKBuildConfigUTF8 = 0x1"
definition RKBuildConfigUnicodeProperties :: u32 where "RKBuildConfigUnicodeProperties = 0x2"
definition RKBuildConfigNewlineDefault :: u32 where "RKBuildConfigNewlineDefault = 0x00000000"
definition RKBuildConfigNewlineCR :: u32 where "RKBuildConfigNewlineCR = 0x00100000"
definition RKBuildConfigNewlineLF :: u32 where "RKBuildConfigNewlineLF = 0x00200000"
definition RKBuildConfigNewlineCRLF :: u32 where "RKBuildConfigNewlineCRLF = 0x00300000"
definition RKBuildConfigNewlineAny :: u32 where "RKBuildConfigNewlineAny = 0x00400000"
definition RKBuildConfigNewlineAnyCRLF :: u32 where "RKBuildConfigNewlineAnyCRLF = 0x00500000"
definition RKBuildConfigNewlineMask :: u32 where "RKBuildConfigNewlineMask = 0x00700000"
definition RKBuildConfigBackslashRAnyCRLR :: u32 where "RKBuildConfigBackslashRAnyCRLR = 0x800000"
definition RKBuildConfigBackslashRUnicode :: u32 where "RKBuildConfigBackslashRUnicode = 0x1000000"

section \<open>Error codes\<close>

definition RKMatchErrorCode_enum :: \<open>(string \<times> int) list\<close> where
  \<open>RKMatchErrorCode_enum =
   [(''RKMatchErrorNoError'', 0),
    (''RKMatchErrorNoMatch'', -1),
    (''RKMatchErrorNull'', -2),
    (''RKMatchErrorBadOption'', -3),
    (''RKMatchErrorBadMagic'', -4),
    (''RKMatchErrorUnknownOpcode'', -5),
    (''RKMatchErrorNoMemory'', -6),
    (''RKMatchErrorNoSubstring'', -7),
    (''RKMatchErrorMatchLimit'', -8),
    (''RKMatchErrorCallout'', -9),
    (''RKMatchErrorBadUTF8'', -10),
    (''RKMatchErrorBadUTF8Offset'', -11),
    (''RKMatchErrorPartial'', -12),
    (''RKMatchErrorBadPartial'', -13),
    (''RKMatchErrorInternal'', -14),
    (''RKMatchErrorBadCount'', -15),
    (''RKMatchErrorRecursionLimit'', -21),
    (''RKMatchErrorNullWorkSpaceLimit'', -22),
    (''RKMatchErrorBadNewline'', -23)]\<close>

definition RKCompileErrorCode_enum :: \<open>(string \<times> int) list\<close> where
  \<open>RKCompileErrorCode_enum =
   [(''RKCompileErrorNoError'', 0),
    (''RKCompileErrorEscapeAtEndOfPattern'', 1),
    (''RKCompileErrorByteEscapeAtEndOfPattern'', 2),
    (''RKCompileErrorUnrecognizedCharacterFollowingEscape'', 3),
    (''RKCompileErrorNumbersOutOfOrder'', 4),
    (''RKCompileErrorNumbersToBig'', 5),
    (''RKCompileErrorMissingTerminatorForCharacterClass'', 6),
    (''RKCompileErrorInvalidEscapeInCharacterClass'', 7),
    (''RKCompileErrorRangeOutOfOrderInCharacterClass'', 8),
    (''RKCompileErrorNothingToRepeat'', 9),
    (''RKCompileErrorInternalErrorUnexpectedRepeat'', 11),
    (''RKCompileErrorUnrecognizedCharacterAfterOption'', 12),
    (''RKCompileErrorPOSIXNamedClassOutsideOfClass'', 13),
    (''RKCompileErrorMissingParentheses'', 14),
    (''RKCompileErrorReferenceToNonExistentSubpattern'', 15),
    (''RKCompileErrorErrorOffsetPassedAsNull'', 16),
    (''RKCompileErrorUnknownOptionBits'', 17),
    (''RKCompileErrorMissingParenthesesAfterComment'', 18),
    (''RKCompileErrorRegexTooLarge'', 20),
    (''RKCompileErrorNoMemory'', 21),
    (''RKCompileErrorUnmatchedParentheses'', 22),
    (''RKCompileErrorInternalCodeOverflow'', 23),
    (''RKCompileErrorUnrecognizedCharacterAfterNamedSubppatern'', 24),
    (''RKCompileErrorLookbehindAssertionNotFixedLength'', 25),
    (''RKCompileErrorMalformedNameOrNumberAfterSubpattern'', 26),
    (''RKCompileErrorConditionalGroupContainsMoreThanTwoBranches'', 27),
    (''RKCompileErrorAssertionExpectedAfterCondition'', 28),
    (''RKCompileErrorMissingEndParentheses'', 29),
    (''RKCompileErrorUnknownPOSIXClassName'', 30),
    (''RKCompileErrorPOSIXCollatingNotSupported'', 31),
    (''RKCompileErrorMissingUTF8Support'', 32),
    (''RKCompileErrorHexCharacterValueTooLarge'', 34),
    (''RKCompileErrorInvalidCondition'', 35),
    (''RKCompileErrorNotAllowedInLookbehindAssertion'', 36),
    (''RKCompileErrorNotSupported'', 37),
    (''RKCompileErrorCalloutExceedsMaximumAllowed'', 38),
    (''RKCompileErrorMissingParenthesesAfterCallout'', 39),
    (''RKCompileErrorRecursiveInfinitLoop'', 40),
    (''RKCompileErrorUnrecognizedCharacterAfterNamedPattern'', 41),
    (''RKCompileErrorSubpatternNameMissingTerminator'', 42),
    (''RKCompileErrorDuplicateSubpatternNames'', 43),
    (''RKCompileErrorInvalidUTF8String'', 44),
    (''RKCompileErrorMissingUnicodeSupport'', 45),
    (''RKCompileErrorMalformedUnicodeProperty'', 46),
    (''RKCompileErrorUnknownPropertyAfterUnicodeCharacter'', 47),
    (''RKCompileErrorSubpatternNameTooLong'', 48),
    (''RKCompileErrorTooManySubpatterns'', 49),
    (''RKCompileErrorRepeatedSubpatternTooLong'', 50),
    (''RKCompileErrorIllegalOctalValueOutsideUTF8'', 51),
    (''RKCompileErrorInternalOverranCompilingWorkspace'', 52),
    (''RKCompileErrorInternalReferencedSubpatternNotFound'', 53),
    (''RKCompileErrorDEFINEGroupContainsMoreThanOneBranch'', 54),
    (''RKCompileErrorRepeatingDEFINEGroupNotAllowed'', 55),
    (''RKCompileErrorInconsistentNewlineOptions'', 56),
    (''RKCompileErrorReferenceMustBeNonZeroNumberOrBraced'', 57),
    (''RKCompileErrorRelativeSubpatternNumberMustNotBeZero'', 58),
    (''RKCompileErrorVERBWithAnArgumentIsNotSupported'', 59),
    (''RKCompileErrorVERBNotRecognized'', 60),
    (''RKCompileErrorNumberIsTooBig'', 61),
    (''RKCompileErrorSubpatternNameExpected'', 62),
    (''RKCompileErrorDigitExpectedAfterRelativeSubpattern'', 63)]\<close>

definition RKMatchErrorNoError :: int where "RKMatchErrorNoError = 0"
definition RKMatchErrorNoMatch :: int where "RKMatchErrorNoMatch = -1"
definition RKMatchErrorNoMemory :: int where "RKMatchErrorNoMemory = -6"
definition RKMatchErrorBadOption :: int where "RKMatchErrorBadOption = -3"
definition RKCompileErrorNoError :: int where "RKCompileErrorNoError = 0"

section \<open>Lemmas\<close>

lemmas option_bits = RKMatchNoOptions_def
  RKMatchAnchored_def
  RKMatchNotBeginningOfLine_def
  RKMatchNotEndOfLine_def
  RKMatchNotEmpty_def
  RKMatchNoUTF8Check_def
  RKMatchPartial_def
  RKMatchNewlineDefault_def
  RKMatchNewlineCR_def
  RKMatchNewlineLF_def
  RKMatchNewlineCRLF_def
  RKMatchNewlineAny_def
  RKMatchNewlineAnyCRLF_def
  RKMatchNewlineMask_def
  RKMatchBackslashRAnyCRLR_def
  RKMatchBackslashRUnicode_def
  RKCompileNoOptions_def
  RKCompileCaseless_def
  RKCompileMultiline_def
  RKCompileDotAll_def
  RKCompileExtended_def
  RKCompileAnchored_def
  RKCompileDollarEndOnly_def
  RKCompileExtra_def
  RKCompileUngreedy_def
  RKCompileUTF8_def
  RKCompileNoAutoCapture_def
  RKCompileNoUTF8Check_def
  RKCompileAutoCallout_def
  RKCompileFirstLine_def
  RKCompileDupNames_def
  RKCompileBackslashRAnyCRLR_def
  RKCompileBackslashRUnicode_def
  RKCompileNewlineDefault_def
  RKCompileNewlineCR_def
  RKCompileNewlineLF_def
  RKCompileNewlineCRLF_def
  RKCompileNewlineAny_def
  RKCompileNewlineAnyCRLF_def
  RKCompileNewlineMask_def
  RKCompileNewlineShift_def
  RKBuildConfigNoOptions_def
  RKBuildConfigUTF8_def
  RKBuildConfigUnicodeProperties_def
  RKBuildConfigNewlineDefault_def
  RKBuildConfigNewlineCR_def
  RKBuildConfigNewlineLF_def
  RKBuildConfigNewlineCRLF_def
  RKBuildConfigNewlineAny_def
  RKBuildConfigNewlineAnyCRLF_def
  RKBuildConfigNewlineMask_def
  RKBuildConfigBackslashRAnyCRLR_def
  RKBuildConfigBackslashRUnicode_def

text \<open>No two enumerators share a value, and the values skip the numbers PCRE retired.\<close>

lemma error_enums_distinct:
  "distinct (map snd RKMatchErrorCode_enum)" "distinct (map snd RKCompileErrorCode_enum)"
  by (simp_all add: RKMatchErrorCode_enum_def RKCompileErrorCode_enum_def)

end
