(* ===== verification/RK_Utility.thy ===== *)
theory RK_Utility
  imports RK_Types
begin

text \<open>
  \<open>RKUtility.m\<close> and the message table of \<open>RKPrivate.m\<close>: the text forms of option sets and of error
  codes. Each \<open>switch\<close> is a table from the case label's value to its string, searched from the top,
  with its \<open>default\<close> as the case of a failed search.
\<close>

section \<open>Decoding option sets\<close>

text \<open>An element of the array: the name of an option, or the text for bits that have no name.\<close>

datatype option_text =
    OptionName string
  | UnknownNewline u32
  | UnknownOptions u32

definition RKStringFromNewlineOption :: "u32 \<Rightarrow> string \<Rightarrow> option_text" where
  "RKStringFromNewlineOption decodeNewlineOption prefixString =
     (let newlineOption = decodeNewlineOption AND RKMatchNewlineMask
      in if newlineOption = 0 then OptionName (prefixString @ ''Default'')
         else if newlineOption = RKCompileNewlineCR then OptionName (prefixString @ ''NewlineCR'')
         else if newlineOption = RKCompileNewlineLF then OptionName (prefixString @ ''NewlineLF'')
         else if newlineOption = RKCompileNewlineCRLF then OptionName (prefixString @ ''NewlineCRLF'')
         else if newlineOption = RKCompileNewlineAnyCRLF then OptionName (prefixString @ ''NewlineAnyCRLF'')
         else if newlineOption = RKCompileNewlineAny then OptionName (prefixString @ ''NewlineAny'')
         else UnknownNewline newlineOption)"

text \<open>One of the \<open>if\<close> statements: it appends the option's name and records its bit.\<close>

definition decode_option ::
  "u32 \<Rightarrow> string \<times> u32 \<Rightarrow> option_text list \<times> u32 \<Rightarrow> option_text list \<times> u32" where
  "decode_option opts entry acc =
     (if opts AND snd entry \<noteq> 0 then (fst acc @ [OptionName (fst entry)], snd acc OR snd entry) else acc)"

text \<open>The shape the three functions share, with their table, newline prefix and empty name.\<close>

definition decode_options ::
  "u32 \<Rightarrow> (string \<times> u32) list \<Rightarrow> string \<Rightarrow> string \<Rightarrow> u32 \<Rightarrow> option_text list" where
  "decode_options start table prefix none opts =
     (let (strings, decoded) = fold (decode_option opts) table ([], start);
          strings = (if opts AND RKMatchNewlineMask \<noteq> 0
                     then strings @ [RKStringFromNewlineOption opts prefix] else strings);
          decoded = (decoded OR (opts AND RKMatchNewlineMask)) XOR 0xFFFFFFFF;
          strings = (if decoded AND opts \<noteq> 0 then strings @ [UnknownOptions (decoded AND opts)] else strings)
      in if strings = [] then [OptionName none] else strings)"

definition match_option_table :: \<open>(string \<times> u32) list\<close> where
  \<open>match_option_table =
   [(''RKMatchAnchored'', RKMatchAnchored),
    (''RKMatchNotBeginningOfLine'', RKMatchNotBeginningOfLine),
    (''RKMatchNotEndOfLine'', RKMatchNotEndOfLine),
    (''RKMatchNotEmpty'', RKMatchNotEmpty),
    (''RKMatchNoUTF8Check'', RKMatchNoUTF8Check),
    (''RKMatchPartial'', RKMatchPartial),
    (''RKMatchBackslashRAnyCRLR'', RKMatchBackslashRAnyCRLR),
    (''RKMatchBackslashRUnicode'', RKMatchBackslashRUnicode)]\<close>

definition compile_option_table :: \<open>(string \<times> u32) list\<close> where
  \<open>compile_option_table =
   [(''RKCompileNoOptions'', RKCompileNoOptions),
    (''RKCompileCaseless'', RKCompileCaseless),
    (''RKCompileMultiline'', RKCompileMultiline),
    (''RKCompileDotAll'', RKCompileDotAll),
    (''RKCompileExtended'', RKCompileExtended),
    (''RKCompileAnchored'', RKCompileAnchored),
    (''RKCompileDollarEndOnly'', RKCompileDollarEndOnly),
    (''RKCompileExtra'', RKCompileExtra),
    (''RKCompileUngreedy'', RKCompileUngreedy),
    (''RKCompileUTF8'', RKCompileUTF8),
    (''RKCompileNoAutoCapture'', RKCompileNoAutoCapture),
    (''RKCompileNoUTF8Check'', RKCompileNoUTF8Check),
    (''RKCompileAutoCallout'', RKCompileAutoCallout),
    (''RKCompileFirstLine'', RKCompileFirstLine),
    (''RKCompileDupNames'', RKCompileDupNames),
    (''RKCompileBackslashRAnyCRLR'', RKCompileBackslashRAnyCRLR),
    (''RKCompileBackslashRUnicode'', RKCompileBackslashRUnicode)]\<close>

definition build_config_table :: \<open>(string \<times> u32) list\<close> where
  \<open>build_config_table =
   [(''RKBuildConfigUTF8'', RKBuildConfigUTF8),
    (''RKBuildConfigUnicodeProperties'', RKBuildConfigUnicodeProperties),
    (''RKBuildConfigBackslashRAnyCRLR'', RKBuildConfigBackslashRAnyCRLR),
    (''RKBuildConfigBackslashRUnicode'', RKBuildConfigBackslashRUnicode)]\<close>

definition RKArrayFromMatchOption :: "u32 \<Rightarrow> option_text list" where
  "RKArrayFromMatchOption = decode_options RKMatchNewlineMask match_option_table ''RKMatch'' ''RKMatchNoOptions''"

definition RKArrayFromCompileOption :: "u32 \<Rightarrow> option_text list" where
  "RKArrayFromCompileOption =
     decode_options RKCompileNewlineMask compile_option_table ''RKCompile'' ''RKCompileNoOptions''"

definition RKArrayFromBuildConfig :: "u32 \<Rightarrow> option_text list" where
  "RKArrayFromBuildConfig =
     decode_options RKBuildConfigNoOptions build_config_table ''RKBuildConfig'' ''RKBuildConfigNoOptions''"

text \<open>\<open>RKArrayOfPrettyNewlineTypes\<close>: the name and the value of each newline option.\<close>

definition RKArrayOfPrettyNewlineTypes :: "string \<Rightarrow> (option_text \<times> u32) list" where
  "RKArrayOfPrettyNewlineTypes prefixString =
     map (\<lambda>opt. (RKStringFromNewlineOption opt prefixString, opt))
       [RKCompileNewlineDefault, RKCompileNewlineCR, RKCompileNewlineLF, RKCompileNewlineCRLF,
        RKCompileNewlineAnyCRLF, RKCompileNewlineAny]"

section \<open>Error codes\<close>

datatype error_text =
    ErrorName string
  | UnknownErrorCode int
  | UnknownError

definition compile_error_strings :: \<open>(int \<times> string) list\<close> where
  \<open>compile_error_strings =
   [(0, ''RKCompileErrorNoError''),
    (1, ''RKCompileErrorEscapeAtEndOfPattern''),
    (2, ''RKCompileErrorByteEscapeAtEndOfPattern''),
    (3, ''RKCompileErrorUnrecognizedCharacterFollowingEscape''),
    (4, ''RKCompileErrorNumbersOutOfOrder''),
    (5, ''RKCompileErrorNumbersToBig''),
    (6, ''RKCompileErrorMissingTerminatorForCharacterClass''),
    (7, ''RKCompileErrorInvalidEscapeInCharacterClass''),
    (8, ''RKCompileErrorRangeOutOfOrderInCharacterClass''),
    (9, ''RKCompileErrorNothingToRepeat''),
    (11, ''RKCompileErrorInternalErrorUnexpectedRepeat''),
    (12, ''RKCompileErrorUnrecognizedCharacterAfterOption''),
    (13, ''RKCompileErrorPOSIXNamedClassOutsideOfClass''),
    (14, ''RKCompileErrorMissingParentheses''),
    (15, ''RKCompileErrorReferenceToNonExistentSubpattern''),
    (16, ''RKCompileErrorErrorOffsetPassedAsNull''),
    (17, ''RKCompileErrorUnknownOptionBits''),
    (18, ''RKCompileErrorMissingParenthesesAfterComment''),
    (20, ''RKCompileErrorRegexTooLarge''),
    (21, ''RKCompileErrorNoMemory''),
    (22, ''RKCompileErrorUnmatchedParentheses''),
    (23, ''RKCompileErrorInternalCodeOverflow''),
    (24, ''RKCompileErrorUnrecognizedCharacterAfterNamedSubppatern''),
    (25, ''RKCompileErrorLookbehindAssertionNotFixedLength''),
    (26, ''RKCompileErrorMalformedNameOrNumberAfterSubpattern''),
    (27, ''RKCompileErrorConditionalGroupContainsMoreThanTwoBranches''),
    (28, ''RKCompileErrorAssertionExpectedAfterCondition''),
    (29, ''RKCompileErrorMissingEndParentheses''),
    (30, ''RKCompileErrorUnknownPOSIXClassName''),
    (31, ''RKCompileErrorPOSIXCollatingNotSupported''),
    (32, ''RKCompileErrorMissingUTF8Support''),
    (34, ''RKCompileErrorHexCharacterValueTooLarge''),
    (35, ''RKCompileErrorInvalidCondition''),
    (36, ''RKCompileErrorNotAllowedInLookbehindAssertion''),
    (37, ''RKCompileErrorNotSupported''),
    (38, ''RKCompileErrorCalloutExceedsMaximumAllowed''),
    (39, ''RKCompileErrorMissingParenthesesAfterCallout''),
    (40, ''RKCompileErrorRecursiveInfinitLoop''),
    (41, ''RKCompileErrorUnrecognizedCharacterAfterNamedPattern''),
    (42, ''RKCompileErrorSubpatternNameMissingTerminator''),
    (43, ''RKCompileErrorDuplicateSubpatternNames''),
    (44, ''RKCompileErrorInvalidUTF8String''),
    (45, ''RKCompileErrorMissingUnicodeSupport''),
    (46, ''RKCompileErrorMalformedUnicodeProperty''),
    (47, ''RKCompileErrorUnknownPropertyAfterUnicodeCharacter''),
    (48, ''RKCompileErrorSubpatternNameTooLong''),
    (49, ''RKCompileErrorTooManySubpatterns''),
    (50, ''RKCompileErrorRepeatedSubpatternTooLong''),
    (51, ''RKCompileErrorIllegalOctalValueOutsideUTF8''),
    (52, ''RKCompileErrorInternalOverranCompilingWorkspace''),
    (53, ''RKCompileErrorInternalReferencedSubpatternNotFound''),
    (54, ''RKCompileErrorDEFINEGroupContainsMoreThanOneBranch''),
    (55, ''RKCompileErrorRepeatingDEFINEGroupNotAllowed''),
    (56, ''RKCompileErrorInconsistentNewlineOptions''),
    (57, ''RKCompileErrorReferenceMustBeNonZeroNumberOrBraced''),
    (58, ''RKCompileErrorRelativeSubpatternNumberMustNotBeZero''),
    (59, ''RKCompileErrorVERBWithAnArgumentIsNotSupported''),
    (60, ''RKCompileErrorVERBNotRecognized''),
    (61, ''RKCompileErrorNumberIsTooBig''),
    (62, ''RKCompileErrorSubpatternNameExpected''),
    (63, ''RKCompileErrorDigitExpectedAfterRelativeSubpattern'')]\<close>

definition match_error_strings :: \<open>(int \<times> string) list\<close> where
  \<open>match_error_strings =
   [(0, ''RKMatchErrorNoError''),
    (-1, ''RKMatchErrorNoMatch''),
    (-2, ''RKMatchErrorNull''),
    (-3, ''RKMatchErrorBadOption''),
    (-4, ''RKMatchErrorBadMagic''),
    (-5, ''RKMatchErrorUnknownOpcode''),
    (-6, ''RKMatchErrorNoMemory''),
    (-7, ''RKMatchErrorNoSubstring''),
    (-8, ''RKMatchErrorMatchLimit''),
    (-9, ''RKMatchErrorCallout''),
    (-10, ''RKMatchErrorBadUTF8''),
    (-11, ''RKMatchErrorBadUTF8Offset''),
    (-12, ''RKMatchErrorPartial''),
    (-13, ''RKMatchErrorBadPartial''),
    (-14, ''RKMatchErrorInternal''),
    (-15, ''RKMatchErrorBadCount''),
    (-21, ''RKMatchErrorRecursionLimit''),
    (-22, ''RKMatchErrorNullWorkSpaceLimit''),
    (-23, ''RKMatchErrorBadNewline'')]\<close>

definition compile_error_characters :: \<open>(int \<times> string) list\<close> where
  \<open>compile_error_characters =
   [(0, ''RKCompileErrorNoError''),
    (1, ''RKCompileErrorEscapeAtEndOfPattern''),
    (2, ''RKCompileErrorByteEscapeAtEndOfPattern''),
    (3, ''RKCompileErrorUnrecognizedCharacterFollowingEscape''),
    (4, ''RKCompileErrorNumbersOutOfOrder''),
    (5, ''RKCompileErrorNumbersToBig''),
    (6, ''RKCompileErrorMissingTerminatorForCharacterClass''),
    (7, ''RKCompileErrorInvalidEscapeInCharacterClass''),
    (8, ''RKCompileErrorRangeOutOfOrderInCharacterClass''),
    (9, ''RKCompileErrorNothingToRepeat''),
    (11, ''RKCompileErrorInternalErrorUnexpectedRepeat''),
    (12, ''RKCompileErrorUnrecognizedCharacterAfterOption''),
    (13, ''RKCompileErrorPOSIXNamedClassOutsideOfClass''),
    (14, ''RKCompileErrorMissingParentheses''),
    (15, ''RKCompileErrorReferenceToNonExistentSubpattern''),
    (16, ''RKCompileErrorErrorOffsetPassedAsNull''),
    (17, ''RKCompileErrorUnknownOptionBits''),
    (18, ''RKCompileErrorMissingParenthesesAfterComment''),
    (20, ''RKCompileErrorRegexTooLarge''),
    (21, ''RKCompileErrorNoMemory''),
    (22, ''RKCompileErrorUnmatchedParentheses''),
    (23, ''RKCompileErrorInternalCodeOverflow''),
    (24, ''RKCompileErrorUnrecognizedCharacterAfterNamedSubppatern''),
    (25, ''RKCompileErrorLookbehindAssertionNotFixedLength''),
    (26, ''RKCompileErrorMalformedNameOrNumberAfterSubpattern''),
    (27, ''RKCompileErrorConditionalGroupContainsMoreThanTwoBranches''),
    (28, ''RKCompileErrorAssertionExpectedAfterCondition''),
    (29, ''RKCompileErrorMissingEndParentheses''),
    (30, ''RKCompileErrorUnknownPOSIXClassName''),
    (31, ''RKCompileErrorPOSIXCollatingNotSupported''),
    (32, ''RKCompileErrorMissingUTF8Support''),
    (34, ''RKCompileErrorHexCharacterValueTooLarge''),
    (35, ''RKCompileErrorInvalidCondition''),
    (36, ''RKCompileErrorNotAllowedInLookbehindAssertion''),
    (37, ''RKCompileErrorNotSupported''),
    (38, ''RKCompileErrorCalloutExceedsMaximumAllowed''),
    (39, ''RKCompileErrorMissingParenthesesAfterCallout''),
    (40, ''RKCompileErrorRecursiveInfinitLoop''),
    (41, ''RKCompileErrorUnrecognizedCharacterAfterNamedPattern''),
    (42, ''RKCompileErrorSubpatternNameMissingTerminator''),
    (43, ''RKCompileErrorDuplicateSubpatternNames''),
    (44, ''RKCompileErrorInvalidUTF8String''),
    (45, ''RKCompileErrorMissingUnicodeSupport''),
    (46, ''RKCompileErrorMalformedUnicodeProperty''),
    (47, ''RKCompileErrorUnknownPropertyAfterUnicodeCharacter''),
    (48, ''RKCompileErrorSubpatternNameTooLong''),
    (49, ''RKCompileErrorTooManySubpatterns''),
    (50, ''RKCompileErrorRepeatedSubpatternTooLong''),
    (51, ''RKCompileErrorIllegalOctalValueOutsideUTF8''),
    (52, ''RKCompileErrorInternalOverranCompilingWorkspace''),
    (53, ''RKCompileErrorInternalReferencedSubpatternNotFound''),
    (54, ''RKCompileErrorDEFINEGroupContainsMoreThanOneBranch''),
    (55, ''RKCompileErrorRepeatingDEFINEGroupNotAllowed''),
    (56, ''RKCompileErrorInconsistentNewlineOptions''),
    (57, ''RKCompileErrorReferenceMustBeNonZeroNumberOrBraced''),
    (58, ''RKCompileErrorRelativeSubpatternNumberMustNotBeZero'')]\<close>

definition match_error_characters :: \<open>(int \<times> string) list\<close> where
  \<open>match_error_characters =
   [(0, ''RKMatchErrorNoError''),
    (-1, ''RKMatchErrorNoMatch''),
    (-2, ''RKMatchErrorNull''),
    (-3, ''RKMatchErrorBadOption''),
    (-4, ''RKMatchErrorBadMagic''),
    (-5, ''RKMatchErrorUnknownOpcode''),
    (-6, ''RKMatchErrorNoMemory''),
    (-7, ''RKMatchErrorNoSubstring''),
    (-8, ''RKMatchErrorMatchLimit''),
    (-9, ''RKMatchErrorCallout''),
    (-10, ''RKMatchErrorBadUTF8''),
    (-11, ''RKMatchErrorBadUTF8Offset''),
    (-12, ''RKMatchErrorPartial''),
    (-13, ''RKMatchErrorBadPartial''),
    (-14, ''RKMatchErrorInternal''),
    (-15, ''RKMatchErrorBadCount''),
    (-21, ''RKMatchErrorRecursionLimit''),
    (-22, ''RKMatchErrorNullWorkSpaceLimit''),
    (-23, ''RKMatchErrorBadNewline'')]\<close>

definition compile_error_messages :: \<open>(int \<times> string) list\<close> where
  \<open>compile_error_messages =
   [(0, ''No error.''),
    (1, ''The start of an escape sequence, '' @ CHR 0x27 # CHR 0x5C # CHR 0x27 # '', was found at end of the regular expression.''),
    (2, CHR 0x27 # CHR 0x5C # ''c'' @ CHR 0x27 # '' at end of pattern.''),
    (3, ''Unknown escape sequence specified by the character following '' @ CHR 0x27 # CHR 0x5C # CHR 0x27 # ''.''),
    (4, ''The numbers are out of order in the '' @ CHR 0x27 # ''{x, y}'' @ CHR 0x27 # '' quantifier.''),
    (5, ''Number too big in {} quantifier.''),
    (6, ''The terminating '' @ CHR 0x27 # '']'' @ CHR 0x27 # '' for the '' @ CHR 0x27 # ''[...]'' @ CHR 0x27 # '' character class is missing.''),
    (7, ''Invalid escape sequence inside the '' @ CHR 0x27 # ''[...]'' @ CHR 0x27 # '' character class.''),
    (8, ''Invalid character range specified inside the '' @ CHR 0x27 # ''[a-z]'' @ CHR 0x27 # '' character class.''),
    (9, ''Nothing to repeat.''),
    (11, ''Internal error, unexpected repeat.''),
    (12, ''Unrecognized character after '' @ CHR 0x27 # ''(?'' @ CHR 0x27 # ''.''),
    (13, ''POSIX named classes are supported only within a '' @ CHR 0x27 # ''[...]'' @ CHR 0x27 # '' character class.''),
    (14, ''The closing '' @ CHR 0x27 # '')'' @ CHR 0x27 # '' for a '' @ CHR 0x27 # ''(...)'' @ CHR 0x27 # '' parenthesis pair is missing.''),
    (15, ''Reference to non-existent subpattern.''),
    (16, ''Internal error, the error offset argument to pcre_exec() may not be NULL.''),
    (17, ''Unrecognized compile option bit(s) set.''),
    (18, ''Missing '' @ CHR 0x27 # '')'' @ CHR 0x27 # '' after comment.''),
    (20, ''The regular expression is too large.''),
    (21, ''Memory allocation failure.''),
    (22, ''Unmatched parentheses.''),
    (23, ''Internal error, code overflow.''),
    (24, ''Unrecognized character after '' @ CHR 0x27 # ''(?<'' @ CHR 0x27 # ''.''),
    (25, ''Lookbehind assertion is not fixed length.''),
    (26, ''Malformed number or name after '' @ CHR 0x27 # ''(?('' @ CHR 0x27 # ''.''),
    (27, ''The conditional group contains more than two branches.''),
    (28, ''Assertion expected after '' @ CHR 0x27 # ''(?('' @ CHR 0x27 # ''.''),
    (29, CHR 0x27 # ''(?R'' @ CHR 0x27 # '' or '' @ CHR 0x27 # ''(?DIGITS'' @ CHR 0x27 # '' must be followed by '' @ CHR 0x27 # '')'' @ CHR 0x27 # ''.''),
    (30, ''Unknown POSIX class name.''),
    (31, ''POSIX collating elements are not supported.''),
    (32, ''The PCRE library was not built with UTF8 support.''),
    (34, ''The character value in '' @ CHR 0x27 # CHR 0x5C # ''x{...}'' @ CHR 0x27 # '' sequence is too large.''),
    (35, ''Invalid condition '' @ CHR 0x27 # ''(?(0)'' @ CHR 0x27 # ''.''),
    (36, ''The escape sequence '' @ CHR 0x27 # CHR 0x5C # ''C'' @ CHR 0x27 # '' is not permittedd in a look-behind assertion.''),
    (37, ''PCRE does not support '' @ CHR 0x27 # CHR 0x5C # ''L'' @ CHR 0x27 # '', '' @ CHR 0x27 # CHR 0x5C # ''l'' @ CHR 0x27 # '', '' @ CHR 0x27 # CHR 0x5C # ''N'' @ CHR 0x27 # '', '' @ CHR 0x27 # CHR 0x5C # ''U'' @ CHR 0x27 # '', or '' @ CHR 0x27 # CHR 0x5C # ''u'' @ CHR 0x27 # ''.''),
    (38, ''The number after '' @ CHR 0x27 # ''(?C'' @ CHR 0x27 # '' is greater than 255.''),
    (39, ''The closing '' @ CHR 0x27 # '')'' @ CHR 0x27 # '' for '' @ CHR 0x27 # ''(?C'' @ CHR 0x27 # '' is missing.''),
    (40, ''The recursive call could loop indefinitely.''),
    (41, ''Unrecognized character after '' @ CHR 0x27 # ''(?P'' @ CHR 0x27 # ''.''),
    (42, ''Syntax error in subpattern name (missing terminator).''),
    (43, ''The name of a named subpattern must be unique when the duplicate names compile option is not set.''),
    (44, ''Invalid UTF8 string.''),
    (45, ''The escape sequences '' @ CHR 0x27 # CHR 0x5C # ''P'' @ CHR 0x27 # '', '' @ CHR 0x27 # CHR 0x5C # ''p'' @ CHR 0x27 # '', and '' @ CHR 0x27 # CHR 0x5C # ''X'' @ CHR 0x27 # '' are not valid because the PCRE library was not built with Unicode support.''),
    (46, ''Malformed '' @ CHR 0x27 # CHR 0x5C # ''P'' @ CHR 0x27 # '' or '' @ CHR 0x27 # CHR 0x5C # ''p'' @ CHR 0x27 # '' escape sequence.''),
    (47, ''Unknown property name after '' @ CHR 0x27 # CHR 0x5C # ''P'' @ CHR 0x27 # '' or '' @ CHR 0x27 # CHR 0x5C # ''p'' @ CHR 0x27 # ''.''),
    (48, ''The named subpattern exceeds the maximum length of 32 characters.''),
    (49, ''The number of named subpatterns exceeds the maximum of 10,000.''),
    (50, ''The repeated subpattern is too long.''),
    (51, ''Octal values greater than '' @ CHR 0x27 # CHR 0x5C # ''377'' @ CHR 0x27 # '' are not permited when the UTF8 compile option is not set.''),
    (52, ''Internal error, overran compiling workspace.''),
    (53, ''Internal error, previously-checked referenced subpattern was not found.''),
    (54, ''The DEFINE group contains more than one branch.''),
    (55, ''Repeating a DEFINE group is not allowed.''),
    (56, ''Inconsistent newline compile option.''),
    (57, ''The '' @ CHR 0x27 # CHR 0x5C # ''g'' @ CHR 0x27 # '' escape sequence must be followed by a non-zero number, or a braced name or number, e.g. '' @ CHR 0x27 # ''{name}'' @ CHR 0x27 # '' or '' @ CHR 0x27 # ''{0123}'' @ CHR 0x27 # ''.''),
    (58, ''The relative subpattern reference parameter to '' @ CHR 0x27 # ''(?+'' @ CHR 0x27 # '' , '' @ CHR 0x27 # ''(?-'' @ CHR 0x27 # '' , '' @ CHR 0x27 # ''(?(+'' @ CHR 0x27 # '', or '' @ CHR 0x27 # ''(?(-'' @ CHR 0x27 # '' must be followed by a non-zero number.''),
    (59, ''PCRE does not support arguments to '' @ CHR 0x27 # ''(*VERB)'' @ CHR 0x27 # '' control verbs.''),
    (60, ''Unrecognized '' @ CHR 0x27 # ''(*VERB)'' @ CHR 0x27 # '' control verb.''),
    (61, ''The number is too large, valid numbers are less than 2147483647.''),
    (62, ''A named subpattern is required.''),
    (63, ''A number is required after a '' @ CHR 0x27 # ''(?+'' @ CHR 0x27 # '' relative subpattern reference.'')]\<close>

definition RKStringFromCompileErrorCode :: "int \<Rightarrow> error_text" where
  "RKStringFromCompileErrorCode code =
     (case map_of compile_error_strings code of Some s \<Rightarrow> ErrorName s | None \<Rightarrow> UnknownErrorCode code)"

definition RKStringFromMatchErrorCode :: "int \<Rightarrow> error_text" where
  "RKStringFromMatchErrorCode code =
     (if code > 0 then ErrorName []
      else case map_of match_error_strings code of Some s \<Rightarrow> ErrorName s | None \<Rightarrow> UnknownErrorCode code)"

definition RKCharactersFromCompileErrorCode :: "int \<Rightarrow> error_text" where
  "RKCharactersFromCompileErrorCode code =
     (case map_of compile_error_characters code of Some s \<Rightarrow> ErrorName s | None \<Rightarrow> UnknownError)"

definition RKCharactersFromMatchErrorCode :: "int \<Rightarrow> error_text" where
  "RKCharactersFromMatchErrorCode code =
     (if code > 0 then ErrorName []
      else case map_of match_error_characters code of Some s \<Rightarrow> ErrorName s | None \<Rightarrow> UnknownError)"

definition RKLocalizedStringForPCRECompileErrorCode :: "int \<Rightarrow> error_text" where
  "RKLocalizedStringForPCRECompileErrorCode code =
     (case map_of compile_error_messages code of Some s \<Rightarrow> ErrorName s | None \<Rightarrow> UnknownErrorCode code)"

section \<open>Reading an array back\<close>

text \<open>
  The bits an array stands for: each name through a table of names, unknown bits as they are. The
  tables used below are those of the code with the newline names added.
\<close>

fun option_text_bits :: "(string \<times> u32) list \<Rightarrow> option_text \<Rightarrow> u32" where
  "option_text_bits table (OptionName n) = (case map_of table n of Some b \<Rightarrow> b | None \<Rightarrow> 0)"
| "option_text_bits table (UnknownNewline b) = b"
| "option_text_bits table (UnknownOptions b) = b"

definition options_of_array :: "(string \<times> u32) list \<Rightarrow> option_text list \<Rightarrow> u32" where
  "options_of_array table texts = foldr (\<lambda>t acc. option_text_bits table t OR acc) texts 0"

definition newline_names :: "string \<Rightarrow> (string \<times> u32) list" where
  "newline_names prefix =
     [(prefix @ ''NewlineCR'', RKCompileNewlineCR), (prefix @ ''NewlineLF'', RKCompileNewlineLF),
      (prefix @ ''NewlineCRLF'', RKCompileNewlineCRLF),
      (prefix @ ''NewlineAnyCRLF'', RKCompileNewlineAnyCRLF), (prefix @ ''NewlineAny'', RKCompileNewlineAny)]"

definition single_bits :: "u32 list" where
  "single_bits = map (\<lambda>k. 2 ^ k) [0..<32]"

lemma single_bits_list:
  "single_bits =
    [1, 2, 4, 8, 16, 32, 64, 128, 256, 512, 1024, 2048, 4096, 8192, 16384, 32768, 65536,
     131072, 262144, 524288, 1048576, 2097152, 4194304, 8388608, 16777216, 33554432, 67108864,
     134217728, 268435456, 536870912, 1073741824, 2147483648]"
  by (simp add: single_bits_def upt_conv_Cons)

text \<open>Every entry of a decoding table is a single bit (or none) under its own name.\<close>

definition table_ok :: "(string \<times> u32) list \<Rightarrow> (string \<times> u32) list \<Rightarrow> bool" where
  "table_ok names table \<longleftrightarrow>
     list_all (\<lambda>(n, b). map_of names n = Some b \<and> b \<in> set (0 # single_bits)) table"

definition table_bits :: "(string \<times> u32) list \<Rightarrow> u32" where
  "table_bits table = foldr (\<lambda>e acc. snd e OR acc) table 0"

lemma options_of_array_append:
  "options_of_array names (xs @ ys) = options_of_array names xs OR options_of_array names ys"
  by (induction xs) (simp_all add: options_of_array_def or.assoc del: foldr_append)

lemma options_of_array_simps [simp]:
  "options_of_array names [] = 0"
  "options_of_array names [t] = option_text_bits names t"
  by (simp_all add: options_of_array_def)

lemma single_bit_and:
  "b \<in> set (0 # single_bits) \<Longrightarrow> (w :: u32) AND b \<noteq> 0 \<Longrightarrow> w AND b = b"
  by (auto simp: single_bits_def bit_simps and_exp_eq_0_iff_not_bit intro!: bit_word_eqI)

lemma decode_option_eq:
  "opts AND b = 0 \<Longrightarrow> decode_option opts (n, b) acc = acc"
  "opts AND b \<noteq> 0 \<Longrightarrow> decode_option opts (n, b) acc = (fst acc @ [OptionName n], snd acc OR b)"
  by (simp_all add: decode_option_def)

lemma decode_fold:
  assumes "table_ok names table"
  shows "fold (decode_option opts) table (ss, d) =
    (let r = fold (decode_option opts) table ([], 0) in (ss @ fst r, d OR snd r)) \<and>
    options_of_array names (fst (fold (decode_option opts) table ([], 0))) = opts AND table_bits table \<and>
    snd (fold (decode_option opts) table ([], 0)) = opts AND table_bits table"
  using assms
proof (induction table arbitrary: ss d)
  case Nil
  then show ?case by (simp add: table_bits_def)
next
  case (Cons e table)
  obtain n b where e: "e = (n, b)" by (cases e)
  have ok: "table_ok names table" and name: "map_of names n = Some b"
    and bit: "b \<in> set (0 # single_bits)"
    using Cons.prems by (auto simp: table_ok_def e)
  obtain r where r: "fst (fold (decode_option opts) table ([], 0)) = r" by simp
  have tail: "fold (decode_option opts) table (ss', d') = (ss' @ r, d' OR (opts AND table_bits table))" for ss' d'
    using Cons.IH [OF ok, of ss' d'] by (simp add: Let_def r)
  have bits: "options_of_array names r = opts AND table_bits table"
    using Cons.IH [OF ok] r by blast
  have tb: "opts AND table_bits ((n, b) # table) = (opts AND b) OR (opts AND table_bits table)"
    by (simp add: table_bits_def bit.conj_disj_distrib)
  show ?case
  proof (cases "opts AND b = 0")
    case True
    then show ?thesis by (simp add: decode_option_eq e tail bits tb)
  next
    case False
    then have "opts AND b = b" using single_bit_and [OF bit] by blast
    with False show ?thesis
      by (simp add: decode_option_eq e tail bits tb name or.assoc
          options_of_array_append [of names "[_]", simplified])
  qed
qed

lemma newline_mask_bits:
  assumes "\<And>n b. (n, b) \<in> set (newline_names prefix) \<Longrightarrow> map_of names n = Some b"
  shows "opts AND RKMatchNewlineMask \<noteq> 0 \<Longrightarrow>
    option_text_bits names (RKStringFromNewlineOption opts prefix) = opts AND RKMatchNewlineMask"
  using assms unfolding RKStringFromNewlineOption_def Let_def newline_names_def by auto

lemma decode_options_complete:
  assumes ok: "table_ok names table" and start: "start = 0 \<or> start = RKMatchNewlineMask"
    and nl: "\<And>n b. (n, b) \<in> set (newline_names prefix) \<Longrightarrow> map_of names n = Some b"
    and none: "map_of names none \<in> {None, Some 0}"
  shows "options_of_array names (decode_options start table prefix none opts) = opts"
proof -
  let ?M = "RKMatchNewlineMask" and ?T = "table_bits table"
  define r where "r = fst (fold (decode_option opts) table ([], 0))"
  have f: "fold (decode_option opts) table ([], start) = (r, start OR (opts AND ?T))"
    and r: "options_of_array names r = opts AND ?T"
    using decode_fold [OF ok, of opts "[]" start] by (simp_all add: r_def Let_def)
  define left where "left = (((start OR (opts AND ?T)) OR (opts AND ?M)) XOR 0xFFFFFFFF) AND opts"
  have left: "left = opts AND NOT (start OR ?T OR ?M)"
  proof -
    have ones: "(0xFFFFFFFF :: u32) = - 1" by simp
    show ?thesis
      unfolding left_def ones using start by (auto intro!: bit_word_eqI simp: bit_simps)
  qed
  have all: "(opts AND ?T) OR (opts AND ?M) OR left = opts"
    unfolding left using start by (auto intro!: bit_word_eqI simp: bit_simps)
  define s1 where "s1 = (if opts AND ?M \<noteq> 0 then r @ [RKStringFromNewlineOption opts prefix] else r)"
  define s2 where "s2 = (if left \<noteq> 0 then s1 @ [UnknownOptions left] else s1)"
  have s1: "options_of_array names s1 = (opts AND ?T) OR (opts AND ?M)"
    using newline_mask_bits [OF nl, where opts = opts] by (auto simp: s1_def options_of_array_append r)
  have s2: "options_of_array names s2 = opts"
    using all by (auto simp: s2_def options_of_array_append s1 or.assoc)
  have "decode_options start table prefix none opts = (if s2 = [] then [OptionName none] else s2)"
    by (simp add: decode_options_def f Let_def s2_def s1_def left_def)
  then show ?thesis using s2 none by auto
qed

text \<open>
  No option bit is lost or invented: reading the array back through the names gives the option
  word the array was made from, for each of the \<open>2 ^ 32\<close> words and for all three decoders.
\<close>

lemma RKArrayFrom_options_roundtrip:
  "options_of_array (match_option_table @ newline_names ''RKMatch'') (RKArrayFromMatchOption opts) = opts \<and>
   options_of_array (compile_option_table @ newline_names ''RKCompile'') (RKArrayFromCompileOption opts) = opts \<and>
   options_of_array (build_config_table @ newline_names ''RKBuildConfig'') (RKArrayFromBuildConfig opts) = opts"
  unfolding RKArrayFromMatchOption_def RKArrayFromCompileOption_def RKArrayFromBuildConfig_def
  by (intro conjI decode_options_complete)
    (simp_all add: table_ok_def match_option_table_def compile_option_table_def build_config_table_def
      newline_names_def option_bits single_bits_list map_add_def, auto)

section \<open>The error code tables agree\<close>

fun forget_code :: "error_text \<Rightarrow> error_text" where
  "forget_code (ErrorName s) = ErrorName s"
| "forget_code (UnknownErrorCode c) = UnknownError"
| "forget_code UnknownError = UnknownError"

fun is_known :: "error_text \<Rightarrow> bool" where
  "is_known (ErrorName s) = True"
| "is_known (UnknownErrorCode c) = False"
| "is_known UnknownError = False"

definition newer_codes :: "(int \<times> string) list" where
  "newer_codes = drop 56 compile_error_strings"

lemma compile_strings_split: "compile_error_strings = compile_error_characters @ newer_codes"
  by (simp add: newer_codes_def compile_error_strings_def compile_error_characters_def)

text \<open>The switches list the enumerators in the order of the enumeration, each under its own name.\<close>

lemma error_tables_swap:
  "compile_error_strings = map (\<lambda>(n, v). (v, n)) RKCompileErrorCode_enum"
  "match_error_strings = map (\<lambda>(n, v). (v, n)) RKMatchErrorCode_enum"
  "match_error_characters = map (\<lambda>(n, v). (v, n)) RKMatchErrorCode_enum"
  "map fst compile_error_messages = map snd RKCompileErrorCode_enum"
  "list_all (\<lambda>(n, v). v \<le> 0) RKMatchErrorCode_enum"
  by (simp_all add: compile_error_strings_def RKCompileErrorCode_enum_def match_error_strings_def
      RKMatchErrorCode_enum_def match_error_characters_def compile_error_messages_def)

lemma map_of_swap:
  assumes "distinct (map snd xs)" "(n, v) \<in> set xs"
  shows "map_of (map (\<lambda>(n, v). (v, n)) xs) v = Some n"
  using assms by (intro map_of_is_SomeI) (force simp: comp_def case_prod_beta)+

text \<open>
  The two functions that name a compile error agree on every code except 59 to 63, for which the
  C string version has no case and answers as for an unknown code; every enumerator of
  \<open>RKCompileErrorCode\<close> is named by its own name and has a localised message, and so is every
  \<open>RKMatchErrorCode\<close> in both of its forms.
\<close>

lemma error_code_tables_agree:
  "RKCharactersFromCompileErrorCode code =
     (if code \<in> {59..63} then UnknownError else forget_code (RKStringFromCompileErrorCode code)) \<and>
   list_all (\<lambda>(n, v). RKStringFromCompileErrorCode v = ErrorName n \<and>
       is_known (RKLocalizedStringForPCRECompileErrorCode v)) RKCompileErrorCode_enum \<and>
   list_all (\<lambda>(n, v). RKStringFromMatchErrorCode v = ErrorName n \<and>
       RKCharactersFromMatchErrorCode v = ErrorName n) RKMatchErrorCode_enum"
proof (intro conjI)
  have newer: "map_of newer_codes code = None" if "code \<notin> {59..63}"
    using that by (auto simp: newer_codes_def compile_error_strings_def)
  have old: "map_of compile_error_characters code = None" if "code \<in> {59..63}"
  proof -
    have "code = 59 \<or> code = 60 \<or> code = 61 \<or> code = 62 \<or> code = 63" using that by auto
    then show ?thesis
      by (elim disjE) (simp_all add: compile_error_characters_def)
  qed
  show "RKCharactersFromCompileErrorCode code =
      (if code \<in> {59..63} then UnknownError else forget_code (RKStringFromCompileErrorCode code))"
    unfolding RKCharactersFromCompileErrorCode_def RKStringFromCompileErrorCode_def
      compile_strings_split map_of_append
    using newer old by (auto simp: map_add_def split: option.split)
  have msg: "is_known (RKLocalizedStringForPCRECompileErrorCode v)" if "(n, v) \<in> set RKCompileErrorCode_enum" for n v
  proof -
    have "v \<in> set (map fst compile_error_messages)"
      unfolding error_tables_swap using that by force
    then obtain m where "map_of compile_error_messages v = Some m"
      by (metis map_of_eq_None_iff list.set_map not_None_eq)
    then show ?thesis by (simp add: RKLocalizedStringForPCRECompileErrorCode_def)
  qed
  show "list_all (\<lambda>(n, v). RKStringFromCompileErrorCode v = ErrorName n \<and>
       is_known (RKLocalizedStringForPCRECompileErrorCode v)) RKCompileErrorCode_enum"
    using msg error_enums_distinct
    by (auto simp: list_all_iff RKStringFromCompileErrorCode_def error_tables_swap map_of_swap)
  show "list_all (\<lambda>(n, v). RKStringFromMatchErrorCode v = ErrorName n \<and>
       RKCharactersFromMatchErrorCode v = ErrorName n) RKMatchErrorCode_enum"
    using error_enums_distinct error_tables_swap(5)
    by (auto simp: list_all_iff RKStringFromMatchErrorCode_def RKCharactersFromMatchErrorCode_def
        error_tables_swap(2,3) map_of_swap split: prod.splits)
qed

end
