(* ===== verification/RK_Unicode.thy ===== *)
theory RK_Unicode
  imports RK_Prelude
begin

text \<open>
  \<open>RKUnicode.m\<close> and the string buffer of \<open>NSStringPrivate.h\<close>: the two tables that give the length of
  a UTF-8 character and of its UTF-16 form from the low six bits of its first byte, the search for
  the start of a character, and the conversion of ranges between UTF-8 and UTF-16 offsets. The
  lemmas relate the scanning loops, which read untrusted offsets over raw bytes, to the standard
  encoding of a list of code points.
\<close>

section \<open>String buffers\<close>

datatype RKStringBufferEncoding = EncodingASCII | EncodingMacRoman | EncodingUTF8 | EncodingOther

text \<open>
  The C structure. \<open>buffer_string_length\<close> stands for what \<open>[buffer->string length]\<close> answers (a number
  of UTF-16 code units). \<open>buffer_characters\<close> is the memory \<open>characters\<close> points to, less the
  terminating NUL that always follows it.
\<close>

record RKStringBuffer =
  buffer_string_length :: u64
  buffer_characters :: "byte list"
  buffer_length :: u64
  buffer_encoding :: RKStringBufferEncoding

definition RKMakeStringBuffer ::
  "u64 \<Rightarrow> byte list \<Rightarrow> u64 \<Rightarrow> RKStringBufferEncoding \<Rightarrow> RKStringBuffer" where
  "RKMakeStringBuffer str chars len enc =
     \<lparr>buffer_string_length = str, buffer_characters = chars, buffer_length = len, buffer_encoding = enc\<rparr>"

text \<open>
  An \<open>NSString\<close> as the code sees it through Core Foundation: its length in UTF-16 units, its fastest
  encoding, the bytes of a direct C string pointer if it has one, and its UTF-8 conversion
  (\<open>None\<close> where Foundation answers \<open>NULL\<close>).
\<close>

record ns_string =
  str_length :: u64
  str_fastest_encoding :: RKStringBufferEncoding
  str_cstring_ptr :: "byte list option"
  str_utf8 :: "byte list option"

fun c_strlen :: "byte list \<Rightarrow> nat" where
  "c_strlen [] = 0"
| "c_strlen (c # cs) = (if c = 0 then 0 else Suc (c_strlen cs))"

text \<open>
  \<open>RKStringBufferWithString\<close>. The final \<open>NSCParameterAssert\<close> raises when no characters are available.
\<close>

definition RKStringBufferWithString :: "ns_string \<Rightarrow> RKStringBuffer run" where
  "RKStringBufferWithString string =
     (let encoding = str_fastest_encoding string;
          direct = (if encoding \<in> {EncodingMacRoman, EncodingASCII, EncodingUTF8}
                    then str_cstring_ptr string else None)
      in case direct of
           Some chars \<Rightarrow>
             Ok (RKMakeStringBuffer (str_length string) chars
                  (if encoding = EncodingMacRoman \<or> encoding = EncodingASCII
                   then str_length string else of_nat (c_strlen chars)) encoding)
         | None \<Rightarrow>
             (case str_utf8 string of
                Some chars \<Rightarrow>
                  Ok (RKMakeStringBuffer (str_length string) chars (of_nat (c_strlen chars)) EncodingUTF8)
              | None \<Rightarrow> Raise NSInternalInconsistencyException))"

text \<open>Reading a byte: the terminating NUL is there, anything after it is outside the object.\<close>

definition char_at :: "byte list \<Rightarrow> nat \<Rightarrow> byte option" where
  "char_at cs p = (if p < length cs then Some (cs ! p) else if p = length cs then Some 0 else None)"

text \<open>The length field tells the truth, and no length is anywhere near the end of the address space.\<close>

definition valid_buffer :: "RKStringBuffer \<Rightarrow> bool" where
  "valid_buffer b \<longleftrightarrow> unat (buffer_length b) = length (buffer_characters b)"

section \<open>The tables and the length of a character\<close>

definition utf8ExtraBytes :: "nat list" where
  "utf8ExtraBytes =
    [1,1,1,1,1,1,1,1,1,1,1,1,1,1,1,1,
     1,1,1,1,1,1,1,1,1,1,1,1,1,1,1,1,
     2,2,2,2,2,2,2,2,2,2,2,2,2,2,2,2,
     3,3,3,3,3,3,3,3,4,4,4,4,5,5,5,5]"

definition utf8ExtraUTF16Characters :: "nat list" where
  "utf8ExtraUTF16Characters =
    [0,0,0,0,0,0,0,0,0,0,0,0,0,0,0,0,
     0,0,0,0,0,0,0,0,0,0,0,0,0,0,0,0,
     0,0,0,0,0,0,0,0,0,0,0,0,0,0,0,0,
     1,1,1,1,1,1,1,1,1,1,1,1,2,2,2,2]"

definition RKLengthOfUTF8Character :: "byte \<Rightarrow> nat" where
  "RKLengthOfUTF8Character c =
     (if c < 128 then 1 else utf8ExtraBytes ! unat (c AND 0x3f) + 1)"

section \<open>Finding the character at a location\<close>

definition is_continuation :: "byte \<Rightarrow> bool" where
  "is_continuation c \<longleftrightarrow> c > 127 \<and> c < 0xc0"

text \<open>The \<open>while\<close> loop that steps back over continuation bytes.\<close>

fun back_up :: "byte list \<Rightarrow> nat \<Rightarrow> nat run" where
  "back_up cs 0 = Ok 0"
| "back_up cs (Suc p) =
     (case char_at cs (Suc p) of
        None \<Rightarrow> Undefined
      | Some c \<Rightarrow> if is_continuation c then back_up cs p else Ok (Suc p))"

definition RKRangeForUTF8CharacterAtLocation :: "RKStringBuffer option \<Rightarrow> u64 \<Rightarrow> ns_range run" where
  "RKRangeForUTF8CharacterAtLocation stringBuffer utf8Location =
     (case stringBuffer of
        None \<Rightarrow> Raise NSInvalidArgumentException
      | Some b \<Rightarrow>
          let start = (if buffer_length b = utf8Location \<and> utf8Location > 0
                       then utf8Location - 1 else utf8Location)
          in (case char_at (buffer_characters b) (unat start) of
                None \<Rightarrow> Undefined
              | Some c \<Rightarrow>
                  run_bind (if is_continuation c then back_up (buffer_characters b) (unat start)
                            else Ok (unat start))
                    (\<lambda>p. case char_at (buffer_characters b) p of
                           None \<Rightarrow> Undefined
                         | Some d \<Rightarrow>
                             Ok (NSMakeRange (of_nat p) (of_nat (RKLengthOfUTF8Character d))))))"

section \<open>Converting ranges\<close>

text \<open>
  One turn of the loop both conversions share: from the byte \<open>c\<close>, how far \<open>p\<close> moves and how many
  UTF-16 units are added.
\<close>

definition step_bytes :: "byte \<Rightarrow> nat" where
  "step_bytes c = (if c < 128 then 1 else 1 + utf8ExtraBytes ! unat (c AND 0x3f))"

definition step_units :: "byte \<Rightarrow> nat" where
  "step_units c = (if c < 128 then 1 else 1 + utf8ExtraUTF16Characters ! unat (c AND 0x3f))"

lemma step_bytes_pos: "0 < step_bytes c"
  by (simp add: step_bytes_def)

lemma step_decreases:
  "char_at cs p = Some c \<Longrightarrow> length cs + 1 - (p + step_bytes c) < length cs + 1 - p"
  using step_bytes_pos [of c] by (auto simp: char_at_def split: if_splits)

text \<open>
  The code compares \<open>(unsigned)(p - characters)\<close>, a 32 bit truncation of the offset, with the 64 bit
  range.
\<close>

definition offset32 :: "nat \<Rightarrow> u64" where
  "offset32 p = ucast (of_nat p :: u32)"

function utf8_to_utf16_loop ::
  "byte list \<Rightarrow> ns_range \<Rightarrow> nat \<Rightarrow> u64 \<Rightarrow> u64 \<Rightarrow> (nat \<times> u64 \<times> u64) run" where
  "utf8_to_utf16_loop cs utf8Range p utf16len loc =
     (if offset32 p < NSMaxRange utf8Range then
        let loc' = (if offset32 p = range_location utf8Range then utf16len else loc)
        in (case char_at cs p of
              None \<Rightarrow> Undefined
            | Some c \<Rightarrow>
                utf8_to_utf16_loop cs utf8Range (p + step_bytes c) (utf16len + of_nat (step_units c)) loc')
      else Ok (p, utf16len, loc))"
  by pat_completeness auto
termination
  by (relation "measure (\<lambda>(cs, r, p, u, l). length cs + 1 - p)")
    (auto dest: step_decreases)

declare utf8_to_utf16_loop.simps [simp del]

definition byte_is_unit :: "RKStringBufferEncoding \<Rightarrow> bool" where
  "byte_is_unit e \<longleftrightarrow> e = EncodingMacRoman \<or> e = EncodingASCII"

definition RKConvertUTF8ToUTF16RangeForStringBuffer ::
  "RKStringBuffer option \<Rightarrow> ns_range \<Rightarrow> ns_range run" where
  "RKConvertUTF8ToUTF16RangeForStringBuffer stringBuffer utf8Range =
     (case stringBuffer of
        None \<Rightarrow> Raise NSInvalidArgumentException
      | Some b \<Rightarrow>
          if range_location utf8Range = NSNotFound then Ok utf8Range
          else if range_location utf8Range > buffer_length b \<or> NSMaxRange utf8Range > buffer_length b
          then Raise NSRangeException
          else if byte_is_unit (buffer_encoding b) then Ok utf8Range
          else run_bind (utf8_to_utf16_loop (buffer_characters b) utf8Range 0 0 NSNotFound)
                 (\<lambda>(p, utf16len, loc).
                    let loc' = (if offset32 p = range_location utf8Range then utf16len else loc)
                    in Ok (NSMakeRange loc' (utf16len - loc'))))"

function utf16_to_utf8_loop ::
  "byte list \<Rightarrow> ns_range \<Rightarrow> nat \<Rightarrow> u64 \<Rightarrow> u64 \<Rightarrow> (nat \<times> u64 \<times> u64) run" where
  "utf16_to_utf8_loop cs utf16Range p utf16len loc =
     (if utf16len < NSMaxRange utf16Range then
        let loc' = (if utf16len = range_location utf16Range then of_nat p else loc)
        in (case char_at cs p of
              None \<Rightarrow> Undefined
            | Some c \<Rightarrow>
                utf16_to_utf8_loop cs utf16Range (p + step_bytes c) (utf16len + of_nat (step_units c)) loc')
      else Ok (p, utf16len, loc))"
  by pat_completeness auto
termination
  by (relation "measure (\<lambda>(cs, r, p, u, l). length cs + 1 - p)")
    (auto dest: step_decreases)

declare utf16_to_utf8_loop.simps [simp del]

definition RKConvertUTF16ToUTF8RangeForStringBuffer ::
  "RKStringBuffer option \<Rightarrow> ns_range \<Rightarrow> ns_range run" where
  "RKConvertUTF16ToUTF8RangeForStringBuffer stringBuffer utf16Range =
     (case stringBuffer of
        None \<Rightarrow> Raise NSInvalidArgumentException
      | Some b \<Rightarrow>
          if range_location utf16Range = NSNotFound then Ok utf16Range
          else if range_location utf16Range > buffer_string_length b \<or>
                  NSMaxRange utf16Range > buffer_string_length b
          then Raise NSRangeException
          else if byte_is_unit (buffer_encoding b) then Ok utf16Range
          else run_bind (utf16_to_utf8_loop (buffer_characters b) utf16Range 0 0 NSNotFound)
                 (\<lambda>(p, utf16len, loc).
                    let loc' = (if utf16len = range_location utf16Range then of_nat p else loc)
                    in Ok (NSMakeRange loc' (of_nat p - loc'))))"

text \<open>The two entry points that take a string object.\<close>

definition RKConvertUTF8ToUTF16RangeForString :: "ns_string option \<Rightarrow> ns_range \<Rightarrow> ns_range run" where
  "RKConvertUTF8ToUTF16RangeForString string utf8Range =
     (case string of
        None \<Rightarrow> Raise NSInvalidArgumentException
      | Some s \<Rightarrow> run_bind (RKStringBufferWithString s)
                   (\<lambda>b. RKConvertUTF8ToUTF16RangeForStringBuffer (Some b) utf8Range))"

definition RKConvertUTF16ToUTF8RangeForString :: "ns_string option \<Rightarrow> ns_range \<Rightarrow> ns_range run" where
  "RKConvertUTF16ToUTF8RangeForString string utf16Range =
     (case string of
        None \<Rightarrow> Raise NSInvalidArgumentException
      | Some s \<Rightarrow> run_bind (RKStringBufferWithString s)
                   (\<lambda>b. RKConvertUTF16ToUTF8RangeForStringBuffer (Some b) utf16Range))"

section \<open>The specification: the standard encodings of a code point\<close>

definition valid_code_point :: "nat \<Rightarrow> bool" where
  "valid_code_point c \<longleftrightarrow> c < 0xD800 \<or> 0xE000 \<le> c \<and> c < 0x110000"

definition utf8_encode :: "nat \<Rightarrow> byte list" where
  "utf8_encode c =
     (if c < 0x80 then [of_nat c]
      else if c < 0x800 then [of_nat (0xC0 + c div 64), of_nat (0x80 + c mod 64)]
      else if c < 0x10000 then
        [of_nat (0xE0 + c div 4096), of_nat (0x80 + c div 64 mod 64), of_nat (0x80 + c mod 64)]
      else
        [of_nat (0xF0 + c div 262144), of_nat (0x80 + c div 4096 mod 64),
         of_nat (0x80 + c div 64 mod 64), of_nat (0x80 + c mod 64)])"

definition utf16_units :: "nat \<Rightarrow> nat" where
  "utf16_units c = (if c < 0x10000 then 1 else 2)"

definition utf8_of :: "nat list \<Rightarrow> byte list" where
  "utf8_of cps = concat (map utf8_encode cps)"

definition utf8_width :: "nat list \<Rightarrow> nat" where
  "utf8_width cps = length (utf8_of cps)"

definition utf16_width :: "nat list \<Rightarrow> nat" where
  "utf16_width cps = sum_list (map utf16_units cps)"

text \<open>A buffer that holds the text \<open>cps\<close> in UTF-8, of a string that measures itself in UTF-16.\<close>

definition holds_text :: "RKStringBuffer \<Rightarrow> nat list \<Rightarrow> bool" where
  "holds_text b cps \<longleftrightarrow>
     list_all valid_code_point cps \<and> utf8_width cps < 2 ^ 32 \<and>
     buffer_characters b = utf8_of cps \<and> buffer_length b = of_nat (utf8_width cps) \<and>
     buffer_string_length b = of_nat (utf16_width cps) \<and> buffer_encoding b = EncodingUTF8"

section \<open>The tables agree with the encoding\<close>

lemma ascii_bytes:
  "k < 128 \<Longrightarrow> step_bytes (of_nat k) = 1 \<and> step_units (of_nat k) = 1 \<and>
     RKLengthOfUTF8Character (of_nat k) = 1 \<and> \<not> is_continuation (of_nat k)"
proof -
  have "\<forall>k < 128. step_bytes (of_nat k) = 1 \<and> step_units (of_nat k) = 1 \<and>
          RKLengthOfUTF8Character (of_nat k) = 1 \<and> \<not> is_continuation (of_nat k)"
    unfolding all_less_upt by code_simp
  then show "k < 128 \<Longrightarrow> ?thesis" by blast
qed

lemma lead_bytes_2:
  "k < 32 \<Longrightarrow> step_bytes (of_nat (0xC0 + k)) = 2 \<and> step_units (of_nat (0xC0 + k)) = 1 \<and>
     RKLengthOfUTF8Character (of_nat (0xC0 + k)) = 2 \<and> \<not> is_continuation (of_nat (0xC0 + k))"
proof -
  have "\<forall>k < 32. step_bytes (of_nat (0xC0 + k)) = 2 \<and> step_units (of_nat (0xC0 + k)) = 1 \<and>
     RKLengthOfUTF8Character (of_nat (0xC0 + k)) = 2 \<and> \<not> is_continuation (of_nat (0xC0 + k))"
    unfolding all_less_upt by code_simp
  then show "k < 32 \<Longrightarrow> ?thesis" by blast
qed

lemma lead_bytes_3:
  "k < 16 \<Longrightarrow> step_bytes (of_nat (0xE0 + k)) = 3 \<and> step_units (of_nat (0xE0 + k)) = 1 \<and>
     RKLengthOfUTF8Character (of_nat (0xE0 + k)) = 3 \<and> \<not> is_continuation (of_nat (0xE0 + k))"
proof -
  have "\<forall>k < 16. step_bytes (of_nat (0xE0 + k)) = 3 \<and> step_units (of_nat (0xE0 + k)) = 1 \<and>
     RKLengthOfUTF8Character (of_nat (0xE0 + k)) = 3 \<and> \<not> is_continuation (of_nat (0xE0 + k))"
    unfolding all_less_upt by code_simp
  then show "k < 16 \<Longrightarrow> ?thesis" by blast
qed

lemma lead_bytes_4:
  "k < 8 \<Longrightarrow> step_bytes (of_nat (0xF0 + k)) = 4 \<and> step_units (of_nat (0xF0 + k)) = 2 \<and>
     RKLengthOfUTF8Character (of_nat (0xF0 + k)) = 4 \<and> \<not> is_continuation (of_nat (0xF0 + k))"
proof -
  have "\<forall>k < 8. step_bytes (of_nat (0xF0 + k)) = 4 \<and> step_units (of_nat (0xF0 + k)) = 2 \<and>
     RKLengthOfUTF8Character (of_nat (0xF0 + k)) = 4 \<and> \<not> is_continuation (of_nat (0xF0 + k))"
    unfolding all_less_upt by code_simp
  then show "k < 8 \<Longrightarrow> ?thesis" by blast
qed

lemma continuation_bytes: "k < 64 \<Longrightarrow> is_continuation (of_nat (0x80 + k))"
proof -
  have "\<forall>k < 64. is_continuation (of_nat (0x80 + k))"
    unfolding all_less_upt by code_simp
  then show "k < 64 \<Longrightarrow> ?thesis" by blast
qed

lemma code_point_lead_less:
  assumes "valid_code_point c"
  shows "c < 0x800 \<Longrightarrow> c div 64 < 32" "c < 0x10000 \<Longrightarrow> c div 4096 < 16" "c div 262144 < 8"
  using assms by (auto simp: valid_code_point_def less_mult_imp_div_less)

lemma utf8_encode_lead:
  assumes "valid_code_point c"
  shows "step_bytes (hd (utf8_encode c)) = length (utf8_encode c)"
    and "step_units (hd (utf8_encode c)) = utf16_units c"
    and "RKLengthOfUTF8Character (hd (utf8_encode c)) = length (utf8_encode c)"
    and "\<not> is_continuation (hd (utf8_encode c))"
  using ascii_bytes [of c] lead_bytes_2 [of "c div 64"] lead_bytes_3 [of "c div 4096"]
    lead_bytes_4 [of "c div 262144"] code_point_lead_less [OF assms]
  unfolding utf8_encode_def utf16_units_def by (auto simp del: of_nat_add)

lemma utf8_encode_tail: "\<forall>b \<in> set (tl (utf8_encode c)). is_continuation b"
  using continuation_bytes [of "c mod 64"] continuation_bytes [of "c div 64 mod 64"]
    continuation_bytes [of "c div 4096 mod 64"]
  unfolding utf8_encode_def by (auto simp del: of_nat_add)

lemma utf8_encode_nonempty [simp]: "utf8_encode c \<noteq> []"
  by (simp add: utf8_encode_def)

lemma utf16_le_utf8: "0 < utf16_units c" "utf16_units c \<le> length (utf8_encode c)"
  by (auto simp: utf16_units_def utf8_encode_def)

section \<open>Offsets of the characters of a text\<close>

definition w8 :: "nat list \<Rightarrow> nat \<Rightarrow> nat" where
  "w8 cps i = utf8_width (take i cps)"

definition w16 :: "nat list \<Rightarrow> nat \<Rightarrow> nat" where
  "w16 cps i = utf16_width (take i cps)"

text \<open>The range of characters \<open>i\<close> up to \<open>j\<close> in UTF-8 and in UTF-16 offsets.\<close>

definition range8 :: "nat list \<Rightarrow> nat \<Rightarrow> nat \<Rightarrow> ns_range" where
  "range8 cps i j = NSMakeRange (of_nat (w8 cps i)) (of_nat (w8 cps j - w8 cps i))"

definition range16 :: "nat list \<Rightarrow> nat \<Rightarrow> nat \<Rightarrow> ns_range" where
  "range16 cps i j = NSMakeRange (of_nat (w16 cps i)) (of_nat (w16 cps j - w16 cps i))"

lemma w_zero [simp]: "w8 cps 0 = 0" "w16 cps 0 = 0"
  by (simp_all add: w8_def w16_def utf8_width_def utf8_of_def utf16_width_def)

lemma w_Suc:
  "i < length cps \<Longrightarrow> w8 cps (Suc i) = w8 cps i + length (utf8_encode (cps ! i))"
  "i < length cps \<Longrightarrow> w16 cps (Suc i) = w16 cps i + utf16_units (cps ! i)"
  by (simp_all add: w8_def w16_def utf8_width_def utf8_of_def utf16_width_def take_Suc_conv_app_nth)

lemma w8_less: "i < j \<Longrightarrow> j \<le> length cps \<Longrightarrow> w8 cps i < w8 cps j"
proof (induction rule: strict_inc_induct)
  case (base i)
  then show ?case by (simp add: w_Suc)
next
  case (step i)
  then have "w8 cps i < w8 cps (Suc i)" by (simp add: w_Suc)
  with step show ?case by simp
qed

lemma w16_less: "i < j \<Longrightarrow> j \<le> length cps \<Longrightarrow> w16 cps i < w16 cps j"
proof (induction rule: strict_inc_induct)
  case (base i)
  then show ?case by (simp add: w_Suc utf16_le_utf8)
next
  case (step i)
  then have "w16 cps i < w16 cps (Suc i)" by (simp add: w_Suc utf16_le_utf8)
  with step show ?case by simp
qed

lemma w8_le: "i \<le> j \<Longrightarrow> j \<le> length cps \<Longrightarrow> w8 cps i \<le> w8 cps j"
  using w8_less by (metis le_less)

lemma w16_le: "i \<le> j \<Longrightarrow> j \<le> length cps \<Longrightarrow> w16 cps i \<le> w16 cps j"
  using w16_less by (metis le_less)

lemma w8_eq_iff: "i \<le> length cps \<Longrightarrow> j \<le> length cps \<Longrightarrow> w8 cps i = w8 cps j \<longleftrightarrow> i = j"
  using w8_less by (metis less_irrefl linorder_neqE_nat)

lemma w16_eq_iff: "i \<le> length cps \<Longrightarrow> j \<le> length cps \<Longrightarrow> w16 cps i = w16 cps j \<longleftrightarrow> i = j"
  using w16_less by (metis less_irrefl linorder_neqE_nat)

lemma w16_le_w8: "i \<le> length cps \<Longrightarrow> w16 cps i \<le> w8 cps i"
  by (induction i) (auto simp: w_Suc intro: add_mono utf16_le_utf8)

lemma w8_full: "w8 cps (length cps) = utf8_width cps" "w16 cps (length cps) = utf16_width cps"
  by (simp_all add: w8_def w16_def)

lemma utf8_of_drop:
  "i < length cps \<Longrightarrow> utf8_of cps = utf8_of (take i cps) @ utf8_encode (cps ! i) @ utf8_of (drop (Suc i) cps)"
  unfolding utf8_of_def by (subst id_take_nth_drop [of i cps]) auto

lemma char_at_boundary:
  assumes "i < length cps"
  shows "char_at (utf8_of cps) (w8 cps i) = Some (hd (utf8_encode (cps ! i)))"
  using utf8_of_drop [OF assms]
  by (cases "utf8_encode (cps ! i)")
    (auto simp: char_at_def w8_def utf8_width_def nth_append)

lemma offset32_small: "p < 2 ^ 32 \<Longrightarrow> offset32 p = of_nat p"
  by (simp add: offset32_def unsigned_of_nat take_bit_nat_eq_self)

lemma range_max:
  "i \<le> j \<Longrightarrow> j \<le> length cps \<Longrightarrow> NSMaxRange (range8 cps i j) = of_nat (w8 cps j)"
  "i \<le> j \<Longrightarrow> j \<le> length cps \<Longrightarrow> NSMaxRange (range16 cps i j) = of_nat (w16 cps j)"
  using w8_le [of i j cps] w16_le [of i j cps]
  by (simp_all add: NSMaxRange_def range8_def range16_def flip: of_nat_add)

lemma range_loc:
  "range_location (range8 cps i j) = of_nat (w8 cps i)"
  "range_location (range16 cps i j) = of_nat (w16 cps i)"
  by (simp_all add: range8_def range16_def)

lemma w8_bound:
  assumes "utf8_width cps < 2 ^ 32" "i \<le> length cps"
  shows "w8 cps i < 4294967296" "w8 cps i < 18446744073709551616"
    "w16 cps i < 18446744073709551616"
proof -
  show a: "w8 cps i < 4294967296"
    using w8_le [of i "length cps" cps] assms by (simp add: w8_full)
  then show "w8 cps i < 18446744073709551616" by simp
  then show "w16 cps i < 18446744073709551616" using w16_le_w8 [OF assms(2)] by linarith
qed

section \<open>The scanning loops\<close>

lemma utf8_to_utf16_scan:
  assumes v: "list_all valid_code_point cps" "utf8_width cps < 2 ^ 32"
    and ij: "i \<le> j" "j \<le> length cps"
  shows "k \<le> j \<Longrightarrow>
    utf8_to_utf16_loop (utf8_of cps) (range8 cps i j) (w8 cps k) (of_nat (w16 cps k))
        (if k \<le> i then NSNotFound else of_nat (w16 cps i)) =
      Ok (w8 cps j, of_nat (w16 cps j), if j \<le> i then NSNotFound else of_nat (w16 cps i))"
proof (induction rule: inc_induct)
  case base
  show ?case
    by (subst utf8_to_utf16_loop.simps)
      (use v ij in \<open>simp add: range_max offset32_small w8_bound\<close>)
next
  case (step k)
  have k: "k < length cps" using step ij by simp
  have enc: "step_bytes (hd (utf8_encode (cps ! k))) = length (utf8_encode (cps ! k))"
      "step_units (hd (utf8_encode (cps ! k))) = utf16_units (cps ! k)"
    using utf8_encode_lead k v(1) by (auto simp: list_all_length)
  have less: "offset32 (w8 cps k) < NSMaxRange (range8 cps i j)"
    using step ij v k w8_less [of k j cps]
    by (simp add: range_max offset32_small w8_bound of_nat64_less_iff)
  have at_i: "offset32 (w8 cps k) = range_location (range8 cps i j) \<longleftrightarrow> k = i"
    using k ij v w8_bound [of cps k] w8_bound [of cps i] w8_eq_iff [of k cps i]
    by (simp add: range8_def offset32_small of_nat64_eq_iff)
  have "utf8_to_utf16_loop (utf8_of cps) (range8 cps i j) (w8 cps k) (of_nat (w16 cps k))
          (if k \<le> i then NSNotFound else of_nat (w16 cps i)) =
        utf8_to_utf16_loop (utf8_of cps) (range8 cps i j) (w8 cps (Suc k)) (of_nat (w16 cps (Suc k)))
          (if Suc k \<le> i then NSNotFound else of_nat (w16 cps i))"
    by (subst utf8_to_utf16_loop.simps) (simp add: less at_i char_at_boundary k enc w_Suc)
  then show ?case using step by simp
qed

lemma utf16_to_utf8_scan:
  assumes v: "list_all valid_code_point cps" "utf8_width cps < 2 ^ 32"
    and ij: "i \<le> j" "j \<le> length cps"
  shows "k \<le> j \<Longrightarrow>
    utf16_to_utf8_loop (utf8_of cps) (range16 cps i j) (w8 cps k) (of_nat (w16 cps k))
        (if k \<le> i then NSNotFound else of_nat (w8 cps i)) =
      Ok (w8 cps j, of_nat (w16 cps j), if j \<le> i then NSNotFound else of_nat (w8 cps i))"
proof (induction rule: inc_induct)
  case base
  show ?case
    by (subst utf16_to_utf8_loop.simps) (use ij in \<open>simp add: range_max\<close>)
next
  case (step k)
  have k: "k < length cps" using step ij by simp
  have enc: "step_bytes (hd (utf8_encode (cps ! k))) = length (utf8_encode (cps ! k))"
      "step_units (hd (utf8_encode (cps ! k))) = utf16_units (cps ! k)"
    using utf8_encode_lead k v(1) by (auto simp: list_all_length)
  have less: "of_nat (w16 cps k) < NSMaxRange (range16 cps i j)"
    using step ij v k w16_less [of k j cps] by (simp add: range_max w8_bound of_nat64_less_iff)
  have at_i: "of_nat (w16 cps k) = range_location (range16 cps i j) \<longleftrightarrow> k = i"
    using k ij v w8_bound [of cps k] w8_bound [of cps i] w16_eq_iff [of k cps i]
    by (simp add: range16_def of_nat64_eq_iff)
  have "utf16_to_utf8_loop (utf8_of cps) (range16 cps i j) (w8 cps k) (of_nat (w16 cps k))
          (if k \<le> i then NSNotFound else of_nat (w8 cps i)) =
        utf16_to_utf8_loop (utf8_of cps) (range16 cps i j) (w8 cps (Suc k)) (of_nat (w16 cps (Suc k)))
          (if Suc k \<le> i then NSNotFound else of_nat (w8 cps i))"
    by (subst utf16_to_utf8_loop.simps) (simp add: less at_i char_at_boundary k enc w_Suc)
  then show ?case using step by simp
qed

section \<open>Properties\<close>

lemma of_nat32_not_NSNotFound:
  assumes "n < 4294967296" shows "of_nat n \<noteq> NSNotFound"
proof
  assume "of_nat n = NSNotFound"
  then have "unat (of_nat n :: u64) = 9223372036854775807"
    by (simp add: unat_NSNotFound)
  with assms show False by (simp add: unat_of_nat_small)
qed

lemma utf8_range_converts:
  assumes "holds_text b cps" "i \<le> j" "j \<le> length cps"
  shows "RKConvertUTF8ToUTF16RangeForStringBuffer (Some b) (range8 cps i j) = Ok (range16 cps i j)"
proof -
  have v: "list_all valid_code_point cps" "utf8_width cps < 2 ^ 32"
    and b: "buffer_characters b = utf8_of cps" "buffer_length b = of_nat (utf8_width cps)"
      "buffer_encoding b = EncodingUTF8"
    using assms(1) by (auto simp: holds_text_def)
  have guards: "range_location (range8 cps i j) \<noteq> NSNotFound"
      "\<not> range_location (range8 cps i j) > buffer_length b"
      "\<not> NSMaxRange (range8 cps i j) > buffer_length b"
    using assms(2,3) v(2) w8_le [of _ "length cps" cps]
    by (simp_all add: b range_max range_loc of_nat32_not_NSNotFound w8_bound of_nat64_less_iff
        w8_full not_less)
  have scan: "utf8_to_utf16_loop (utf8_of cps) (range8 cps i j) 0 0 NSNotFound =
      Ok (w8 cps j, of_nat (w16 cps j), if j \<le> i then NSNotFound else of_nat (w16 cps i))"
    using utf8_to_utf16_scan [OF v assms(2,3), of 0] by simp
  have at: "offset32 (w8 cps j) = of_nat (w8 cps i) \<longleftrightarrow> j \<le> i"
    using assms v w8_eq_iff [of j cps i] by (simp add: offset32_small w8_bound of_nat64_eq_iff)
  show ?thesis
    unfolding RKConvertUTF8ToUTF16RangeForStringBuffer_def
    using assms(2,3) guards scan w16_le [of i j cps]
    by (auto simp: b at byte_is_unit_def range8_def range16_def of_nat_minus64 simp del: of_nat_diff)
qed

text \<open>
  C32. Converting the UTF-8 range of the characters \<open>i\<close> up to \<open>j\<close> of a text gives exactly their
  UTF-16 range, for every text of valid code points shorter than 4 GiB: the two tables, the
  offsets recorded in the loop and the one recorded after it are right at every boundary.
\<close>

theorem RKConvertUTF8ToUTF16_correct:
  assumes "holds_text b cps" "i \<le> j" "j \<le> length cps"
  shows "RKConvertUTF8ToUTF16RangeForStringBuffer (Some b) (range8 cps i j) = Ok (range16 cps i j)"
  using assms by (rule utf8_range_converts)

lemma utf16_range_converts:
  assumes "holds_text b cps" "i \<le> j" "j \<le> length cps"
  shows "RKConvertUTF16ToUTF8RangeForStringBuffer (Some b) (range16 cps i j) = Ok (range8 cps i j)"
proof -
  have v: "list_all valid_code_point cps" "utf8_width cps < 2 ^ 32"
    and b: "buffer_characters b = utf8_of cps" "buffer_string_length b = of_nat (utf16_width cps)"
      "buffer_encoding b = EncodingUTF8"
    using assms(1) by (auto simp: holds_text_def)
  have w: "w16 cps k \<le> utf16_width cps" "w16 cps k < 4294967296" "utf16_width cps < 2 ^ 64"
    if "k \<le> length cps" for k
    using that w16_le [of k "length cps" cps] v(2) w16_le_w8 [of k cps] w8_bound [of cps k]
      w8_bound [of cps "length cps"] by (auto simp: w8_full)
  have guards: "range_location (range16 cps i j) \<noteq> NSNotFound"
      "\<not> range_location (range16 cps i j) > buffer_string_length b"
      "\<not> NSMaxRange (range16 cps i j) > buffer_string_length b"
    using assms(2,3) w [of i] w [of j]
    by (simp_all add: b range_max range_loc of_nat32_not_NSNotFound of_nat64_less_iff not_less)
  have scan: "utf16_to_utf8_loop (utf8_of cps) (range16 cps i j) 0 0 NSNotFound =
      Ok (w8 cps j, of_nat (w16 cps j), if j \<le> i then NSNotFound else of_nat (w8 cps i))"
    using utf16_to_utf8_scan [OF v assms(2,3), of 0] by simp
  have at: "(of_nat (w16 cps j) :: u64) = of_nat (w16 cps i) \<longleftrightarrow> j \<le> i"
    using assms v w16_eq_iff [of j cps i] by (simp add: w8_bound of_nat64_eq_iff)
  show ?thesis
    unfolding RKConvertUTF16ToUTF8RangeForStringBuffer_def
    using assms(2,3) guards scan w8_le [of i j cps]
    by (auto simp: b at byte_is_unit_def range8_def range16_def of_nat_minus64 simp del: of_nat_diff)
qed

text \<open>
  Converting the UTF-16 range of the characters \<open>i\<close> up to \<open>j\<close> gives exactly their UTF-8 range.
  With the previous property the two conversions are inverse to each other on the ranges of whole characters.
\<close>

lemma RKConvertUTF16ToUTF8_correct:
  assumes "holds_text b cps" "i \<le> j" "j \<le> length cps"
  shows "RKConvertUTF16ToUTF8RangeForStringBuffer (Some b) (range16 cps i j) = Ok (range8 cps i j)"
  using assms by (rule utf16_range_converts)

text \<open>Where the backing up stops: the start of the character that a byte belongs to.\<close>

lemma char_at_inside:
  assumes "k < length cps" "w8 cps k < p" "p < w8 cps (Suc k)"
  shows "\<exists>c. char_at (utf8_of cps) p = Some c \<and> is_continuation c"
proof -
  obtain c cs where c: "utf8_encode (cps ! k) = c # cs"
    by (cases "utf8_encode (cps ! k)") auto
  define q where "q = p - w8 cps k - 1"
  have q: "p = w8 cps k + Suc q" "q < length cs"
    using assms c by (auto simp: q_def w_Suc)
  have "utf8_of cps ! p = cs ! q" "p < length (utf8_of cps)"
    using utf8_of_drop [OF assms(1)] q c
    by (simp_all add: w8_def utf8_width_def nth_append)
  moreover have "is_continuation (cs ! q)"
    using utf8_encode_tail [of "cps ! k"] c q by auto
  ultimately show ?thesis by (simp add: char_at_def)
qed

lemma back_up_inside:
  assumes "k < length cps" "list_all valid_code_point cps"
  shows "w8 cps k \<le> p \<Longrightarrow> p < w8 cps (Suc k) \<Longrightarrow> back_up (utf8_of cps) p = Ok (w8 cps k)"
proof (induction p)
  case (Suc p)
  show ?case
  proof (cases "w8 cps k = Suc p")
    case True
    then show ?thesis
      using char_at_boundary [OF assms(1)] utf8_encode_lead(4) assms by (auto simp: list_all_length)
  next
    case False
    then show ?thesis
      using Suc char_at_inside [OF assms(1), of "Suc p"] by auto
  qed
qed simp

lemma character_range_at:
  assumes "holds_text b cps" "k < length cps"
    and "w8 cps k \<le> p" "p < w8 cps (Suc k) \<or> p = utf8_width cps \<and> Suc k = length cps"
  shows "RKRangeForUTF8CharacterAtLocation (Some b) (of_nat p) = Ok (range8 cps k (Suc k))"
proof -
  have v: "list_all valid_code_point cps" "utf8_width cps < 2 ^ 32"
    and b: "buffer_characters b = utf8_of cps" "buffer_length b = of_nat (utf8_width cps)"
    using assms(1) by (auto simp: holds_text_def)
  have next_le: "w8 cps (Suc k) \<le> utf8_width cps" "w8 cps k < w8 cps (Suc k)"
    using assms(2) w8_le [of "Suc k" "length cps" cps] w8_less [of k "Suc k" cps]
    by (simp_all add: w8_full)
  define q where "q = (if utf8_width cps = p \<and> 0 < p then p - 1 else p)"
  have q: "w8 cps k \<le> q" "q < w8 cps (Suc k)" "q < 2 ^ 32"
    using assms(3,4) next_le v(2) by (auto simp: q_def w8_full)
  have start: "(if buffer_length b = of_nat p \<and> (of_nat p :: u64) > 0 then of_nat p - 1 else of_nat p)
      = (of_nat q :: u64)"
    using assms(3,4) next_le v(2)
    by (auto simp: b q_def of_nat64_eq_iff of_nat_diff word_gt_0 w8_full
        of_nat64_eq_iff [of _ 0, simplified])
  have lead: "char_at (utf8_of cps) (w8 cps k) = Some (hd (utf8_encode (cps ! k)))"
    "\<not> is_continuation (hd (utf8_encode (cps ! k)))"
    "RKLengthOfUTF8Character (hd (utf8_encode (cps ! k))) = length (utf8_encode (cps ! k))"
    using char_at_boundary [OF assms(2)] utf8_encode_lead v(1) assms(2) by (auto simp: list_all_length)
  have "\<exists>c. char_at (utf8_of cps) q = Some c \<and>
      (if is_continuation c then back_up (utf8_of cps) q else Ok q) = Ok (w8 cps k)"
    using back_up_inside [OF assms(2) v(1) q(1,2)] char_at_inside [OF assms(2), of q] q lead
    by (cases "q = w8 cps k") auto
  then show ?thesis
    using q(3) lead w_Suc(1) [OF assms(2)]
    unfolding RKRangeForUTF8CharacterAtLocation_def Let_def option.case start
    by (auto simp: b unat_of_nat_small range8_def split: if_splits)
qed

text \<open>
  For every byte offset inside character \<open>k\<close> of a text the answer is the range of that
  character; at the end of the text it is the last character.
\<close>

lemma RKRangeForUTF8CharacterAtLocation_correct:
  assumes "holds_text b cps" "k < length cps"
    and "w8 cps k \<le> p" "p < w8 cps (Suc k) \<or> p = utf8_width cps \<and> Suc k = length cps"
  shows "RKRangeForUTF8CharacterAtLocation (Some b) (of_nat p) = Ok (range8 cps k (Suc k))"
  using assms by (rule character_range_at)

text \<open>
  A step of the loop adds at most six bytes, so over fewer than \<open>2 ^ 32 - 6\<close> bytes the truncated
  offset is the offset, and the loop stops at the latest at the end of the range.
\<close>

lemma step_bytes_le: "step_bytes c \<le> 6"
proof -
  have "\<forall>k < 64. utf8ExtraBytes ! k \<le> 5"
    unfolding all_less_upt by code_simp
  moreover have "unat (c AND 0x3f) < 64"
    using word_and_le1 [of c "0x3f"] by (simp add: word_le_nat_alt)
  ultimately show ?thesis by (auto simp: step_bytes_def)
qed

lemma utf8_to_utf16_loop_ok:
  "p \<le> length cs + 5 \<Longrightarrow> unat (NSMaxRange r) \<le> length cs \<Longrightarrow> length cs + 6 \<le> 2 ^ 32 \<Longrightarrow>
     is_ok (utf8_to_utf16_loop cs r p u l)"
proof (induction cs r p u l rule: utf8_to_utf16_loop.induct)
  case (1 cs r p u l)
  show ?case
  proof (cases "offset32 p < NSMaxRange r")
    case True
    have "p < length cs"
      using True 1(2,3,4) offset32_small [of p]
      by (simp add: word_less_nat_alt unat_of_nat_small)
    moreover have "p + step_bytes (cs ! p) \<le> length cs + 5"
      using step_bytes_le [of "cs ! p"] \<open>p < length cs\<close> by linarith
    ultimately show ?thesis
      using True "1.IH" [OF True, of _ "cs ! p"] 1(3,4)
      by (subst utf8_to_utf16_loop.simps) (simp add: char_at_def)
  next
    case False
    then show ?thesis by (subst utf8_to_utf16_loop.simps) simp
  qed
qed

lemma utf8_range_ok:
  assumes "valid_buffer b" "unat (buffer_length b) + 6 \<le> 2 ^ 32" "range_end r \<le> unat (buffer_length b)"
  shows "is_ok (RKConvertUTF8ToUTF16RangeForStringBuffer (Some b) r)"
proof -
  have fits: "\<not> range_location r > buffer_length b" "\<not> NSMaxRange r > buffer_length b"
    using assms(2,3) unat_max_range [of r] by (simp_all add: word_less_nat_alt range_end_def)
  then have "is_ok (utf8_to_utf16_loop (buffer_characters b) r 0 0 NSNotFound)"
    using assms by (intro utf8_to_utf16_loop_ok) (auto simp: valid_buffer_def word_le_nat_alt not_less)
  then show ?thesis
    using fits by (auto simp: RKConvertUTF8ToUTF16RangeForStringBuffer_def is_ok_iff Let_def split: prod.splits)
qed

lemma utf8_range_safe:
  assumes "valid_buffer b" "unat (buffer_length b) + 6 \<le> 2 ^ 32"
  shows "RKConvertUTF8ToUTF16RangeForStringBuffer (Some b) r \<noteq> Undefined \<and>
    (RKConvertUTF8ToUTF16RangeForStringBuffer (Some b) r = Raise NSRangeException \<longleftrightarrow>
       range_location r \<noteq> NSNotFound \<and> \<not> (range_location r \<le> buffer_length b \<and> NSMaxRange r \<le> buffer_length b))"
proof (cases "range_location r = NSNotFound \<or> range_location r > buffer_length b \<or> NSMaxRange r > buffer_length b")
  case True
  then show ?thesis by (auto simp: RKConvertUTF8ToUTF16RangeForStringBuffer_def not_le)
next
  case False
  then have "is_ok (utf8_to_utf16_loop (buffer_characters b) r 0 0 NSNotFound)"
    using assms by (intro utf8_to_utf16_loop_ok) (auto simp: valid_buffer_def word_le_nat_alt not_less)
  then show ?thesis
    using False by (auto simp: RKConvertUTF8ToUTF16RangeForStringBuffer_def is_ok_iff not_less Let_def
        split: prod.splits)
qed

text \<open>
  The guard of the conversion in \<open>nat\<close>: \<open>NSMaxRange\<close> is the end of the range modulo $2^{64}$.
\<close>

lemma unat_NSMaxRange_wrap:
  assumes "2 ^ 64 \<le> range_end r"
  shows "unat (NSMaxRange r) = range_end r - 2 ^ 64"
proof -
  have "unat (range_location r) < 2 ^ 64" "unat (range_length r) < 2 ^ 64"
    using unsigned_less [of "range_location r"] unsigned_less [of "range_length r"] by simp_all
  then have "range_end r - 2 ^ 64 < 2 ^ 64" using assms unfolding range_end_def by linarith
  moreover have "unat (NSMaxRange r) = range_end r mod 2 ^ 64"
    by (simp add: NSMaxRange_def range_end_def unat_word_ariths)
  ultimately show ?thesis using assms by (simp add: le_mod_geq)
qed

lemma range_guard_nat:
  "range_end r < 2 ^ 64 \<Longrightarrow>
     (range_location r \<le> len \<and> NSMaxRange r \<le> len) \<longleftrightarrow> range_end r \<le> unat len"
  "2 ^ 64 \<le> range_end r \<Longrightarrow>
     (range_location r \<le> len \<and> NSMaxRange r \<le> len) \<longleftrightarrow>
       unat (range_location r) \<le> unat len \<and> range_end r - 2 ^ 64 \<le> unat len"
  using unat_max_range [of r] unat_NSMaxRange_wrap [of r]
  by (auto simp: word_le_nat_alt range_end_def)

text \<open>
  C33. Memory safety of the UTF-8 to UTF-16 conversion, for arbitrary bytes and arbitrary ranges: in
  a buffer shorter than 4 GiB it never reads outside the buffer. Of the ranges whose end is a
  64-bit number it raises exactly for those that end behind the buffer. A range whose end wraps around is
  not always found: it raises only if the start, or the end less $2^{64}$, is behind the buffer, so that
  \<open>{2, 2 ^ 64 - 1}\<close> is accepted in a buffer of three bytes although it does not fit. The location \<open>NSNotFound\<close>
  never raises.
\<close>

theorem RKConvertUTF8ToUTF16_memory_safe:
  assumes "valid_buffer b" "unat (buffer_length b) + 6 \<le> 2 ^ 32"
  shows "RKConvertUTF8ToUTF16RangeForStringBuffer (Some b) r \<noteq> Undefined \<and>
    (range_location r \<noteq> NSNotFound \<and> range_end r < 2 ^ 64 \<longrightarrow>
       (RKConvertUTF8ToUTF16RangeForStringBuffer (Some b) r = Raise NSRangeException \<longleftrightarrow>
          unat (buffer_length b) < range_end r)) \<and>
    (range_location r \<noteq> NSNotFound \<and> 2 ^ 64 \<le> range_end r \<longrightarrow>
       (RKConvertUTF8ToUTF16RangeForStringBuffer (Some b) r = Raise NSRangeException \<longleftrightarrow>
          unat (buffer_length b) < unat (range_location r) \<or> unat (buffer_length b) + 2 ^ 64 < range_end r)) \<and>
    (range_location r = NSNotFound \<longrightarrow>
       RKConvertUTF8ToUTF16RangeForStringBuffer (Some b) r \<noteq> Raise NSRangeException)"
  using utf8_range_safe [OF assms, of r] range_guard_nat [of r "buffer_length b"] by auto

text \<open>
  A range that ends beyond 4 GiB is never reached by the truncated offset: the loop runs off the end
  of the buffer.
\<close>

lemma utf8_to_utf16_beyond_4GiB:
  "0xFFFFFFFF < NSMaxRange r \<Longrightarrow> utf8_to_utf16_loop cs r p u l = Undefined"
proof (induction cs r p u l rule: utf8_to_utf16_loop.induct)
  case (1 cs r p u l)
  have "unat (of_nat p :: u32) < 2 ^ 32"
    using unsigned_less [of "of_nat p :: u32"] by simp
  then have "offset32 p \<le> 0xFFFFFFFF"
    by (simp add: offset32_def word_le_nat_alt unsigned_ucast_eq take_bit_nat_eq_self)
  then have "offset32 p < NSMaxRange r" using 1(2) by simp
  then show ?case
    using "1.IH" 1(2) by (subst utf8_to_utf16_loop.simps) (auto split: option.split)
qed

section \<open>Witnesses\<close>

text \<open>\<open>a\<close>, e with acute accent, the euro sign, a G clef (outside the basic plane) and \<open>z\<close>.\<close>

definition sample_text :: "nat list" where
  "sample_text = [0x61, 0xE9, 0x20AC, 0x1D11E, 0x7A]"

definition sample_buffer :: RKStringBuffer where
  "sample_buffer = RKMakeStringBuffer 6 (utf8_of sample_text) 11 EncodingUTF8"

lemmas sample_eval = sample_buffer_def sample_text_def RKMakeStringBuffer_def utf8_of_def utf8_encode_def
  utf8_width_def utf16_width_def utf16_units_def valid_code_point_def range8_def range16_def w8_def w16_def

lemma sample_holds: "holds_text sample_buffer sample_text"
  by (simp add: holds_text_def sample_eval)

theorem RKConvertUTF8ToUTF16_correct_witness:
  "RKConvertUTF8ToUTF16RangeForStringBuffer (Some sample_buffer) (NSMakeRange 3 7) = Ok (NSMakeRange 2 3)"
proof -
  have "range8 sample_text 2 4 = NSMakeRange 3 7" "range16 sample_text 2 4 = NSMakeRange 2 3"
    by (simp_all add: sample_eval)
  then show ?thesis
    using RKConvertUTF8ToUTF16_correct [OF sample_holds, of 2 4] by (simp add: sample_text_def)
qed

lemma RKConvertUTF16ToUTF8_correct_witness:
  "RKConvertUTF16ToUTF8RangeForStringBuffer (Some sample_buffer) (NSMakeRange 2 3) = Ok (NSMakeRange 3 7)"
proof -
  have "range8 sample_text 2 4 = NSMakeRange 3 7" "range16 sample_text 2 4 = NSMakeRange 2 3"
    by (simp_all add: sample_eval)
  then show ?thesis
    using RKConvertUTF16ToUTF8_correct [OF sample_holds, of 2 4] by (simp add: sample_text_def)
qed

lemma RKRangeForUTF8CharacterAtLocation_correct_witness:
  "RKRangeForUTF8CharacterAtLocation (Some sample_buffer) 8 = Ok (NSMakeRange 6 4)"
proof -
  have "range8 sample_text 3 (Suc 3) = NSMakeRange 6 4" "w8 sample_text 3 \<le> 8" "8 < w8 sample_text (Suc 3)"
    by (simp_all add: sample_eval)
  then show ?thesis
    using RKRangeForUTF8CharacterAtLocation_correct [OF sample_holds, of 3 8]
    by (simp add: sample_text_def)
qed

theorem RKConvertUTF8ToUTF16_memory_safe_witness:
  "RKConvertUTF8ToUTF16RangeForStringBuffer
     (Some (RKMakeStringBuffer 3 [0xFF, 0x80, 0xC0] 3 EncodingUTF8)) (NSMakeRange 1 3) = Raise NSRangeException \<and>
   RKConvertUTF8ToUTF16RangeForStringBuffer
     (Some (RKMakeStringBuffer 3 [0xFF, 0x80, 0xC0] 3 EncodingUTF8)) (NSMakeRange 2 (- 1)) \<noteq> Raise NSRangeException"
proof -
  have buffer: "valid_buffer (RKMakeStringBuffer 3 [0xFF, 0x80, 0xC0] 3 EncodingUTF8)"
    "unat (buffer_length (RKMakeStringBuffer 3 [0xFF, 0x80, 0xC0] 3 EncodingUTF8)) + 6 \<le> 2 ^ 32"
    "unat (buffer_length (RKMakeStringBuffer 3 [0xFF, 0x80, 0xC0] 3 EncodingUTF8)) = 3"
    by (simp_all add: valid_buffer_def RKMakeStringBuffer_def)
  have ranges: "range_location (NSMakeRange 1 3) = 1" "range_end (NSMakeRange 1 3) = 4"
    "range_location (NSMakeRange 2 (- 1)) = 2" "range_end (NSMakeRange 2 (- 1)) = 2 ^ 64 + 1"
    by (simp_all add: range_end_def NSMakeRange_def unat_minus_one_64)
  show ?thesis
    using RKConvertUTF8ToUTF16_memory_safe [OF buffer(1,2), of "NSMakeRange 1 3"]
      RKConvertUTF8ToUTF16_memory_safe [OF buffer(1,2), of "NSMakeRange 2 (- 1)"] buffer(3) ranges
    by (simp add: NSNotFound_def RKIntegerMax_def)
qed

end
