(* ===== verification/RK_Vectors.thy ===== *)
theory RK_Vectors
  imports RK_Types RK_Unicode
begin

text \<open>
  The low level interface to \<open>pcre_exec\<close> in \<open>RKRegex.m\<close>: the guards around it, the conversion of its
  vector of 32 bit offsets, in place, into an array of 64 bit ranges, and the public matching methods
  over it. The memory that \<open>ranges\<close> points to is a list of 32 bit words: an \<open>NSRange\<close> takes four, a
  PCRE offset one. \<open>pcre_exec\<close> itself is a parameter.
\<close>

section \<open>The regex object, errors and the library\<close>

text \<open>
  The instance variables of \<open>RKRegex\<close> (\<open>RKRegex.h\<close>). A compiled pattern is a handle that only the
  library functions interpret; \<open>regex_jchanged\<close> is what \<open>pcre_fullinfo\<close> answers for
  \<open>PCRE_INFO_JCHANGED\<close> on it, \<open>None\<close> where the call fails. The capture name table is the library's
  byte array.
\<close>

record RKRegex =
  compiledPCRE :: nat
  regex_jchanged :: "int option"
  compiledRegexString :: string
  compileOption :: u32
  captureCount :: u64
  captureNameTable :: "byte list"
  captureNameTableLength :: nat
  captureNameLength :: nat
  captureNameArray :: "string option list option"
  regex_hash :: u64

datatype error_domain =
    RKRegexPCRELibraryErrorDomain
  | RKRegexErrorDomain
  | NSPOSIXErrorDomain
  | NSCocoaErrorDomain

record ns_error =
  error_domain :: error_domain
  error_code :: int

definition rkErrorWithDomain :: "error_domain \<Rightarrow> int \<Rightarrow> ns_error" where
  "rkErrorWithDomain domain code = \<lparr>error_domain = domain, error_code = code\<rparr>"

definition rkErrorWithCode :: "int \<Rightarrow> ns_error" where
  "rkErrorWithCode code = rkErrorWithDomain RKRegexErrorDomain code"

text \<open>
  \<open>pcre_exec\<close>: from a handle, the subject, its length, the start offset, the options and the size of
  the vector (all C \<open>int\<close>s), its return code and the words it leaves at the start of the vector.
\<close>

type_synonym pcre_exec = "nat \<Rightarrow> byte list \<Rightarrow> u32 \<Rightarrow> u32 \<Rightarrow> u32 \<Rightarrow> u32 \<Rightarrow> int \<times> u32 list"

definition RK_PRESIZE_CAPTURE_COUNT :: "u64 \<Rightarrow> u64" where
  "RK_PRESIZE_CAPTURE_COUNT x = 256 + x + drop_bit 1 x"

definition RK_MINIMUM_CAPTURE_COUNT :: "u64 \<Rightarrow> u64" where
  "RK_MINIMUM_CAPTURE_COUNT x = x + (x div 3 + (3 - x mod 3) mod 3)"

section \<open>Ranges in memory\<close>

definition lo32 :: "u64 \<Rightarrow> u32" where "lo32 x = ucast x"
definition hi32 :: "u64 \<Rightarrow> u32" where "hi32 x = ucast (drop_bit 32 x)"
definition join32 :: "u32 \<Rightarrow> u32 \<Rightarrow> u64" where "join32 l h = ucast l OR push_bit 32 (ucast h)"

definition get_range :: "u32 list \<Rightarrow> nat \<Rightarrow> ns_range" where
  "get_range mem x =
     NSMakeRange (join32 (mem ! (4 * x)) (mem ! (4 * x + 1))) (join32 (mem ! (4 * x + 2)) (mem ! (4 * x + 3)))"

text \<open>\<open>ranges[x] = r\<close>, which is a write outside the array unless all four words lie inside.\<close>

definition put_range :: "u32 list \<Rightarrow> nat \<Rightarrow> ns_range \<Rightarrow> u32 list run" where
  "put_range mem x r =
     (if 4 * x + 3 < length mem then
        Ok (mem[4 * x := lo32 (range_location r), 4 * x + 1 := hi32 (range_location r),
                4 * x + 2 := lo32 (range_length r), 4 * x + 3 := hi32 (range_length r)])
      else Undefined)"

text \<open>
  The range of a pair of offsets. The subtraction is one of C \<open>int\<close>s; both it and the start are sign
  extended to \<open>RKUInteger\<close>.
\<close>

definition range_of_vectors :: "u32 \<Rightarrow> u32 \<Rightarrow> ns_range" where
  "range_of_vectors s e =
     (if s = - 1 then NSMakeRange NSNotFound 0 else NSMakeRange (scast s) (scast (e - s)))"

definition convert_one :: "u32 list \<Rightarrow> nat \<Rightarrow> u32 list run" where
  "convert_one mem x =
     (if 2 * x + 1 < length mem then put_range mem x (range_of_vectors (mem ! (2 * x)) (mem ! (2 * x + 1)))
      else Undefined)"

text \<open>The \<open>for\<close> loop from the last pair down to pair 1.\<close>

fun convert_tail :: "u32 list \<Rightarrow> nat \<Rightarrow> u32 list run" where
  "convert_tail mem 0 = Ok mem"
| "convert_tail mem (Suc x) = run_bind (convert_one mem (Suc x)) (\<lambda>mem'. convert_tail mem' x)"

text \<open>The loop that writes \<open>{NSNotFound, 0}\<close> into the \<open>n\<close> ranges from \<open>x\<close> on.\<close>

fun fill_not_found :: "u32 list \<Rightarrow> nat \<Rightarrow> nat \<Rightarrow> u32 list run" where
  "fill_not_found mem x 0 = Ok mem"
| "fill_not_found mem x (Suc n) =
     run_bind (put_range mem x (NSMakeRange NSNotFound 0)) (\<lambda>mem'. fill_not_found mem' (Suc x) n)"

definition convert_vectors :: "u32 list \<Rightarrow> nat \<Rightarrow> nat \<Rightarrow> u32 list run" where
  "convert_vectors mem errorCode count =
     run_bind (convert_tail mem (errorCode - 1))
       (\<lambda>mem1. run_bind (convert_one mem1 0)
          (\<lambda>mem2. fill_not_found mem2 errorCode (count - errorCode)))"

section \<open>The in-place conversion is the conversion\<close>

lemma join_lo_hi [simp]: "join32 (lo32 x) (hi32 x) = x"
  unfolding join32_def lo32_def hi32_def
  by (rule bit_word_eqI) (auto simp: bit_simps)

lemma put_range_get:
  assumes "put_range mem x r = Ok mem'"
  shows "length mem' = length mem" "get_range mem' x = r"
    and "\<And>i. i < 4 * x \<or> 4 * x + 4 \<le> i \<Longrightarrow> mem' ! i = mem ! i"
  using assms by (auto simp: put_range_def get_range_def nth_list_update split: if_splits)

lemma get_range_cong:
  "(\<And>i. 4 * x \<le> i \<Longrightarrow> i < 4 * x + 4 \<Longrightarrow> mem' ! i = mem ! i) \<Longrightarrow> get_range mem' x = get_range mem x"
  by (simp add: get_range_def)

lemma put_range_ok: "4 * x + 3 < length mem \<Longrightarrow> \<exists>mem'. put_range mem x r = Ok mem'"
  by (simp add: put_range_def)

lemma convert_one_ok:
  assumes "4 * x + 3 < length mem"
  shows "\<exists>mem'. convert_one mem x = Ok mem' \<and> length mem' = length mem \<and>
    get_range mem' x = range_of_vectors (mem ! (2 * x)) (mem ! (2 * x + 1)) \<and>
    (\<forall>i. i < 4 * x \<or> 4 * x + 4 \<le> i \<longrightarrow> mem' ! i = mem ! i)"
proof -
  obtain mem' where m: "put_range mem x (range_of_vectors (mem ! (2 * x)) (mem ! (2 * x + 1))) = Ok mem'"
    using put_range_ok [OF assms] by blast
  then show ?thesis using put_range_get [OF m] assms by (auto simp: convert_one_def)
qed

lemma convert_tail_ok:
  "4 * x + 3 < length mem \<Longrightarrow>
    \<exists>mem'. convert_tail mem x = Ok mem' \<and> length mem' = length mem \<and>
      (\<forall>i. i < 4 \<or> 4 * x + 4 \<le> i \<longrightarrow> mem' ! i = mem ! i) \<and>
      (\<forall>j. 0 < j \<and> j \<le> x \<longrightarrow> get_range mem' j = range_of_vectors (mem ! (2 * j)) (mem ! (2 * j + 1)))"
proof (induction x arbitrary: mem)
  case 0
  then show ?case by simp
next
  case (Suc x)
  obtain mem1 where m1: "convert_one mem (Suc x) = Ok mem1" "length mem1 = length mem"
      "get_range mem1 (Suc x) = range_of_vectors (mem ! (2 * Suc x)) (mem ! (2 * Suc x + 1))"
      "\<And>i. i < 4 * Suc x \<or> 4 * Suc x + 4 \<le> i \<Longrightarrow> mem1 ! i = mem ! i"
    using convert_one_ok [OF Suc.prems] by blast
  obtain mem2 where m2: "convert_tail mem1 x = Ok mem2" "length mem2 = length mem1"
      "\<And>i. i < 4 \<or> 4 * x + 4 \<le> i \<Longrightarrow> mem2 ! i = mem1 ! i"
      "\<And>j. 0 < j \<Longrightarrow> j \<le> x \<Longrightarrow> get_range mem2 j = range_of_vectors (mem1 ! (2 * j)) (mem1 ! (2 * j + 1))"
    using Suc.IH [of mem1] Suc.prems m1(2) by auto
  have "get_range mem2 j = range_of_vectors (mem ! (2 * j)) (mem ! (2 * j + 1))" if "0 < j" "j \<le> Suc x" for j
  proof (cases "j = Suc x")
    case True
    have "get_range mem2 (Suc x) = get_range mem1 (Suc x)"
      using m2(3) by (intro get_range_cong) simp
    then show ?thesis using True m1(3) by simp
  next
    case False
    then show ?thesis using that m2(4) [of j] m1(4) by simp
  qed
  moreover have "mem2 ! i = mem ! i" if "i < 4 \<or> 4 * Suc x + 4 \<le> i" for i
    using that m2(3) [of i] m1(4) [of i] by auto
  ultimately show ?case using m1 m2 by auto
qed

lemma fill_not_found_ok:
  "4 * (x + n) \<le> length mem \<Longrightarrow>
    \<exists>mem'. fill_not_found mem x n = Ok mem' \<and> length mem' = length mem \<and>
      (\<forall>j < x. get_range mem' j = get_range mem j) \<and>
      (\<forall>j. x \<le> j \<and> j < x + n \<longrightarrow> get_range mem' j = NSMakeRange NSNotFound 0) \<and>
      (\<forall>i. 4 * (x + n) \<le> i \<longrightarrow> mem' ! i = mem ! i)"
proof (induction n arbitrary: mem x)
  case 0
  then show ?case by auto
next
  case (Suc n)
  obtain mem1 where m1: "put_range mem x (NSMakeRange NSNotFound 0) = Ok mem1"
    using put_range_ok [of x mem] Suc.prems by auto
  note p = put_range_get [OF m1]
  obtain mem2 where m2: "fill_not_found mem1 (Suc x) n = Ok mem2" "length mem2 = length mem1"
      "\<And>j. j < Suc x \<Longrightarrow> get_range mem2 j = get_range mem1 j"
      "\<And>j. Suc x \<le> j \<Longrightarrow> j < Suc x + n \<Longrightarrow> get_range mem2 j = NSMakeRange NSNotFound 0"
      "\<And>i. 4 * (Suc x + n) \<le> i \<Longrightarrow> mem2 ! i = mem1 ! i"
    using Suc.IH [of "Suc x" mem1] Suc.prems p(1) by auto
  have "get_range mem2 j = get_range mem j" if "j < x" for j
    using that m2(3) [of j] p(3) get_range_cong [of j mem1 mem] by auto
  moreover have "get_range mem2 j = NSMakeRange NSNotFound 0" if "x \<le> j" "j < x + Suc n" for j
    using that m2(3) [of x] m2(4) [of j] p(2) by (cases "j = x") auto
  moreover have "mem2 ! i = mem ! i" if "4 * (x + Suc n) \<le> i" for i
    using that m2(5) [of i] p(3) [of i] by auto
  ultimately show ?case using m1 m2 p by auto
qed

text \<open>What the caller should find in \<open>ranges[x]\<close> after \<open>pcre_exec\<close> has left the vector \<open>mem\<close>.\<close>

definition expected_range :: "u32 list \<Rightarrow> nat \<Rightarrow> nat \<Rightarrow> ns_range" where
  "expected_range vectors errorCode x =
     (if x < errorCode then range_of_vectors (vectors ! (2 * x)) (vectors ! (2 * x + 1))
      else NSMakeRange NSNotFound 0)"

lemma convert_vectors_ok:
  assumes "0 < rc" "4 * rc \<le> length mem" "4 * cc \<le> length mem"
  shows "\<exists>mem'. convert_vectors mem rc cc = Ok mem' \<and> length mem' = length mem \<and>
    (\<forall>x < max rc cc. get_range mem' x = expected_range mem rc x)"
proof -
  have last: "4 * (rc - 1) + 3 < length mem" using assms by linarith
  obtain mem1 where m1: "convert_tail mem (rc - 1) = Ok mem1" "length mem1 = length mem"
      "\<And>i. i < 4 \<Longrightarrow> mem1 ! i = mem ! i"
      "\<And>j. 0 < j \<Longrightarrow> j \<le> rc - 1 \<Longrightarrow> get_range mem1 j = range_of_vectors (mem ! (2 * j)) (mem ! (2 * j + 1))"
    using convert_tail_ok [OF last] by blast
  obtain mem2 where m2: "convert_one mem1 0 = Ok mem2" "length mem2 = length mem1"
      "get_range mem2 0 = range_of_vectors (mem1 ! 0) (mem1 ! 1)"
      "\<And>i. 4 \<le> i \<Longrightarrow> mem2 ! i = mem1 ! i"
    using convert_one_ok [of 0 mem1] m1(2) assms by auto
  have r2: "get_range mem2 j = expected_range mem rc j" if "j < rc" for j
  proof (cases "j = 0")
    case True
    then show ?thesis using m2(3) m1(3) assms(1) by (simp add: expected_range_def)
  next
    case False
    then have "get_range mem2 j = get_range mem1 j" using m2(4) by (intro get_range_cong) auto
    then show ?thesis using False that m1(4) [of j] by (simp add: expected_range_def)
  qed
  have rest: "4 * (rc + (cc - rc)) \<le> length mem2" using m1(2) m2(2) assms by (cases "rc \<le> cc") auto
  obtain mem3 where m3: "fill_not_found mem2 rc (cc - rc) = Ok mem3" "length mem3 = length mem2"
      "\<And>j. j < rc \<Longrightarrow> get_range mem3 j = get_range mem2 j"
      "\<And>j. rc \<le> j \<Longrightarrow> j < rc + (cc - rc) \<Longrightarrow> get_range mem3 j = NSMakeRange NSNotFound 0"
    using fill_not_found_ok [OF rest] by blast
  have "get_range mem3 x = expected_range mem rc x" if "x < max rc cc" for x
    using that m3(3,4) r2 by (cases "x < rc") (auto simp: expected_range_def)
  then show ?thesis
    using m1 m2 m3 by (intro exI [of _ mem3]) (simp add: convert_vectors_def)
qed

section \<open>The private matching method\<close>

text \<open>
  \<open>getRanges:count:withCharacters:length:inRange:options:error:\<close>. The arguments \<open>ranges\<close> and
  \<open>charactersBuffer\<close> are \<open>None\<close> for \<open>NULL\<close>. The answer is the return code, the memory of \<open>ranges\<close> and the
  error object.
\<close>

definition getRanges_count ::
  "pcre_exec \<Rightarrow> RKRegex \<Rightarrow> u32 list option \<Rightarrow> u64 \<Rightarrow> byte list option \<Rightarrow> u64 \<Rightarrow> ns_range \<Rightarrow> u32 \<Rightarrow>
     (int \<times> u32 list \<times> ns_error option) run" where
  "getRanges_count exec regex ranges rangeCount charactersBuffer len searchRange options =
    (if \<not> rangeCount \<ge> RK_MINIMUM_CAPTURE_COUNT (captureCount regex) then Raise NSInternalInconsistencyException
     else case ranges of None \<Rightarrow> Raise NSInvalidArgumentException
     | Some mem \<Rightarrow>
    (case charactersBuffer of None \<Rightarrow> Raise NSInvalidArgumentException
     | Some chars \<Rightarrow>
     if len < range_location searchRange then Raise NSRangeException
     else if len < range_location searchRange + range_length searchRange then Raise NSRangeException
     else if range_location searchRange > INT_MAX_U then Raise NSRangeException
     else if range_length searchRange > INT_MAX_U then Raise NSRangeException
     else if len > INT_MAX_U then Raise NSRangeException
     else
       let (errorCode, written) =
             exec (compiledPCRE regex) chars (ucast len) (ucast (range_location searchRange)) options (ucast rangeCount);
           vectors = written @ drop (length written) mem
       in if errorCode > 0 then
            (if vectors ! 1 \<noteq> - 1 \<and> (scast (vectors ! 1) :: u64) > NSMaxRange searchRange
             then Ok (RKMatchErrorNoMatch, vectors, None)
             else run_bind (convert_vectors vectors (nat errorCode) (unat (captureCount regex)))
                    (\<lambda>mem'. Ok (errorCode, mem', None)))
          else Ok (errorCode, vectors,
                   if errorCode < - 1 then Some (rkErrorWithDomain RKRegexPCRELibraryErrorDomain errorCode)
                   else None)))"

section \<open>The public matching methods\<close>

text \<open>The uninitialised array that \<open>alloca\<close> gives, here a parameter \<open>junk\<close>, cut to the right size.\<close>

definition stack_ranges :: "(nat \<Rightarrow> u32) \<Rightarrow> u64 \<Rightarrow> u32 list" where
  "stack_ranges junk count = map junk [0..<4 * unat count]"

definition rangeForCharacters_error ::
  "pcre_exec \<Rightarrow> (nat \<Rightarrow> u32) \<Rightarrow> RKRegex \<Rightarrow> byte list option \<Rightarrow> u64 \<Rightarrow> ns_range \<Rightarrow> u64 \<Rightarrow> u32 \<Rightarrow>
     (ns_range \<times> ns_error option) run" where
  "rangeForCharacters_error exec junk regex chars len searchRange captureIndex options =
     (let count = RK_PRESIZE_CAPTURE_COUNT (captureCount regex);
          notFound = NSMakeRange NSNotFound 0
      in if captureIndex \<ge> captureCount regex then Ok (notFound, Some (rkErrorWithCode 0))
         else run_bind (getRanges_count exec regex (Some (stack_ranges junk count)) count chars len searchRange options)
           (\<lambda>(matchErrorCode, mem, matchError).
              if matchErrorCode \<le> 0 \<or> \<not> RKRangeInsideRange (get_range mem 0) searchRange
              then Ok (notFound, matchError)
              else Ok (get_range mem (unat captureIndex), matchError)))"

text \<open>
  The exception an error becomes in the methods without an \<open>error:\<close> argument: errors of the PCRE
  library are swallowed.
\<close>

definition raise_unless_pcre :: "ns_error option \<Rightarrow> 'a \<Rightarrow> 'a run" where
  "raise_unless_pcre e x =
     (case e of None \<Rightarrow> Ok x
      | Some err \<Rightarrow>
          if error_domain err = RKRegexPCRELibraryErrorDomain then Ok x
          else if error_domain err = NSPOSIXErrorDomain then Raise NSMallocException
          else Raise NSInvalidArgumentException)"

definition rangeForCharacters ::
  "pcre_exec \<Rightarrow> (nat \<Rightarrow> u32) \<Rightarrow> RKRegex \<Rightarrow> byte list option \<Rightarrow> u64 \<Rightarrow> ns_range \<Rightarrow> u64 \<Rightarrow> u32 \<Rightarrow> ns_range run" where
  "rangeForCharacters exec junk regex chars len searchRange captureIndex options =
     run_bind (rangeForCharacters_error exec junk regex chars len searchRange captureIndex options)
       (\<lambda>(range, err). raise_unless_pcre err range)"

definition matchesCharacters_error ::
  "pcre_exec \<Rightarrow> (nat \<Rightarrow> u32) \<Rightarrow> RKRegex \<Rightarrow> byte list option \<Rightarrow> u64 \<Rightarrow> ns_range \<Rightarrow> u32 \<Rightarrow>
     (bool \<times> ns_error option) run" where
  "matchesCharacters_error exec junk regex chars len searchRange options =
     run_map (\<lambda>(range, err). (\<not> NSEqualRanges (NSMakeRange NSNotFound 0) range, err))
       (rangeForCharacters_error exec junk regex chars len searchRange 0 options)"

definition matchesCharacters ::
  "pcre_exec \<Rightarrow> (nat \<Rightarrow> u32) \<Rightarrow> RKRegex \<Rightarrow> byte list option \<Rightarrow> u64 \<Rightarrow> ns_range \<Rightarrow> u32 \<Rightarrow> bool run" where
  "matchesCharacters exec junk regex chars len searchRange options =
     run_map (\<lambda>range. \<not> NSEqualRanges (NSMakeRange NSNotFound 0) range)
       (rangeForCharacters exec junk regex chars len searchRange 0 options)"

text \<open>\<open>rangesForCharacters:\<close> copies the first \<open>captureCount\<close> ranges; its answer is \<open>None\<close> for \<open>NULL\<close>.\<close>

definition rangesForCharacters_error ::
  "pcre_exec \<Rightarrow> (nat \<Rightarrow> u32) \<Rightarrow> RKRegex \<Rightarrow> byte list option \<Rightarrow> u64 \<Rightarrow> ns_range \<Rightarrow> u32 \<Rightarrow>
     (ns_range list option \<times> ns_error option) run" where
  "rangesForCharacters_error exec junk regex chars len searchRange options =
     (let count = RK_PRESIZE_CAPTURE_COUNT (captureCount regex)
      in run_bind (getRanges_count exec regex (Some (stack_ranges junk count)) count chars len searchRange options)
           (\<lambda>(matchErrorCode, mem, matchError).
              if matchErrorCode \<le> 0 then Ok (None, matchError)
              else Ok (Some (map (get_range mem) [0..<unat (captureCount regex)]), matchError)))"

definition rangesForCharacters ::
  "pcre_exec \<Rightarrow> (nat \<Rightarrow> u32) \<Rightarrow> RKRegex \<Rightarrow> byte list option \<Rightarrow> u64 \<Rightarrow> ns_range \<Rightarrow> u32 \<Rightarrow> ns_range list option run" where
  "rangesForCharacters exec junk regex chars len searchRange options =
     run_bind (rangesForCharacters_error exec junk regex chars len searchRange options)
       (\<lambda>(ranges, err). raise_unless_pcre err ranges)"

text \<open>
  \<open>getRanges:withCharacters:length:inRange:options:error:\<close>, which copies \<open>captureCount\<close> ranges to the
  caller's array on a match and leaves it alone otherwise (\<open>None\<close>).
\<close>

definition getRanges_error ::
  "pcre_exec \<Rightarrow> (nat \<Rightarrow> u32) \<Rightarrow> RKRegex \<Rightarrow> bool \<Rightarrow> byte list option \<Rightarrow> u64 \<Rightarrow> ns_range \<Rightarrow> u32 \<Rightarrow>
     (int \<times> ns_range list option \<times> ns_error option) run" where
  "getRanges_error exec junk regex rangesIsNULL chars len searchRange options =
     (if rangesIsNULL then Raise NSInvalidArgumentException
      else let count = RK_PRESIZE_CAPTURE_COUNT (captureCount regex)
      in run_bind (getRanges_count exec regex (Some (stack_ranges junk count)) count chars len searchRange options)
           (\<lambda>(matchErrorCode, mem, err).
              Ok (matchErrorCode,
                  if matchErrorCode > 0 then Some (map (get_range mem) [0..<unat (captureCount regex)]) else None,
                  err)))"

definition getRanges ::
  "pcre_exec \<Rightarrow> (nat \<Rightarrow> u32) \<Rightarrow> RKRegex \<Rightarrow> bool \<Rightarrow> byte list option \<Rightarrow> u64 \<Rightarrow> ns_range \<Rightarrow> u32 \<Rightarrow>
     (int \<times> ns_range list option) run" where
  "getRanges exec junk regex rangesIsNULL chars len searchRange options =
     run_bind (getRanges_error exec junk regex rangesIsNULL chars len searchRange options)
       (\<lambda>(code, ranges, err). raise_unless_pcre err (code, ranges))"

section \<open>What the library promises\<close>

text \<open>
  The documented behaviour of \<open>pcre_exec\<close>: it writes no more words than the vector has, and on a match
  it returns one more than the highest pair it set, of which the vector holds at most a third of its
  size; a pair is \<open>-1, -1\<close> or the start and end of a substring of the subject, and the first is set.
\<close>

definition pair_ok :: "u32 \<Rightarrow> u32 \<Rightarrow> u32 \<Rightarrow> bool" where
  "pair_ok len s e \<longleftrightarrow> s = - 1 \<and> e = - 1 \<or> unat s \<le> unat e \<and> unat e \<le> unat len"

definition pcre_exec_contract :: "pcre_exec \<Rightarrow> bool" where
  "pcre_exec_contract exec \<longleftrightarrow>
     (\<forall>h chars len start opts size rc written. exec h chars len start opts size = (rc, written) \<longrightarrow>
        length written \<le> unat size \<and>
        (0 < rc \<longrightarrow> 3 * nat rc \<le> unat size \<and> 2 * nat rc \<le> length written \<and> written ! 0 \<noteq> - 1 \<and>
           (\<forall>i < nat rc. pair_ok len (written ! (2 * i)) (written ! (2 * i + 1)))))"

definition valid_capture :: "u64 \<Rightarrow> ns_range \<Rightarrow> bool" where
  "valid_capture len r \<longleftrightarrow> r = range_not_found \<or> range_end r \<le> unat len"

lemma scast_small:
  assumes "unat (s :: u32) < 2147483648" shows "(scast s :: u64) = of_nat (unat s)"
proof -
  have u: "uint s < 2147483648" "0 \<le> uint s"
    unfolding uint_nat using assms by linarith+
  then have neg: "- 2147483648 \<le> uint s" by linarith
  have "sint s = uint s"
    unfolding sint_uint using signed_take_bit_int_eq_self [of 31 "uint s"] u neg by simp
  also have "\<dots> = int (unat s)" by (rule uint_nat)
  finally show ?thesis by (metis of_int_of_nat_eq of_int_sint)
qed

lemma unat_scast_small:
  "unat (s :: u32) < 2147483648 \<Longrightarrow> unat (scast s :: u64) = unat s"
  using scast_small [of s] unat_of_nat_small [of "unat s"] by (simp del: of_nat_unat)

lemma range_of_vectors_valid:
  assumes "pair_ok l s e" "l = ucast len" "unat len \<le> 2147483647"
  shows "valid_capture len (range_of_vectors s e)"
    and "s \<noteq> - 1 \<Longrightarrow> NSMaxRange (range_of_vectors s e) = scast e"
proof -
  have l: "unat l = unat len"
    using assms(2,3) by (simp add: unsigned_ucast_eq take_bit_nat_eq_self)
  have range: "unat e \<le> unat len" "unat s \<le> unat e" "unat (e - s) = unat e - unat s" if "s \<noteq> - 1"
    using that assms(1) l by (auto simp: pair_ok_def unat_sub word_le_nat_alt)
  have casts: "unat (scast s :: u64) = unat s" "unat (scast e :: u64) = unat e"
    "unat (scast (e - s) :: u64) = unat e - unat s" if "s \<noteq> - 1"
    using range [OF that] assms(3) by (simp_all add: unat_scast_small)
  show "valid_capture len (range_of_vectors s e)"
    using range casts
    by (cases "s = - 1") (auto simp: range_of_vectors_def valid_capture_def range_not_found_def range_end_def)
  show "s \<noteq> - 1 \<Longrightarrow> NSMaxRange (range_of_vectors s e) = scast e"
    using range casts assms(3)
    by (intro word_unat_eq_iff [THEN iffD2])
      (simp add: range_of_vectors_def NSMaxRange_def unat_plus_small)
qed

section \<open>Properties\<close>

text \<open>
  C22. The in-place conversion. Working from the last pair down, the loops turn any vector that
  \<open>pcre_exec\<close> leaves in the memory of \<open>ranges\<close> into exactly the ranges of its pairs: every pair is read
  before its words are overwritten by a range twice its size, the captures PCRE did not report become
  \<open>{NSNotFound, 0}\<close>, and no access leaves the array.
\<close>

theorem convert_vectors_correct:
  assumes "0 < rc" "4 * rc \<le> length mem" "4 * cc \<le> length mem"
  shows "run_map (\<lambda>mem'. map (get_range mem') [0..<cc]) (convert_vectors mem rc cc) =
    Ok (map (expected_range mem rc) [0..<cc])"
proof -
  obtain mem' where "convert_vectors mem rc cc = Ok mem'"
      "\<forall>x < max rc cc. get_range mem' x = expected_range mem rc x"
    using convert_vectors_ok [OF assms] by blast
  then show ?thesis by simp
qed

text \<open>The guards, in the order of the code.\<close>

lemma guards_iff:
  "\<not> len < range_location r \<and> \<not> len < range_location r + range_length r \<and>
   \<not> range_location r > INT_MAX_U \<and> \<not> range_length r > INT_MAX_U \<and> \<not> len > INT_MAX_U \<longleftrightarrow>
   range_end r \<le> unat len \<and> unat len \<le> 2147483647"
proof (cases "unat (range_location r) \<le> 2147483647 \<and> unat (range_length r) \<le> 2147483647")
  case True
  then have "unat (range_location r + range_length r) = range_end r"
    by (simp add: range_end_def unat_plus_small)
  then show ?thesis
    using True by (auto simp: word_less_nat_alt unat_INT_MAX_U range_end_def)
next
  case False
  then show ?thesis
    by (auto simp: word_less_nat_alt unat_INT_MAX_U range_end_def)
qed

text \<open>
  The guards against PCRE's 32 bit integers are exact: with the arguments present, the method
  raises a range exception if and only if the search range does not lie inside the subject or the
  subject is longer than \<open>INT_MAX\<close>; wrap-around of \<open>location + length\<close> lets nothing through.
\<close>

lemma getRanges_count_range_exception:
  assumes "RK_MINIMUM_CAPTURE_COUNT (captureCount regex) \<le> rangeCount"
  shows "getRanges_count exec regex (Some mem) rangeCount (Some chars) len r options = Raise NSRangeException \<longleftrightarrow>
    \<not> (range_end r \<le> unat len \<and> unat len \<le> 2147483647)"
proof -
  have no_raise: "convert_vectors m n k \<noteq> Raise NSRangeException" for m n k
  proof -
    have put: "put_range m x q \<noteq> Raise e" for m x q e by (simp add: put_range_def)
    have one: "convert_one m x \<noteq> Raise e" for m x e by (simp add: convert_one_def put)
    have tail: "convert_tail m x \<noteq> Raise e" for m x e
      by (induction m x rule: convert_tail.induct) (auto simp: run_simps one)
    have fill: "fill_not_found m x n \<noteq> Raise e" for m x n e
      by (induction m x n rule: fill_not_found.induct) (auto simp: run_simps put)
    show ?thesis by (simp add: convert_vectors_def run_simps one tail fill)
  qed
  show ?thesis
    unfolding guards_iff [symmetric] getRanges_count_def using assms no_raise
    by (auto simp: Let_def run_simps split: prod.splits if_splits)
qed

lemma presize_ge_minimum:
  assumes "unat x \<le> 2 ^ 62"
  shows "RK_MINIMUM_CAPTURE_COUNT x \<le> RK_PRESIZE_CAPTURE_COUNT x" "x \<le> RK_PRESIZE_CAPTURE_COUNT x"
    and "unat (RK_PRESIZE_CAPTURE_COUNT x) = 256 + unat x + unat x div 2"
    and "unat (RK_MINIMUM_CAPTURE_COUNT x) = unat x + (unat x div 3 + (3 - unat x mod 3) mod 3)"
proof -
  have half: "unat (drop_bit (Suc 0) x) = unat x div 2"
    by (simp add: unat_div drop_bit_eq_div)
  show pre: "unat (RK_PRESIZE_CAPTURE_COUNT x) = 256 + unat x + unat x div 2"
    using assms by (simp add: RK_PRESIZE_CAPTURE_COUNT_def unat_word_ariths half)
  have m: "unat (3 - x mod 3) = 3 - unat x mod 3"
    by (subst unat_sub) (auto simp: word_le_nat_alt unat_mod order_less_imp_le)
  show mn: "unat (RK_MINIMUM_CAPTURE_COUNT x) = unat x + (unat x div 3 + (3 - unat x mod 3) mod 3)"
    using assms by (simp add: RK_MINIMUM_CAPTURE_COUNT_def unat_word_ariths m unat_div unat_mod)
  show "RK_MINIMUM_CAPTURE_COUNT x \<le> RK_PRESIZE_CAPTURE_COUNT x" "x \<le> RK_PRESIZE_CAPTURE_COUNT x"
    using pre mn by (simp_all add: word_le_nat_alt) linarith+
qed

text \<open>
  The size the callers allocate always passes the method's own check and has room for every
  capture. But the size is handed to \<open>pcre_exec\<close> as a number of \<open>int\<close>s, of which it uses a third for
  pairs: there is a pair for each capture only up to 170 captures.
\<close>

lemma presize_bounds:
  assumes "unat x \<le> 2 ^ 62"
  shows "RK_MINIMUM_CAPTURE_COUNT x \<le> RK_PRESIZE_CAPTURE_COUNT x \<and> x \<le> RK_PRESIZE_CAPTURE_COUNT x \<and>
    (unat x \<le> unat (RK_PRESIZE_CAPTURE_COUNT x) div 3 \<longleftrightarrow> unat x \<le> 170)"
  using presize_ge_minimum [OF assms] by auto

text \<open>The memory after the library call: the words it wrote, then what was there.\<close>

lemma nth_written: "i < length written \<Longrightarrow> (written @ drop (length written) mem) ! i = written ! i"
  by (simp add: nth_append)

lemma getRanges_count_match:
  assumes contract: "pcre_exec_contract exec"
    and size: "length mem = 4 * unat rangeCount" "unat rangeCount < 2 ^ 31"
    and cc: "captureCount regex \<le> rangeCount"
    and fits: "range_end r \<le> unat len" "unat len \<le> 2147483647"
    and call: "exec (compiledPCRE regex) chars (ucast len) (ucast (range_location r)) options (ucast rangeCount)
      = (rc, written)" "0 < rc"
  defines "vectors \<equiv> written @ drop (length written) mem"
  shows "\<not> (scast (vectors ! 1) :: u64) > NSMaxRange r \<Longrightarrow>
      \<exists>mem'. convert_vectors vectors (nat rc) (unat (captureCount regex)) = Ok mem' \<and>
        (\<forall>x < unat (captureCount regex). valid_capture len (get_range mem' x)) \<and>
        NSMaxRange (get_range mem' 0) \<le> NSMaxRange r \<and> get_range mem' 0 \<noteq> range_not_found"
    and "vectors ! 1 \<noteq> - 1"
proof -
  have usize: "unat (ucast rangeCount :: u32) = unat rangeCount"
    using size(2) by (simp add: unsigned_ucast_eq take_bit_nat_eq_self)
  have w: "length written \<le> unat rangeCount" "3 * nat rc \<le> unat rangeCount" "2 * nat rc \<le> length written"
      "written ! 0 \<noteq> - 1" "\<And>i. i < nat rc \<Longrightarrow> pair_ok (ucast len) (written ! (2 * i)) (written ! (2 * i + 1))"
    using contract call unfolding pcre_exec_contract_def usize [symmetric] by blast+
  have at: "vectors ! i = written ! i" if "i < length written" for i
    using that by (simp add: vectors_def nth_append)
  have len: "length vectors = 4 * unat rangeCount"
    using w(1) size(1) by (simp add: vectors_def)
  have pair: "pair_ok (ucast len) (vectors ! (2 * i)) (vectors ! (2 * i + 1))" if "i < nat rc" for i
    using w(3,5) that at by simp
  have "0 < length written" using w(3) call(2) by linarith
  then have v0: "vectors ! 0 \<noteq> - 1" using w(4) at [of 0] by simp
  have p0: "pair_ok (ucast len) (vectors ! 0) (vectors ! 1)" using pair [of 0] call(2) by simp
  have l: "unat (ucast len :: u32) = unat len"
    using fits(2) by (simp add: unsigned_ucast_eq take_bit_nat_eq_self)
  have "unat (vectors ! 1) \<le> 2147483647" using p0 v0 l fits(2) by (auto simp: pair_ok_def)
  then show "vectors ! 1 \<noteq> - 1" using unat_minus_one_32 by auto
  assume max: "\<not> (scast (vectors ! 1) :: u64) > NSMaxRange r"
  have cc': "4 * unat (captureCount regex) \<le> length vectors" using cc len by (simp add: word_le_nat_alt)
  obtain mem' where m: "convert_vectors vectors (nat rc) (unat (captureCount regex)) = Ok mem'"
      "\<And>x. x < max (nat rc) (unat (captureCount regex)) \<Longrightarrow> get_range mem' x = expected_range vectors (nat rc) x"
    using convert_vectors_ok [of "nat rc" vectors "unat (captureCount regex)"] w(2) call(2) len cc' by auto
  have "valid_capture len (get_range mem' x)" if "x < unat (captureCount regex)" for x
    using m(2) [of x] that range_of_vectors_valid(1) [OF pair [of x] refl fits(2)]
    by (auto simp: expected_range_def valid_capture_def range_not_found_def)
  moreover have g0: "get_range mem' 0 = range_of_vectors (vectors ! 0) (vectors ! 1)"
    using m(2) [of 0] call(2) by (simp add: expected_range_def)
  moreover have "NSMaxRange (get_range mem' 0) \<le> NSMaxRange r"
    using g0 range_of_vectors_valid(2) [OF p0 refl fits(2) v0] max by simp
  moreover have "get_range mem' 0 \<noteq> range_not_found"
  proof -
    have "unat (vectors ! 0) \<le> 2147483647" using p0 v0 l fits(2) by (auto simp: pair_ok_def)
    then have "unat (range_location (get_range mem' 0)) \<le> 2147483647"
      using v0 by (simp add: g0 range_of_vectors_def unat_scast_small)
    then show ?thesis by (auto simp: range_not_found_def unat_NSNotFound)
  qed
  ultimately show "\<exists>mem'. convert_vectors vectors (nat rc) (unat (captureCount regex)) = Ok mem' \<and>
        (\<forall>x < unat (captureCount regex). valid_capture len (get_range mem' x)) \<and>
        NSMaxRange (get_range mem' 0) \<le> NSMaxRange r \<and> get_range mem' 0 \<noteq> range_not_found"
    using m(1) by blast
qed

lemma captures_valid:
  assumes "pcre_exec_contract exec"
    and "length mem = 4 * unat rangeCount" "unat rangeCount < 2 ^ 31" "captureCount regex \<le> rangeCount"
  shows "case getRanges_count exec regex (Some mem) rangeCount (Some chars) len r options of
      Ok (rc, mem', err) \<Rightarrow>
        rc \<le> 0 \<or> list_all (valid_capture len) (map (get_range mem') [0..<unat (captureCount regex)]) \<and>
          NSMaxRange (get_range mem' 0) \<le> NSMaxRange r
    | Raise e \<Rightarrow> True
    | Undefined \<Rightarrow> False"
proof (cases "RK_MINIMUM_CAPTURE_COUNT (captureCount regex) \<le> rangeCount \<and> range_end r \<le> unat len \<and> unat len \<le> 2147483647")
  case False
  then show ?thesis
    using guards_iff [of len r] unfolding getRanges_count_def by auto
next
  case True
  obtain rc written where call: "exec (compiledPCRE regex) chars (ucast len) (ucast (range_location r)) options
      (ucast rangeCount) = (rc, written)" by force
  note match = getRanges_count_match [OF assms _ _ call]
  have ok: "\<not> len < range_location r" "\<not> len < range_location r + range_length r"
    "\<not> range_location r > INT_MAX_U" "\<not> range_length r > INT_MAX_U" "\<not> len > INT_MAX_U"
    using True guards_iff [of len r] by auto
  show ?thesis
  proof (cases "0 < rc \<and> \<not> (scast ((written @ drop (length written) mem) ! 1) :: u64) > NSMaxRange r")
    case T: True
    then obtain mem' where
      "convert_vectors (written @ drop (length written) mem) (nat rc) (unat (captureCount regex)) = Ok mem'"
      "\<forall>x < unat (captureCount regex). valid_capture len (get_range mem' x)"
      "NSMaxRange (get_range mem' 0) \<le> NSMaxRange r"
      using match True by blast
    then show ?thesis
      using T True ok call by (simp add: getRanges_count_def list_all_length)
  next
    case F: False
    show ?thesis
    proof (cases "0 < rc")
      case rc: True
      then have "(written @ drop (length written) mem) ! 1 \<noteq> - 1" using match(2) True by blast
      then show ?thesis
        using F rc True ok call by (simp add: getRanges_count_def RKMatchErrorNoMatch_def)
    qed (use True ok call in \<open>simp add: getRanges_count_def\<close>)
  qed
qed

text \<open>
  C1. Every capture that the private method reports is either \<open>{NSNotFound, 0}\<close> or inside the subject,
  for all \<open>captureCount\<close> captures, and the whole match ends inside the search range: the method never
  touches memory outside the array and never hands out a range the caller cannot use.
\<close>

theorem getRanges_count_captures_valid:
  assumes "pcre_exec_contract exec"
    and "length mem = 4 * unat rangeCount" "unat rangeCount < 2 ^ 31" "captureCount regex \<le> rangeCount"
  shows "case getRanges_count exec regex (Some mem) rangeCount (Some chars) len r options of
      Ok (rc, mem', err) \<Rightarrow>
        rc \<le> 0 \<or> list_all (valid_capture len) (map (get_range mem') [0..<unat (captureCount regex)]) \<and>
          NSMaxRange (get_range mem' 0) \<le> NSMaxRange r
    | Raise e \<Rightarrow> True
    | Undefined \<Rightarrow> False"
  using assms by (rule captures_valid)

text \<open>
  \<open>rangeForCharacters:\<close> on top of it: what it answers is \<open>{NSNotFound, 0}\<close> or a capture inside the
  subject of a match inside the search range.
\<close>

lemma rangeForCharacters_error_valid:
  assumes "pcre_exec_contract exec" "unat (captureCount regex) \<le> 2 ^ 30"
    and "rangeForCharacters_error exec junk regex (Some chars) len r captureIndex options = Ok (rng, err)"
  shows "valid_capture len rng"
proof -
  have x: "unat (captureCount regex) \<le> 2 ^ 62" using assms(2) by simp
  define count where "count = RK_PRESIZE_CAPTURE_COUNT (captureCount regex)"
  have c: "unat count < 2 ^ 31" "captureCount regex \<le> count"
    using presize_ge_minimum [OF x] assms(2) by (simp_all add: count_def)
  have "length (stack_ranges junk count) = 4 * unat count" by (simp add: stack_ranges_def)
  note v = captures_valid [OF assms(1) this c, where chars = chars and len = len and r = r and options = options]
  show ?thesis
    using assms(3) v unfolding rangeForCharacters_error_def Let_def count_def [symmetric]
    by (auto simp: run_simps valid_capture_def range_not_found_def list_all_length word_less_nat_alt
        word_le_nat_alt not_le split: if_splits prod.splits)
qed

section \<open>Witnesses\<close>

text \<open>A library that matches the first two bytes of the subject and captures the second.\<close>

definition sample_exec :: pcre_exec where
  "sample_exec h chars len start opts ovecsize =
     (if 2 \<le> unat len \<and> 6 \<le> unat ovecsize then (2, [0, 2, 1, 2]) else (-1, []))"

lemma sample_exec_contract: "pcre_exec_contract sample_exec"
proof -
  have pair: "pair_ok len ([0, 2, 1, 2] ! (2 * i)) ([0, 2, 1, 2] ! (2 * i + 1))"
    if i2: "2 \<le> unat len" "i < 2" for len i
  proof -
    consider "i = 0" | "i = 1" using less_2_cases [OF i2(2)] by auto
    then show ?thesis using i2(1) by cases (simp_all add: pair_ok_def)
  qed
  show ?thesis
    unfolding pcre_exec_contract_def sample_exec_def
    using pair by (auto split: if_splits)
qed

definition sample_regex :: RKRegex where
  "sample_regex = \<lparr>compiledPCRE = 1, regex_jchanged = Some 0, compiledRegexString = ''.(.)'', compileOption = 0,
     captureCount = 2, captureNameTable = [], captureNameTableLength = 0, captureNameLength = 0,
     captureNameArray = None, regex_hash = 5\<rparr>"

theorem convert_vectors_correct_witness:
  "run_map (\<lambda>mem'. map (get_range mem') [0..<3])
     (convert_vectors [0, 5, 2, 4, 9, 9, 9, 9, 9, 9, 9, 9] 2 3) =
   Ok [NSMakeRange 0 5, NSMakeRange 2 2, NSMakeRange NSNotFound 0]"
  using convert_vectors_correct [of 2 "[0, 5, 2, 4, 9, 9, 9, 9, 9, 9, 9, 9]" 3]
  by (simp add: expected_range_def range_of_vectors_def upt_conv_Cons)

lemma getRanges_count_range_exception_witness:
  "getRanges_count sample_exec sample_regex (Some (replicate 20 0)) 5 (Some [65, 66, 67]) 3 (NSMakeRange 2 (- 1)) 0
     = Raise NSRangeException"
proof -
  have "RK_MINIMUM_CAPTURE_COUNT (captureCount sample_regex) \<le> 5"
    by (simp add: sample_regex_def RK_MINIMUM_CAPTURE_COUNT_def)
  then show ?thesis
    using getRanges_count_range_exception [of sample_regex 5 sample_exec "replicate 20 0" "[65, 66, 67]" 3
        "NSMakeRange 2 (- 1)" 0]
    by (simp add: range_end_def unat_minus_one_64)
qed

lemma presize_bounds_witness:
  "RK_MINIMUM_CAPTURE_COUNT 171 \<le> RK_PRESIZE_CAPTURE_COUNT 171 \<and>
   \<not> unat (171 :: u64) \<le> unat (RK_PRESIZE_CAPTURE_COUNT 171) div 3"
  using presize_bounds [of 171] by simp

theorem getRanges_count_captures_valid_witness:
  "case getRanges_count sample_exec sample_regex (Some (replicate 24 0)) 6 (Some [65, 66, 67]) 3
      (NSMakeRange 0 3) 0 of
      Ok (rc, mem', err) \<Rightarrow>
        rc \<le> 0 \<or> list_all (valid_capture 3) (map (get_range mem') [0..<unat (captureCount sample_regex)]) \<and>
          NSMaxRange (get_range mem' 0) \<le> NSMaxRange (NSMakeRange 0 3)
    | Raise e \<Rightarrow> True
    | Undefined \<Rightarrow> False"
  by (rule getRanges_count_captures_valid [OF sample_exec_contract])
    (simp_all add: sample_regex_def)

end
