(* ===== verification/RK_CaptureNames.thy ===== *)
theory RK_CaptureNames
  imports RK_Vectors "HOL-Library.Sublist"
begin

text \<open>
  Looking up a capture name in PCRE's name table (\<open>RKRegex.m\<close>,
  \<open>RKCaptureIndexForCaptureNameCharactersWithError\<close> and the methods over it): a binary search over
  fixed size entries of two index bytes and a NUL terminated name, and, where names may be duplicated,
  the choice among the neighbours of the entry found. The lemmas relate the search over raw bytes to a
  lookup in the list of names the table encodes.
\<close>

section \<open>Reading the table\<close>

text \<open>
  C's \<open>strncmp\<close> over memory; the lists are what lies between the pointer and the end of its object.
\<close>

fun strncmp :: "byte list \<Rightarrow> byte list \<Rightarrow> nat \<Rightarrow> int run" where
  "strncmp as bs 0 = Ok 0"
| "strncmp (a # as) (b # bs) (Suc n) =
     (if a \<noteq> b then Ok (int (unat a) - int (unat b)) else if a = 0 then Ok 0 else strncmp as bs n)"
| "strncmp as bs (Suc n) = Undefined"

text \<open>
  \<open>(at[0] << 8) + at[1]\<close>: both bytes are plain \<open>char\<close>, signed on this platform, and the \<open>int\<close> sum is
  converted to \<open>RKUInteger\<close>.
\<close>

definition table_index :: "byte \<Rightarrow> byte \<Rightarrow> u64" where
  "table_index b0 b1 = scast (push_bit 8 (scast b0) + scast b1 :: u32)"

definition name_entry :: "RKRegex \<Rightarrow> nat \<Rightarrow> byte list" where
  "name_entry regex k = drop (captureNameLength regex * k) (captureNameTable regex)"

definition entry_index :: "byte list \<Rightarrow> u64 run" where
  "entry_index entry = (case entry of b0 # b1 # _ \<Rightarrow> Ok (table_index b0 b1) | _ \<Rightarrow> Undefined)"

definition entry_byte :: "byte list \<Rightarrow> nat \<Rightarrow> byte run" where
  "entry_byte entry i = (if i < length entry then Ok (entry ! i) else Undefined)"

definition compare_entry :: "byte list \<Rightarrow> nat \<Rightarrow> byte list \<Rightarrow> int run" where
  "compare_entry name len entry = strncmp name (drop 2 entry) len"

section \<open>The search\<close>

text \<open>The \<open>while\<close> loop. It answers the entry found and the index read from it.\<close>

function name_search :: "RKRegex \<Rightarrow> byte list \<Rightarrow> nat \<Rightarrow> nat \<Rightarrow> nat \<Rightarrow> (nat \<times> u64) option run" where
  "name_search regex name len searchBottom searchTop =
     (if searchTop > searchBottom then
        let searchMiddle = (searchTop + searchBottom) div 2;
            entry = name_entry regex searchMiddle
        in run_bind (compare_entry name len entry) (\<lambda>compareResult.
             if compareResult = 0 then
               run_bind (entry_byte entry (len + 2)) (\<lambda>terminator.
                 if terminator \<noteq> 0 then name_search regex name len searchBottom searchMiddle
                 else run_map (\<lambda>i. Some (searchMiddle, i)) (entry_index entry))
             else if compareResult > 0 then name_search regex name len (searchMiddle + 1) searchTop
             else name_search regex name len searchBottom searchMiddle)
      else Ok None)"
  by pat_completeness auto
termination by (relation "measure (\<lambda>(r, n, l, b, t). t - b)") auto

declare name_search.simps [simp del]

text \<open>Without matched ranges but with duplicate names: back to the first entry that does not compare.\<close>

fun first_duplicate :: "RKRegex \<Rightarrow> byte list \<Rightarrow> nat \<Rightarrow> nat \<Rightarrow> u64 \<Rightarrow> u64 run" where
  "first_duplicate regex name len 0 captureIndex = Ok captureIndex"
| "first_duplicate regex name len (Suc k) captureIndex =
     run_bind (compare_entry name len (name_entry regex k)) (\<lambda>r.
       if r \<noteq> 0 then entry_index (name_entry regex (k + 1))
       else first_duplicate regex name len k captureIndex)"

text \<open>\<open>matchedRanges[captureIndex].location != NSNotFound\<close>.\<close>

definition participates :: "ns_range list \<Rightarrow> u64 \<Rightarrow> bool run" where
  "participates matchedRanges captureIndex =
     (if unat captureIndex < length matchedRanges
      then Ok (range_location (matchedRanges ! unat captureIndex) \<noteq> NSNotFound) else Undefined)"

text \<open>An entry that compares equal and whose name is not longer.\<close>

definition same_name :: "byte list \<Rightarrow> nat \<Rightarrow> byte list \<Rightarrow> bool run" where
  "same_name name len entry =
     run_bind (compare_entry name len entry) (\<lambda>r.
       if r \<noteq> 0 then Ok False else run_map (\<lambda>c. c = 0) (entry_byte entry (len + 2)))"

fun search_back :: "RKRegex \<Rightarrow> byte list \<Rightarrow> nat \<Rightarrow> ns_range list \<Rightarrow> nat \<Rightarrow> u64 \<Rightarrow> u64 run" where
  "search_back regex name len ranges 0 lowest = Ok lowest"
| "search_back regex name len ranges (Suc k) lowest =
     run_bind (same_name name len (name_entry regex k)) (\<lambda>same.
       if \<not> same then Ok lowest
       else run_bind (entry_index (name_entry regex k)) (\<lambda>i.
              run_bind (participates ranges i) (\<lambda>p.
                search_back regex name len ranges k (if p then i else lowest))))"

text \<open>\<open>n\<close> entries remain above entry \<open>k\<close>.\<close>

fun search_forward :: "RKRegex \<Rightarrow> byte list \<Rightarrow> nat \<Rightarrow> ns_range list \<Rightarrow> nat \<Rightarrow> nat \<Rightarrow> u64 run" where
  "search_forward regex name len ranges k 0 = Ok NSNotFound"
| "search_forward regex name len ranges k (Suc n) =
     run_bind (same_name name len (name_entry regex (k + 1))) (\<lambda>same.
       if \<not> same then Ok NSNotFound
       else run_bind (entry_index (name_entry regex (k + 1))) (\<lambda>i.
              run_bind (participates ranges i) (\<lambda>p.
                if p then Ok i else search_forward regex name len ranges (k + 1) n)))"

definition RKCaptureIndexForCaptureNameCharactersWithError ::
  "RKRegex option \<Rightarrow> byte list \<Rightarrow> nat \<Rightarrow> ns_range list option \<Rightarrow> (u64 \<times> ns_error option) run" where
  "RKCaptureIndexForCaptureNameCharactersWithError aRegex name len matchedRanges =
     (case aRegex of None \<Rightarrow> Raise NSInternalInconsistencyException
      | Some self \<Rightarrow>
        let noName = Ok (NSNotFound, Some (rkErrorWithCode 0))
        in if captureNameTableLength self = 0 then noName
           else if len > captureNameLength self then noName
           else run_bind (name_search self name len 0 (captureNameTableLength self)) (\<lambda>found.
             case found of None \<Rightarrow> noName
             | Some (k, captureIndex) \<Rightarrow>
               (case regex_jchanged self of None \<Rightarrow> Raise NSInternalInconsistencyException
                | Some optionJChanged \<Rightarrow>
                  let unique = optionJChanged = 0 \<and> compileOption self AND RKCompileDupNames = 0
                  in run_map (\<lambda>i. (i, None))
                    (case matchedRanges of
                       None \<Rightarrow> if unique then Ok captureIndex else first_duplicate self name len k captureIndex
                     | Some ranges \<Rightarrow>
                       run_bind (participates ranges captureIndex) (\<lambda>p.
                         if unique then Ok (if p then captureIndex else NSNotFound)
                         else run_bind (search_back self name len ranges k (if p then captureIndex else NSNotFound))
                           (\<lambda>lowest. if lowest \<noteq> NSNotFound then Ok lowest
                              else search_forward self name len ranges k (captureNameTableLength self - 1 - k)))))))"

definition RKCaptureIndexForCaptureNameCharacters ::
  "RKRegex option \<Rightarrow> byte list \<Rightarrow> nat \<Rightarrow> ns_range list option \<Rightarrow> bool \<Rightarrow> u64 run" where
  "RKCaptureIndexForCaptureNameCharacters aRegex name len matchedRanges raiseExceptionOnDoesNotExist =
     run_bind (RKCaptureIndexForCaptureNameCharactersWithError aRegex name len matchedRanges)
       (\<lambda>(captureIndex, err).
          if err \<noteq> None \<and> raiseExceptionOnDoesNotExist then Raise RKRegexCaptureReferenceException
          else Ok captureIndex)"

section \<open>The public methods\<close>

text \<open>A name argument: \<open>None\<close> for \<open>NULL\<close>, else the string buffer of the string.\<close>

definition captureIndexForCaptureName :: "RKRegex \<Rightarrow> RKStringBuffer option \<Rightarrow> u64 run" where
  "captureIndexForCaptureName self captureName =
     (case captureName of None \<Rightarrow> Raise NSInvalidArgumentException
      | Some b \<Rightarrow> RKCaptureIndexForCaptureNameCharacters (Some self) (buffer_characters b @ [0])
                  (unat (buffer_length b)) None True)"

definition captureIndexForCaptureName_error ::
  "RKRegex \<Rightarrow> RKStringBuffer option \<Rightarrow> (u64 \<times> ns_error option) run" where
  "captureIndexForCaptureName_error self captureName =
     (case captureName of None \<Rightarrow> Raise NSInvalidArgumentException
      | Some b \<Rightarrow> RKCaptureIndexForCaptureNameCharactersWithError (Some self) (buffer_characters b @ [0])
                  (unat (buffer_length b)) None)"

definition captureIndexForCaptureName_inMatchedRanges ::
  "RKRegex \<Rightarrow> RKStringBuffer option \<Rightarrow> ns_range list option \<Rightarrow> u64 run" where
  "captureIndexForCaptureName_inMatchedRanges self captureName matchedRanges =
     (case captureName of None \<Rightarrow> Raise NSInvalidArgumentException
      | Some b \<Rightarrow>
        (case matchedRanges of None \<Rightarrow> Raise NSInvalidArgumentException
         | Some ranges \<Rightarrow>
           RKCaptureIndexForCaptureNameCharacters (Some self) (buffer_characters b @ [0])
             (unat (buffer_length b)) (Some ranges) True))"

definition captureIndexForCaptureName_inMatchedRanges_error ::
  "RKRegex \<Rightarrow> RKStringBuffer option \<Rightarrow> ns_range list option \<Rightarrow> (u64 \<times> ns_error option) run" where
  "captureIndexForCaptureName_inMatchedRanges_error self captureName matchedRanges =
     (case captureName of None \<Rightarrow> Raise NSInvalidArgumentException
      | Some b \<Rightarrow>
        (case matchedRanges of None \<Rightarrow> Raise NSInvalidArgumentException
         | Some ranges \<Rightarrow>
           RKCaptureIndexForCaptureNameCharactersWithError (Some self) (buffer_characters b @ [0])
             (unat (buffer_length b)) (Some ranges)))"

definition isValidCaptureName :: "RKRegex \<Rightarrow> RKStringBuffer option \<Rightarrow> bool run" where
  "isValidCaptureName self captureName =
     (case captureName of None \<Rightarrow> Raise NSInvalidArgumentException
      | Some b \<Rightarrow> run_map (\<lambda>i. i \<noteq> NSNotFound)
          (RKCaptureIndexForCaptureNameCharacters (Some self) (buffer_characters b @ [0])
             (unat (buffer_length b)) None False))"

definition isValidCaptureName_error :: "RKRegex \<Rightarrow> RKStringBuffer option \<Rightarrow> (bool \<times> ns_error option) run" where
  "isValidCaptureName_error self captureName =
     (case captureName of None \<Rightarrow> Raise NSInvalidArgumentException
      | Some b \<Rightarrow> run_map (\<lambda>(i, err). (i \<noteq> NSNotFound, err))
          (RKCaptureIndexForCaptureNameCharactersWithError (Some self) (buffer_characters b @ [0])
             (unat (buffer_length b)) None))"

text \<open>The other direction, through the array built by the initialiser.\<close>

definition captureNameForCaptureIndex :: "RKRegex \<Rightarrow> u64 \<Rightarrow> string option run" where
  "captureNameForCaptureIndex self captureIndex =
     (if captureIndex \<ge> captureCount self then Raise NSInvalidArgumentException
      else case captureNameArray self of None \<Rightarrow> Ok None
      | Some names \<Rightarrow>
          if unat captureIndex < length names then Ok (names ! unat captureIndex)
          else Raise NSInternalInconsistencyException)"

definition captureNameForCaptureIndex_error :: "RKRegex \<Rightarrow> u64 \<Rightarrow> (string option \<times> ns_error option) run" where
  "captureNameForCaptureIndex_error self captureIndex =
     (if captureIndex \<ge> captureCount self then Ok (None, Some (rkErrorWithCode 0))
      else case captureNameArray self of None \<Rightarrow> Ok (None, Some (rkErrorWithCode 0))
      | Some names \<Rightarrow>
          if unat captureIndex < length names then Ok (names ! unat captureIndex, None)
          else Raise NSInternalInconsistencyException)"

section \<open>The table as a list of names\<close>

text \<open>
  What PCRE documents of its table: fixed size entries, each the big endian index and the NUL
  terminated name, in alphabetical order of the names.
\<close>

fun name_le :: "byte list \<Rightarrow> byte list \<Rightarrow> bool" where
  "name_le [] bs = True"
| "name_le (a # as) [] = False"
| "name_le (a # as) (b # bs) = (a < b \<or> a = b \<and> name_le as bs)"

definition encode_entry :: "nat \<Rightarrow> nat \<times> byte list \<Rightarrow> byte list" where
  "encode_entry entrySize e =
     [of_nat (fst e div 256), of_nat (fst e mod 256)] @ snd e @ replicate (entrySize - 2 - length (snd e)) 0"

definition good_name :: "nat \<Rightarrow> byte list \<Rightarrow> bool" where
  "good_name entrySize nm \<longleftrightarrow> nm \<noteq> [] \<and> 0 \<notin> set nm \<and> length nm + 3 \<le> entrySize"

definition names_table :: "RKRegex \<Rightarrow> (nat \<times> byte list) list \<Rightarrow> bool" where
  "names_table regex entries \<longleftrightarrow>
     captureNameTable regex = concat (map (encode_entry (captureNameLength regex)) entries) \<and>
     captureNameTableLength regex = length entries \<and>
     list_all (\<lambda>(i, nm). i < 65536 \<and> good_name (captureNameLength regex) nm) entries \<and>
     sorted_wrt (\<lambda>a b. name_le (snd a) (snd b)) entries"

lemma name_le_refl [simp]: "name_le a a"
  by (induction a) auto

lemma name_le_trans: "name_le a b \<Longrightarrow> name_le b c \<Longrightarrow> name_le a c"
proof (induction a b arbitrary: c rule: name_le.induct)
  case (3 x as y bs)
  then show ?case by (cases c) auto
qed auto

lemma name_le_antisym: "name_le a b \<Longrightarrow> name_le b a \<Longrightarrow> a = b"
  by (induction a b rule: name_le.induct) (auto elim: name_le.elims)

text \<open>\<open>strncmp\<close> of the \<open>length q\<close> first bytes against a terminated name.\<close>

lemma strncmp_name:
  assumes "0 \<notin> set q" "0 \<notin> set e"
  shows "\<exists>r. strncmp (q @ rest) (e @ 0 # tail) (length q) = Ok r \<and>
    (r = 0 \<longleftrightarrow> prefix q e) \<and> (0 < r \<longrightarrow> \<not> name_le q e) \<and> (r < 0 \<longrightarrow> name_le q e \<and> q \<noteq> e)"
  using assms
proof (induction q arbitrary: e)
  case (Cons a q)
  show ?case
  proof (cases e)
    case Nil
    then show ?thesis using Cons.prems by (auto simp: unsigned_eq_0_iff order.strict_iff_order)
  next
    case (Cons b e')
    show ?thesis
    proof (cases "a = b")
      case True
      then show ?thesis using Cons Cons.IH [of e'] Cons.prems by auto
    next
      case False
      then show ?thesis using Cons by (auto simp: word_less_def word_uint_eq_iff)
    qed
  qed
qed simp

lemma length_encode_entry:
  "good_name n (snd e) \<Longrightarrow> length (encode_entry n e) = n"
  by (auto simp: encode_entry_def good_name_def)

lemma drop_concat_entries:
  "list_all (\<lambda>e. length (f e) = n) es \<Longrightarrow> drop (n * k) (concat (map f es)) = concat (map f (drop k es))"
proof (induction es arbitrary: k)
  case (Cons e es)
  then show ?case by (cases k) auto
qed simp

lemma name_entry_eq:
  assumes "names_table regex entries" "k < length entries"
  shows "\<exists>tail. name_entry regex k =
    [of_nat (fst (entries ! k) div 256), of_nat (fst (entries ! k) mod 256)] @ snd (entries ! k) @ 0 # tail"
    and "good_name (captureNameLength regex) (snd (entries ! k))"
proof -
  let ?n = "captureNameLength regex"
  have all: "list_all (\<lambda>e. good_name ?n (snd e)) entries"
    using assms(1) by (auto simp: names_table_def list_all_iff)
  then show good: "good_name ?n (snd (entries ! k))" using assms(2) by (simp add: list_all_length)
  have "name_entry regex k = concat (map (encode_entry ?n) (drop k entries))"
    unfolding name_entry_def using assms(1) all
    by (subst drop_concat_entries [symmetric])
      (auto simp: names_table_def list_all_iff length_encode_entry)
  also have "\<dots> = encode_entry ?n (entries ! k) @ concat (map (encode_entry ?n) (drop (Suc k) entries))"
    using assms(2) by (simp flip: Cons_nth_drop_Suc)
  finally have e: "name_entry regex k = \<dots>" .
  obtain m where "?n - 2 - length (snd (entries ! k)) = Suc m"
    using good by (cases "?n - 2 - length (snd (entries ! k))") (auto simp: good_name_def)
  then show "\<exists>tail. name_entry regex k =
    [of_nat (fst (entries ! k) div 256), of_nat (fst (entries ! k) mod 256)] @ snd (entries ! k) @ 0 # tail"
    unfolding e encode_entry_def by auto
qed

text \<open>
  The number that the lookup answers for an entry of index \<open>i\<close>, in terms of the two decimal numbers that
  its bytes stand for: \<open>i\<close> itself as long as both bytes are below 128, else \<open>i\<close> less what a signed
  character loses, 256 for the low byte and 65536 for the high byte, as a 64 bit number.
\<close>

definition reported_index :: "nat \<Rightarrow> u64" where
  "reported_index i =
     of_nat i - (if i mod 256 < 128 then 0 else 256) - (if i div 256 < 128 then 0 else 65536)"

lemma signed_char:
  assumes "b < 256"
  shows "sint (of_nat b :: byte) = int b - (if b < 128 then 0 else 256)"
proof -
  have "\<forall>k < 256. sint (of_nat k :: byte) = int k - (if k < 128 then 0 else 256)"
    unfolding all_less_upt by code_simp
  then show ?thesis using assms by blast
qed

lemma table_index_bytes:
  assumes "d < 256" "m < 256"
  shows "table_index (of_nat d) (of_nat m) =
    of_nat (256 * d + m) - (if m < 128 then 0 else 256) - (if d < 128 then 0 else 65536)"
proof -
  define h l where "h = sint (of_nat d :: byte)" and "l = sint (of_nat m :: byte)"
  have h: "h = int d - (if d < 128 then 0 else 256)" and l: "l = int m - (if m < 128 then 0 else 256)"
    using assms by (simp_all add: h_def l_def signed_char)
  have small: "- 2147483648 \<le> 256 * h + l" "256 * h + l < 2147483648"
    using assms unfolding h l by (cases "d < 128"; cases "m < 128"; simp)+
  have sum: "256 * h + l = int (256 * d + m) - (if m < 128 then 0 else 256) - (if d < 128 then 0 else 65536)"
    by (simp add: h l)
  have "push_bit 8 (scast (of_nat d :: byte)) + scast (of_nat m :: byte) = (word_of_int (256 * h + l) :: u32)"
    unfolding push_bit_eq_mult scast_eq h_def [symmetric] l_def [symmetric] by (simp only: of_int_add of_int_mult) simp
  then have "table_index (of_nat d) (of_nat m) = word_of_int (sint (word_of_int (256 * h + l) :: u32))"
    by (simp only: table_index_def scast_eq)
  also have "sint (word_of_int (256 * h + l) :: u32) = 256 * h + l"
    using small signed_take_bit_int_eq_self [of 31 "256 * h + l"] by (simp add: signed_of_int del: of_int_add of_int_mult)
  also note sum
  finally show ?thesis by (cases "d < 128"; cases "m < 128") simp_all
qed

lemma table_index_reported:
  assumes "i < 65536"
  shows "table_index (of_nat (i div 256)) (of_nat (i mod 256)) = reported_index i"
  unfolding reported_index_def
  using table_index_bytes [of "i div 256" "i mod 256"] assms by (simp only: mult_div_mod_eq)

lemma reported_index_small: "i < 128 \<Longrightarrow> reported_index i = of_nat i"
  by (simp add: reported_index_def)

text \<open>The steps of the search on an entry of the table.\<close>

lemma compare_table:
  assumes "names_table regex entries" "k < length entries" "0 \<notin> set q"
  shows "\<exists>r. compare_entry (q @ rest) (length q) (name_entry regex k) = Ok r \<and>
      (r = 0 \<longleftrightarrow> prefix q (snd (entries ! k))) \<and> (0 < r \<longrightarrow> \<not> name_le q (snd (entries ! k))) \<and>
      (r < 0 \<longrightarrow> name_le q (snd (entries ! k)) \<and> q \<noteq> snd (entries ! k))"
    and "entry_index (name_entry regex k) = Ok (reported_index (fst (entries ! k)))"
    and "prefix q (snd (entries ! k)) \<Longrightarrow> \<exists>c. entry_byte (name_entry regex k) (length q + 2) = Ok c \<and>
      (c = 0 \<longleftrightarrow> q = snd (entries ! k))"
proof -
  obtain tail where e: "name_entry regex k =
      [of_nat (fst (entries ! k) div 256), of_nat (fst (entries ! k) mod 256)] @ snd (entries ! k) @ 0 # tail"
    and good: "good_name (captureNameLength regex) (snd (entries ! k))"
    using name_entry_eq [OF assms(1,2)] by blast
  show "\<exists>r. compare_entry (q @ rest) (length q) (name_entry regex k) = Ok r \<and>
      (r = 0 \<longleftrightarrow> prefix q (snd (entries ! k))) \<and> (0 < r \<longrightarrow> \<not> name_le q (snd (entries ! k))) \<and>
      (r < 0 \<longrightarrow> name_le q (snd (entries ! k)) \<and> q \<noteq> snd (entries ! k))"
    using strncmp_name [OF assms(3), of "snd (entries ! k)" rest tail] good
    by (simp add: compare_entry_def e good_name_def)
  have "fst (entries ! k) < 65536"
    using assms(1,2) by (auto simp: names_table_def list_all_length case_prod_beta)
  then show "entry_index (name_entry regex k) = Ok (reported_index (fst (entries ! k)))"
    by (simp add: entry_index_def e table_index_reported)
  assume "prefix q (snd (entries ! k))"
  then obtain zs where zs: "snd (entries ! k) = q @ zs" by (auto simp: prefix_def)
  show "\<exists>c. entry_byte (name_entry regex k) (length q + 2) = Ok c \<and> (c = 0 \<longleftrightarrow> q = snd (entries ! k))"
  proof (cases zs)
    case Nil
    then show ?thesis using zs by (simp add: entry_byte_def e)
  next
    case (Cons z zs')
    then show ?thesis using zs good by (auto simp: entry_byte_def e good_name_def)
  qed
qed

lemma name_le_prefix: "prefix q e \<Longrightarrow> name_le q e"
proof (induction q arbitrary: e)
  case (Cons a q)
  then show ?case by (cases e) auto
qed simp

section \<open>The binary search\<close>

lemma table_sorted:
  "names_table regex entries \<Longrightarrow> j \<le> k \<Longrightarrow> k < length entries \<Longrightarrow> name_le (snd (entries ! j)) (snd (entries ! k))"
  by (cases "j = k") (auto simp: names_table_def sorted_wrt_iff_nth_less)

lemma name_search_correct:
  assumes tab: "names_table regex entries" and q: "0 \<notin> set q"
  shows "hi \<le> length entries \<Longrightarrow> (\<forall>k < lo. \<not> name_le q (snd (entries ! k))) \<Longrightarrow>
    (\<forall>k < length entries. hi \<le> k \<longrightarrow> name_le q (snd (entries ! k)) \<and> q \<noteq> snd (entries ! k)) \<Longrightarrow>
    \<exists>r. name_search regex (q @ rest) (length q) lo hi = Ok r \<and>
      (case r of None \<Rightarrow> q \<notin> snd ` set entries
       | Some (k, i) \<Rightarrow> k < length entries \<and> snd (entries ! k) = q \<and> i = reported_index (fst (entries ! k)))"
proof (induction "hi - lo" arbitrary: lo hi rule: less_induct)
  case less
  show ?case
  proof (cases "lo < hi")
    case False
    have "q \<noteq> snd (entries ! k)" if "k < length entries" for k
      using less.prems(2,3) that False by (cases "k < lo") (auto simp: not_less)
    then show ?thesis
      using False by (subst name_search.simps) (fastforce simp: in_set_conv_nth)
  next
    case True
    define mid where "mid = (hi + lo) div 2"
    have mid: "lo \<le> mid" "mid < hi" "mid < length entries"
      using True less.prems(1) by (auto simp: mid_def)
    let ?e = "snd (entries ! mid)"
    obtain r where r: "compare_entry (q @ rest) (length q) (name_entry regex mid) = Ok r"
      "r = 0 \<longleftrightarrow> prefix q ?e" "0 < r \<longrightarrow> \<not> name_le q ?e" "r < 0 \<longrightarrow> name_le q ?e \<and> q \<noteq> ?e"
      using compare_table(1) [OF tab mid(3) q] by blast
    note unfold = name_search.simps [of regex "q @ rest" "length q" lo hi]
    have lower: "?thesis" if "name_le q ?e" "q \<noteq> ?e"
      "name_search regex (q @ rest) (length q) lo hi = name_search regex (q @ rest) (length q) lo mid"
    proof -
      have "name_le q (snd (entries ! k)) \<and> q \<noteq> snd (entries ! k)" if "mid \<le> k" "k < length entries" for k
        using \<open>name_le q ?e\<close> \<open>q \<noteq> ?e\<close> table_sorted [OF tab that] name_le_trans name_le_antisym by blast
      then show ?thesis
        using less.hyps [of mid lo] less.prems mid that(3) by auto
    qed
    consider "r = 0" "q = ?e" | "r = 0" "q \<noteq> ?e" | "0 < r" | "r < 0" by linarith
    then show ?thesis
    proof cases
      case 1
      then have "name_search regex (q @ rest) (length q) lo hi = Ok (Some (mid, reported_index (fst (entries ! mid))))"
        using True r compare_table(2,3) [OF tab mid(3) q] unfold by (auto simp: mid_def [symmetric])
      then show ?thesis using 1 mid by simp
    next
      case 2
      then have "name_search regex (q @ rest) (length q) lo hi = name_search regex (q @ rest) (length q) lo mid"
        using True r compare_table(3) [OF tab mid(3) q] unfold by (auto simp: mid_def [symmetric])
      with 2 r(2) show ?thesis using lower name_le_prefix by blast
    next
      case 3
      then have step: "name_search regex (q @ rest) (length q) lo hi =
          name_search regex (q @ rest) (length q) (mid + 1) hi"
        using True r unfold by (auto simp: mid_def [symmetric])
      have "\<not> name_le q (snd (entries ! k))" if "k < mid + 1" for k
        using 3 r(3) table_sorted [OF tab, of k mid] that mid(3) name_le_trans by fastforce
      then show ?thesis
        using less.hyps [of hi "mid + 1"] less.prems mid step by auto
    next
      case 4
      then have "name_search regex (q @ rest) (length q) lo hi = name_search regex (q @ rest) (length q) lo mid"
        using True r unfold by (auto simp: mid_def [symmetric])
      with 4 r(4) show ?thesis using lower by blast
    qed
  qed
qed

text \<open>The whole search, from the guards on.\<close>

lemma name_lookup_search:
  assumes tab: "names_table regex entries" and q: "0 \<notin> set q"
  shows "q \<in> snd ` set entries \<Longrightarrow>
      captureNameTableLength regex \<noteq> 0 \<and> \<not> length q > captureNameLength regex \<and>
      (\<exists>k < length entries. snd (entries ! k) = q \<and>
        name_search regex (q @ rest) (length q) 0 (captureNameTableLength regex)
          = Ok (Some (k, reported_index (fst (entries ! k)))))"
    and "q \<notin> snd ` set entries \<Longrightarrow>
      RKCaptureIndexForCaptureNameCharactersWithError (Some regex) (q @ rest) (length q) ranges =
        Ok (NSNotFound, Some (rkErrorWithCode 0))"
proof -
  have n: "captureNameTableLength regex = length entries" using tab by (simp add: names_table_def)
  obtain r where r: "name_search regex (q @ rest) (length q) 0 (captureNameTableLength regex) = Ok r"
    "case r of None \<Rightarrow> q \<notin> snd ` set entries
     | Some (k, i) \<Rightarrow> k < length entries \<and> snd (entries ! k) = q \<and> i = reported_index (fst (entries ! k))"
    using name_search_correct [OF tab q, of "length entries" 0 rest] n by auto
  show "captureNameTableLength regex \<noteq> 0 \<and> \<not> length q > captureNameLength regex \<and>
      (\<exists>k < length entries. snd (entries ! k) = q \<and>
        name_search regex (q @ rest) (length q) 0 (captureNameTableLength regex)
          = Ok (Some (k, reported_index (fst (entries ! k)))))" if present: "q \<in> snd ` set entries"
  proof -
    obtain k i where k: "r = Some (k, i)" "k < length entries" "snd (entries ! k) = q"
        "i = reported_index (fst (entries ! k))"
      using r(2) present by (auto split: option.splits)
    then have "good_name (captureNameLength regex) q" using name_entry_eq(2) [OF tab k(2)] by simp
    then show ?thesis using k r(1) n by (auto simp: good_name_def)
  qed
  show "RKCaptureIndexForCaptureNameCharactersWithError (Some regex) (q @ rest) (length q) ranges =
        Ok (NSNotFound, Some (rkErrorWithCode 0))" if "q \<notin> snd ` set entries"
  proof -
    have "r = None"
      using r(2) that nth_mem [of _ entries] by (auto split: option.splits)
    then show ?thesis
      using r(1) by (simp add: RKCaptureIndexForCaptureNameCharactersWithError_def Let_def)
  qed
qed

section \<open>Properties\<close>

text \<open>Neither the pattern nor an option inside it allows duplicate names.\<close>

definition unique_names :: "RKRegex \<Rightarrow> bool" where
  "unique_names regex \<longleftrightarrow> regex_jchanged regex = Some 0 \<and> compileOption regex AND RKCompileDupNames = 0"

definition duplicate_names :: "RKRegex \<Rightarrow> bool" where
  "duplicate_names regex \<longleftrightarrow>
     (\<exists>j. regex_jchanged regex = Some j \<and> \<not> (j = 0 \<and> compileOption regex AND RKCompileDupNames = 0))"

text \<open>The lookup the binary search implements.\<close>

definition lookup_name :: "(nat \<times> byte list) list \<Rightarrow> byte list \<Rightarrow> nat option" where
  "lookup_name entries q = map_of (map (\<lambda>(i, nm). (nm, i)) entries) q"

lemma lookup_name_distinct:
  assumes "distinct (map snd entries)" "k < length entries"
  shows "lookup_name entries (snd (entries ! k)) = Some (fst (entries ! k))"
proof -
  have "(snd (entries ! k), fst (entries ! k)) \<in> set (map (\<lambda>(i, nm). (nm, i)) entries)"
    using assms(2) nth_mem by (force simp: case_prod_beta)
  moreover have "distinct (map fst (map (\<lambda>(i, nm). (nm, i)) entries))"
    using assms(1) by (simp add: comp_def case_prod_beta)
  ultimately show ?thesis by (simp add: lookup_name_def)
qed

lemma lookup_name_None: "q \<notin> snd ` set entries \<Longrightarrow> lookup_name entries q = None"
  unfolding lookup_name_def map_of_eq_None_iff by force

lemma name_lookup:
  assumes "names_table regex entries" "distinct (map snd entries)" "unique_names regex" "0 \<notin> set q"
  shows "RKCaptureIndexForCaptureNameCharactersWithError (Some regex) (q @ rest) (length q) None =
    Ok (case lookup_name entries q of
          Some i \<Rightarrow> (reported_index i, None)
        | None \<Rightarrow> (NSNotFound, Some (rkErrorWithCode 0)))"
proof (cases "q \<in> snd ` set entries")
  case False
  then show ?thesis using name_lookup_search(2) [OF assms(1,4) False] lookup_name_None by simp
next
  case True
  then obtain k where k: "k < length entries" "snd (entries ! k) = q"
      "captureNameTableLength regex \<noteq> 0" "\<not> length q > captureNameLength regex"
      "name_search regex (q @ rest) (length q) 0 (captureNameTableLength regex)
          = Ok (Some (k, reported_index (fst (entries ! k))))"
    using name_lookup_search(1) [OF assms(1,4) True] by blast
  have "lookup_name entries q = Some (fst (entries ! k))"
    using lookup_name_distinct [OF assms(2) k(1)] k(2) by simp
  then show ?thesis
    using k(3-5) assms(3)
    by (simp add: RKCaptureIndexForCaptureNameCharactersWithError_def Let_def unique_names_def)
qed

text \<open>
  C2. Looking a capture name up by its characters, with duplicates not allowed, is exactly a lookup in
  the names of the table: a name whose capture number has both bytes below 128 yields that number, and
  every string that is not a name (proper prefixes and extensions of names included) yields
  \<open>NSNotFound\<close> and an error; no byte outside the table or past the \<open>length\<close> characters of the argument
  is read. A name of another capture is found too, but the code reads the two index bytes as signed
  characters: its number comes out 256 too small if the low byte is 128 or more, and 65536 too small
  if the high byte is, modulo \<open>2 ^ 64\<close>.
\<close>

theorem capture_name_lookup:
  assumes "names_table regex entries" "distinct (map snd entries)" "unique_names regex" "0 \<notin> set q"
  shows "RKCaptureIndexForCaptureNameCharactersWithError (Some regex) (q @ rest) (length q) None =
    Ok (case lookup_name entries q of
          Some i \<Rightarrow>
            (if i mod 256 < 128 \<and> i div 256 < 128 then of_nat i
             else of_nat i - (if i mod 256 < 128 then 0 else 256) - (if i div 256 < 128 then 0 else 65536), None)
        | None \<Rightarrow> (NSNotFound, Some (rkErrorWithCode 0)))"
  using name_lookup [OF assms] by (simp add: reported_index_def split: option.split)

text \<open>
  The index bytes are read as signed characters: a name of capture 128 up to 255 is found, but
  reported with an index 256 too small, which is a huge unsigned number, whereas the indexes below 128
  are reported as they are.
\<close>

lemma capture_index_sign_extension:
  assumes "names_table regex entries" "distinct (map snd entries)" "unique_names regex"
    and "(i, q) \<in> set entries" "i < 256"
  shows "RKCaptureIndexForCaptureNameCharactersWithError (Some regex) (q @ rest) (length q) None =
    Ok (if i < 128 then of_nat i else of_nat i - 256, None)"
proof -
  obtain k where k: "k < length entries" "entries ! k = (i, q)"
    using assms(4) by (auto simp: in_set_conv_nth)
  have q: "0 \<notin> set q" using name_entry_eq(2) [OF assms(1) k(1)] k(2) by (simp add: good_name_def)
  have "lookup_name entries q = Some i" using lookup_name_distinct [OF assms(2) k(1)] k(2) by simp
  moreover have "reported_index i = (if i < 128 then of_nat i else of_nat i - 256)"
    using assms(5) by (simp add: reported_index_def)
  ultimately show ?thesis
    using name_lookup [OF assms(1-3) q, of rest] by simp
qed

text \<open>An entry of the name \<open>q\<close> whose capture took part in the match.\<close>

definition matched_entry :: "ns_range list \<Rightarrow> byte list \<Rightarrow> nat \<times> byte list \<Rightarrow> bool" where
  "matched_entry ranges q e \<longleftrightarrow> snd e = q \<and> range_location (ranges ! fst e) \<noteq> NSNotFound"

definition first_matched :: "ns_range list \<Rightarrow> byte list \<Rightarrow> (nat \<times> byte list) list \<Rightarrow> u64 \<Rightarrow> u64" where
  "first_matched ranges q es d = (case find (matched_entry ranges q) es of Some e \<Rightarrow> of_nat (fst e) | None \<Rightarrow> d)"

text \<open>Every index is small enough to be read back, and the array of ranges covers it.\<close>

definition indexes_in :: "ns_range list \<Rightarrow> (nat \<times> byte list) list \<Rightarrow> bool" where
  "indexes_in ranges entries \<longleftrightarrow> list_all (\<lambda>(i, nm). i < 128 \<and> i < length ranges) entries"

lemma find_append: "find P (xs @ ys) = (case find P xs of Some x \<Rightarrow> Some x | None \<Rightarrow> find P ys)"
  by (induction xs) auto

lemma first_matched_append:
  "first_matched ranges q (xs @ ys) d = first_matched ranges q xs (first_matched ranges q ys d)"
  by (simp add: first_matched_def find_append split: option.splits)

lemma first_matched_Cons:
  "first_matched ranges q (e # es) d =
    (if matched_entry ranges q e then of_nat (fst e) else first_matched ranges q es d)"
  by (simp add: first_matched_def)

lemma same_name_table:
  assumes "names_table regex entries" "k < length entries" "0 \<notin> set q"
  shows "same_name (q @ rest) (length q) (name_entry regex k) = Ok (snd (entries ! k) = q)"
proof -
  obtain r where r: "compare_entry (q @ rest) (length q) (name_entry regex k) = Ok r"
      "r = 0 \<longleftrightarrow> prefix q (snd (entries ! k))"
    using compare_table(1) [OF assms] by blast
  show ?thesis
  proof (cases "r = 0")
    case True
    then show ?thesis using r compare_table(3) [OF assms] by (auto simp: same_name_def)
  next
    case False
    then show ?thesis using r by (auto simp: same_name_def)
  qed
qed

lemma participates_table:
  assumes "indexes_in ranges entries" "k < length entries"
  shows "participates ranges (reported_index (fst (entries ! k))) =
      Ok (range_location (ranges ! fst (entries ! k)) \<noteq> NSNotFound)"
    and "reported_index (fst (entries ! k)) = of_nat (fst (entries ! k))"
    and "reported_index (fst (entries ! k)) \<noteq> NSNotFound"
proof -
  have i: "fst (entries ! k) < 128" "fst (entries ! k) < length ranges"
    using assms by (auto simp: indexes_in_def list_all_length case_prod_beta)
  then show s: "reported_index (fst (entries ! k)) = of_nat (fst (entries ! k))"
    by (simp add: reported_index_small)
  show "participates ranges (reported_index (fst (entries ! k))) =
      Ok (range_location (ranges ! fst (entries ! k)) \<noteq> NSNotFound)"
    using i by (simp add: participates_def s unat_of_nat_small)
  show "reported_index (fst (entries ! k)) \<noteq> NSNotFound"
    using i s of_nat32_not_NSNotFound by simp
qed

lemma search_back_correct:
  assumes tab: "names_table regex entries" and idx: "indexes_in ranges entries" and q: "0 \<notin> set q"
  shows "k < length entries \<Longrightarrow> snd (entries ! k) = q \<Longrightarrow>
    search_back regex (q @ rest) (length q) ranges k d = Ok (first_matched ranges q (take k entries) d)"
proof (induction k arbitrary: d)
  case 0
  then show ?case by (simp add: first_matched_def)
next
  case (Suc k)
  have k: "k < length entries" using Suc.prems by simp
  have split: "take (Suc k) entries = take k entries @ [entries ! k]"
    using k by (rule take_Suc_conv_app_nth)
  show ?case
  proof (cases "snd (entries ! k) = q")
    case False
    have "snd e \<noteq> q" if e: "e \<in> set (take (Suc k) entries)" for e
    proof
      assume "snd e = q"
      obtain j where j: "j \<le> k" "e = entries ! j" using e k by (auto simp: in_set_conv_nth less_Suc_eq_le)
      have "name_le q (snd (entries ! k))" "name_le (snd (entries ! k)) q"
        using table_sorted [OF tab, of j k] table_sorted [OF tab, of k "Suc k"] j k Suc.prems \<open>snd e = q\<close> by auto
      then show False using False name_le_antisym by blast
    qed
    then have "find (matched_entry ranges q) (take (Suc k) entries) = None"
      unfolding find_None_iff matched_entry_def by blast
    then show ?thesis
      using False same_name_table [OF tab k q] by (simp add: first_matched_def)
  next
    case True
    have "first_matched ranges q (take (Suc k) entries) d =
        first_matched ranges q (take k entries)
          (if range_location (ranges ! fst (entries ! k)) \<noteq> NSNotFound then of_nat (fst (entries ! k)) else d)"
      using True by (simp add: split first_matched_append) (simp add: first_matched_def matched_entry_def)
    then show ?thesis
      using True Suc.IH [OF k True] same_name_table [OF tab k q] compare_table(2) [OF tab k q]
        participates_table [OF idx k] by simp
  qed
qed

lemma search_forward_correct:
  assumes tab: "names_table regex entries" and idx: "indexes_in ranges entries" and q: "0 \<notin> set q"
  shows "k + n + 1 = length entries \<Longrightarrow> snd (entries ! k) = q \<Longrightarrow>
    search_forward regex (q @ rest) (length q) ranges k n
      = Ok (first_matched ranges q (drop (k + 1) entries) NSNotFound)"
proof (induction n arbitrary: k)
  case 0
  then show ?case by (simp add: first_matched_def)
next
  case (Suc n)
  have k: "k + 1 < length entries" using Suc.prems by simp
  have split: "drop (k + 1) entries = entries ! (k + 1) # drop (k + 2) entries"
    using k by (simp add: Cons_nth_drop_Suc)
  show ?case
  proof (cases "snd (entries ! (k + 1)) = q")
    case False
    have "snd e \<noteq> q" if e: "e \<in> set (drop (k + 1) entries)" for e
    proof
      assume "snd e = q"
      obtain j where j: "k + 1 \<le> j" "j < length entries" "e = entries ! j"
        using e by (auto simp: in_set_conv_nth) (metis add_leE le_add1 add_Suc_right less_diff_conv add.commute add_Suc)
      have "name_le q (snd (entries ! (k + 1)))" "name_le (snd (entries ! (k + 1))) q"
        using table_sorted [OF tab, of k "k + 1"] table_sorted [OF tab, of "k + 1" j] j k Suc.prems \<open>snd e = q\<close>
        by auto
      then show False using False name_le_antisym by blast
    qed
    then have "find (matched_entry ranges q) (drop (k + 1) entries) = None"
      unfolding find_None_iff matched_entry_def by blast
    then show ?thesis
      using False same_name_table [OF tab k q] by (simp add: first_matched_def)
  next
    case True
    have "first_matched ranges q (drop (k + 1) entries) NSNotFound =
        (if range_location (ranges ! fst (entries ! (k + 1))) \<noteq> NSNotFound then of_nat (fst (entries ! (k + 1)))
         else first_matched ranges q (drop (k + 2) entries) NSNotFound)"
      using True unfolding split first_matched_Cons by (simp add: matched_entry_def)
    then show ?thesis
      using True Suc.IH [of "k + 1"] Suc.prems(1) same_name_table [OF tab k q] compare_table(2) [OF tab k q]
        participates_table [OF idx k] by simp
  qed
qed

lemma duplicate_lookup:
  assumes "names_table regex entries" "duplicate_names regex" "indexes_in ranges entries" "0 \<notin> set q"
    and "q \<in> snd ` set entries"
  shows "RKCaptureIndexForCaptureNameCharactersWithError (Some regex) (q @ rest) (length q) (Some ranges) =
    Ok (first_matched ranges q entries NSNotFound, None)"
proof -
  obtain k where k: "k < length entries" "snd (entries ! k) = q"
      "captureNameTableLength regex \<noteq> 0" "\<not> length q > captureNameLength regex"
      "name_search regex (q @ rest) (length q) 0 (captureNameTableLength regex)
          = Ok (Some (k, reported_index (fst (entries ! k))))"
    using name_lookup_search(1) [OF assms(1,4,5)] by blast
  obtain j where j: "regex_jchanged regex = Some j" "\<not> (j = 0 \<and> compileOption regex AND RKCompileDupNames = 0)"
    using assms(2) by (auto simp: duplicate_names_def)
  have n: "captureNameTableLength regex = length entries" using assms(1) by (simp add: names_table_def)
  define i where "i = fst (entries ! k)"
  define p where "p \<longleftrightarrow> range_location (ranges ! i) \<noteq> NSNotFound"
  have part: "participates ranges (reported_index i) = Ok p" "reported_index i = of_nat i"
    using participates_table [OF assms(3) k(1)] by (simp_all add: i_def p_def)
  note not_nf = participates_table(2,3) [OF assms(3)]
  define F where "F = first_matched ranges q (drop (k + 1) entries) NSNotFound"
  define B where "B = first_matched ranges q (take k entries) (if p then of_nat i else NSNotFound)"
  have ent: "entries = take k entries @ entries ! k # drop (k + 1) entries"
    using k(1) by (simp add: id_take_nth_drop)
  have "matched_entry ranges q (entries ! k) = p" using k(2) by (simp add: matched_entry_def p_def i_def)
  then have all: "first_matched ranges q entries NSNotFound =
      first_matched ranges q (take k entries) (if p then of_nat i else F)"
    using arg_cong [OF ent, of "\<lambda>x. first_matched ranges q x NSNotFound"]
    unfolding first_matched_append first_matched_Cons F_def i_def by simp
  have "first_matched ranges q entries NSNotFound = (if B \<noteq> NSNotFound then B else F)"
  proof (cases "find (matched_entry ranges q) (take k entries)")
    case None
    have "(of_nat i :: u64) \<noteq> NSNotFound" using not_nf(2) [OF k(1)] not_nf(1) [OF k(1)] by (simp add: i_def)
    then show ?thesis using None all by (simp add: B_def first_matched_def)
  next
    case (Some e)
    then obtain m where m: "m < length entries" "entries ! m = e"
      by (auto simp: find_Some_iff)
    have "(of_nat (fst e) :: u64) \<noteq> NSNotFound" using not_nf [OF m(1)] m(2) by simp
    then show ?thesis using Some all by (simp add: B_def first_matched_def)
  qed
  moreover have "search_back regex (q @ rest) (length q) ranges k (if p then reported_index i else NSNotFound) = Ok B"
    using search_back_correct [OF assms(1,3,4) k(1,2)] part(2) by (simp add: B_def)
  moreover have "search_forward regex (q @ rest) (length q) ranges k (captureNameTableLength regex - 1 - k) = Ok F"
    using search_forward_correct [OF assms(1,3,4), of k "length entries - 1 - k" rest] k n by (simp add: F_def)
  ultimately show ?thesis
    using k(3-5) j part(1)
    by (auto simp: RKCaptureIndexForCaptureNameCharactersWithError_def Let_def i_def)
qed

text \<open>
  With duplicate names and the ranges of a match, a name that occurs in the table stands for its
  first entry (in table order) whose capture took part in the match, wherever among the equal names
  the binary search happened to land, and is \<open>NSNotFound\<close>, without an error, when none did.
\<close>

lemma duplicate_name_lookup:
  assumes "names_table regex entries" "duplicate_names regex" "indexes_in ranges entries" "0 \<notin> set q"
    and "q \<in> snd ` set entries"
  shows "RKCaptureIndexForCaptureNameCharactersWithError (Some regex) (q @ rest) (length q) (Some ranges) =
    Ok (first_matched ranges q entries NSNotFound, None)"
  using assms by (rule duplicate_lookup)

section \<open>Witnesses\<close>

text \<open>The names \<open>ab\<close> (capture 2) and \<open>b\<close> (captures 1 and 3, and for the sign extension 200).\<close>

definition sample_entries :: "(nat \<times> byte list) list" where
  "sample_entries = [(2, [97, 98]), (200, [98])]"

definition dup_entries :: "(nat \<times> byte list) list" where
  "dup_entries = [(2, [97, 98]), (1, [98]), (3, [98])]"

definition named_regex :: "u32 \<Rightarrow> (nat \<times> byte list) list \<Rightarrow> RKRegex" where
  "named_regex options entries = sample_regex
     \<lparr>compileOption := options, captureNameTable := concat (map (encode_entry 6) entries),
      captureNameTableLength := length entries, captureNameLength := 6, captureCount := 201\<rparr>"

lemma named_tables:
  "names_table (named_regex 0 sample_entries) sample_entries"
  "names_table (named_regex RKCompileDupNames dup_entries) dup_entries"
  by (simp_all add: names_table_def named_regex_def sample_entries_def dup_entries_def good_name_def)

lemma named_modes:
  "unique_names (named_regex 0 sample_entries)"
  "duplicate_names (named_regex RKCompileDupNames dup_entries)"
  by (simp_all add: unique_names_def duplicate_names_def named_regex_def sample_regex_def RKCompileDupNames_def)

theorem capture_name_lookup_witness:
  "RKCaptureIndexForCaptureNameCharactersWithError (Some (named_regex 0 sample_entries)) [97, 98, 0]
     (length [97, 98 :: byte]) None = Ok (2, None) \<and>
   RKCaptureIndexForCaptureNameCharactersWithError (Some (named_regex 0 sample_entries)) [98, 0]
     (length [98 :: byte]) None = Ok (- 56, None)"
proof -
  have "lookup_name sample_entries [97, 98] = Some 2" "lookup_name sample_entries [98] = Some 200"
    by (simp_all add: lookup_name_def sample_entries_def)
  then show ?thesis
    using capture_name_lookup [OF named_tables(1) _ named_modes(1), of "[97, 98]" "[0]"]
      capture_name_lookup [OF named_tables(1) _ named_modes(1), of "[98]" "[0]"]
    by (simp add: sample_entries_def)
qed

lemma capture_index_sign_extension_witness:
  "RKCaptureIndexForCaptureNameCharactersWithError (Some (named_regex 0 sample_entries)) [98, 0] 1 None = Ok (- 56, None)"
  using capture_index_sign_extension [OF named_tables(1) _ named_modes(1), of 200 "[98]" "[0]"]
  by (simp add: sample_entries_def)

lemma duplicate_name_lookup_witness:
  "RKCaptureIndexForCaptureNameCharactersWithError (Some (named_regex RKCompileDupNames dup_entries)) [98, 0] 1
     (Some [NSMakeRange 0 4, NSMakeRange NSNotFound 0, NSMakeRange NSNotFound 0, NSMakeRange 2 2]) = Ok (3, None)"
  using duplicate_name_lookup [OF named_tables(2) named_modes(2), of
      "[NSMakeRange 0 4, NSMakeRange NSNotFound 0, NSMakeRange NSNotFound 0, NSMakeRange 2 2]" "[98]" "[0]"]
    of_nat32_not_NSNotFound [of 2]
  by (simp add: indexes_in_def first_matched_Cons matched_entry_def dup_entries_def)

end
