(* ===== verification/RK_Cache.thy ===== *)
theory RK_Cache
  imports RK_Prelude
begin

text \<open>
  \<open>RKCache.m\<close>: the map from hash values to objects behind the regex cache and the sorted collection
  cache, its switches and counters. A call says whether the read/write lock was acquired (\<open>locked\<close>);
  without it the operation gives up as the code does. The locale \<open>object_cache\<close> is what the clients
  of a cache rely on; the model satisfies it.
\<close>

section \<open>The interface the clients use\<close>

locale object_cache =
  fixes invar :: "'s \<Rightarrow> bool"
    and content :: "'s \<Rightarrow> u64 \<Rightarrow> 'a option"
    and serving :: "'s \<Rightarrow> bool"
    and accepting :: "'s \<Rightarrow> bool"
    and lookup :: "'s \<Rightarrow> u64 \<Rightarrow> 'a option \<times> 's"
    and add :: "'s \<Rightarrow> 'a \<Rightarrow> u64 \<Rightarrow> bool \<times> 's"
    and remove :: "'s \<Rightarrow> u64 \<Rightarrow> 'a option \<times> 's"
  assumes lookup_result: "invar s \<Longrightarrow> fst (lookup s h) = (if serving s then content s h else None)"
    and lookup_state: "invar s \<Longrightarrow> invar (snd (lookup s h)) \<and> content (snd (lookup s h)) = content s \<and>
      serving (snd (lookup s h)) = serving s \<and> accepting (snd (lookup s h)) = accepting s"
    and add_result: "invar s \<Longrightarrow> fst (add s x h) = (accepting s \<and> content s h = None)"
    and add_state: "invar s \<Longrightarrow> invar (snd (add s x h)) \<and> serving (snd (add s x h)) = serving s \<and>
      accepting (snd (add s x h)) = accepting s \<and>
      content (snd (add s x h)) = (if accepting s \<and> content s h = None then (content s)(h \<mapsto> x) else content s)"
    and remove_result: "invar s \<Longrightarrow> fst (remove s h) = content s h"
    and remove_state: "invar s \<Longrightarrow> invar (snd (remove s h)) \<and> serving (snd (remove s h)) = serving s \<and>
      accepting (snd (remove s h)) = accepting s \<and> content (snd (remove s h)) = (content s)(h := None)"
begin

text \<open>An object put in by a successful add is found under its hash, and only there.\<close>

lemma lookup_after_add:
  assumes "invar s" "serving s" "fst (add s x h)"
  shows "fst (lookup (snd (add s x h)) k) = (if k = h then Some x else fst (lookup s k))"
  using assms add_state [OF assms(1)] add_result [OF assms(1), of x h]
  by (simp add: lookup_result)

lemma first_add_wins:
  assumes "invar s" "fst (add s x h)"
  shows "\<not> fst (add (snd (add s x h)) y h)" "content (snd (add (snd (add s x h)) y h)) h = Some x"
  using assms add_state [of s x h] add_result [of s x h] add_state [of "snd (add s x h)" y h]
    add_result [of "snd (add s x h)" y h] by simp_all

lemma add_after_remove:
  assumes "invar s" "accepting s"
  shows "fst (add (snd (remove s h)) x h)"
  using assms remove_state [of s h] add_result [of "snd (remove s h)" x h] by simp

text \<open>
  The pattern of every client: look the hash up, and on a miss make an object and offer it to the
  cache. If every cached object is acceptable under its hash and so is what is made, the answer is
  acceptable and the cache stays so.
\<close>

lemma find_or_make:
  assumes "invar s" "\<And>h x. content s h = Some x \<Longrightarrow> ok h x"
  shows "fst (lookup s h) = Some x \<Longrightarrow> ok h x"
    and "\<lbrakk>fst (lookup s h) = None; ok h x; content (snd (add (snd (lookup s h)) x h)) k = Some y\<rbrakk> \<Longrightarrow> ok k y"
    and "invar (snd (add (snd (lookup s h)) x h))"
  using assms lookup_result [of s h] lookup_state [of s h] add_state [of "snd (lookup s h)" x h]
  by (auto split: if_splits)

text \<open>A second request for the same hash gets the very object of the first.\<close>

lemma find_or_make_again:
  assumes "invar s" "serving s" "accepting s" "fst (lookup s h) = None"
  shows "fst (lookup (snd (add (snd (lookup s h)) x h)) h) = Some x"
  using assms lookup_result [of s h] lookup_state [of s h] add_state [of "snd (lookup s h)" x h]
  by (simp add: lookup_result)

end

section \<open>The state\<close>

text \<open>
  The instance variables of \<open>RKCache\<close>. The \<open>NSMapTable\<close> is an association list without duplicate keys,
  \<open>None\<close> while there is none.
\<close>

record 'a RKCache =
  cacheMapTable :: "(u64 \<times> 'a) list option"
  cacheIsEnabled :: bool
  cacheAddingIsEnabled :: bool
  cacheLookupIsEnabled :: bool
  cacheHits :: u64
  cacheMisses :: u64
  cacheClearedCount :: u64
  cacheDescriptionString :: "string option"
  cacheDescriptionUTF8String :: "string option"

definition map_table :: "'a RKCache \<Rightarrow> (u64 \<times> 'a) list" where
  "map_table c = (case cacheMapTable c of None \<Rightarrow> [] | Some t \<Rightarrow> t)"

section \<open>The operations\<close>

text \<open>\<open>created\<close>: \<open>NSCreateMapTable\<close> gave a table.\<close>

definition clearCache :: "bool \<Rightarrow> bool \<Rightarrow> 'a RKCache \<Rightarrow> bool \<times> 'a RKCache" where
  "clearCache created locked c =
     (if \<not> created then (False, c)
      else if \<not> locked then (False, c)
      else (True, c\<lparr>cacheMapTable := Some [], cacheClearedCount := cacheClearedCount c + 1,
                    cacheHits := 0, cacheMisses := 0\<rparr>))"

text \<open>The zeroed object that allocation gives, and \<open>init\<close>; \<open>lockReady\<close>: the lock object was created.\<close>

definition allocated_cache :: "'a RKCache" where
  "allocated_cache = \<lparr>cacheMapTable = None, cacheIsEnabled = False, cacheAddingIsEnabled = False,
     cacheLookupIsEnabled = False, cacheHits = 0, cacheMisses = 0, cacheClearedCount = 0,
     cacheDescriptionString = None, cacheDescriptionUTF8String = None\<rparr>"

definition cache_init :: "bool \<Rightarrow> bool \<Rightarrow> bool \<Rightarrow> 'a RKCache \<Rightarrow> 'a RKCache option" where
  "cache_init lockReady created locked c =
     (if \<not> lockReady then None
      else let (cleared, c') = clearCache created locked c
      in if \<not> cleared then None
         else Some (c'\<lparr>cacheClearedCount := 0, cacheAddingIsEnabled := True,
                       cacheLookupIsEnabled := True, cacheIsEnabled := True\<rparr>))"

definition setDescription :: "string option \<Rightarrow> 'a RKCache \<Rightarrow> 'a RKCache" where
  "setDescription descriptionString c = c\<lparr>cacheDescriptionString := descriptionString\<rparr>"

definition initWithDescription :: "bool \<Rightarrow> bool \<Rightarrow> bool \<Rightarrow> string option \<Rightarrow> 'a RKCache \<Rightarrow> 'a RKCache option" where
  "initWithDescription lockReady created locked descriptionString c =
     map_option (setDescription descriptionString) (cache_init lockReady created locked c)"

text \<open>
  The C string of the description, made on the first call and kept. A cache without a description
  fails the assertion of \<open>RKStringBufferWithString\<close>.
\<close>

definition cacheUTF8String :: "'a RKCache option \<Rightarrow> (string \<times> 'a RKCache option) run" where
  "cacheUTF8String self =
     (case self of None \<Rightarrow> Ok (''self == NULL'', None)
      | Some c \<Rightarrow>
          (case cacheDescriptionUTF8String c of
             Some s \<Rightarrow> Ok (s, Some c)
           | None \<Rightarrow> (case cacheDescriptionString c of
               None \<Rightarrow> Raise NSInternalInconsistencyException
             | Some s \<Rightarrow> Ok (s, Some (c\<lparr>cacheDescriptionUTF8String := Some s\<rparr>)))))"

definition RKFastCacheLookup :: "bool \<Rightarrow> 'a RKCache \<Rightarrow> u64 \<Rightarrow> 'a option \<times> 'a RKCache" where
  "RKFastCacheLookup locked c objectHash =
     (let found = (if locked \<and> cacheIsEnabled c \<and> cacheLookupIsEnabled c
                   then (case cacheMapTable c of None \<Rightarrow> None | Some t \<Rightarrow> map_of t objectHash) else None)
      in if found \<noteq> None then (found, c\<lparr>cacheHits := cacheHits c + 1\<rparr>)
         else (None, c\<lparr>cacheMisses := cacheMisses c + 1\<rparr>))"

definition objectForHash :: "bool \<Rightarrow> 'a RKCache \<Rightarrow> u64 \<Rightarrow> 'a option \<times> 'a RKCache" where
  "objectForHash = RKFastCacheLookup"

text \<open>\<open>addObjectToCache:withHash:\<close> with \<open>NSMapInsertIfAbsent\<close>; \<open>None\<close> for a \<open>NULL\<close> object.\<close>

definition addObjectToCache_withHash :: "bool \<Rightarrow> 'a RKCache \<Rightarrow> 'a option \<Rightarrow> u64 \<Rightarrow> bool \<times> 'a RKCache" where
  "addObjectToCache_withHash locked c object objectHash =
     (case object of None \<Rightarrow> (False, c)
      | Some x \<Rightarrow>
        if \<not> locked then (False, c)
        else if cacheAddingIsEnabled c \<and> cacheIsEnabled c then
          (case cacheMapTable c of None \<Rightarrow> (False, c)
           | Some t \<Rightarrow>
               if map_of t objectHash = None then (True, c\<lparr>cacheMapTable := Some ((objectHash, x) # t)\<rparr>)
               else (False, c))
        else (False, c))"

definition addObjectToCache :: "('a \<Rightarrow> u64) \<Rightarrow> bool \<Rightarrow> 'a RKCache \<Rightarrow> 'a option \<Rightarrow> bool \<times> 'a RKCache" where
  "addObjectToCache hash_of locked c object =
     addObjectToCache_withHash locked c object (case object of None \<Rightarrow> 0 | Some x \<Rightarrow> hash_of x)"

definition removeObjectWithHash :: "bool \<Rightarrow> 'a RKCache \<Rightarrow> u64 \<Rightarrow> 'a option \<times> 'a RKCache" where
  "removeObjectWithHash locked c objectHash =
     (if \<not> locked then (None, c)
      else case cacheMapTable c of None \<Rightarrow> (None, c)
      | Some t \<Rightarrow>
          (case map_of t objectHash of None \<Rightarrow> (None, c)
           | Some x \<Rightarrow> (Some x, c\<lparr>cacheMapTable := Some (filter (\<lambda>e. fst e \<noteq> objectHash) t)\<rparr>)))"

definition removeObjectFromCache :: "('a \<Rightarrow> u64) \<Rightarrow> bool \<Rightarrow> 'a RKCache \<Rightarrow> 'a option \<Rightarrow> 'a option \<times> 'a RKCache" where
  "removeObjectFromCache hash_of locked c object =
     removeObjectWithHash locked c (case object of None \<Rightarrow> 0 | Some x \<Rightarrow> hash_of x)"

text \<open>\<open>cacheSet\<close>: \<open>NULL\<close> for an empty cache as well as for none.\<close>

definition cacheSet :: "bool \<Rightarrow> 'a RKCache \<Rightarrow> 'a list option" where
  "cacheSet locked c =
     (case cacheMapTable c of None \<Rightarrow> None
      | Some t \<Rightarrow> if \<not> locked then None else if t = [] then None else Some (map snd t))"

definition cacheCount :: "bool \<Rightarrow> 'a RKCache \<Rightarrow> nat" where
  "cacheCount locked c =
     (case cacheMapTable c of None \<Rightarrow> 0 | Some t \<Rightarrow> if \<not> locked then 0 else length t)"

text \<open>
  The switches. Each setter reads the flag and writes it with one compare-and-swap (\<open>swapped\<close>: no
  other thread changed it in between), and answers whether the swap took place.
\<close>

definition isCacheEnabled :: "'a RKCache \<Rightarrow> bool" where
  "isCacheEnabled c = cacheIsEnabled c"

definition isCacheAddingEnabled :: "'a RKCache \<Rightarrow> bool" where
  "isCacheAddingEnabled c = cacheAddingIsEnabled c"

definition isCacheLookupEnabled :: "'a RKCache \<Rightarrow> bool" where
  "isCacheLookupEnabled c = cacheLookupIsEnabled c"

definition setCacheEnabled :: "bool \<Rightarrow> bool \<Rightarrow> 'a RKCache \<Rightarrow> bool \<times> 'a RKCache" where
  "setCacheEnabled swapped enableCache c =
     (if swapped then (True, c\<lparr>cacheIsEnabled := enableCache\<rparr>) else (False, c))"

definition setCacheAddingEnabled :: "bool \<Rightarrow> bool \<Rightarrow> 'a RKCache \<Rightarrow> bool \<times> 'a RKCache" where
  "setCacheAddingEnabled swapped enableCacheAdding c =
     (if swapped then (True, c\<lparr>cacheAddingIsEnabled := enableCacheAdding\<rparr>) else (False, c))"

definition setCacheLookupEnabled :: "bool \<Rightarrow> bool \<Rightarrow> 'a RKCache \<Rightarrow> bool \<times> 'a RKCache" where
  "setCacheLookupEnabled swapped enableCacheLookup c =
     (if swapped then (True, c\<lparr>cacheLookupIsEnabled := enableCacheLookup\<rparr>) else (False, c))"

definition clearCounters :: "'a RKCache \<Rightarrow> 'a RKCache" where
  "clearCounters c = c\<lparr>cacheClearedCount := 0\<rparr>"

section \<open>The model provides the interface\<close>

definition cache_invar :: "'a RKCache \<Rightarrow> bool" where
  "cache_invar c \<longleftrightarrow> (\<exists>t. cacheMapTable c = Some t \<and> distinct (map fst t))"

definition cache_content :: "'a RKCache \<Rightarrow> u64 \<Rightarrow> 'a option" where
  "cache_content c = map_of (map_table c)"

definition cache_serving :: "'a RKCache \<Rightarrow> bool" where
  "cache_serving c \<longleftrightarrow> cacheIsEnabled c \<and> cacheLookupIsEnabled c"

definition cache_accepting :: "'a RKCache \<Rightarrow> bool" where
  "cache_accepting c \<longleftrightarrow> cacheIsEnabled c \<and> cacheAddingIsEnabled c"

lemmas cache_defs [rk_defs] = cache_invar_def cache_content_def cache_serving_def cache_accepting_def map_table_def

lemma map_of_filter_key: "map_of (filter (\<lambda>e. fst e \<noteq> h) t) = (map_of t)(h := None)"
  by (induction t) auto

lemma distinct_filter_key: "distinct (map fst t) \<Longrightarrow> distinct (map fst (filter P t))"
  by (induction t) auto

lemma map_of_None_fst: "map_of t h = None \<Longrightarrow> h \<notin> fst ` set t"
  by (simp add: map_of_eq_None_iff)

interpretation rkcache: object_cache cache_invar cache_content cache_serving cache_accepting
  "RKFastCacheLookup True" "\<lambda>c x. addObjectToCache_withHash True c (Some x)" "removeObjectWithHash True"
proof unfold_locales
  fix s :: "'a RKCache" and h x
  assume inv: "cache_invar s"
  then obtain t where t: "cacheMapTable s = Some t" "distinct (map fst t)" by (auto simp: cache_invar_def)
  show "fst (RKFastCacheLookup True s h) = (if cache_serving s then cache_content s h else None)"
    by (auto simp: RKFastCacheLookup_def rk_defs t Let_def)
  show "cache_invar (snd (RKFastCacheLookup True s h)) \<and>
      cache_content (snd (RKFastCacheLookup True s h)) = cache_content s \<and>
      cache_serving (snd (RKFastCacheLookup True s h)) = cache_serving s \<and>
      cache_accepting (snd (RKFastCacheLookup True s h)) = cache_accepting s"
    by (simp add: RKFastCacheLookup_def rk_defs t Let_def)
  show "fst (addObjectToCache_withHash True s (Some x) h) = (cache_accepting s \<and> cache_content s h = None)"
    by (simp add: addObjectToCache_withHash_def rk_defs t)
  show "cache_invar (snd (addObjectToCache_withHash True s (Some x) h)) \<and>
      cache_serving (snd (addObjectToCache_withHash True s (Some x) h)) = cache_serving s \<and>
      cache_accepting (snd (addObjectToCache_withHash True s (Some x) h)) = cache_accepting s \<and>
      cache_content (snd (addObjectToCache_withHash True s (Some x) h)) =
        (if cache_accepting s \<and> cache_content s h = None then (cache_content s)(h \<mapsto> x) else cache_content s)"
    using map_of_None_fst [of t h] t(2) by (force simp: addObjectToCache_withHash_def rk_defs t(1))
  show "fst (removeObjectWithHash True s h) = cache_content s h"
    by (simp add: removeObjectWithHash_def rk_defs t split: option.split)
  show "cache_invar (snd (removeObjectWithHash True s h)) \<and>
      cache_serving (snd (removeObjectWithHash True s h)) = cache_serving s \<and>
      cache_accepting (snd (removeObjectWithHash True s h)) = cache_accepting s \<and>
      cache_content (snd (removeObjectWithHash True s h)) = (cache_content s)(h := None)"
    using t(2) map_of_None_fst [of t h]
    by (auto simp: removeObjectWithHash_def rk_defs t(1) map_of_filter_key distinct_filter_key fun_eq_iff
        split: option.split)
qed

section \<open>Sequences of operations and the map they promise\<close>

text \<open>The operations as values, each with whether its lock was acquired.\<close>

datatype 'a cache_op =
    Lookup bool u64
  | Add bool 'a u64
  | Remove bool u64
  | Clear bool bool
  | SetEnabled bool bool
  | SetAdding bool bool
  | SetLookup bool bool
  | Count bool
  | Members bool

text \<open>\<open>cacheSet\<close> makes an \<open>NSSet\<close> of the objects.\<close>

datatype 'a cache_answer = Object "'a option" | Done bool | Number nat | Objects "'a set option"

fun cache_step :: "'a cache_op \<Rightarrow> 'a RKCache \<Rightarrow> 'a cache_answer \<times> 'a RKCache" where
  "cache_step (Lookup locked h) c = (let (x, c') = RKFastCacheLookup locked c h in (Object x, c'))"
| "cache_step (Add locked x h) c = (let (b, c') = addObjectToCache_withHash locked c (Some x) h in (Done b, c'))"
| "cache_step (Remove locked h) c = (let (x, c') = removeObjectWithHash locked c h in (Object x, c'))"
| "cache_step (Clear created locked) c = (let (b, c') = clearCache created locked c in (Done b, c'))"
| "cache_step (SetEnabled swapped b) c = (let (r, c') = setCacheEnabled swapped b c in (Done r, c'))"
| "cache_step (SetAdding swapped b) c = (let (r, c') = setCacheAddingEnabled swapped b c in (Done r, c'))"
| "cache_step (SetLookup swapped b) c = (let (r, c') = setCacheLookupEnabled swapped b c in (Done r, c'))"
| "cache_step (Count locked) c = (Number (cacheCount locked c), c)"
| "cache_step (Members locked) c = (Objects (map_option set (cacheSet locked c)), c)"

definition cache_run :: "'a cache_op list \<Rightarrow> 'a RKCache \<Rightarrow> 'a RKCache" where
  "cache_run ops c = fold (\<lambda>op c. snd (cache_step op c)) ops c"

text \<open>The abstract cache: a finite map and three switches.\<close>

record 'a cache_spec =
  spec_map :: "u64 \<Rightarrow> 'a option"
  spec_enabled :: bool
  spec_adding :: bool
  spec_lookup :: bool

definition cache_abs :: "'a RKCache \<Rightarrow> 'a cache_spec" where
  "cache_abs c = \<lparr>spec_map = cache_content c, spec_enabled = cacheIsEnabled c,
     spec_adding = cacheAddingIsEnabled c, spec_lookup = cacheLookupIsEnabled c\<rparr>"

fun spec_step :: "'a cache_op \<Rightarrow> 'a cache_spec \<Rightarrow> 'a cache_answer \<times> 'a cache_spec" where
  "spec_step (Lookup locked h) s =
     (Object (if locked \<and> spec_enabled s \<and> spec_lookup s then spec_map s h else None), s)"
| "spec_step (Add locked x h) s =
     (if locked \<and> spec_enabled s \<and> spec_adding s \<and> spec_map s h = None
      then (Done True, s\<lparr>spec_map := (spec_map s)(h \<mapsto> x)\<rparr>) else (Done False, s))"
| "spec_step (Remove locked h) s =
     (if locked then (Object (spec_map s h), s\<lparr>spec_map := (spec_map s)(h := None)\<rparr>) else (Object None, s))"
| "spec_step (Clear created locked) s =
     (if created \<and> locked then (Done True, s\<lparr>spec_map := \<lambda>h. None\<rparr>) else (Done False, s))"
| "spec_step (SetEnabled swapped b) s = (Done swapped, if swapped then s\<lparr>spec_enabled := b\<rparr> else s)"
| "spec_step (SetAdding swapped b) s = (Done swapped, if swapped then s\<lparr>spec_adding := b\<rparr> else s)"
| "spec_step (SetLookup swapped b) s = (Done swapped, if swapped then s\<lparr>spec_lookup := b\<rparr> else s)"
| "spec_step (Count locked) s = (Number (if locked then card (dom (spec_map s)) else 0), s)"
| "spec_step (Members locked) s =
     (Objects (if locked \<and> ran (spec_map s) \<noteq> {} then Some (ran (spec_map s)) else None), s)"

lemmas op_defs = RKFastCacheLookup_def addObjectToCache_withHash_def removeObjectWithHash_def
  clearCache_def setCacheEnabled_def setCacheAddingEnabled_def setCacheLookupEnabled_def cacheCount_def cacheSet_def

lemma cache_step_invar: "cache_invar c \<Longrightarrow> cache_invar (snd (cache_step op c))"
  by (cases op) (auto simp: cache_invar_def op_defs Let_def distinct_filter_key dest: map_of_None_fst
      split: option.split)

section \<open>Properties\<close>

text \<open>
  C3. The cache is a finite map with switches: a lookup, an add of an object, a removal, a clear, a change
  of one of the three switches, \<open>cacheCount\<close> and \<open>cacheSet\<close>, whether or not their lock was acquired and
  whatever the switches say, keep the table well formed and give the answer and the state of the abstract
  operation. In particular the first object added under a hash stays until it is removed or the cache
  cleared, a disabled cache answers no lookups but still removes, \<open>cacheCount\<close> is the size of the map and
  \<open>cacheSet\<close> the set of its objects, \<open>NULL\<close> if there is none.
\<close>

theorem cache_refines_map:
  assumes "cache_invar c"
  shows "cache_invar (snd (cache_step op c)) \<and>
    spec_step op (cache_abs c) = (fst (cache_step op c), cache_abs (snd (cache_step op c)))"
proof (rule conjI [OF cache_step_invar [OF assms]])
  obtain t where t: "cacheMapTable c = Some t" "distinct (map fst t)" using assms by (auto simp: cache_invar_def)
  have "card (dom (map_of t)) = length t"
    using t(2) by (metis distinct_card dom_map_of_conv_image_fst length_map set_map)
  moreover have "ran (map_of t) = snd ` set t" using t(2) by (rule ran_distinct)
  ultimately show "spec_step op (cache_abs c) = (fst (cache_step op c), cache_abs (snd (cache_step op c)))"
    using t by (cases op) (auto simp: cache_abs_def rk_defs Let_def op_defs map_of_filter_key fun_eq_iff
        split: option.split)
qed

text \<open>The lookups since the last clear that took place.\<close>

definition lookups_since_clear :: "'a cache_op list \<Rightarrow> nat" where
  "lookups_since_clear ops =
     fold (\<lambda>op n. case op of Lookup l h \<Rightarrow> Suc n | Clear cr l \<Rightarrow> (if cr \<and> l then 0 else n) | _ \<Rightarrow> n) ops 0"

definition clears :: "'a cache_op list \<Rightarrow> nat" where
  "clears ops = length (filter (\<lambda>op. op = Clear True True) ops)"

text \<open>
  The counters tell the truth after any sequence of operations on a new cache: hits and misses
  add up to the lookups since the last clear, and the cleared count is the number of clears, all
  modulo \<open>2 ^ 64\<close>; the clear inside the initialiser is not counted.
\<close>

lemma cache_counters:
  "case cache_init True True True allocated_cache of
     None \<Rightarrow> False
   | Some c \<Rightarrow>
       cacheHits (cache_run ops c) + cacheMisses (cache_run ops c) = of_nat (lookups_since_clear ops) \<and>
       cacheClearedCount (cache_run ops c) = of_nat (clears ops) \<and>
       cache_invar (cache_run ops c)"
proof -
  define c0 :: "'a RKCache" where "c0 = the (cache_init True True True allocated_cache)"
  have c0: "cache_init True True True (allocated_cache :: 'a RKCache) = Some c0"
    and init: "cacheHits c0 = 0" "cacheMisses c0 = 0" "cacheClearedCount c0 = 0" "cache_invar c0"
    by (simp_all add: c0_def cache_init_def clearCache_def allocated_cache_def cache_invar_def)
  have "cacheHits (cache_run ops c0) + cacheMisses (cache_run ops c0) = of_nat (lookups_since_clear ops) \<and>
       cacheClearedCount (cache_run ops c0) = of_nat (clears ops) \<and> cache_invar (cache_run ops c0)"
  proof (induction ops rule: rev_induct)
    case Nil
    then show ?case using init by (simp add: cache_run_def lookups_since_clear_def clears_def)
  next
    case (snoc op ops)
    define c where "c = cache_run ops c0"
    have run: "cache_run (ops @ [op]) c0 = snd (cache_step op c)" by (simp add: cache_run_def c_def)
    have IH: "cacheHits c + cacheMisses c = of_nat (lookups_since_clear ops)"
      "cacheClearedCount c = of_nat (clears ops)" "cache_invar c"
      using snoc by (simp_all add: c_def)
    have inv: "cache_invar (snd (cache_step op c))" using cache_step_invar [OF IH(3)] by blast
    show ?case
      unfolding run using IH(1,2) inv
      by (cases op) (auto simp: lookups_since_clear_def clears_def op_defs Let_def algebra_simps
          split: option.split)
  qed
  then show ?thesis by (simp add: c0)
qed

section \<open>Witnesses\<close>

theorem cache_refines_map_witness:
  "spec_step (Add True (7 :: nat) 3)
     \<lparr>spec_map = [5 \<mapsto> 6], spec_enabled = True, spec_adding = True, spec_lookup = True\<rparr> =
   (Done True, \<lparr>spec_map = [5 \<mapsto> 6, 3 \<mapsto> 7], spec_enabled = True, spec_adding = True, spec_lookup = True\<rparr>)"
proof -
  let ?c = "(allocated_cache :: nat RKCache)\<lparr>cacheMapTable := Some [(5, 6)], cacheIsEnabled := True,
     cacheAddingIsEnabled := True, cacheLookupIsEnabled := True\<rparr>"
  have "cache_invar ?c" by (simp add: cache_invar_def)
  from cache_refines_map [OF this, of "Add True 7 3"] show ?thesis
    by (simp add: cache_abs_def addObjectToCache_withHash_def cache_content_def map_table_def)
qed

end
