(* ===== verification/RK_Regex.thy ===== *)
theory RK_Regex
  imports RK_CaptureNames RK_Cache RK_Utility
begin

text \<open>
  \<open>RKRegex.m\<close>: creating a regex object from a pattern (compilation by PCRE, capture count and names),
  the error object for a pattern that does not compile, the cached conversion of a string or regex
  argument into a regex that every other part of the framework starts with, and equality. Foundation
  and PCRE are parameters.
\<close>

section \<open>Parameters\<close>

text \<open>
  Foundation: the hash of a string, the buffer \<open>RKStringBufferWithString\<close> gets for it, and the string
  made from a NUL terminated byte sequence in an encoding (\<open>None\<close> where it is not valid).
\<close>

record foundation =
  string_hash :: "string \<Rightarrow> u64"
  string_buffer :: "string \<Rightarrow> RKStringBuffer run"
  string_from_c :: "byte list \<Rightarrow> RKStringBufferEncoding \<Rightarrow> string option"

text \<open>
  PCRE: compilation gives a handle (or \<open>NULL\<close>), an error code and an error offset; the other functions
  answer for a handle, \<open>None\<close> where the call fails.
\<close>

record pcre_library =
  pcre_compile2 :: "byte list \<Rightarrow> u32 \<Rightarrow> nat option \<times> int \<times> u32"
  pcre_study_ok :: "nat \<Rightarrow> bool"
  info_capturecount :: "nat \<Rightarrow> u32 option"
  info_namecount :: "nat \<Rightarrow> nat option"
  info_nameentrysize :: "nat \<Rightarrow> nat option"
  info_nametable :: "nat \<Rightarrow> byte list option"
  info_jchanged :: "nat \<Rightarrow> int option"
  pcre_exec_fn :: pcre_exec

definition RKHashForStringAndCompileOption :: "foundation \<Rightarrow> string option \<Rightarrow> u32 \<Rightarrow> u64" where
  "RKHashForStringAndCompileOption F str options =
     (case str of None \<Rightarrow> ucast options | Some s \<Rightarrow> string_hash F s XOR ucast options)"

section \<open>The error for a pattern that does not compile\<close>

text \<open>
  The loops that widen the range of the character in error by up to \<open>n\<close> characters on either side.
\<close>

fun widen_start :: "RKStringBuffer \<Rightarrow> nat \<Rightarrow> ns_range \<Rightarrow> ns_range run" where
  "widen_start b 0 r = Ok r"
| "widen_start b (Suc n) r =
     (if range_location r > 0
      then run_bind (RKRangeForUTF8CharacterAtLocation (Some b) (range_location r - 1)) (widen_start b n)
      else Ok r)"

fun widen_end :: "RKStringBuffer \<Rightarrow> nat \<Rightarrow> ns_range \<Rightarrow> ns_range run" where
  "widen_end b 0 r = Ok r"
| "widen_end b (Suc n) r =
     (if NSMaxRange r < buffer_length b
      then run_bind (RKRangeForUTF8CharacterAtLocation (Some b) (NSMaxRange r)) (widen_end b n)
      else Ok r)"

text \<open>
  The ranges in the user info dictionary of \<open>RKErrorForCompileInitFailure\<close>: the character in error, the
  part of the pattern that the abbreviated form shows, and the character inside that form, where a
  leading ellipsis (of length \<open>ellipsis\<close>) moves it.
\<close>

record compile_error =
  regexStringErrorRange :: ns_range
  truncatedRange :: ns_range
  abreviatedErrorRange :: ns_range
  compileErrorCode :: int
  errorCompileOption :: u32

definition RKErrorForCompileInitFailure ::
  "RKStringBuffer \<Rightarrow> u64 \<Rightarrow> int \<Rightarrow> u32 \<Rightarrow> nat \<Rightarrow> u64 \<Rightarrow> compile_error run" where
  "RKErrorForCompileInitFailure b errorOffset code options abreviatedPadding ellipsis =
     run_bind (RKRangeForUTF8CharacterAtLocation (Some b) errorOffset) (\<lambda>utf8Error.
     run_bind (RKConvertUTF8ToUTF16RangeForStringBuffer (Some b) utf8Error) (\<lambda>utf16Error.
     run_bind (widen_start b abreviatedPadding utf8Error) (\<lambda>startRange.
     run_bind (widen_end b abreviatedPadding utf8Error) (\<lambda>endRange.
     run_bind (RKConvertUTF8ToUTF16RangeForStringBuffer (Some b)
                (NSMakeRange (range_location startRange) (NSMaxRange endRange - range_location startRange)))
       (\<lambda>truncated.
     Ok \<lparr>regexStringErrorRange = utf16Error, truncatedRange = truncated,
         abreviatedErrorRange =
           NSMakeRange ((range_location utf16Error - range_location truncated) +
                        (if range_location truncated \<noteq> 0 then ellipsis else 0)) (range_length utf16Error),
         compileErrorCode = code, errorCompileOption = options\<rparr>)))))"

section \<open>Capture names\<close>

text \<open>
  The array of names: \<open>captureCount\<close> null objects, then one name for each table entry at the index of
  its two bytes, which are masked here. A name that is no valid string makes the initialiser fail.
\<close>

definition masked_index :: "byte \<Rightarrow> byte \<Rightarrow> nat" where
  "masked_index b0 b1 =
     unat (push_bit 8 (scast b0 AND 0xff) + push_bit 0 (scast b1 AND 0xff) :: u64)"

fun fill_names ::
  "foundation \<Rightarrow> RKStringBufferEncoding \<Rightarrow> byte list \<Rightarrow> nat \<Rightarrow> nat \<Rightarrow> string option list \<Rightarrow>
     string option list option run" where
  "fill_names F enc table entrySize 0 names = Ok (Some names)"
| "fill_names F enc table entrySize (Suc n) names =
     (case table of
        b0 # b1 # rest \<Rightarrow>
          if masked_index b0 b1 < length names then
            (case string_from_c F (takeWhile (\<lambda>c. c \<noteq> 0) rest) enc of
               None \<Rightarrow> Ok None
             | Some s \<Rightarrow> fill_names F enc (drop entrySize table) entrySize n (names[masked_index b0 b1 := Some s]))
          else Undefined
      | _ \<Rightarrow> Undefined)"

section \<open>Initialising\<close>

definition rk_compile_error :: "compile_error \<Rightarrow> ns_error" where
  "rk_compile_error e = rkErrorWithDomain RKRegexErrorDomain (compileErrorCode e)"

text \<open>
  What the initialiser does with a compiled pattern: studying it, and asking for its captures and its
  names. Every failure leaves \<open>NULL\<close> and no error object.
\<close>

definition load_names ::
  "foundation \<Rightarrow> pcre_library \<Rightarrow> RKStringBufferEncoding \<Rightarrow> nat \<Rightarrow> RKRegex \<Rightarrow> RKRegex option run" where
  "load_names F L enc h regex =
     (case (info_nameentrysize L h, info_nametable L h) of
        (Some entrySize, Some table) \<Rightarrow>
          run_map (\<lambda>names. case names of None \<Rightarrow> None
            | Some _ \<Rightarrow> Some (regex\<lparr>captureNameLength := entrySize, captureNameTable := table,
                                captureNameArray := names\<rparr>))
            (fill_names F enc table entrySize (captureNameTableLength regex)
               (replicate (unat (captureCount regex)) None))
      | _ \<Rightarrow> Ok None)"

definition compiled_regex ::
  "foundation \<Rightarrow> pcre_library \<Rightarrow> RKStringBufferEncoding \<Rightarrow> nat \<Rightarrow> string \<Rightarrow> u32 \<Rightarrow> RKRegex option run" where
  "compiled_regex F L enc h str libraryOptions =
     (if \<not> pcre_study_ok L h then Ok None
      else case (info_capturecount L h, info_namecount L h) of
             (Some captures, Some nameCount) \<Rightarrow>
               let regex = \<lparr>compiledPCRE = h, regex_jchanged = info_jchanged L h, compiledRegexString = str,
                      compileOption = libraryOptions, captureCount = ucast captures + 1,
                      captureNameTable = [], captureNameTableLength = nameCount, captureNameLength = 0,
                      captureNameArray = None,
                      regex_hash = RKHashForStringAndCompileOption F (Some str) libraryOptions\<rparr>
               in if nameCount = 0 then Ok (Some regex) else load_names F L enc h regex
           | _ \<Rightarrow> Ok None)"

text \<open>
  \<open>initWithRegexString:library:options:error:\<close> up to the point where the object enters the cache:
  the new regex, or \<open>NULL\<close> with or without an error object.
\<close>

definition build_regex ::
  "foundation \<Rightarrow> pcre_library \<Rightarrow> string option \<Rightarrow> bool \<Rightarrow> u32 \<Rightarrow> (RKRegex option \<times> ns_error option) run" where
  "build_regex F L regexString libraryIsPCRE libraryOptions =
    (case regexString of None \<Rightarrow> Raise NSInvalidArgumentException
     | Some str \<Rightarrow>
       if \<not> libraryIsPCRE then Ok (None, Some (rkErrorWithCode (- 1)))
       else run_bind (string_buffer F str) (\<lambda>b.
         case pcre_compile2 L (buffer_characters b) libraryOptions of
           (handle, errorCode, errorOffset) \<Rightarrow>
             (case (if errorCode \<noteq> RKCompileErrorNoError then None else handle) of
                None \<Rightarrow> run_map (\<lambda>e. (None, Some (rk_compile_error e)))
                          (RKErrorForCompileInitFailure b (ucast errorOffset) errorCode libraryOptions 5 1)
              | Some h \<Rightarrow> run_map (\<lambda>r. (r, None)) (compiled_regex F L (buffer_encoding b) h str libraryOptions))))"

text \<open>
  The whole initialiser. The cache is the state; \<open>addObjectToCache:withHash:\<close> is its last step.
\<close>

definition initWithRegexString_error ::
  "foundation \<Rightarrow> pcre_library \<Rightarrow> bool \<Rightarrow> RKRegex RKCache \<Rightarrow> string option \<Rightarrow> bool \<Rightarrow> u32 \<Rightarrow>
     (RKRegex option \<times> ns_error option) run \<times> RKRegex RKCache" where
  "initWithRegexString_error F L locked cache regexString libraryIsPCRE libraryOptions =
     (let built = build_regex F L regexString libraryIsPCRE libraryOptions
      in case built of
           Ok (Some regex, err) \<Rightarrow>
             (built, snd (addObjectToCache_withHash locked cache (Some regex) (regex_hash regex)))
         | _ \<Rightarrow> (built, cache))"

text \<open>The errors of the new interface become the exceptions of the old one.\<close>

definition older_api :: "(RKRegex option \<times> ns_error option) run \<Rightarrow> RKRegex run" where
  "older_api result =
     run_bind result (\<lambda>(regex, err).
       case err of
         Some e \<Rightarrow> if regex \<noteq> None then Raise NSInternalInconsistencyException else Raise RKRegexSyntaxErrorException
       | None \<Rightarrow> (case regex of None \<Rightarrow> Raise NSInternalInconsistencyException | Some r \<Rightarrow> Ok r))"

definition initWithRegexString ::
  "foundation \<Rightarrow> pcre_library \<Rightarrow> bool \<Rightarrow> RKRegex RKCache \<Rightarrow> string option \<Rightarrow> u32 \<Rightarrow> RKRegex run \<times> RKRegex RKCache" where
  "initWithRegexString F L locked cache regexString options =
     (let (result, cache') = initWithRegexString_error F L locked cache regexString True options
      in (older_api result, cache'))"

section \<open>From a string or a regex\<close>

text \<open>An argument of type \<open>id\<close>, as the class tests see it.\<close>

datatype regex_argument = ArgString string | ArgRegex RKRegex | ArgNULL | ArgOther

definition regex_from_string ::
  "foundation \<Rightarrow> pcre_library \<Rightarrow> bool \<Rightarrow> RKRegex RKCache \<Rightarrow> string \<Rightarrow> bool \<Rightarrow> u32 \<Rightarrow>
     (RKRegex option \<times> ns_error option) run \<times> RKRegex RKCache" where
  "regex_from_string F L locked cache str libraryIsPCRE compileOptions =
     (let (cachedRegex, cache') =
            RKFastCacheLookup locked cache (RKHashForStringAndCompileOption F (Some str) compileOptions)
      in case cachedRegex of
           Some r \<Rightarrow> (Ok (Some r, None), cache')
         | None \<Rightarrow> initWithRegexString_error F L locked cache' (Some str) libraryIsPCRE compileOptions)"

definition RKRegexFromStringOrRegexWithError ::
  "foundation \<Rightarrow> pcre_library \<Rightarrow> bool \<Rightarrow> RKRegex RKCache \<Rightarrow> regex_argument \<Rightarrow> bool \<Rightarrow> u32 \<Rightarrow>
     (RKRegex option \<times> ns_error option) run \<times> RKRegex RKCache" where
  "RKRegexFromStringOrRegexWithError F L locked cache aRegex libraryIsPCRE compileOptions =
     (case aRegex of
        ArgString str \<Rightarrow> regex_from_string F L locked cache str libraryIsPCRE compileOptions
      | ArgRegex regex \<Rightarrow>
          if compileOption regex AND compileOptions \<noteq> compileOptions
          then regex_from_string F L locked cache (compiledRegexString regex) libraryIsPCRE
                 (compileOption regex OR compileOptions)
          else (Ok (Some regex, None), cache)
      | ArgNULL \<Rightarrow> (Raise NSInvalidArgumentException, cache)
      | ArgOther \<Rightarrow> (Raise NSInvalidArgumentException, cache))"

definition RKRegexFromStringOrRegex ::
  "foundation \<Rightarrow> pcre_library \<Rightarrow> bool \<Rightarrow> RKRegex RKCache \<Rightarrow> regex_argument \<Rightarrow> u32 \<Rightarrow> RKRegex run \<times> RKRegex RKCache" where
  "RKRegexFromStringOrRegex F L locked cache aRegex compileOptions =
     (let (result, cache') = RKRegexFromStringOrRegexWithError F L locked cache aRegex True compileOptions
      in (older_api result, cache'))"

definition regexWithRegexString ::
  "foundation \<Rightarrow> pcre_library \<Rightarrow> bool \<Rightarrow> RKRegex RKCache \<Rightarrow> string option \<Rightarrow> u32 \<Rightarrow> RKRegex run \<times> RKRegex RKCache" where
  "regexWithRegexString F L locked cache regexString options =
     RKRegexFromStringOrRegex F L locked cache
       (case regexString of None \<Rightarrow> ArgNULL | Some s \<Rightarrow> ArgString s) options"

text \<open>\<open>isValidRegexString:options:\<close>, whose handler turns every exception into \<open>NO\<close>.\<close>

definition isValidRegexString ::
  "foundation \<Rightarrow> pcre_library \<Rightarrow> bool \<Rightarrow> RKRegex RKCache \<Rightarrow> string option \<Rightarrow> u32 \<Rightarrow> bool run \<times> RKRegex RKCache" where
  "isValidRegexString F L locked cache regexString options =
     (case regexString of None \<Rightarrow> (Ok False, cache)
      | Some s \<Rightarrow>
        let (result, cache') = regexWithRegexString F L locked cache regexString options
        in (case result of Ok r \<Rightarrow> Ok True | Raise e \<Rightarrow> Ok False | Undefined \<Rightarrow> Undefined, cache'))"

text \<open>\<open>copyWithZone:\<close> makes a new object of the same pattern and options.\<close>

definition copyWithZone ::
  "foundation \<Rightarrow> pcre_library \<Rightarrow> bool \<Rightarrow> RKRegex RKCache \<Rightarrow> RKRegex \<Rightarrow> RKRegex run \<times> RKRegex RKCache" where
  "copyWithZone F L locked cache self =
     initWithRegexString F L locked cache (Some (compiledRegexString self)) (compileOption self)"

section \<open>Equality and hash\<close>

text \<open>\<open>same\<close>: the two pointers are equal; the other object is \<open>None\<close> unless it is an \<open>RKRegex\<close>.\<close>

definition regex_isEqual :: "bool \<Rightarrow> RKRegex \<Rightarrow> RKRegex option \<Rightarrow> bool" where
  "regex_isEqual same self anObject =
     (if same then True
      else case anObject of None \<Rightarrow> False
      | Some regexObject \<Rightarrow>
          if regex_hash self \<noteq> regex_hash regexObject then False
          else compileOption self = compileOption regexObject \<and>
               compiledRegexString self = compiledRegexString regexObject)"

definition regex_hash_method :: "foundation \<Rightarrow> RKRegex \<Rightarrow> u64 \<times> RKRegex" where
  "regex_hash_method F self =
     (let h = (if regex_hash self = 0
               then RKHashForStringAndCompileOption F (Some (compiledRegexString self)) (compileOption self)
               else regex_hash self)
      in (h, self\<lparr>regex_hash := h\<rparr>))"

section \<open>Reference counting\<close>

text \<open>\<open>retain\<close>, \<open>release\<close> (whether the object is deallocated) and \<open>retainCount\<close>, without garbage collection.\<close>

definition regex_retain :: "u64 \<Rightarrow> u64" where
  "regex_retain referenceCountMinusOne = referenceCountMinusOne + 1"

definition regex_release :: "u64 \<Rightarrow> u64 \<times> bool" where
  "regex_release referenceCountMinusOne =
     (let decrementedCount = referenceCountMinusOne - 1 in (decrementedCount, decrementedCount = - 1))"

definition regex_retainCount :: "u64 \<Rightarrow> u64" where
  "regex_retainCount referenceCountMinusOne = referenceCountMinusOne + 1"

section \<open>The build configuration\<close>

text \<open>
  The part of \<open>+initialize\<close> that reads the configuration of the library: each query's answer, \<open>None\<close>
  where it fails, and the bits collected when an unexpected answer ends the decoding.
\<close>

definition decode_build_config ::
  "int option \<Rightarrow> int option \<Rightarrow> int option \<Rightarrow> int option \<Rightarrow> u32 \<Rightarrow> u32" where
  "decode_build_config utf8 unicodeProperties newline bsr config =
     (case utf8 of None \<Rightarrow> config
      | Some u \<Rightarrow>
        let config = (if u = 1 then config OR RKBuildConfigUTF8 else config)
        in (case unicodeProperties of None \<Rightarrow> config
      | Some p \<Rightarrow>
        let config = (if p = 1 then config OR RKBuildConfigUnicodeProperties else config)
        in (case newline of None \<Rightarrow> config
      | Some n \<Rightarrow>
        (case map_of [(-1, RKBuildConfigNewlineAny), (-2, RKBuildConfigNewlineAnyCRLF), (10, RKBuildConfigNewlineLF),
                      (13, RKBuildConfigNewlineCR), (3338, RKBuildConfigNewlineCRLF)] n of
           None \<Rightarrow> config
         | Some nl \<Rightarrow>
           let config = config OR nl
           in (case bsr of None \<Rightarrow> config
               | Some r \<Rightarrow>
                 if r = 0 then config OR RKBuildConfigBackslashRUnicode
                 else if r = 1 then config OR RKBuildConfigBackslashRAnyCRLR
                 else config)))))"

section \<open>The ranges of a compile error\<close>

lemma range8_char: "k < length cps \<Longrightarrow> holds_text b cps \<Longrightarrow>
    NSMaxRange (range8 cps k (Suc k)) < buffer_length b \<longleftrightarrow> Suc k < length cps"
proof -
  assume k: "k < length cps" and b: "holds_text b cps"
  have v: "utf8_width cps < 2 ^ 32" "buffer_length b = of_nat (utf8_width cps)"
    using b by (auto simp: holds_text_def)
  have "NSMaxRange (range8 cps k (Suc k)) = of_nat (w8 cps (Suc k))"
    using k by (simp add: range_max)
  moreover have "w8 cps (Suc k) < utf8_width cps \<longleftrightarrow> Suc k < length cps"
    using w8_less [of "Suc k" "length cps" cps] k by (cases "Suc k = length cps") (auto simp: w8_full)
  ultimately show ?thesis
    using v w8_bound [of cps "Suc k"] k by (simp add: of_nat64_less_iff)
qed

lemma widen_start_text:
  "holds_text b cps \<Longrightarrow> k < length cps \<Longrightarrow>
    widen_start b n (range8 cps k (Suc k)) = Ok (range8 cps (k - n) (Suc (k - n)))"
proof (induction n arbitrary: k)
  case (Suc n)
  have v: "utf8_width cps < 2 ^ 32" using Suc.prems by (auto simp: holds_text_def)
  show ?case
  proof (cases k)
    case 0
    then show ?thesis by (simp add: range8_def)
  next
    case k: (Suc j)
    have less: "w8 cps j < w8 cps k" "w8 cps k < 2 ^ 32"
      using w8_less [of j k cps] w8_bound [OF v, of k] Suc.prems k by simp_all
    then have pos: "(of_nat (w8 cps k) :: u64) \<noteq> 0"
      using of_nat64_eq_iff [of "w8 cps k" 0] by simp
    have "RKRangeForUTF8CharacterAtLocation (Some b) (of_nat (w8 cps k) - 1) = Ok (range8 cps j (Suc j))"
      using character_range_at [OF Suc.prems(1), of j "w8 cps k - 1"] Suc.prems(2) k less
      by (simp add: of_nat_diff)
    then show ?thesis
      using Suc.IH [of j] Suc.prems k pos by (simp add: range_loc word_gt_0)
  qed
qed simp

lemma widen_end_text:
  "holds_text b cps \<Longrightarrow> k < length cps \<Longrightarrow>
    widen_end b n (range8 cps k (Suc k)) =
      Ok (range8 cps (min (k + n) (length cps - 1)) (Suc (min (k + n) (length cps - 1))))"
proof (induction n arbitrary: k)
  case (Suc n)
  show ?case
  proof (cases "Suc k < length cps")
    case False
    then have "min (k + Suc n) (length cps - 1) = k" using Suc.prems(2) by auto
    then show ?thesis using False range8_char [OF Suc.prems(2,1)] by simp
  next
    case True
    have "RKRangeForUTF8CharacterAtLocation (Some b) (NSMaxRange (range8 cps k (Suc k)))
        = Ok (range8 cps (Suc k) (Suc (Suc k)))"
      using character_range_at [OF Suc.prems(1) True, of "w8 cps (Suc k)"] w8_less [of "Suc k" "Suc (Suc k)" cps] True
      by (simp add: range_max)
    then show ?thesis
      using True Suc.IH [of "Suc k"] Suc.prems range8_char [OF Suc.prems(2,1)] by simp
  qed
qed auto

lemma compile_error_at:
  assumes "holds_text b cps" "k < length cps" "w8 cps k \<le> p"
    and "p < w8 cps (Suc k) \<or> p = utf8_width cps \<and> Suc k = length cps"
  shows "RKErrorForCompileInitFailure b (of_nat p) code options n ellipsis =
    (let first = k - n; past = min (k + n + 1) (length cps) in
     Ok \<lparr>regexStringErrorRange = range16 cps k (Suc k), truncatedRange = range16 cps first past,
         abreviatedErrorRange =
           NSMakeRange (of_nat (w16 cps k - w16 cps first) + (if first \<noteq> 0 then ellipsis else 0))
             (of_nat (utf16_units (cps ! k))),
         compileErrorCode = code, errorCompileOption = options\<rparr>)"
proof -
  define first where "first = k - n"
  define past where "past = min (k + n + 1) (length cps)"
  define final where "final = min (k + n) (length cps - 1)"
  have ord: "first \<le> k" "k \<le> final" "final < length cps" "past = Suc final"
    using assms(2) by (auto simp: first_def past_def final_def)
  have v: "utf8_width cps < 2 ^ 32" using assms(1) by (auto simp: holds_text_def)
  have char: "RKRangeForUTF8CharacterAtLocation (Some b) (of_nat p) = Ok (range8 cps k (Suc k))"
    by (rule character_range_at [OF assms])
  have conv: "RKConvertUTF8ToUTF16RangeForStringBuffer (Some b) (range8 cps i j) = Ok (range16 cps i j)"
    if "i \<le> j" "j \<le> length cps" for i j
    using utf8_range_converts [OF assms(1) that] .
  have joined: "NSMakeRange (range_location (range8 cps first (Suc first)))
      (NSMaxRange (range8 cps final (Suc final)) - range_location (range8 cps first (Suc first)))
      = range8 cps first past"
    using ord w8_le [of first "Suc final" cps] by (simp add: range_max range_loc) (simp add: range8_def)
  have zero: "(of_nat (w16 cps first) :: u64) = 0 \<longleftrightarrow> first = 0"
    using w16_eq_iff [of first cps 0] w8_bound [OF v, of first] ord
      of_nat64_eq_iff [of "w16 cps first" 0] by simp
  have units: "w16 cps (Suc k) - w16 cps k = utf16_units (cps ! k)" using assms(2) by (simp add: w_Suc)
  have first_range: "widen_start b n (range8 cps k (Suc k)) = Ok (range8 cps first (Suc first))"
    unfolding first_def by (rule widen_start_text [OF assms(1,2)])
  have final_range: "widen_end b n (range8 cps k (Suc k)) = Ok (range8 cps final (Suc final))"
    unfolding final_def by (rule widen_end_text [OF assms(1,2)])
  have error_range: "RKConvertUTF8ToUTF16RangeForStringBuffer (Some b) (range8 cps k (Suc k))
      = Ok (range16 cps k (Suc k))"
    using conv [of k "Suc k"] assms(2) by simp
  have cut: "RKConvertUTF8ToUTF16RangeForStringBuffer (Some b)
      (NSMakeRange (range_location (range8 cps first (Suc first)))
        (NSMaxRange (range8 cps final (Suc final)) - range_location (range8 cps first (Suc first))))
      = Ok (range16 cps first past)"
    unfolding joined using conv [of first past] ord by simp
  have lengths: "range_length (range16 cps k (Suc k)) = of_nat (utf16_units (cps ! k))"
    by (simp add: range16_def units del: of_nat_diff)
  have shift: "(of_nat (w16 cps k) - of_nat (w16 cps first) :: u64) = of_nat (w16 cps k - w16 cps first)"
    using w16_le [of first k cps] ord assms(2) by (simp add: of_nat_diff)
  show ?thesis
    unfolding RKErrorForCompileInitFailure_def char run_bind.simps error_range first_range final_range cut Let_def
    unfolding first_def [symmetric] past_def [symmetric] range_loc lengths shift zero by simp
qed

text \<open>
  The error object of a pattern that does not compile: for an error at any byte of character \<open>k\<close>
  of the pattern, or at its end after character \<open>k\<close>, the reported range is exactly that character in UTF-16, and the abbreviated pattern
  is the up to \<open>n\<close> characters on either side, cut at the ends of the pattern and never in the middle of
  a character, with the error range moved accordingly.
\<close>

lemma compile_error_ranges:
  assumes "holds_text b cps" "k < length cps" "w8 cps k \<le> p"
    and "p < w8 cps (Suc k) \<or> p = utf8_width cps \<and> Suc k = length cps"
  shows "RKErrorForCompileInitFailure b (of_nat p) code options n ellipsis =
    (let first = k - n; past = min (k + n + 1) (length cps) in
     Ok \<lparr>regexStringErrorRange = range16 cps k (Suc k), truncatedRange = range16 cps first past,
         abreviatedErrorRange =
           NSMakeRange (of_nat (w16 cps k - w16 cps first) + (if first \<noteq> 0 then ellipsis else 0))
             (of_nat (utf16_units (cps ! k))),
         compileErrorCode = code, errorCompileOption = options\<rparr>)"
  using assms by (rule compile_error_at)

section \<open>Caching is transparent\<close>

text \<open>Every cached object is what compiling its pattern with its options gives, under the hash of both.\<close>

definition cache_built :: "foundation \<Rightarrow> pcre_library \<Rightarrow> RKRegex RKCache \<Rightarrow> bool" where
  "cache_built F L cache \<longleftrightarrow> cache_invar cache \<and>
     (\<forall>h r. cache_content cache h = Some r \<longrightarrow>
        h = RKHashForStringAndCompileOption F (Some (compiledRegexString r)) (compileOption r) \<and>
        build_regex F L (Some (compiledRegexString r)) True (compileOption r) = Ok (Some r, None))"

text \<open>The cached object under the hash of this pattern and these options, if any, is one for them.\<close>

definition no_collision :: "foundation \<Rightarrow> RKRegex RKCache \<Rightarrow> string \<Rightarrow> u32 \<Rightarrow> bool" where
  "no_collision F cache str options \<longleftrightarrow>
     (case cache_content cache (RKHashForStringAndCompileOption F (Some str) options) of
        None \<Rightarrow> True
      | Some r \<Rightarrow> compiledRegexString r = str \<and> compileOption r = options)"

lemma compiled_regex_fields:
  assumes "compiled_regex F L enc h str options = Ok (Some r)"
  shows "compiledRegexString r = str \<and> compileOption r = options \<and>
    regex_hash r = RKHashForStringAndCompileOption F (Some str) options"
  using assms unfolding compiled_regex_def load_names_def Let_def
  by (auto simp: run_simps split: if_splits option.splits)

lemma build_regex_fields:
  assumes "build_regex F L (Some str) lib options = Ok (Some r, err)"
  shows "compiledRegexString r = str \<and> compileOption r = options \<and> err = None \<and> lib \<and>
    regex_hash r = RKHashForStringAndCompileOption F (Some str) options"
proof -
  obtain b where "string_buffer F str = Ok b" and lib: "lib"
    using assms by (auto simp: build_regex_def run_simps split: if_splits)
  moreover obtain handle code offset where "pcre_compile2 L (buffer_characters b) options = (handle, code, offset)"
    by (cases "pcre_compile2 L (buffer_characters b) options") auto
  ultimately show ?thesis
    using assms compiled_regex_fields
    by (auto simp: build_regex_def run_simps split: if_splits option.splits)
qed

lemma lookup_keeps_content:
  "cache_content (snd (RKFastCacheLookup locked cache h)) = cache_content cache"
  "cache_invar (snd (RKFastCacheLookup locked cache h)) = cache_invar cache"
  by (simp_all add: RKFastCacheLookup_def rk_defs Let_def)

lemma lookup_found:
  "cache_invar cache \<Longrightarrow> fst (RKFastCacheLookup locked cache h) = Some r \<Longrightarrow> cache_content cache h = Some r"
  using rkcache.lookup_result [of cache h]
  by (cases locked) (auto simp: RKFastCacheLookup_def Let_def split: if_splits)

lemma add_content:
  "cache_invar cache \<Longrightarrow> cache_invar (snd (addObjectToCache_withHash locked cache (Some x) h)) \<and>
    (cache_content (snd (addObjectToCache_withHash locked cache (Some x) h)) k = Some y \<longrightarrow>
       cache_content cache k = Some y \<or> k = h \<and> y = x)"
  using rkcache.add_state [of cache x h]
  by (cases locked) (auto simp: addObjectToCache_withHash_def split: if_splits)

lemma init_cache_built:
  assumes "cache_built F L cache"
  shows "cache_built F L (snd (initWithRegexString_error F L locked cache str lib options))"
proof (cases "build_regex F L str lib options")
  case (Ok a)
  show ?thesis
  proof (cases "fst a")
    case None
    then show ?thesis using Ok assms by (cases a) (simp add: initWithRegexString_error_def)
  next
    case (Some r)
    obtain err where a: "a = (Some r, err)" using Some by (cases a) simp
    obtain s where s: "str = Some s" using Ok by (cases str) (auto simp: build_regex_def)
    note f = build_regex_fields [OF Ok [unfolded a s]]
    define cache' where "cache' = snd (addObjectToCache_withHash locked cache (Some r) (regex_hash r))"
    have "snd (initWithRegexString_error F L locked cache str lib options) = cache'"
      by (simp add: initWithRegexString_error_def Ok a cache'_def)
    moreover have "cache_built F L cache'"
      using assms add_content [of cache locked r "regex_hash r"] f Ok
      unfolding cache_built_def cache'_def [symmetric] by (auto simp: a s)
    ultimately show ?thesis by simp
  qed
qed (use assms in \<open>simp_all add: initWithRegexString_error_def\<close>)

lemma from_string_transparent:
  assumes "cache_built F L cache" "no_collision F cache str options"
  shows "fst (regex_from_string F L locked cache str True options) = build_regex F L (Some str) True options \<and>
    cache_built F L (snd (regex_from_string F L locked cache str True options))"
proof -
  define h where "h = RKHashForStringAndCompileOption F (Some str) options"
  obtain found cache' where lk: "RKFastCacheLookup locked cache h = (found, cache')" by force
  have inv: "cache_invar cache" using assms(1) by (simp add: cache_built_def)
  have built': "cache_built F L cache'"
    using assms(1) lookup_keeps_content [where locked = locked and cache = cache and h = h] lk
    by (simp add: cache_built_def)
  show ?thesis
  proof (cases found)
    case None
    have "fst (initWithRegexString_error F L locked cache' (Some str) True options)
        = build_regex F L (Some str) True options"
      by (simp add: initWithRegexString_error_def Let_def split: run.split prod.split option.split)
    then show ?thesis
      using None lk init_cache_built [OF built', of locked "Some str" True options]
      by (simp add: regex_from_string_def h_def)
  next
    case (Some r)
    have "cache_content cache h = Some r" using lookup_found [OF inv] lk Some by (metis fst_conv)
    then have "build_regex F L (Some str) True options = Ok (Some r, None)"
      using assms by (auto simp: cache_built_def no_collision_def h_def)
    then show ?thesis
      using Some lk built' by (simp add: regex_from_string_def h_def)
  qed
qed

text \<open>
  C26. Where the hash of the request does not collide with that of another cached regex, converting a
  string to a regex through the cache gives exactly what compiling it anew gives, result or error,
  and the cache goes on holding only what compilation would give. This holds whatever the state of
  the cache's switches and whether or not its lock was acquired.
\<close>

theorem regex_from_string_transparent:
  assumes "cache_built F L cache" "no_collision F cache str options"
  shows "fst (regex_from_string F L locked cache str True options) = build_regex F L (Some str) True options \<and>
    cache_built F L (snd (regex_from_string F L locked cache str True options))"
  using assms by (rule from_string_transparent)

text \<open>
  The cache compares nothing but the hash, which is the string's hash exclusive-or the options.
  After one pattern has been compiled, a request for any other pattern and options with the same
  combined hash is answered with the first pattern's regex.
\<close>

lemma regex_cache_collision:
  assumes "cache_invar cache" "cache_serving cache" "cache_accepting cache"
    and "string_hash F s1 XOR ucast o1 = string_hash F s2 XOR ucast o2"
    and "cache_content cache (string_hash F s1 XOR ucast o1) = None"
    and "build_regex F L (Some s1) True o1 = Ok (Some r, None)"
  shows "let cache' = snd (regex_from_string F L True cache s1 True o1)
    in fst (regex_from_string F L True cache' s2 True o2) = Ok (Some r, None) \<and> compiledRegexString r = s1"
proof -
  define h where "h = string_hash F s1 XOR ucast o1"
  have hs: "RKHashForStringAndCompileOption F (Some s1) o1 = h" "RKHashForStringAndCompileOption F (Some s2) o2 = h"
    using assms(4) by (simp_all add: RKHashForStringAndCompileOption_def h_def)
  note f = build_regex_fields [OF assms(6)]
  have miss: "fst (RKFastCacheLookup True cache h) = None"
    using rkcache.lookup_result [OF assms(1), of h] assms(5) by (simp add: h_def)
  then have first: "snd (regex_from_string F L True cache s1 True o1) =
      snd (addObjectToCache_withHash True (snd (RKFastCacheLookup True cache h)) (Some r) h)"
    using f assms(6) by (simp add: regex_from_string_def initWithRegexString_error_def hs case_prod_beta)
  have "fst (RKFastCacheLookup True (snd (regex_from_string F L True cache s1 True o1)) h) = Some r"
    unfolding first by (rule rkcache.find_or_make_again [OF assms(1-3) miss])
  then show ?thesis
    using f by (simp add: regex_from_string_def [of _ _ _ _ s2] hs case_prod_beta Let_def)
qed

section \<open>The array of capture names\<close>

lemma masked_index_entry: "i < 65536 \<Longrightarrow> masked_index (of_nat (i div 256)) (of_nat (i mod 256)) = i"
proof -
  assume i: "i < 65536"
  have mask: "(scast (b :: byte) AND 0xff :: u64) = ucast b" for b
  proof -
    have m: "(0xff :: u64) = mask 8" by (simp add: mask_eq_exp_minus_1)
    show ?thesis
      unfolding m
    proof (rule bit_word_eqI)
      fix n
      have "bit b n \<Longrightarrow> n < 8" using bit_imp_le_length [of b n] by simp
      moreover have "n < 8 \<Longrightarrow> min 7 n = n" by simp
      ultimately show "bit (scast b AND mask 8 :: u64) n = bit (ucast b :: u64) n"
        by (auto simp: bit_simps)
    qed
  qed
  have u: "unat (ucast (of_nat k :: byte) :: u64) = k" if "k < 256" for k
    using that by (simp add: unsigned_ucast_eq unsigned_of_nat take_bit_nat_eq_self)
  have "i div 256 < 256" using i by (simp add: less_mult_imp_div_less)
  then have "unat (push_bit 8 (ucast (of_nat (i div 256) :: byte)) :: u64) = i div 256 * 256"
    using u [of "i div 256"] by (simp add: push_bit_eq_mult unat_word_ariths)
  then have "unat (push_bit 8 (ucast (of_nat (i div 256) :: byte)) + ucast (of_nat (i mod 256) :: byte) :: u64)
      = i div 256 * 256 + i mod 256"
    using i u [of "i mod 256"] by (subst unat_plus_small) auto
  then show ?thesis by (simp add: masked_index_def mask)
qed

lemma takeWhile_name: "0 \<notin> set (nm :: byte list) \<Longrightarrow> takeWhile (\<lambda>c. c \<noteq> 0) (nm @ 0 # tail) = nm"
  by (induction nm) auto

definition set_names :: "foundation \<Rightarrow> RKStringBufferEncoding \<Rightarrow> (nat \<times> byte list) list \<Rightarrow>
    string option list \<Rightarrow> string option list" where
  "set_names F enc entries names = fold (\<lambda>(i, nm) names. names[i := string_from_c F nm enc]) entries names"

lemma length_set_names: "length (set_names F enc entries names) = length names"
  unfolding set_names_def by (induction entries arbitrary: names) (auto split: prod.split)

lemma fill_names_correct:
  assumes "list_all (\<lambda>(i, nm). i < 65536 \<and> good_name n nm \<and> i < length names \<and> string_from_c F nm enc \<noteq> None) entries"
  shows "fill_names F enc (concat (map (encode_entry n) entries)) n (length entries) names
    = Ok (Some (set_names F enc entries names))"
  using assms
proof (induction entries arbitrary: names)
  case Nil
  then show ?case by (simp add: set_names_def)
next
  case (Cons e entries)
  obtain i nm where e: "e = (i, nm)" by (cases e)
  obtain s where p: "i < 65536" "good_name n nm" "i < length names" "string_from_c F nm enc = Some s"
    using Cons.prems by (auto simp: e)
  obtain m where m: "n - 2 - length nm = Suc m"
    using p(2) by (cases "n - 2 - length nm") (auto simp: good_name_def)
  have bytes: "encode_entry n e @ rest =
      of_nat (i div 256) # of_nat (i mod 256) # nm @ 0 # replicate m 0 @ rest" for rest
    using m by (simp add: encode_entry_def e)
  have dropped: "drop n (of_nat (i div 256) # of_nat (i mod 256) # nm @ 0 # replicate m 0 @ rest) = rest" for rest
    unfolding bytes [symmetric] using length_encode_entry [of n e] p(2) by (simp add: e)
  show ?case
    using Cons.IH [of "names[i := Some s]"] Cons.prems p takeWhile_name [of nm]
    by (simp add: bytes [unfolded e] dropped e masked_index_entry good_name_def set_names_def case_prod_beta list_all_iff)
qed

lemma nth_set_names:
  "distinct (map fst entries) \<Longrightarrow> (i, nm) \<in> set entries \<Longrightarrow> i < length names \<Longrightarrow>
    set_names F enc entries names ! i = string_from_c F nm enc"
proof (induction entries arbitrary: names)
  case (Cons e entries)
  obtain j m where e: "e = (j, m)" by (cases e)
  show ?case
  proof (cases "(i, nm) \<in> set entries")
    case True
    then show ?thesis using Cons by (simp add: set_names_def e)
  next
    case False
    then have "i = j" "nm = m" "i \<notin> fst ` set entries" using Cons.prems e by auto
    moreover have "i \<notin> fst ` set es \<Longrightarrow> set_names F enc es ns ! i = ns ! i" for es ns
      unfolding set_names_def by (induction es arbitrary: ns) (auto split: prod.split)
    ultimately show ?thesis using Cons.prems by (simp add: set_names_def e)
  qed
qed simp

text \<open>
  Names and indexes are inverse to each other: for a regex whose name array was filled from its
  name table, looking up the index of a name and then the name of that index gives the name back, for
  every capture below 128 (above, the lookup's index is the sign extended one).
\<close>

lemma capture_names_inverse:
  assumes "names_table regex entries" "distinct (map snd entries)" "distinct (map fst entries)" "unique_names regex"
    and "list_all (\<lambda>(i, nm). i < unat (captureCount regex) \<and> string_from_c F nm enc \<noteq> None) entries"
    and "fill_names F enc (captureNameTable regex) (captureNameLength regex) (captureNameTableLength regex)
      (replicate (unat (captureCount regex)) None) = Ok (captureNameArray regex)"
    and "(i, q) \<in> set entries" "i < 128"
  shows "run_bind (RKCaptureIndexForCaptureNameCharacters (Some regex) (q @ rest) (length q) None True)
      (captureNameForCaptureIndex regex) = Ok (string_from_c F q enc)"
proof -
  let ?init = "replicate (unat (captureCount regex)) None :: string option list"
  obtain k where k: "k < length entries" "entries ! k = (i, q)" using assms(7) by (auto simp: in_set_conv_nth)
  have q: "0 \<notin> set q" using name_entry_eq(2) [OF assms(1) k(1)] k(2) by (simp add: good_name_def)
  have "lookup_name entries q = Some i" using lookup_name_distinct [OF assms(2) k(1)] k(2) by simp
  then have found: "RKCaptureIndexForCaptureNameCharacters (Some regex) (q @ rest) (length q) None True = Ok (of_nat i)"
    using name_lookup [OF assms(1,2,4) q, of rest] assms(8)
    by (simp add: RKCaptureIndexForCaptureNameCharacters_def reported_index_small)
  have "list_all (\<lambda>(i, nm). i < 65536 \<and> good_name (captureNameLength regex) nm \<and> i < length ?init \<and>
      string_from_c F nm enc \<noteq> None) entries"
    using assms(1,5) by (auto simp: names_table_def list_all_iff)
  then have array: "captureNameArray regex = Some (set_names F enc entries ?init)"
    using fill_names_correct [of "captureNameLength regex" ?init F enc entries] assms(1,6)
    by (simp add: names_table_def)
  have i: "i < unat (captureCount regex)" using assms(5,7) by (auto simp: list_all_iff)
  have "(of_nat i :: u64) < captureCount regex"
    using i assms(8) by (simp add: word_less_nat_alt unat_of_nat_small)
  then show ?thesis
    using found i assms(8) nth_set_names [OF assms(3,7), of ?init F enc]
    by (simp add: captureNameForCaptureIndex_def array length_set_names unat_of_nat_small not_le)
qed

section \<open>Witnesses\<close>

definition ascii_code :: "string \<Rightarrow> byte list" where
  "ascii_code s = map (\<lambda>c. of_nat (of_char c)) s"

definition sample_foundation :: foundation where
  "sample_foundation = \<lparr>string_hash = (\<lambda>s. of_nat (length s)),
     string_buffer = (\<lambda>s. Ok (RKMakeStringBuffer (of_nat (length s)) (ascii_code s) (of_nat (length s)) EncodingUTF8)),
     string_from_c = (\<lambda>bs enc. Some (map (\<lambda>b. char_of (unat b)) bs))\<rparr>"

definition sample_pcre :: pcre_library where
  "sample_pcre = \<lparr>pcre_compile2 = (\<lambda>p opts. if p = [40] then (None, 14, 0) else (Some (length p), 0, 0)),
     pcre_study_ok = (\<lambda>h. True), info_capturecount = (\<lambda>h. Some 0), info_namecount = (\<lambda>h. Some 0),
     info_nameentrysize = (\<lambda>h. None), info_nametable = (\<lambda>h. None), info_jchanged = (\<lambda>h. Some 0),
     pcre_exec_fn = sample_exec\<rparr>"

definition ready_cache :: "'a RKCache" where
  "ready_cache = allocated_cache\<lparr>cacheMapTable := Some [], cacheIsEnabled := True, cacheAddingIsEnabled := True,
     cacheLookupIsEnabled := True\<rparr>"

lemma ready_cache_invar:
  "cache_invar ready_cache" "cache_serving ready_cache" "cache_accepting ready_cache" "cache_content ready_cache h = None"
  by (simp_all add: ready_cache_def allocated_cache_def rk_defs)

lemma compile_error_ranges_witness:
  "RKErrorForCompileInitFailure sample_buffer 8 14 0 1 1 =
    Ok \<lparr>regexStringErrorRange = NSMakeRange 3 2, truncatedRange = NSMakeRange 2 4,
         abreviatedErrorRange = NSMakeRange 2 2, compileErrorCode = 14, errorCompileOption = 0\<rparr>"
proof -
  have "w8 sample_text 3 \<le> 8" "8 < w8 sample_text (Suc 3) \<or> 8 = utf8_width sample_text \<and> Suc 3 = length sample_text"
    by (simp_all add: sample_eval)
  from compile_error_ranges [OF sample_holds _ this, of 14 0 1 1] show ?thesis
    by (simp add: sample_eval)
qed

lemma sample_build:
  "build_regex sample_foundation sample_pcre (Some ''ab'') True 0 =
    Ok (Some \<lparr>compiledPCRE = 2, regex_jchanged = Some 0, compiledRegexString = ''ab'', compileOption = 0,
      captureCount = 1, captureNameTable = [], captureNameTableLength = 0, captureNameLength = 0,
      captureNameArray = None, regex_hash = 2\<rparr>, None)"
  by (simp add: build_regex_def compiled_regex_def sample_foundation_def sample_pcre_def RKCompileErrorNoError_def
      RKMakeStringBuffer_def ascii_code_def RKHashForStringAndCompileOption_def)

theorem regex_from_string_transparent_witness:
  "fst (regex_from_string sample_foundation sample_pcre False ready_cache ''ab'' True 0) =
    build_regex sample_foundation sample_pcre (Some ''ab'') True 0"
proof -
  have "cache_built sample_foundation sample_pcre ready_cache" "no_collision sample_foundation ready_cache ''ab'' 0"
    by (simp_all add: cache_built_def no_collision_def ready_cache_invar)
  then show ?thesis using regex_from_string_transparent by blast
qed

lemma regex_cache_collision_witness:
  "let cache' = snd (regex_from_string sample_foundation sample_pcre True ready_cache ''ab'' True 0)
   in map_option compiledRegexString
     (case fst (regex_from_string sample_foundation sample_pcre True cache' ''c'' True 3) of Ok (r, e) \<Rightarrow> r | _ \<Rightarrow> None)
     = Some ''ab''"
proof -
  have "string_hash sample_foundation ''ab'' XOR ucast (0 :: u32) = string_hash sample_foundation ''c'' XOR ucast (3 :: u32)"
    by (simp add: sample_foundation_def)
  from regex_cache_collision [OF ready_cache_invar(1-3) this ready_cache_invar(4) sample_build] show ?thesis
    by (simp add: Let_def)
qed

lemma capture_names_inverse_witness:
  "run_bind (RKCaptureIndexForCaptureNameCharacters
        (Some ((named_regex 0 [(2, [97, 98])])\<lparr>captureNameArray := Some ((replicate 201 None)[2 := Some ''ab''])\<rparr>))
        ([97, 98] @ [0]) (length [97, 98 :: byte]) None True)
     (captureNameForCaptureIndex
        ((named_regex 0 [(2, [97, 98])])\<lparr>captureNameArray := Some ((replicate 201 None)[2 := Some ''ab''])\<rparr>))
   = Ok (Some ''ab'')"
proof -
  let ?r = "(named_regex 0 [(2, [97, 98])])\<lparr>captureNameArray := Some ((replicate 201 None)[2 := Some ''ab''])\<rparr>"
  have table: "names_table ?r [(2, [97, 98])]" and unique: "unique_names ?r"
    by (simp_all add: names_table_def named_regex_def good_name_def unique_names_def sample_regex_def)
  have decode: "string_from_c sample_foundation [97, 98] EncodingUTF8 = Some ''ab''"
    by code_simp
  have fill: "fill_names sample_foundation EncodingUTF8 (captureNameTable ?r) (captureNameLength ?r)
      (captureNameTableLength ?r) (replicate (unat (captureCount ?r)) None) = Ok (captureNameArray ?r)"
    using fill_names_correct [of 6 "replicate 201 None" sample_foundation EncodingUTF8 "[(2, [97, 98])]"] decode
    by (simp add: named_regex_def good_name_def set_names_def)
  show ?thesis
    using capture_names_inverse [OF table _ _ unique _ fill, of 2 "[97, 98]" "[0]"] decode
    by (simp add: named_regex_def)
qed

end
