(* ===== verification/RK_Reference.thy ===== *)
theory RK_Reference
  imports RK_CaptureNames
begin

text \<open>
  Capture references, \<open>RKParseReference\<close> of \<open>NSString.m\<close>: the syntax \<open>$1\<close>, \<open>${1}\<close>, \<open>${name}\<close> and
  \<open>${1:%d}\<close>, the resolution of a reference to a capture of a regex, the conversion of the captured text
  (the 32 bit integer conversions are done by the function itself, the others handed to the C library
  or to Foundation), and the error object with its ranges.
\<close>

section \<open>Characters\<close>

definition read_char :: "byte list \<Rightarrow> nat \<Rightarrow> byte run" where
  "read_char cs i = (case char_at cs i of None \<Rightarrow> Undefined | Some c \<Rightarrow> Ok c)"

definition is_digit :: "byte \<Rightarrow> bool" where
  "is_digit c \<longleftrightarrow> 0x30 \<le> c \<and> c \<le> 0x39"

definition is_name_char :: "byte \<Rightarrow> bool" where
  "is_name_char c \<longleftrightarrow> (0x61 \<le> c OR 0x20 \<and> c OR 0x20 \<le> 0x7a) \<or> c = 0x5f"

section \<open>Flags, errors, results\<close>

definition RKParseReferenceConversionAllowed :: u64 where "RKParseReferenceConversionAllowed = 0x1"
definition RKParseReferenceIgnoreConversion :: u64 where "RKParseReferenceIgnoreConversion = 0x2"
definition RKParseReferenceStrictReference :: u64 where "RKParseReferenceStrictReference = 0x4"
definition RKParseReferencePerformConversion :: u64 where "RKParseReferencePerformConversion = 0x8"
definition RKParseReferenceCheckCaptureName :: u64 where "RKParseReferenceCheckCaptureName = 0x10"

datatype RKParseErrorMessage =
    RKParseErrorNotValid
  | RKParseErrorTypeConversionNotPermitted
  | RKParseErrorConversionFormatNotValid
  | RKParseErrorConversionFormatValidBeginsWith
  | RKParseErrorUnbalancedCurlyBrackets
  | RKParseErrorNamedCaptureUndefined
  | RKParseErrorCaptureGreaterThanRegexCaptures
  | RKParseErrorStoragePointerNull
  | RKParseErrorUnknownTypeConversion
  | RKParseErrorNSNumberConversionNotValid

text \<open>
  The position variables of the function, as offsets from \<open>captureReferenceBuffer.characters\<close>:
  \<open>endOfCaptureReference\<close>, \<open>startOfCapture\<close>, \<open>endOfCapture\<close>, the conversion if there is one, and
  \<open>captureIndex\<close>, which is \<open>NSNotFound\<close> while the reference is a name.
\<close>

record reference_scan =
  end_reference :: nat
  start_capture :: nat
  end_capture :: nat
  scan_index :: u64
  conversion_span :: "(nat \<times> nat) option"

definition scanned :: "nat \<Rightarrow> nat \<Rightarrow> nat \<Rightarrow> u64 \<Rightarrow> (nat \<times> nat) option \<Rightarrow> reference_scan" where
  "scanned e s ec i conv =
     \<lparr>end_reference = e, start_capture = s, end_capture = ec, scan_index = i, conversion_span = conv\<rparr>"

section \<open>Scanning\<close>

text \<open>The fast paths: one digit, at the end of the string if the reference is strict.\<close>

definition ends_or_loose :: "byte list \<Rightarrow> nat \<Rightarrow> bool \<Rightarrow> bool run" where
  "ends_or_loose cs p strict = run_map (\<lambda>c. c = 0 \<or> \<not> strict) (read_char cs p)"

definition fast_digit :: "byte list \<Rightarrow> bool \<Rightarrow> bool run" where
  "fast_digit cs strict =
     run_bind (read_char cs 1) (\<lambda>c. if is_digit c then ends_or_loose cs 2 strict else Ok False)"

definition fast_braced :: "byte list \<Rightarrow> bool \<Rightarrow> bool run" where
  "fast_braced cs strict =
     run_bind (read_char cs 2) (\<lambda>c. if \<not> is_digit c then Ok False
       else run_bind (read_char cs 3) (\<lambda>d. if d \<noteq> 0x7d then Ok False else ends_or_loose cs 4 strict))"

definition digit_index :: "byte list \<Rightarrow> nat \<Rightarrow> u64" where
  "digit_index cs p = ucast (cs ! p) - 0x30"

text \<open>\<open>(endOfCaptureReference - characters) < (int)length\<close>: the length is truncated to 32 bits.\<close>

definition before_limit :: "nat \<Rightarrow> u64 \<Rightarrow> bool" where
  "before_limit p len \<longleftrightarrow> int p < sint (ucast len :: u32)"

lemma read_char_Ok: "read_char cs p = Ok c \<longleftrightarrow> p < length cs \<and> c = cs ! p \<or> p = length cs \<and> c = 0"
  by (auto simp: read_char_def char_at_def)

text \<open>
  The loop over the characters between the brackets: a number accumulates, modulo \<open>2 ^ 64\<close>, until a
  character that is not a digit makes the reference a name.
\<close>

function name_loop :: "byte list \<Rightarrow> u64 \<Rightarrow> nat \<Rightarrow> u64 \<Rightarrow> (nat \<times> u64) run" where
  "name_loop cs len p captureIndex =
     (if \<not> before_limit p len then Ok (p, captureIndex)
      else case read_char cs p of
        Ok c \<Rightarrow>
          if c = 0 \<or> c = 0x3a \<or> c = 0x7d then Ok (p, captureIndex)
          else if captureIndex \<noteq> NSNotFound \<and> is_digit c
          then name_loop cs len (Suc p) (captureIndex * 10 + (ucast c - 0x30))
          else if is_name_char c \<or> captureIndex = NSNotFound \<and> is_digit c
          then name_loop cs len (Suc p) NSNotFound
          else Ok (p, captureIndex)
      | Raise e \<Rightarrow> Raise e
      | Undefined \<Rightarrow> Undefined)"
  by pat_completeness auto
termination
  by (relation "measure (\<lambda>(cs, len, p, i). length cs + 1 - p)") (auto simp: read_char_Ok)

declare name_loop.simps [simp del]

text \<open>The loop that runs to the closing bracket, used for the conversion and to resynchronise.\<close>

function bracket_loop :: "byte list \<Rightarrow> u64 \<Rightarrow> nat \<Rightarrow> nat run" where
  "bracket_loop cs len p =
     (if \<not> before_limit p len then Ok p
      else case read_char cs p of
        Ok c \<Rightarrow> if c = 0 \<or> c = 0x7d then Ok p else bracket_loop cs len (Suc p)
      | Raise e \<Rightarrow> Raise e
      | Undefined \<Rightarrow> Undefined)"
  by pat_completeness auto
termination
  by (relation "measure (\<lambda>(cs, len, p). length cs + 1 - p)") (auto simp: read_char_Ok)

declare bracket_loop.simps [simp del]

text \<open>
  What follows the capture: a conversion, if one is allowed, then the closing bracket. With the bracket
  not there, the rest up to the next bracket decides which error is reported. (The test
  \<open>endOfBracket - startOfBracket == 0\<close> cannot succeed: the end is set behind the start.)
\<close>

definition scan_close ::
  "byte list \<Rightarrow> u64 \<Rightarrow> bool \<Rightarrow> nat \<Rightarrow> u64 \<Rightarrow> nat \<Rightarrow> (nat \<times> nat) option \<Rightarrow> (RKParseErrorMessage option \<times> reference_scan) run" where
  "scan_close cs len conversionAllowed endCapture captureIndex p conv =
     run_bind (read_char cs p) (\<lambda>c.
       if c = 0x7d then Ok (None, scanned (Suc p) 2 endCapture captureIndex conv)
       else run_bind (bracket_loop cs len p) (\<lambda>q.
         run_bind (read_char cs q) (\<lambda>d.
           if d = 0x7d
           then Ok (Some (if conversionAllowed then RKParseErrorConversionFormatNotValid else RKParseErrorNotValid),
                    scanned (Suc q) 2 endCapture captureIndex conv)
           else Ok (Some RKParseErrorUnbalancedCurlyBrackets, scanned q 2 endCapture captureIndex conv))))"

definition scan_braced ::
  "byte list \<Rightarrow> u64 \<Rightarrow> bool \<Rightarrow> bool \<Rightarrow> (RKParseErrorMessage option \<times> reference_scan) run" where
  "scan_braced cs len conversionAllowed ignoreConversion =
     run_bind (name_loop cs len 2 0) (\<lambda>(p, captureIndex).
       if p = 2 then Ok (Some RKParseErrorNotValid, scanned p 2 p captureIndex None)
       else run_bind (read_char cs p) (\<lambda>c.
         if c = 0x3a \<and> \<not> conversionAllowed \<and> \<not> ignoreConversion
         then Ok (Some RKParseErrorTypeConversionNotPermitted, scanned p 2 p captureIndex None)
         else if conversionAllowed \<and> c = 0x3a
         then run_bind (read_char cs (Suc p)) (\<lambda>d.
           if d = 0x25 \<or> d = 0x40
           then run_bind (bracket_loop cs len (Suc p)) (\<lambda>q.
             if q - Suc p = 1
             then Ok (Some RKParseErrorConversionFormatNotValid, scanned q 2 p captureIndex (Some (Suc p, q)))
             else scan_close cs len conversionAllowed p captureIndex q (Some (Suc p, q)))
           else Ok (Some RKParseErrorConversionFormatValidBeginsWith, scanned (Suc p) 2 p captureIndex None))
         else scan_close cs len conversionAllowed p captureIndex p None))"

text \<open>
  The whole scan. The first fast path is meant for \<open>\1\<close>, but its test is \<open>!= '\\'\<close>: it accepts any
  character but a backslash before the digit.
\<close>

definition scan_reference ::
  "byte list \<Rightarrow> u64 \<Rightarrow> bool \<Rightarrow> bool \<Rightarrow> bool \<Rightarrow> (RKParseErrorMessage option \<times> reference_scan) run" where
  "scan_reference cs len conversionAllowed ignoreConversion strictReference =
     run_bind (read_char cs 0) (\<lambda>c.
     run_bind (if c \<noteq> 0x5c then fast_digit cs strictReference else Ok False) (\<lambda>f1.
       if f1 then Ok (None, scanned 2 1 2 (digit_index cs 1) None)
       else if c \<noteq> 0x24 then Ok (Some RKParseErrorNotValid, scanned 0 0 0 0 None)
       else run_bind (fast_digit cs strictReference) (\<lambda>f2.
         if f2 then Ok (None, scanned 2 1 2 (digit_index cs 1) None)
         else run_bind (read_char cs 1) (\<lambda>d.
           if d \<noteq> 0x7b then Ok (Some RKParseErrorNotValid, scanned 0 0 0 0 None)
           else run_bind (fast_braced cs strictReference) (\<lambda>f3.
             if f3 then Ok (None, scanned 4 2 3 (digit_index cs 2) None)
             else scan_braced cs len conversionAllowed ignoreConversion)))))"

section \<open>Converting the captured text to an integer\<close>

definition is_space :: "byte \<Rightarrow> bool" where
  "is_space c \<longleftrightarrow> c = 0x20 \<or> 9 \<le> c \<and> c \<le> 13"

text \<open>\<open>*s++\<close> on the copied text, which ends in a NUL; the text itself may contain one.\<close>

definition next_char :: "byte list \<Rightarrow> byte \<times> byte list" where
  "next_char cs = (case cs of [] \<Rightarrow> (0, []) | c # rest \<Rightarrow> (c, rest))"

fun skip_spaces :: "byte list \<Rightarrow> byte \<times> byte list" where
  "skip_spaces [] = (0, [])"
| "skip_spaces (c # cs) = (if is_space c then skip_spaces cs else (c, cs))"

definition digit_value :: "byte \<Rightarrow> nat option" where
  "digit_value c =
     (if is_digit c then Some (unat c - 0x30)
      else if 0x41 \<le> c \<and> c \<le> 0x46 then Some (unat c - 0x37)
      else if 0x61 \<le> c \<and> c \<le> 0x66 then Some (unat c - 0x57)
      else None)"

text \<open>
  The digit loop. \<open>acc\<close> is the number so far; \<open>any\<close> is 0 before the first digit, 1 after it and -1 once
  the number is too large.
\<close>

fun digit_loop ::
  "nat \<Rightarrow> u32 \<Rightarrow> nat \<Rightarrow> byte \<Rightarrow> byte list \<Rightarrow> u32 \<Rightarrow> int \<Rightarrow> u32 \<times> int" where
  "digit_loop radix cutoff cutlim c rest acc any =
     (case digit_value c of
        None \<Rightarrow> (acc, any)
      | Some d \<Rightarrow>
          if radix \<le> d then (acc, any)
          else
            let (acc', any') =
                  (if any < 0 \<or> acc > cutoff \<or> acc = cutoff \<and> d > cutlim then (acc, -1)
                   else (acc * of_nat radix + of_nat d, 1))
            in (case rest of
                  [] \<Rightarrow> (acc', any')
                | c' # rest' \<Rightarrow>
                    if c' = 0 then (acc', any') else digit_loop radix cutoff cutlim c' rest' acc' any'))"

declare digit_loop.simps [simp del]

definition sign_of :: "byte \<Rightarrow> byte list \<Rightarrow> bool \<times> byte \<times> byte list" where
  "sign_of c rest =
     (if c = 0x2d then (True, next_char rest)
      else if c = 0x2b then (False, next_char rest) else (False, c, rest))"

definition base_of :: "byte \<Rightarrow> byte list \<Rightarrow> nat \<times> byte \<times> byte list" where
  "base_of c rest =
     (if c = 0x30 \<and> (fst (next_char rest) = 0x78 \<or> fst (next_char rest) = 0x58)
      then (16, next_char (snd (next_char rest)))
      else (if c = 0x30 then 8 else 10, c, rest))"

definition conversion_cutoff :: "bool \<Rightarrow> bool \<Rightarrow> nat \<Rightarrow> nat" where
  "conversion_cutoff unsignedConversion neg radix =
     (if unsignedConversion then 4294967295 div radix
      else (if neg then 2147483648 else 2147483647) div radix)"

definition conversion_cutlim :: "bool \<Rightarrow> bool \<Rightarrow> nat \<Rightarrow> nat" where
  "conversion_cutlim unsignedConversion neg radix =
     (if unsignedConversion then 4294967295 mod radix
      else conversion_cutoff unsignedConversion neg radix mod radix)"

definition convert_int :: "bool \<Rightarrow> byte list \<Rightarrow> u32" where
  "convert_int unsignedConversion txt =
     (let (c0, r0) = skip_spaces txt;
          (neg, c1, r1) = sign_of c0 r0;
          (radix, c2, r2) = base_of c1 r1;
          (acc, any) = digit_loop radix (of_nat (conversion_cutoff unsignedConversion neg radix))
                         (conversion_cutlim unsignedConversion neg radix) c2 r2 0 0
      in if any < 0 then (if unsignedConversion then 0xFFFFFFFF else if neg then 0x80000000 else 0x7FFFFFFF)
         else if neg then - acc else acc)"

section \<open>Conversions of a capture\<close>

text \<open>
  What a successful conversion stores through \<open>conversionPtr\<close>. For the conversions that the C library or
  Foundation performs, it is the call that is made: \<open>sscanf\<close> with the text and the format, the natural
  language date of the text, and the number formatter with one of its styles.
\<close>

datatype conversion_result =
    ConvertedInt u32
  | ConvertedString "byte list"
  | ConvertedScan "byte list" "byte list"
  | ConvertedDate "byte list"
  | ConvertedNumber "byte option" "byte list"

definition number_styles :: "byte list" where
  "number_styles = [0x2e, 0x24, 0x25, 0x73, 0x77]"

text \<open>The \<open>conversion\<close> here is the text from its first character, \<open>%\<close> or \<open>@\<close>, up to the bracket.\<close>

definition perform_conversion ::
  "bool \<Rightarrow> byte list \<Rightarrow> byte list option \<Rightarrow> (RKParseErrorMessage option \<times> conversion_result option) run" where
  "perform_conversion havePtr txt conversion =
     (case conversion of
        None \<Rightarrow> if havePtr then Ok (None, Some (ConvertedString txt)) else Undefined
      | Some fmt \<Rightarrow>
          if fmt = [] then Undefined
          else if fmt ! 0 = 0x25 then
            (if length fmt = 2 \<and> fmt ! 1 \<in> {0x75, 0x78, 0x58, 0x64, 0x69, 0x6f} then
               (if \<not> havePtr then Ok (Some RKParseErrorStoragePointerNull, None)
                else Ok (None, Some (ConvertedInt (convert_int (fmt ! 1 \<in> {0x75, 0x78, 0x58}) txt))))
             else Ok (None, Some (ConvertedScan txt fmt)))
          else if fmt ! 0 = 0x40 \<and> last fmt = 0x64 \<and> length fmt = 2
          then (if havePtr then Ok (None, Some (ConvertedDate txt)) else Undefined)
          else if fmt ! 0 = 0x40 \<and> last fmt = 0x6e \<and> length fmt = 2
          then (if havePtr then Ok (None, Some (ConvertedNumber None txt)) else Undefined)
          else if fmt ! 0 = 0x40 \<and> last fmt = 0x6e \<and> length fmt = 3
          then (if fmt ! 1 \<notin> set number_styles then Ok (Some RKParseErrorNSNumberConversionNotValid, None)
                else if havePtr then Ok (None, Some (ConvertedNumber (Some (fmt ! 1)) txt)) else Undefined)
          else Ok (Some RKParseErrorUnknownTypeConversion, None))"

section \<open>Resolving a reference\<close>

definition capture_is :: "ns_range list \<Rightarrow> u64 \<Rightarrow> ns_range run" where
  "capture_is ranges i = (if unat i < length ranges then Ok (ranges ! unat i) else Undefined)"

definition resolve_name ::
  "RKRegex \<Rightarrow> byte list \<Rightarrow> reference_scan \<Rightarrow> bool \<Rightarrow> bool \<Rightarrow> (RKParseErrorMessage option \<times> u64) run" where
  "resolve_name regex cs sc haveRanges checkCaptureName =
     (if scan_index sc \<noteq> NSNotFound then Ok (None, scan_index sc)
      else run_bind (RKCaptureIndexForCaptureNameCharactersWithError (Some regex)
                       (drop (start_capture sc) cs @ [0]) (end_capture sc - start_capture sc) None)
        (\<lambda>(captureIndex, nameError).
           if (captureIndex = NSNotFound \<or> nameError \<noteq> None) \<and> (haveRanges \<or> checkCaptureName)
           then Ok (Some RKParseErrorNamedCaptureUndefined, captureIndex)
           else Ok (None, captureIndex)))"

definition span_of :: "byte list \<Rightarrow> (nat \<times> nat) option \<Rightarrow> byte list option" where
  "span_of cs conv = map_option (\<lambda>(a, b). take (b - a) (drop a cs)) conv"

definition resolve_reference ::
  "RKRegex \<Rightarrow> byte list \<Rightarrow> reference_scan \<Rightarrow> RKStringBuffer option \<Rightarrow> ns_range list option \<Rightarrow> bool \<Rightarrow> bool \<Rightarrow> bool \<Rightarrow>
     (RKParseErrorMessage option \<times> u64 \<times> conversion_result option) run" where
  "resolve_reference regex cs sc subject ranges performConversion checkCaptureName havePtr =
     run_bind (resolve_name regex cs sc (ranges \<noteq> None) checkCaptureName) (\<lambda>(err, captureIndex).
       if err \<noteq> None then Ok (err, captureIndex, None)
       else if captureIndex = NSNotFound then Ok (None, captureIndex, None)
       else if captureIndex \<ge> captureCount regex
       then Ok (Some RKParseErrorCaptureGreaterThanRegexCaptures, captureIndex, None)
       else if \<not> performConversion then Ok (None, captureIndex, None)
       else (case (ranges, subject) of
           (Some rs, Some sub) \<Rightarrow>
             run_bind (capture_is rs captureIndex) (\<lambda>r.
               if range_location r = NSNotFound then Ok (None, captureIndex, None)
               else if \<not> NSMaxRange r \<le> buffer_length sub then Raise NSInternalInconsistencyException
               else run_map (\<lambda>(e, v). (e, captureIndex, v))
                 (perform_conversion havePtr
                    (take (unat (range_length r)) (drop (unat (range_location r)) (buffer_characters sub)))
                    (span_of cs (conversion_span sc))))
         | _ \<Rightarrow> Undefined))"

section \<open>The whole function\<close>

text \<open>The error object: its ranges are in UTF-16 units, the last one relative to the whole string.\<close>

record reference_error =
  error_message :: RKParseErrorMessage
  captureReferenceRange :: ns_range
  captureRange :: ns_range
  conversionRange :: ns_range
  referenceRange :: ns_range
  errorCaptureIndex :: u64

definition reference_error_object ::
  "RKStringBuffer \<Rightarrow> RKStringBuffer \<Rightarrow> u64 \<Rightarrow> RKParseErrorMessage \<Rightarrow> reference_scan \<Rightarrow> u64 \<Rightarrow> reference_error run" where
  "reference_error_object referenceBuffer captureReferenceBuffer loc message sc captureIndex =
     (let utf16 = (\<lambda>b r. RKConvertUTF8ToUTF16RangeForStringBuffer (Some b) r);
          whole = of_nat (end_reference sc)
      in run_bind (utf16 captureReferenceBuffer (NSMakeRange 0 whole)) (\<lambda>r1.
         run_bind (utf16 captureReferenceBuffer
             (NSMakeRange (of_nat (start_capture sc)) (of_nat (end_capture sc) - of_nat (start_capture sc)))) (\<lambda>r2.
         run_bind (utf16 referenceBuffer (NSMakeRange loc whole)) (\<lambda>r3.
         run_bind (case conversion_span sc of None \<Rightarrow> Ok range_not_found
                   | Some (a, b) \<Rightarrow> utf16 captureReferenceBuffer (NSMakeRange (of_nat a) (of_nat b - of_nat a))) (\<lambda>r4.
           Ok \<lparr>error_message = message, captureReferenceRange = r1, captureRange = r2, conversionRange = r4,
               referenceRange = r3, errorCaptureIndex = captureIndex\<rparr>)))))"

record reference_result =
  successfulParse :: bool
  parsedRange :: ns_range
  parsedReferenceRange :: ns_range
  parsedReferenceUInteger :: u64
  conversion_stored :: "conversion_result option"
  parseError :: "reference_error option"

definition reference_result_of ::
  "reference_scan \<Rightarrow> u64 \<Rightarrow> conversion_result option \<Rightarrow> reference_error option \<Rightarrow> reference_result" where
  "reference_result_of sc captureIndex stored err =
     \<lparr>successfulParse = (err = None), parsedRange = NSMakeRange 0 (of_nat (end_reference sc)),
      parsedReferenceRange = NSMakeRange (of_nat (start_capture sc)) (of_nat (end_capture sc) - of_nat (start_capture sc)),
      parsedReferenceUInteger = captureIndex, conversion_stored = stored, parseError = err\<rparr>"

definition parse_flag :: "u64 \<Rightarrow> u64 \<Rightarrow> bool" where
  "parse_flag parseReferenceOptions flag \<longleftrightarrow> parseReferenceOptions AND flag \<noteq> 0"

definition RKParseReference ::
  "RKStringBuffer \<Rightarrow> ns_range \<Rightarrow> RKStringBuffer option \<Rightarrow> ns_range list option \<Rightarrow> RKRegex \<Rightarrow> bool \<Rightarrow> u64 \<Rightarrow>
     reference_result run" where
  "RKParseReference referenceBuffer refRange subject ranges regex havePtr opts =
     (if unat (range_location refRange) > length (buffer_characters referenceBuffer) then Undefined
      else
        let cs = drop (unat (range_location refRange)) (buffer_characters referenceBuffer);
            captureReferenceBuffer = RKMakeStringBuffer (buffer_string_length referenceBuffer) cs
              (range_length refRange) (buffer_encoding referenceBuffer);
            failed = (\<lambda>sc captureIndex message.
              run_map (\<lambda>e. reference_result_of sc captureIndex None (Some e))
                (reference_error_object referenceBuffer captureReferenceBuffer (range_location refRange) message sc captureIndex))
        in run_bind (scan_reference cs (range_length refRange)
                       (parse_flag opts RKParseReferenceConversionAllowed)
                       (parse_flag opts RKParseReferenceIgnoreConversion)
                       (parse_flag opts RKParseReferenceStrictReference)) (\<lambda>(err, sc).
             case err of
               Some message \<Rightarrow> failed sc (scan_index sc) message
             | None \<Rightarrow>
                 run_bind (resolve_reference regex cs sc subject ranges
                             (parse_flag opts RKParseReferencePerformConversion)
                             (parse_flag opts RKParseReferenceCheckCaptureName) havePtr) (\<lambda>(err', captureIndex, stored).
                   case err' of
                     Some message \<Rightarrow> failed sc captureIndex message
                   | None \<Rightarrow> Ok (reference_result_of sc captureIndex stored None))))"

section \<open>The integer conversion\<close>

definition digit_char :: "nat \<Rightarrow> byte" where
  "digit_char d = of_nat (if d < 10 then 0x30 + d else 0x57 + d)"

definition digits_value :: "nat \<Rightarrow> nat \<Rightarrow> nat list \<Rightarrow> nat" where
  "digits_value radix start ds = foldl (\<lambda>a d. a * radix + d) start ds"

text \<open>What may follow a number: nothing, a NUL, or a character that is no digit of the base.\<close>

definition ends_number :: "nat \<Rightarrow> byte list \<Rightarrow> bool" where
  "ends_number radix rest =
     (case rest of [] \<Rightarrow> True | c # _ \<Rightarrow>
        (case digit_value c of None \<Rightarrow> True | Some d \<Rightarrow> radix \<le> d))"

lemma digit_chars: "list_all (\<lambda>d. digit_value (digit_char d) = Some d \<and> digit_char d \<noteq> 0) [0..<16]"
  by code_simp

lemma digit_value_char: "d < 16 \<Longrightarrow> digit_value (digit_char d) = Some d \<and> digit_char d \<noteq> 0"
  using digit_chars by (simp add: list_all_iff)

lemma digits_value_simps [simp]:
  "digits_value radix a [] = a"
  "digits_value radix a (d # ds) = digits_value radix (a * radix + d) ds"
  by (simp_all add: digits_value_def)

lemma digits_value_ge: "0 < radix \<Longrightarrow> a \<le> digits_value radix a ds"
proof (induction ds arbitrary: a)
  case (Cons d ds)
  have "a \<le> a * radix + d" using Cons.prems by (cases radix) auto
  then show ?case using Cons by (metis digits_value_simps(2) le_trans)
qed simp

lemma digit_loop_stuck:
  "any < 0 \<Longrightarrow> snd (digit_loop radix cutoff cutlim c rest acc any) < 0"
proof (induction rest arbitrary: c any)
  case Nil
  then show ?case by (subst digit_loop.simps) (simp split: option.split)
next
  case (Cons c' rest)
  show ?case
    by (subst digit_loop.simps) (use Cons in \<open>simp split: option.split\<close>)
qed

lemma over_limit_iff:
  assumes "d < radix" "cutlim < (radix :: nat)"
  shows "cutoff < a \<or> a = cutoff \<and> cutlim < d \<longleftrightarrow> cutoff * radix + cutlim < a * radix + d"
proof -
  consider "a < cutoff" | "a = cutoff" | "cutoff < a" by linarith
  then show ?thesis
  proof cases
    case 1
    then have "Suc a * radix \<le> cutoff * radix" by (intro mult_le_mono1) simp
    then show ?thesis using 1 assms by simp
  next
    case 3
    then have "Suc cutoff * radix \<le> a * radix" by (intro mult_le_mono1) simp
    then show ?thesis using 3 assms by simp
  qed simp
qed

lemma over_limit_words:
  assumes "d < radix" "cutlim < radix" "cutoff * radix + cutlim \<le> 4294967295" "a \<le> cutoff * radix + cutlim"
  shows "(of_nat a :: u32) > of_nat cutoff \<or> (of_nat a :: u32) = of_nat cutoff \<and> d > cutlim \<longleftrightarrow>
    cutoff * radix + cutlim < a * radix + d"
proof -
  have "cutoff \<le> cutoff * radix" using assms(1) by (cases radix) auto
  then have "a < 4294967296" "cutoff < 4294967296" using assms(3,4) by linarith+
  then show ?thesis
    using over_limit_iff [OF assms(1,2), of cutoff a]
    by (simp add: word_less_nat_alt word_unat_eq_iff unat_of_nat)
qed

lemma digit_loop_value:
  assumes "radix \<le> 16" "0 < radix" "cutlim < radix" "cutoff * radix + cutlim \<le> 4294967295"
    and "ends_number radix tail"
  shows "a \<le> cutoff * radix + cutlim \<Longrightarrow> 0 \<le> any \<Longrightarrow> list_all (\<lambda>x. x < radix) (d # ds) \<Longrightarrow>
    (let v = digits_value radix a (d # ds);
         result = digit_loop radix (of_nat cutoff) cutlim (digit_char d) (map digit_char ds @ tail) (of_nat a) any
     in if v \<le> cutoff * radix + cutlim then result = (of_nat v, 1) else snd result < 0)"
proof (induction ds arbitrary: a any d)
  case Nil
  have d: "digit_value (digit_char d) = Some d" "d < radix"
    using Nil assms(1) digit_value_char [of d] by auto
  note over = over_limit_words [OF d(2) assms(3,4) Nil(1)]
  have stop: "digit_loop radix (of_nat cutoff) cutlim c r acc any = (acc, any)" if "tail = c # r" for c r acc any
    using assms(5) that by (subst digit_loop.simps) (auto simp: ends_number_def split: option.split)
  show ?case
    using d Nil(2) over stop digit_loop_stuck [of "-1"]
    by (subst digit_loop.simps) (auto simp: Let_def not_le split: list.split)
next
  case (Cons e ds)
  have d: "digit_value (digit_char d) = Some d" "d < radix" "digit_char e \<noteq> 0"
    using Cons.prems(3) assms(1) digit_value_char [of d] digit_value_char [of e] by auto
  note over = over_limit_words [OF d(2) assms(3,4) Cons.prems(1)]
  show ?case
  proof (cases "cutoff * radix + cutlim < a * radix + d")
    case True
    then have "cutoff * radix + cutlim < digits_value radix a (d # e # ds)"
      using digits_value_ge [OF assms(2), of "a * radix + d" "e # ds"] by simp
    then show ?thesis
      using d over True digit_loop_stuck [of "-1"]
      by (subst digit_loop.simps) (simp add: Let_def not_le)
  next
    case False
    then show ?thesis
      using d over Cons.IH [of "a * radix + d" 1 e] Cons.prems(2,3)
      by (subst digit_loop.simps) (auto simp: Let_def)
  qed
qed

text \<open>The bound up to which the code converts exactly.\<close>

definition conversion_limit :: "bool \<Rightarrow> bool \<Rightarrow> nat \<Rightarrow> nat" where
  "conversion_limit unsignedConversion neg radix =
     (if unsignedConversion then 4294967295
      else if radix = 10 then 2147483644 else if neg then 2147483648 else 2147483647)"

definition radix_prefix :: "nat \<Rightarrow> byte list" where
  "radix_prefix radix = (if radix = 16 then [0x30, 0x78] else if radix = 8 then [0x30] else [])"

definition sign_prefix :: "bool \<Rightarrow> byte list" where
  "sign_prefix neg = (if neg then [0x2d] else [])"

lemma conversion_limit_eq:
  assumes "radix \<in> {8, 10, 16}"
  shows "conversion_cutoff u neg radix * radix + conversion_cutlim u neg radix = conversion_limit u neg radix"
    "conversion_cutlim u neg radix < radix"
  using assms by (auto simp: conversion_cutoff_def conversion_cutlim_def conversion_limit_def)

lemma digit_char_simps:
  "is_space 0x2d = False" "is_space 0x30 = False" "is_space 0 = False"
  by (simp_all add: is_space_def)

lemma digit_char_not:
  "list_all (\<lambda>d. \<not> is_space (digit_char d) \<and> digit_char d \<noteq> 0x2d \<and> digit_char d \<noteq> 0x2b \<and>
     digit_char d \<noteq> 0x78 \<and> digit_char d \<noteq> 0x58 \<and> (digit_char d = 0x30 \<longleftrightarrow> d = 0)) [0..<16]"
  by code_simp

lemma digit_char_plain:
  "d < 16 \<Longrightarrow> \<not> is_space (digit_char d)" "d < 16 \<Longrightarrow> digit_char d \<noteq> 0x2d" "d < 16 \<Longrightarrow> digit_char d \<noteq> 0x2b"
  "d < 16 \<Longrightarrow> digit_char d \<noteq> 0x78" "d < 16 \<Longrightarrow> digit_char d \<noteq> 0x58" "d < 16 \<Longrightarrow> digit_char d = 0x30 \<longleftrightarrow> d = 0"
  using digit_char_not by (auto simp: list_all_iff)

text \<open>Where the digit loop starts, for each of the three bases and either sign.\<close>

lemma octal_zero: "digit_char 0 = 0x30"
  by (simp add: digit_char_def)

lemma base_of_digits:
  assumes "radix \<in> {8, 10, 16}" "list_all (\<lambda>x. x < radix) (d # ds)" "radix = 10 \<longrightarrow> d \<noteq> 0"
  shows "\<exists>c r. radix_prefix radix @ map digit_char (d # ds) @ tail = c # r \<and>
      \<not> is_space c \<and> c \<noteq> 0x2d \<and> c \<noteq> 0x2b \<and>
      base_of c r = (radix, (if radix = 8 then (0x30, map digit_char (d # ds) @ tail)
        else (digit_char d, map digit_char ds @ tail)))"
proof -
  have d: "d < radix" "d < 16" using assms(1,2) by auto
  note plain = digit_char_plain [OF d(2)]
  from assms(1) consider "radix = 8" | "radix = 10" | "radix = 16" by auto
  then show ?thesis
  proof cases
    case 2
    then show ?thesis using plain assms(3) by (simp add: radix_prefix_def base_of_def)
  qed (use plain in \<open>simp_all add: radix_prefix_def base_of_def next_char_def digit_char_simps\<close>)
qed

lemma convert_int_digits:
  assumes "radix \<in> {8, 10, 16}" "list_all (\<lambda>x. x < radix) (d # ds)" "radix = 10 \<longrightarrow> d \<noteq> 0"
    and "ends_number radix tail"
  shows "convert_int u (sign_prefix neg @ radix_prefix radix @ map digit_char (d # ds) @ tail) =
    (let v = digits_value radix 0 (d # ds) in
     if v \<le> conversion_limit u neg radix then (if neg then - of_nat v else of_nat v)
     else if u then 0xFFFFFFFF else if neg then 0x80000000 else 0x7FFFFFFF)"
proof -
  define cutoff cutlim where "cutoff = conversion_cutoff u neg radix" and "cutlim = conversion_cutlim u neg radix"
  have lim: "cutoff * radix + cutlim = conversion_limit u neg radix" "cutlim < radix"
      "cutoff * radix + cutlim \<le> 4294967295"
    using conversion_limit_eq [OF assms(1), of u neg]
    by (auto simp: cutoff_def cutlim_def conversion_limit_def)
  obtain c r where cr: "radix_prefix radix @ map digit_char (d # ds) @ tail = c # r" "\<not> is_space c" "c \<noteq> 0x2d" "c \<noteq> 0x2b"
      "base_of c r = (radix, (if radix = 8 then (0x30, map digit_char (d # ds) @ tail)
        else (digit_char d, map digit_char ds @ tail)))"
    using base_of_digits [OF assms(1-3)] by blast
  obtain c0 r0 where start: "skip_spaces (sign_prefix neg @ c # r) = (c0, r0)" "sign_of c0 r0 = (neg, c, r)"
    using cr(2-4) by (cases neg) (auto simp: sign_prefix_def digit_char_simps sign_of_def next_char_def)
  obtain c2 r2 where loop: "base_of c r = (radix, c2, r2)"
      "(c2, r2) = (if radix = 8 then (0x30, map digit_char (d # ds) @ tail)
        else (digit_char d, map digit_char ds @ tail))"
    using cr(5) by (cases "if radix = 8 then (0x30, map digit_char (d # ds) @ tail)
        else (digit_char d, map digit_char ds @ tail)") auto
  define result where "result =
    digit_loop radix (of_nat cutoff) cutlim (digit_char d) (map digit_char ds @ tail) 0 0"
  define start8 where "start8 =
    digit_loop radix (of_nat cutoff) cutlim (digit_char 0) (map digit_char (d # ds) @ tail) 0 0"
  note rad = assms(1)
  have pos: "radix \<le> 16" "0 < radix" using rad by auto
  have val: "(if radix = 8 then start8 else result) = (of_nat (digits_value radix 0 (d # ds)), 1)"
    if "digits_value radix 0 (d # ds) \<le> conversion_limit u neg radix"
    using digit_loop_value [OF pos(1,2) lim(2,3) assms(4), of 0 0 d ds]
      digit_loop_value [OF pos(1,2) lim(2,3) assms(4), of 0 0 0 "d # ds"] assms(2) that lim(1) pos
    by (auto simp: result_def start8_def Let_def)
  have big: "snd (if radix = 8 then start8 else result) < 0"
    if "\<not> digits_value radix 0 (d # ds) \<le> conversion_limit u neg radix"
    using digit_loop_value [OF pos(1,2) lim(2,3) assms(4), of 0 0 d ds]
      digit_loop_value [OF pos(1,2) lim(2,3) assms(4), of 0 0 0 "d # ds"] assms(2) that lim(1) pos
    by (auto simp: result_def start8_def Let_def)
  have "digit_loop radix (of_nat cutoff) cutlim c2 r2 0 0 = (if radix = 8 then start8 else result)"
    using loop(2) by (auto simp: result_def start8_def octal_zero split: if_splits)
  then have "convert_int u (sign_prefix neg @ c # r) =
      (case (if radix = 8 then start8 else result) of (acc, any) \<Rightarrow>
        if any < 0 then (if u then 0xFFFFFFFF else if neg then 0x80000000 else 0x7FFFFFFF)
        else if neg then - acc else acc)"
    unfolding convert_int_def start Let_def prod.case start(2) loop(1) cutoff_def cutlim_def by simp
  then show ?thesis
    unfolding cr(1) using val big
    by (cases "digits_value radix 0 (d # ds) \<le> conversion_limit u neg radix") (auto simp: Let_def case_prod_beta)
qed

text \<open>
  C38. The inline integer conversion behind \<open>%d\<close>, \<open>%i\<close>, \<open>%o\<close>, \<open>%u\<close>, \<open>%x\<close> and \<open>%X\<close>: the number is read in
  the base its own prefix announces, up to the first character that does not belong to it, and is exact
  up to a limit above which it saturates. The limit is that of the type, except for signed decimal
  numbers, where it is three too small: the code takes the remainder of the quotient and not of the bound.
\<close>

theorem reference_integer_conversion:
  assumes "radix \<in> {8, 10, 16}" "list_all (\<lambda>x. x < radix) (d # ds)" "radix = 10 \<longrightarrow> d \<noteq> 0"
    and "ends_number radix tail"
  shows "convert_int u (sign_prefix neg @ radix_prefix radix @ map digit_char (d # ds) @ tail) =
    (let v = digits_value radix 0 (d # ds) in
     if v \<le> conversion_limit u neg radix then (if neg then - of_nat v else of_nat v)
     else if u then 0xFFFFFFFF else if neg then 0x80000000 else 0x7FFFFFFF)"
  using assms by (rule convert_int_digits)

theorem reference_integer_conversion_witness:
  "convert_int False [0x32, 0x31, 0x34, 0x37, 0x34, 0x38, 0x33, 0x36, 0x34, 0x35, 0x20] = 0x7FFFFFFF \<and>
   convert_int True [0x30, 0x78, 0x66, 0x66] = 255"
proof
  have "ends_number 10 [0x20]" by code_simp
  then show "convert_int False [0x32, 0x31, 0x34, 0x37, 0x34, 0x38, 0x33, 0x36, 0x34, 0x35, 0x20] = 0x7FFFFFFF"
    using reference_integer_conversion [of 10 2 "[1, 4, 7, 4, 8, 3, 6, 4, 5]" "[0x20]" False False]
    by (simp add: sign_prefix_def radix_prefix_def digit_char_def conversion_limit_def)
  show "convert_int True [0x30, 0x78, 0x66, 0x66] = 255"
    using reference_integer_conversion [of 16 15 "[15]" "[]" True False]
    by (simp add: sign_prefix_def radix_prefix_def digit_char_def conversion_limit_def ends_number_def)
qed

section \<open>Scanning stays inside the string and makes progress\<close>

lemma name_loop_ok:
  "p \<le> length cs \<Longrightarrow> \<exists>q j. name_loop cs len p i = Ok (q, j) \<and> p \<le> q \<and> q \<le> length cs \<and>
     list_all (\<lambda>c. c \<noteq> 0) (take (q - p) (drop p cs))"
proof (induction cs len p i rule: name_loop.induct)
  case (1 cs len p i)
  have step: "\<exists>q j. name_loop cs len (Suc p) i' = Ok (q, j) \<and> p \<le> q \<and> q \<le> length cs \<and>
      list_all (\<lambda>c. c \<noteq> 0) (take (q - p) (drop p cs))"
    if h: "\<exists>q j. name_loop cs len (Suc p) i' = Ok (q, j) \<and> Suc p \<le> q \<and> q \<le> length cs \<and>
      list_all (\<lambda>c. c \<noteq> 0) (take (q - Suc p) (drop (Suc p) cs))" "p < length cs" "cs ! p \<noteq> 0" for i'
  proof -
    obtain q j where q: "name_loop cs len (Suc p) i' = Ok (q, j)" "Suc p \<le> q" "q \<le> length cs"
        "list_all (\<lambda>c. c \<noteq> 0) (take (q - Suc p) (drop (Suc p) cs))" using h(1) by blast
    have "take (q - p) (drop p cs) = cs ! p # take (q - Suc p) (drop (Suc p) cs)"
      using h(2) q(2) by (metis Cons_nth_drop_Suc Suc_diff_le diff_Suc_Suc take_Suc_Cons)
    then show ?thesis using q h(3) by (intro exI [of _ q] exI [of _ j]) simp
  qed
  have "p < length cs \<or> p = length cs" using "1.prems" by auto
  then show ?case
  proof
    assume p: "p < length cs"
    then have r: "read_char cs p = Ok (cs ! p)" by (simp add: read_char_Ok)
    show ?thesis
      by (subst (1) name_loop.simps)
        (use r p step [OF "1.IH"(1)] step [OF "1.IH"(2)] in \<open>auto simp: Suc_le_eq\<close>)
  next
    assume p: "p = length cs"
    then have "read_char cs p = Ok 0" by (simp add: read_char_Ok)
    then show ?thesis using p by (subst (1) name_loop.simps) auto
  qed
qed

lemma bracket_loop_ok: "p \<le> length cs \<Longrightarrow> \<exists>q. bracket_loop cs len p = Ok q \<and> p \<le> q \<and> q \<le> length cs"
proof (induction cs len p rule: bracket_loop.induct)
  case (1 cs len p)
  have "p < length cs \<or> p = length cs" using "1.prems" by auto
  then show ?case
  proof
    assume p: "p < length cs"
    then have "read_char cs p = Ok (cs ! p)" by (simp add: read_char_Ok)
    then show ?thesis
      using "1.IH" p by (subst bracket_loop.simps) (fastforce simp: Suc_le_eq)
  next
    assume p: "p = length cs"
    then have "read_char cs p = Ok 0" by (simp add: read_char_Ok)
    then show ?thesis using p by (subst bracket_loop.simps) auto
  qed
qed

text \<open>Where a scan may end, for references that end well and for those in error.\<close>

definition good_scan :: "byte list \<Rightarrow> RKParseErrorMessage option \<Rightarrow> reference_scan \<Rightarrow> bool" where
  "good_scan cs err sc \<longleftrightarrow>
     end_reference sc \<le> length cs \<and> start_capture sc \<le> end_capture sc \<and> end_capture sc \<le> end_reference sc \<and>
     (case conversion_span sc of None \<Rightarrow> True | Some (a, b) \<Rightarrow> a \<le> b \<and> b \<le> length cs) \<and>
     (err = None \<longrightarrow> 2 \<le> end_reference sc \<and>
        list_all (\<lambda>c. c \<noteq> 0) (take (end_capture sc - start_capture sc) (drop (start_capture sc) cs)))"

lemma read_char_exists: "p \<le> length cs \<Longrightarrow> \<exists>c. read_char cs p = Ok c \<and> (c \<noteq> 0 \<longrightarrow> p < length cs)"
  by (cases "p = length cs") (auto simp: read_char_def char_at_def)

lemma scan_close_ok:
  assumes "2 < e" "e \<le> p" "p \<le> length cs" "list_all (\<lambda>c. c \<noteq> 0) (take (e - 2) (drop 2 cs))"
    and "case conv of None \<Rightarrow> True | Some (a, b) \<Rightarrow> a \<le> b \<and> b \<le> length cs"
  shows "\<exists>err sc. scan_close cs len ca e i p conv = Ok (err, sc) \<and> good_scan cs err sc"
proof -
  obtain c where c: "read_char cs p = Ok c" "c \<noteq> 0 \<longrightarrow> p < length cs" using read_char_exists [OF assms(3)] by blast
  obtain q where q: "bracket_loop cs len p = Ok q" "p \<le> q" "q \<le> length cs" using bracket_loop_ok [OF assms(3)] by blast
  obtain d where d: "read_char cs q = Ok d" "d \<noteq> 0 \<longrightarrow> q < length cs" using read_char_exists [OF q(3)] by blast
  show ?thesis
    using c q d assms by (auto simp: scan_close_def good_scan_def scanned_def)
qed

lemma scan_braced_ok:
  assumes "2 \<le> length cs"
  shows "\<exists>err sc. scan_braced cs len ca ig = Ok (err, sc) \<and> good_scan cs err sc"
proof -
  obtain p i where p: "name_loop cs len 2 0 = Ok (p, i)" "2 \<le> p" "p \<le> length cs"
      "list_all (\<lambda>c. c \<noteq> 0) (take (p - 2) (drop 2 cs))" using name_loop_ok [OF assms] by blast
  obtain c where c: "read_char cs p = Ok c" "c \<noteq> 0 \<longrightarrow> p < length cs" using read_char_exists [OF p(3)] by blast
  show ?thesis
  proof (cases "p = 2 \<or> c \<noteq> 0x3a \<or> \<not> ca")
    case True
    then show ?thesis
      using p c scan_close_ok [of p p cs None len ca i]
      by (cases "p = 2") (auto simp: scan_braced_def good_scan_def scanned_def)
  next
    case False
    then have sp: "Suc p \<le> length cs" using c by auto
    obtain d where d: "read_char cs (Suc p) = Ok d" using read_char_exists [OF sp] by blast
    obtain q where q: "bracket_loop cs len (Suc p) = Ok q" "Suc p \<le> q" "q \<le> length cs"
      using bracket_loop_ok [OF sp] by blast
    show ?thesis
      using False p c d q sp scan_close_ok [of p q cs "Some (Suc p, q)" len ca i]
      by (auto simp: scan_braced_def good_scan_def scanned_def)
  qed
qed

lemma fast_digit_ok:
  assumes "cs \<noteq> []" shows "\<exists>f. fast_digit cs st = Ok f \<and> (f \<longrightarrow> 2 \<le> length cs \<and> cs ! 1 \<noteq> 0)"
proof -
  obtain c where c: "read_char cs 1 = Ok c" "c \<noteq> 0 \<longrightarrow> 1 < length cs" "c = 0 \<or> c = cs ! 1"
    using assms read_char_exists [of 1 cs] read_char_Ok [of cs 1] by (cases cs) force+
  show ?thesis
    using c read_char_exists [of 2 cs] by (cases "c = 0") (auto simp: fast_digit_def ends_or_loose_def is_digit_def)
qed

lemma fast_braced_ok:
  assumes "2 \<le> length cs" shows "\<exists>f. fast_braced cs st = Ok f \<and> (f \<longrightarrow> 4 \<le> length cs \<and> cs ! 2 \<noteq> 0)"
proof -
  obtain c where c: "read_char cs 2 = Ok c" "c \<noteq> 0 \<longrightarrow> 2 < length cs" "c = 0 \<or> c = cs ! 2"
    using assms read_char_exists [of 2 cs] read_char_Ok [of cs 2] by force
  show ?thesis
  proof (cases "c = 0")
    case True
    then show ?thesis using c by (intro exI [of _ False]) (simp add: fast_braced_def is_digit_def)
  next
    case False
    obtain d where d: "read_char cs 3 = Ok d" "d \<noteq> 0 \<longrightarrow> 3 < length cs" using c(2) False read_char_exists [of 3 cs] by auto
    show ?thesis
      using c d False read_char_exists [of 4 cs] by (cases "d = 0") (auto simp: fast_braced_def ends_or_loose_def)
  qed
qed

lemma scan_reference_ok:
  assumes "cs \<noteq> []"
  shows "\<exists>err sc. scan_reference cs len ca ig st = Ok (err, sc) \<and> good_scan cs err sc"
proof -
  obtain f where f: "fast_digit cs st = Ok f" "f \<longrightarrow> 2 \<le> length cs \<and> cs ! 1 \<noteq> 0"
    using fast_digit_ok [OF assms] by blast
  have c: "read_char cs 0 = Ok (cs ! 0)" using assms by (simp add: read_char_Ok)
  have take1: "2 \<le> length cs \<Longrightarrow> take (Suc 0) (drop (Suc 0) cs) = [cs ! 1]"
    by (cases cs; cases "tl cs") auto
  have take2: "4 \<le> length cs \<Longrightarrow> take (Suc 0) (drop 2 cs) = [cs ! 2]"
    by (simp add: take_Suc_conv_app_nth hd_drop_conv_nth take_Suc)
  obtain d where d: "read_char cs 1 = Ok d" "d \<noteq> 0 \<longrightarrow> 1 < length cs"
    using assms read_char_exists [of 1 cs] by (cases cs) force+
  show ?thesis
  proof (cases "d = 0x7b")
    case False
    then show ?thesis using f c d take1 by (cases f) (auto simp: scan_reference_def good_scan_def scanned_def)
  next
    case True
    then have l: "2 \<le> length cs" using d by simp
    obtain g where g: "fast_braced cs st = Ok g" "g \<longrightarrow> 4 \<le> length cs \<and> cs ! 2 \<noteq> 0"
      using fast_braced_ok [OF l] by blast
    obtain err sc where b: "scan_braced cs len ca ig = Ok (err, sc)" "good_scan cs err sc"
      using scan_braced_ok [OF l] by blast
    show ?thesis
      using f c d True g b take1 take2
      by (cases f; cases g; cases "cs ! 0 = 0x24") (auto simp: scan_reference_def good_scan_def scanned_def)
  qed
qed

section \<open>References in a template\<close>

text \<open>The flags and arguments with which a replacement template parses its references.\<close>

definition template_flags :: u64 where
  "template_flags = RKParseReferenceIgnoreConversion OR RKParseReferenceCheckCaptureName"

definition parse_in_template :: "RKStringBuffer \<Rightarrow> u64 \<Rightarrow> RKRegex \<Rightarrow> reference_result run" where
  "parse_in_template b loc regex =
     RKParseReference b (NSMakeRange loc (buffer_length b - loc)) None None regex False template_flags"

lemma template_flag_simps [simp]:
  "parse_flag template_flags RKParseReferenceConversionAllowed = False"
  "parse_flag template_flags RKParseReferenceIgnoreConversion = True"
  "parse_flag template_flags RKParseReferenceStrictReference = False"
  "parse_flag template_flags RKParseReferencePerformConversion = False"
  "parse_flag template_flags RKParseReferenceCheckCaptureName = True"
  by (simp_all add: parse_flag_def template_flags_def RKParseReferenceConversionAllowed_def
      RKParseReferenceIgnoreConversion_def RKParseReferenceStrictReference_def
      RKParseReferencePerformConversion_def RKParseReferenceCheckCaptureName_def)

definition addressable :: "RKStringBuffer \<Rightarrow> bool" where
  "addressable b \<longleftrightarrow> valid_buffer b \<and> unat (buffer_length b) + 6 \<le> 2 ^ 32"

lemma error_object_ok:
  assumes "addressable b" "unat loc \<le> length (buffer_characters b)"
    and cs: "cs = drop (unat loc) (buffer_characters b)" and good: "good_scan cs err sc"
  shows "is_ok (reference_error_object b (RKMakeStringBuffer str cs (buffer_length b - loc) (buffer_encoding b))
    loc message sc captureIndex)"
proof -
  let ?c = "RKMakeStringBuffer str cs (buffer_length b - loc) (buffer_encoding b)"
  have len: "unat (buffer_length b) = length (buffer_characters b)" "length (buffer_characters b) + 6 \<le> 4294967296"
    using assms(1) by (auto simp: addressable_def valid_buffer_def)
  have rest: "unat (buffer_length b - loc) = length cs"
    using len assms(2) by (simp add: cs unat_minus_small word_le_nat_alt)
  have c: "valid_buffer ?c" "unat (buffer_length ?c) + 6 \<le> 2 ^ 32"
    using rest len cs by (auto simp: valid_buffer_def RKMakeStringBuffer_def)
  have small: "length cs < 2 ^ 64" using rest unat_lt64 [of "buffer_length b - loc"] by simp
  have inner: "is_ok (RKConvertUTF8ToUTF16RangeForStringBuffer (Some ?c) (NSMakeRange (of_nat i) (of_nat j - of_nat i)))"
    if "i \<le> j" "j \<le> length cs" for i j
  proof (rule utf8_range_ok [OF c])
    have le: "j - i < 2 ^ 64" "i < 2 ^ 64" using that small by simp_all
    note unat_of_nat_small [OF le(1)] unat_of_nat_small [OF le(2)]
    then show "range_end (NSMakeRange (of_nat i) (of_nat j - of_nat i)) \<le> unat (buffer_length ?c)"
      unfolding of_nat_minus64 [OF that(1)] range_end_def NSMakeRange_sel
      using that rest by (simp add: RKMakeStringBuffer_def)
  qed
  have whole: "is_ok (RKConvertUTF8ToUTF16RangeForStringBuffer (Some b) (NSMakeRange loc (of_nat j)))"
    if "j \<le> length cs" for j
  proof (rule utf8_range_ok)
    show "range_end (NSMakeRange loc (of_nat j)) \<le> unat (buffer_length b)"
      using that small len assms(2) by (simp add: range_end_def unat_of_nat_small cs)
  qed (use assms(1) in \<open>simp_all add: addressable_def\<close>)
  have j: "end_reference sc \<le> length cs" "start_capture sc \<le> end_capture sc" "end_capture sc \<le> length cs"
    using good by (auto simp: good_scan_def)
  have conv: "is_ok (case conversion_span sc of None \<Rightarrow> Ok range_not_found
     | Some (a, b) \<Rightarrow> RKConvertUTF8ToUTF16RangeForStringBuffer (Some ?c) (NSMakeRange (of_nat a) (of_nat b - of_nat a)))"
    using good inner by (auto simp: good_scan_def split: option.splits)
  show ?thesis
    using inner [of 0 "end_reference sc"] inner [OF j(2,3)] whole [OF j(1)] conv j(1)
    by (auto simp: reference_error_object_def Let_def is_ok_iff)
qed

text \<open>The error and the index a well ended scan stands for: its number, or what its name means.\<close>

definition named_index :: "(nat \<times> byte list) list \<Rightarrow> byte list \<Rightarrow> reference_scan \<Rightarrow> RKParseErrorMessage option \<times> u64" where
  "named_index entries cs sc =
     (if scan_index sc \<noteq> NSNotFound then (None, scan_index sc)
      else case lookup_name entries (take (end_capture sc - start_capture sc) (drop (start_capture sc) cs)) of
        Some i \<Rightarrow> (if reported_index i = NSNotFound then Some RKParseErrorNamedCaptureUndefined else None, reported_index i)
      | None \<Rightarrow> (Some RKParseErrorNamedCaptureUndefined, NSNotFound))"

definition checked_index :: "RKRegex \<Rightarrow> RKParseErrorMessage option \<times> u64 \<Rightarrow> RKParseErrorMessage option \<times> u64" where
  "checked_index regex p =
     (if fst p = None \<and> captureCount regex \<le> snd p then (Some RKParseErrorCaptureGreaterThanRegexCaptures, snd p) else p)"

lemma resolve_name_eq:
  assumes names: "names_table regex entries" "distinct (map snd entries)" "unique_names regex"
    and good: "good_scan cs None sc"
  shows "resolve_name regex cs sc haveRanges True = Ok (named_index entries cs sc)"
proof -
  define n where "n = end_capture sc - start_capture sc"
  define q where "q = take n (drop (start_capture sc) cs)"
  have q: "drop (start_capture sc) cs @ [0] = q @ drop n (drop (start_capture sc) cs) @ [0]" "length q = n" "0 \<notin> set q"
    using good unfolding append_assoc [symmetric] q_def append_take_drop_id
    by (auto simp: n_def good_scan_def list_all_iff)
  show ?thesis
    using name_lookup [OF names q(3), of "drop n (drop (start_capture sc) cs) @ [0]"] q
    by (simp add: resolve_name_def named_index_def n_def [symmetric] q_def [symmetric] split: option.split)
qed

lemma named_index_found: "fst (named_index entries cs sc) = None \<Longrightarrow> snd (named_index entries cs sc) \<noteq> NSNotFound"
  by (auto simp: named_index_def split: if_splits option.splits)

lemma error_object_message:
  "reference_error_object x y l m z i = Ok e \<Longrightarrow> error_message e = m"
  by (auto simp: reference_error_object_def run_simps Let_def)

lemma template_parse:
  assumes "addressable b" "unat loc < length (buffer_characters b)"
    and names: "names_table regex entries" "distinct (map snd entries)" "unique_names regex"
    and cs: "cs = drop (unat loc) (buffer_characters b)"
    and scan: "scan_reference cs (buffer_length b - loc) False True False = Ok (err, sc)"
  shows "\<exists>r. parse_in_template b loc regex = Ok r \<and>
      (map_option error_message (parseError r), parsedReferenceUInteger r) =
        (if err \<noteq> None then (err, scan_index sc) else checked_index regex (named_index entries cs sc)) \<and>
      successfulParse r = (parseError r = None) \<and>
      parsedRange r = NSMakeRange 0 (of_nat (end_reference sc))"
proof -
  have here: "cs \<noteq> []" "unat loc \<le> length (buffer_characters b)" "\<not> unat loc > length (buffer_characters b)"
    using assms(2) cs by auto
  have good: "good_scan cs err sc" using scan_reference_ok [OF here(1), of "buffer_length b - loc" False True False] scan by auto
  let ?c = "RKMakeStringBuffer (buffer_string_length b) cs (buffer_length b - loc) (buffer_encoding b)"
  have failed: "\<exists>e. reference_error_object b ?c loc m sc i = Ok e \<and> error_message e = m" for m i
    using error_object_ok [OF assms(1) here(2) cs good] error_object_message unfolding is_ok_iff by blast
  show ?thesis
  proof (cases err)
    case (Some m)
    obtain e where "reference_error_object b ?c loc m sc (scan_index sc) = Ok e" "error_message e = m"
      using failed by blast
    then show ?thesis using scan Some here(3) cs
      by (simp add: parse_in_template_def RKParseReference_def Let_def reference_result_of_def)
  next
    case None
    obtain e i where p: "checked_index regex (named_index entries cs sc) = (e, i)" by force
    have res: "resolve_reference regex cs sc None None False True False = Ok (e, i, None)"
      using p named_index_found [of entries cs sc] resolve_name_eq [OF names good [unfolded None], of False]
      by (auto simp: resolve_reference_def checked_index_def case_prod_beta split: if_splits)
    show ?thesis
    proof (cases e)
      case (Some m)
      obtain ob where "reference_error_object b ?c loc m sc i = Ok ob" "error_message ob = m" using failed by blast
      then show ?thesis using scan None here(3) cs res p Some
        by (simp add: parse_in_template_def RKParseReference_def Let_def reference_result_of_def)
    qed (use scan None here(3) cs res p in
        \<open>simp add: parse_in_template_def RKParseReference_def Let_def reference_result_of_def\<close>)
  qed
qed

text \<open>
  C30. Parsing a reference inside a template is safe on arbitrary text: wherever the reference starts,
  the function reads nothing behind the end of the string, always returns, and when it succeeds the
  reference ends inside the string, at least two characters on, and stands for an existing capture.
\<close>

theorem template_reference_safe:
  assumes "addressable b" "unat loc < length (buffer_characters b)"
    and "names_table regex entries" "distinct (map snd entries)" "unique_names regex"
  shows "case parse_in_template b loc regex of
      Ok r \<Rightarrow>
        if successfulParse r then
          2 \<le> unat (range_length (parsedRange r)) \<and>
          unat loc + unat (range_length (parsedRange r)) \<le> length (buffer_characters b) \<and>
          parsedReferenceUInteger r < captureCount regex
        else parseError r \<noteq> None
    | Raise e \<Rightarrow> False
    | Undefined \<Rightarrow> False"
proof -
  define cs where "cs = drop (unat loc) (buffer_characters b)"
  have ne: "cs \<noteq> []" using assms(2) by (simp add: cs_def)
  obtain err sc where sc: "scan_reference cs (buffer_length b - loc) False True False = Ok (err, sc)" "good_scan cs err sc"
    using scan_reference_ok [OF ne] by blast
  have len: "end_reference sc \<le> length cs" "length cs < 2 ^ 64" "err = None \<Longrightarrow> 2 \<le> end_reference sc"
    using sc(2) assms(1) by (auto simp: good_scan_def cs_def addressable_def valid_buffer_def)
  then have u: "unat (of_nat (end_reference sc) :: u64) = end_reference sc" by (intro unat_of_nat_small) simp
  have inside: "unat loc + end_reference sc \<le> length (buffer_characters b)" using len(1) assms(2) by (simp add: cs_def)
  obtain e i where "named_index entries cs sc = (e, i)" by force
  then show ?thesis
    using template_parse [OF assms cs_def sc(1)] len(3) u inside
    by (auto simp: checked_index_def not_le split: if_splits)
qed

section \<open>What a bracketed reference means\<close>

datatype reference_body = Number "nat list" | Name "byte list"

fun body_text :: "reference_body \<Rightarrow> byte list" where
  "body_text (Number ds) = map digit_char ds"
| "body_text (Name q) = q"

text \<open>Any number below \<open>NSNotFound\<close>, leading zeros allowed; any identifier.\<close>

fun good_body :: "reference_body \<Rightarrow> bool" where
  "good_body (Number ds) \<longleftrightarrow> ds \<noteq> [] \<and> list_all (\<lambda>d. d < 10) ds \<and> digits_value 10 0 ds < 9223372036854775807"
| "good_body (Name q) \<longleftrightarrow> q \<noteq> [] \<and> is_name_char (hd q) \<and> list_all (\<lambda>c. is_name_char c \<or> is_digit c) q"

fun body_index :: "(nat \<times> byte list) list \<Rightarrow> reference_body \<Rightarrow> RKParseErrorMessage option \<times> u64" where
  "body_index entries (Number ds) = (None, of_nat (digits_value 10 0 ds))"
| "body_index entries (Name q) =
     (case lookup_name entries q of Some i \<Rightarrow> (None, of_nat i)
      | None \<Rightarrow> (Some RKParseErrorNamedCaptureUndefined, NSNotFound))"

text \<open>
  What the code makes of any bracketed reference. A number is taken modulo \<open>2 ^ 64\<close>; but as soon as the
  digits read so far make \<open>NSNotFound\<close>, the code takes them and the rest for a name.
\<close>

fun body_ok :: "reference_body \<Rightarrow> bool" where
  "body_ok (Number ds) \<longleftrightarrow> ds \<noteq> [] \<and> list_all (\<lambda>d. d < 10) ds"
| "body_ok (Name q) \<longleftrightarrow> q \<noteq> [] \<and> is_name_char (hd q) \<and> list_all (\<lambda>c. is_name_char c \<or> is_digit c) q"

definition taken_for_name :: "nat list \<Rightarrow> bool" where
  "taken_for_name ds \<longleftrightarrow>
     list_ex (\<lambda>n. digits_value 10 0 (take n ds) mod 2 ^ 64 = 9223372036854775807) [0..<Suc (length ds)]"

definition name_meaning :: "(nat \<times> byte list) list \<Rightarrow> byte list \<Rightarrow> RKParseErrorMessage option \<times> u64" where
  "name_meaning entries q =
     (case lookup_name entries q of Some i \<Rightarrow> (None, reported_index i)
      | None \<Rightarrow> (Some RKParseErrorNamedCaptureUndefined, NSNotFound))"

fun body_meaning :: "(nat \<times> byte list) list \<Rightarrow> reference_body \<Rightarrow> RKParseErrorMessage option \<times> u64" where
  "body_meaning entries (Number ds) =
     (if taken_for_name ds then name_meaning entries (map digit_char ds) else (None, of_nat (digits_value 10 0 ds)))"
| "body_meaning entries (Name q) = name_meaning entries q"

lemma good_body_ok: "good_body body \<Longrightarrow> body_ok body"
  by (cases body) simp_all

lemma name_chars:
  "list_all (\<lambda>n. is_name_char (of_nat n) \<longrightarrow> of_nat n \<noteq> (0 :: byte) \<and> of_nat n \<noteq> (0x3a :: byte) \<and>
      of_nat n \<noteq> (0x7d :: byte) \<and> \<not> is_digit (of_nat n)) [0..<256]"
  by code_simp

lemma name_char_plain:
  "is_name_char c \<Longrightarrow> c \<noteq> 0 \<and> c \<noteq> 0x3a \<and> c \<noteq> 0x7d \<and> \<not> is_digit c"
proof -
  have "unat c < 256" using unsigned_less [of c, where 'a = nat] by simp
  then have "is_name_char (of_nat (unat c)) \<longrightarrow> of_nat (unat c) \<noteq> (0 :: byte) \<and> of_nat (unat c) \<noteq> (0x3a :: byte) \<and>
      of_nat (unat c) \<noteq> (0x7d :: byte) \<and> \<not> is_digit (of_nat (unat c))"
    using name_chars unfolding list_all_iff by (metis atLeastLessThan_iff set_upt zero_le)
  then show "is_name_char c \<Longrightarrow> c \<noteq> 0 \<and> c \<noteq> 0x3a \<and> c \<noteq> 0x7d \<and> \<not> is_digit c" by simp
qed

lemma digit_plain: "is_digit c \<Longrightarrow> c \<noteq> 0 \<and> c \<noteq> 0x3a \<and> c \<noteq> 0x7d"
  by (auto simp: is_digit_def)

lemma decimal_digit: "d < 10 \<Longrightarrow> is_digit (digit_char d) \<and> ucast (digit_char d) - 0x30 = (of_nat d :: u64)"
proof -
  have "list_all (\<lambda>d. is_digit (digit_char d) \<and> ucast (digit_char d) - 0x30 = (of_nat d :: u64)) [0..<10]" by code_simp
  then show "d < 10 \<Longrightarrow> ?thesis" by (simp add: list_all_iff)
qed

lemma before_limit_iff: "unat len < 2147483648 \<Longrightarrow> before_limit p len \<longleftrightarrow> p < unat len"
proof -
  assume len: "unat len < 2147483648"
  then have "unat (ucast len :: u32) = unat len" by (simp add: unsigned_ucast_eq take_bit_nat_eq_self)
  then have u: "uint (ucast len :: u32) = uint len" by (metis uint_nat)
  have r: "uint len < 2147483648" "- 2147483648 \<le> uint len"
    unfolding uint_nat using len by linarith+
  then have "sint (ucast len :: u32) = uint len"
    unfolding sint_uint u using signed_take_bit_int_eq_self [of 31 "uint len"] by simp
  then show "before_limit p len \<longleftrightarrow> p < unat len" by (simp add: before_limit_def uint_nat del: of_nat_unat)
qed

lemma drop_Cons_nth: "drop p cs = c # r \<Longrightarrow> p < length cs \<and> cs ! p = c \<and> drop (Suc p) cs = r"
  by (metis drop_Suc drop_eq_Nil2 drop_tl list.distinct(1) list.sel(3) not_le nth_via_drop)

definition read_digit :: "u64 \<Rightarrow> nat \<Rightarrow> u64" where
  "read_digit i d = (if i = NSNotFound then NSNotFound else i * 10 + of_nat d)"

lemma name_loop_number:
  assumes "unat len < 2147483648" "unat len = length cs" "t = 0x7d \<or> t = 0x3a"
  shows "drop p cs = map digit_char ds @ t # post \<Longrightarrow> list_all (\<lambda>d. d < 10) ds \<Longrightarrow>
    name_loop cs len p i = Ok (p + length ds, foldl read_digit i ds)"
proof (induction ds arbitrary: p i)
  case Nil
  then have "p < length cs" "cs ! p = t" using drop_Cons_nth [of p cs] by simp_all
  then show ?case
    using Nil assms by (subst name_loop.simps) (auto simp: before_limit_iff read_char_def char_at_def)
next
  case (Cons d ds)
  then have p: "p < length cs" "cs ! p = digit_char d" "drop (Suc p) cs = map digit_char ds @ t # post"
    using drop_Cons_nth [of p cs] by simp_all
  have d: "is_digit (digit_char d)" "ucast (digit_char d) - 0x30 = (of_nat d :: u64)"
    using Cons.prems(2) decimal_digit [of d] by auto
  have "name_loop cs len p i = name_loop cs len (Suc p) (read_digit i d)"
    using p d digit_plain [OF d(1)] assms(1,2)
    by (subst name_loop.simps) (simp add: before_limit_iff read_char_def char_at_def read_digit_def)
  then show ?case using Cons.IH [OF p(3)] Cons.prems(2) by simp
qed

lemma of_nat_NSNotFound: "(of_nat v :: u64) = NSNotFound \<longleftrightarrow> v mod 2 ^ 64 = 9223372036854775807"
  by (simp add: NSNotFound_def RKIntegerMax_def word_unat_eq_iff unat_of_nat take_bit_eq_mod)

lemma taken_for_name_iff:
  "taken_for_name ds \<longleftrightarrow> (\<exists>n \<le> length ds. digits_value 10 0 (take n ds) mod 2 ^ 64 = 9223372036854775807)"
  unfolding taken_for_name_def list_ex_iff set_upt atLeastLessThanSuc_atLeastAtMost by auto

lemma read_digits:
  "foldl read_digit 0 ds = (if taken_for_name ds then NSNotFound else of_nat (digits_value 10 0 ds))"
proof (induction ds rule: rev_induct)
  case (snoc d ds)
  have ext: "digits_value 10 0 (ds @ [d]) = digits_value 10 0 ds * 10 + d" by (simp add: digits_value_def)
  have cut: "taken_for_name (ds @ [d]) \<longleftrightarrow>
      taken_for_name ds \<or> digits_value 10 0 (ds @ [d]) mod 2 ^ 64 = 9223372036854775807"
    unfolding taken_for_name_iff by (auto simp: le_Suc_eq)
  have "\<not> taken_for_name ds \<Longrightarrow> (of_nat (digits_value 10 0 ds) :: u64) \<noteq> NSNotFound"
    unfolding of_nat_NSNotFound taken_for_name_iff by (metis order_refl take_all)
  then show ?case
    using snoc of_nat_NSNotFound [of "digits_value 10 0 (ds @ [d])"]
    by (auto simp: read_digit_def cut ext)
qed (simp add: taken_for_name_def)

lemma small_not_name: "digits_value 10 0 ds < 9223372036854775807 \<Longrightarrow> \<not> taken_for_name ds"
proof -
  assume small: "digits_value 10 0 ds < 9223372036854775807"
  have "digits_value 10 0 (take n ds) \<le> digits_value 10 0 ds" for n
  proof -
    have "digits_value 10 0 ds = digits_value 10 (digits_value 10 0 (take n ds)) (drop n ds)"
      by (metis append_take_drop_id digits_value_def foldl_append)
    then show ?thesis using digits_value_ge [of 10] by simp
  qed
  then have "digits_value 10 0 (take n ds) mod 2 ^ 64 < 9223372036854775807" for n
    using small by (metis le_less_trans mod_less_eq_dividend)
  then show ?thesis unfolding taken_for_name_iff by (metis less_irrefl)
qed

lemma name_loop_name:
  assumes "unat len < 2147483648" "unat len = length cs" "t = 0x7d \<or> t = 0x3a"
  shows "drop p cs = q @ t # post \<Longrightarrow> list_all (\<lambda>c. is_name_char c \<or> is_digit c) q \<Longrightarrow>
    name_loop cs len p NSNotFound = Ok (p + length q, NSNotFound)"
proof (induction q arbitrary: p)
  case Nil
  then have "p < length cs" "cs ! p = t" using drop_Cons_nth [of p cs] by simp_all
  then show ?case
    using Nil assms by (subst name_loop.simps) (auto simp: before_limit_iff read_char_def char_at_def)
next
  case (Cons c q)
  then have p: "p < length cs" "cs ! p = c" "drop (Suc p) cs = q @ t # post"
    using drop_Cons_nth [of p cs] by simp_all
  have "name_loop cs len p NSNotFound = name_loop cs len (Suc p) NSNotFound"
    using p Cons.prems(2) digit_plain [of c] name_char_plain [of c] assms(1,2)
    by (subst name_loop.simps) (auto simp: before_limit_iff read_char_def char_at_def)
  then show ?case using Cons.IH [OF p(3)] Cons.prems by simp
qed

text \<open>A bracketed reference up to its closing bracket or its colon: the loop, and the fast path of one digit.\<close>

definition body_number :: "reference_body \<Rightarrow> u64" where
  "body_number body = (case body of Number ds \<Rightarrow> foldl read_digit 0 ds | Name q \<Rightarrow> NSNotFound)"

lemma good_number: "good_body (Number ds) \<Longrightarrow> body_number (Number ds) = of_nat (digits_value 10 0 ds)"
  using small_not_name [of ds] by (simp add: body_number_def read_digits)

lemma body_not_empty: "body_ok body \<Longrightarrow> body_text body \<noteq> []"
  by (cases body) auto

lemma body_chars: "body_ok body \<Longrightarrow> c \<in> set (body_text body) \<Longrightarrow> c \<noteq> 0x7d \<and> c \<noteq> 0"
  using name_char_plain digit_plain decimal_digit by (cases body) (fastforce simp: list_all_iff)+

lemma body_loop:
  assumes "unat len < 2147483648" "unat len = length cs" "t = 0x7d \<or> t = 0x3a"
    and cs: "cs = [0x24, 0x7b] @ body_text body @ t # post" and good: "body_ok body"
  shows "name_loop cs len 2 0 = Ok (length (body_text body) + 2, body_number body)"
proof (cases body)
  case (Number ds)
  then show ?thesis
    using name_loop_number [OF assms(1-3), of 2 ds post 0] good by (simp add: cs body_number_def)
next
  case (Name q)
  then obtain c r where q: "q = c # r" "is_name_char c" "list_all (\<lambda>c. is_name_char c \<or> is_digit c) r"
    using good by (cases q) auto
  have two: "read_char cs 2 = Ok c" by (simp add: cs Name q(1) read_char_def char_at_def)
  have "name_loop cs len 2 0 = name_loop cs len 3 NSNotFound"
    using name_char_plain [OF q(2)] q(1,2) two Name assms(1,2)
    by (subst name_loop.simps) (simp add: before_limit_iff cs numeral_3_eq_3 numeral_2_eq_2)
  also have "\<dots> = Ok (length q + 2, NSNotFound)"
    using name_loop_name [OF assms(1-3), of 3 r post] q Name by (simp add: cs)
  finally show ?thesis using Name by (simp add: body_number_def)
qed

lemma body_fast:
  assumes cs: "cs = [0x24, 0x7b] @ body_text body @ t # post" and good: "body_ok body"
    and fast: "fast_braced cs st = Ok True"
  shows "length (body_text body) = 1" "digit_index cs 2 = body_number body" "t = 0x7d"
proof -
  let ?t = "body_text body"
  have t: "?t \<noteq> []" using body_not_empty [OF good] .
  have two: "read_char cs 2 = Ok (hd ?t)"
    using t by (cases ?t) (simp_all add: cs read_char_def char_at_def)
  have d: "is_digit (hd ?t)" using fast two by (simp add: fast_braced_def split: if_splits)
  have "read_char cs 3 = Ok 0x7d"
    using fast two d by (auto simp: fast_braced_def run_simps split: if_splits)
  then have at: "cs ! 3 = 0x7d" by (auto simp: read_char_Ok)
  then show one: "length ?t = 1"
    using body_chars [OF good] t by (cases ?t; cases "tl ?t") (auto simp: cs)
  then show "t = 0x7d" using at by (cases ?t) (simp_all add: cs)
  obtain d where body: "body = Number [d]" "d < 10"
    using one d good name_char_plain by (cases body) (auto simp: length_Suc_conv list_all_iff)
  then show "digit_index cs 2 = body_number body"
    using decimal_digit [of d] by (simp add: digit_index_def cs body_number_def read_digit_def NSNotFound_def RKIntegerMax_def)
qed

lemma scan_body:
  assumes "unat len < 2147483648" "unat len = length cs"
    and cs: "cs = [0x24, 0x7b] @ body_text body @ [0x7d] @ post" and good: "body_ok body"
  shows "scan_reference cs len False True False =
    Ok (None, scanned (length (body_text body) + 3) 2 (length (body_text body) + 2) (body_number body) None)"
proof -
  let ?t = "body_text body"
  have at: "read_char cs 0 = Ok 0x24" "read_char cs 1 = Ok 0x7b" "read_char cs (length ?t + 2) = Ok 0x7d"
    by (simp_all add: cs read_char_def char_at_def nth_append)
  have nodigit: "fast_digit cs False = Ok False" using at by (simp add: fast_digit_def is_digit_def)
  have cs': "cs = [0x24, 0x7b] @ ?t @ 0x7d # post" by (simp add: cs)
  have slow: "scan_braced cs len False True = Ok (None, scanned (Suc (length ?t + 2)) 2 (length ?t + 2) (body_number body) None)"
    using body_loop [OF assms(1,2) _ cs' good] at(3) body_not_empty [OF good]
    by (simp add: scan_braced_def scan_close_def)
  obtain g where g: "fast_braced cs False = Ok g"
    using fast_braced_ok [of cs False] by (auto simp: cs)
  show ?thesis
    using at(1,2) nodigit g slow body_fast [OF cs' good, of False]
    by (cases g) (simp_all add: scan_reference_def scanned_def)
qed

lemma lookup_name_in: "lookup_name entries q = Some i \<Longrightarrow> (i, q) \<in> set entries"
  unfolding lookup_name_def by (drule map_of_SomeD) auto

text \<open>A capture number is never mistaken for \<open>NSNotFound\<close>, whatever its sign extension makes of it.\<close>

lemma reported_not_NSNotFound: "i < 65536 \<Longrightarrow> reported_index i \<noteq> NSNotFound"
proof -
  assume i: "i < 65536"
  define k where "k = int i - (if i mod 256 < 128 then 0 else 256) - (if i div 256 < 128 then 0 else 65536)"
  have k: "- 9223372036854775808 \<le> k" "k < 9223372036854775807" using i by (simp_all add: k_def)
  have "reported_index i = word_of_int k" by (simp add: reported_index_def k_def)
  then have "sint (reported_index i) = k"
    using k signed_take_bit_int_eq_self [of 63 k] by (simp add: signed_of_int)
  moreover have "sint NSNotFound = 9223372036854775807" by (simp add: NSNotFound_def RKIntegerMax_def)
  ultimately show ?thesis using k by auto
qed

lemma bracketed_body_parses:
  assumes "addressable b" "length (buffer_characters b) < 2147483648"
    and shape: "buffer_characters b = pre @ [0x24, 0x7b] @ body_text body @ [0x7d] @ post" "body_ok body"
    and names: "names_table regex entries" "distinct (map snd entries)" "unique_names regex"
  shows "run_map (\<lambda>r. ((map_option error_message (parseError r), parsedReferenceUInteger r), parsedRange r))
      (parse_in_template b (of_nat (length pre)) regex) =
    Ok (checked_index regex (body_meaning entries body), NSMakeRange 0 (of_nat (length (body_text body) + 3)))"
proof -
  define cs where "cs = drop (unat (of_nat (length pre) :: u64)) (buffer_characters b)"
  define len where "len = buffer_length b - of_nat (length pre)"
  have total: "length pre < length (buffer_characters b)" "unat (buffer_length b) = length (buffer_characters b)"
    using assms(1) by (simp_all add: shape(1) addressable_def valid_buffer_def)
  have u: "unat (of_nat (length pre) :: u64) = length pre"
    by (rule unat_of_nat_small) (use total(1) assms(2) in simp)
  have cs: "cs = [0x24, 0x7b] @ body_text body @ [0x7d] @ post" by (simp add: cs_def u shape(1))
  have "unat len = length cs"
    using total u by (simp add: len_def cs_def unat_minus_small word_le_nat_alt)
  moreover have "length cs < 2147483648" using assms(2) by (simp add: cs_def)
  moreover define sc where "sc = scanned (length (body_text body) + 3) 2 (length (body_text body) + 2) (body_number body) None"
  ultimately have sc: "scan_reference cs len False True False = Ok (None, sc)"
      "end_reference sc = length (body_text body) + 3" "start_capture sc = 2" "end_capture sc = length (body_text body) + 2"
      "scan_index sc = body_number body"
    using scan_body [OF _ _ cs shape(2), of len] by (simp_all add: sc_def scanned_def)
  have found: "reported_index i \<noteq> NSNotFound" if "lookup_name entries q = Some i" for i q
    using lookup_name_in [OF that] names(1) by (auto simp: names_table_def list_all_iff intro!: reported_not_NSNotFound)
  have text_at: "take (end_capture sc - start_capture sc) (drop (start_capture sc) cs) = body_text body" by (simp add: sc cs)
  have name: "named_index entries cs sc = name_meaning entries (body_text body)" if "body_number body = NSNotFound"
    unfolding named_index_def text_at using that sc(5) found by (simp add: name_meaning_def split: option.split)
  have "named_index entries cs sc = body_meaning entries body"
  proof (cases body)
    case (Number ds)
    show ?thesis
    proof (cases "taken_for_name ds")
      case True
      then have "body_number body = NSNotFound" by (simp add: Number body_number_def read_digits)
      then show ?thesis using name True Number by simp
    next
      case False
      then have "(of_nat (digits_value 10 0 ds) :: u64) \<noteq> NSNotFound"
        unfolding of_nat_NSNotFound taken_for_name_iff by (metis order_refl take_all)
      then show ?thesis using False sc(5) Number by (simp add: named_index_def body_number_def read_digits)
    qed
  next
    case (Name q)
    then show ?thesis using name by (simp add: body_number_def)
  qed
  then show ?thesis
    using template_parse [OF assms(1) _ names cs_def, of None sc] sc(1,2) total(1) u by (auto simp: len_def)
qed

lemma body_meaning_documented:
  assumes "good_body body" "list_all (\<lambda>(i, nm). i < 128) entries"
  shows "body_meaning entries body = body_index entries body"
proof (cases body)
  case (Number ds)
  then show ?thesis using assms(1) small_not_name [of ds] by simp
next
  case (Name q)
  have "reported_index i = of_nat i" if "lookup_name entries q = Some i" for i
    using lookup_name_in [OF that] assms(2) by (auto simp: list_all_iff intro!: reported_index_small)
  then show ?thesis using Name by (simp add: name_meaning_def split: option.split)
qed

lemma bracketed_reference_parses:
  assumes "addressable b" "length (buffer_characters b) < 2147483648"
    and "buffer_characters b = pre @ [0x24, 0x7b] @ body_text body @ [0x7d] @ post" "good_body body"
    and "names_table regex entries" "distinct (map snd entries)" "unique_names regex"
    and "list_all (\<lambda>(i, nm). i < 128) entries"
  shows "run_map (\<lambda>r. ((map_option error_message (parseError r), parsedReferenceUInteger r), parsedRange r))
      (parse_in_template b (of_nat (length pre)) regex) =
    Ok (checked_index regex (body_index entries body), NSMakeRange 0 (of_nat (length (body_text body) + 3)))"
  using bracketed_body_parses [OF assms(1-3) good_body_ok [OF assms(4)] assms(5-7)]
    body_meaning_documented [OF assms(4,8)] by simp

text \<open>
  C31. What a bracketed reference in a template means, for a table without duplicate names. A number below
  \<open>NSNotFound\<close> (leading zeros allowed) stands for that capture, an identifier for the capture of that name
  as long as the captures with names have numbers below 128; a name that the regex does not define, or a
  capture that it does not have, is the respective error; and the reference extends exactly to its closing
  bracket. The code departs from that for other references, and the theorem says how: a larger number is
  taken modulo \<open>2 ^ 64\<close>, or for a name if the digits read so far make \<open>NSNotFound\<close>, and for a name of a
  capture from 128 on the index is the one that C2 states.
\<close>

theorem bracketed_reference:
  assumes "addressable b" "length (buffer_characters b) < 2147483648"
    and "buffer_characters b = pre @ [0x24, 0x7b] @ body_text body @ [0x7d] @ post" "body_ok body"
    and "names_table regex entries" "distinct (map snd entries)" "unique_names regex"
  shows "run_map (\<lambda>r. ((map_option error_message (parseError r), parsedReferenceUInteger r), parsedRange r))
      (parse_in_template b (of_nat (length pre)) regex) =
    Ok (checked_index regex (body_meaning entries body), NSMakeRange 0 (of_nat (length (body_text body) + 3))) \<and>
    (good_body body \<and> list_all (\<lambda>(i, nm). i < 128) entries \<longrightarrow> body_meaning entries body = body_index entries body)"
  using bracketed_body_parses [OF assms] body_meaning_documented by blast

section \<open>Consequences on concrete text\<close>

definition ascii_buffer :: "byte list \<Rightarrow> RKStringBuffer" where
  "ascii_buffer cs = RKMakeStringBuffer (of_nat (length cs)) cs (of_nat (length cs)) EncodingASCII"

text \<open>The text \<open>x1\<close> is accepted as a reference to capture 1\<close>

lemma misplaced_backslash_test:
  "scan_reference [0x78, 0x31] 2 False True False = Ok (None, scanned 2 1 2 1 None)"
  by code_simp

text \<open>An empty string is read one character too far.\<close>

lemma empty_reference_overread: "scan_reference [] 0 ca ig st = Undefined"
  by (simp add: scan_reference_def read_char_def char_at_def fast_digit_def)

text \<open>\<open>${18446744073709551617}\<close> is capture 1\<close>

lemma capture_number_wraps:
  "name_loop ([0x24, 0x7b] @ map digit_char [1,8,4,4,6,7,4,4,0,7,3,7,0,9,5,5,1,6,1,7] @ [0x7d]) 23 2 0 = Ok (22, 1)"
  by (code_simp)

text \<open>\<open>${1:%d}\<close> in a template is an error although conversions are to be ignored\<close>

lemma conversions_not_ignored:
  "run_map fst (scan_reference [0x24, 0x7b, 0x31, 0x3a, 0x25, 0x64, 0x7d] 7 False True False) = Ok (Some RKParseErrorNotValid)"
  by code_simp

lemma ascii_addressable: "length cs < 1000 \<Longrightarrow> addressable (ascii_buffer cs)"
  by (simp add: addressable_def valid_buffer_def ascii_buffer_def RKMakeStringBuffer_def unat_of_nat)

definition plain_entries :: "(nat \<times> byte list) list" where
  "plain_entries = [(2, [97, 98]), (1, [98])]"

lemma plain_names:
  "names_table (named_regex 0 plain_entries) plain_entries" "distinct (map snd plain_entries)"
  "unique_names (named_regex 0 plain_entries)"
  by (simp_all add: names_table_def named_regex_def plain_entries_def good_name_def unique_names_def sample_regex_def)

theorem template_reference_safe_witness:
  "case parse_in_template (ascii_buffer [0x41, 0x24, 0x7b, 0x31]) 1 (named_regex 0 plain_entries) of
      Ok r \<Rightarrow> if successfulParse r then 2 \<le> unat (range_length (parsedRange r)) \<and>
          1 + unat (range_length (parsedRange r)) \<le> 4 \<and>
          parsedReferenceUInteger r < captureCount (named_regex 0 plain_entries)
        else parseError r \<noteq> None
    | Raise e \<Rightarrow> False | Undefined \<Rightarrow> False"
  using template_reference_safe [OF ascii_addressable _ plain_names, of "[0x41, 0x24, 0x7b, 0x31]" 1]
  by (auto simp: ascii_buffer_def RKMakeStringBuffer_def split: run.splits)

theorem bracketed_reference_witness:
  "run_map (\<lambda>r. ((map_option error_message (parseError r), parsedReferenceUInteger r), parsedRange r))
      (parse_in_template (ascii_buffer [0x41, 0x24, 0x7b, 0x61, 0x62, 0x7d]) 1 (named_regex 0 plain_entries)) =
    Ok ((None, 2), NSMakeRange 0 5)"
proof -
  have "body_ok (Name [97, 98])" by code_simp
  then show ?thesis
    using bracketed_reference [OF ascii_addressable _ _ _ plain_names, of "[0x41, 0x24, 0x7b, 0x61, 0x62, 0x7d]" "[0x41]"
        "Name [97, 98]" "[]"]
    by (simp add: ascii_buffer_def RKMakeStringBuffer_def plain_entries_def name_meaning_def lookup_name_def
        reported_index_def checked_index_def named_regex_def)
qed

end
