(* ===== verification/RK_Replace.thy ===== *)
theory RK_Replace
  imports RK_Reference
begin

text \<open>
  The search and replace machinery of \<open>NSString.m\<close>: a replacement template is compiled to reference
  instructions, each match applies them to append copy instructions (pointer and length) to a second
  buffer, and at the end all copies are evaluated into one C string. The two buffers start on the stack
  with room for 64 instructions and move to the heap when they are full.
\<close>

section \<open>Memory\<close>

text \<open>
  Strings live in one flat memory, so that two pieces of text may be adjacent in memory without being
  adjacent in a string. An address is an index into it, and 0 is \<open>NULL\<close>. New C strings are put behind
  everything that is there.
\<close>

type_synonym memory = "byte list"

definition read_bytes :: "memory \<Rightarrow> nat \<Rightarrow> nat \<Rightarrow> byte list run" where
  "read_bytes mem p n =
     (if n = 0 then Ok []
      else if 0 < p \<and> p + n \<le> length mem then Ok (take n (drop p mem)) else Undefined)"

definition new_c_string :: "memory \<Rightarrow> byte list \<Rightarrow> memory \<times> nat" where
  "new_c_string mem cs = (mem @ cs @ [0], length mem)"

lemma read_bytes_grow: "read_bytes mem p n = Ok bs \<Longrightarrow> read_bytes (mem @ extra) p n = Ok bs"
  by (auto simp: read_bytes_def split: if_splits)

lemma read_bytes_split:
  "read_bytes mem p (m + n) = Ok bs \<Longrightarrow> read_bytes mem p m = Ok (take m bs) \<and> read_bytes mem (p + m) n = Ok (drop m bs)"
  by (auto simp: read_bytes_def drop_take add.commute take_add split: if_splits)

lemma read_bytes_join:
  "read_bytes mem p m = Ok as \<Longrightarrow> read_bytes mem (p + m) n = Ok bs \<Longrightarrow> read_bytes mem p (m + n) = Ok (as @ bs)"
  by (auto simp: read_bytes_def take_add add.commute split: if_splits)

lemma read_bytes_length: "read_bytes mem p n = Ok bs \<Longrightarrow> length bs = n"
  by (auto simp: read_bytes_def split: if_splits)

lemma read_new_c_string:
  "new_c_string mem cs = (mem', p) \<Longrightarrow> 0 < length mem \<Longrightarrow> read_bytes mem' p (length cs) = Ok cs"
  by (auto simp: new_c_string_def read_bytes_def)

section \<open>Growing an instruction buffer\<close>

text \<open>
  What the code relies on when it appends to a buffer that has room: the instruction comes last, and
  nothing else changes.
\<close>

locale instruction_buffer =
  fixes well_formed :: "'b \<Rightarrow> bool"
    and contents :: "'b \<Rightarrow> 'i list"
    and room :: "'b \<Rightarrow> nat"
    and append_to :: "'b \<Rightarrow> 'i \<Rightarrow> 'b"
  assumes append_contents: "well_formed b \<Longrightarrow> 0 < room b \<Longrightarrow> contents (append_to b i) = contents b @ [i]"
    and append_well_formed: "well_formed b \<Longrightarrow> 0 < room b \<Longrightarrow> well_formed (append_to b i)"
    and append_room: "well_formed b \<Longrightarrow> 0 < room b \<Longrightarrow> room (append_to b i) = room b - 1"
begin

lemma append_all:
  "well_formed b \<Longrightarrow> length is \<le> room b \<Longrightarrow>
     contents (foldl append_to b is) = contents b @ is \<and> well_formed (foldl append_to b is) \<and>
     room (foldl append_to b is) = room b - length is"
proof (induction "is" arbitrary: b)
  case (Cons i "is")
  then have "0 < room b" by simp
  then show ?case
    using Cons.IH [of "append_to b i"] Cons.prems
    by (simp add: append_contents append_well_formed append_room)
qed simp

end

text \<open>
  The two C structures differ in the type of their instructions and in \<open>copiedLength\<close>, which is kept
  apart. \<open>buf_on_heap\<close> says whether \<open>mutableData\<close> is set, and \<open>buf_instructions\<close> is the memory that
  \<open>instructions\<close> points to; allocations are taken to succeed.
\<close>

definition RK_DEFAULT_STACK_INSTRUCTIONS :: nat where
  "RK_DEFAULT_STACK_INSTRUCTIONS = 64"

record 'i instruction_store =
  buf_length :: nat
  buf_capacity :: nat
  buf_instructions :: "'i list"
  buf_on_heap :: bool

text \<open>
  The first time the stack buffer is full, the code makes a data object with room for all instructions,
  which Foundation fills with zero bytes, and appends the old instructions behind that room.
\<close>

definition grow_store :: "'i \<Rightarrow> 'i instruction_store \<Rightarrow> 'i instruction_store" where
  "grow_store zero b =
     (if \<not> buf_on_heap b
      then b\<lparr>buf_on_heap := True, buf_capacity := buf_capacity b + RK_DEFAULT_STACK_INSTRUCTIONS,
             buf_instructions := replicate (buf_capacity b + RK_DEFAULT_STACK_INSTRUCTIONS) zero @
               take (buf_capacity b) (buf_instructions b)\<rparr>
      else b\<lparr>buf_capacity := buf_capacity b + RK_DEFAULT_STACK_INSTRUCTIONS,
             buf_instructions := buf_instructions b @ replicate RK_DEFAULT_STACK_INSTRUCTIONS zero\<rparr>)"

definition store_append :: "'i \<Rightarrow> 'i instruction_store \<Rightarrow> 'i \<Rightarrow> 'i instruction_store" where
  "store_append zero b i =
     (let b' = (if buf_length b \<ge> buf_capacity b then grow_store zero b else b)
      in b'\<lparr>buf_instructions := (buf_instructions b')[buf_length b' := i], buf_length := buf_length b' + 1\<rparr>)"

definition stack_store :: "'i \<Rightarrow> 'i instruction_store" where
  "stack_store zero =
     \<lparr>buf_length = 0, buf_capacity = RK_DEFAULT_STACK_INSTRUCTIONS,
      buf_instructions = replicate RK_DEFAULT_STACK_INSTRUCTIONS zero, buf_on_heap = False\<rparr>"

definition store_ok :: "'i instruction_store \<Rightarrow> bool" where
  "store_ok b \<longleftrightarrow> buf_length b \<le> buf_capacity b \<and> buf_capacity b \<le> length (buf_instructions b)"

definition store_contents :: "'i instruction_store \<Rightarrow> 'i list" where
  "store_contents b = take (buf_length b) (buf_instructions b)"

definition store_room :: "'i instruction_store \<Rightarrow> nat" where
  "store_room b = buf_capacity b - buf_length b"

interpretation instructions: instruction_buffer store_ok store_contents store_room "store_append zero" for zero
  by unfold_locales
    (auto simp: store_ok_def store_contents_def store_room_def store_append_def Let_def take_Suc_conv_app_nth
      nth_list_update)

lemma stack_store_simps [simp]:
  "store_ok (stack_store zero)" "store_contents (stack_store zero) = []" "store_room (stack_store zero) = 64"
  by (simp_all add: stack_store_def store_ok_def store_contents_def store_room_def RK_DEFAULT_STACK_INSTRUCTIONS_def)

text \<open>The 65th instruction: every earlier one has become a zeroed instruction.\<close>

lemma store_append_full:
  assumes "store_ok b" "store_room b = 0" "\<not> buf_on_heap b"
  shows "store_contents (store_append zero b i) = replicate (buf_length b) zero @ [i]"
proof -
  have "buf_length b = buf_capacity b" using assms(1,2) by (simp add: store_ok_def store_room_def)
  then show ?thesis
    using assms(3)
    by (simp add: store_append_def grow_store_def store_contents_def Let_def RK_DEFAULT_STACK_INSTRUCTIONS_def
        take_Suc_conv_app_nth list_update_append nth_list_update nth_append)
qed

section \<open>Copy instructions\<close>

record copy_instruction =
  copy_ptr :: nat
  copy_length :: nat

definition copy_of :: "nat \<Rightarrow> nat \<Rightarrow> copy_instruction" where
  "copy_of p n = \<lparr>copy_ptr = p, copy_length = n\<rparr>"

record copy_buffer =
  copies :: "copy_instruction instruction_store"
  copiedLength :: nat

definition empty_copies :: copy_buffer where
  "empty_copies = \<lparr>copies = stack_store (copy_of 0 0), copiedLength = 0\<rparr>"

text \<open>\<open>RKAppendCopyInstruction\<close>: a copy that continues the last one in memory only lengthens it.\<close>

definition last_copy :: "copy_buffer \<Rightarrow> copy_instruction" where
  "last_copy b = buf_instructions (copies b) ! (buf_length (copies b) - 1)"

definition RKAppendCopyInstruction :: "copy_buffer \<Rightarrow> nat \<Rightarrow> nat \<Rightarrow> nat \<Rightarrow> copy_buffer" where
  "RKAppendCopyInstruction b ptr loc len =
     (if len = 0 then b
      else if 0 < buf_length (copies b) \<and> copy_ptr (last_copy b) + copy_length (last_copy b) = ptr + loc
      then b\<lparr>copies := (copies b)\<lparr>buf_instructions :=
               (buf_instructions (copies b))[buf_length (copies b) - 1 :=
                 copy_of (copy_ptr (last_copy b)) (copy_length (last_copy b) + len)]\<rparr>,
             copiedLength := copiedLength b + len\<rparr>
      else b\<lparr>copies := store_append (copy_of 0 0) (copies b) (copy_of (ptr + loc) len),
             copiedLength := copiedLength b + len\<rparr>)"

text \<open>
  \<open>RKEvaluateCopyInstructions\<close> into a buffer of \<open>bufferLength\<close> bytes: \<open>out\<close> is what has been written so
  far, and the assertions are those of the loop.
\<close>

fun evaluate_loop :: "memory \<Rightarrow> copy_instruction list \<Rightarrow> nat \<Rightarrow> nat \<Rightarrow> byte list \<Rightarrow> byte list run" where
  "evaluate_loop mem [] copied bufferLength out =
     (if \<not> length out \<le> bufferLength then Raise NSInternalInconsistencyException
      else if length out = bufferLength then Undefined else Ok out)"
| "evaluate_loop mem (i # is) copied bufferLength out =
     (if \<not> length out \<le> bufferLength then Raise NSInternalInconsistencyException
      else if \<not> length out + copy_length i \<le> copied then Raise NSInternalInconsistencyException
      else if \<not> length out + copy_length i \<le> bufferLength then Raise NSInternalInconsistencyException
      else run_bind (read_bytes mem (copy_ptr i) (copy_length i))
             (\<lambda>bs. evaluate_loop mem is copied bufferLength (out @ bs)))"

definition RKEvaluateCopyInstructions :: "memory \<Rightarrow> copy_buffer \<Rightarrow> byte list run" where
  "RKEvaluateCopyInstructions mem b =
     evaluate_loop mem (store_contents (copies b)) (copiedLength b) (copiedLength b + 1) []"

text \<open>\<open>RKStringFromCopyInstructions\<close> makes a string of the C string in the buffer: it ends at the first NUL.\<close>

definition RKStringFromCopyInstructions :: "memory \<Rightarrow> copy_buffer \<Rightarrow> byte list run" where
  "RKStringFromCopyInstructions mem b =
     run_map (\<lambda>out. take (c_strlen out) out) (RKEvaluateCopyInstructions mem b)"

section \<open>What a copy buffer stands for\<close>

fun read_copies :: "memory \<Rightarrow> copy_instruction list \<Rightarrow> byte list run" where
  "read_copies mem [] = Ok []"
| "read_copies mem (i # is) =
     run_bind (read_bytes mem (copy_ptr i) (copy_length i)) (\<lambda>a. run_map (\<lambda>rest. a @ rest) (read_copies mem is))"

definition copies_to :: "memory \<Rightarrow> copy_buffer \<Rightarrow> byte list \<Rightarrow> bool" where
  "copies_to mem b bs \<longleftrightarrow>
     store_ok (copies b) \<and> read_copies mem (store_contents (copies b)) = Ok bs \<and> copiedLength b = length bs"

abbreviation copy_room :: "copy_buffer \<Rightarrow> nat" where
  "copy_room b \<equiv> store_room (copies b)"

lemma read_copies_append:
  "read_copies mem (as @ bs) = run_bind (read_copies mem as) (\<lambda>x. run_map (\<lambda>y. x @ y) (read_copies mem bs))"
proof (induction as)
  case Nil
  then show ?case by (cases "read_copies mem bs") simp_all
next
  case (Cons a as)
  then show ?case
    by (cases "read_bytes mem (copy_ptr a) (copy_length a)"; cases "read_copies mem as"; cases "read_copies mem bs") simp_all
qed

lemma read_copies_grow: "read_copies mem is = Ok bs \<Longrightarrow> read_copies (mem @ extra) is = Ok bs"
  by (induction "is" arbitrary: bs) (auto simp: run_simps read_bytes_grow)

lemma copies_to_grow: "copies_to mem b bs \<Longrightarrow> copies_to (mem @ extra) b bs"
  by (simp add: copies_to_def read_copies_grow)

lemma copies_to_empty [simp]: "copies_to mem empty_copies []"
  by (simp add: copies_to_def empty_copies_def)

lemma take_last: "0 < n \<Longrightarrow> n \<le> length xs \<Longrightarrow> take n xs = take (n - 1) xs @ [xs ! (n - 1)]"
  using take_Suc_conv_app_nth [of "n - 1" xs] by (cases n) auto

lemma append_copy:
  assumes "copies_to mem b bs" "read_bytes mem (ptr + loc) len = Ok cs" "len = 0 \<or> 0 < copy_room b"
  shows "copies_to mem (RKAppendCopyInstruction b ptr loc len) (bs @ cs)"
    and "copy_room b \<le> copy_room (RKAppendCopyInstruction b ptr loc len) + 1"
proof -
  have len: "length cs = len" using assms(2) by (rule read_bytes_length)
  consider (none) "len = 0"
    | (join) "len \<noteq> 0" "0 < buf_length (copies b)" "copy_ptr (last_copy b) + copy_length (last_copy b) = ptr + loc"
    | (new) "len \<noteq> 0" "\<not> (0 < buf_length (copies b) \<and> copy_ptr (last_copy b) + copy_length (last_copy b) = ptr + loc)"
    by (cases "len = 0"; cases "0 < buf_length (copies b) \<and> copy_ptr (last_copy b) + copy_length (last_copy b) = ptr + loc") auto
  then have "copies_to mem (RKAppendCopyInstruction b ptr loc len) (bs @ cs) \<and>
      copy_room b \<le> copy_room (RKAppendCopyInstruction b ptr loc len) + 1"
  proof cases
    case none
    then show ?thesis using assms(1) len by (simp add: RKAppendCopyInstruction_def)
  next
    case join
    define n where "n = buf_length (copies b)"
    define xs where "xs = buf_instructions (copies b)"
    have n: "0 < n" "n \<le> length xs" "store_contents (copies b) = take (n - 1) xs @ [last_copy b]"
      using join(2) assms(1) take_last [of n xs]
      by (auto simp: copies_to_def store_ok_def store_contents_def n_def xs_def last_copy_def)
    then obtain before where before: "read_copies mem (take (n - 1) xs) = Ok before"
        "\<exists>l. read_bytes mem (copy_ptr (last_copy b)) (copy_length (last_copy b)) = Ok l \<and> bs = before @ l"
      using assms(1) by (auto simp: copies_to_def read_copies_append run_simps)
    then obtain l where l: "read_bytes mem (copy_ptr (last_copy b)) (copy_length (last_copy b)) = Ok l" "bs = before @ l"
      by blast
    have j: "read_bytes mem (copy_ptr (last_copy b)) (copy_length (last_copy b) + len) = Ok (l @ cs)"
      using read_bytes_join [OF l(1), of len cs] assms(2) join(3) by simp
    have "take n (xs[n - 1 := x]) = take (n - 1) xs @ [x]" for x
      using n(1,2) take_last [of n "xs[n - 1 := x]"] by simp
    then show ?thesis
      using join assms(1) before(1) l(2) j len n(1,2)
      by (simp add: RKAppendCopyInstruction_def copies_to_def store_contents_def store_ok_def store_room_def
          n_def [symmetric] xs_def [symmetric] read_copies_append copy_of_def run_simps)
  next
    case new
    let ?s = "store_append (copy_of 0 0) (copies b) (copy_of (ptr + loc) len)"
    have ok: "store_ok (copies b)" "0 < copy_room b" using assms(1,3) new(1) by (auto simp: copies_to_def)
    have "store_contents ?s = store_contents (copies b) @ [copy_of (ptr + loc) len]" "store_ok ?s"
        "store_room ?s = store_room (copies b) - 1"
      using ok by (simp_all add: instructions.append_contents instructions.append_well_formed instructions.append_room)
    then show ?thesis
      using new assms(1,2) len by (auto simp: RKAppendCopyInstruction_def copies_to_def read_copies_append copy_of_def)
  qed
  then show "copies_to mem (RKAppendCopyInstruction b ptr loc len) (bs @ cs)"
    "copy_room b \<le> copy_room (RKAppendCopyInstruction b ptr loc len) + 1" by auto
qed

lemma evaluate_loop_ok:
  "read_copies mem is = Ok bs \<Longrightarrow> length out + length bs = n \<Longrightarrow>
     evaluate_loop mem is n (n + 1) out = Ok (out @ bs)"
proof (induction "is" arbitrary: out bs)
  case (Cons i "is")
  obtain a r where a: "read_bytes mem (copy_ptr i) (copy_length i) = Ok a" "read_copies mem is = Ok r" "bs = a @ r"
    using Cons.prems(1) by (auto simp: run_simps)
  then show ?case
    using Cons.IH [OF a(2), of "out @ a"] Cons.prems(2) read_bytes_length [OF a(1)] by simp
qed simp

lemma evaluate_copies: "copies_to mem b bs \<Longrightarrow> RKEvaluateCopyInstructions mem b = Ok bs"
  using evaluate_loop_ok [of mem "store_contents (copies b)" bs "[]" "copiedLength b"]
  by (simp add: RKEvaluateCopyInstructions_def copies_to_def)

lemma string_from_copies:
  "copies_to mem b bs \<Longrightarrow> 0 \<notin> set bs \<Longrightarrow> RKStringFromCopyInstructions mem b = Ok bs"
proof -
  have "c_strlen bs = length bs" if "0 \<notin> set bs" for bs :: "byte list" using that by (induction bs) auto
  then show "copies_to mem b bs \<Longrightarrow> 0 \<notin> set bs \<Longrightarrow> ?thesis"
    by (simp add: RKStringFromCopyInstructions_def evaluate_copies)
qed

section \<open>Reference instructions\<close>

datatype reference_op =
    OP_STOP
  | OP_COPY_CAPTUREINDEX
  | OP_COPY_CAPTURENAME
  | OP_COPY_RANGE
  | OP_COMMENT
  | OP_UPPERCASE_NEXT_CHAR
  | OP_LOWERCASE_NEXT_CHAR
  | OP_UPPERCASE_BEGIN
  | OP_LOWERCASE_BEGIN
  | OP_CHANGE_CASE_END

record reference_instruction =
  instruction_op :: reference_op
  instruction_ptr :: nat
  instruction_range :: ns_range

definition instruction :: "reference_op \<Rightarrow> nat \<Rightarrow> ns_range \<Rightarrow> reference_instruction" where
  "instruction op ptr r = \<lparr>instruction_op = op, instruction_ptr = ptr, instruction_range = r\<rparr>"

type_synonym reference_buffer = "reference_instruction instruction_store"

definition zero_instruction :: reference_instruction where
  "zero_instruction = instruction OP_STOP 0 (NSMakeRange 0 0)"

definition RKAppendInstruction :: "reference_buffer \<Rightarrow> reference_op \<Rightarrow> nat \<Rightarrow> ns_range \<Rightarrow> reference_buffer" where
  "RKAppendInstruction b op ptr r =
     (if range_length r = 0 \<and> op = OP_COPY_RANGE then b
      else store_append zero_instruction b (instruction op ptr r))"

section \<open>Applying the instructions to a match\<close>

text \<open>
  Foundation's strings, for the case conversions: a string is its code points; \<open>decode_utf8\<close> is
  \<open>initWithBytes:length:encoding:\<close>, which answers \<open>nil\<close> for bytes that are not UTF-8.
\<close>

record string_library =
  decode_utf8 :: "byte list \<Rightarrow> nat list option"
  uppercase_string :: "nat list \<Rightarrow> nat list"
  lowercase_string :: "nat list \<Rightarrow> nat list"

definition convert_case :: "string_library \<Rightarrow> reference_op \<Rightarrow> nat list \<Rightarrow> nat list" where
  "convert_case S op cps =
     (if op = OP_UPPERCASE_BEGIN \<or> op = OP_UPPERCASE_NEXT_CHAR then uppercase_string S cps else lowercase_string S cps)"

text \<open>
  The variables of the loop: \<open>currentOp\<close> (\<open>OP_STOP\<close> is 0), \<open>conversionString\<close>, the memory, in which the
  converted strings are made, and the copy instructions so far.
\<close>

record apply_state =
  current_op :: reference_op
  conversion_string :: "nat list option"
  apply_memory :: memory
  applied :: copy_buffer

definition pending_length :: "apply_state \<Rightarrow> nat" where
  "pending_length st = (case conversion_string st of None \<Rightarrow> 0 | Some cps \<Rightarrow> length cps)"

text \<open>The \<open>switch\<close>: \<open>fromPtr\<close>, \<open>fromRange\<close> and \<open>thisOp\<close>.\<close>

definition fetch_operand ::
  "RKRegex \<Rightarrow> ns_range list \<Rightarrow> nat \<Rightarrow> memory \<Rightarrow> reference_instruction \<Rightarrow> (nat \<times> ns_range \<times> reference_op) run" where
  "fetch_operand regex matchRanges subjectPtr mem i =
     (case instruction_op i of
        OP_COPY_RANGE \<Rightarrow> Ok (instruction_ptr i, instruction_range i, OP_STOP)
      | OP_COPY_CAPTUREINDEX \<Rightarrow>
          run_map (\<lambda>r. (subjectPtr, r, OP_STOP)) (capture_is matchRanges (range_location (instruction_range i)))
      | OP_COPY_CAPTURENAME \<Rightarrow>
          run_bind (RKCaptureIndexForCaptureNameCharacters (Some regex)
              (drop (instruction_ptr i + unat (range_location (instruction_range i))) mem)
              (unat (range_length (instruction_range i))) (Some matchRanges) True) (\<lambda>captureIndex.
            if captureIndex = NSNotFound then Ok (0, NSMakeRange 0 0, OP_STOP)
            else run_map (\<lambda>r. (subjectPtr, r, OP_STOP)) (capture_is matchRanges captureIndex))
      | OP_COMMENT \<Rightarrow> Raise NSInternalInconsistencyException
      | OP_STOP \<Rightarrow> Ok (0, NSMakeRange 0 0, OP_STOP)
      | op \<Rightarrow> Ok (0, NSMakeRange 0 0, op))"

text \<open>The end of \<open>\U\<close> or \<open>\L\<close>: the pending text is converted and copied from where Foundation put it.\<close>

definition flush_conversion :: "string_library \<Rightarrow> apply_state \<Rightarrow> apply_state" where
  "flush_conversion S st =
     (case conversion_string st of
        None \<Rightarrow> st\<lparr>current_op := OP_STOP\<rparr>
      | Some cps \<Rightarrow>
          if cps = [] then st\<lparr>current_op := OP_STOP\<rparr>
          else
            let bytes = utf8_of (convert_case S (current_op st) cps);
                (mem', p) = new_c_string (apply_memory st) bytes
            in st\<lparr>apply_memory := mem', conversion_string := Some [],
                  applied := RKAppendCopyInstruction (applied st) p 0 (c_strlen bytes), current_op := OP_STOP\<rparr>)"

text \<open>
  The next character after \<open>\u\<close> or \<open>\l\<close>. A range shorter than its first character would make the
  length of the rest wrap around; the copy of it cannot be carried out.
\<close>

definition convert_next_char ::
  "string_library \<Rightarrow> apply_state \<Rightarrow> nat \<Rightarrow> nat \<Rightarrow> apply_state run" where
  "convert_next_char S st base len =
     run_bind (read_bytes (apply_memory st) base 1) (\<lambda>first.
       let fromLength = RKLengthOfUTF8Character (hd first)
       in run_bind (read_bytes (apply_memory st) base fromLength) (\<lambda>char.
          if len < fromLength then Undefined
          else
            let (mem', b') =
                  (case decode_utf8 S char of
                     None \<Rightarrow> (apply_memory st, applied st)
                   | Some cps \<Rightarrow>
                       let bytes = utf8_of (convert_case S (current_op st) cps);
                           (m, p) = new_c_string (apply_memory st) bytes
                       in (m, RKAppendCopyInstruction (applied st) p 0 (c_strlen bytes)))
            in Ok (st\<lparr>apply_memory := mem', current_op := OP_STOP,
                      applied := RKAppendCopyInstruction b' (base + fromLength) 0 (len - fromLength)\<rparr>)))"

definition is_begin :: "reference_op \<Rightarrow> bool" where
  "is_begin op \<longleftrightarrow> op = OP_UPPERCASE_BEGIN \<or> op = OP_LOWERCASE_BEGIN"

definition is_next :: "reference_op \<Rightarrow> bool" where
  "is_next op \<longleftrightarrow> op = OP_UPPERCASE_NEXT_CHAR \<or> op = OP_LOWERCASE_NEXT_CHAR"

text \<open>One turn of the loop, with its tests in the order of the code.\<close>

definition apply_step ::
  "string_library \<Rightarrow> RKRegex \<Rightarrow> ns_range list \<Rightarrow> nat \<Rightarrow> reference_instruction \<Rightarrow> apply_state \<Rightarrow> apply_state run" where
  "apply_step S regex matchRanges subjectPtr i st =
     run_bind (fetch_operand regex matchRanges subjectPtr (apply_memory st) i) (\<lambda>(fromPtr, fromRange, thisOp).
       let lastOp = instruction_op i;
           hasText = thisOp = OP_STOP \<and> fromPtr \<noteq> 0 \<and> range_length fromRange > 0;
           from = fromPtr + unat (range_location fromRange);
           len = unat (range_length fromRange)
       in if current_op st = OP_CHANGE_CASE_END then Raise NSInternalInconsistencyException
          else if current_op st = OP_STOP \<and> thisOp = OP_CHANGE_CASE_END then Ok st
          else if thisOp = OP_CHANGE_CASE_END \<and> (is_next (current_op st) \<or> is_begin (current_op st)) \<and> pending_length st = 0
          then Ok (st\<lparr>current_op := OP_STOP\<rparr>)
          else if current_op st = OP_STOP \<and> hasText
          then Ok (st\<lparr>applied := RKAppendCopyInstruction (applied st) fromPtr (unat (range_location fromRange)) len\<rparr>)
          else if is_begin (current_op st) \<and> hasText
          then run_bind (read_bytes (apply_memory st) from len) (\<lambda>bytes.
                 case decode_utf8 S bytes of
                   None \<Rightarrow> Raise NSInvalidArgumentException
                 | Some cps \<Rightarrow> Ok (st\<lparr>conversion_string :=
                     Some ((case conversion_string st of None \<Rightarrow> [] | Some pending \<Rightarrow> pending) @ cps)\<rparr>))
          else
            let st' = (if is_begin (current_op st) \<and> thisOp \<noteq> current_op st \<and> (thisOp \<noteq> OP_STOP \<or> lastOp = OP_STOP)
                       then flush_conversion S st else st);
                flushed = is_begin (current_op st) \<and> thisOp \<noteq> current_op st \<and> (thisOp \<noteq> OP_STOP \<or> lastOp = OP_STOP)
            in if flushed \<and> thisOp = OP_CHANGE_CASE_END then Ok st'
               else if is_next (current_op st') \<and> hasText then convert_next_char S st' from len
               else if thisOp = OP_CHANGE_CASE_END then Raise NSInternalInconsistencyException
               else Ok (st'\<lparr>current_op := thisOp\<rparr>))"

fun apply_loop ::
  "string_library \<Rightarrow> RKRegex \<Rightarrow> ns_range list \<Rightarrow> nat \<Rightarrow> reference_instruction list \<Rightarrow> apply_state \<Rightarrow> apply_state run" where
  "apply_loop S regex matchRanges subjectPtr [] st = Ok st"
| "apply_loop S regex matchRanges subjectPtr (i # is) st =
     run_bind (apply_step S regex matchRanges subjectPtr i st) (\<lambda>st'.
       if instruction_op i = OP_STOP then Ok st' else apply_loop S regex matchRanges subjectPtr is st')"

definition RKApplyReferenceInstructions ::
  "string_library \<Rightarrow> RKRegex \<Rightarrow> ns_range list \<Rightarrow> nat \<Rightarrow> reference_buffer \<Rightarrow> memory \<Rightarrow> copy_buffer \<Rightarrow>
     (memory \<times> copy_buffer) run" where
  "RKApplyReferenceInstructions S regex matchRanges subjectPtr instrs mem b =
     (if buf_instructions instrs = [] then Undefined
      else if instruction_op (buf_instructions instrs ! 0) = OP_STOP then Ok (mem, b)
      else run_bind
        (apply_loop S regex matchRanges subjectPtr (store_contents instrs)
           \<lparr>current_op = OP_STOP, conversion_string = None, apply_memory = mem, applied = b\<rparr>)
        (\<lambda>st. if pending_length st \<noteq> 0 then Raise NSInternalInconsistencyException
              else Ok (apply_memory st, applied st)))"

section \<open>What a template means\<close>

text \<open>
  A template applied to a match is a sequence of texts, from the template or captures, and of case
  operators. \<open>expand\<close> is its meaning: \<open>\u\<close> and \<open>\l\<close> convert the next character, \<open>\U\<close> and \<open>\L\<close> all text
  up to the next different operator or the end. A capture without text contributes nothing.
\<close>

datatype piece = Text "nat list" | CaseOp reference_op

definition case_ops :: "reference_op set" where
  "case_ops = {OP_UPPERCASE_NEXT_CHAR, OP_LOWERCASE_NEXT_CHAR, OP_UPPERCASE_BEGIN, OP_LOWERCASE_BEGIN, OP_CHANGE_CASE_END}"

definition plain_text :: "nat list \<Rightarrow> bool" where
  "plain_text cps \<longleftrightarrow> list_all (\<lambda>c. valid_code_point c \<and> c \<noteq> 0) cps"

definition flushed_text :: "string_library \<Rightarrow> reference_op \<Rightarrow> nat list \<Rightarrow> nat list" where
  "flushed_text S mode pend = (if pend = [] then [] else convert_case S mode pend)"

fun piece_step ::
  "string_library \<Rightarrow> reference_op \<Rightarrow> nat list \<Rightarrow> piece \<Rightarrow> reference_op \<times> nat list \<times> nat list" where
  "piece_step S mode pend (Text t) =
     (if t = [] then (mode, pend, [])
      else if is_begin mode then (mode, pend @ t, [])
      else if is_next mode then (OP_STOP, [], convert_case S mode [hd t] @ tl t)
      else (mode, [], t))"
| "piece_step S mode pend (CaseOp op) =
     (if is_begin mode \<and> op = mode then (mode, pend, [])
      else (if op = OP_CHANGE_CASE_END then OP_STOP else op, [],
            if is_begin mode then flushed_text S mode pend else []))"

fun expand :: "string_library \<Rightarrow> reference_op \<Rightarrow> nat list \<Rightarrow> piece list \<Rightarrow> nat list" where
  "expand S mode pend [] = (if is_begin mode then flushed_text S mode pend else [])"
| "expand S mode pend (p # ps) =
     (let (mode', pend', emitted) = piece_step S mode pend p in emitted @ expand S mode' pend' ps)"

text \<open>What Foundation promises of its strings.\<close>

definition string_library_contract :: "string_library \<Rightarrow> bool" where
  "string_library_contract S \<longleftrightarrow>
     (\<forall>cps. plain_text cps \<longrightarrow> decode_utf8 S (utf8_of cps) = Some cps \<and>
        plain_text (uppercase_string S cps) \<and> plain_text (lowercase_string S cps))"

text \<open>
  The code keeps that meaning only if captures without text stay outside the case conversions: within
  \<open>\u\<close>, \<open>\l\<close>, \<open>\U\<close> or \<open>\L\<close> such a capture ends the conversion, and pending text is lost.
\<close>

fun empties_outside :: "reference_op \<Rightarrow> piece list \<Rightarrow> bool" where
  "empties_outside mode [] \<longleftrightarrow> True"
| "empties_outside mode (Text t # ps) \<longleftrightarrow>
     (if t = [] then mode = OP_STOP \<and> empties_outside mode ps
      else empties_outside (if is_next mode then OP_STOP else mode) ps)"
| "empties_outside mode (CaseOp op # ps) \<longleftrightarrow> empties_outside (if op = OP_CHANGE_CASE_END then OP_STOP else op) ps"

lemma empties_outside_full: "Text [] \<notin> set ps \<Longrightarrow> empties_outside mode ps"
  by (induction mode ps rule: empties_outside.induct) auto

text \<open>An instruction stands for a piece: its text is whole characters, and only a capture may have none.\<close>

definition stands_for :: "memory \<Rightarrow> nat \<Rightarrow> ns_range list \<Rightarrow> reference_instruction \<Rightarrow> piece \<Rightarrow> bool" where
  "stands_for mem subjectPtr ranges i p =
     (case p of
        CaseOp op \<Rightarrow> instruction_op i = op \<and> op \<in> case_ops
      | Text t \<Rightarrow> plain_text t \<and>
          (instruction_op i = OP_COPY_RANGE \<and> t \<noteq> [] \<and> instruction_ptr i \<noteq> 0 \<and>
             read_bytes mem (instruction_ptr i + unat (range_location (instruction_range i)))
               (unat (range_length (instruction_range i))) = Ok (utf8_of t) \<or>
           instruction_op i = OP_COPY_CAPTUREINDEX \<and> subjectPtr \<noteq> 0 \<and>
             unat (range_location (instruction_range i)) < length ranges \<and>
             (let r = ranges ! unat (range_location (instruction_range i)) in
              if t = [] then range_length r = 0
              else read_bytes mem (subjectPtr + unat (range_location r)) (unat (range_length r)) = Ok (utf8_of t))))"

definition tracks :: "apply_state \<Rightarrow> reference_op \<Rightarrow> nat list \<Rightarrow> byte list \<Rightarrow> bool" where
  "tracks st mode pend out \<longleftrightarrow>
     current_op st = mode \<and> (mode = OP_STOP \<or> is_next mode \<or> is_begin mode) \<and> (is_begin mode \<or> pend = []) \<and>
     (case conversion_string st of None \<Rightarrow> [] | Some cps \<Rightarrow> cps) = pend \<and> plain_text pend \<and>
     copies_to (apply_memory st) (applied st) out \<and> 0 < length (apply_memory st)"

lemma utf8_of_Nil [simp]: "utf8_of [] = []"
  by (simp add: utf8_of_def)

lemma utf8_of_append [simp]: "utf8_of (a @ b) = utf8_of a @ utf8_of b"
  by (simp add: utf8_of_def)

lemma plain_text_append [simp]: "plain_text (a @ b) \<longleftrightarrow> plain_text a \<and> plain_text b"
  by (simp add: plain_text_def)

lemma stands_for_grow: "stands_for mem s rs i p \<Longrightarrow> stands_for (mem @ extra) s rs i p"
  by (auto simp: stands_for_def Let_def read_bytes_grow split: piece.splits)

lemma utf8_encode_no_nul:
  assumes "valid_code_point c" "c \<noteq> 0"
  shows "0 \<notin> set (utf8_encode c)"
proof -
  have len0: "RKLengthOfUTF8Character 0 = 1" by (simp add: RKLengthOfUTF8Character_def)
  have "hd (utf8_encode c) \<noteq> 0"
  proof (cases "c < 0x80")
    case True
    then have "(of_nat c :: byte) \<noteq> 0" using assms(2) by (simp add: word_unat_eq_iff unat_of_nat)
    then show ?thesis using True by (simp add: utf8_encode_def)
  next
    case False
    then have "length (utf8_encode c) \<noteq> 1" by (simp add: utf8_encode_def)
    then show ?thesis using utf8_encode_lead(3) [OF assms(1)] len0 by metis
  qed
  moreover have "0 \<notin> set (tl (utf8_encode c))" using utf8_encode_tail [of c] by (auto simp: is_continuation_def)
  ultimately show ?thesis by (cases "utf8_encode c") auto
qed

lemma utf8_of_no_nul: "plain_text cps \<Longrightarrow> 0 \<notin> set (utf8_of cps)"
  using utf8_encode_no_nul by (auto simp: plain_text_def utf8_of_def list_all_iff)

lemma c_strlen_plain: "plain_text cps \<Longrightarrow> c_strlen (utf8_of cps) = length (utf8_of cps)"
proof -
  have "c_strlen bs = length bs" if "0 \<notin> set bs" for bs :: "byte list" using that by (induction bs) auto
  then show "plain_text cps \<Longrightarrow> ?thesis" using utf8_of_no_nul by blast
qed

lemma convert_case_plain:
  "string_library_contract S \<Longrightarrow> plain_text cps \<Longrightarrow> plain_text (convert_case S op cps)"
  by (simp add: string_library_contract_def convert_case_def)

lemma decode_plain: "string_library_contract S \<Longrightarrow> plain_text cps \<Longrightarrow> decode_utf8 S (utf8_of cps) = Some cps"
  by (simp add: string_library_contract_def)

text \<open>Copying a text that Foundation has just converted.\<close>

lemma append_converted:
  assumes "copies_to mem b out" "0 < length mem" "plain_text cps" "0 < copy_room b"
    and "new_c_string mem (utf8_of cps) = (mem', p)"
  shows "copies_to mem' (RKAppendCopyInstruction b p 0 (c_strlen (utf8_of cps))) (out @ utf8_of cps)"
    and "copy_room b \<le> copy_room (RKAppendCopyInstruction b p 0 (c_strlen (utf8_of cps))) + 1"
proof -
  have "mem' = mem @ utf8_of cps @ [0]" using assms(5) by (simp add: new_c_string_def)
  then have "copies_to mem' b out" using assms(1) copies_to_grow by simp
  moreover have "read_bytes mem' (p + 0) (length (utf8_of cps)) = Ok (utf8_of cps)"
    using read_new_c_string [OF assms(5,2)] by simp
  ultimately show "copies_to mem' (RKAppendCopyInstruction b p 0 (c_strlen (utf8_of cps))) (out @ utf8_of cps)"
      "copy_room b \<le> copy_room (RKAppendCopyInstruction b p 0 (c_strlen (utf8_of cps))) + 1"
    using append_copy [of mem' b out p 0 "length (utf8_of cps)" "utf8_of cps"] assms(4)
    by (simp_all add: c_strlen_plain [OF assms(3)])
qed

lemma fetch_text:
  assumes "stands_for mem subj ranges i (Text t)" "t \<noteq> []"
  shows "\<exists>ptr r. fetch_operand regex ranges subj mem' i = Ok (ptr, r, OP_STOP) \<and> ptr \<noteq> 0 \<and> 0 < range_length r \<and>
    read_bytes mem (ptr + unat (range_location r)) (unat (range_length r)) = Ok (utf8_of t)"
proof -
  have "utf8_of t \<noteq> []" using assms by (cases t) (auto simp: stands_for_def utf8_of_def)
  then have pos: "0 < range_length r" if "read_bytes mem p (unat (range_length r)) = Ok (utf8_of t)" for p r
    using read_bytes_length [OF that] by (cases "range_length r = 0") (auto simp: word_gt_0)
  show ?thesis
    using assms pos by (auto simp: stands_for_def fetch_operand_def capture_is_def Let_def)
qed

lemma fetch_empty:
  assumes "stands_for mem subj ranges i (Text [])"
  shows "\<exists>ptr r. fetch_operand regex ranges subj mem' i = Ok (ptr, r, OP_STOP) \<and> range_length r = 0"
  using assms by (auto simp: stands_for_def fetch_operand_def capture_is_def Let_def)

lemma fetch_case_op:
  "op \<in> case_ops \<Longrightarrow> instruction_op i = op \<Longrightarrow>
     fetch_operand regex ranges subj mem i = Ok (0, NSMakeRange 0 0, op) \<and> op \<noteq> OP_STOP"
  by (auto simp: fetch_operand_def case_ops_def)

lemma flush_tracks:
  assumes S: "string_library_contract S" and st: "tracks st mode pend out" "is_begin mode" and room: "0 < copy_room (applied st)"
  shows "tracks (flush_conversion S st) OP_STOP [] (out @ utf8_of (flushed_text S mode pend))"
    and "copy_room (applied st) \<le> copy_room (applied (flush_conversion S st)) + 1"
    and "\<exists>extra. apply_memory (flush_conversion S st) = apply_memory st @ extra"
proof -
  note t = st(1) [unfolded tracks_def]
  have "tracks (flush_conversion S st) OP_STOP [] (out @ utf8_of (flushed_text S mode pend)) \<and>
      copy_room (applied st) \<le> copy_room (applied (flush_conversion S st)) + 1 \<and>
      (\<exists>extra. apply_memory (flush_conversion S st) = apply_memory st @ extra)"
  proof (cases "pend = []")
    case True
    then have "flush_conversion S st = st\<lparr>current_op := OP_STOP\<rparr>"
      using t by (auto simp: flush_conversion_def split: option.splits)
    then show ?thesis
      using t True by (auto simp: tracks_def flushed_text_def is_begin_def)
  next
    case False
    let ?c = "convert_case S mode pend"
    obtain mem' p where new: "new_c_string (apply_memory st) (utf8_of ?c) = (mem', p)" by force
    have c: "conversion_string st = Some pend" "current_op st = mode"
      using t False by (auto split: option.splits)
    then have f: "flush_conversion S st = st\<lparr>apply_memory := mem', conversion_string := Some [],
        applied := RKAppendCopyInstruction (applied st) p 0 (c_strlen (utf8_of ?c)), current_op := OP_STOP\<rparr>"
      using False new by (simp add: flush_conversion_def)
    have mem': "mem' = apply_memory st @ utf8_of ?c @ [0]" using new by (simp add: new_c_string_def)
    have "plain_text ?c" using convert_case_plain [OF S] t by simp
    then show ?thesis
      using append_converted [OF _ _ _ room new] t False f mem'
      by (auto simp: tracks_def flushed_text_def is_begin_def plain_text_def)
  qed
  then show "tracks (flush_conversion S st) OP_STOP [] (out @ utf8_of (flushed_text S mode pend))"
    "copy_room (applied st) \<le> copy_room (applied (flush_conversion S st)) + 1"
    "\<exists>extra. apply_memory (flush_conversion S st) = apply_memory st @ extra" by blast+
qed

lemma convert_next_tracks:
  assumes S: "string_library_contract S" and st: "tracks st mode [] out" "is_next mode"
    and rd: "read_bytes (apply_memory st) base len = Ok (utf8_of t)" and t: "t \<noteq> []" "plain_text t"
    and room: "2 \<le> copy_room (applied st)" and none: "pending_length st = 0"
  shows "\<exists>st'. convert_next_char S st base len = Ok st' \<and>
    tracks st' OP_STOP [] (out @ utf8_of (convert_case S mode [hd t] @ tl t)) \<and>
    copy_room (applied st) \<le> copy_room (applied st') + 2 \<and> (\<exists>extra. apply_memory st' = apply_memory st @ extra)"
proof -
  define k where "k = length (utf8_encode (hd t))"
  have k: "0 < k" by (simp add: k_def)
  have u: "utf8_of t = utf8_encode (hd t) @ utf8_of (tl t)" using t(1) by (cases t) (simp_all add: utf8_of_def)
  have lenk: "len = k + length (utf8_of (tl t))" using read_bytes_length [OF rd] by (simp add: u k_def)
  have one: "utf8_of [hd t] = utf8_encode (hd t)" by (simp add: utf8_of_def)
  have r: "read_bytes (apply_memory st) base k = Ok (utf8_of [hd t])"
      "read_bytes (apply_memory st) (base + k) (len - k) = Ok (utf8_of (tl t))"
    using read_bytes_split [of "apply_memory st" base k "length (utf8_of (tl t))"] rd
    by (simp_all add: lenk u k_def one)
  have r1: "read_bytes (apply_memory st) base 1 = Ok [hd (utf8_encode (hd t))]"
    using read_bytes_split [of "apply_memory st" base 1 "k - 1" "utf8_encode (hd t)"] r(1) k
    by (simp add: one k_def take_Suc)
  have v: "plain_text [hd t]" "plain_text (tl t)" using t by (cases t; simp add: plain_text_def)+
  then have head: "RKLengthOfUTF8Character (hd (utf8_encode (hd t))) = k"
    using utf8_encode_lead(3) by (simp add: plain_text_def k_def)
  let ?c = "convert_case S mode [hd t]"
  obtain mem' p where new: "new_c_string (apply_memory st) (utf8_of ?c) = (mem', p)" by force
  have c: "plain_text ?c" using convert_case_plain [OF S v(1)] .
  have mem': "mem' = apply_memory st @ utf8_of ?c @ [0]" using new by (simp add: new_c_string_def)
  define b1 where "b1 = RKAppendCopyInstruction (applied st) p 0 (c_strlen (utf8_of ?c))"
  note tr = st(1) [unfolded tracks_def]
  have b1: "copies_to mem' b1 (out @ utf8_of ?c)" "copy_room (applied st) \<le> copy_room b1 + 1"
    using append_converted [OF _ _ c _ new, of "applied st" out] tr room by (simp_all add: b1_def)
  have "read_bytes mem' ((base + k) + 0) (len - k) = Ok (utf8_of (tl t))"
    using r(2) read_bytes_grow by (simp add: mem')
  then have b2: "copies_to mem' (RKAppendCopyInstruction b1 (base + k) 0 (len - k)) ((out @ utf8_of ?c) @ utf8_of (tl t))"
      "copy_room b1 \<le> copy_room (RKAppendCopyInstruction b1 (base + k) 0 (len - k)) + 1"
    using append_copy [OF b1(1)] b1(2) room by auto
  have "convert_next_char S st base len =
      Ok (st\<lparr>apply_memory := mem', current_op := OP_STOP, applied := RKAppendCopyInstruction b1 (base + k) 0 (len - k)\<rparr>)"
    using r1 r(1) head decode_plain [OF S v(1)] new tr lenk
    by (simp add: convert_next_char_def b1_def)
  then show ?thesis
    using b1(2) b2 tr mem' by (simp add: tracks_def is_begin_def)
qed

lemma apply_step_piece:
  assumes S: "string_library_contract S" and st: "tracks st mode pend out"
    and i: "stands_for (apply_memory st) subj ranges i p" and room: "2 \<le> copy_room (applied st)"
    and step: "piece_step S mode pend p = (mode', pend', emitted)" and empties: "empties_outside mode (p # ps)"
  shows "\<exists>st'. apply_step S regex ranges subj i st = Ok st' \<and> tracks st' mode' pend' (out @ utf8_of emitted) \<and>
    copy_room (applied st) \<le> copy_room (applied st') + 2 \<and> (\<exists>extra. apply_memory st' = apply_memory st @ extra)"
proof (cases p)
  case (Text t)
  note tr = st [unfolded tracks_def]
  show ?thesis
  proof (cases "t = []")
    case True
    obtain ptr r where "fetch_operand regex ranges subj (apply_memory st) i = Ok (ptr, r, OP_STOP)" "range_length r = 0"
      using fetch_empty i Text True by blast
    moreover have m: "mode = OP_STOP" using empties Text True by simp
    ultimately have "apply_step S regex ranges subj i st = Ok (st\<lparr>current_op := OP_STOP\<rparr>)"
      using tr by (auto simp: apply_step_def Let_def is_begin_def is_next_def)
    then show ?thesis using st m step Text True by (auto simp: tracks_def)
  next
    case False
    have t: "t \<noteq> []" "plain_text t" using i Text False by (auto simp: stands_for_def)
    obtain ptr r where f: "fetch_operand regex ranges subj (apply_memory st) i = Ok (ptr, r, OP_STOP)" "ptr \<noteq> 0"
        "0 < range_length r"
        "read_bytes (apply_memory st) (ptr + unat (range_location r)) (unat (range_length r)) = Ok (utf8_of t)"
      using fetch_text [OF i [unfolded Text] t(1)] by blast
    consider "is_begin mode" | "is_next mode" | "\<not> is_begin mode" "\<not> is_next mode" by blast
    then show ?thesis
    proof cases
      case 1
      then have "mode \<noteq> OP_STOP" "mode \<noteq> OP_CHANGE_CASE_END" by (auto simp: is_begin_def)
      then have "apply_step S regex ranges subj i st = Ok (st\<lparr>conversion_string := Some (pend @ t)\<rparr>)"
        using 1 tr f decode_plain [OF S t(2)] by (simp add: apply_step_def Let_def)
      then show ?thesis using 1 tr t step Text by (auto simp: tracks_def)
    next
      case 2
      then have m: "mode \<noteq> OP_STOP" "\<not> is_begin mode" "mode \<noteq> OP_CHANGE_CASE_END" by (auto simp: is_begin_def is_next_def)
      then have none: "pending_length st = 0" "pend = []"
        using tr by (auto simp: pending_length_def split: option.splits)
      have "apply_step S regex ranges subj i st =
          convert_next_char S st (ptr + unat (range_location r)) (unat (range_length r))"
        using 2 m tr f by (simp add: apply_step_def Let_def)
      then show ?thesis
        using convert_next_tracks [OF S _ 2 f(4) t room none(1)] st m 2 step Text t(1) none(2) by auto
    next
      case 3
      then have m: "mode = OP_STOP" using tr by blast
      then have "apply_step S regex ranges subj i st = Ok (st\<lparr>applied :=
          RKAppendCopyInstruction (applied st) ptr (unat (range_location r)) (unat (range_length r))\<rparr>)"
        using tr f by (simp add: apply_step_def Let_def)
      then show ?thesis
        using 3 m tr step Text t(1) append_copy [of "apply_memory st" "applied st" out ptr "unat (range_location r)"
            "unat (range_length r)" "utf8_of t"] f(4) room
        by (auto simp: tracks_def)
    qed
  qed
next
  case (CaseOp op)
  note tr = st [unfolded tracks_def]
  have op: "instruction_op i = op" "op \<in> case_ops" using i CaseOp by (auto simp: stands_for_def)
  note f = fetch_case_op [OF op(2,1), of regex ranges subj "apply_memory st"]
  have kinds: "op = OP_CHANGE_CASE_END \<or> is_next op \<or> is_begin op"
    using op(2) by (auto simp: case_ops_def is_next_def is_begin_def)
  have excl: "\<not> (is_next m \<and> is_begin m)" "\<not> is_next OP_STOP" "\<not> is_begin OP_STOP"
      "\<not> is_next OP_CHANGE_CASE_END" "\<not> is_begin OP_CHANGE_CASE_END" for m
    by (auto simp: is_next_def is_begin_def)
  have len: "pending_length st = length pend" using tr by (auto simp: pending_length_def split: option.splits)
  show ?thesis
  proof (cases "is_begin mode \<and> op \<noteq> mode \<and> (op \<noteq> OP_CHANGE_CASE_END \<or> pend \<noteq> [])")
    case True
    have fl: "tracks (flush_conversion S st) OP_STOP [] (out @ utf8_of (flushed_text S mode pend))"
        "copy_room (applied st) \<le> copy_room (applied (flush_conversion S st)) + 1"
        "\<exists>extra. apply_memory (flush_conversion S st) = apply_memory st @ extra"
      using flush_tracks [OF S st] True room by auto
    have "apply_step S regex ranges subj i st = Ok (if op = OP_CHANGE_CASE_END then flush_conversion S st
        else (flush_conversion S st)\<lparr>current_op := op\<rparr>)"
      using True f tr len fl(1) excl by (auto simp: apply_step_def Let_def tracks_def)
    then show ?thesis
      using True fl step CaseOp kinds by (auto simp: tracks_def plain_text_def)
  next
    case False
    then have "apply_step S regex ranges subj i st =
        Ok (if op = OP_CHANGE_CASE_END \<and> mode = OP_STOP then st
            else st\<lparr>current_op := (if op = OP_CHANGE_CASE_END then OP_STOP else op)\<rparr>)"
      using f tr len excl by (auto simp: apply_step_def Let_def split: if_splits)
    then show ?thesis
      using False tr step CaseOp kinds excl
      by (auto simp: tracks_def plain_text_def flushed_text_def split: if_splits)
  qed
qed

lemma apply_stop:
  assumes S: "string_library_contract S" and st: "tracks st mode pend out" and room: "0 < copy_room (applied st)"
    and i: "instruction_op i = OP_STOP"
  shows "\<exists>st'. apply_step S regex ranges subj i st = Ok st' \<and> tracks st' OP_STOP [] (out @ utf8_of (expand S mode pend [])) \<and>
    copy_room (applied st) \<le> copy_room (applied st') + 1 \<and> (\<exists>extra. apply_memory st' = apply_memory st @ extra)"
proof (cases "is_begin mode")
  case True
  then have m: "mode \<noteq> OP_STOP" "mode \<noteq> OP_CHANGE_CASE_END" by (auto simp: is_begin_def)
  have "apply_step S regex ranges subj i st = Ok ((flush_conversion S st)\<lparr>current_op := OP_STOP\<rparr>)"
    using True m st i flush_tracks(1) [OF S st True room]
    by (simp add: apply_step_def Let_def fetch_operand_def tracks_def is_next_def)
  then show ?thesis
    using flush_tracks [OF S st True room] True by (auto simp: tracks_def)
next
  case False
  then have "apply_step S regex ranges subj i st = Ok (st\<lparr>current_op := OP_STOP\<rparr>)"
    using st i by (auto simp: apply_step_def Let_def fetch_operand_def tracks_def is_next_def)
  then show ?thesis using False st by (auto simp: tracks_def)
qed

lemma apply_loop_pieces:
  assumes S: "string_library_contract S" and stop: "instruction_op stop = OP_STOP"
  shows "tracks st mode pend out \<Longrightarrow> list_all2 (stands_for (apply_memory st) subj ranges) is ps \<Longrightarrow>
    2 * length ps < copy_room (applied st) \<Longrightarrow> empties_outside mode ps \<Longrightarrow>
    \<exists>st'. apply_loop S regex ranges subj (is @ [stop]) st = Ok st' \<and>
      tracks st' OP_STOP [] (out @ utf8_of (expand S mode pend ps)) \<and>
      copy_room (applied st) \<le> copy_room (applied st') + 2 * length ps + 1 \<and>
      (\<exists>extra. apply_memory st' = apply_memory st @ extra)"
proof (induction ps arbitrary: "is" st mode pend out)
  case Nil
  then show ?case using apply_stop [OF S Nil.prems(1) _ stop, of regex ranges subj] stop by auto
next
  case (Cons p ps)
  obtain i rest where i: "is = i # rest" "stands_for (apply_memory st) subj ranges i p"
      "list_all2 (stands_for (apply_memory st) subj ranges) rest ps"
    using Cons.prems(2) by (cases "is") auto
  obtain mode' pend' emitted where step: "piece_step S mode pend p = (mode', pend', emitted)"
    by (cases "piece_step S mode pend p") auto
  have room: "2 \<le> copy_room (applied st)" using Cons.prems(3) by simp
  obtain st1 extra where st1: "apply_step S regex ranges subj i st = Ok st1" "tracks st1 mode' pend' (out @ utf8_of emitted)"
      "copy_room (applied st) \<le> copy_room (applied st1) + 2" "apply_memory st1 = apply_memory st @ extra"
    using apply_step_piece [OF S Cons.prems(1) i(2) room step Cons.prems(4), of regex] by blast
  have empties: "empties_outside mode' ps"
    using Cons.prems(4) step by (cases p) (auto simp: is_begin_def is_next_def split: if_splits)
  have op: "instruction_op i \<noteq> OP_STOP" using i(2) by (auto simp: stands_for_def case_ops_def split: piece.splits)
  have "list_all2 (stands_for (apply_memory st1) subj ranges) rest ps"
    using i(3) stands_for_grow unfolding st1(4) by (rule list_all2_mono)
  then obtain st' where "apply_loop S regex ranges subj (rest @ [stop]) st1 = Ok st'"
      "tracks st' OP_STOP [] ((out @ utf8_of emitted) @ utf8_of (expand S mode' pend' ps))"
      "copy_room (applied st1) \<le> copy_room (applied st') + 2 * length ps + 1"
      "\<exists>extra. apply_memory st' = apply_memory st1 @ extra"
    using Cons.IH [OF st1(2)] Cons.prems(3) st1(3) empties by fastforce
  then show ?case
    using i(1) st1 op step by (intro exI [of _ st']) auto
qed

text \<open>A compiled template, up to its \<open>OP_STOP\<close>, for the pieces of one match.\<close>

definition instructions_for :: "memory \<Rightarrow> nat \<Rightarrow> ns_range list \<Rightarrow> reference_buffer \<Rightarrow> piece list \<Rightarrow> bool" where
  "instructions_for mem subj ranges instrs ps \<longleftrightarrow>
     store_contents instrs \<noteq> [] \<and> instruction_op (last (store_contents instrs)) = OP_STOP \<and>
     list_all2 (stands_for mem subj ranges) (butlast (store_contents instrs)) ps"

definition template_for :: "memory \<Rightarrow> nat \<Rightarrow> ns_range list \<Rightarrow> reference_buffer \<Rightarrow> piece list \<Rightarrow> bool" where
  "template_for mem subj ranges instrs ps \<longleftrightarrow> instructions_for mem subj ranges instrs ps \<and> empties_outside OP_STOP ps"

lemma apply_template:
  assumes S: "string_library_contract S" and t: "template_for mem subj ranges instrs ps"
    and b: "copies_to mem b out" "0 < length mem" and room: "2 * length ps < copy_room b"
  shows "\<exists>mem' b'. RKApplyReferenceInstructions S regex ranges subj instrs mem b = Ok (mem', b') \<and>
    copies_to mem' b' (out @ utf8_of (expand S OP_STOP [] ps)) \<and>
    copy_room b \<le> copy_room b' + 2 * length ps + 1 \<and> (\<exists>extra. mem' = mem @ extra)"
proof -
  define cs where "cs = store_contents instrs"
  define "is" stop where "is = butlast cs" and "stop = last cs"
  have cs: "cs = is @ [stop]" "instruction_op stop = OP_STOP" "list_all2 (stands_for mem subj ranges) is ps"
      "empties_outside OP_STOP ps"
    using t by (auto simp: template_for_def instructions_for_def cs_def [symmetric] is_def stop_def)
  let ?st = "\<lparr>current_op = OP_STOP, conversion_string = None, apply_memory = mem, applied = b\<rparr>"
  have tr: "tracks ?st OP_STOP [] out" using b by (simp add: tracks_def plain_text_def)
  obtain st' where st': "apply_loop S regex ranges subj cs ?st = Ok st'"
      "tracks st' OP_STOP [] (out @ utf8_of (expand S OP_STOP [] ps))"
      "copy_room b \<le> copy_room (applied st') + 2 * length ps + 1" "\<exists>extra. apply_memory st' = mem @ extra"
    using apply_loop_pieces [OF S cs(2) tr, of subj ranges "is" ps regex] cs room by auto
  have none: "pending_length st' = 0" using st'(2) by (auto simp: tracks_def pending_length_def is_begin_def split: option.splits)
  have "cs \<noteq> []" using cs(1) by simp
  then have first: "buf_instructions instrs \<noteq> []" "buf_instructions instrs ! 0 = cs ! 0"
    by (auto simp: cs_def store_contents_def)
  show ?thesis
  proof (cases "is")
    case Nil
    then have "ps = []" "instruction_op (cs ! 0) = OP_STOP" using cs by auto
    then show ?thesis
      using first b(1) by (simp add: RKApplyReferenceInstructions_def is_begin_def)
  next
    case (Cons i rest)
    then have "instruction_op (cs ! 0) \<noteq> OP_STOP"
      using cs(1,3) by (cases ps) (auto simp: stands_for_def case_ops_def split: piece.splits)
    then show ?thesis
      using first st' none by (auto simp: RKApplyReferenceInstructions_def cs_def [symmetric] tracks_def)
  qed
qed

text \<open>
  Applying a compiled template to a match appends exactly the expansion of the template: the texts
  and captures in order, the characters and stretches after case operators converted, whatever was
  copied before untouched, provided no text within a case conversion is empty and the copy buffer does not
  have to grow.
\<close>

lemma apply_template_expands:
  assumes "string_library_contract S" "template_for mem subj ranges instrs ps"
    and "copies_to mem b out" "0 < length mem" "2 * length ps < copy_room b"
  shows "case RKApplyReferenceInstructions S regex ranges subj instrs mem b of
      Ok (mem', b') \<Rightarrow> RKEvaluateCopyInstructions mem' b' = Ok (out @ utf8_of (expand S OP_STOP [] ps))
    | Raise e \<Rightarrow> False
    | Undefined \<Rightarrow> False"
  using apply_template [OF assms, of regex] evaluate_copies by fastforce

text \<open>A concrete string library: UTF-8 decoded by the book, case conversion of the ASCII letters.\<close>

fun sample_decode :: "byte list \<Rightarrow> nat list option" where
  "sample_decode [] = Some []"
| "sample_decode (a # bs) =
     (if a < 0x80 then map_option (\<lambda>r. unat a # r) (sample_decode bs)
      else case bs of [] \<Rightarrow> None
      | b # cs \<Rightarrow>
         if a < 0xE0 then map_option (\<lambda>r. ((unat a - 0xC0) * 64 + (unat b - 0x80)) # r) (sample_decode cs)
         else (case cs of [] \<Rightarrow> None
         | c # ds \<Rightarrow>
            if a < 0xF0
            then map_option (\<lambda>r. ((unat a - 0xE0) * 4096 + (unat b - 0x80) * 64 + (unat c - 0x80)) # r) (sample_decode ds)
            else (case ds of [] \<Rightarrow> None
            | d # es \<Rightarrow>
               map_option (\<lambda>r. ((unat a - 0xF0) * 262144 + (unat b - 0x80) * 4096 + (unat c - 0x80) * 64 + (unat d - 0x80)) # r)
                 (sample_decode es))))"

definition ascii_upper :: "nat \<Rightarrow> nat" where
  "ascii_upper c = (if 97 \<le> c \<and> c \<le> 122 then c - 32 else c)"

definition ascii_lower :: "nat \<Rightarrow> nat" where
  "ascii_lower c = (if 65 \<le> c \<and> c \<le> 90 then c + 32 else c)"

definition sample_strings :: string_library where
  "sample_strings = \<lparr>decode_utf8 = sample_decode, uppercase_string = map ascii_upper, lowercase_string = map ascii_lower\<rparr>"

lemma unat_byte: "n < 256 \<Longrightarrow> unat (of_nat n :: byte) = n"
  by (simp add: unat_of_nat)

lemma three_bytes: "(c div 4096) * 4096 + (c div 64 mod 64) * 64 + c mod 64 = (c::nat)"
proof -
  have "c div 4096 = c div 64 div 64" by (simp add: div_mult2_eq [symmetric])
  moreover have "c div 64 div 64 * 64 + c div 64 mod 64 = c div 64" by (rule div_mult_mod_eq)
  moreover have "c div 64 * 64 + c mod 64 = c" by (rule div_mult_mod_eq)
  ultimately show ?thesis by linarith
qed

lemma four_bytes: "(c div 262144) * 262144 + (c div 4096 mod 64) * 4096 + (c div 64 mod 64) * 64 + c mod 64 = (c::nat)"
proof -
  have "c div 262144 = c div 4096 div 64" by (simp add: div_mult2_eq [symmetric])
  moreover have "c div 4096 div 64 * 64 + c div 4096 mod 64 = c div 4096" by (rule div_mult_mod_eq)
  ultimately show ?thesis using three_bytes [of c] by linarith
qed

lemma sample_decode_encode:
  assumes "valid_code_point c"
  shows "sample_decode (utf8_encode c @ rest) = map_option (\<lambda>r. c # r) (sample_decode rest)"
proof -
  have less: "(of_nat n :: byte) < k \<longleftrightarrow> n < unat k" if "n < 256" for n k
    using that by (simp add: word_less_nat_alt unat_byte)
  note lead = code_point_lead_less [OF assms]
  consider (1) "c < 0x80" | (2) "0x80 \<le> c" "c < 0x800" | (3) "0x800 \<le> c" "c < 0x10000" | (4) "0x10000 \<le> c"
    by linarith
  then show ?thesis
  proof cases
    case 1
    then show ?thesis using less [of c] by (simp add: utf8_encode_def unat_byte del: of_nat_add)
  next
    case 2
    define a b where "a = 0xC0 + c div 64" and "b = 0x80 + c mod 64"
    have ab: "a < 256" "b < 256" "\<not> a < 128" "a < 224" "(a - 0xC0) * 64 + (b - 0x80) = c"
      using lead(1) 2 by (simp_all add: a_def b_def)
    have "utf8_encode c = [of_nat a, of_nat b]" using 2 by (simp add: utf8_encode_def a_def b_def)
    then show ?thesis using ab less [OF ab(1)] by (simp add: unat_byte del: of_nat_add)
  next
    case 3
    define x y z where "x = c div 4096" and "y = c div 64 mod 64" and "z = c mod 64"
    have c: "x * 4096 + y * 64 + z = c" unfolding x_def y_def z_def by (rule three_bytes)
    have xyz: "x < 16" "y < 64" "z < 64" using lead(2) 3 by (simp_all add: x_def y_def z_def)
    have "utf8_encode c = [of_nat (0xE0 + x), of_nat (0x80 + y), of_nat (0x80 + z)]"
      using 3 by (simp add: utf8_encode_def x_def y_def z_def)
    then show ?thesis
      using xyz c less [of "0xE0 + x"] by (simp add: unat_byte del: of_nat_add)
  next
    case 4
    define x y z w where "x = c div 262144" and "y = c div 4096 mod 64" and "z = c div 64 mod 64" and "w = c mod 64"
    have c: "x * 262144 + y * 4096 + z * 64 + w = c" unfolding x_def y_def z_def w_def by (rule four_bytes)
    have xyz: "x < 8" "y < 64" "z < 64" "w < 64" using lead(3) by (simp_all add: x_def y_def z_def w_def)
    have "utf8_encode c = [of_nat (0xF0 + x), of_nat (0x80 + y), of_nat (0x80 + z), of_nat (0x80 + w)]"
      using 4 by (simp add: utf8_encode_def x_def y_def z_def w_def)
    then show ?thesis
      using xyz c less [of "0xF0 + x"] by (simp add: unat_byte del: of_nat_add)
  qed
qed

lemma sample_strings_contract: "string_library_contract sample_strings"
proof -
  have "sample_decode (utf8_of cps) = Some cps" if "plain_text cps" for cps
    using that by (induction cps) (simp_all add: utf8_of_def plain_text_def sample_decode_encode)
  moreover have "plain_text (map ascii_upper cps)" "plain_text (map ascii_lower cps)" if "plain_text cps" for cps
    using that by (auto simp: plain_text_def list_all_iff ascii_upper_def ascii_lower_def valid_code_point_def)
  ultimately show ?thesis by (simp add: string_library_contract_def sample_strings_def)
qed

text \<open>The template \<open>\uab\<close>, compiled, in a memory that holds the letters \<open>ab\<close>.\<close>

definition sample_template :: reference_buffer where
  "sample_template = foldl (store_append zero_instruction) (stack_store zero_instruction)
     [instruction OP_UPPERCASE_NEXT_CHAR 0 (NSMakeRange 0 0), instruction OP_COPY_RANGE 1 (NSMakeRange 0 2),
      instruction OP_STOP 0 (NSMakeRange NSNotFound 0)]"

lemma sample_template_contents:
  "store_contents sample_template =
     [instruction OP_UPPERCASE_NEXT_CHAR 0 (NSMakeRange 0 0), instruction OP_COPY_RANGE 1 (NSMakeRange 0 2),
      instruction OP_STOP 0 (NSMakeRange NSNotFound 0)]"
  unfolding sample_template_def by (subst instructions.append_all [THEN conjunct1]) simp_all

lemma apply_template_expands_witness:
  "case RKApplyReferenceInstructions sample_strings sample_regex [] 1 sample_template [0, 97, 98] empty_copies of
      Ok (mem', b') \<Rightarrow> RKEvaluateCopyInstructions mem' b' = Ok [65, 98]
    | Raise e \<Rightarrow> False | Undefined \<Rightarrow> False"
proof -
  have "template_for [0, 97, 98] 1 [] sample_template [CaseOp OP_UPPERCASE_NEXT_CHAR, Text [97, 98]]"
    by (simp add: template_for_def instructions_for_def sample_template_contents stands_for_def instruction_def case_ops_def
        plain_text_def valid_code_point_def read_bytes_def utf8_of_def utf8_encode_def)
  moreover have "expand sample_strings OP_STOP [] [CaseOp OP_UPPERCASE_NEXT_CHAR, Text [97, 98]] = [65, 98]"
    by (simp add: is_begin_def is_next_def convert_case_def sample_strings_def ascii_upper_def)
  moreover have "utf8_of [65, 98] = [65, 98]" by (simp add: utf8_of_def utf8_encode_def)
  moreover have "copy_room empty_copies = 64" by (simp add: empty_copies_def)
  ultimately show ?thesis
    using apply_template_expands [OF sample_strings_contract _ copies_to_empty, of "[0, 97, 98]" 1 "[]" sample_template
        "[CaseOp OP_UPPERCASE_NEXT_CHAR, Text [97, 98]]" sample_regex]
    by (simp only: append_Nil) simp
qed

text \<open>
  The condition on empty texts is needed: in \<open>\Ua$0\E\<close> with an empty capture 0, the empty capture ends
  the conversion mode without flushing it, the operator \<open>\E\<close> then finds no mode, and the pending text is
  left over, which the assertion at the end reports (without assertions it is lost).
\<close>

lemma empty_capture_loses_text:
  "RKApplyReferenceInstructions sample_strings sample_regex [NSMakeRange 0 0] 1
     \<lparr>buf_length = 5, buf_capacity = 64, buf_instructions =
        [instruction OP_UPPERCASE_BEGIN 0 (NSMakeRange 0 0), instruction OP_COPY_RANGE 1 (NSMakeRange 0 1),
         instruction OP_COPY_CAPTUREINDEX 0 (NSMakeRange 0 0), instruction OP_CHANGE_CASE_END 0 (NSMakeRange 0 0),
         instruction OP_STOP 0 (NSMakeRange 0 0)], buf_on_heap = False\<rparr> [0, 97] empty_copies = Raise NSInternalInconsistencyException"
  by (simp add: RKApplyReferenceInstructions_def instruction_def store_contents_def apply_step_def Let_def
      fetch_operand_def is_begin_def is_next_def read_bytes_def sample_strings_def capture_is_def pending_length_def)

end
