(* ===== verification/RK_Template.thy ===== *)
theory RK_Template
  imports RK_Replace
begin

text \<open>
  Compiling a replacement template, \<open>RKCompileReferenceStringX\<close> of \<open>NSString.m\<close>, and the function that
  expands a template for one match, \<open>RKStringFromReferenceString\<close>. A template consists of text, of \<open>$$\<close>,
  of capture references, of \<open>\0\<close> to \<open>\9\<close>, and of the case operators \<open>\u \l \U \L \E\<close>.
\<close>

section \<open>The compiler\<close>

datatype template_error = BadReference reference_error | BadCapture nat

text \<open>
  The variables of the loop: \<open>referenceIndex\<close>, \<open>currentRange\<close> (the literal text not yet copied) and the
  instruction buffer. The characters of the template are at address \<open>ptr\<close>.
\<close>

record compile_state =
  reference_index :: nat
  literal_start :: nat
  literal_length :: nat
  compiled :: reference_buffer

definition literal_range :: "compile_state \<Rightarrow> ns_range" where
  "literal_range st = NSMakeRange (of_nat (literal_start st)) (of_nat (literal_length st))"

definition next_literal :: "compile_state \<Rightarrow> nat \<Rightarrow> compile_state" where
  "next_literal st i = st\<lparr>reference_index := i, literal_start := i, literal_length := 0\<rparr>"

definition case_operator :: "byte \<Rightarrow> reference_op option" where
  "case_operator c =
     (if c = 0x75 then Some OP_UPPERCASE_NEXT_CHAR else if c = 0x6c then Some OP_LOWERCASE_NEXT_CHAR
      else if c = 0x55 then Some OP_UPPERCASE_BEGIN else if c = 0x4c then Some OP_LOWERCASE_BEGIN
      else if c = 0x45 then Some OP_CHANGE_CASE_END else None)"

definition append_reference :: "nat \<Rightarrow> compile_state \<Rightarrow> reference_op \<Rightarrow> nat \<Rightarrow> ns_range \<Rightarrow> compile_state" where
  "append_reference ptr st op p r =
     st\<lparr>compiled := RKAppendInstruction (RKAppendInstruction (compiled st) OP_COPY_RANGE ptr (literal_range st)) op p r\<rparr>"

definition compile_step :: "RKStringBuffer \<Rightarrow> nat \<Rightarrow> RKRegex \<Rightarrow> compile_state \<Rightarrow> (template_error option \<times> compile_state) run" where
  "compile_step b ptr regex st =
     (let cs = buffer_characters b; i = reference_index st;
          literal = st\<lparr>reference_index := i + 1, literal_length := literal_length st + 1\<rparr>
      in run_bind (read_char cs i) (\<lambda>c.
         run_bind (if c = 0x24 \<or> c = 0x5c then read_char cs (i + 1) else Ok 0) (\<lambda>d.
           if c = 0x24 \<and> d = 0x24 then
             Ok (None, next_literal (st\<lparr>compiled := RKAppendInstruction (compiled st) OP_COPY_RANGE ptr
               (NSMakeRange (of_nat (literal_start st)) (of_nat (literal_length st + 1)))\<rparr>) (i + 2))
           else if c = 0x24 then
             run_bind (parse_in_template b (of_nat i) regex) (\<lambda>r.
               if successfulParse r then
                 Ok (None, next_literal
                   (if parsedReferenceUInteger r = NSNotFound
                    then append_reference ptr st OP_COPY_CAPTURENAME (ptr + i) (parsedReferenceRange r)
                    else append_reference ptr st OP_COPY_CAPTUREINDEX 0 (NSMakeRange (parsedReferenceUInteger r) 0))
                   (i + unat (range_length (parsedRange r))))
               else Ok (map_option BadReference (parseError r), st))
           else if c = 0x5c \<and> is_digit d then
             (if ucast d - 0x30 \<ge> captureCount regex then Ok (Some (BadCapture (unat d - 0x30)), st)
              else Ok (None, next_literal (append_reference ptr st OP_COPY_CAPTUREINDEX 0 (NSMakeRange (ucast d - 0x30) 0)) (i + 2)))
           else if c = 0x5c then
             (case case_operator d of
                Some op \<Rightarrow> Ok (None, next_literal (append_reference ptr st op 0 (NSMakeRange 0 0)) (i + 2))
              | None \<Rightarrow> Ok (None, literal))
           else Ok (None, literal))))"

lemma parse_success: "parse_in_template b loc regex = Ok r \<Longrightarrow> successfulParse r \<longleftrightarrow> parseError r = None"
  by (auto simp: parse_in_template_def RKParseReference_def Let_def run_simps reference_result_of_def
      split: if_splits option.splits)

text \<open>A reference that parses is at least two characters long, in any string that fits into memory.\<close>

lemma parse_advances:
  assumes "parse_in_template b (of_nat i) regex = Ok r" "successfulParse r" "length (buffer_characters b) < 2 ^ 64"
    and "i < length (buffer_characters b)"
  shows "0 < unat (range_length (parsedRange r))"
proof -
  define cs where "cs = drop i (buffer_characters b)"
  have u: "unat (of_nat i :: u64) = i" using assms(3,4) by (intro unat_of_nat_small) simp
  have cs: "cs \<noteq> []" "length cs < 2 ^ 64" using assms(3,4) by (auto simp: cs_def)
  obtain err sc where sc: "scan_reference cs (buffer_length b - of_nat i) False True False = Ok (err, sc)" "good_scan cs err sc"
    using scan_reference_ok [OF cs(1)] by blast
  have none: "parseError r = None" using parse_success assms(1,2) by blast
  have err: "err = None"
    using assms(1,4) sc(1) none
    by (auto simp: parse_in_template_def RKParseReference_def Let_def u cs_def [symmetric] run_simps
        reference_result_of_def split: if_splits option.splits)
  then have "end_reference sc < 2 ^ 64" "2 \<le> end_reference sc" using sc(2) cs(2) by (auto simp: good_scan_def)
  then have "unat (of_nat (end_reference sc) :: u64) = end_reference sc" by (intro unat_of_nat_small)
  moreover have "range_length (parsedRange r) = of_nat (end_reference sc)"
    using assms(1,4) sc(1) none err
    by (auto simp: parse_in_template_def RKParseReference_def Let_def u cs_def [symmetric] run_simps
        reference_result_of_def split: if_splits option.splits)
  ultimately show ?thesis using \<open>2 \<le> end_reference sc\<close> by simp
qed

lemma next_literal_sel [simp]:
  "reference_index (next_literal st i) = i" "literal_start (next_literal st i) = i"
  "literal_length (next_literal st i) = 0" "compiled (next_literal st i) = compiled st"
  by (simp_all add: next_literal_def)

lemma parse_failure: "parse_in_template b loc regex = Ok r \<Longrightarrow> \<not> successfulParse r \<Longrightarrow> parseError r \<noteq> None"
  using parse_success by blast

lemma compile_step_advances:
  assumes "compile_step b ptr regex st = Ok (None, st')" "length (buffer_characters b) < 2 ^ 64"
  shows "reference_index st < reference_index st' \<and> reference_index st \<le> length (buffer_characters b)"
proof -
  define i where "i = reference_index st"
  obtain c where c: "read_char (buffer_characters b) i = Ok c"
    using assms(1) by (auto simp: compile_step_def Let_def run_simps i_def)
  have le: "i \<le> length (buffer_characters b)" using c by (auto simp: read_char_Ok)
  have "i < reference_index st'"
  proof (cases "c = 0x24")
    case True
    then have inside: "i < length (buffer_characters b)" using c by (auto simp: read_char_Ok)
    obtain d where d: "read_char (buffer_characters b) (i + 1) = Ok d"
      using assms(1) c True by (auto simp: compile_step_def Let_def run_simps i_def)
    show ?thesis
    proof (cases "d = 0x24")
      case True
      then show ?thesis using assms(1) c d \<open>c = 0x24\<close> by (auto simp: compile_step_def Let_def i_def)
    next
      case False
      then obtain r where r: "parse_in_template b (of_nat i) regex = Ok r"
        using assms(1) c d True by (auto simp: compile_step_def Let_def run_simps i_def)
      then have "successfulParse r" "reference_index st' = i + unat (range_length (parsedRange r))"
        using assms(1) c d True False parse_failure [OF r]
        by (auto simp: compile_step_def Let_def run_simps i_def split: if_splits)
      then show ?thesis using parse_advances [OF r _ assms(2) inside] by simp
    qed
  next
    case False
    then show ?thesis
      using assms(1) c by (auto simp: compile_step_def Let_def run_simps i_def split: if_splits option.splits)
  qed
  then show ?thesis using le by (simp add: i_def)
qed

text \<open>
  The loop. That no string is as long as the address space, which C guarantees, is what makes it
  terminate: the length of a parsed reference is a 64 bit number.
\<close>

function compile_loop :: "RKStringBuffer \<Rightarrow> nat \<Rightarrow> RKRegex \<Rightarrow> compile_state \<Rightarrow> (template_error option \<times> reference_buffer) run" where
  "compile_loop b ptr regex st =
     (if \<not> length (buffer_characters b) < 2 ^ 64 then Undefined
      else if \<not> reference_index st < unat (buffer_length b) then
        Ok (None, RKAppendInstruction (RKAppendInstruction (compiled st) OP_COPY_RANGE ptr (literal_range st))
                    OP_STOP 0 (NSMakeRange NSNotFound 0))
      else case compile_step b ptr regex st of
        Ok (None, st') \<Rightarrow> compile_loop b ptr regex st'
      | Ok (Some e, st') \<Rightarrow> Ok (Some e, compiled st')
      | Raise e \<Rightarrow> Raise e
      | Undefined \<Rightarrow> Undefined)"
  by pat_completeness auto
termination
  by (relation "measure (\<lambda>(b, ptr, regex, st). length (buffer_characters b) + 1 - reference_index st)")
    (auto dest!: compile_step_advances)

declare compile_loop.simps [simp del]

definition RKCompileReferenceStringX ::
  "RKStringBuffer \<Rightarrow> nat \<Rightarrow> RKRegex \<Rightarrow> reference_buffer \<Rightarrow> (template_error option \<times> reference_buffer) run" where
  "RKCompileReferenceStringX b ptr regex instrs =
     compile_loop b ptr regex \<lparr>reference_index = 0, literal_start = 0, literal_length = 0, compiled = instrs\<rparr>"

definition RKCompileReferenceString :: "RKStringBuffer \<Rightarrow> nat \<Rightarrow> RKRegex \<Rightarrow> reference_buffer \<Rightarrow> reference_buffer run" where
  "RKCompileReferenceString b ptr regex instrs =
     run_bind (RKCompileReferenceStringX b ptr regex instrs) (\<lambda>(err, instrs').
       if err \<noteq> None then Raise RKRegexCaptureReferenceException else Ok instrs')"

section \<open>One template, one match\<close>

text \<open>
  \<open>RKStringFromReferenceString\<close> and its variant that reports the error of the template instead of raising
  it. The template is at \<open>refPtr\<close>, the subject of the match at \<open>subjectPtr\<close>.
\<close>

definition RKStringFromReferenceString ::
  "string_library \<Rightarrow> RKRegex \<Rightarrow> ns_range list \<Rightarrow> memory \<Rightarrow> nat \<Rightarrow> RKStringBuffer \<Rightarrow> nat \<Rightarrow> byte list run" where
  "RKStringFromReferenceString S regex matchRanges mem subjectPtr ref refPtr =
     run_bind (RKCompileReferenceString ref refPtr regex (stack_store zero_instruction)) (\<lambda>instrs.
     run_bind (RKApplyReferenceInstructions S regex matchRanges subjectPtr instrs mem empty_copies)
       (\<lambda>(mem', b). RKStringFromCopyInstructions mem' b))"

definition RKStringFromReferenceStringX ::
  "string_library \<Rightarrow> RKRegex \<Rightarrow> ns_range list \<Rightarrow> memory \<Rightarrow> nat \<Rightarrow> RKStringBuffer \<Rightarrow> nat \<Rightarrow>
     (byte list option \<times> template_error option) run" where
  "RKStringFromReferenceStringX S regex matchRanges mem subjectPtr ref refPtr =
     run_bind (RKCompileReferenceStringX ref refPtr regex (stack_store zero_instruction)) (\<lambda>(err, instrs).
       if err \<noteq> None then Ok (None, err)
       else run_bind (RKApplyReferenceInstructions S regex matchRanges subjectPtr instrs mem empty_copies)
         (\<lambda>(mem', b). run_map (\<lambda>s. (Some s, None)) (RKStringFromCopyInstructions mem' b)))"

section \<open>Templates as they are written\<close>

text \<open>A reference is a number or a name in brackets, with the index of the capture that it stands for.\<close>

datatype template_piece = Literal "nat list" | Dollar | Reference reference_body nat | Operator reference_op

fun op_letter :: "reference_op \<Rightarrow> byte" where
  "op_letter OP_UPPERCASE_NEXT_CHAR = 0x75"
| "op_letter OP_LOWERCASE_NEXT_CHAR = 0x6c"
| "op_letter OP_UPPERCASE_BEGIN = 0x55"
| "op_letter OP_LOWERCASE_BEGIN = 0x4c"
| "op_letter op = 0x45"

fun render :: "template_piece \<Rightarrow> byte list" where
  "render (Literal t) = utf8_of t"
| "render Dollar = [0x24, 0x24]"
| "render (Reference body n) = [0x24, 0x7b] @ body_text body @ [0x7d]"
| "render (Operator op) = [0x5c, op_letter op]"

text \<open>Literal text must not contain the two characters that have a meaning; references must exist.\<close>

fun good_piece :: "RKRegex \<Rightarrow> (nat \<times> byte list) list \<Rightarrow> template_piece \<Rightarrow> bool" where
  "good_piece regex entries (Literal t) \<longleftrightarrow> t \<noteq> [] \<and> plain_text t \<and> list_all (\<lambda>c. c \<noteq> 0x24 \<and> c \<noteq> 0x5c) (utf8_of t)"
| "good_piece regex entries Dollar \<longleftrightarrow> True"
| "good_piece regex entries (Reference body n) \<longleftrightarrow>
     good_body body \<and> body_index entries body = (None, of_nat n) \<and> n < unat (captureCount regex) \<and> n < 9223372036854775807"
| "good_piece regex entries (Operator op) \<longleftrightarrow> op \<in> case_ops"

fun meaning :: "(nat \<Rightarrow> nat list) \<Rightarrow> template_piece \<Rightarrow> piece" where
  "meaning caps (Literal t) = Text t"
| "meaning caps Dollar = Text [0x24]"
| "meaning caps (Reference body n) = Text (caps n)"
| "meaning caps (Operator op) = CaseOp op"

text \<open>
  The captures a template refers to: one that took no part in the match, or matched nothing, has no text.
\<close>

fun capture_present :: "memory \<Rightarrow> nat \<Rightarrow> ns_range list \<Rightarrow> (nat \<Rightarrow> nat list) \<Rightarrow> template_piece \<Rightarrow> bool" where
  "capture_present mem subj ranges caps (Reference body n) \<longleftrightarrow>
     n < length ranges \<and> plain_text (caps n) \<and> subj \<noteq> 0 \<and>
     (if caps n = [] then range_length (ranges ! n) = 0
      else read_bytes mem (subj + unat (range_location (ranges ! n))) (unat (range_length (ranges ! n))) = Ok (utf8_of (caps n)))"
| "capture_present mem subj ranges caps p \<longleftrightarrow> True"

section \<open>Equal expansions\<close>

definition same_expansion :: "string_library \<Rightarrow> piece list \<Rightarrow> piece list \<Rightarrow> bool" where
  "same_expansion S xs ys \<longleftrightarrow>
     (\<forall>mode pend. expand S mode pend xs = expand S mode pend ys) \<and> (\<forall>mode. empties_outside mode xs = empties_outside mode ys)"

lemma same_expansion_refl [simp]: "same_expansion S xs xs"
  by (simp add: same_expansion_def)

lemma same_expansion_trans: "same_expansion S xs ys \<Longrightarrow> same_expansion S ys zs \<Longrightarrow> same_expansion S xs zs"
  by (simp add: same_expansion_def)

lemma same_expansion_Cons: "same_expansion S xs ys \<Longrightarrow> same_expansion S (p # xs) (p # ys)"
  by (cases p) (simp_all add: same_expansion_def case_prod_beta)

lemma same_expansion_append: "same_expansion S xs ys \<Longrightarrow> same_expansion S (zs @ xs) (zs @ ys)"
  by (induction zs) (simp_all add: same_expansion_Cons)

lemma same_expansion_join:
  "a \<noteq> [] \<Longrightarrow> b \<noteq> [] \<Longrightarrow> same_expansion S (Text a # Text b # xs) (Text (a @ b) # xs)"
  by (cases a) (auto simp: same_expansion_def is_begin_def is_next_def)

definition pending :: "nat list \<Rightarrow> piece list" where
  "pending lit = (if lit = [] then [] else [Text lit])"

lemma pending_join: "t \<noteq> [] \<Longrightarrow> same_expansion S (pending (lit @ t) @ xs) (pending lit @ Text t # xs)"
  using same_expansion_join [of lit t S xs] by (auto simp: pending_def same_expansion_def)

section \<open>Compiling a template piece by piece\<close>

lemma case_operator_letter: "op \<in> case_ops \<Longrightarrow> case_operator (op_letter op) = Some op \<and> \<not> is_digit (op_letter op)"
  by (auto simp: case_ops_def case_operator_def is_digit_def)

lemma append_reference_stands:
  assumes "store_ok b" "list_all2 (stands_for mem subj ranges) (store_contents b) ps" "0 < store_room b"
    and "stands_for mem subj ranges (instruction op p r) x" "op \<noteq> OP_COPY_RANGE"
  shows "store_ok (RKAppendInstruction b op p r)"
    and "list_all2 (stands_for mem subj ranges) (store_contents (RKAppendInstruction b op p r)) (ps @ [x])"
    and "store_room (RKAppendInstruction b op p r) = store_room b - 1"
  using assms
  by (simp_all add: RKAppendInstruction_def instructions.append_contents instructions.append_well_formed
      instructions.append_room list_all2_appendI)

lemma append_literal_stands:
  assumes b: "store_ok b" "list_all2 (stands_for mem subj ranges) (store_contents b) ps" "0 < store_room b"
    and mem: "read_bytes mem ptr (length cs) = Ok cs" "ptr \<noteq> 0" "length cs < 2 ^ 64"
    and cs: "cs = pre @ utf8_of lit @ post" "plain_text lit"
  shows "let b' = RKAppendInstruction b OP_COPY_RANGE ptr (NSMakeRange (of_nat (length pre)) (of_nat (length (utf8_of lit))))
    in store_ok b' \<and> list_all2 (stands_for mem subj ranges) (store_contents b') (ps @ pending lit) \<and>
       store_room b \<le> store_room b' + 1"
proof -
  have len: "length pre < 2 ^ 64" "length (utf8_of lit) < 2 ^ 64" using mem(3) cs(1) by simp_all
  note u = unat_of_nat_small [OF len(1)] unat_of_nat_small [OF len(2)]
  show ?thesis
  proof (cases "lit = []")
    case True
    then show ?thesis using b by (simp add: RKAppendInstruction_def pending_def)
  next
    case False
    then have ne: "utf8_of lit \<noteq> []" by (cases lit) (simp_all add: utf8_of_def)
    then have nz: "(of_nat (length (utf8_of lit)) :: u64) \<noteq> 0"
      using u(2) by (metis length_0_conv unat_0)
    have "read_bytes mem (ptr + length pre) (length (utf8_of lit) + length post) = Ok (utf8_of lit @ post)"
      using read_bytes_split [of mem ptr "length pre" "length (utf8_of lit) + length post" cs] mem(1) cs(1) by simp
    then have "read_bytes mem (ptr + length pre) (length (utf8_of lit)) = Ok (utf8_of lit)"
      using read_bytes_split [of mem "ptr + length pre" "length (utf8_of lit)" "length post" "utf8_of lit @ post"] by simp
    then have "stands_for mem subj ranges
        (instruction OP_COPY_RANGE ptr (NSMakeRange (of_nat (length pre)) (of_nat (length (utf8_of lit))))) (Text lit)"
      using False cs(2) mem(2) u by (simp add: stands_for_def instruction_def)
    then show ?thesis
      using b nz False
      by (simp add: RKAppendInstruction_def pending_def instructions.append_contents instructions.append_well_formed
          instructions.append_room list_all2_appendI Let_def)
  qed
qed

text \<open>Plain characters only lengthen the literal.\<close>

lemma compile_plain_chars:
  assumes len: "length (buffer_characters b) < 2 ^ 64" "unat (buffer_length b) = length (buffer_characters b)"
  shows "list_all (\<lambda>c. c \<noteq> 0x24 \<and> c \<noteq> 0x5c) w \<Longrightarrow> drop (reference_index st) (buffer_characters b) = w @ post \<Longrightarrow>
    compile_loop b ptr regex st =
      compile_loop b ptr regex (st\<lparr>reference_index := reference_index st + length w, literal_length := literal_length st + length w\<rparr>)"
proof (induction w arbitrary: st)
  case (Cons c w)
  let ?st1 = "st\<lparr>reference_index := reference_index st + 1, literal_length := literal_length st + 1\<rparr>"
  have at: "reference_index st < length (buffer_characters b)" "buffer_characters b ! reference_index st = c"
      "drop (Suc (reference_index st)) (buffer_characters b) = w @ post"
    using drop_Cons_nth [of "reference_index st" "buffer_characters b" c "w @ post"] Cons.prems(2) by simp_all
  have "compile_step b ptr regex st = Ok (None, ?st1)"
    using Cons.prems(1) at by (simp add: compile_step_def read_char_def char_at_def Let_def)
  then have "compile_loop b ptr regex st = compile_loop b ptr regex ?st1"
    using at(1) len by (subst compile_loop.simps) simp
  also have "\<dots> = compile_loop b ptr regex
      (?st1\<lparr>reference_index := reference_index ?st1 + length w, literal_length := literal_length ?st1 + length w\<rparr>)"
    using Cons.IH [of ?st1] Cons.prems(1) at(3) by simp
  finally show ?case by simp
qed simp

text \<open>The three other kinds of pieces, each in one turn of the loop.\<close>

lemma read_two:
  assumes "drop i cs = c # d # post"
  shows "i < length cs \<and> read_char cs i = Ok c \<and> read_char cs (i + 1) = Ok d"
proof -
  have 1: "i < length cs" "cs ! i = c" "drop (Suc i) cs = d # post" using drop_Cons_nth [OF assms] by auto
  have 2: "Suc i < length cs" "cs ! Suc i = d" using drop_Cons_nth [OF 1(3)] by auto
  show ?thesis using 1 2 by (simp add: read_char_def char_at_def)
qed

lemma compile_dollar:
  assumes "length (buffer_characters b) < 2 ^ 64" "unat (buffer_length b) = length (buffer_characters b)"
    and "drop (reference_index st) (buffer_characters b) = [0x24, 0x24] @ post"
  shows "compile_loop b ptr regex st =
    compile_loop b ptr regex (next_literal (st\<lparr>compiled := RKAppendInstruction (compiled st) OP_COPY_RANGE ptr
      (NSMakeRange (of_nat (literal_start st)) (of_nat (literal_length st + 1)))\<rparr>) (reference_index st + 2))"
  using assms read_two [of "reference_index st" "buffer_characters b" "0x24" "0x24" post]
  by (subst compile_loop.simps) (simp add: compile_step_def Let_def)

lemma compile_operator:
  assumes "length (buffer_characters b) < 2 ^ 64" "unat (buffer_length b) = length (buffer_characters b)"
    and "drop (reference_index st) (buffer_characters b) = [0x5c, op_letter op] @ post" "op \<in> case_ops"
  shows "compile_loop b ptr regex st =
    compile_loop b ptr regex (next_literal (append_reference ptr st op 0 (NSMakeRange 0 0)) (reference_index st + 2))"
  using assms(1-3) read_two [of "reference_index st" "buffer_characters b" "0x5c" "op_letter op" post] case_operator_letter [OF assms(4)]
  by (subst compile_loop.simps) (simp add: compile_step_def Let_def)

lemma compile_reference:
  assumes b: "addressable b" "length (buffer_characters b) < 2147483648"
    and names: "names_table regex entries" "distinct (map snd entries)" "unique_names regex" "list_all (\<lambda>(i, nm). i < 128) entries"
    and here: "buffer_characters b = pre @ render (Reference body n) @ post" "reference_index st = length pre"
    and good: "good_piece regex entries (Reference body n)"
  shows "compile_loop b ptr regex st =
    compile_loop b ptr regex (next_literal
      (append_reference ptr st OP_COPY_CAPTUREINDEX 0 (NSMakeRange (of_nat n) 0))
      (reference_index st + length (render (Reference body n))))"
proof -
  let ?len = "length (body_text body)"
  have len: "length (buffer_characters b) < 2 ^ 64" "unat (buffer_length b) = length (buffer_characters b)"
    using b by (auto simp: addressable_def valid_buffer_def)
  have g: "good_body body" "body_index entries body = (None, of_nat n)" "n < unat (captureCount regex)" "n < 9223372036854775807"
    using good by simp_all
  have two: "reference_index st < length (buffer_characters b)" "read_char (buffer_characters b) (reference_index st) = Ok 0x24"
      "read_char (buffer_characters b) (reference_index st + 1) = Ok 0x7b"
    using read_two [of "reference_index st" "buffer_characters b" "0x24" "0x7b"] here by auto
  have small: "unat (of_nat n :: u64) = n" using g(4) by (intro unat_of_nat_small) simp
  have digit: "\<not> is_digit 0x7b" by (simp add: is_digit_def)
  have checked: "checked_index regex (body_index entries body) = (None, of_nat n)"
    using g(3) small by (simp add: checked_index_def g(2) word_le_nat_alt)
  have shape: "buffer_characters b = pre @ [0x24, 0x7b] @ body_text body @ [0x7d] @ post"
    using here(1) by simp
  have "run_map (\<lambda>r. ((map_option error_message (parseError r), parsedReferenceUInteger r), parsedRange r))
      (parse_in_template b (of_nat (reference_index st)) regex) =
    Ok ((None, of_nat n), NSMakeRange 0 (of_nat (?len + 3)))"
    using bracketed_reference_parses [OF b shape g(1) names] unfolding checked here(2) by simp
  then obtain r where r: "parse_in_template b (of_nat (reference_index st)) regex = Ok r" "parseError r = None"
      "parsedReferenceUInteger r = of_nat n" "parsedRange r = NSMakeRange 0 (of_nat (?len + 3))"
    unfolding run_map_Ok_iff by auto
  have "?len + 3 < 2 ^ 64" using b(2) here(1) by simp
  then have u: "unat (of_nat (?len + 3) :: u64) = ?len + 3" by (rule unat_of_nat_small)
  have nf: "(of_nat n :: u64) \<noteq> NSNotFound"
    using g(4) by (simp add: NSNotFound_def RKIntegerMax_def word_unat_eq_iff unat_of_nat)
  have "compile_step b ptr regex st = Ok (None, next_literal
      (append_reference ptr st OP_COPY_CAPTUREINDEX 0 (NSMakeRange (of_nat n) 0))
      (reference_index st + length (render (Reference body n))))"
    using two r parse_success [OF r(1)] nf u
    by (simp add: compile_step_def Let_def del: of_nat_add)
  then show ?thesis
    using two(1) len by (subst compile_loop.simps) simp
qed

section \<open>The whole template\<close>

text \<open>
  Where the compiler stands after some pieces: the characters before the pending literal are \<open>pre\<close>, the
  pending literal is \<open>lit\<close>, and the instructions so far stand for \<open>done\<close>.
\<close>

definition compiling ::
  "memory \<Rightarrow> nat \<Rightarrow> ns_range list \<Rightarrow> compile_state \<Rightarrow> piece list \<Rightarrow> byte list \<Rightarrow> nat list \<Rightarrow> bool" where
  "compiling mem subj ranges st ps pre lit \<longleftrightarrow>
     reference_index st = length pre + length (utf8_of lit) \<and> literal_start st = length pre \<and>
     literal_length st = length (utf8_of lit) \<and> plain_text lit \<and> store_ok (compiled st) \<and>
     list_all2 (stands_for mem subj ranges) (store_contents (compiled st)) ps"

definition compiles_to ::
  "string_library \<Rightarrow> memory \<Rightarrow> nat \<Rightarrow> ns_range list \<Rightarrow> (template_error option \<times> reference_buffer) run \<Rightarrow>
     piece list \<Rightarrow> piece list \<Rightarrow> nat \<Rightarrow> bool" where
  "compiles_to S mem subj ranges result ps meant n \<longleftrightarrow>
     (\<exists>instrs xs. result = Ok (None, instrs) \<and> instructions_for mem subj ranges instrs (ps @ xs) \<and>
        length xs \<le> n \<and> same_expansion S xs meant)"

lemma compiles_to_mono:
  assumes "compiles_to S mem subj ranges result (ps @ zs) meant n" "length zs + n \<le> n'" "same_expansion S (zs @ meant) meant'"
  shows "compiles_to S mem subj ranges result ps meant' n'"
proof -
  obtain instrs xs where x: "result = Ok (None, instrs)" "instructions_for mem subj ranges instrs ((ps @ zs) @ xs)"
      "length xs \<le> n" "same_expansion S xs meant"
    using assms(1) by (auto simp: compiles_to_def)
  have "same_expansion S (zs @ xs) meant'"
    using same_expansion_append [OF x(4)] assms(3) by (rule same_expansion_trans)
  then show ?thesis
    using x assms(2) unfolding compiles_to_def by (intro exI [of _ instrs] exI [of _ "zs @ xs"]) simp
qed

lemma compiling_literal:
  assumes "compiling mem subj ranges st ps pre lit" "read_bytes mem ptr (length cs) = Ok cs" "ptr \<noteq> 0" "length cs < 2 ^ 64"
    and "cs = pre @ utf8_of lit @ post" "0 < store_room (compiled st)"
  shows "store_ok (RKAppendInstruction (compiled st) OP_COPY_RANGE ptr (literal_range st))"
    and "list_all2 (stands_for mem subj ranges)
      (store_contents (RKAppendInstruction (compiled st) OP_COPY_RANGE ptr (literal_range st))) (ps @ pending lit)"
    and "store_room (compiled st) \<le> store_room (RKAppendInstruction (compiled st) OP_COPY_RANGE ptr (literal_range st)) + 1"
  using append_literal_stands [OF _ _ assms(6,2-5)] assms(1)
  by (auto simp: compiling_def literal_range_def Let_def)

lemma compiling_reference:
  assumes "compiling mem subj ranges st ps pre lit" "read_bytes mem ptr (length cs) = Ok cs" "ptr \<noteq> 0" "length cs < 2 ^ 64"
    and "cs = pre @ utf8_of lit @ own @ post" "2 \<le> store_room (compiled st)"
    and "stands_for mem subj ranges (instruction op p r) x" "op \<noteq> OP_COPY_RANGE"
  shows "compiling mem subj ranges (next_literal (append_reference ptr st op p r) (length (pre @ utf8_of lit @ own)))
      (ps @ pending lit @ [x]) (pre @ utf8_of lit @ own) []"
    and "store_room (compiled st) \<le> store_room (compiled (append_reference ptr st op p r)) + 2"
proof -
  let ?b = "RKAppendInstruction (compiled st) OP_COPY_RANGE ptr (literal_range st)"
  note lit = compiling_literal [OF assms(1-5)]
  have room: "0 < store_room (compiled st)" "0 < store_room ?b" using lit(3) assms(6) by simp_all
  note own = append_reference_stands [OF lit(1,2) room(2) assms(7,8), OF room(1) room(1)]
  show "compiling mem subj ranges (next_literal (append_reference ptr st op p r) (length (pre @ utf8_of lit @ own)))
      (ps @ pending lit @ [x]) (pre @ utf8_of lit @ own) []"
    using own(1,2) by (simp add: compiling_def append_reference_def plain_text_def)
  show "store_room (compiled st) \<le> store_room (compiled (append_reference ptr st op p r)) + 2"
    using own(3) lit(3) room by (simp add: append_reference_def)
qed

lemma compile_end:
  assumes "compiling mem subj ranges st ps pre lit" "read_bytes mem ptr (length cs) = Ok cs" "ptr \<noteq> 0" "length cs < 2 ^ 64"
    and cs: "cs = pre @ utf8_of lit" "buffer_characters b = cs" "unat (buffer_length b) = length cs"
    and room: "2 \<le> store_room (compiled st)"
  shows "compiles_to S mem subj ranges (compile_loop b ptr regex st) ps (pending lit) 1"
proof -
  let ?b = "RKAppendInstruction (compiled st) OP_COPY_RANGE ptr (literal_range st)"
  note lit = compiling_literal [OF assms(1-4), of "[]", unfolded append_Nil2, OF cs(1)]
  have "0 < store_room ?b" "0 < store_room (compiled st)" using lit(3) room by simp_all
  then have "store_contents (RKAppendInstruction ?b OP_STOP 0 (NSMakeRange NSNotFound 0)) =
      store_contents ?b @ [instruction OP_STOP 0 (NSMakeRange NSNotFound 0)]"
    using lit(1) by (simp add: RKAppendInstruction_def instructions.append_contents)
  then have "instructions_for mem subj ranges (RKAppendInstruction ?b OP_STOP 0 (NSMakeRange NSNotFound 0)) (ps @ pending lit)"
    using lit(2) \<open>0 < store_room (compiled st)\<close> by (simp add: instructions_for_def instruction_def)
  moreover have "compile_loop b ptr regex st = Ok (None, RKAppendInstruction ?b OP_STOP 0 (NSMakeRange NSNotFound 0))"
    using assms(1,4) cs by (subst compile_loop.simps) (simp add: compiling_def)
  ultimately show ?thesis
    unfolding compiles_to_def
    by (intro exI [of _ "RKAppendInstruction ?b OP_STOP 0 (NSMakeRange NSNotFound 0)"] exI [of _ "pending lit"])
      (auto simp: pending_def)
qed

text \<open>Every piece needs at most two instructions, the text before it and its own.\<close>

lemma compile_pieces:
  assumes b: "addressable b" "length (buffer_characters b) < 2147483648"
    and names: "names_table regex entries" "distinct (map snd entries)" "unique_names regex" "list_all (\<lambda>(i, nm). i < 128) entries"
    and mem: "read_bytes mem ptr (length (buffer_characters b)) = Ok (buffer_characters b)" "ptr \<noteq> 0"
  shows "buffer_characters b = pre @ utf8_of lit @ concat (map render tps) \<Longrightarrow>
    compiling mem subj ranges st ps pre lit \<Longrightarrow> 2 * length tps + 2 \<le> store_room (compiled st) \<Longrightarrow>
    list_all (\<lambda>p. good_piece regex entries p \<and> capture_present mem subj ranges caps p) tps \<Longrightarrow>
    compiles_to S mem subj ranges (compile_loop b ptr regex st) ps (pending lit @ map (meaning caps) tps) (2 * length tps + 1)"
proof (induction tps arbitrary: pre lit st ps)
  case Nil
  then show ?case
    using compile_end [OF Nil(2) mem _ _ refl, where S = S and regex = regex] Nil(1,3) b by (simp add: addressable_def valid_buffer_def)
next
  case (Cons tp tps)
  let ?cs = "buffer_characters b" and ?rest = "concat (map render tps)"
  have len: "length ?cs < 2 ^ 64" "unat (buffer_length b) = length ?cs"
    using b by (auto simp: addressable_def valid_buffer_def)
  have here: "drop (reference_index st) ?cs = render tp @ ?rest" "reference_index st = length (pre @ utf8_of lit)"
    using Cons.prems(1,2) by (simp_all add: compiling_def)
  have good: "good_piece regex entries tp" "capture_present mem subj ranges caps tp"
    using Cons.prems(4) by simp_all
  have rest: "list_all (\<lambda>p. good_piece regex entries p \<and> capture_present mem subj ranges caps p) tps" using Cons.prems(4) by simp
  have room: "2 \<le> store_room (compiled st)" using Cons.prems(3) by simp
  have own_piece: ?case
    if op: "compile_loop b ptr regex st =
        compile_loop b ptr regex (next_literal (append_reference ptr st op 0 r) (reference_index st + length (render tp)))"
      "stands_for mem subj ranges (instruction op 0 r) (meaning caps tp)" "op \<noteq> OP_COPY_RANGE" for op r
  proof -
    let ?st = "next_literal (append_reference ptr st op 0 r) (length (pre @ utf8_of lit @ render tp))"
    note c = compiling_reference [OF Cons.prems(2) mem len(1) _ room op(2,3), of "render tp" ?rest]
    have h: "compiles_to S mem subj ranges (compile_loop b ptr regex ?st) (ps @ pending lit @ [meaning caps tp])
        (pending [] @ map (meaning caps) tps) (2 * length tps + 1)"
      using Cons.IH [OF _ c(1) _ rest] c(2) Cons.prems(1,3) by simp
    have "reference_index st + length (render tp) = length (pre @ utf8_of lit @ render tp)" using here(2) by simp
    then have eq: "compile_loop b ptr regex st = compile_loop b ptr regex ?st" using op(1) by metis
    show ?thesis unfolding eq by (rule compiles_to_mono [OF h]) (simp_all add: pending_def)
  qed
  show ?case
  proof (cases tp)
    case (Literal t)
    then have t: "t \<noteq> []" "plain_text t" "list_all (\<lambda>c. c \<noteq> 0x24 \<and> c \<noteq> 0x5c) (utf8_of t)" using good(1) by simp_all
    let ?st = "st\<lparr>reference_index := reference_index st + length (utf8_of t), literal_length := literal_length st + length (utf8_of t)\<rparr>"
    have "compiling mem subj ranges ?st ps pre (lit @ t)" using Cons.prems(2) t(2) by (simp add: compiling_def)
    then have h: "compiles_to S mem subj ranges (compile_loop b ptr regex ?st) (ps @ []) (pending (lit @ t) @ map (meaning caps) tps) (2 * length tps + 1)"
      using Cons.IH [of pre "lit @ t" ?st ps] Cons.prems(1,3) Literal rest by simp
    have eq: "compile_loop b ptr regex st = compile_loop b ptr regex ?st"
      using compile_plain_chars [OF len t(3), of st ?rest ptr regex] here(1) Literal by simp
    show ?thesis
      unfolding eq using pending_join [OF t(1), of S lit "map (meaning caps) tps"] Literal
      by (intro compiles_to_mono [OF h]) simp_all
  next
    case Dollar
    let ?st = "next_literal (st\<lparr>compiled := RKAppendInstruction (compiled st) OP_COPY_RANGE ptr
      (NSMakeRange (of_nat (literal_start st)) (of_nat (literal_length st + 1)))\<rparr>) (reference_index st + 2)"
    have d: "utf8_of [0x24] = [0x24]" "plain_text [0x24]" by (simp_all add: utf8_of_def utf8_encode_def plain_text_def valid_code_point_def)
    note l = append_literal_stands [of "compiled st" mem subj ranges ps ptr ?cs pre "lit @ [0x24]" "[0x24] @ ?rest"]
    have st: "compiling mem subj ranges ?st (ps @ pending (lit @ [0x24])) (pre @ utf8_of lit @ [0x24, 0x24]) []"
        "store_room (compiled st) \<le> store_room (compiled ?st) + 1"
      using l Cons.prems(1,2) mem len(1) room d Dollar
      by (auto simp: compiling_def Let_def plain_text_def)
    have h: "compiles_to S mem subj ranges (compile_loop b ptr regex ?st) (ps @ pending (lit @ [0x24])) (pending [] @ map (meaning caps) tps) (2 * length tps + 1)"
      using Cons.IH [OF _ st(1) _ rest] st(2) Cons.prems(1,3) Dollar by simp
    have eq: "compile_loop b ptr regex st = compile_loop b ptr regex ?st"
      using compile_dollar [OF len, of st ?rest ptr regex] here(1) Dollar by simp
    have "same_expansion S (pending (lit @ [0x24]) @ pending [] @ map (meaning caps) tps) (pending lit @ map (meaning caps) (tp # tps))"
      using pending_join [of "[0x24]" S lit "map (meaning caps) tps"] Dollar by (simp add: pending_def [of "[]"])
    then show ?thesis unfolding eq by (intro compiles_to_mono [OF h]) (simp_all add: pending_def)
  next
    case (Reference body n)
    then have "compile_loop b ptr regex st = compile_loop b ptr regex (next_literal
        (append_reference ptr st OP_COPY_CAPTUREINDEX 0 (NSMakeRange (of_nat n) 0))
        (reference_index st + length (render tp)))"
      using compile_reference [OF b names, of "pre @ utf8_of lit" body n ?rest st ptr] Cons.prems(1) here(2) good(1) by simp
    moreover have "unat (of_nat n :: u64) = n"
      using good(1) Reference by (intro unat_of_nat_small) simp
    ultimately show ?thesis
      using own_piece [of OP_COPY_CAPTUREINDEX] good(2) Reference by (simp add: stands_for_def instruction_def Let_def)
  next
    case (Operator op)
    then show ?thesis
      using own_piece [of op "NSMakeRange 0 0"] compile_operator [OF len, of st op ?rest ptr regex] here(1) good(1)
      by (auto simp: stands_for_def instruction_def case_ops_def)
  qed
qed

section \<open>Expanding a template\<close>

fun plain_piece :: "piece \<Rightarrow> bool" where
  "plain_piece (Text t) = plain_text t"
| "plain_piece (CaseOp op) = True"

lemma expand_plain:
  assumes "string_library_contract S"
  shows "list_all plain_piece ps \<Longrightarrow> plain_text pend \<Longrightarrow> plain_text (expand S mode pend ps)"
proof (induction ps arbitrary: mode pend)
  case Nil
  then show ?case using convert_case_plain [OF assms] by (cases "pend = []") (simp_all add: flushed_text_def plain_text_def)
next
  case (Cons p ps)
  obtain mode' pend' emitted where step: "piece_step S mode pend p = (mode', pend', emitted)"
    by (cases "piece_step S mode pend p") auto
  have flush: "plain_text (flushed_text S mode pend)"
    using Cons.prems(2) convert_case_plain [OF assms] by (cases "pend = []") (simp_all add: flushed_text_def)
  have "plain_text pend' \<and> plain_text emitted"
  proof (cases p)
    case (Text t)
    then have t: "plain_text t" "plain_text (tl t)" using Cons.prems(1) by (cases t; simp add: plain_text_def)+
    have "plain_text (convert_case S mode [hd t])" if "t \<noteq> []"
      using convert_case_plain [OF assms, of "[hd t]"] t(1) that Text Cons.prems(1) by (cases t) (simp_all add: plain_text_def)
    then show ?thesis
      using step Text t Cons.prems(2) by (auto simp: plain_text_def split: if_splits)
  next
    case (CaseOp op)
    then show ?thesis using step flush Cons.prems(2) by (auto simp: plain_text_def split: if_splits)
  qed
  then show ?case using Cons step by simp
qed

text \<open>A template compiles to instructions that stand for its pieces, whatever match they are applied to.\<close>

lemma compile_for_match:
  assumes b: "addressable ref" "length (buffer_characters ref) < 2147483648"
    and names: "names_table regex entries" "distinct (map snd entries)" "unique_names regex" "list_all (\<lambda>(i, nm). i < 128) entries"
    and mem: "read_bytes mem ptr (length (buffer_characters ref)) = Ok (buffer_characters ref)" "ptr \<noteq> 0"
    and tps: "buffer_characters ref = concat (map render tps)" "length tps \<le> 30"
    and good: "list_all (\<lambda>p. good_piece regex entries p \<and> capture_present mem subj ranges caps p) tps"
    and empties: "empties_outside OP_STOP (map (meaning caps) tps)"
  shows "\<exists>instrs xs. RKCompileReferenceStringX ref ptr regex (stack_store zero_instruction) = Ok (None, instrs) \<and>
    template_for mem subj ranges instrs xs \<and> length xs \<le> 2 * length tps + 1 \<and> same_expansion S xs (map (meaning caps) tps)"
proof -
  let ?st = "\<lparr>reference_index = 0, literal_start = 0, literal_length = 0, compiled = stack_store zero_instruction\<rparr>"
  have "compiling mem subj ranges ?st [] [] []" by (simp add: compiling_def plain_text_def)
  then have "compiles_to S mem subj ranges (compile_loop ref ptr regex ?st) [] (pending [] @ map (meaning caps) tps) (2 * length tps + 1)"
    using compile_pieces [OF b names mem(1,2), of "[]" "[]" tps subj ranges ?st "[]" caps S] tps good by simp
  then obtain instrs xs where "RKCompileReferenceStringX ref ptr regex (stack_store zero_instruction) = Ok (None, instrs)"
      "instructions_for mem subj ranges instrs xs" "length xs \<le> 2 * length tps + 1" "same_expansion S xs (map (meaning caps) tps)"
    by (auto simp: compiles_to_def RKCompileReferenceStringX_def pending_def)
  then show ?thesis using empties by (auto simp: template_for_def same_expansion_def)
qed

lemma meaning_plain: "good_piece regex entries p \<Longrightarrow> capture_present mem subj ranges caps p \<Longrightarrow> plain_piece (meaning caps p)"
  by (cases p) (auto simp: plain_text_def valid_code_point_def)

lemma template_expands:
  assumes S: "string_library_contract S"
    and b: "addressable ref" "length (buffer_characters ref) < 2147483648"
    and names: "names_table regex entries" "distinct (map snd entries)" "unique_names regex" "list_all (\<lambda>(i, nm). i < 128) entries"
    and mem: "read_bytes mem ptr (length (buffer_characters ref)) = Ok (buffer_characters ref)" "ptr \<noteq> 0" "mem \<noteq> []"
    and tps: "buffer_characters ref = concat (map render tps)" "length tps \<le> 15"
    and good: "list_all (\<lambda>p. good_piece regex entries p \<and> capture_present mem subj ranges caps p) tps"
    and empties: "empties_outside OP_STOP (map (meaning caps) tps)"
  shows "RKStringFromReferenceString S regex ranges mem subj ref ptr =
    Ok (utf8_of (expand S OP_STOP [] (map (meaning caps) tps)))"
proof -
  obtain instrs xs where c: "RKCompileReferenceStringX ref ptr regex (stack_store zero_instruction) = Ok (None, instrs)"
      "template_for mem subj ranges instrs xs" "length xs \<le> 2 * length tps + 1" "same_expansion S xs (map (meaning caps) tps)"
    using compile_for_match [OF b names mem(1,2) tps(1) _ good empties, of S] tps(2) by auto
  let ?out = "utf8_of (expand S OP_STOP [] (map (meaning caps) tps))"
  have "2 * length xs < copy_room empty_copies" using c(3) tps(2) by (simp add: empty_copies_def)
  then obtain mem' b' where a: "RKApplyReferenceInstructions S regex ranges subj instrs mem empty_copies = Ok (mem', b')"
      "copies_to mem' b' ?out"
    using apply_template [OF S c(2) copies_to_empty _ , of regex] mem(3) c(4) by (auto simp: same_expansion_def)
  have "list_all plain_piece (map (meaning caps) tps)" using good meaning_plain by (auto simp: list_all_iff)
  then have "0 \<notin> set ?out"
    using expand_plain [OF S, of "map (meaning caps) tps" "[]"] utf8_of_no_nul by (simp add: plain_text_def)
  then show ?thesis
    using a string_from_copies c(1) by (simp add: RKStringFromReferenceString_def RKCompileReferenceString_def)
qed


text \<open>
  The template \<open>\u${0}${ab}$$\<close> for a match of \<open>ab\<close> in which the capture named \<open>ab\<close>, the second one, took no part, with
  the template at address 3 and the subject at 1.
\<close>

definition sample_reference :: "byte list" where
  "sample_reference = [0x5c, 0x75, 0x24, 0x7b, 0x30, 0x7d, 0x24, 0x7b, 0x61, 0x62, 0x7d, 0x24, 0x24]"


end
