(* ===== verification/RK_SearchReplace.thy ===== *)
theory RK_SearchReplace
  imports RK_Template RK_Regex
begin

text \<open>
  The search and replace loop, \<open>RKStringByMatchingAndExpandingX\<close> of \<open>NSString.m\<close>, and the methods of
  mutable strings on it. The loop collects copy instructions for the text between the matches and for the
  expansion of each match; it goes on behind the end of the last match, so that a match of length zero
  makes it stand still.
\<close>

section \<open>The part of the string to search\<close>

datatype search_span = WholeString | InRange ns_range | FromIndex u64 | ToIndex u64

definition search_range_of :: "ns_string \<Rightarrow> RKStringBuffer \<Rightarrow> search_span \<Rightarrow> ns_range run" where
  "search_range_of self b sp =
     (case sp of
        WholeString \<Rightarrow> Ok (NSMakeRange 0 (buffer_length b))
      | InRange r \<Rightarrow> RKConvertUTF16ToUTF8RangeForString (Some self) r
      | FromIndex i \<Rightarrow> run_map (\<lambda>r. NSMakeRange (range_location r) (buffer_length b - range_location r))
          (RKConvertUTF16ToUTF8RangeForString (Some self) (NSMakeRange i 0))
      | ToIndex i \<Rightarrow> RKConvertUTF16ToUTF8RangeForString (Some self) (NSMakeRange 0 i))"

section \<open>The loop\<close>

text \<open>
  What does not change during the loop: the libraries, the regex, the subject and its address, the
  compiled template, where the search ends, the greatest number of matches, and whether the text between
  the matches is copied (\<open>expandOrReplace\<close>).
\<close>

record replace_job =
  job_strings :: string_library
  job_exec :: pcre_exec
  job_regex :: RKRegex
  job_subject :: RKStringBuffer
  job_subject_ptr :: nat
  job_template :: reference_buffer
  job_end :: u64
  job_count :: u64
  job_replace :: bool

record replace_state =
  search_index :: u64
  matched_count :: u64
  range_memory :: "u32 list"
  text_memory :: memory
  result_copies :: copy_buffer

definition job_presize :: "replace_job \<Rightarrow> u64" where
  "job_presize job = RK_PRESIZE_CAPTURE_COUNT (captureCount (job_regex job))"

definition job_match :: "replace_job \<Rightarrow> u32 list \<Rightarrow> u64 \<Rightarrow> (int \<times> u32 list \<times> ns_error option) run" where
  "job_match job mem i =
     getRanges_count (job_exec job) (job_regex job) (Some mem) (job_presize job)
       (Some (buffer_characters (job_subject job))) (buffer_length (job_subject job))
       (NSMakeRange i (job_end job - i)) RKMatchNoUTF8Check"

definition replace_guard :: "replace_job \<Rightarrow> replace_state \<Rightarrow> bool" where
  "replace_guard job st \<longleftrightarrow>
     search_index st < job_end job \<and> (matched_count st < job_count job \<or> job_count job = RKReplaceAll)"

datatype replace_next = Again replace_state | NoMore replace_state | Failed "ns_error option"

definition replace_step :: "replace_job \<Rightarrow> replace_state \<Rightarrow> replace_next run" where
  "replace_step job st =
     run_bind (job_match job (range_memory st) (search_index st)) (\<lambda>(matched, mem, err).
       if matched < 0 then
         (if matched \<noteq> RKMatchErrorNoMatch then Ok (Failed err) else Ok (NoMore (st\<lparr>range_memory := mem\<rparr>)))
       else
         let r = get_range mem 0;
             ranges = map (get_range mem) [0..<length mem div 4];
             gap = (if job_replace job
                    then RKAppendCopyInstruction (result_copies st) (job_subject_ptr job) (unat (search_index st))
                           (unat (range_location r - search_index st))
                    else result_copies st)
         in run_bind (RKApplyReferenceInstructions (job_strings job) (job_regex job) ranges (job_subject_ptr job)
                        (job_template job) (text_memory st) gap) (\<lambda>(text', copies').
              Ok (Again (st\<lparr>search_index := range_location r + range_length r, matched_count := matched_count st + 1,
                            range_memory := mem, text_memory := text', result_copies := copies'\<rparr>))))"

text \<open>The loop itself: \<open>None\<close> means that it does not end.\<close>

partial_function (option) replace_loop ::
  "replace_job \<Rightarrow> replace_state \<Rightarrow> (ns_error option + replace_state) run option" where
  "replace_loop job st =
     (if \<not> replace_guard job st then Some (Ok (Inr st))
      else case replace_step job st of
        Ok nx \<Rightarrow> (case nx of Again st' \<Rightarrow> replace_loop job st' | NoMore st' \<Rightarrow> Some (Ok (Inr st')) | Failed e \<Rightarrow> Some (Ok (Inl e)))
      | Raise e \<Rightarrow> Some (Raise e)
      | Undefined \<Rightarrow> Some Undefined)"

section \<open>The whole function\<close>

text \<open>
  The answer: the search string itself, a new string, or \<open>NULL\<close>, and how many matches were made. The test
  for \<open>no changes\<close> compares with the length of the (empty) copy buffer.
\<close>

datatype replaced = SameString | NewString "byte list" | NoString

definition finish_replace :: "replace_job \<Rightarrow> replace_state \<Rightarrow> (replaced \<times> u64) run" where
  "finish_replace job st =
     (let len = buffer_length (job_subject job);
          rest = NSMakeRange (search_index st) (len - search_index st);
          n = of_nat (buf_length (copies (result_copies st)))
      in if \<not> job_replace job
         then run_map (\<lambda>s. (NewString s, matched_count st)) (RKStringFromCopyInstructions (text_memory st) (result_copies st))
         else if n = 0 \<and> NSEqualRanges (NSMakeRange 0 n) rest then Ok (SameString, matched_count st)
         else run_map (\<lambda>s. (NewString s, matched_count st))
           (RKStringFromCopyInstructions (text_memory st)
              (RKAppendCopyInstruction (result_copies st) (job_subject_ptr job) (unat (search_index st)) (unat (len - search_index st)))))"

definition start_state :: "replace_job \<Rightarrow> (nat \<Rightarrow> u32) \<Rightarrow> u64 \<Rightarrow> memory \<Rightarrow> replace_state" where
  "start_state job junk i mem =
     \<lparr>search_index = i, matched_count = 0, range_memory = stack_ranges junk (job_presize job), text_memory = mem,
      result_copies =
        (if job_replace job \<and> i \<noteq> 0 then RKAppendCopyInstruction empty_copies (job_subject_ptr job) 0 (unat i) else empty_copies)\<rparr>"

definition run_replace :: "replace_job \<Rightarrow> (nat \<Rightarrow> u32) \<Rightarrow> u64 \<Rightarrow> memory \<Rightarrow> ((replaced \<times> u64) run \<times> ns_error option) option" where
  "run_replace job junk i mem =
     (case replace_loop job (start_state job junk i mem) of
        None \<Rightarrow> None
      | Some (Ok (Inl err)) \<Rightarrow> Some (Ok (NoString, 0), err)
      | Some (Ok (Inr st)) \<Rightarrow> Some (finish_replace job st, None)
      | Some (Raise e) \<Rightarrow> Some (Raise e, None)
      | Some Undefined \<Rightarrow> Some (Undefined, None))"

text \<open>
  From the arguments to the loop. \<open>regex\<close> is what \<open>RKRegexFromStringOrRegexWithError\<close> answers; the
  template has been formatted by the caller; both strings are at the given addresses.
\<close>

definition RKStringByMatchingAndExpandingX ::
  "string_library \<Rightarrow> pcre_exec \<Rightarrow> (nat \<Rightarrow> u32) \<Rightarrow> (RKRegex option \<times> ns_error option) run \<Rightarrow> memory \<Rightarrow> ns_string \<Rightarrow> nat \<Rightarrow>
     ns_string \<Rightarrow> nat \<Rightarrow> search_span \<Rightarrow> u64 \<Rightarrow> bool \<Rightarrow> ((replaced \<times> u64) run \<times> ns_error option) option" where
  "RKStringByMatchingAndExpandingX S exec junk regexResult mem subject subjectPtr template templatePtr sp count expandOrReplace =
     (case regexResult of
        Raise e \<Rightarrow> Some (Raise e, None)
      | Undefined \<Rightarrow> Some (Undefined, None)
      | Ok (None, err) \<Rightarrow> Some (if err = None then Raise NSInternalInconsistencyException else Ok (NoString, 0), err)
      | Ok (Some regex, err) \<Rightarrow>
          (case run_bind (RKStringBufferWithString subject) (\<lambda>sb.
                run_bind (RKStringBufferWithString template) (\<lambda>tb.
                run_bind (search_range_of subject sb sp) (\<lambda>r.
                run_map (\<lambda>instrs. (sb, r, instrs))
                  (RKCompileReferenceString tb templatePtr regex (stack_store zero_instruction))))) of
             Raise e \<Rightarrow> Some (Raise e, None)
           | Undefined \<Rightarrow> Some (Undefined, None)
           | Ok (sb, r, instrs) \<Rightarrow>
               run_replace
                 \<lparr>job_strings = S, job_exec = exec, job_regex = regex, job_subject = sb, job_subject_ptr = subjectPtr,
                  job_template = instrs, job_end = range_location r + range_length r, job_count = count,
                  job_replace = expandOrReplace\<rparr> junk (range_location r) mem))"

text \<open>The older interface raises what the newer one reports, with an exception named after the error's domain.\<close>

definition RKStringByMatchingAndExpanding ::
  "((replaced \<times> u64) run \<times> ns_error option) option \<Rightarrow> (replaced \<times> u64) run option" where
  "RKStringByMatchingAndExpanding result =
     map_option (\<lambda>(r, err). case err of None \<Rightarrow> r
       | Some e \<Rightarrow> run_bind r (\<lambda>_. Raise (if error_domain e = RKRegexErrorDomain then RKRegexSyntaxErrorException
                                      else NSGenericException))) result"

text \<open>
  \<open>RKMutableStringMatch\<close> puts the new string in place of the old one: the bytes of the string afterwards
  and the number of replacements. Core Foundation is not made for \<open>NULL\<close> in place of the new string.
\<close>

definition RKMutableStringMatch :: "byte list \<Rightarrow> (replaced \<times> u64) run \<Rightarrow> (byte list \<times> u64) run" where
  "RKMutableStringMatch self result =
     run_bind result (\<lambda>(r, n). case r of
        SameString \<Rightarrow> Ok (self, 0)
      | NewString s \<Rightarrow> Ok (s, n)
      | NoString \<Rightarrow> Undefined)"

section \<open>The matches of a job\<close>

text \<open>
  The answer of the matcher at an index, as a pure function: on a blank array. It does not depend on what
  the array holds.
\<close>

definition find_match :: "replace_job \<Rightarrow> u64 \<Rightarrow> ns_range list option" where
  "find_match job i =
     (case job_match job (replicate (4 * unat (job_presize job)) 0) i of
        Ok (rc, mem, err) \<Rightarrow>
          if 0 < rc then Some (map (get_range mem) [0..<unat (captureCount (job_regex job))]) else None
      | _ \<Rightarrow> None)"

text \<open>
  What is assumed of a job: a library that keeps its contract and answers each call of this job with a
  match or no match (\<open>pcre_exec\<close> returns 0 only for a vector that is too small), sizes far from the
  limits, and a template that uses only captures the regex has.
\<close>

definition good_job :: "replace_job \<Rightarrow> bool" where
  "good_job job \<longleftrightarrow>
     string_library_contract (job_strings job) \<and> pcre_exec_contract (job_exec job) \<and>
     (\<forall>start. let rc = fst (job_exec job (compiledPCRE (job_regex job)) (buffer_characters (job_subject job))
          (ucast (buffer_length (job_subject job))) start RKMatchNoUTF8Check (ucast (job_presize job)))
        in rc = -1 \<or> 0 < rc) \<and>
     0 < captureCount (job_regex job) \<and> unat (captureCount (job_regex job)) \<le> 2 ^ 30 \<and>
     valid_buffer (job_subject job) \<and> unat (buffer_length (job_subject job)) \<le> 2147483647 \<and>
     job_end job \<le> buffer_length (job_subject job) \<and> job_subject_ptr job \<noteq> 0"

lemma presize_facts:
  assumes "good_job job"
  shows "RK_MINIMUM_CAPTURE_COUNT (captureCount (job_regex job)) \<le> job_presize job"
    and "captureCount (job_regex job) \<le> job_presize job" and "unat (job_presize job) < 2 ^ 31"
proof -
  have c: "unat (captureCount (job_regex job)) \<le> 2 ^ 30" using assms by (simp add: good_job_def)
  then have "unat (captureCount (job_regex job)) \<le> 2 ^ 62" by simp
  note p = presize_ge_minimum [OF this]
  show "RK_MINIMUM_CAPTURE_COUNT (captureCount (job_regex job)) \<le> job_presize job"
    "captureCount (job_regex job) \<le> job_presize job" "unat (job_presize job) < 2 ^ 31"
    using p c by (simp_all add: job_presize_def)
qed

text \<open>One call of the matcher at an index before the end, on any array of the right size.\<close>

lemma expected_range_written:
  assumes "2 * rc \<le> length written"
  shows "expected_range (written @ rest) rc x = expected_range written rc x"
proof -
  have "(written @ rest) ! j = written ! j" if "j < length written" for j using that by (simp add: nth_append)
  then show ?thesis using assms by (simp add: expected_range_def)
qed

lemma job_match_result:
  assumes job: "good_job job" and mem: "length mem = 4 * unat (job_presize job)" and i: "i < job_end job"
    and call: "job_exec job (compiledPCRE (job_regex job)) (buffer_characters (job_subject job))
      (ucast (buffer_length (job_subject job))) (ucast i) RKMatchNoUTF8Check (ucast (job_presize job)) = (rc, written)"
  shows "if 0 < rc \<and> \<not> (scast (written ! 1) :: u64) > job_end job
    then \<exists>mem'. job_match job mem i = Ok (rc, mem', None) \<and> length mem' = length mem \<and>
      map (get_range mem') [0..<unat (captureCount (job_regex job))] =
        map (expected_range written (nat rc)) [0..<unat (captureCount (job_regex job))] \<and>
      list_all (valid_capture (buffer_length (job_subject job))) (map (get_range mem') [0..<unat (captureCount (job_regex job))]) \<and>
      NSMaxRange (get_range mem' 0) \<le> job_end job \<and> get_range mem' 0 \<noteq> range_not_found
    else \<exists>mem'. job_match job mem i = Ok (-1, mem', None) \<and> length mem' = length mem"
proof -
  let ?len = "buffer_length (job_subject job)" and ?r = "NSMakeRange i (job_end job - i)"
  let ?vectors = "written @ drop (length written) mem"
  note size = presize_facts [OF job]
  have contract: "pcre_exec_contract (job_exec job)" and len: "unat ?len \<le> 2147483647" and "end": "job_end job \<le> ?len"
    and answers: "rc = -1 \<or> 0 < rc"
    using job call by (auto simp: good_job_def Let_def dest: spec [of _ "ucast i"])
  have maxr: "NSMaxRange ?r = job_end job" by (simp add: NSMaxRange_def)
  have rend: "range_end ?r = unat (job_end job)"
    using i by (simp add: range_end_def unat_minus_small word_le_nat_alt word_less_nat_alt)
  then have fits: "range_end ?r \<le> unat ?len" using "end" by (simp add: word_le_nat_alt)
  have ok: "\<not> ?len < range_location ?r" "\<not> ?len < range_location ?r + range_length ?r"
    "\<not> range_location ?r > INT_MAX_U" "\<not> range_length ?r > INT_MAX_U" "\<not> ?len > INT_MAX_U"
    using guards_iff [of ?len ?r] fits len by auto
  have u32: "unat (ucast (job_presize job) :: u32) = unat (job_presize job)"
    using size(3) by (simp add: unsigned_ucast_eq take_bit_nat_eq_self)
  have w: "length written \<le> unat (job_presize job)" "0 < rc \<Longrightarrow> 2 * nat rc \<le> length written"
      "0 < rc \<Longrightarrow> 3 * nat rc \<le> unat (job_presize job)"
    using contract call unfolding pcre_exec_contract_def u32 [symmetric] by blast+
  have vlen: "length ?vectors = 4 * unat (job_presize job)" using w(1) mem by simp
  have call': "job_exec job (compiledPCRE (job_regex job)) (buffer_characters (job_subject job)) (ucast ?len)
      (ucast (range_location ?r)) RKMatchNoUTF8Check (ucast (job_presize job)) = (rc, written)" using call by simp
  note match = getRanges_count_match [OF contract mem size(3,2) fits len call']
  have v1: "?vectors ! 1 = written ! 1" if "0 < rc"
  proof -
    have "1 < length written" using w(2) [OF that] that by linarith
    then show ?thesis by (simp add: nth_append)
  qed
  show ?thesis
  proof (cases "0 < rc \<and> \<not> (scast (written ! 1) :: u64) > job_end job")
    case True
    have cc: "4 * unat (captureCount (job_regex job)) \<le> length ?vectors" using size(2) vlen by (simp add: word_le_nat_alt)
    obtain mem' where m: "convert_vectors ?vectors (nat rc) (unat (captureCount (job_regex job))) = Ok mem'"
        "length mem' = length ?vectors"
        "\<forall>x < max (nat rc) (unat (captureCount (job_regex job))). get_range mem' x = expected_range ?vectors (nat rc) x"
      using convert_vectors_ok [of "nat rc" ?vectors "unat (captureCount (job_regex job))"] True w(3) vlen cc by auto
    have "job_match job mem i = Ok (rc, mem', None)"
      using True ok size(1) call m(1) v1 maxr by (simp add: job_match_def getRanges_count_def)
    moreover have "map (get_range mem') [0..<unat (captureCount (job_regex job))] =
        map (expected_range written (nat rc)) [0..<unat (captureCount (job_regex job))]"
      using m(3) expected_range_written [OF w(2)] True by simp
    moreover have "list_all (valid_capture ?len) (map (get_range mem') [0..<unat (captureCount (job_regex job))])"
        "NSMaxRange (get_range mem' 0) \<le> job_end job" "get_range mem' 0 \<noteq> range_not_found"
      using match(1) True v1 maxr m(1) by (auto simp: list_all_length)
    ultimately show ?thesis using True m(2) vlen mem by simp
  next
    case False
    then have "job_match job mem i = Ok (-1, ?vectors, None)"
      using ok size(1) call answers v1 maxr match(2)
      by (auto simp: job_match_def getRanges_count_def RKMatchErrorNoMatch_def)
    then show ?thesis using False vlen mem by simp
  qed
qed

lemma job_match_cases:
  assumes job: "good_job job" and mem: "length mem = 4 * unat (job_presize job)" and i: "i < job_end job"
  shows "(find_match job i = None \<and> (\<exists>mem'. job_match job mem i = Ok (-1, mem', None) \<and> length mem' = length mem)) \<or>
    (\<exists>rc mem' rs. find_match job i = Some rs \<and> job_match job mem i = Ok (rc, mem', None) \<and> 0 < rc \<and> length mem' = length mem \<and>
       rs = map (get_range mem') [0..<unat (captureCount (job_regex job))] \<and>
       list_all (valid_capture (buffer_length (job_subject job))) rs \<and>
       NSMaxRange (rs ! 0) \<le> job_end job \<and> rs ! 0 \<noteq> range_not_found)"
proof -
  obtain rc written where call: "job_exec job (compiledPCRE (job_regex job)) (buffer_characters (job_subject job))
      (ucast (buffer_length (job_subject job))) (ucast i) RKMatchNoUTF8Check (ucast (job_presize job)) = (rc, written)" by force
  have cc: "0 < unat (captureCount (job_regex job))" using job by (auto simp: good_job_def word_less_nat_alt)
  have blank: "length (replicate (4 * unat (job_presize job)) (0 :: u32)) = 4 * unat (job_presize job)" by simp
  note a = job_match_result [OF job mem i call]
  note b = job_match_result [OF job blank i call]
  show ?thesis
  proof (cases "0 < rc \<and> \<not> (scast (written ! 1) :: u64) > job_end job")
    case True
    obtain mb where mb: "job_match job (replicate (4 * unat (job_presize job)) 0) i = Ok (rc, mb, None)"
        "map (get_range mb) [0..<unat (captureCount (job_regex job))] =
         map (expected_range written (nat rc)) [0..<unat (captureCount (job_regex job))]"
      using b True by auto
    then have f: "find_match job i = Some (map (expected_range written (nat rc)) [0..<unat (captureCount (job_regex job))])"
      using True by (simp add: find_match_def)
    obtain mem' where m: "job_match job mem i = Ok (rc, mem', None)" "length mem' = length mem"
        "map (get_range mem') [0..<unat (captureCount (job_regex job))] =
         map (expected_range written (nat rc)) [0..<unat (captureCount (job_regex job))]"
        "list_all (valid_capture (buffer_length (job_subject job))) (map (get_range mem') [0..<unat (captureCount (job_regex job))])"
        "NSMaxRange (get_range mem' 0) \<le> job_end job" "get_range mem' 0 \<noteq> range_not_found"
      using a True by auto
    have "map (get_range mem') [0..<unat (captureCount (job_regex job))] ! 0 = get_range mem' 0" using cc by simp
    then show ?thesis using f m True unfolding m(3) [symmetric]
      by (intro disjI2 exI [of _ rc] exI [of _ mem'] exI [of _ "map (get_range mem') [0..<unat (captureCount (job_regex job))]"]) simp
  next
    case False
    then show ?thesis using a b by (auto simp: find_match_def)
  qed
qed

end
