(* ===== verification/RK_PCRE.thy ===== *)
theory RK_PCRE
  imports RK_Types
begin

text \<open>
  The constants and structures of \<open>pcre.h\<close>, the interface of the PCRE 7.6 library the framework is built
  on, and the proof that RegexKit's own enumerations carry the same values. An \<open>int\<close> option word is a 32
  bit word, a return code an integer.
\<close>

section \<open>Version and options\<close>

definition PCRE_MAJOR :: nat where "PCRE_MAJOR = 7"
definition PCRE_MINOR :: nat where "PCRE_MINOR = 6"

definition PCRE_CASELESS :: u32 where "PCRE_CASELESS = 0x1"
definition PCRE_MULTILINE :: u32 where "PCRE_MULTILINE = 0x2"
definition PCRE_DOTALL :: u32 where "PCRE_DOTALL = 0x4"
definition PCRE_EXTENDED :: u32 where "PCRE_EXTENDED = 0x8"
definition PCRE_ANCHORED :: u32 where "PCRE_ANCHORED = 0x10"
definition PCRE_DOLLAR_ENDONLY :: u32 where "PCRE_DOLLAR_ENDONLY = 0x20"
definition PCRE_EXTRA :: u32 where "PCRE_EXTRA = 0x40"
definition PCRE_NOTBOL :: u32 where "PCRE_NOTBOL = 0x80"
definition PCRE_NOTEOL :: u32 where "PCRE_NOTEOL = 0x100"
definition PCRE_UNGREEDY :: u32 where "PCRE_UNGREEDY = 0x200"
definition PCRE_NOTEMPTY :: u32 where "PCRE_NOTEMPTY = 0x400"
definition PCRE_UTF8 :: u32 where "PCRE_UTF8 = 0x800"
definition PCRE_NO_AUTO_CAPTURE :: u32 where "PCRE_NO_AUTO_CAPTURE = 0x1000"
definition PCRE_NO_UTF8_CHECK :: u32 where "PCRE_NO_UTF8_CHECK = 0x2000"
definition PCRE_AUTO_CALLOUT :: u32 where "PCRE_AUTO_CALLOUT = 0x4000"
definition PCRE_PARTIAL :: u32 where "PCRE_PARTIAL = 0x8000"
definition PCRE_DFA_SHORTEST :: u32 where "PCRE_DFA_SHORTEST = 0x10000"
definition PCRE_DFA_RESTART :: u32 where "PCRE_DFA_RESTART = 0x20000"
definition PCRE_FIRSTLINE :: u32 where "PCRE_FIRSTLINE = 0x40000"
definition PCRE_DUPNAMES :: u32 where "PCRE_DUPNAMES = 0x80000"
definition PCRE_NEWLINE_CR :: u32 where "PCRE_NEWLINE_CR = 0x100000"
definition PCRE_NEWLINE_LF :: u32 where "PCRE_NEWLINE_LF = 0x200000"
definition PCRE_NEWLINE_CRLF :: u32 where "PCRE_NEWLINE_CRLF = 0x300000"
definition PCRE_NEWLINE_ANY :: u32 where "PCRE_NEWLINE_ANY = 0x400000"
definition PCRE_NEWLINE_ANYCRLF :: u32 where "PCRE_NEWLINE_ANYCRLF = 0x500000"
definition PCRE_BSR_ANYCRLF :: u32 where "PCRE_BSR_ANYCRLF = 0x800000"
definition PCRE_BSR_UNICODE :: u32 where "PCRE_BSR_UNICODE = 0x1000000"

section \<open>Error codes of matching\<close>

definition PCRE_ERROR_NOMATCH :: int where "PCRE_ERROR_NOMATCH = - 1"
definition PCRE_ERROR_NULL :: int where "PCRE_ERROR_NULL = - 2"
definition PCRE_ERROR_BADOPTION :: int where "PCRE_ERROR_BADOPTION = - 3"
definition PCRE_ERROR_BADMAGIC :: int where "PCRE_ERROR_BADMAGIC = - 4"
definition PCRE_ERROR_UNKNOWN_OPCODE :: int where "PCRE_ERROR_UNKNOWN_OPCODE = - 5"
definition PCRE_ERROR_UNKNOWN_NODE :: int where "PCRE_ERROR_UNKNOWN_NODE = - 5"
definition PCRE_ERROR_NOMEMORY :: int where "PCRE_ERROR_NOMEMORY = - 6"
definition PCRE_ERROR_NOSUBSTRING :: int where "PCRE_ERROR_NOSUBSTRING = - 7"
definition PCRE_ERROR_MATCHLIMIT :: int where "PCRE_ERROR_MATCHLIMIT = - 8"
definition PCRE_ERROR_CALLOUT :: int where "PCRE_ERROR_CALLOUT = - 9"
definition PCRE_ERROR_BADUTF8 :: int where "PCRE_ERROR_BADUTF8 = - 10"
definition PCRE_ERROR_BADUTF8_OFFSET :: int where "PCRE_ERROR_BADUTF8_OFFSET = - 11"
definition PCRE_ERROR_PARTIAL :: int where "PCRE_ERROR_PARTIAL = - 12"
definition PCRE_ERROR_BADPARTIAL :: int where "PCRE_ERROR_BADPARTIAL = - 13"
definition PCRE_ERROR_INTERNAL :: int where "PCRE_ERROR_INTERNAL = - 14"
definition PCRE_ERROR_BADCOUNT :: int where "PCRE_ERROR_BADCOUNT = - 15"
definition PCRE_ERROR_DFA_UITEM :: int where "PCRE_ERROR_DFA_UITEM = - 16"
definition PCRE_ERROR_DFA_UCOND :: int where "PCRE_ERROR_DFA_UCOND = - 17"
definition PCRE_ERROR_DFA_UMLIMIT :: int where "PCRE_ERROR_DFA_UMLIMIT = - 18"
definition PCRE_ERROR_DFA_WSSIZE :: int where "PCRE_ERROR_DFA_WSSIZE = - 19"
definition PCRE_ERROR_DFA_RECURSE :: int where "PCRE_ERROR_DFA_RECURSE = - 20"
definition PCRE_ERROR_RECURSIONLIMIT :: int where "PCRE_ERROR_RECURSIONLIMIT = - 21"
definition PCRE_ERROR_NULLWSLIMIT :: int where "PCRE_ERROR_NULLWSLIMIT = - 22"
definition PCRE_ERROR_BADNEWLINE :: int where "PCRE_ERROR_BADNEWLINE = - 23"

section \<open>Requests of \<open>pcre_fullinfo\<close>\<close>

definition PCRE_INFO_OPTIONS :: nat where "PCRE_INFO_OPTIONS = 0"
definition PCRE_INFO_SIZE :: nat where "PCRE_INFO_SIZE = 1"
definition PCRE_INFO_CAPTURECOUNT :: nat where "PCRE_INFO_CAPTURECOUNT = 2"
definition PCRE_INFO_BACKREFMAX :: nat where "PCRE_INFO_BACKREFMAX = 3"
definition PCRE_INFO_FIRSTBYTE :: nat where "PCRE_INFO_FIRSTBYTE = 4"
definition PCRE_INFO_FIRSTCHAR :: nat where "PCRE_INFO_FIRSTCHAR = 4"
definition PCRE_INFO_FIRSTTABLE :: nat where "PCRE_INFO_FIRSTTABLE = 5"
definition PCRE_INFO_LASTLITERAL :: nat where "PCRE_INFO_LASTLITERAL = 6"
definition PCRE_INFO_NAMEENTRYSIZE :: nat where "PCRE_INFO_NAMEENTRYSIZE = 7"
definition PCRE_INFO_NAMECOUNT :: nat where "PCRE_INFO_NAMECOUNT = 8"
definition PCRE_INFO_NAMETABLE :: nat where "PCRE_INFO_NAMETABLE = 9"
definition PCRE_INFO_STUDYSIZE :: nat where "PCRE_INFO_STUDYSIZE = 10"
definition PCRE_INFO_DEFAULT_TABLES :: nat where "PCRE_INFO_DEFAULT_TABLES = 11"
definition PCRE_INFO_OKPARTIAL :: nat where "PCRE_INFO_OKPARTIAL = 12"
definition PCRE_INFO_JCHANGED :: nat where "PCRE_INFO_JCHANGED = 13"
definition PCRE_INFO_HASCRORLF :: nat where "PCRE_INFO_HASCRORLF = 14"

section \<open>Requests of \<open>pcre_config\<close>\<close>

definition PCRE_CONFIG_UTF8 :: nat where "PCRE_CONFIG_UTF8 = 0"
definition PCRE_CONFIG_NEWLINE :: nat where "PCRE_CONFIG_NEWLINE = 1"
definition PCRE_CONFIG_LINK_SIZE :: nat where "PCRE_CONFIG_LINK_SIZE = 2"
definition PCRE_CONFIG_POSIX_MALLOC_THRESHOLD :: nat where "PCRE_CONFIG_POSIX_MALLOC_THRESHOLD = 3"
definition PCRE_CONFIG_MATCH_LIMIT :: nat where "PCRE_CONFIG_MATCH_LIMIT = 4"
definition PCRE_CONFIG_STACKRECURSE :: nat where "PCRE_CONFIG_STACKRECURSE = 5"
definition PCRE_CONFIG_UNICODE_PROPERTIES :: nat where "PCRE_CONFIG_UNICODE_PROPERTIES = 6"
definition PCRE_CONFIG_MATCH_LIMIT_RECURSION :: nat where "PCRE_CONFIG_MATCH_LIMIT_RECURSION = 7"
definition PCRE_CONFIG_BSR :: nat where "PCRE_CONFIG_BSR = 8"

section \<open>Fields of \<open>pcre_extra\<close> in use\<close>

definition PCRE_EXTRA_STUDY_DATA :: u64 where "PCRE_EXTRA_STUDY_DATA = 0x1"
definition PCRE_EXTRA_MATCH_LIMIT :: u64 where "PCRE_EXTRA_MATCH_LIMIT = 0x2"
definition PCRE_EXTRA_CALLOUT_DATA :: u64 where "PCRE_EXTRA_CALLOUT_DATA = 0x4"
definition PCRE_EXTRA_TABLES :: u64 where "PCRE_EXTRA_TABLES = 0x8"
definition PCRE_EXTRA_MATCH_LIMIT_RECURSION :: u64 where "PCRE_EXTRA_MATCH_LIMIT_RECURSION = 0x10"

section \<open>Structures\<close>

text \<open>Pointers are addresses, with 0 for \<open>NULL\<close>.\<close>

record pcre_extra =
  flags :: u64
  study_data :: u64
  match_limit :: u64
  extra_callout_data :: u64
  tables :: u64
  match_limit_recursion :: u64

record pcre_callout_block =
  callout_version :: u32
  callout_number :: u32
  offset_vector :: u64
  callout_subject :: u64
  subject_length :: u32
  start_match :: u32
  current_position :: u32
  capture_top :: u32
  capture_last :: u32
  callout_data :: u64
  pattern_position :: u32
  next_item_length :: u32

section \<open>The constants of RegexKit against those of PCRE\<close>

text \<open>
  RegexKit passes its option words to PCRE as they are and reports PCRE's return values as its own error
  codes, so each enumerator has to be the PCRE constant it stands for.
\<close>

definition match_option_pairs :: "(u32 \<times> u32) list" where
  "match_option_pairs =
     [(RKMatchAnchored, PCRE_ANCHORED), (RKMatchNotBeginningOfLine, PCRE_NOTBOL), (RKMatchNotEndOfLine, PCRE_NOTEOL),
      (RKMatchNotEmpty, PCRE_NOTEMPTY), (RKMatchNoUTF8Check, PCRE_NO_UTF8_CHECK), (RKMatchPartial, PCRE_PARTIAL),
      (RKMatchNewlineCR, PCRE_NEWLINE_CR), (RKMatchNewlineLF, PCRE_NEWLINE_LF), (RKMatchNewlineCRLF, PCRE_NEWLINE_CRLF),
      (RKMatchNewlineAny, PCRE_NEWLINE_ANY), (RKMatchNewlineAnyCRLF, PCRE_NEWLINE_ANYCRLF),
      (RKMatchBackslashRAnyCRLR, PCRE_BSR_ANYCRLF), (RKMatchBackslashRUnicode, PCRE_BSR_UNICODE)]"

definition compile_option_pairs :: "(u32 \<times> u32) list" where
  "compile_option_pairs =
     [(RKCompileCaseless, PCRE_CASELESS), (RKCompileMultiline, PCRE_MULTILINE), (RKCompileDotAll, PCRE_DOTALL),
      (RKCompileExtended, PCRE_EXTENDED), (RKCompileAnchored, PCRE_ANCHORED), (RKCompileDollarEndOnly, PCRE_DOLLAR_ENDONLY),
      (RKCompileExtra, PCRE_EXTRA), (RKCompileUngreedy, PCRE_UNGREEDY), (RKCompileUTF8, PCRE_UTF8),
      (RKCompileNoAutoCapture, PCRE_NO_AUTO_CAPTURE), (RKCompileNoUTF8Check, PCRE_NO_UTF8_CHECK),
      (RKCompileAutoCallout, PCRE_AUTO_CALLOUT), (RKCompileFirstLine, PCRE_FIRSTLINE), (RKCompileDupNames, PCRE_DUPNAMES),
      (RKCompileNewlineCR, PCRE_NEWLINE_CR), (RKCompileNewlineLF, PCRE_NEWLINE_LF), (RKCompileNewlineCRLF, PCRE_NEWLINE_CRLF),
      (RKCompileNewlineAny, PCRE_NEWLINE_ANY), (RKCompileNewlineAnyCRLF, PCRE_NEWLINE_ANYCRLF),
      (RKCompileBackslashRAnyCRLR, PCRE_BSR_ANYCRLF), (RKCompileBackslashRUnicode, PCRE_BSR_UNICODE)]"

text \<open>All error codes of \<open>pcre.h\<close>, and those that only the alternative matching function can return.\<close>

definition pcre_error_codes :: "int list" where
  "pcre_error_codes =
     [PCRE_ERROR_NOMATCH, PCRE_ERROR_NULL, PCRE_ERROR_BADOPTION, PCRE_ERROR_BADMAGIC,
      PCRE_ERROR_UNKNOWN_OPCODE, PCRE_ERROR_UNKNOWN_NODE, PCRE_ERROR_NOMEMORY, PCRE_ERROR_NOSUBSTRING,
      PCRE_ERROR_MATCHLIMIT, PCRE_ERROR_CALLOUT, PCRE_ERROR_BADUTF8, PCRE_ERROR_BADUTF8_OFFSET,
      PCRE_ERROR_PARTIAL, PCRE_ERROR_BADPARTIAL, PCRE_ERROR_INTERNAL, PCRE_ERROR_BADCOUNT,
      PCRE_ERROR_DFA_UITEM, PCRE_ERROR_DFA_UCOND, PCRE_ERROR_DFA_UMLIMIT, PCRE_ERROR_DFA_WSSIZE,
      PCRE_ERROR_DFA_RECURSE, PCRE_ERROR_RECURSIONLIMIT, PCRE_ERROR_NULLWSLIMIT, PCRE_ERROR_BADNEWLINE]"

definition pcre_dfa_error_codes :: "int list" where
  "pcre_dfa_error_codes = [PCRE_ERROR_DFA_UITEM, PCRE_ERROR_DFA_UCOND, PCRE_ERROR_DFA_UMLIMIT, PCRE_ERROR_DFA_WSSIZE, PCRE_ERROR_DFA_RECURSE]"

lemmas pcre_option_defs =
  PCRE_CASELESS_def PCRE_MULTILINE_def PCRE_DOTALL_def PCRE_EXTENDED_def PCRE_ANCHORED_def
  PCRE_DOLLAR_ENDONLY_def PCRE_EXTRA_def PCRE_NOTBOL_def PCRE_NOTEOL_def PCRE_UNGREEDY_def PCRE_NOTEMPTY_def
  PCRE_UTF8_def PCRE_NO_AUTO_CAPTURE_def PCRE_NO_UTF8_CHECK_def PCRE_AUTO_CALLOUT_def PCRE_PARTIAL_def
  PCRE_DFA_SHORTEST_def PCRE_DFA_RESTART_def PCRE_FIRSTLINE_def PCRE_DUPNAMES_def PCRE_NEWLINE_CR_def
  PCRE_NEWLINE_LF_def PCRE_NEWLINE_CRLF_def PCRE_NEWLINE_ANY_def PCRE_NEWLINE_ANYCRLF_def
  PCRE_BSR_ANYCRLF_def PCRE_BSR_UNICODE_def

lemmas pcre_error_defs =
  PCRE_ERROR_NOMATCH_def PCRE_ERROR_NULL_def PCRE_ERROR_BADOPTION_def PCRE_ERROR_BADMAGIC_def
  PCRE_ERROR_UNKNOWN_OPCODE_def PCRE_ERROR_UNKNOWN_NODE_def PCRE_ERROR_NOMEMORY_def
  PCRE_ERROR_NOSUBSTRING_def PCRE_ERROR_MATCHLIMIT_def PCRE_ERROR_CALLOUT_def PCRE_ERROR_BADUTF8_def
  PCRE_ERROR_BADUTF8_OFFSET_def PCRE_ERROR_PARTIAL_def PCRE_ERROR_BADPARTIAL_def PCRE_ERROR_INTERNAL_def
  PCRE_ERROR_BADCOUNT_def PCRE_ERROR_DFA_UITEM_def PCRE_ERROR_DFA_UCOND_def PCRE_ERROR_DFA_UMLIMIT_def
  PCRE_ERROR_DFA_WSSIZE_def PCRE_ERROR_DFA_RECURSE_def PCRE_ERROR_RECURSIONLIMIT_def
  PCRE_ERROR_NULLWSLIMIT_def PCRE_ERROR_BADNEWLINE_def

lemma option_pairs_agree:
  "list_all (\<lambda>(r, p). r = p) match_option_pairs" "list_all (\<lambda>(r, p). r = p) compile_option_pairs"
  by (simp_all add: match_option_pairs_def compile_option_pairs_def pcre_option_defs option_bits)

lemma error_codes_agree:
  "set (map snd RKMatchErrorCode_enum) = {0} \<union> (set pcre_error_codes - set pcre_dfa_error_codes)"
  by (simp add: RKMatchErrorCode_enum_def pcre_error_codes_def pcre_dfa_error_codes_def pcre_error_defs) auto

text \<open>The bits of a list of options.\<close>

definition all_bits :: "u32 list \<Rightarrow> u32" where
  "all_bits os = foldr (OR) os 0"

text \<open>
  The options and error codes RegexKit offers are those of PCRE: every match and compile option has
  the value of the \<open>pcre.h\<close> constant it stands for, the masks that name all options are made of exactly
  these constants, the match error codes are 0 and all error codes of \<open>pcre.h\<close> but those of the DFA
  matcher, and a newline option is the newline number shifted by \<open>RKCompileNewlineShift\<close>, inside its mask.
\<close>

lemma pcre_constants_agree:
  "list_all (\<lambda>(r, p). r = p) match_option_pairs \<and> list_all (\<lambda>(r, p). r = p) compile_option_pairs \<and>
   RKCompileAllOptions OR RKCompileNewlineMask = all_bits (map snd compile_option_pairs) \<and>
   RKCompileAllOptions AND RKCompileNewlineMask = 0 \<and>
   set (map snd RKMatchErrorCode_enum) = {0} \<union> (set pcre_error_codes - set pcre_dfa_error_codes) \<and>
   [PCRE_NEWLINE_CR, PCRE_NEWLINE_LF, PCRE_NEWLINE_CRLF, PCRE_NEWLINE_ANY, PCRE_NEWLINE_ANYCRLF] =
     map (\<lambda>n. push_bit (unat RKCompileNewlineShift) n) [1, 2, 3, 4, 5] \<and>
   all_bits [PCRE_NEWLINE_CR, PCRE_NEWLINE_LF, PCRE_NEWLINE_CRLF, PCRE_NEWLINE_ANY, PCRE_NEWLINE_ANYCRLF] = RKMatchNewlineMask"
  using option_pairs_agree error_codes_agree
  by (simp add: all_bits_def compile_option_pairs_def pcre_option_defs option_bits RKCompileAllOptions_def)

end
