(* ===== verification/RK_Config.thy ===== *)
theory RK_Config
  imports RK_Prelude
begin

text \<open>
  \<open>RegexKitDefines.h\<close>: how the framework configures itself. The preprocessor's input is the set of macros
  the compiler and the system headers define, a record here; each \<open>#if\<close> of the header becomes a definition
  of what it defines. A macro that stands for a type or a limit is the type or limit it expands to; what
  these mean is a property of the platform: of its C compiler, by the widths, and of Foundation, whose
  limits and the builtin of the compiler are parameters.
\<close>

section \<open>What the header sees\<close>

record build_environment =
  def_apple :: bool
  def_mach :: bool
  def_gnustep :: bool
  predefined_macosx :: bool
  predefined_gnustep :: bool
  def_nsinteger :: bool
  gnuc :: nat
  gnuc_minor :: nat
  def_mac_10_3 :: bool
  def_mac_10_5 :: bool
  def_nil_termination :: bool
  stdc_version :: nat
  objc_api_version :: nat
  def_corefoundation :: bool
  def_objc_gc :: bool
  def_dtrace_dof :: bool

section \<open>What it defines\<close>

definition MACOSX_RUNTIME :: "build_environment \<Rightarrow> bool" where
  "MACOSX_RUNTIME env \<longleftrightarrow>
     predefined_macosx env \<or>
     (\<not> predefined_macosx env \<and> \<not> predefined_gnustep env \<and> def_apple env \<and> def_mach env \<and> \<not> def_gnustep env)"

definition GNUSTEP_RUNTIME :: "build_environment \<Rightarrow> bool" where
  "GNUSTEP_RUNTIME env \<longleftrightarrow>
     predefined_gnustep env \<or>
     (\<not> predefined_macosx env \<and> \<not> predefined_gnustep env \<and> def_gnustep env \<and> \<not> MACOSX_RUNTIME env)"

text \<open>The integer types and their limits: those of Cocoa where it has them, else \<open>int\<close> and \<open>unsigned int\<close>.\<close>

datatype integer_type = Type_int | Type_unsigned_int | Type_NSInteger | Type_NSUInteger

datatype integer_limit =
  Limit_INT_MAX | Limit_INT_MIN | Limit_UINT_MAX | Limit_NSIntegerMax | Limit_NSIntegerMin | Limit_NSUIntegerMax

definition config_RKInteger :: "build_environment \<Rightarrow> integer_type" where
  "config_RKInteger env = (if def_nsinteger env then Type_NSInteger else Type_int)"

definition config_RKUInteger :: "build_environment \<Rightarrow> integer_type" where
  "config_RKUInteger env = (if def_nsinteger env then Type_NSUInteger else Type_unsigned_int)"

definition config_RKIntegerMax :: "build_environment \<Rightarrow> integer_limit" where
  "config_RKIntegerMax env = (if def_nsinteger env then Limit_NSIntegerMax else Limit_INT_MAX)"

definition config_RKIntegerMin :: "build_environment \<Rightarrow> integer_limit" where
  "config_RKIntegerMin env = (if def_nsinteger env then Limit_NSIntegerMin else Limit_INT_MIN)"

definition config_RKUIntegerMax :: "build_environment \<Rightarrow> integer_limit" where
  "config_RKUIntegerMax env = (if def_nsinteger env then Limit_NSUIntegerMax else Limit_UINT_MAX)"

definition config_RKReplaceAll :: "build_environment \<Rightarrow> integer_limit" where
  "config_RKReplaceAll env = config_RKIntegerMax env"

text \<open>Wrappers of compiler features: the function attributes as text, the branch
  hint as the call of the compiler's builtin, a parameter.\<close>

definition gcc4 :: "build_environment \<Rightarrow> bool" where
  "gcc4 env \<longleftrightarrow> 4 \<le> gnuc env"

definition RKREGEX_STATIC_INLINE :: "build_environment \<Rightarrow> string" where
  "RKREGEX_STATIC_INLINE env =
     (if gcc4 env then ''static __inline__ __attribute__((always_inline))'' else ''static __inline__'')"

definition RKREGEX_STATIC_PURE_INLINE :: "build_environment \<Rightarrow> string" where
  "RKREGEX_STATIC_PURE_INLINE env =
     (if gcc4 env then ''static __inline__ __attribute__((always_inline, pure))'' else ''static __inline__'')"

definition RK_EXPECTED :: "(int \<Rightarrow> int \<Rightarrow> int) \<Rightarrow> build_environment \<Rightarrow> int \<Rightarrow> int \<Rightarrow> int" where
  "RK_EXPECTED builtin_expect env cond expect = (if gcc4 env then builtin_expect cond expect else cond)"

definition RK_REQUIRES_NIL_TERMINATION :: "build_environment \<Rightarrow> string" where
  "RK_REQUIRES_NIL_TERMINATION env =
     (if MACOSX_RUNTIME env \<and> def_mac_10_5 env \<and> def_nil_termination env then ''NS_REQUIRES_NIL_TERMINATION'' else [])"

definition RK_C99 :: "build_environment \<Rightarrow> string \<Rightarrow> string" where
  "RK_C99 env keyword = (if stdc_version env \<ge> 199901 then keyword else [])"

section \<open>Feature knobs\<close>

definition USE_PLACEHOLDER :: bool where
  "USE_PLACEHOLDER = True"

definition USE_AUTORELEASED_MALLOC :: "build_environment \<Rightarrow> bool" where
  "USE_AUTORELEASED_MALLOC env \<longleftrightarrow> objc_api_version env < 2 \<and> \<not> def_mac_10_5 env"

definition USE_CORE_FOUNDATION :: "build_environment \<Rightarrow> bool" where
  "USE_CORE_FOUNDATION env \<longleftrightarrow> def_corefoundation env"

definition HAVE_NSNUMBERFORMATTER_CONVERSIONS :: "build_environment \<Rightarrow> bool" where
  "HAVE_NSNUMBERFORMATTER_CONVERSIONS env \<longleftrightarrow> MACOSX_RUNTIME env"

definition RK_ENABLE_THREAD_LOCAL_STORAGE :: "build_environment \<Rightarrow> bool" where
  "RK_ENABLE_THREAD_LOCAL_STORAGE env \<longleftrightarrow> HAVE_NSNUMBERFORMATTER_CONVERSIONS env"

definition ENABLE_MACOSX_GARBAGE_COLLECTION :: "build_environment \<Rightarrow> bool" where
  "ENABLE_MACOSX_GARBAGE_COLLECTION env \<longleftrightarrow> MACOSX_RUNTIME env \<and> def_mac_10_5 env \<and> def_objc_gc env"

definition RK_STRONG_REF :: "build_environment \<Rightarrow> string" where
  "RK_STRONG_REF env = (if ENABLE_MACOSX_GARBAGE_COLLECTION env then ''__strong'' else [])"

definition RK_WEAK_REF :: "build_environment \<Rightarrow> string" where
  "RK_WEAK_REF env = (if ENABLE_MACOSX_GARBAGE_COLLECTION env then ''__weak'' else [])"

definition ENABLE_DTRACE_INSTRUMENTATION :: "build_environment \<Rightarrow> bool" where
  "ENABLE_DTRACE_INSTRUMENTATION env \<longleftrightarrow> MACOSX_RUNTIME env \<and> def_mac_10_5 env \<and> def_dtrace_dof env"

definition USE_MACRO_EXCEPTIONS :: "build_environment \<Rightarrow> bool" where
  "USE_MACRO_EXCEPTIONS env \<longleftrightarrow>
     \<not> MACOSX_RUNTIME env \<or> gnuc env = 0 \<or> (gnuc env = 3 \<and> gnuc_minor env < 3) \<or> \<not> def_mac_10_3 env"

text \<open>The two \<open>#error\<close> directives, in their order: the header is accepted when neither is reached.\<close>

definition unknown_runtime :: "build_environment \<Rightarrow> bool" where
  "unknown_runtime env \<longleftrightarrow> \<not> MACOSX_RUNTIME env \<and> \<not> GNUSTEP_RUNTIME env"

definition collector_unsupported :: "build_environment \<Rightarrow> bool" where
  "collector_unsupported env \<longleftrightarrow> ENABLE_MACOSX_GARBAGE_COLLECTION env \<and> \<not> def_mac_10_5 env"

datatype header_error = UnknownRuntime | CollectorNeedsLeopard

definition header_errors :: "build_environment \<Rightarrow> header_error list" where
  "header_errors env =
     (if unknown_runtime env then [UnknownRuntime] else []) @
     (if collector_unsupported env then [CollectorNeedsLeopard] else [])"

lemmas config_defs = MACOSX_RUNTIME_def GNUSTEP_RUNTIME_def header_errors_def unknown_runtime_def collector_unsupported_def
  HAVE_NSNUMBERFORMATTER_CONVERSIONS_def RK_ENABLE_THREAD_LOCAL_STORAGE_def ENABLE_MACOSX_GARBAGE_COLLECTION_def
  USE_AUTORELEASED_MALLOC_def ENABLE_DTRACE_INSTRUMENTATION_def USE_MACRO_EXCEPTIONS_def

lemmas integer_macros = config_RKInteger_def config_RKUInteger_def config_RKIntegerMax_def config_RKIntegerMin_def
  config_RKUIntegerMax_def config_RKReplaceAll_def

section \<open>What the types and limits mean\<close>

text \<open>
  The platform: the widths of \<open>int\<close> and \<open>NSInteger\<close>, and the values Foundation gives its three limits.
  \<open>least\<close> and \<open>greatest\<close> are the bounds of a type, \<open>limit_value\<close> the value of a limit, with \<open>INT_MAX\<close>,
  \<open>INT_MIN\<close> and \<open>UINT_MAX\<close> as \<open>limits.h\<close> of the C standard has them. Foundation documents its limits as
  those of its types.
\<close>

record platform =
  int_width :: nat
  nsinteger_width :: nat
  NSIntegerMax_value :: int
  NSIntegerMin_value :: int
  NSUIntegerMax_value :: int

fun least :: "platform \<Rightarrow> integer_type \<Rightarrow> int" where
  "least pf Type_int = - (2 ^ (int_width pf - 1))"
| "least pf Type_unsigned_int = 0"
| "least pf Type_NSInteger = - (2 ^ (nsinteger_width pf - 1))"
| "least pf Type_NSUInteger = 0"

fun greatest :: "platform \<Rightarrow> integer_type \<Rightarrow> int" where
  "greatest pf Type_int = 2 ^ (int_width pf - 1) - 1"
| "greatest pf Type_unsigned_int = 2 ^ int_width pf - 1"
| "greatest pf Type_NSInteger = 2 ^ (nsinteger_width pf - 1) - 1"
| "greatest pf Type_NSUInteger = 2 ^ nsinteger_width pf - 1"

fun limit_value :: "platform \<Rightarrow> integer_limit \<Rightarrow> int" where
  "limit_value pf Limit_INT_MAX = 2 ^ (int_width pf - 1) - 1"
| "limit_value pf Limit_INT_MIN = - (2 ^ (int_width pf - 1))"
| "limit_value pf Limit_UINT_MAX = 2 ^ int_width pf - 1"
| "limit_value pf Limit_NSIntegerMax = NSIntegerMax_value pf"
| "limit_value pf Limit_NSIntegerMin = NSIntegerMin_value pf"
| "limit_value pf Limit_NSUIntegerMax = NSUIntegerMax_value pf"

definition foundation_documented :: "platform \<Rightarrow> bool" where
  "foundation_documented pf \<longleftrightarrow>
     NSIntegerMax_value pf = greatest pf Type_NSInteger \<and> NSIntegerMin_value pf = least pf Type_NSInteger \<and>
     NSUIntegerMax_value pf = greatest pf Type_NSUInteger"

text \<open>GCC documents that \<open>__builtin_expect\<close> returns its first argument.\<close>

definition expect_documented :: "(int \<Rightarrow> int \<Rightarrow> int) \<Rightarrow> bool" where
  "expect_documented builtin_expect \<longleftrightarrow> (\<forall>cond expect. builtin_expect cond expect = cond)"

section \<open>The configuration of this development\<close>

text \<open>An LP64 Mac OS X 10.5 build without garbage collection, with Core Foundation.\<close>

definition leopard :: build_environment where
  "leopard =
     \<lparr>def_apple = True, def_mach = True, def_gnustep = False, predefined_macosx = False, predefined_gnustep = False,
      def_nsinteger = True, gnuc = 4, gnuc_minor = 0, def_mac_10_3 = True, def_mac_10_5 = True,
      def_nil_termination = True, stdc_version = 199901, objc_api_version = 2, def_corefoundation = True,
      def_objc_gc = False, def_dtrace_dof = False\<rparr>"

definition lp64 :: platform where
  "lp64 = \<lparr>int_width = 32, nsinteger_width = 64, NSIntegerMax_value = 9223372036854775807,
     NSIntegerMin_value = - 9223372036854775808, NSUIntegerMax_value = 18446744073709551615\<rparr>"

lemma lp64_documented: "foundation_documented lp64"
  by (simp add: foundation_documented_def lp64_def)

text \<open>The constants the other theories use are those of this configuration.\<close>

lemma leopard_constants:
  "uint RKIntegerMax = limit_value lp64 (config_RKIntegerMax leopard)"
  "uint RKUIntegerMax = limit_value lp64 (config_RKUIntegerMax leopard)"
  "uint RKReplaceAll = limit_value lp64 (config_RKReplaceAll leopard)"
  by (simp_all add: RKIntegerMax_def RKUIntegerMax_def RKReplaceAll_def integer_macros lp64_def leopard_def)

lemma limits_of_the_types:
  assumes "foundation_documented pf"
  shows "limit_value pf (config_RKIntegerMax env) = greatest pf (config_RKInteger env)"
    "limit_value pf (config_RKIntegerMin env) = least pf (config_RKInteger env)"
    "limit_value pf (config_RKUIntegerMax env) = greatest pf (config_RKUInteger env)"
    "limit_value pf (config_RKReplaceAll env) = greatest pf (config_RKInteger env)"
  using assms by (simp_all add: integer_macros foundation_documented_def)

lemma header_errors_cases:
  "header_errors env =
     (if predefined_macosx env \<or> predefined_gnustep env \<or> def_gnustep env \<or> (def_apple env \<and> def_mach env)
      then [] else [UnknownRuntime])"
  by (auto simp: config_defs)

text \<open>
  C40. The configuration is consistent. The header is rejected only when nothing names a runtime: neither the
  builder nor GNUstep nor a Mac OS X compiler; then \<open>#error\<close> is reached once, and the check that garbage collection
  needs Mac OS X 10.5 is never the reason. An accepted header has one runtime, both only if the builder predefines
  both, which it does not refuse. The collector excludes the autoreleased \<open>malloc\<close> and has thread local
  storage. Each limit macro is the limit of its type macro, where Foundation's limits are those of its types,
  \<open>RKReplaceAll\<close> the greatest \<open>RKInteger\<close>; and a branch hint changes no condition, where the builtin
  returns its first argument.
\<close>

theorem build_configuration_consistent:
  assumes "foundation_documented pf" "expect_documented builtin_expect"
  shows "header_errors env =
      (if predefined_macosx env \<or> predefined_gnustep env \<or> def_gnustep env \<or> (def_apple env \<and> def_mach env)
       then [] else [UnknownRuntime]) \<and>
    (header_errors env = [] \<longrightarrow>
       (if predefined_macosx env \<and> predefined_gnustep env then MACOSX_RUNTIME env \<and> GNUSTEP_RUNTIME env
        else MACOSX_RUNTIME env \<noteq> GNUSTEP_RUNTIME env)) \<and>
    (ENABLE_MACOSX_GARBAGE_COLLECTION env \<longrightarrow> \<not> USE_AUTORELEASED_MALLOC env \<and> RK_ENABLE_THREAD_LOCAL_STORAGE env) \<and>
    limit_value pf (config_RKIntegerMax env) = greatest pf (config_RKInteger env) \<and>
    limit_value pf (config_RKIntegerMin env) = least pf (config_RKInteger env) \<and>
    limit_value pf (config_RKUIntegerMax env) = greatest pf (config_RKUInteger env) \<and>
    limit_value pf (config_RKReplaceAll env) = greatest pf (config_RKInteger env) \<and>
    RK_EXPECTED builtin_expect env cond expect = cond"
proof -
  have "header_errors env = [] \<longrightarrow>
      (if predefined_macosx env \<and> predefined_gnustep env then MACOSX_RUNTIME env \<and> GNUSTEP_RUNTIME env
       else MACOSX_RUNTIME env \<noteq> GNUSTEP_RUNTIME env)"
    by (auto simp: MACOSX_RUNTIME_def GNUSTEP_RUNTIME_def header_errors_def unknown_runtime_def)
  moreover have "ENABLE_MACOSX_GARBAGE_COLLECTION env \<longrightarrow>
      \<not> USE_AUTORELEASED_MALLOC env \<and> RK_ENABLE_THREAD_LOCAL_STORAGE env"
    by (simp add: config_defs)
  ultimately show ?thesis
    using limits_of_the_types [OF assms(1), of env] header_errors_cases [of env] assms(2)
    by (simp add: RK_EXPECTED_def expect_documented_def)
qed

theorem build_configuration_consistent_witness:
  "header_errors leopard = [] \<and> MACOSX_RUNTIME leopard \<and> \<not> GNUSTEP_RUNTIME leopard \<and>
   limit_value lp64 (config_RKUIntegerMax leopard) = 2 ^ 64 - 1 \<and> RK_EXPECTED (\<lambda>cond expect. cond) leopard 1 0 = 1"
proof -
  have "expect_documented (\<lambda>cond expect. cond)"
    by (simp add: expect_documented_def)
  from build_configuration_consistent [OF lp64_documented this, of leopard 1 0]
  show ?thesis
    by (simp add: leopard_def lp64_def config_RKUInteger_def MACOSX_RUNTIME_def)
qed

end
