(* ===== verification/RK_StackGuard.thy ===== *)
theory RK_StackGuard
  imports RK_Prelude
begin

text \<open>
  \<open>RK_stack_chk.c\<close>: the guard value of the stack protector for systems whose C library has none. The
  eight \<open>long\<close>s of the guard are their 64 bytes, little endian. The dynamic linker's answer and the
  random device are inputs: \<open>dlsym\<close> gives the 64 bytes of the library's guard or nothing, and the device
  cannot be opened, or a \<open>read\<close> fails, or it gives some bytes, at most as many as were asked for.
\<close>

section \<open>The guard\<close>

definition stack_chk_guard_initial :: "byte list" where
  "stack_chk_guard_initial = replicate 64 0"

fun little_endian :: "byte list \<Rightarrow> nat" where
  "little_endian [] = 0"
| "little_endian (b # bs) = unat b + 256 * little_endian bs"

definition guard_long :: "byte list \<Rightarrow> nat \<Rightarrow> nat" where
  "guard_long g i = little_endian (take 8 (drop (8 * i) g))"

text \<open>What reading the random device can give.\<close>

datatype random_device = CannotOpen | ReadFails | ReadGives "byte list"

definition read_device :: "random_device \<Rightarrow> byte list \<Rightarrow> int \<times> byte list" where
  "read_device dev g =
     (case dev of
        ReadGives bs \<Rightarrow> (int (length bs), bs @ drop (length bs) g)
      | _ \<Rightarrow> (- 1, g))"

definition terminator_canary :: "byte list \<Rightarrow> byte list" where
  "terminator_canary g = g[0 := 0, 1 := 0, 2 := 0x0a, 3 := 255]"

text \<open>The constructor, which runs when the library is loaded.\<close>

definition rk_guard_setup :: "byte list option \<Rightarrow> random_device \<Rightarrow> byte list \<Rightarrow> byte list" where
  "rk_guard_setup library dev g =
     (case library of
        Some lib \<Rightarrow> take 64 lib
      | None \<Rightarrow>
          if guard_long g 0 \<noteq> 0 then g
          else if dev \<noteq> CannotOpen then
            (let (got, g') = read_device dev g
             in if got = 64 \<and> guard_long g' 0 \<noteq> 0 then g' else terminator_canary g')
          else terminator_canary g)"

text \<open>A smashed stack is reported to the system log with the process id, and the process aborts.\<close>

datatype guard_event = Syslog string nat | Abort

definition stack_chk_fail :: "nat \<Rightarrow> guard_event list" where
  "stack_chk_fail pid = [Syslog ''[%d] stack overflow'' pid, Abort]"

section \<open>The guard after the set-up\<close>

lemma little_endian_eq_0: "little_endian bs = 0 \<longleftrightarrow> (\<forall>b\<in>set bs. b = 0)"
  by (induction bs) (auto simp: unat_eq_0)

lemma canary_bytes:
  assumes "length g = 64"
  shows "take 4 (terminator_canary g) = [0, 0, 0x0a, 255]" "length (terminator_canary g) = 64"
    and "guard_long (terminator_canary g) 0 \<noteq> 0"
proof -
  show len: "length (terminator_canary g) = 64" using assms by (simp add: terminator_canary_def)
  show "take 4 (terminator_canary g) = [0, 0, 0x0a, 255]"
    using assms by (auto simp: terminator_canary_def list_eq_iff_nth_eq less_Suc_eq numeral_eq_Suc)
  have "take 8 (terminator_canary g) ! 2 = 0x0a" using assms by (simp add: terminator_canary_def)
  then have "0x0a \<in> set (take 8 (terminator_canary g))"
    using nth_mem [of 2 "take 8 (terminator_canary g)"] len by simp
  then show "guard_long (terminator_canary g) 0 \<noteq> 0"
    by (auto simp: guard_long_def little_endian_eq_0 intro!: bexI [of _ "0x0a"])
qed

lemma guard_setup_cases:
  assumes dev: "\<And>bs. dev = ReadGives bs \<Longrightarrow> length bs \<le> 64"
  defines "g \<equiv> rk_guard_setup None dev stack_chk_guard_initial"
  shows "length g = 64 \<and> guard_long g 0 \<noteq> 0 \<and>
    (dev = ReadGives g \<or> take 4 g = [0, 0, 0x0a, 255])"
proof -
  have init: "length stack_chk_guard_initial = 64" "guard_long stack_chk_guard_initial 0 = 0"
    by (simp_all add: stack_chk_guard_initial_def guard_long_def little_endian_eq_0)
  show ?thesis
  proof (cases dev)
    case (ReadGives bs)
    have len: "length (bs @ drop (length bs) stack_chk_guard_initial) = 64"
      using dev [OF ReadGives] init(1) by simp
    show ?thesis
    proof (cases "length bs = 64 \<and> guard_long (bs @ drop (length bs) stack_chk_guard_initial) 0 \<noteq> 0")
      case True
      moreover have same: "bs @ drop (length bs) stack_chk_guard_initial = bs" using True init by simp
      ultimately have "g = bs" unfolding g_def using init ReadGives
        by (simp add: rk_guard_setup_def read_device_def Let_def)
      then show ?thesis using True ReadGives unfolding same by simp
    next
      case False
      then have "g = terminator_canary (bs @ drop (length bs) stack_chk_guard_initial)"
        unfolding g_def using init ReadGives by (auto simp: rk_guard_setup_def read_device_def Let_def)
      then show ?thesis using canary_bytes [OF len] by simp
    qed
  qed (use canary_bytes [OF init(1)] init in \<open>simp_all add: g_def rk_guard_setup_def read_device_def\<close>)
qed

text \<open>
  Where the system has no guard of its own, the set-up arms the stack protector whatever the random
  device does, a partial or failing read included: the first word of the guard is not zero afterwards,
  and it holds either 64 random bytes or the terminator canary, which no string function can write.
\<close>

lemma stack_guard_armed:
  assumes "\<And>bs. dev = ReadGives bs \<Longrightarrow> length bs \<le> 64"
  shows "let g = rk_guard_setup None dev stack_chk_guard_initial in
    length g = 64 \<and> guard_long g 0 \<noteq> 0 \<and> (dev = ReadGives g \<or> take 4 g = [0, 0, 0x0a, 255])"
  unfolding Let_def using assms by (rule guard_setup_cases)

lemma stack_guard_armed_witness:
  "let g = rk_guard_setup None (ReadGives [1, 2, 3]) stack_chk_guard_initial in
    length g = 64 \<and> guard_long g 0 \<noteq> 0 \<and> (ReadGives [1, 2, 3] = ReadGives g \<or> take 4 g = [0, 0, 0x0a, 255])"
  by (rule stack_guard_armed) simp

text \<open>The guard of the C library is taken over as it is, even one that is all zero.\<close>

lemma library_guard_copied: "length lib = 64 \<Longrightarrow> rk_guard_setup (Some lib) dev g = lib"
  by (simp add: rk_guard_setup_def)

end
