(* ===== verification/RK_Atomic.thy ===== *)
theory RK_Atomic
  imports RK_Prelude "HOL-Library.Multiset"
begin

text \<open>
  \<open>RegexKitPrivateAtomic.h\<close>: the atomic operations of the four supported platforms, and what depends on
  them, the reference count of a regex object. An operation on a shared word is a sequence of indivisible
  steps; threads interleave between the steps. The primitives of the operating systems and the compiler
  are a parameter; memory is sequentially consistent, so the barriers have no steps of their own.
\<close>

section \<open>Platform primitives\<close>

text \<open>One indivisible step: from the shared word to the value the step returns and the new word.\<close>

type_synonym 'c step = "'c \<Rightarrow> 'c \<times> 'c"

record 'c primitives =
  add_and_fetch :: "'c \<Rightarrow> 'c step"
  fetch_and_add :: "'c \<Rightarrow> 'c step"
  load :: "'c step"
  cas_success :: "'c \<Rightarrow> 'c \<Rightarrow> 'c step"
  cas_old_value :: "'c \<Rightarrow> 'c \<Rightarrow> 'c step"
  or_and_fetch :: "'c \<Rightarrow> 'c step"
  and_and_fetch :: "'c \<Rightarrow> 'c step"

text \<open>
  What the manuals say of them: \<open>OSAtomicIncrement\<close>, \<open>atomic_inc_nv\<close> and \<open>__sync_add_and_fetch\<close> return the
  new value, \<open>atomic_add\<close> returns nothing of use, \<open>OSAtomicCompareAndSwap\<close>, \<open>atomic_cmpset\<close> and
  \<open>__sync_bool_compare_and_swap\<close> report success and \<open>atomic_cas\<close> returns the old value.
\<close>

definition primitives_documented :: "'w::len word primitives \<Rightarrow> bool" where
  "primitives_documented P \<longleftrightarrow>
     (\<forall>d c. add_and_fetch P d c = (c + d, c + d)) \<and>
     (\<forall>d c. snd (fetch_and_add P d c) = c + d) \<and>
     (\<forall>c. load P c = (c, c)) \<and>
     (\<forall>old new c. cas_success P old new c = (if c = old then (1, new) else (0, c))) \<and>
     (\<forall>old new c. cas_old_value P old new c = (c, if c = old then new else c)) \<and>
     (\<forall>m c. or_and_fetch P m c = (c OR m, c OR m)) \<and>
     (\<forall>m c. and_and_fetch P m c = (c AND m, c AND m))"

section \<open>The operations of each platform\<close>

text \<open>
  A compare and swap answers a Boolean; on Solaris it compares the returned old value with the expected
  one, after the step.
\<close>

record 'c atomic_ops =
  RKAtomicIncrement :: "'c step list"
  RKAtomicDecrement :: "'c step list"
  RKAtomicIncrementBarrier :: "'c step list"
  RKAtomicDecrementBarrier :: "'c step list"
  RKAtomicCompareAndSwap :: "'c \<Rightarrow> 'c \<Rightarrow> 'c step list"
  swap_succeeded :: "'c \<Rightarrow> 'c \<Rightarrow> bool"

definition macosx_ops :: "'w::len word primitives \<Rightarrow> 'w word atomic_ops" where
  "macosx_ops P =
     \<lparr>RKAtomicIncrement = [add_and_fetch P 1], RKAtomicDecrement = [add_and_fetch P (- 1)],
      RKAtomicIncrementBarrier = [add_and_fetch P 1], RKAtomicDecrementBarrier = [add_and_fetch P (- 1)],
      RKAtomicCompareAndSwap = (\<lambda>old new. [cas_success P old new]), swap_succeeded = (\<lambda>old r. r \<noteq> 0)\<rparr>"

definition RKAtomicOrIntBarrier :: "'w::len word primitives \<Rightarrow> 'w word \<Rightarrow> 'w word step list" where
  "RKAtomicOrIntBarrier P bits = [or_and_fetch P bits]"

definition RKAtomicAndIntBarrier :: "'w::len word primitives \<Rightarrow> 'w word \<Rightarrow> 'w word step list" where
  "RKAtomicAndIntBarrier P bits = [and_and_fetch P bits]"

definition freebsd_ops :: "'w::len word primitives \<Rightarrow> 'w word atomic_ops" where
  "freebsd_ops P =
     \<lparr>RKAtomicIncrement = [fetch_and_add P 1, load P], RKAtomicDecrement = [fetch_and_add P (- 1), load P],
      RKAtomicIncrementBarrier = [fetch_and_add P 1, load P], RKAtomicDecrementBarrier = [fetch_and_add P (- 1), load P],
      RKAtomicCompareAndSwap = (\<lambda>old new. [cas_success P old new]), swap_succeeded = (\<lambda>old r. r \<noteq> 0)\<rparr>"

definition solaris_ops :: "'w::len word primitives \<Rightarrow> 'w word atomic_ops" where
  "solaris_ops P =
     \<lparr>RKAtomicIncrement = [add_and_fetch P 1], RKAtomicDecrement = [add_and_fetch P (- 1)],
      RKAtomicIncrementBarrier = [add_and_fetch P 1], RKAtomicDecrementBarrier = [add_and_fetch P (- 1)],
      RKAtomicCompareAndSwap = (\<lambda>old new. [cas_old_value P old new]), swap_succeeded = (\<lambda>old r. r = old)\<rparr>"

definition gcc_ops :: "'w::len word primitives \<Rightarrow> 'w word atomic_ops" where
  "gcc_ops P =
     \<lparr>RKAtomicIncrement = [add_and_fetch P 1], RKAtomicDecrement = [add_and_fetch P (- 1)],
      RKAtomicIncrementBarrier = [add_and_fetch P 1], RKAtomicDecrementBarrier = [add_and_fetch P (- 1)],
      RKAtomicCompareAndSwap = (\<lambda>old new. [cas_success P old new]), swap_succeeded = (\<lambda>old r. r \<noteq> 0)\<rparr>"

section \<open>Threads\<close>

text \<open>
  A thread executes one operation: the steps left and the value the last one returned. The shared
  word and the threads make a state; in a step of the system one thread does its next step.
\<close>

record 'c thread =
  steps_left :: "'c step list"
  returned :: "'c"

record 'c system =
  shared :: "'c"
  threads :: "'c thread list"

definition finished :: "'c thread \<Rightarrow> bool" where
  "finished th \<longleftrightarrow> steps_left th = []"

inductive system_step :: "'c system \<Rightarrow> 'c system \<Rightarrow> bool" where
  "i < length (threads s) \<Longrightarrow> steps_left (threads s ! i) = st # rest \<Longrightarrow> st (shared s) = (v, c) \<Longrightarrow>
   system_step s (s\<lparr>shared := c, threads := (threads s)[i := \<lparr>steps_left = rest, returned = v\<rparr>]\<rparr>)"

inductive_cases system_stepE: "system_step s s'"

inductive system_run :: "'c system \<Rightarrow> 'c system \<Rightarrow> bool" where
  run_refl: "system_run s s"
| run_step: "system_run s t \<Longrightarrow> system_step t u \<Longrightarrow> system_run s u"

section \<open>Releasing an object\<close>

text \<open>
  Several owners release a regex at the same time: \<open>release\<close> in \<open>RKRegex.m\<close> decrements
  \<open>referenceCountMinusOne\<close> and deallocates the object when the operation returns -1.
\<close>

definition release_system :: "'w::len word atomic_ops \<Rightarrow> 'w word \<Rightarrow> nat \<Rightarrow> 'w word system" where
  "release_system ops start owners =
     \<lparr>shared = start, threads = replicate owners \<lparr>steps_left = RKAtomicDecrementBarrier ops, returned = 0\<rparr>\<rparr>"

definition deallocations :: "'w::len word system \<Rightarrow> nat" where
  "deallocations s = length (filter (\<lambda>th. finished th \<and> returned th = - 1) (threads s))"

definition indivisible_decrement :: "'w::len word atomic_ops \<Rightarrow> bool" where
  "indivisible_decrement ops \<longleftrightarrow> (\<exists>st. RKAtomicDecrementBarrier ops = [st] \<and> (\<forall>c. st c = (c - 1, c - 1)))"

lemma platforms_indivisible:
  assumes "primitives_documented P"
  shows "indivisible_decrement (macosx_ops P)" "indivisible_decrement (solaris_ops P)" "indivisible_decrement (gcc_ops P)"
  using assms by (simp_all add: indivisible_decrement_def macosx_ops_def solaris_ops_def gcc_ops_def primitives_documented_def)

text \<open>
  The invariant: the threads that have finished have drawn the numbers below the initial count one by
  one, and the shared word is the next one.
\<close>

definition drawn :: "'w::len word thread list \<Rightarrow> 'w word multiset" where
  "drawn ths = mset (map returned (filter finished ths))"

definition first_numbers :: "'w::len word \<Rightarrow> nat \<Rightarrow> 'w word multiset" where
  "first_numbers start k = mset (map (\<lambda>j. start - 1 - of_nat j) [0..<k])"

definition releasing :: "'w::len word atomic_ops \<Rightarrow> 'w word \<Rightarrow> nat \<Rightarrow> 'w word system \<Rightarrow> bool" where
  "releasing ops start owners s \<longleftrightarrow>
     length (threads s) = owners \<and>
     (\<forall>th\<in>set (threads s). finished th \<or> steps_left th = RKAtomicDecrementBarrier ops) \<and>
     shared s = start - of_nat (size (drawn (threads s))) \<and>
     drawn (threads s) = first_numbers start (size (drawn (threads s)))"

lemma mset_filter_update:
  assumes "i < length xs" "\<not> P (xs ! i)" "P y"
  shows "mset (map f (filter P (xs[i := y]))) = add_mset (f y) (mset (map f (filter P xs)))"
proof -
  have xs: "xs = take i xs @ xs ! i # drop (Suc i) xs" using assms(1) by (rule id_take_nth_drop)
  have "filter P xs = filter P (take i xs) @ filter P (drop (Suc i) xs)"
    by (subst xs, subst filter_append) (simp add: assms(2))
  then show ?thesis using assms by (simp add: upd_conv_take_nth_drop)
qed

lemma first_numbers_Suc: "first_numbers start (Suc k) = add_mset (start - 1 - of_nat k) (first_numbers start k)"
  by (simp add: first_numbers_def)

lemma releasing_step:
  assumes "releasing ops start owners s" "system_step s t" "indivisible_decrement ops"
  shows "releasing ops start owners t"
proof -
  obtain i st rest v c where 1: "i < length (threads s)" "steps_left (threads s ! i) = st # rest" "st (shared s) = (v, c)"
      "t = s\<lparr>shared := c, threads := (threads s)[i := \<lparr>steps_left = rest, returned = v\<rparr>]\<rparr>"
    using assms(2) by (elim system_stepE) blast
  define th where "th = \<lparr>steps_left = rest, returned = v\<rparr>"
  have i: "threads s ! i \<in> set (threads s)" using 1 by simp
  then have "finished (threads s ! i) \<or> steps_left (threads s ! i) = RKAtomicDecrementBarrier ops"
    using assms(1) by (simp add: releasing_def)
  then have "steps_left (threads s ! i) = RKAtomicDecrementBarrier ops"
    using 1 by (auto simp: finished_def)
  with assms(3) 1 have rest: "rest = []" "v = shared s - 1" "c = shared s - 1"
    by (auto simp: indivisible_decrement_def)
  have unfin: "\<not> finished (threads s ! i)" and fin: "finished th" using 1 rest by (simp_all add: finished_def th_def)
  have t: "threads t = (threads s)[i := th]" "shared t = shared s - 1" using 1 rest by (simp_all add: th_def)
  have d: "drawn (threads t) = add_mset (shared s - 1) (drawn (threads s))"
    unfolding t drawn_def using mset_filter_update [OF 1(1) unfin fin, of returned] rest by (simp add: th_def)
  have "\<forall>x\<in>set (threads t). finished x \<or> steps_left x = RKAtomicDecrementBarrier ops"
    using assms(1) fin set_update_subset_insert [of "threads s" i th] unfolding t releasing_def by blast
  then show ?thesis
    using assms(1) d t by (simp add: releasing_def first_numbers_Suc)
qed

lemma releasing_run:
  "system_run s t \<Longrightarrow> releasing ops start owners s \<Longrightarrow> indivisible_decrement ops \<Longrightarrow> releasing ops start owners t"
  by (induction rule: system_run.induct) (auto intro: releasing_step)

lemma first_numbers_minus_one:
  assumes "0 < owners" "owners \<le> 2 ^ LENGTH('w)"
  shows "size (filter_mset (\<lambda>v. v = - 1) (first_numbers (of_nat (owners - 1) :: 'w::len word) owners)) = 1"
proof -
  let ?n = "of_nat (owners - 1) :: 'w word"
  have "?n - 1 - of_nat j = - 1 \<longleftrightarrow> j = owners - 1" if "j < owners" for j
  proof -
    have "j < 2 ^ LENGTH('w)" "owners - 1 < 2 ^ LENGTH('w)" using that assms by simp_all
    then have "(of_nat (owners - 1) :: 'w word) = of_nat j \<longleftrightarrow> owners - 1 = j"
      by (simp only: word_of_nat_eq_iff take_bit_nat_eq_self)
    moreover have "x - 1 - y = - 1 \<longleftrightarrow> x = y" for x y :: "'w word" by (auto simp: algebra_simps)
    ultimately show ?thesis by metis
  qed
  then have "filter (\<lambda>j. ?n - 1 - of_nat j = - 1) [0..<owners] = filter (\<lambda>j. j = owners - 1) [0..<owners]"
    by (intro filter_cong) auto
  also have "\<dots> = [owners - 1]"
    using assms(1) by (cases owners) (auto simp: filter_empty_conv)
  finally have "length (filter (\<lambda>j. ?n - 1 - of_nat j = - 1) [0..<owners]) = 1" by simp
  then show ?thesis
    by (simp only: first_numbers_def mset_filter [symmetric] size_mset filter_map length_map comp_def)
qed

lemma deallocations_drawn: "deallocations s = size (filter_mset (\<lambda>v. v = - 1) (drawn (threads s)))"
proof -
  have "filter (\<lambda>th. finished th \<and> returned th = - 1) ths = filter (\<lambda>th. returned th = - 1) (filter finished ths)" for ths :: "'a word thread list"
    by (simp add: conj_commute)
  then show ?thesis
    by (simp add: deallocations_def drawn_def filter_mset_image_mset flip: mset_filter)
qed

lemma one_deallocation:
  fixes owners :: nat and ops :: "'w::len word atomic_ops"
  assumes ops: "indivisible_decrement ops" and owners: "0 < owners" "owners \<le> 2 ^ LENGTH('w)"
    and run: "system_run (release_system ops (of_nat (owners - 1)) owners) t"
    and fin: "list_all finished (threads t)"
  shows "deallocations t = 1"
proof -
  have not_fin: "RKAtomicDecrementBarrier ops \<noteq> []" using ops by (auto simp: indivisible_decrement_def)
  have "releasing ops (of_nat (owners - 1)) owners (release_system ops (of_nat (owners - 1)) owners)"
    using not_fin by (auto simp: releasing_def release_system_def drawn_def finished_def first_numbers_def)
  with run ops have rel: "releasing ops (of_nat (owners - 1)) owners t" by (blast intro: releasing_run)
  have "filter finished (threads t) = threads t" using fin by (simp add: list_all_iff)
  then have "size (drawn (threads t)) = length (threads t)" by (simp add: drawn_def)
  then have "size (drawn (threads t)) = owners" using rel by (simp add: releasing_def)
  then have "drawn (threads t) = first_numbers (of_nat (owners - 1)) owners" using rel by (simp add: releasing_def)
  then show ?thesis using first_numbers_minus_one [OF owners] by (simp add: deallocations_drawn)
qed

text \<open>
  C25. When all owners of an object release it at the same time, on Mac OS X, Solaris or with the
  operations built into GCC, then in every interleaving exactly one of them sees the count reach -1 and
  deallocates the object: it is neither leaked nor freed twice.
\<close>

theorem release_deallocates_once:
  fixes P :: "'w::len word primitives"
  assumes "primitives_documented P" "ops \<in> {macosx_ops P, solaris_ops P, gcc_ops P}"
    and "0 < owners" "owners \<le> 2 ^ LENGTH('w)"
    and "system_run (release_system ops (of_nat (owners - 1)) owners) t" "list_all finished (threads t)"
  shows "deallocations t = 1"
proof -
  have "indivisible_decrement ops" using assms(2) platforms_indivisible [OF assms(1)] by auto
  then show ?thesis using assms(3-6) by (rule one_deallocation)
qed

section \<open>Interleavings one can compute\<close>

text \<open>The system under a schedule, the list of the numbers of the threads that move.\<close>

fun run_schedule :: "nat list \<Rightarrow> 'c system \<Rightarrow> 'c system" where
  "run_schedule [] s = s"
| "run_schedule (i # is) s =
     (if i < length (threads s)
      then case steps_left (threads s ! i) of
          [] \<Rightarrow> run_schedule is s
        | st # rest \<Rightarrow> (case st (shared s) of (v, c) \<Rightarrow>
            run_schedule is (s\<lparr>shared := c, threads := (threads s)[i := \<lparr>steps_left = rest, returned = v\<rparr>]\<rparr>))
      else run_schedule is s)"

lemma run_trans: "system_run t u \<Longrightarrow> system_run s t \<Longrightarrow> system_run s u"
  by (induction rule: system_run.induct) (auto intro: system_run.intros)

lemma run_schedule_sound: "system_run s (run_schedule is s)"
proof (induction "is" s rule: run_schedule.induct)
  case (2 i "is" s)
  show ?case
  proof (cases "i < length (threads s) \<and> steps_left (threads s ! i) \<noteq> []")
    case True
    then obtain st rest v c where st: "steps_left (threads s ! i) = st # rest" "st (shared s) = (v, c)"
      by (metis list.exhaust surj_pair)
    let ?t = "s\<lparr>shared := c, threads := (threads s)[i := \<lparr>steps_left = rest, returned = v\<rparr>]\<rparr>"
    have "system_step s ?t" using True st by (blast intro: system_step.intros)
    then have "system_run s ?t" by (blast intro: system_run.intros)
    moreover have "system_run ?t (run_schedule is ?t)" using 2(2) [of st rest v c] True st by auto
    ultimately show ?thesis using True st by (auto intro: run_trans)
  next
    case False
    then show ?thesis using 2 by (auto split: list.split)
  qed
qed (simp add: system_run.intros)

text \<open>Primitives that do what their manuals say.\<close>

definition standard_primitives :: "'w::len word primitives" where
  "standard_primitives =
     \<lparr>add_and_fetch = (\<lambda>d c. (c + d, c + d)), fetch_and_add = (\<lambda>d c. (c, c + d)), load = (\<lambda>c. (c, c)),
      cas_success = (\<lambda>old new c. if c = old then (1, new) else (0, c)),
      cas_old_value = (\<lambda>old new c. (c, if c = old then new else c)),
      or_and_fetch = (\<lambda>m c. (c OR m, c OR m)), and_and_fetch = (\<lambda>m c. (c AND m, c AND m))\<rparr>"

lemma standard_primitives_documented: "primitives_documented standard_primitives"
  by (simp add: primitives_documented_def standard_primitives_def)

lemmas atomic_eval = release_system_def macosx_ops_def freebsd_ops_def standard_primitives_def deallocations_def
  finished_def

theorem release_deallocates_once_witness:
  "deallocations (run_schedule [1, 0] (release_system (macosx_ops standard_primitives) (1 :: 64 word) 2)) = 1"
proof -
  let ?t = "run_schedule [1, 0] (release_system (macosx_ops standard_primitives) (1 :: 64 word) 2)"
  have "list_all finished (threads ?t)"
    by (simp add: atomic_eval numeral_2_eq_2)
  moreover have "system_run (release_system (macosx_ops standard_primitives) (of_nat (2 - 1) :: 64 word) 2) ?t"
    using run_schedule_sound [of "release_system (macosx_ops standard_primitives) (1 :: 64 word) 2" "[1, 0]"] by simp
  ultimately show ?thesis
    by (intro release_deallocates_once [OF standard_primitives_documented, of _ 2]) simp_all
qed

text \<open>
  On FreeBSD the decrement is two steps, the second reading the word again, so two owners that
  release an object at the same time can both see -1 and both deallocate it, whatever the primitives do
  beyond what is documented.
\<close>

lemma freebsd_release_race:
  fixes P :: "'w::len word primitives"
  assumes "primitives_documented P"
  shows "\<exists>t. system_run (release_system (freebsd_ops P) 1 2) t \<and> list_all finished (threads t) \<and> deallocations t = 2"
proof (intro exI conjI)
  let ?s = "release_system (freebsd_ops P) 1 2"
  define f where "f c = fst (fetch_and_add P (- 1) c)" for c
  have f: "\<And>c. fetch_and_add P (- 1) c = (f c, c - 1)"
    using assms by (simp add: primitives_documented_def prod_eq_iff f_def)
  have l: "\<And>c. load P c = (c, c)" using assms by (simp add: primitives_documented_def)
  show "system_run ?s (run_schedule [0, 1, 0, 1] ?s)" by (rule run_schedule_sound)
  show "list_all finished (threads (run_schedule [0, 1, 0, 1] ?s))"
    by (simp add: release_system_def freebsd_ops_def numeral_2_eq_2 f l finished_def)
  show "deallocations (run_schedule [0, 1, 0, 1] ?s) = 2"
    by (simp add: release_system_def freebsd_ops_def numeral_2_eq_2 f l deallocations_def finished_def)
qed

lemma freebsd_release_race_witness:
  "\<exists>t :: 64 word system. system_run (release_system (freebsd_ops standard_primitives) 1 2) t \<and>
     list_all finished (threads t) \<and> deallocations t = 2"
  by (rule freebsd_release_race [OF standard_primitives_documented])

section \<open>Compare and swap\<close>

text \<open>On every platform a successful swap is one indivisible step that found the expected value.\<close>

lemma compare_and_swap_step:
  assumes "primitives_documented P" "ops \<in> {macosx_ops P, freebsd_ops P, solaris_ops P, gcc_ops P}"
  shows "\<exists>st. RKAtomicCompareAndSwap ops old new = [st] \<and>
    (swap_succeeded ops old (fst (st c)) \<longleftrightarrow> c = old) \<and> snd (st c) = (if c = old then new else c)"
  using assms by (auto simp: macosx_ops_def freebsd_ops_def solaris_ops_def gcc_ops_def primitives_documented_def)

end
