(* ===== verification/RK_Memory.thy ===== *)
theory RK_Memory
  imports RK_Prelude
begin

text \<open>
  \<open>RegexKitPrivateMemory.h\<close>: the macros behind which the framework hides whether it runs with the garbage
  collector of Mac OS X 10.5. The header defines them twice, for builds with and without the collector,
  and in the former they choose at run time by \<open>RKRegexGarbageCollect\<close>; each family is one record of
  operations here. Memory is a heap of blocks that remember who allocated them, objects have a reference
  count, an autorelease pool and the roots of the collector.
\<close>

section \<open>The heap\<close>

datatype allocator = Malloc | Collector bool | Pooled

record heap =
  blocks :: "nat \<Rightarrow> (allocator \<times> byte list) option"
  next_block :: nat
  heap_full :: bool

definition new_block :: "allocator \<Rightarrow> byte list \<Rightarrow> heap \<Rightarrow> nat \<times> heap" where
  "new_block a bs h =
     (if heap_full h then (0, h)
      else (next_block h, h\<lparr>blocks := (blocks h)(next_block h \<mapsto> (a, bs)), next_block := next_block h + 1\<rparr>))"

text \<open>Fresh memory holds \<open>junk\<close>; \<open>free\<close> of anything but \<open>NULL\<close> and a live block of \<open>malloc\<close> is undefined.\<close>

definition c_malloc :: "(nat \<Rightarrow> byte) \<Rightarrow> nat \<Rightarrow> heap \<Rightarrow> (nat \<times> heap) run" where
  "c_malloc junk n h = Ok (new_block Malloc (map junk [0..<n]) h)"

definition c_calloc :: "nat \<Rightarrow> heap \<Rightarrow> (nat \<times> heap) run" where
  "c_calloc n h = Ok (new_block Malloc (replicate n 0) h)"

definition NSAllocateCollectable :: "(nat \<Rightarrow> byte) \<Rightarrow> nat \<Rightarrow> bool \<Rightarrow> heap \<Rightarrow> (nat \<times> heap) run" where
  "NSAllocateCollectable junk n scanned h = Ok (new_block (Collector scanned) (map junk [0..<n]) h)"

definition autoreleased_malloc :: "(nat \<Rightarrow> byte) \<Rightarrow> nat \<Rightarrow> heap \<Rightarrow> (nat \<times> heap) run" where
  "autoreleased_malloc junk n h = Ok (new_block Pooled (map junk [0..<n]) h)"

definition c_memset_zero :: "nat \<Rightarrow> nat \<Rightarrow> heap \<Rightarrow> (nat \<times> heap) run" where
  "c_memset_zero p n h =
     (case blocks h p of
        Some (a, bs) \<Rightarrow> if n \<le> length bs
          then Ok (p, h\<lparr>blocks := (blocks h)(p \<mapsto> (a, replicate n 0 @ drop n bs))\<rparr>) else Undefined
      | None \<Rightarrow> if n = 0 then Ok (p, h) else Undefined)"

definition c_free :: "nat \<Rightarrow> heap \<Rightarrow> heap run" where
  "c_free p h =
     (if p = 0 then Ok h
      else case blocks h p of
        Some (Malloc, bs) \<Rightarrow> Ok (h\<lparr>blocks := (blocks h)(p := None)\<rparr>)
      | _ \<Rightarrow> Undefined)"

section \<open>Objects\<close>

record objects =
  counts :: "nat \<Rightarrow> int"
  pool :: "nat list"
  collectable :: "nat set"
  rooted :: "nat set"

definition retain :: "nat \<Rightarrow> objects \<Rightarrow> objects" where
  "retain x st = st\<lparr>counts := (counts st)(x := counts st x + 1)\<rparr>"

definition release :: "nat \<Rightarrow> objects \<Rightarrow> objects" where
  "release x st = st\<lparr>counts := (counts st)(x := counts st x - 1)\<rparr>"

definition autorelease :: "nat \<Rightarrow> objects \<Rightarrow> objects" where
  "autorelease x st = st\<lparr>pool := x # pool st\<rparr>"

definition make_collectable :: "nat \<Rightarrow> objects \<Rightarrow> objects" where
  "make_collectable x st = st\<lparr>collectable := insert x (collectable st)\<rparr>"

definition drain_pool :: "objects \<Rightarrow> objects" where
  "drain_pool st = (foldr release (pool st) st)\<lparr>pool := []\<rparr>"

section \<open>The two families of macros\<close>

record memory_macros =
  RKRegexGarbageCollect :: int
  RKAutoreleasedMallocNoGC :: "nat \<Rightarrow> heap \<Rightarrow> (nat \<times> heap) run"
  RKAutoreleasedMallocScanned :: "nat \<Rightarrow> heap \<Rightarrow> (nat \<times> heap) run"
  RKAutoreleasedMallocNotScanned :: "nat \<Rightarrow> heap \<Rightarrow> (nat \<times> heap) run"
  RKMallocNoGC :: "nat \<Rightarrow> heap \<Rightarrow> (nat \<times> heap) run"
  RKMallocScanned :: "nat \<Rightarrow> heap \<Rightarrow> (nat \<times> heap) run"
  RKMallocNotScanned :: "nat \<Rightarrow> heap \<Rightarrow> (nat \<times> heap) run"
  RKCallocNoGC :: "nat \<Rightarrow> heap \<Rightarrow> (nat \<times> heap) run"
  RKCallocScanned :: "nat \<Rightarrow> heap \<Rightarrow> (nat \<times> heap) run"
  RKCallocNotScanned :: "nat \<Rightarrow> heap \<Rightarrow> (nat \<times> heap) run"
  RKFreeAndNULL :: "nat \<Rightarrow> heap \<Rightarrow> (nat \<times> heap) run"
  RKFreeAndNULLNoGC :: "nat \<Rightarrow> heap \<Rightarrow> (nat \<times> heap) run"
  RKEnableCollectorForPointer :: "nat \<Rightarrow> objects \<Rightarrow> objects"
  RKDisableCollectorForPointer :: "nat \<Rightarrow> objects \<Rightarrow> objects"
  RKMakeCollectable :: "nat \<Rightarrow> objects \<Rightarrow> objects"
  RKMakeCollectableOrAutorelease :: "nat \<Rightarrow> objects \<Rightarrow> objects"
  RKAutorelease :: "nat \<Rightarrow> objects \<Rightarrow> objects"
  RKCFRetain :: "nat \<Rightarrow> objects \<Rightarrow> objects"
  RKCFRelease :: "nat \<Rightarrow> objects \<Rightarrow> objects"
  RKRetain :: "nat \<Rightarrow> objects \<Rightarrow> objects"
  RKRelease :: "nat \<Rightarrow> objects \<Rightarrow> objects"

text \<open>
  A build with support for the collector; \<open>gc\<close> is the variable that \<open>+initialize\<close> sets when a collector is
  running. The zeroing \<open>RKCalloc\<close> macros clear what the collector gives them.
\<close>

definition collector_macros :: "(nat \<Rightarrow> byte) \<Rightarrow> int \<Rightarrow> memory_macros" where
  "collector_macros junk gc =
     \<lparr>RKRegexGarbageCollect = gc,
      RKAutoreleasedMallocNoGC = autoreleased_malloc junk,
      RKAutoreleasedMallocScanned = (\<lambda>n. if gc = 0 then autoreleased_malloc junk n else NSAllocateCollectable junk n True),
      RKAutoreleasedMallocNotScanned = (\<lambda>n. if gc = 0 then autoreleased_malloc junk n else NSAllocateCollectable junk n False),
      RKMallocNoGC = c_malloc junk,
      RKMallocScanned = (\<lambda>n. if gc = 0 then c_malloc junk n else NSAllocateCollectable junk n True),
      RKMallocNotScanned = (\<lambda>n. if gc = 0 then c_malloc junk n else NSAllocateCollectable junk n False),
      RKCallocNoGC = c_calloc,
      RKCallocScanned = (\<lambda>n h. if gc = 0 then c_calloc n h
        else run_bind (NSAllocateCollectable junk n True h) (\<lambda>(p, h'). c_memset_zero p n h')),
      RKCallocNotScanned = (\<lambda>n h. if gc = 0 then c_calloc n h
        else run_bind (NSAllocateCollectable junk n False h) (\<lambda>(p, h'). c_memset_zero p n h')),
      RKFreeAndNULL = (\<lambda>p h. run_map (\<lambda>h'. (0, h')) (if gc = 0 then c_free p h else Ok h)),
      RKFreeAndNULLNoGC = (\<lambda>p h. run_map (\<lambda>h'. (0, h')) (c_free p h)),
      RKEnableCollectorForPointer = (\<lambda>x st. if gc = 1 \<and> x \<noteq> 0 then st\<lparr>rooted := rooted st - {x}\<rparr> else st),
      RKDisableCollectorForPointer = (\<lambda>x st. if gc = 1 \<and> x \<noteq> 0 then st\<lparr>rooted := insert x (rooted st)\<rparr> else st),
      RKMakeCollectable = (\<lambda>x. if gc = 1 then make_collectable x else id),
      RKMakeCollectableOrAutorelease = (\<lambda>x. if gc = 1 then make_collectable x else autorelease x),
      RKAutorelease = (\<lambda>x. if gc = 1 then id else autorelease x),
      RKCFRetain = (\<lambda>x. if gc = 1 then id else retain x),
      RKCFRelease = (\<lambda>x. if gc = 1 then id else release x),
      RKRetain = (\<lambda>x. if gc = 1 then id else retain x),
      RKRelease = (\<lambda>x. if gc = 1 then id else release x)\<rparr>"

text \<open>A build without it, where \<open>RKRegexGarbageCollect\<close> is the constant 0.\<close>

definition plain_macros :: "(nat \<Rightarrow> byte) \<Rightarrow> memory_macros" where
  "plain_macros junk =
     \<lparr>RKRegexGarbageCollect = 0,
      RKAutoreleasedMallocNoGC = autoreleased_malloc junk, RKAutoreleasedMallocScanned = autoreleased_malloc junk,
      RKAutoreleasedMallocNotScanned = autoreleased_malloc junk,
      RKMallocNoGC = c_malloc junk, RKMallocScanned = c_malloc junk, RKMallocNotScanned = c_malloc junk,
      RKCallocNoGC = c_calloc, RKCallocScanned = c_calloc, RKCallocNotScanned = c_calloc,
      RKFreeAndNULL = (\<lambda>p h. run_map (\<lambda>h'. (0, h')) (c_free p h)),
      RKFreeAndNULLNoGC = (\<lambda>p h. run_map (\<lambda>h'. (0, h')) (c_free p h)),
      RKEnableCollectorForPointer = (\<lambda>x. id), RKDisableCollectorForPointer = (\<lambda>x. id),
      RKMakeCollectable = (\<lambda>x. id), RKMakeCollectableOrAutorelease = autorelease, RKAutorelease = autorelease,
      RKCFRetain = retain, RKCFRelease = release, RKRetain = retain, RKRelease = release\<rparr>"

lemma collector_off: "collector_macros junk 0 = plain_macros junk"
  by (simp add: collector_macros_def plain_macros_def id_def)

section \<open>Matching allocation and release\<close>

definition malloced :: "heap \<Rightarrow> nat set" where
  "malloced h = {p. \<exists>bs. blocks h p = Some (Malloc, bs)}"

definition heap_ok :: "heap \<Rightarrow> bool" where
  "heap_ok h \<longleftrightarrow> 0 < next_block h \<and> (\<forall>p \<ge> next_block h. blocks h p = None)"

text \<open>Allocating a block and giving it back: the pointer afterwards and the heap.\<close>

definition alloc_free :: "(nat \<Rightarrow> heap \<Rightarrow> (nat \<times> heap) run) \<Rightarrow> (nat \<Rightarrow> heap \<Rightarrow> (nat \<times> heap) run) \<Rightarrow>
    nat \<Rightarrow> heap \<Rightarrow> (nat \<times> heap) run" where
  "alloc_free alloc free n h = run_bind (alloc n h) (\<lambda>(p, h'). free p h')"

definition balanced :: "heap \<Rightarrow> (nat \<times> heap) run \<Rightarrow> bool" where
  "balanced h r \<longleftrightarrow> (\<exists>h'. r = Ok (0, h') \<and> malloced h' = malloced h \<and> heap_ok h')"

lemmas memory_ops = c_malloc_def c_calloc_def c_free_def NSAllocateCollectable_def c_memset_zero_def new_block_def
  autoreleased_malloc_def

lemma malloc_free_balanced:
  assumes "heap_ok h"
  shows "balanced h (run_bind (Ok (new_block Malloc bs h)) (\<lambda>(p, h'). run_map (\<lambda>h''. (0, h'')) (c_free p h')))"
  using assms by (auto simp: balanced_def heap_ok_def malloced_def memory_ops)

lemma collected_balanced:
  assumes "heap_ok h"
  shows "balanced h (run_bind (Ok (new_block (Collector s) bs h)) (\<lambda>(p, h'). Ok (0, h')))"
  using assms by (auto simp: balanced_def heap_ok_def malloced_def memory_ops)

lemma cleared_balanced:
  assumes "heap_ok h" "\<not> heap_full h"
  shows "balanced h (run_bind (NSAllocateCollectable junk n s h) (\<lambda>(p, h'). run_bind (c_memset_zero p n h') (\<lambda>(p, h'). Ok (0, h'))))"
  using assms by (auto simp: balanced_def heap_ok_def malloced_def memory_ops)

lemma alloc_free_cases:
  assumes "heap_ok h" "\<not> heap_full h"
  shows "balanced h (alloc_free (RKMallocScanned (collector_macros junk gc)) (RKFreeAndNULL (collector_macros junk gc)) n h)"
    and "balanced h (alloc_free (RKMallocNotScanned (collector_macros junk gc)) (RKFreeAndNULL (collector_macros junk gc)) n h)"
    and "balanced h (alloc_free (RKCallocScanned (collector_macros junk gc)) (RKFreeAndNULL (collector_macros junk gc)) n h)"
    and "balanced h (alloc_free (RKCallocNotScanned (collector_macros junk gc)) (RKFreeAndNULL (collector_macros junk gc)) n h)"
    and "balanced h (alloc_free (RKMallocNoGC (collector_macros junk gc)) (RKFreeAndNULLNoGC (collector_macros junk gc)) n h)"
    and "balanced h (alloc_free (RKCallocNoGC (collector_macros junk gc)) (RKFreeAndNULLNoGC (collector_macros junk gc)) n h)"
  using malloc_free_balanced [OF assms(1)] collected_balanced [OF assms(1)] cleared_balanced [OF assms, of junk n]
  by (simp_all add: alloc_free_def collector_macros_def c_malloc_def c_calloc_def NSAllocateCollectable_def run_bind_assoc case_prod_beta)

text \<open>The allocating macros with the macro that releases their memory.\<close>

definition matching_pairs :: "memory_macros \<Rightarrow> ((nat \<Rightarrow> heap \<Rightarrow> (nat \<times> heap) run) \<times> (nat \<Rightarrow> heap \<Rightarrow> (nat \<times> heap) run)) list" where
  "matching_pairs m =
     [(RKMallocScanned m, RKFreeAndNULL m), (RKMallocNotScanned m, RKFreeAndNULL m), (RKCallocScanned m, RKFreeAndNULL m),
      (RKCallocNotScanned m, RKFreeAndNULL m), (RKMallocNoGC m, RKFreeAndNULLNoGC m), (RKCallocNoGC m, RKFreeAndNULLNoGC m)]"

lemma pairs_balanced:
  assumes "m = plain_macros junk \<or> m = collector_macros junk gc" "heap_ok h" "\<not> heap_full h"
    and "(alloc, free) \<in> set (matching_pairs m)"
  shows "balanced h (alloc_free alloc free n h)"
  using assms(1,4) alloc_free_cases [OF assms(2,3), of junk] unfolding collector_off [symmetric] matching_pairs_def
  by auto

lemma retain_release_inverse [simp]: "release x (retain x st) = st"
  by (simp add: release_def retain_def)

text \<open>
  In every build, with the collector running or not, memory from one of the allocation macros and
  released with the matching macro is released exactly once: nothing is freed that \<open>malloc\<close> did not give,
  no block of \<open>malloc\<close> is left behind, and the pointer is \<open>NULL\<close>. A retain and a release, or a retain and
  an autorelease once the pool is drained, leave an object's count as it was.
\<close>

lemma memory_macros_paired:
  assumes "m = plain_macros junk \<or> m = collector_macros junk gc" "heap_ok h" "\<not> heap_full h"
    and "(alloc, free) \<in> set (matching_pairs m)"
  shows "balanced h (alloc_free alloc free n h) \<and>
    RKRelease m x (RKRetain m x st) = st \<and> RKCFRelease m x (RKCFRetain m x st) = st \<and>
    (pool st = [] \<longrightarrow> drain_pool (RKAutorelease m x (RKRetain m x st)) = st)"
  using assms(1) pairs_balanced [OF assms, of n]
  by (auto simp: plain_macros_def collector_macros_def drain_pool_def autorelease_def retain_def release_def)

lemma memory_macros_paired_witness:
  "balanced \<lparr>blocks = (\<lambda>p. None), next_block = 1, heap_full = False\<rparr>
     (alloc_free (RKMallocScanned (collector_macros (\<lambda>i. 7) 1)) (RKFreeAndNULL (collector_macros (\<lambda>i. 7) 1)) 4
       \<lparr>blocks = (\<lambda>p. None), next_block = 1, heap_full = False\<rparr>)"
proof -
  have "heap_ok \<lparr>blocks = (\<lambda>p. None), next_block = 1, heap_full = False\<rparr>"
    "\<not> heap_full \<lparr>blocks = (\<lambda>p. None), next_block = 1, heap_full = False\<rparr>"
    by (simp_all add: heap_ok_def)
  moreover have "(RKMallocScanned (collector_macros (\<lambda>i. 7) 1), RKFreeAndNULL (collector_macros (\<lambda>i. 7) 1))
      \<in> set (matching_pairs (collector_macros (\<lambda>i. 7) 1))"
    by (simp add: matching_pairs_def)
  ultimately show ?thesis using memory_macros_paired by blast
qed

text \<open>Memory from \<open>RKMallocNoGC\<close> that is released with \<open>RKFreeAndNULL\<close> leaks when the collector runs.\<close>

lemma mismatched_pair_leaks:
  assumes "heap_ok h" "\<not> heap_full h" "gc \<noteq> 0"
  shows "case alloc_free (RKMallocNoGC (collector_macros junk gc)) (RKFreeAndNULL (collector_macros junk gc)) n h of
    Ok (p, h') \<Rightarrow> p = 0 \<and> next_block h \<in> malloced h' - malloced h | _ \<Rightarrow> False"
  using assms by (auto simp: alloc_free_def collector_macros_def memory_ops malloced_def heap_ok_def)

text \<open>A zeroing macro of a full collector clears memory at address 0.\<close>

lemma calloc_without_memory: "heap_ok h \<Longrightarrow> heap_full h \<Longrightarrow> 0 < n \<Longrightarrow> blocks h 0 = None \<Longrightarrow> gc \<noteq> 0 \<Longrightarrow>
    RKCallocScanned (collector_macros junk gc) n h = Undefined"
  by (simp add: collector_macros_def memory_ops)

end
