(* ===== verification/RK_ThreadLocal.thy ===== *)
theory RK_ThreadLocal
  imports RK_Prelude
begin

text \<open>
  \<open>RegexKitPrivateThreads.h\<close> and the functions of \<open>RKRegex.m\<close> behind it: the data each thread keeps for
  itself, created on demand and released when the thread exits. It holds a number formatter, because
  those must not be shared between threads, and a note of the style the formatter was last set to. A
  state maps threads to the addresses that \<open>pthread_getspecific\<close> gives, addresses to structures, and
  formatter objects to their style.
\<close>

section \<open>State\<close>

datatype NSNumberFormatterStyle =
    NSNumberFormatterNoStyle
  | NSNumberFormatterDecimalStyle
  | NSNumberFormatterCurrencyStyle
  | NSNumberFormatterPercentStyle
  | NSNumberFormatterScientificStyle
  | NSNumberFormatterSpellOutStyle

record thread_local_data =
  numberFormatter :: "nat option"
  currentFormatterStyle :: NSNumberFormatterStyle

record tls_state =
  specific :: "nat \<Rightarrow> nat option"
  tld_memory :: "nat \<Rightarrow> thread_local_data option"
  formatters :: "nat \<Rightarrow> NSNumberFormatterStyle option"
  next_address :: nat
  no_memory :: bool

definition tls_initial :: tls_state where
  "tls_initial =
     \<lparr>specific = (\<lambda>t. None), tld_memory = (\<lambda>p. None), formatters = (\<lambda>f. None), next_address = 1, no_memory = False\<rparr>"

section \<open>Operations\<close>

text \<open>The out of line function: a cleared structure, entered for the thread.\<close>

definition RKGetThreadLocalData_create :: "nat \<Rightarrow> tls_state \<Rightarrow> nat option \<times> tls_state" where
  "RKGetThreadLocalData_create t st =
     (case specific st t of
        Some p \<Rightarrow> (Some p, st)
      | None \<Rightarrow>
          if no_memory st then (None, st)
          else (Some (next_address st),
                st\<lparr>specific := (specific st)(t := Some (next_address st)),
                   tld_memory := (tld_memory st)(next_address st \<mapsto>
                     \<lparr>numberFormatter = None, currentFormatterStyle = NSNumberFormatterNoStyle\<rparr>),
                   next_address := next_address st + 1\<rparr>))"

text \<open>The inline functions of the header.\<close>

definition RKGetThreadLocalData :: "nat \<Rightarrow> tls_state \<Rightarrow> nat option \<times> tls_state" where
  "RKGetThreadLocalData t st =
     (case specific st t of Some p \<Rightarrow> (Some p, st) | None \<Rightarrow> RKGetThreadLocalData_create t st)"

definition RKGetThreadLocalNumberFormatter_create :: "nat \<Rightarrow> tls_state \<Rightarrow> nat option \<times> tls_state" where
  "RKGetThreadLocalNumberFormatter_create t st =
     (case RKGetThreadLocalData_create t st of
        (None, st') \<Rightarrow> (None, st')
      | (Some p, st') \<Rightarrow> (case tld_memory st' p of
            None \<Rightarrow> (None, st')
          | Some tld \<Rightarrow> (case numberFormatter tld of
              Some f \<Rightarrow> (Some f, st')
            | None \<Rightarrow>
                let f = next_address st'
                in (Some f, st'\<lparr>formatters := (formatters st')(f \<mapsto> NSNumberFormatterNoStyle),
                                tld_memory := (tld_memory st')(p \<mapsto>
                                  \<lparr>numberFormatter = Some f, currentFormatterStyle = NSNumberFormatterNoStyle\<rparr>),
                                next_address := f + 1\<rparr>))))"

definition RKGetThreadLocalNumberFormatter :: "nat \<Rightarrow> tls_state \<Rightarrow> nat option \<times> tls_state" where
  "RKGetThreadLocalNumberFormatter t st =
     (case RKGetThreadLocalData t st of
        (None, st') \<Rightarrow> (None, st')
      | (Some p, st') \<Rightarrow> (case tld_memory st' p of
            None \<Rightarrow> (None, st')
          | Some tld \<Rightarrow> (case numberFormatter tld of
              Some f \<Rightarrow> (Some f, st')
            | None \<Rightarrow> RKGetThreadLocalNumberFormatter_create t st')))"

text \<open>The handler of the pthread key, called with the thread's structure when the thread exits.\<close>

definition RKThreadIsExiting :: "nat \<Rightarrow> tls_state \<Rightarrow> tls_state" where
  "RKThreadIsExiting t st =
     (case specific st t of
        None \<Rightarrow> st
      | Some p \<Rightarrow>
          st\<lparr>specific := (specific st)(t := None),
             formatters := (case tld_memory st p of
                 Some tld \<Rightarrow> (case numberFormatter tld of Some f \<Rightarrow> (formatters st)(f := None) | None \<Rightarrow> formatters st)
               | None \<Rightarrow> formatters st),
             tld_memory := (tld_memory st)(p := None)\<rparr>)"

text \<open>
  The use in \<open>RKParseReference\<close>: the character after \<open>@\<close> selects the style (none selects the plain
  one), and the formatter is only told when the style noted for the thread differs.
\<close>

definition style_of_character :: "byte option \<Rightarrow> NSNumberFormatterStyle option" where
  "style_of_character c =
     (case c of
        None \<Rightarrow> Some NSNumberFormatterNoStyle
      | Some b \<Rightarrow>
          if b = 0x2e then Some NSNumberFormatterDecimalStyle
          else if b = 0x24 then Some NSNumberFormatterCurrencyStyle
          else if b = 0x25 then Some NSNumberFormatterPercentStyle
          else if b = 0x73 then Some NSNumberFormatterScientificStyle
          else if b = 0x77 then Some NSNumberFormatterSpellOutStyle
          else None)"

definition set_formatter_style :: "nat \<Rightarrow> nat \<Rightarrow> NSNumberFormatterStyle \<Rightarrow> tls_state \<Rightarrow> tls_state" where
  "set_formatter_style p f style st =
     (case tld_memory st p of
        None \<Rightarrow> st
      | Some tld \<Rightarrow>
          if currentFormatterStyle tld \<noteq> style
          then st\<lparr>tld_memory := (tld_memory st)(p \<mapsto> tld\<lparr>currentFormatterStyle := style\<rparr>),
                  formatters := (formatters st)(f \<mapsto> style)\<rparr>
          else st)"

definition formatter_for_conversion :: "nat \<Rightarrow> byte option \<Rightarrow> tls_state \<Rightarrow> nat option \<times> tls_state" where
  "formatter_for_conversion t c st =
     (case RKGetThreadLocalData t st of
        (None, st') \<Rightarrow> (None, st')
      | (Some p, st') \<Rightarrow> (case RKGetThreadLocalNumberFormatter t st' of
            (None, st'') \<Rightarrow> (None, st'')
          | (Some f, st'') \<Rightarrow> (case style_of_character c of
              None \<Rightarrow> (None, st'')
            | Some style \<Rightarrow> (Some f, set_formatter_style p f style st''))))"

section \<open>Invariant\<close>

text \<open>
  Every structure belongs to exactly one thread and every formatter to exactly one structure, and the
  noted style of a formatter is its style.
\<close>

definition owns_formatter :: "tls_state \<Rightarrow> nat \<Rightarrow> nat \<Rightarrow> bool" where
  "owns_formatter st t f \<longleftrightarrow>
     (\<exists>p tld. specific st t = Some p \<and> tld_memory st p = Some tld \<and> numberFormatter tld = Some f)"

definition tls_ok :: "tls_state \<Rightarrow> bool" where
  "tls_ok st \<longleftrightarrow>
     (\<forall>t p. specific st t = Some p \<longrightarrow> p < next_address st \<and> (\<exists>tld. tld_memory st p = Some tld)) \<and>
     (\<forall>p tld. tld_memory st p = Some tld \<longrightarrow> (\<exists>t. specific st t = Some p)) \<and>
     (\<forall>t t' p. specific st t = Some p \<longrightarrow> specific st t' = Some p \<longrightarrow> t = t') \<and>
     (\<forall>p tld f. tld_memory st p = Some tld \<longrightarrow> numberFormatter tld = Some f \<longrightarrow>
        f < next_address st \<and> formatters st f = Some (currentFormatterStyle tld)) \<and>
     (\<forall>p p' tld tld' f. tld_memory st p = Some tld \<longrightarrow> tld_memory st p' = Some tld' \<longrightarrow>
        numberFormatter tld = Some f \<longrightarrow> numberFormatter tld' = Some f \<longrightarrow> p = p') \<and>
     (\<forall>f s. formatters st f = Some s \<longrightarrow> (\<exists>p tld. tld_memory st p = Some tld \<and> numberFormatter tld = Some f))"

lemma tls_okD:
  assumes "tls_ok st"
  shows "specific st t = Some p \<Longrightarrow> p < next_address st"
    and "specific st t = Some p \<Longrightarrow> \<exists>tld. tld_memory st p = Some tld"
    and "tld_memory st p = Some tld \<Longrightarrow> \<exists>t. specific st t = Some p"
    and "specific st t = Some p \<Longrightarrow> specific st t' = Some p \<Longrightarrow> t = t'"
    and "tld_memory st p = Some tld \<Longrightarrow> numberFormatter tld = Some f \<Longrightarrow> f < next_address st"
    and "tld_memory st p = Some tld \<Longrightarrow> numberFormatter tld = Some f \<Longrightarrow> formatters st f = Some (currentFormatterStyle tld)"
    and "tld_memory st p = Some tld \<Longrightarrow> tld_memory st p' = Some tld' \<Longrightarrow> numberFormatter tld = Some f \<Longrightarrow>
      numberFormatter tld' = Some f \<Longrightarrow> p = p'"
    and "formatters st f = Some s \<Longrightarrow> \<exists>p tld. tld_memory st p = Some tld \<and> numberFormatter tld = Some f"
  using assms unfolding tls_ok_def by blast+

datatype tls_event = Convert nat "byte option" | ThreadExit nat

fun tls_event_step :: "tls_event \<Rightarrow> tls_state \<Rightarrow> tls_state" where
  "tls_event_step (Convert t c) st = snd (formatter_for_conversion t c st)"
| "tls_event_step (ThreadExit t) st = RKThreadIsExiting t st"

definition tls_run :: "tls_event list \<Rightarrow> tls_state" where
  "tls_run es = foldl (\<lambda>st e. tls_event_step e st) tls_initial es"

lemma tls_initial_ok: "tls_ok tls_initial"
  by (simp add: tls_ok_def tls_initial_def)

lemma exit_ok:
  assumes ok: "tls_ok st"
  shows "tls_ok (RKThreadIsExiting t st)"
proof (cases "specific st t")
  case (Some p)
  note p = this
  obtain tld where tld: "tld_memory st p = Some tld" using tls_okD(2) [OF ok p] by blast
  define fs where "fs = (case numberFormatter tld of Some f \<Rightarrow> (formatters st)(f := None) | None \<Rightarrow> formatters st)"
  have fs: "fs f = Some s \<longleftrightarrow> formatters st f = Some s \<and> numberFormatter tld \<noteq> Some f" for f s
    by (auto simp: fs_def split: option.split)
  have ex: "RKThreadIsExiting t st =
      st\<lparr>specific := (specific st)(t := None), formatters := fs, tld_memory := (tld_memory st)(p := None)\<rparr>"
    using p tld by (simp add: RKThreadIsExiting_def fs_def)
  show ?thesis unfolding tls_ok_def ex
  proof (intro conjI allI impI, goal_cases)
    case (2 t' q) then show ?case using tls_okD(2,4) [OF ok] p by (auto split: if_splits)
  next
    case (3 q tld')
    then obtain t' where "specific st t' = Some q" "q \<noteq> p" using tls_okD(3) [OF ok, of q tld'] by (auto split: if_splits)
    then show ?case using p by (intro exI [of _ t']) auto
  next
    case (6 q tld' f) then show ?case using tls_okD(6,7) [OF ok] tld by (auto simp: fs split: if_splits)
  next
    case (8 f s)
    then obtain q tld' where q: "tld_memory st q = Some tld'" "numberFormatter tld' = Some f"
      using tls_okD(8) [OF ok, of f s] by (auto simp: fs)
    then have "q \<noteq> p" using 8 tld by (auto simp: fs)
    then show ?case using q by (intro exI [of _ q] exI [of _ tld']) auto
  qed (use tls_okD [OF ok] in \<open>auto split: if_splits\<close>)
qed (use ok in \<open>simp add: RKThreadIsExiting_def\<close>)

lemma create_ok:
  assumes ok: "tls_ok st" and r: "RKGetThreadLocalData_create t st = (r, st')"
  shows "tls_ok st'" "r = Some p \<Longrightarrow> specific st' t = Some p" "r = None \<Longrightarrow> no_memory st"
    "no_memory st' = no_memory st"
proof -
  show "r = Some p \<Longrightarrow> specific st' t = Some p" "r = None \<Longrightarrow> no_memory st" "no_memory st' = no_memory st"
    using r by (auto simp: RKGetThreadLocalData_create_def split: option.splits if_splits)
  show "tls_ok st'"
  proof (cases "specific st t = None \<and> \<not> no_memory st")
    case True
    have fresh: "tld_memory st (next_address st) = None"
      using tls_okD(1,3) [OF ok] by (metis less_irrefl not_None_eq)
    have st': "st' = st\<lparr>specific := (specific st)(t := Some (next_address st)),
        tld_memory := (tld_memory st)(next_address st \<mapsto>
          \<lparr>numberFormatter = None, currentFormatterStyle = NSNumberFormatterNoStyle\<rparr>),
        next_address := next_address st + 1\<rparr>"
      using r True by (auto simp: RKGetThreadLocalData_create_def)
    show ?thesis
      unfolding tls_ok_def st'
    proof (intro conjI allI impI, goal_cases)
      case (1 t' q) then show ?case using tls_okD(1) [OF ok, of t' q] by (auto split: if_splits)
    next
      case (2 t' q) then show ?case using tls_okD(2) [OF ok, of t' q] by (auto split: if_splits)
    next
      case (3 q tld')
      show ?case
      proof (cases "q = next_address st")
        case False
        then obtain t' where "specific st t' = Some q" using 3 tls_okD(3) [OF ok, of q tld'] by auto
        then show ?thesis using True by (intro exI [of _ t']) auto
      qed auto
    next
      case (4 t' t'' q) then show ?case using tls_okD(4) [OF ok, of t' q t''] tls_okD(1) [OF ok]
        by (auto split: if_splits)
    next
      case (5 q tld' f) then show ?case using tls_okD(5) [OF ok, of q tld' f] by (auto split: if_splits)
    next
      case (6 q tld' f) then show ?case using tls_okD(6) [OF ok, of q tld' f] by (auto split: if_splits)
    next
      case (7 q q' tld1 tld2 f) then show ?case using tls_okD(7) [OF ok, of q tld1 q' tld2 f] by (auto split: if_splits)
    next
      case (8 f s)
      then obtain q tld' where "tld_memory st q = Some tld'" "numberFormatter tld' = Some f"
        using tls_okD(8) [OF ok, of f s] by auto
      then show ?case using fresh by (intro exI [of _ q] exI [of _ tld']) auto
    qed
  next
    case False
    then have "st' = st" using r by (auto simp: RKGetThreadLocalData_create_def split: option.splits if_splits)
    then show ?thesis using ok by simp
  qed
qed

lemma get_data_eq_create: "RKGetThreadLocalData t st = RKGetThreadLocalData_create t st"
  by (simp add: RKGetThreadLocalData_def RKGetThreadLocalData_create_def split: option.split)

text \<open>Updating the structure of a thread together with the style of its formatter.\<close>

lemma put_formatter_ok:
  assumes ok: "tls_ok st" and p: "specific st t = Some p" "tld_memory st p = Some tld"
    and f: "numberFormatter tld = Some f \<and> n = next_address st \<or> numberFormatter tld = None \<and> f = next_address st \<and> n = next_address st + 1"
  shows "tls_ok (st\<lparr>formatters := (formatters st)(f \<mapsto> s),
      tld_memory := (tld_memory st)(p \<mapsto> \<lparr>numberFormatter = Some f, currentFormatterStyle = s\<rparr>), next_address := n\<rparr>)"
proof -
  have other: "numberFormatter tld' \<noteq> Some f" if "tld_memory st q = Some tld'" "q \<noteq> p" for q tld'
    using f tls_okD(5) [OF ok that(1), of f] tls_okD(7) [OF ok that(1) p(2), of f] that by auto
  have n: "next_address st \<le> n" "f < n" using f tls_okD(5) [OF ok p(2), of f] by auto
  show ?thesis
    unfolding tls_ok_def
  proof (intro conjI allI impI, goal_cases)
    case (1 t' q) then show ?case using tls_okD(1) [OF ok, of t' q] n by simp
  next
    case (2 t' q) then show ?case using tls_okD(2) [OF ok, of t' q] by auto
  next
    case (3 q tld') then show ?case using tls_okD(3) [OF ok, of q tld'] p by (auto split: if_splits)
  next
    case (4 t' t'' q) then show ?case using tls_okD(4) [OF ok, of t' q t''] by simp
  next
    case (5 q tld' g) then show ?case using tls_okD(5) [OF ok, of q tld' g] n by (auto split: if_splits)
  next
    case (6 q tld' g) then show ?case using tls_okD(6) [OF ok, of q tld' g] other by (auto split: if_splits)
  next
    case (7 q q' tld1 tld2 g) then show ?case using tls_okD(7) [OF ok, of q tld1 q' tld2 g] other by (auto split: if_splits)
  next
    case (8 g s')
    show ?case
    proof (cases "g = f")
      case False
      then obtain q tld' where q: "tld_memory st q = Some tld'" "numberFormatter tld' = Some g"
        using 8 tls_okD(8) [OF ok, of g s'] by auto
      then have "q \<noteq> p" using f p(2) False by auto
      then show ?thesis using q by (intro exI [of _ q] exI [of _ tld']) auto
    qed auto
  qed
qed

lemma get_formatter:
  assumes ok: "tls_ok st" and p: "specific st t = Some p"
  obtains f st' tld where "RKGetThreadLocalNumberFormatter t st = (Some f, st')" "tls_ok st'" "specific st' t = Some p"
    "tld_memory st' p = Some tld" "numberFormatter tld = Some f" "no_memory st' = no_memory st"
proof -
  obtain tld where tld: "tld_memory st p = Some tld" using tls_okD(2) [OF ok p] by blast
  show ?thesis
  proof (cases "numberFormatter tld")
    case None
    let ?st = "st\<lparr>formatters := (formatters st)(next_address st \<mapsto> NSNumberFormatterNoStyle),
      tld_memory := (tld_memory st)(p \<mapsto> \<lparr>numberFormatter = Some (next_address st), currentFormatterStyle = NSNumberFormatterNoStyle\<rparr>),
      next_address := next_address st + 1\<rparr>"
    have "RKGetThreadLocalNumberFormatter t st = (Some (next_address st), ?st)"
      using p tld None by (simp add: RKGetThreadLocalNumberFormatter_def RKGetThreadLocalNumberFormatter_create_def
          RKGetThreadLocalData_def RKGetThreadLocalData_create_def Let_def)
    moreover have "tls_ok ?st" using None by (intro put_formatter_ok [OF ok p tld]) simp
    ultimately show ?thesis using that [of "next_address st" ?st] p by simp
  next
    case (Some f)
    have "RKGetThreadLocalNumberFormatter t st = (Some f, st)"
      using p tld Some by (simp add: RKGetThreadLocalNumberFormatter_def RKGetThreadLocalData_def)
    then show ?thesis using that [of f st] ok p tld Some by simp
  qed
qed

lemma set_style:
  assumes ok: "tls_ok st" and p: "specific st t = Some p" "tld_memory st p = Some tld" "numberFormatter tld = Some f"
  shows "tls_ok (set_formatter_style p f style st)" "formatters (set_formatter_style p f style st) f = Some style"
    "owns_formatter (set_formatter_style p f style st) t f"
proof -
  have f: "formatters st f = Some (currentFormatterStyle tld)" using tls_okD(6) [OF ok p(2,3)] .
  have "tld\<lparr>currentFormatterStyle := style\<rparr> = \<lparr>numberFormatter = Some f, currentFormatterStyle = style\<rparr>"
    using p(3) by (cases tld) simp
  then have "set_formatter_style p f style st = (if currentFormatterStyle tld = style then st
      else st\<lparr>formatters := (formatters st)(f \<mapsto> style),
        tld_memory := (tld_memory st)(p \<mapsto> \<lparr>numberFormatter = Some f, currentFormatterStyle = style\<rparr>),
        next_address := next_address st\<rparr>)"
    using p by (cases st) (auto simp: set_formatter_style_def)
  with ok p f put_formatter_ok [OF ok p(1,2), of f "next_address st" style]
  show "tls_ok (set_formatter_style p f style st)" "formatters (set_formatter_style p f style st) f = Some style"
    "owns_formatter (set_formatter_style p f style st) t f"
    by (auto simp: owns_formatter_def)
qed

lemma conversion_formatter:
  assumes ok: "tls_ok st"
  shows "tls_ok (snd (formatter_for_conversion t c st))"
    and "\<not> no_memory st \<Longrightarrow> style_of_character c = Some style \<Longrightarrow>
      (case formatter_for_conversion t c st of
         (Some f, st') \<Rightarrow> owns_formatter st' t f \<and> formatters st' f = Some style
       | (None, st') \<Rightarrow> False)"
proof -
  obtain r st1 where r: "RKGetThreadLocalData_create t st = (r, st1)" by fastforce
  note c = create_ok [OF ok r]
  have main: "tls_ok (snd (formatter_for_conversion t c st)) \<and> (\<not> no_memory st \<longrightarrow> style_of_character c = Some style \<longrightarrow>
      (case formatter_for_conversion t c st of
         (Some f, st') \<Rightarrow> owns_formatter st' t f \<and> formatters st' f = Some style
       | (None, st') \<Rightarrow> False))"
  proof (cases r)
    case None
    then show ?thesis using r c(1,3) by (simp add: formatter_for_conversion_def get_data_eq_create)
  next
    case (Some p)
    then have p: "specific st1 t = Some p" using c(2) by simp
    obtain f st2 tld where f: "RKGetThreadLocalNumberFormatter t st1 = (Some f, st2)" "tls_ok st2" "specific st2 t = Some p"
        "tld_memory st2 p = Some tld" "numberFormatter tld = Some f"
      using get_formatter [OF c(1) p] by metis
    then show ?thesis
      using r Some set_style [OF f(2-5)]
      by (auto simp: formatter_for_conversion_def get_data_eq_create split: option.split)
  qed
  show "tls_ok (snd (formatter_for_conversion t c st))" using main by (rule conjunct1)
  assume "\<not> no_memory st" "style_of_character c = Some style"
  then show "case formatter_for_conversion t c st of
      (Some f, st') \<Rightarrow> owns_formatter st' t f \<and> formatters st' f = Some style
    | (None, st') \<Rightarrow> False"
    using main by simp
qed

lemma tls_run_ok: "tls_ok (tls_run es)"
proof (induction es rule: rev_induct)
  case (snoc e es)
  then show ?case
    by (cases e) (simp_all add: tls_run_def exit_ok conversion_formatter(1))
qed (simp add: tls_run_def tls_initial_ok)

lemma formatter_unshared:
  assumes "tls_ok st" "owns_formatter st t f" "owns_formatter st t' f"
  shows "t = t'"
  using assms tls_okD(4,7) [OF assms(1)] unfolding owns_formatter_def by metis

text \<open>
  However threads use number conversions and exit, a conversion gets a formatter that belongs to its
  own thread alone and is set to the style the conversion asks for, although the style is only set when
  the noted one differs; and every formatter still alive belongs to a thread that has not exited.
\<close>

lemma thread_formatters:
  assumes "style_of_character c = Some style" "\<not> no_memory (tls_run es)"
  shows "case formatter_for_conversion t c (tls_run es) of
      (Some f, st) \<Rightarrow> formatters st f = Some style \<and> (\<forall>t'. owns_formatter st t' f \<longleftrightarrow> t' = t) \<and>
         (\<forall>g s. formatters st g = Some s \<longrightarrow> (\<exists>t'. specific st t' \<noteq> None \<and> owns_formatter st t' g))
    | (None, st) \<Rightarrow> False"
proof -
  obtain r st where r: "formatter_for_conversion t c (tls_run es) = (r, st)" by fastforce
  have ok: "tls_ok st" using conversion_formatter(1) [OF tls_run_ok, of t c es] r by simp
  have "\<forall>g s. formatters st g = Some s \<longrightarrow> (\<exists>t'. specific st t' \<noteq> None \<and> owns_formatter st t' g)"
    using tls_okD(3,8) [OF ok] unfolding owns_formatter_def by (metis option.distinct(1))
  then show ?thesis
    using conversion_formatter(2) [OF tls_run_ok assms(2,1), of t] r formatter_unshared [OF ok]
    by (auto split: option.splits)
qed

lemma thread_formatters_witness:
  "case formatter_for_conversion 1 (Some 0x24) (tls_run [Convert 1 None, Convert 2 (Some 0x25), ThreadExit 2]) of
      (Some f, st) \<Rightarrow> formatters st f = Some NSNumberFormatterCurrencyStyle \<and> (\<forall>t'. owns_formatter st t' f \<longleftrightarrow> t' = 1) \<and>
         (\<forall>g s. formatters st g = Some s \<longrightarrow> (\<exists>t'. specific st t' \<noteq> None \<and> owns_formatter st t' g))
    | (None, st) \<Rightarrow> False"
proof (rule thread_formatters)
  show "style_of_character (Some 0x24) = Some NSNumberFormatterCurrencyStyle" by (simp add: style_of_character_def)
  show "\<not> no_memory (tls_run [Convert 1 None, Convert 2 (Some 0x25), ThreadExit 2])" by code_simp
qed

text \<open>The character that selects the scientific style is \<open>s\<close>; the error message for a bad character says \<open>e\<close>.\<close>

lemma scientific_style_character:
  "style_of_character (Some 0x73) = Some NSNumberFormatterScientificStyle" "style_of_character (Some 0x65) = None"
  by (simp_all add: style_of_character_def)

end
