(* ===== verification/RK_CacheContract.thy ===== *)
theory RK_CacheContract
  imports Complex_Main RK_Cache RK_Memory
begin

text \<open>
  What \<open>RKCache.h\<close> documents for each method of the cache, as relations between the abstract cache
  before the call, the arguments, the answer and the abstract cache afterwards, and the proof that the
  methods of \<open>RKCache.m\<close> keep these contracts while their lock can be acquired and the switches are on. The
  status text is a list of its fields.
\<close>

section \<open>Documented behaviour\<close>

definition initWithDescription_contract :: "string option \<Rightarrow> 'a RKCache option \<Rightarrow> bool" where
  "initWithDescription_contract descr r \<longleftrightarrow>
     (case r of None \<Rightarrow> False | Some c \<Rightarrow> cacheDescriptionString c = descr \<and> cache_content c = Map.empty)"

definition setDescription_contract :: "string option \<Rightarrow> 'a RKCache \<Rightarrow> bool" where
  "setDescription_contract descr c' \<longleftrightarrow> cacheDescriptionString c' = descr"

text \<open>The fields of the status text in the order of the example in the documentation.\<close>

datatype status_field =
    Enabled bool
  | AddLookup bool bool
  | ClearedCount u64
  | CacheCount nat
  | HitRate rat
  | Hits u64
  | Misses u64
  | Total nat

definition status_contract :: "'a RKCache \<Rightarrow> status_field list" where
  "status_contract c =
     [Enabled (cacheIsEnabled c), ClearedCount (cacheClearedCount c), CacheCount (card (dom (cache_content c))),
      HitRate (100 * of_nat (unat (cacheHits c)) / of_nat (max 1 (unat (cacheHits c) + unat (cacheMisses c)))),
      Hits (cacheHits c), Misses (cacheMisses c), Total (unat (cacheHits c) + unat (cacheMisses c))]"

definition description_contract :: "'a RKCache \<Rightarrow> string option \<times> status_field list" where
  "description_contract c = (cacheDescriptionString c, status_contract c)"

definition objectForHash_contract :: "'a cache_spec \<Rightarrow> u64 \<Rightarrow> 'a option \<Rightarrow> 'a cache_spec \<Rightarrow> bool" where
  "objectForHash_contract s objectHash r s' \<longleftrightarrow> r = spec_map s objectHash \<and> s' = s"

text \<open>
  The retained object: its count grows by one while the cache is locked, and with \<open>autorelease\<close> the
  draining of the pool takes that back.
\<close>

definition objectForHash_autorelease_contract ::
  "'a cache_spec \<Rightarrow> u64 \<Rightarrow> bool \<Rightarrow> ('a \<Rightarrow> nat) \<Rightarrow> objects \<Rightarrow> 'a option \<Rightarrow> objects \<Rightarrow> bool" where
  "objectForHash_autorelease_contract s objectHash shouldAutorelease addr st r st' \<longleftrightarrow>
     r = spec_map s objectHash \<and>
     (case r of None \<Rightarrow> st' = st
      | Some x \<Rightarrow> counts st' (addr x) = counts st (addr x) + 1 \<and>
          (if shouldAutorelease then counts (drain_pool st') = counts (drain_pool st) else pool st' = pool st))"

definition addObjectToCache_withHash_contract ::
  "'a cache_spec \<Rightarrow> 'a \<Rightarrow> u64 \<Rightarrow> bool \<Rightarrow> 'a cache_spec \<Rightarrow> bool" where
  "addObjectToCache_withHash_contract s x objectHash r s' \<longleftrightarrow>
     (r \<longrightarrow> s' = s\<lparr>spec_map := (spec_map s)(objectHash \<mapsto> x)\<rparr>) \<and> (\<not> r \<longrightarrow> s' = s) \<and>
     (spec_map s objectHash \<noteq> None \<longrightarrow> \<not> r) \<and> (\<not> spec_enabled s \<longrightarrow> \<not> r)"

definition addObjectToCache_contract :: "('a \<Rightarrow> u64) \<Rightarrow> 'a cache_spec \<Rightarrow> 'a \<Rightarrow> bool \<Rightarrow> 'a cache_spec \<Rightarrow> bool" where
  "addObjectToCache_contract hash_of s x r s' \<longleftrightarrow> addObjectToCache_withHash_contract s x (hash_of x) r s'"

definition removeObjectWithHash_contract :: "'a cache_spec \<Rightarrow> u64 \<Rightarrow> 'a option \<Rightarrow> 'a cache_spec \<Rightarrow> bool" where
  "removeObjectWithHash_contract s objectHash r s' \<longleftrightarrow>
     r = spec_map s objectHash \<and> s' = s\<lparr>spec_map := (spec_map s)(objectHash := None)\<rparr>"

definition removeObjectFromCache_contract ::
  "('a \<Rightarrow> u64) \<Rightarrow> ('a \<Rightarrow> 'a \<Rightarrow> bool) \<Rightarrow> 'a cache_spec \<Rightarrow> 'a \<Rightarrow> 'a option \<Rightarrow> 'a cache_spec \<Rightarrow> bool" where
  "removeObjectFromCache_contract hash_of is_equal s x r s' \<longleftrightarrow>
     removeObjectWithHash_contract s (hash_of x) r s' \<and>
     (case r of None \<Rightarrow> True | Some y \<Rightarrow> hash_of y = hash_of x \<and> is_equal x y)"

definition clearCache_contract :: "bool \<Rightarrow> 'a cache_spec \<Rightarrow> bool" where
  "clearCache_contract r s' \<longleftrightarrow> (r \<longrightarrow> spec_map s' = Map.empty)"

definition cacheSet_contract :: "'a cache_spec \<Rightarrow> 'a list option \<Rightarrow> bool" where
  "cacheSet_contract s r \<longleftrightarrow> (case r of None \<Rightarrow> ran (spec_map s) = {} | Some xs \<Rightarrow> set xs = ran (spec_map s))"

definition isCacheEnabled_contract :: "'a cache_spec \<Rightarrow> bool \<Rightarrow> bool" where
  "isCacheEnabled_contract s r \<longleftrightarrow> r = spec_enabled s"

definition setCacheEnabled_contract :: "'a cache_spec \<Rightarrow> bool \<Rightarrow> bool \<Rightarrow> 'a cache_spec \<Rightarrow> bool" where
  "setCacheEnabled_contract s enableCache r s' \<longleftrightarrow>
     (r \<longrightarrow> s' = s\<lparr>spec_enabled := enableCache\<rparr>) \<and> (\<not> r \<longrightarrow> s' = s)"

definition cacheCount_contract :: "'a cache_spec \<Rightarrow> nat \<Rightarrow> bool" where
  "cacheCount_contract s r \<longleftrightarrow> r = card (dom (spec_map s))"

section \<open>The remaining methods\<close>

definition cache_status :: "bool \<Rightarrow> 'a RKCache \<Rightarrow> status_field list" where
  "cache_status locked c =
     (let total = unat (cacheHits c) + unat (cacheMisses c); lookups = (if total = 0 then 1 else total)
      in [Enabled (cacheIsEnabled c), AddLookup (cacheAddingIsEnabled c) (cacheLookupIsEnabled c),
          ClearedCount (cacheClearedCount c), CacheCount (cacheCount locked c),
          HitRate (of_nat (unat (cacheHits c)) / of_nat lookups * 100), Hits (cacheHits c), Misses (cacheMisses c), Total total])"

definition cache_description :: "bool \<Rightarrow> 'a RKCache \<Rightarrow> string option \<times> status_field list" where
  "cache_description locked c = (cacheDescriptionString c, cache_status locked c)"

text \<open>The reference counting in \<open>RKFastCacheLookup\<close>: a retain under the lock, an autorelease after it.\<close>

definition lookup_ownership :: "memory_macros \<Rightarrow> bool \<Rightarrow> ('a \<Rightarrow> nat) \<Rightarrow> 'a option \<Rightarrow> objects \<Rightarrow> objects" where
  "lookup_ownership m shouldAutorelease addr found st =
     (case found of None \<Rightarrow> st
      | Some x \<Rightarrow>
          let st' = (if RKRegexGarbageCollect m = 1 then st else retain (addr x) st)
          in if shouldAutorelease then RKAutorelease m (addr x) st' else st')"

text \<open>With the collector running, adding replaces what was there.\<close>

definition addObjectToCache_collector :: "bool \<Rightarrow> 'a RKCache \<Rightarrow> 'a option \<Rightarrow> u64 \<Rightarrow> bool \<times> 'a RKCache" where
  "addObjectToCache_collector locked c object objectHash =
     (case object of None \<Rightarrow> (False, c)
      | Some x \<Rightarrow>
        if \<not> locked then (False, c)
        else if cacheAddingIsEnabled c \<and> cacheIsEnabled c then
          (case cacheMapTable c of None \<Rightarrow> (False, c)
           | Some t \<Rightarrow> (True, c\<lparr>cacheMapTable := Some ((objectHash, x) # filter (\<lambda>e. fst e \<noteq> objectHash) t)\<rparr>))
        else (False, c))"

section \<open>The methods keep their contracts\<close>

definition switches_on :: "'a RKCache \<Rightarrow> bool" where
  "switches_on c \<longleftrightarrow> cacheIsEnabled c \<and> cacheAddingIsEnabled c \<and> cacheLookupIsEnabled c"

lemma refined_step:
  assumes "cache_invar c" "cache_step op c = (r, c')"
  shows "spec_step op (cache_abs c) = (r, cache_abs c')" "cache_invar c'"
proof -
  obtain t where t: "cacheMapTable c = Some t" "distinct (map fst t)" using assms by (auto simp: cache_invar_def)
  have "card (dom (map_of t)) = length t"
    using t(2) by (metis distinct_card dom_map_of_conv_image_fst length_map set_map)
  then have "spec_step op (cache_abs c) = (fst (cache_step op c), cache_abs (snd (cache_step op c)))"
    using t ran_distinct [OF t(2)]
    by (cases op) (auto simp: cache_abs_def rk_defs Let_def op_defs map_of_filter_key fun_eq_iff split: option.split)
  then show "spec_step op (cache_abs c) = (r, cache_abs c')" using assms(2) by simp
  show "cache_invar c'" using cache_step_invar [OF assms(1), of op] assms(2) by simp
qed

lemma lookup_contract:
  assumes "cache_invar c" "switches_on c" "objectForHash True c h = (r, c')"
  shows "objectForHash_contract (cache_abs c) h r (cache_abs c')"
  using refined_step(1) [OF assms(1), of "Lookup True h" "Object r" c'] assms(2,3)
  by (auto simp: objectForHash_contract_def objectForHash_def switches_on_def cache_abs_def)

lemma count_foldr_release: "counts (foldr release xs st) y = counts st y - int (length (filter (\<lambda>x. x = y) xs))"
  by (induction xs) (auto simp: release_def)

lemma drain_counts: "counts (drain_pool st) y = counts st y - int (length (filter (\<lambda>x. x = y) (pool st)))"
  by (simp add: drain_pool_def count_foldr_release)

lemma ownership_contract:
  assumes "cache_invar c" "switches_on c" "objectForHash True c h = (r, c')"
  shows "objectForHash_autorelease_contract (cache_abs c) h ar addr st r (lookup_ownership (plain_macros junk) ar addr r st)"
  using lookup_contract [OF assms]
  by (auto simp: objectForHash_autorelease_contract_def objectForHash_contract_def lookup_ownership_def plain_macros_def
      Let_def retain_def autorelease_def drain_counts fun_eq_iff split: option.split)

lemma add_contract:
  assumes "cache_invar c" "addObjectToCache_withHash locked c (Some x) h = (r, c')"
  shows "addObjectToCache_withHash_contract (cache_abs c) x h r (cache_abs c')"
proof -
  have "spec_step (Add locked x h) (cache_abs c) = (Done r, cache_abs c')"
    using refined_step(1) [OF assms(1), of "Add locked x h" "Done r" c'] assms(2) by simp
  then show ?thesis by (auto simp: addObjectToCache_withHash_contract_def split: if_splits)
qed

lemma remove_contract:
  assumes "cache_invar c" "removeObjectWithHash True c h = (r, c')"
  shows "removeObjectWithHash_contract (cache_abs c) h r (cache_abs c')"
  using refined_step(1) [OF assms(1), of "Remove True h" "Object r" c'] assms(2)
  by (simp add: removeObjectWithHash_contract_def)

lemma remove_object_contract:
  assumes "cache_invar c" "removeObjectFromCache hash_of True c (Some x) = (r, c')"
    and "\<And>h y. cache_content c h = Some y \<Longrightarrow> hash_of y = h" "\<And>x y. hash_of x = hash_of y \<Longrightarrow> is_equal x y"
  shows "removeObjectFromCache_contract hash_of is_equal (cache_abs c) x r (cache_abs c')"
proof -
  have "removeObjectWithHash_contract (cache_abs c) (hash_of x) r (cache_abs c')"
    using assms(1,2) by (intro remove_contract) (simp_all add: removeObjectFromCache_def)
  then show ?thesis
    using assms(3) [of "hash_of x"] assms(4) [of x]
    by (auto simp: removeObjectFromCache_contract_def removeObjectWithHash_contract_def cache_abs_def split: option.split)
qed

lemma set_contract:
  assumes "cache_invar c"
  shows "cacheSet_contract (cache_abs c) (cacheSet True c)" "cacheCount_contract (cache_abs c) (cacheCount True c)"
proof -
  obtain t where t: "cacheMapTable c = Some t" "distinct (map fst t)" using assms by (auto simp: cache_invar_def)
  show "cacheSet_contract (cache_abs c) (cacheSet True c)"
    using t ran_distinct [OF t(2)] by (auto simp: cacheSet_contract_def cacheSet_def cache_abs_def cache_content_def map_table_def)
  have "card (dom (map_of t)) = length t"
    using t(2) by (metis distinct_card dom_map_of_conv_image_fst length_map set_map)
  then show "cacheCount_contract (cache_abs c) (cacheCount True c)"
    using t by (simp add: cacheCount_contract_def cacheCount_def cache_abs_def cache_content_def map_table_def)
qed

lemma status_fields:
  assumes "cache_invar c"
  shows "filter (\<lambda>f. \<forall>a l. f \<noteq> AddLookup a l) (cache_status True c) = status_contract c"
proof -
  have "cacheCount True c = card (dom (cache_content c))"
    using set_contract(2) [OF assms] by (simp add: cacheCount_contract_def cache_abs_def)
  then show ?thesis by (simp add: cache_status_def status_contract_def Let_def max_def)
qed

text \<open>
  The cache does what its header documents. While the lock can be acquired and the switches are on,
  lookups answer exactly the cached object and hand it over with the documented ownership; adding
  succeeds only under a free hash of an enabled cache and else changes nothing; removing gives back and
  forgets the object of that hash, which is equal to the given one if equal hashes mean equal objects;
  clearing, counting, the set of all objects and the switch agree with the contents; and the status has
  the documented fields in order, apart from one more field.
\<close>

lemma cache_keeps_documentation:
  assumes "cache_invar c" "switches_on c"
    and "\<And>h y. cache_content c h = Some y \<Longrightarrow> hash_of y = h" "\<And>x y. hash_of x = hash_of y \<Longrightarrow> is_equal x y"
  shows "(let (r, c') = objectForHash True c h in objectForHash_contract (cache_abs c) h r (cache_abs c') \<and>
        objectForHash_autorelease_contract (cache_abs c) h ar addr st r (lookup_ownership (plain_macros junk) ar addr r st)) \<and>
    (let (r, c') = addObjectToCache hash_of locked c (Some x) in addObjectToCache_contract hash_of (cache_abs c) x r (cache_abs c')) \<and>
    (let (r, c') = removeObjectFromCache hash_of True c (Some x) in
        removeObjectFromCache_contract hash_of is_equal (cache_abs c) x r (cache_abs c')) \<and>
    (let (r, c') = clearCache created locked c in clearCache_contract r (cache_abs c')) \<and>
    (let (r, c') = setCacheEnabled swapped b c in setCacheEnabled_contract (cache_abs c) b r (cache_abs c')) \<and>
    isCacheEnabled_contract (cache_abs c) (isCacheEnabled c) \<and>
    cacheSet_contract (cache_abs c) (cacheSet True c) \<and> cacheCount_contract (cache_abs c) (cacheCount True c) \<and>
    filter (\<lambda>f. \<forall>a l. f \<noteq> AddLookup a l) (snd (cache_description True c)) = snd (description_contract c)"
proof -
  note known = assms(1,2)
  show ?thesis
    using lookup_contract [OF known] ownership_contract [OF known] add_contract [OF known(1)]
      remove_object_contract [OF known(1) _ assms(3,4)] set_contract [OF known(1)] status_fields [OF known(1)]
    by (auto simp: addObjectToCache_contract_def addObjectToCache_def clearCache_contract_def clearCache_def
        setCacheEnabled_contract_def setCacheEnabled_def isCacheEnabled_contract_def isCacheEnabled_def
        cache_abs_def cache_content_def map_table_def cache_description_def description_contract_def)
qed

text \<open>A new cache with a description, as documented.\<close>

lemma new_cache_contract:
  "initWithDescription_contract descr (initWithDescription True True True descr (allocated_cache :: 'a RKCache))"
  by (simp add: initWithDescription_contract_def initWithDescription_def cache_init_def clearCache_def allocated_cache_def
      setDescription_def cache_content_def map_table_def)

text \<open>
  With the collector running the contract of adding is broken: an object under a hash already in the
  cache is replaced, and the answer is \<open>YES\<close>.
\<close>

lemma collector_add_replaces:
  assumes "cache_invar c" "switches_on c" "cache_content c h = Some y" "x \<noteq> y"
  shows "let (r, c') = addObjectToCache_collector True c (Some x) h in
    r \<and> cache_content c' h = Some x \<and> \<not> addObjectToCache_withHash_contract (cache_abs c) x h r (cache_abs c')"
  using assms by (auto simp: addObjectToCache_collector_def cache_invar_def switches_on_def cache_content_def map_table_def
      addObjectToCache_withHash_contract_def cache_abs_def)

text \<open>A disabled cache answers no lookups, although the object documented to be returned is there.\<close>

lemma disabled_cache_lookup:
  assumes "cache_invar c" "\<not> cacheIsEnabled c" "cache_content c h = Some y"
  shows "\<not> objectForHash_contract (cache_abs c) h (fst (objectForHash True c h)) (cache_abs (snd (objectForHash True c h)))"
  using assms by (simp add: objectForHash_contract_def objectForHash_def RKFastCacheLookup_def cache_abs_def)

lemma cache_keeps_documentation_witness:
  "let c = (allocated_cache :: nat RKCache)\<lparr>cacheMapTable := Some [(5, 5)], cacheIsEnabled := True,
     cacheAddingIsEnabled := True, cacheLookupIsEnabled := True\<rparr>
   in cacheCount_contract (cache_abs c) (cacheCount True c) \<and>
     filter (\<lambda>f. \<forall>a l. f \<noteq> AddLookup a l) (snd (cache_description True c)) = snd (description_contract c)"
proof -
  let ?c = "(allocated_cache :: nat RKCache)\<lparr>cacheMapTable := Some [(5, 5)], cacheIsEnabled := True,
     cacheAddingIsEnabled := True, cacheLookupIsEnabled := True\<rparr>"
  have "cache_invar ?c" "switches_on ?c" by (simp_all add: cache_invar_def switches_on_def)
  moreover have "\<And>h y. cache_content ?c h = Some y \<Longrightarrow> of_nat y = h"
    by (auto simp: cache_content_def map_table_def split: if_splits)
  ultimately show ?thesis
    unfolding Let_def using cache_keeps_documentation [of ?c of_nat "\<lambda>x y. True"] by blast
qed

end
