(* ===== verification/RK_MatchContract.thy ===== *)
theory RK_MatchContract
  imports RK_Regex
begin

text \<open>
  What \<open>RKRegex.h\<close> documents for the matching methods and for the capture names of a regex, as relations
  between the arguments, the first match (what PCRE reports for the arguments, in terms of ranges) and the
  result; and the proof that the methods of \<open>RKRegex.m\<close> keep these contracts.
\<close>

section \<open>Documented behaviour of the matching methods\<close>

text \<open>
  The first match: the number of captures PCRE reports and the ranges of all captures of the regex, or
  \<open>None\<close>. A search range is valid if it lies inside the characters, whose number PCRE takes as an \<open>int\<close>.
\<close>

type_synonym first_match = "(int \<times> ns_range list) option"

definition search_valid :: "u64 \<Rightarrow> ns_range \<Rightarrow> bool" where
  "search_valid len searchRange \<longleftrightarrow> range_end searchRange \<le> unat len \<and> unat len \<le> 2147483647"

definition matchesCharacters_contract ::
  "first_match \<Rightarrow> byte list option \<Rightarrow> u64 \<Rightarrow> ns_range \<Rightarrow> bool run \<Rightarrow> bool" where
  "matchesCharacters_contract m matchCharacters len searchRange result \<longleftrightarrow>
     (if matchCharacters = None then result = Raise NSInvalidArgumentException
      else if \<not> search_valid len searchRange then result = Raise NSRangeException
      else result = Ok (m \<noteq> None))"

definition rangeForCharacters_contract ::
  "first_match \<Rightarrow> u64 \<Rightarrow> byte list option \<Rightarrow> u64 \<Rightarrow> ns_range \<Rightarrow> u64 \<Rightarrow> ns_range run \<Rightarrow> bool" where
  "rangeForCharacters_contract m captures matchCharacters len searchRange captureIndex result \<longleftrightarrow>
     (if matchCharacters = None \<or> captureIndex \<ge> captures then result = Raise NSInvalidArgumentException
      else if \<not> search_valid len searchRange then result = Raise NSRangeException
      else result = Ok (case m of None \<Rightarrow> NSMakeRange NSNotFound 0 | Some (n, ranges) \<Rightarrow> ranges ! unat captureIndex))"

definition rangesForCharacters_contract ::
  "first_match \<Rightarrow> u64 \<Rightarrow> byte list option \<Rightarrow> u64 \<Rightarrow> ns_range \<Rightarrow> ns_range list option run \<Rightarrow> bool" where
  "rangesForCharacters_contract m captures matchCharacters len searchRange result \<longleftrightarrow>
     (if matchCharacters = None then result = Raise NSInvalidArgumentException
      else if \<not> search_valid len searchRange then result = Raise NSRangeException
      else result = Ok (map_option snd m) \<and> (\<forall>n ranges. m = Some (n, ranges) \<longrightarrow> length ranges = unat captures))"

text \<open>The last component of the result is \<open>None\<close> where the caller's array is not modified.\<close>

definition getRanges_contract ::
  "first_match \<Rightarrow> bool \<Rightarrow> byte list option \<Rightarrow> u64 \<Rightarrow> ns_range \<Rightarrow> (int \<times> ns_range list option) run \<Rightarrow> bool" where
  "getRanges_contract m rangesIsNULL charactersBuffer len searchRange result \<longleftrightarrow>
     (if rangesIsNULL \<or> charactersBuffer = None then result = Raise NSInvalidArgumentException
      else if \<not> search_valid len searchRange then result = Raise NSRangeException
      else case m of
        Some (n, ranges) \<Rightarrow> 0 < n \<and> result = Ok (n, Some ranges)
      | None \<Rightarrow> \<exists>code < 0. result = Ok (code, None))"

section \<open>The methods match as documented\<close>

text \<open>
  Besides its contract for the vector, PCRE documents that the result is \<open>0\<close> only if the vector is too
  small for all captures, and that a match starts no earlier than the start offset.
\<close>

definition pcre_exec_documented :: "pcre_exec \<Rightarrow> RKRegex \<Rightarrow> bool" where
  "pcre_exec_documented exec regex \<longleftrightarrow> pcre_exec_contract exec \<and>
     (\<forall>chars len start opts size rc written. exec (compiledPCRE regex) chars len start opts size = (rc, written) \<longrightarrow>
        (3 * unat (captureCount regex) \<le> unat size \<longrightarrow> rc \<noteq> 0) \<and> (0 < rc \<longrightarrow> unat start \<le> unat (written ! 0)))"

definition library_match ::
  "pcre_exec \<Rightarrow> RKRegex \<Rightarrow> byte list \<Rightarrow> u64 \<Rightarrow> ns_range \<Rightarrow> u32 \<Rightarrow> first_match" where
  "library_match exec regex chars len searchRange options =
     (let (rc, vector) = exec (compiledPCRE regex) chars (ucast len) (ucast (range_location searchRange)) options
            (ucast (RK_PRESIZE_CAPTURE_COUNT (captureCount regex)))
      in if 0 < rc \<and> unat (vector ! 1) \<le> range_end searchRange
         then Some (rc, map (expected_range vector (nat rc)) [0..<unat (captureCount regex)]) else None)"

lemma library_match_length:
  "library_match exec regex chars len r options = Some (n, rs) \<Longrightarrow> length rs = unat (captureCount regex) \<and> 0 < n"
  by (auto simp: library_match_def split: prod.splits if_splits)

lemma inside_between:
  assumes "range_location b \<le> range_location a" "range_location a \<le> NSMaxRange b"
    and "range_location a \<le> NSMaxRange a" "NSMaxRange a \<le> NSMaxRange b"
  shows "RKRangeInsideRange a b"
proof -
  have len: "range_length b = NSMaxRange b - range_location b" by (simp add: NSMaxRange_def)
  have "range_location b \<le> NSMaxRange a" using assms(1,3) by (rule order.trans)
  then show ?thesis
    unfolding RKRangeInsideRange_def len using assms by (simp add: word_le_minus_mono_left)
qed

text \<open>The private method with the memory the public methods give it.\<close>

definition private_match where
  "private_match exec junk regex chars len r options =
     getRanges_count exec regex (Some (stack_ranges junk (RK_PRESIZE_CAPTURE_COUNT (captureCount regex))))
       (RK_PRESIZE_CAPTURE_COUNT (captureCount regex)) chars len r options"

lemma private_match_raises:
  assumes "unat (captureCount regex) \<le> 170"
  shows "private_match exec junk regex None len r options = Raise NSInvalidArgumentException"
    and "\<not> search_valid len r \<Longrightarrow> private_match exec junk regex (Some chars) len r options = Raise NSRangeException"
proof -
  have "unat (captureCount regex) \<le> 2 ^ 62" using assms by simp
  note pre = presize_ge_minimum(1) [OF this]
  show "private_match exec junk regex None len r options = Raise NSInvalidArgumentException"
    using pre by (simp add: private_match_def getRanges_count_def)
  show "\<not> search_valid len r \<Longrightarrow> private_match exec junk regex (Some chars) len r options = Raise NSRangeException"
    using pre guards_iff [of len r] unfolding private_match_def getRanges_count_def search_valid_def by auto
qed

lemma private_match_library:
  assumes doc: "pcre_exec_documented exec regex" and cc: "unat (captureCount regex) \<le> 170" "0 < captureCount regex"
    and valid: "search_valid len r"
  shows "\<exists>code mem err. private_match exec junk regex (Some chars) len r options = Ok (code, mem, err) \<and>
    (err \<noteq> None \<longrightarrow> error_domain (the err) = RKRegexPCRELibraryErrorDomain) \<and>
    (case library_match exec regex chars len r options of
       None \<Rightarrow> code < 0
     | Some (n, rs) \<Rightarrow> code = n \<and> map (get_range mem) [0..<unat (captureCount regex)] = rs \<and>
         RKRangeInsideRange (get_range mem 0) r \<and> get_range mem 0 \<noteq> range_not_found)"
proof -
  define size where "size = RK_PRESIZE_CAPTURE_COUNT (captureCount regex)"
  define mem where "mem = stack_ranges junk size"
  have "unat (captureCount regex) \<le> 2 ^ 62" using cc by simp
  note pre = presize_ge_minimum [OF this, folded size_def]
  have size: "unat size < 2 ^ 31" "3 * unat (captureCount regex) \<le> unat size" using pre(3) cc by auto
  have mem: "length mem = 4 * unat size" by (simp add: mem_def stack_ranges_def)
  have usize: "unat (ucast size :: u32) = unat size"
    using size(1) by (simp add: unsigned_ucast_eq take_bit_nat_eq_self)
  have fits: "range_end r \<le> unat len" "unat len \<le> 2147483647" using valid by (simp_all add: search_valid_def)
  obtain rc written where call: "exec (compiledPCRE regex) chars (ucast len) (ucast (range_location r)) options (ucast size)
      = (rc, written)" by force
  have contract: "pcre_exec_contract exec" and rc: "rc \<noteq> 0"
    and start: "0 < rc \<Longrightarrow> unat (ucast (range_location r) :: u32) \<le> unat (written ! 0)"
    using doc call size(2) usize unfolding pcre_exec_documented_def by (blast, metis, blast)
  have guards: "\<not> len < range_location r" "\<not> len < range_location r + range_length r"
    "\<not> range_location r > INT_MAX_U" "\<not> range_length r > INT_MAX_U" "\<not> len > INT_MAX_U"
    using fits guards_iff [of len r] by auto
  define vectors where "vectors = written @ drop (length written) mem"
  have run: "private_match exec junk regex (Some chars) len r options =
    (if rc > 0 then
       (if vectors ! 1 \<noteq> - 1 \<and> (scast (vectors ! 1) :: u64) > NSMaxRange r
        then Ok (RKMatchErrorNoMatch, vectors, None)
        else run_bind (convert_vectors vectors (nat rc) (unat (captureCount regex))) (\<lambda>mem'. Ok (rc, mem', None)))
     else Ok (rc, vectors, if rc < - 1 then Some (rkErrorWithDomain RKRegexPCRELibraryErrorDomain rc) else None))"
    using guards pre(1)
    unfolding private_match_def getRanges_count_def size_def [symmetric] mem_def [symmetric] Let_def option.case call
      prod.case vectors_def [symmetric] by (simp only: not_not if_True if_False not_False_eq_True simp_thms)
  have lib: "library_match exec regex chars len r options =
    (if 0 < rc \<and> unat (written ! 1) \<le> range_end r
     then Some (rc, map (expected_range written (nat rc)) [0..<unat (captureCount regex)]) else None)"
    using call by (simp add: library_match_def size_def)
  show ?thesis
  proof (cases "0 < rc")
    case False
    then show ?thesis using rc run lib by (auto simp: rkErrorWithDomain_def)
  next
    case True
    note match = getRanges_count_match [OF contract mem size(1) pre(2) fits call True, folded vectors_def]
    have w: "length written \<le> unat size" "3 * nat rc \<le> unat size" "2 * nat rc \<le> length written" "written ! 0 \<noteq> - 1"
      "pair_ok (ucast len) (written ! 0) (written ! 1)"
      using contract call True unfolding pcre_exec_contract_def usize [symmetric]
      by (blast, blast, blast, blast, metis mult_0_right add_0 zero_less_nat_eq)
    have at: "vectors ! i = written ! i" if "i < 2 * nat rc" for i
      using that w(3) by (simp add: vectors_def nth_append)
    have v: "vectors ! 0 = written ! 0" "vectors ! 1 = written ! 1" using at [of 0] at [of 1] True by auto
    have ulen: "unat (ucast len :: u32) = unat len"
      using fits(2) by (simp add: unsigned_ucast_eq take_bit_nat_eq_self)
    have small: "unat (written ! 1) \<le> 2147483647" "unat (written ! 0) \<le> unat (written ! 1)"
      using w(4,5) fits(2) ulen by (auto simp: pair_ok_def)
    have casts: "unat (scast (written ! 1) :: u64) = unat (written ! 1)"
      "unat (scast (written ! 0) :: u64) = unat (written ! 0)"
      using small by (simp_all add: unat_scast_small)
    have end_r: "unat (NSMaxRange r) = range_end r" using fits by (intro unat_max_range) simp
    have over: "(scast (vectors ! 1) :: u64) > NSMaxRange r \<longleftrightarrow> \<not> unat (written ! 1) \<le> range_end r"
      unfolding v word_less_nat_alt casts end_r not_le ..
    show ?thesis
    proof (cases "unat (written ! 1) \<le> range_end r")
      case False
      then show ?thesis unfolding run lib using True over match(2) by (simp add: RKMatchErrorNoMatch_def)
    next
      case inside: True
      have "4 * nat rc \<le> length vectors" "4 * unat (captureCount regex) \<le> length vectors"
        using w(1,2) mem size(2) by (simp_all add: vectors_def)
      then obtain mem' where m: "convert_vectors vectors (nat rc) (unat (captureCount regex)) = Ok mem'"
          "\<And>x. x < max (nat rc) (unat (captureCount regex)) \<Longrightarrow> get_range mem' x = expected_range vectors (nat rc) x"
        using convert_vectors_ok [of "nat rc" vectors "unat (captureCount regex)"] True by auto
      have same: "expected_range vectors (nat rc) x = expected_range written (nat rc) x" for x
        using at [of "2 * x"] at [of "2 * x + 1"] by (simp add: expected_range_def)
      have g0: "get_range mem' 0 = range_of_vectors (written ! 0) (written ! 1)"
        using m(2) [of 0] True unfolding v [symmetric] by (simp add: expected_range_def)
      have "get_range mem' 0 \<noteq> range_not_found \<and> NSMaxRange (get_range mem' 0) \<le> NSMaxRange r"
        using match(1) over inside m(1) by auto
      moreover have loc: "range_location (get_range mem' 0) = scast (written ! 0)"
        using g0 w(4) by (simp add: range_of_vectors_def)
      moreover have "range_location r \<le> range_location (get_range mem' 0)"
      proof -
        have "unat (range_location r) < 2 ^ 32" using fits by (simp add: range_end_def)
        then have "unat (ucast (range_location r) :: u32) = unat (range_location r)"
          by (simp add: unsigned_ucast_eq take_bit_nat_eq_self)
        then show ?thesis using start [OF True] loc casts by (simp add: word_le_nat_alt)
      qed
      moreover have "range_location (get_range mem' 0) \<le> NSMaxRange r"
        using loc casts small inside end_r by (simp add: word_le_nat_alt)
      moreover have "range_location (get_range mem' 0) \<le> NSMaxRange (get_range mem' 0)"
        using range_of_vectors_valid(2) [OF w(5) refl fits(2) w(4)] loc g0 casts small by (simp add: word_le_nat_alt)
      ultimately show ?thesis
        unfolding run lib using True inside over m same by (simp add: inside_between)
    qed
  qed
qed

lemma raise_pcre_quiet:
  "err \<noteq> None \<longrightarrow> error_domain (the err) = RKRegexPCRELibraryErrorDomain \<Longrightarrow> raise_unless_pcre err x = Ok x"
  by (cases err) (simp_all add: raise_unless_pcre_def)

lemma raise_unless_pcre_None: "raise_unless_pcre None x = Ok x"
  by (simp add: raise_unless_pcre_def)

lemma raise_wrong_index: "raise_unless_pcre (Some (rkErrorWithCode 0)) x = Raise NSInvalidArgumentException"
  by (simp add: raise_unless_pcre_def rkErrorWithCode_def rkErrorWithDomain_def)

lemma public_methods_match:
  assumes "pcre_exec_documented exec regex" "unat (captureCount regex) \<le> 170" "0 < captureCount regex"
    and m_def: "m = (case chars of None \<Rightarrow> None | Some cs \<Rightarrow> library_match exec regex cs len r options)"
  shows "matchesCharacters_contract m chars len r (matchesCharacters exec junk regex chars len r options)"
    and "rangeForCharacters_contract m (captureCount regex) chars len r captureIndex
      (rangeForCharacters exec junk regex chars len r captureIndex options)"
    and "rangesForCharacters_contract m (captureCount regex) chars len r (rangesForCharacters exec junk regex chars len r options)"
    and "getRanges_contract m rangesIsNULL chars len r (getRanges exec junk regex rangesIsNULL chars len r options)"
proof -
  note defs = rangeForCharacters_def rangeForCharacters_error_def matchesCharacters_def rangesForCharacters_def
    rangesForCharacters_error_def getRanges_def getRanges_error_def private_match_def [symmetric] Let_def
  note contracts = matchesCharacters_contract_def rangeForCharacters_contract_def rangesForCharacters_contract_def
    getRanges_contract_def
  consider "chars = None" | (bad) cs where "chars = Some cs" "\<not> search_valid len r"
    | (good) cs where "chars = Some cs" "search_valid len r" by (cases chars) blast+
  then have "matchesCharacters_contract m chars len r (matchesCharacters exec junk regex chars len r options) \<and>
     rangeForCharacters_contract m (captureCount regex) chars len r captureIndex
      (rangeForCharacters exec junk regex chars len r captureIndex options) \<and>
     rangesForCharacters_contract m (captureCount regex) chars len r (rangesForCharacters exec junk regex chars len r options) \<and>
     getRanges_contract m rangesIsNULL chars len r (getRanges exec junk regex rangesIsNULL chars len r options)"
  proof cases
    case 1
    show ?thesis
      unfolding contracts defs using 1 private_match_raises(1) [OF assms(2)] assms(3)
      by (auto simp: raise_unless_pcre_def rkErrorWithCode_def rkErrorWithDomain_def not_le)
  next
    case bad
    show ?thesis
      unfolding contracts defs using bad private_match_raises(2) [OF assms(2)] assms(3)
      by (auto simp: raise_unless_pcre_def rkErrorWithCode_def rkErrorWithDomain_def not_le)
  next
    case good
    obtain code mem err where p: "private_match exec junk regex (Some cs) len r options = Ok (code, mem, err)"
      "err \<noteq> None \<longrightarrow> error_domain (the err) = RKRegexPCRELibraryErrorDomain"
      "case library_match exec regex cs len r options of
         None \<Rightarrow> code < 0
       | Some (n, rs) \<Rightarrow> code = n \<and> map (get_range mem) [0..<unat (captureCount regex)] = rs \<and>
           RKRangeInsideRange (get_range mem 0) r \<and> get_range mem 0 \<noteq> range_not_found"
      using private_match_library [OF assms(1-3) good(2), of junk cs options] by blast
    note quiet = raise_pcre_quiet [OF p(2)]
    have index: "captureIndex < captureCount regex \<Longrightarrow>
        map (get_range mem) [0..<unat (captureCount regex)] ! unat captureIndex = get_range mem (unat captureIndex)"
      by (simp add: word_less_nat_alt)
    have zero: "0 < captureCount regex" "unat (0 :: u64) = 0" using assms(3) by simp_all
    show ?thesis
    proof (cases "library_match exec regex cs len r options")
      case None
      then show ?thesis
        unfolding contracts defs m_def using good p assms(3) by (auto simp: NSEqualRanges_iff not_le quiet raise_wrong_index raise_unless_pcre_None)
    next
      case (Some a)
      obtain n rs where a: "a = (n, rs)" by (cases a)
      note l = library_match_length [OF Some [unfolded a]]
      show ?thesis
        unfolding contracts defs m_def using good p assms(3) Some a l index
        by (auto simp: NSEqualRanges_iff not_le range_not_found_def quiet raise_wrong_index raise_unless_pcre_None)
    qed
  qed
  then show "matchesCharacters_contract m chars len r (matchesCharacters exec junk regex chars len r options)"
    and "rangeForCharacters_contract m (captureCount regex) chars len r captureIndex
      (rangeForCharacters exec junk regex chars len r captureIndex options)"
    and "rangesForCharacters_contract m (captureCount regex) chars len r (rangesForCharacters exec junk regex chars len r options)"
    and "getRanges_contract m rangesIsNULL chars len r (getRanges exec junk regex rangesIsNULL chars len r options)"
    by blast+
qed

text \<open>
  C27. The matching methods do what the header documents, for a regex of up to 170 captures: each raises
  for a missing buffer, an unusable search range or an invalid capture index exactly as documented and
  otherwise answers with the first match the library reports inside the search range: whether there is
  one, the range of the requested capture, the ranges of all captures, or their number together with
  the ranges, the caller's array being written on a match only.
\<close>

theorem matching_keeps_documentation:
  assumes "pcre_exec_documented exec regex" "unat (captureCount regex) \<le> 170" "0 < captureCount regex"
  shows "let m = (case chars of None \<Rightarrow> None | Some cs \<Rightarrow> library_match exec regex cs len r options) in
    matchesCharacters_contract m chars len r (matchesCharacters exec junk regex chars len r options) \<and>
    rangeForCharacters_contract m (captureCount regex) chars len r captureIndex
      (rangeForCharacters exec junk regex chars len r captureIndex options) \<and>
    rangesForCharacters_contract m (captureCount regex) chars len r
      (rangesForCharacters exec junk regex chars len r options) \<and>
    getRanges_contract m rangesIsNULL chars len r (getRanges exec junk regex rangesIsNULL chars len r options)"
  unfolding Let_def by (intro conjI public_methods_match [OF assms refl])

section \<open>Documented behaviour of capture names\<close>

text \<open>
  A regex has a list of named captures in the order of PCRE's table; a name argument is \<open>None\<close> for
  \<open>nil\<close>. Where one name stands for several captures, the first of them is meant.
\<close>

definition captureNameArray_contract :: "(nat \<times> string) list \<Rightarrow> u64 \<Rightarrow> string option list option \<Rightarrow> bool" where
  "captureNameArray_contract named captures result \<longleftrightarrow>
     (case result of None \<Rightarrow> named = []
      | Some names \<Rightarrow> named \<noteq> [] \<and> names = map (map_of named) [0..<unat captures])"

definition isValidCaptureName_contract :: "(nat \<times> byte list) list \<Rightarrow> byte list \<Rightarrow> bool run \<Rightarrow> bool" where
  "isValidCaptureName_contract entries captureNameString result \<longleftrightarrow>
     result = Ok (captureNameString \<in> snd ` set entries)"

definition captureIndexForCaptureName_contract :: "(nat \<times> byte list) list \<Rightarrow> byte list option \<Rightarrow> u64 run \<Rightarrow> bool" where
  "captureIndexForCaptureName_contract entries captureNameString result \<longleftrightarrow>
     (case captureNameString of None \<Rightarrow> result = Raise NSInvalidArgumentException
      | Some q \<Rightarrow> (case lookup_name entries q of None \<Rightarrow> result = Raise NSInvalidArgumentException
          | Some i \<Rightarrow> result = Ok (of_nat i)))"

definition captureNameForCaptureIndex_contract :: "(nat \<times> string) list \<Rightarrow> u64 \<Rightarrow> u64 \<Rightarrow> string option run \<Rightarrow> bool" where
  "captureNameForCaptureIndex_contract named captures captureIndex result \<longleftrightarrow>
     (if captureIndex \<ge> captures then result = Raise NSInvalidArgumentException
      else result = Ok (map_of named (unat captureIndex)))"

definition captureIndexForCaptureName_inMatchedRanges_contract ::
  "(nat \<times> byte list) list \<Rightarrow> byte list option \<Rightarrow> ns_range list option \<Rightarrow> u64 run \<Rightarrow> bool" where
  "captureIndexForCaptureName_inMatchedRanges_contract entries captureNameString matchedRanges result \<longleftrightarrow>
     (case (captureNameString, matchedRanges) of
        (Some q, Some ranges) \<Rightarrow>
          if q \<notin> snd ` set entries then result = Raise NSInvalidArgumentException
          else result = Ok (first_matched ranges q entries NSNotFound)
      | _ \<Rightarrow> result = Raise NSInvalidArgumentException)"

definition captureIndexForCaptureName_inMatchedRanges_error_contract ::
  "(nat \<times> byte list) list \<Rightarrow> byte list option \<Rightarrow> ns_range list option \<Rightarrow> (u64 \<times> ns_error option) run \<Rightarrow> bool" where
  "captureIndexForCaptureName_inMatchedRanges_error_contract entries captureNameString matchedRanges result \<longleftrightarrow>
     (case (captureNameString, matchedRanges) of
        (Some q, Some ranges) \<Rightarrow>
          if q \<notin> snd ` set entries then (\<exists>i e. result = Ok (i, Some e))
          else result = Ok (first_matched ranges q entries NSNotFound, None)
      | _ \<Rightarrow> result = Raise NSInvalidArgumentException)"

section \<open>Names are looked up as documented\<close>

text \<open>The name modes of a regex: without duplicates no two entries have the same name.\<close>

definition name_modes :: "RKRegex \<Rightarrow> (nat \<times> byte list) list \<Rightarrow> bool" where
  "name_modes regex entries \<longleftrightarrow> unique_names regex \<and> distinct (map snd entries) \<or> duplicate_names regex"

lemma lookup_name_first: "lookup_name entries q = map_option fst (find (\<lambda>e. snd e = q) entries)"
  by (induction entries) (auto simp: lookup_name_def)

lemma find_element: "x \<in> set xs \<Longrightarrow> find (\<lambda>e. e = x \<and> P e) xs = (if P x then Some x else None)"
  by (induction xs) (auto simp: find_None_iff)

lemma first_matched_unique:
  assumes "distinct (map snd entries)" "k < length entries"
  shows "first_matched ranges (snd (entries ! k)) entries NSNotFound =
    (if range_location (ranges ! fst (entries ! k)) \<noteq> NSNotFound then of_nat (fst (entries ! k)) else NSNotFound)"
proof -
  have "matched_entry ranges (snd (entries ! k)) e \<longleftrightarrow> e = entries ! k \<and> range_location (ranges ! fst e) \<noteq> NSNotFound"
    if "e \<in> set entries" for e
    using that assms by (auto simp: matched_entry_def in_set_conv_nth distinct_conv_nth)
  then have "find (matched_entry ranges (snd (entries ! k))) entries =
      find (\<lambda>e. e = entries ! k \<and> range_location (ranges ! fst e) \<noteq> NSNotFound) entries"
    by (intro find_cong) auto
  then show ?thesis
    using find_element [OF nth_mem [OF assms(2)]] by (simp add: first_matched_def)
qed

lemma name_in_ranges:
  assumes "names_table regex entries" "name_modes regex entries" "indexes_in ranges entries" "0 \<notin> set q"
    and "q \<in> snd ` set entries"
  shows "RKCaptureIndexForCaptureNameCharactersWithError (Some regex) (q @ rest) (length q) (Some ranges) =
    Ok (first_matched ranges q entries NSNotFound, None)"
proof (cases "duplicate_names regex")
  case True
  show ?thesis by (rule duplicate_lookup [OF assms(1) True assms(3-5)])
next
  case False
  then have u: "unique_names regex" "distinct (map snd entries)" using assms(2) by (auto simp: name_modes_def)
  obtain k where k: "k < length entries" "snd (entries ! k) = q"
      "captureNameTableLength regex \<noteq> 0" "\<not> length q > captureNameLength regex"
      "name_search regex (q @ rest) (length q) 0 (captureNameTableLength regex)
          = Ok (Some (k, reported_index (fst (entries ! k))))"
    using name_lookup_search(1) [OF assms(1,4,5)] by blast
  show ?thesis
    using k u participates_table [OF assms(3) k(1)] first_matched_unique [OF u(2) k(1), of ranges]
    by (simp add: RKCaptureIndexForCaptureNameCharactersWithError_def Let_def unique_names_def)
qed

text \<open>
  The search back for the first of several entries stops only at an entry of another name: it answers
  the first entry of the name unless that is the first entry of the table.
\<close>

lemma first_duplicate_table:
  assumes "names_table regex entries" "0 \<notin> set q" "k < length entries"
    and "\<And>j. m \<le> j \<Longrightarrow> j < k \<Longrightarrow> snd (entries ! j) = q" "m \<le> k"
    and "0 < m \<Longrightarrow> snd (entries ! (m - 1)) \<noteq> q" "snd (entries ! k) = q"
  shows "first_duplicate regex (q @ rest) (length q) k i =
    Ok (if m = 0 then i else reported_index (fst (entries ! m)))"
  using assms(3-7)
proof (induction k)
  case 0
  then show ?case by simp
next
  case (Suc k)
  have k: "k < length entries" using Suc.prems(1) by simp
  obtain r where r: "compare_entry (q @ rest) (length q) (name_entry regex k) = Ok r"
      "r = 0 \<longleftrightarrow> prefix q (snd (entries ! k))"
    using compare_table(1) [OF assms(1) k assms(2)] by blast
  show ?case
  proof (cases "m = Suc k")
    case True
    have "\<not> prefix q (snd (entries ! k))"
    proof
      assume "prefix q (snd (entries ! k))"
      then have "name_le q (snd (entries ! k))" by (rule name_le_prefix)
      moreover have "name_le (snd (entries ! k)) q"
        using table_sorted [OF assms(1), of k "Suc k"] Suc.prems by auto
      ultimately show False using Suc.prems True name_le_antisym by force
    qed
    then show ?thesis
      using True r compare_table(2) [OF assms(1) Suc.prems(1) assms(2)] by simp
  next
    case False
    then have "snd (entries ! k) = q" using Suc.prems by auto
    then show ?thesis using r Suc.IH [OF k] Suc.prems False by (auto simp: le_Suc_eq)
  qed
qed

text \<open>The lookup without ranges.\<close>

definition first_reachable :: "RKRegex \<Rightarrow> (nat \<times> byte list) list \<Rightarrow> byte list \<Rightarrow> bool" where
  "first_reachable regex entries q \<longleftrightarrow> unique_names regex \<or> map snd entries = [] \<or> hd (map snd entries) \<noteq> q"

lemma found_entry:
  assumes "lookup_name entries q = Some i"
  shows "\<exists>m < length entries. entries ! m = (i, q) \<and> (\<forall>l < m. snd (entries ! l) \<noteq> q)"
proof -
  obtain e where e: "find (\<lambda>e. snd e = q) entries = Some e" "fst e = i"
    using assms unfolding lookup_name_first by auto
  then obtain m where "m < length entries" "snd (entries ! m) = q" "e = entries ! m" "\<forall>l < m. snd (entries ! l) \<noteq> q"
    by (auto simp: find_Some_iff)
  then show ?thesis using e(2) by (auto simp: prod_eq_iff)
qed

lemma small_indexes: "list_all (\<lambda>(i, nm). i < 128) entries \<Longrightarrow> k < length entries \<Longrightarrow>
    reported_index (fst (entries ! k)) = of_nat (fst (entries ! k)) \<and> fst (entries ! k) < 128"
  using reported_index_small by (auto simp: list_all_length case_prod_beta)

lemma name_without_ranges:
  assumes "names_table regex entries" "name_modes regex entries" "list_all (\<lambda>(i, nm). i < 128) entries" "0 \<notin> set q"
    and "lookup_name entries q = Some i"
  shows "\<exists>x < 128. RKCaptureIndexForCaptureNameCharactersWithError (Some regex) (q @ rest) (length q) None = Ok (of_nat x, None) \<and>
    (first_reachable regex entries q \<longrightarrow> x = i)"
proof (cases "duplicate_names regex")
  case False
  obtain m where "m < length entries" "entries ! m = (i, q)" using found_entry [OF assms(5)] by blast
  then have "reported_index i = of_nat i" "i < 128" using small_indexes [OF assms(3), of m] by simp_all
  moreover have u: "unique_names regex" "distinct (map snd entries)" using False assms(2) by (auto simp: name_modes_def)
  ultimately show ?thesis
    using name_lookup [OF assms(1) u(2,1) assms(4), of rest] assms(5) by auto
next
  case True
  then obtain j where j: "regex_jchanged regex = Some j" "\<not> (j = 0 \<and> compileOption regex AND RKCompileDupNames = 0)"
    by (auto simp: duplicate_names_def)
  obtain m where m: "m < length entries" "entries ! m = (i, q)" "\<And>l. l < m \<Longrightarrow> snd (entries ! l) \<noteq> q"
    using found_entry [OF assms(5)] by blast
  have pos: "0 < m" if "first_reachable regex entries q"
    using that m True by (cases "m = 0")
      (auto simp: first_reachable_def unique_names_def duplicate_names_def hd_map hd_conv_nth)
  have present: "q \<in> snd ` set entries" using nth_mem [OF m(1)] m(2) by force
  obtain k where k: "k < length entries" "snd (entries ! k) = q"
      "captureNameTableLength regex \<noteq> 0" "\<not> length q > captureNameLength regex"
      "name_search regex (q @ rest) (length q) 0 (captureNameTableLength regex)
          = Ok (Some (k, reported_index (fst (entries ! k))))"
    using name_lookup_search(1) [OF assms(1,4) present] by blast
  have mk: "m \<le> k" using m(3) k(2) by (metis not_le)
  have between: "snd (entries ! l) = q" if "m \<le> l" "l < k" for l
    using that table_sorted [OF assms(1), of m l] table_sorted [OF assms(1), of l k] m(2) k(1,2)
    by (auto intro: name_le_antisym)
  define x where "x = (if m = 0 then fst (entries ! k) else fst (entries ! m))"
  have "first_duplicate regex (q @ rest) (length q) k (reported_index (fst (entries ! k))) =
      Ok (if m = 0 then reported_index (fst (entries ! k)) else reported_index (fst (entries ! m)))"
    using first_duplicate_table [OF assms(1,4) k(1) between mk _ k(2)] m(3) [of "m - 1"] by simp
  also have "\<dots> = Ok (of_nat x)"
    using small_indexes [OF assms(3) k(1)] small_indexes [OF assms(3) m(1)] by (simp add: x_def)
  finally have "RKCaptureIndexForCaptureNameCharactersWithError (Some regex) (q @ rest) (length q) None = Ok (of_nat x, None)"
    using k(3-5) j by (auto simp: RKCaptureIndexForCaptureNameCharactersWithError_def Let_def)
  moreover have "x < 128" "first_reachable regex entries q \<longrightarrow> x = i"
    using small_indexes [OF assms(3) k(1)] small_indexes [OF assms(3) m(1)] pos m(2) by (auto simp: x_def)
  ultimately show ?thesis by blast
qed

lemma name_unknown:
  assumes "names_table regex entries" "0 \<notin> set q" "q \<notin> snd ` set entries"
  shows "RKCaptureIndexForCaptureNameCharactersWithError (Some regex) (q @ rest) (length q) ranges =
    Ok (NSNotFound, Some (rkErrorWithCode 0))"
  by (rule name_lookup_search(2) [OF assms])

text \<open>The string buffer of a name argument.\<close>

definition name_buffer :: "byte list \<Rightarrow> RKStringBuffer" where
  "name_buffer q = RKMakeStringBuffer (of_nat (length q)) q (of_nat (length q)) EncodingUTF8"

lemma name_buffer_sel:
  "length q < 2 ^ 63 \<Longrightarrow> buffer_characters (name_buffer q) = q \<and> unat (buffer_length (name_buffer q)) = length q"
  by (simp add: name_buffer_def RKMakeStringBuffer_def unat_of_nat_small)

lemma known_iff: "q \<in> snd ` set entries \<longleftrightarrow> (\<exists>i. lookup_name entries q = Some i)"
proof
  assume "q \<in> snd ` set entries"
  then obtain i where "(q, i) \<in> set (map (\<lambda>(i, nm). (nm, i)) entries)" by force
  then show "\<exists>i. lookup_name entries q = Some i"
    unfolding lookup_name_def using weak_map_of_SomeI by fast
next
  assume "\<exists>i. lookup_name entries q = Some i"
  then show "q \<in> snd ` set entries" using lookup_name_None by fastforce
qed

lemma valid_name_contract:
  assumes "names_table regex entries" "name_modes regex entries" "list_all (\<lambda>(i, nm). i < 128) entries" "0 \<notin> set q"
    and "length q < 2 ^ 63"
  shows "isValidCaptureName_contract entries q (isValidCaptureName regex (Some (name_buffer q)))"
proof (cases "q \<in> snd ` set entries")
  case True
  then obtain i where "lookup_name entries q = Some i" by (auto simp: known_iff)
  then obtain x where x: "x < 128"
      "RKCaptureIndexForCaptureNameCharactersWithError (Some regex) (q @ [0]) (length q) None = Ok (of_nat x, None)"
    using name_without_ranges [OF assms(1-4)] by blast
  have "(of_nat x :: u64) \<noteq> NSNotFound" using of_nat32_not_NSNotFound x(1) by simp
  then show ?thesis
    using True x(2) name_buffer_sel [OF assms(5)]
    by (simp add: isValidCaptureName_contract_def isValidCaptureName_def RKCaptureIndexForCaptureNameCharacters_def)
next
  case False
  then show ?thesis
    using name_unknown [OF assms(1,4) False, of "[0]" None] name_buffer_sel [OF assms(5)]
    by (simp add: isValidCaptureName_contract_def isValidCaptureName_def RKCaptureIndexForCaptureNameCharacters_def)
qed

lemma index_contract:
  assumes "names_table regex entries" "name_modes regex entries" "list_all (\<lambda>(i, nm). i < 128) entries" "0 \<notin> set q"
    and "length q < 2 ^ 63" "q \<in> snd ` set entries" "first_reachable regex entries q"
  shows "captureIndexForCaptureName_contract entries (Some q) (captureIndexForCaptureName regex (Some (name_buffer q)))"
proof -
  obtain i where i: "lookup_name entries q = Some i" using assms(6) by (auto simp: known_iff)
  then have "RKCaptureIndexForCaptureNameCharactersWithError (Some regex) (q @ [0]) (length q) None = Ok (of_nat i, None)"
    using name_without_ranges [OF assms(1-4) i, of "[0]"] assms(7) by blast
  then show ?thesis
    using i name_buffer_sel [OF assms(5)]
    by (simp add: captureIndexForCaptureName_contract_def captureIndexForCaptureName_def
        RKCaptureIndexForCaptureNameCharacters_def)
qed

text \<open>For an unknown name another exception is raised than the header says.\<close>

lemma unknown_name_exception:
  assumes "names_table regex entries" "0 \<notin> set q" "length q < 2 ^ 63" "q \<notin> snd ` set entries"
  shows "captureIndexForCaptureName regex (Some (name_buffer q)) = Raise RKRegexCaptureReferenceException"
    and "\<not> captureIndexForCaptureName_contract entries (Some q) (captureIndexForCaptureName regex (Some (name_buffer q)))"
    and "captureIndexForCaptureName_inMatchedRanges regex (Some (name_buffer q)) (Some ranges)
      = Raise RKRegexCaptureReferenceException"
  using name_unknown [OF assms(1,2,4), of "[0]"] name_buffer_sel [OF assms(3)] lookup_name_None [OF assms(4)]
  by (simp_all add: captureIndexForCaptureName_def RKCaptureIndexForCaptureNameCharacters_def
      captureIndexForCaptureName_contract_def captureIndexForCaptureName_inMatchedRanges_def)

lemma range_index_contract:
  assumes "names_table regex entries" "name_modes regex entries" "indexes_in ranges entries" "0 \<notin> set q"
    and "length q < 2 ^ 63"
  shows "q \<in> snd ` set entries \<Longrightarrow> captureIndexForCaptureName_inMatchedRanges_contract entries (Some q) (Some ranges)
      (captureIndexForCaptureName_inMatchedRanges regex (Some (name_buffer q)) (Some ranges))"
    and "captureIndexForCaptureName_inMatchedRanges_error_contract entries (Some q) (Some ranges)
      (captureIndexForCaptureName_inMatchedRanges_error regex (Some (name_buffer q)) (Some ranges))"
proof -
  note defs = captureIndexForCaptureName_inMatchedRanges_contract_def captureIndexForCaptureName_inMatchedRanges_def
    captureIndexForCaptureName_inMatchedRanges_error_contract_def captureIndexForCaptureName_inMatchedRanges_error_def
    RKCaptureIndexForCaptureNameCharacters_def
  note sel = name_buffer_sel [OF assms(5)]
  show "q \<in> snd ` set entries \<Longrightarrow> captureIndexForCaptureName_inMatchedRanges_contract entries (Some q) (Some ranges)
      (captureIndexForCaptureName_inMatchedRanges regex (Some (name_buffer q)) (Some ranges))"
    using name_in_ranges [OF assms(1-4), of "[0]"] sel by (simp add: defs)
  show "captureIndexForCaptureName_inMatchedRanges_error_contract entries (Some q) (Some ranges)
      (captureIndexForCaptureName_inMatchedRanges_error regex (Some (name_buffer q)) (Some ranges))"
    using name_in_ranges [OF assms(1-4), of "[0]"] name_unknown [OF assms(1,4), of "[0]" "Some ranges"] sel
    by (simp add: defs)
qed

lemma missing_name_argument:
  "captureIndexForCaptureName_contract entries None (captureIndexForCaptureName regex None)"
  "q = None \<or> ranges = None \<Longrightarrow> captureIndexForCaptureName_inMatchedRanges_contract entries q ranges
     (captureIndexForCaptureName_inMatchedRanges regex (map_option name_buffer q) ranges)"
  "q = None \<or> ranges = None \<Longrightarrow> captureIndexForCaptureName_inMatchedRanges_error_contract entries q ranges
     (captureIndexForCaptureName_inMatchedRanges_error regex (map_option name_buffer q) ranges)"
  by (auto simp: captureIndexForCaptureName_contract_def captureIndexForCaptureName_def
      captureIndexForCaptureName_inMatchedRanges_contract_def captureIndexForCaptureName_inMatchedRanges_def
      captureIndexForCaptureName_inMatchedRanges_error_contract_def captureIndexForCaptureName_inMatchedRanges_error_def
      split: option.splits)

section \<open>The array of names is as documented\<close>

definition decoded_names :: "foundation \<Rightarrow> RKStringBufferEncoding \<Rightarrow> (nat \<times> byte list) list \<Rightarrow> (nat \<times> string) list" where
  "decoded_names F enc entries = map (\<lambda>(i, nm). (i, the (string_from_c F nm enc))) entries"

lemma set_names_map:
  assumes "distinct (map fst entries)"
    and "list_all (\<lambda>(i, nm). i < length names \<and> string_from_c F nm enc \<noteq> None) entries"
  shows "set_names F enc entries names =
    map (\<lambda>i. case map_of (decoded_names F enc entries) i of None \<Rightarrow> names ! i | Some s \<Rightarrow> Some s) [0..<length names]"
  using assms
proof (induction entries arbitrary: names)
  case Nil
  then show ?case by (simp add: set_names_def decoded_names_def map_nth)
next
  case (Cons e entries)
  obtain j nm s where e: "e = (j, nm)" "string_from_c F nm enc = Some s" "j < length names"
    using Cons.prems(2) by (cases e) auto
  have out: "map_of (decoded_names F enc entries) j = None"
    using Cons.prems(1) e by (force simp: map_of_eq_None_iff decoded_names_def)
  have "set_names F enc (e # entries) names = set_names F enc entries (names[j := Some s])"
    by (simp add: set_names_def e)
  also have "\<dots> = map (\<lambda>i. case map_of (decoded_names F enc entries) i of None \<Rightarrow> names[j := Some s] ! i | Some s \<Rightarrow> Some s)
      [0..<length names]"
    using Cons.IH [of "names[j := Some s]"] Cons.prems by simp
  also have "\<dots> = map (\<lambda>i. case map_of (decoded_names F enc (e # entries)) i of None \<Rightarrow> names ! i | Some s \<Rightarrow> Some s)
      [0..<length names]"
    using out e by (auto simp: decoded_names_def nth_list_update split: option.splits)
  finally show ?case .
qed

lemma compiled_names:
  assumes "compiled_regex F L enc h str options = Ok (Some regex)" "names_table regex entries"
    and "distinct (map fst entries)"
    and "list_all (\<lambda>(i, nm). i < unat (captureCount regex) \<and> string_from_c F nm enc \<noteq> None) entries"
  shows "captureNameArray_contract (decoded_names F enc entries) (captureCount regex) (captureNameArray regex)"
proof (cases "entries = []")
  case True
  then have "captureNameTableLength regex = 0" using assms(2) by (simp add: names_table_def)
  then have "captureNameArray regex = None"
    using assms(1) by (auto simp: compiled_regex_def load_names_def Let_def run_simps split: option.splits if_splits)
  then show ?thesis using True by (simp add: captureNameArray_contract_def decoded_names_def)
next
  case False
  let ?init = "replicate (unat (captureCount regex)) None :: string option list"
  have n: "captureNameTableLength regex = length entries" using assms(2) by (simp add: names_table_def)
  have fill: "fill_names F enc (captureNameTable regex) (captureNameLength regex) (captureNameTableLength regex) ?init
      = Ok (captureNameArray regex)"
    using assms(1) n False
    by (auto simp: compiled_regex_def load_names_def Let_def run_simps split: option.splits if_splits)
  have "list_all (\<lambda>(i, nm). i < 65536 \<and> good_name (captureNameLength regex) nm \<and> i < length ?init \<and>
      string_from_c F nm enc \<noteq> None) entries"
    using assms(2,4) by (auto simp: names_table_def list_all_iff)
  then have "captureNameArray regex = Some (set_names F enc entries ?init)"
    using fill_names_correct [of "captureNameLength regex" ?init F enc entries] assms(2) fill n
    by (simp add: names_table_def)
  moreover have "set_names F enc entries ?init = map (map_of (decoded_names F enc entries)) [0..<unat (captureCount regex)]"
    using set_names_map [OF assms(3), of ?init F enc] assms(4)
    by (auto simp: intro!: map_cong split: option.splits)
  ultimately show ?thesis
    using False by (simp add: captureNameArray_contract_def decoded_names_def)
qed

lemma name_of_index:
  assumes "captureNameArray_contract named (captureCount regex) (captureNameArray regex)"
  shows "captureNameForCaptureIndex_contract named (captureCount regex) i (captureNameForCaptureIndex regex i)"
  using assms
  by (auto simp: captureNameArray_contract_def captureNameForCaptureIndex_contract_def captureNameForCaptureIndex_def
      word_less_nat_alt word_le_nat_alt not_le split: option.splits)

text \<open>
  The capture name methods of a compiled regex do what the header documents: the array of names
  and the name of an index give exactly the named captures; a string is a valid name if and only if it is
  one of them; a name stands for its first capture, or with the ranges of a match for its first capture
  that took part; a missing argument raises, an unknown name raises or gives an error object. The indexes
  are below 128; without ranges and with duplicate names allowed the name is not the first of the table
  (there the code answers whatever entry the binary search hit).
\<close>

lemma names_keep_documentation:
  assumes "compiled_regex F L enc h str options = Ok (Some regex)" "names_table regex entries"
    and "distinct (map fst entries)" "list_all (\<lambda>(i, nm). i < 128) entries"
    and "list_all (\<lambda>(i, nm). i < unat (captureCount regex) \<and> string_from_c F nm enc \<noteq> None) entries"
    and "name_modes regex entries" "indexes_in ranges entries" "0 \<notin> set q" "length q < 2 ^ 63"
  shows "captureNameArray_contract (decoded_names F enc entries) (captureCount regex) (captureNameArray regex) \<and>
    captureNameForCaptureIndex_contract (decoded_names F enc entries) (captureCount regex) i
      (captureNameForCaptureIndex regex i) \<and>
    isValidCaptureName_contract entries q (isValidCaptureName regex (Some (name_buffer q))) \<and>
    (q \<in> snd ` set entries \<longrightarrow> first_reachable regex entries q \<longrightarrow>
      captureIndexForCaptureName_contract entries (Some q) (captureIndexForCaptureName regex (Some (name_buffer q)))) \<and>
    (q \<in> snd ` set entries \<longrightarrow> captureIndexForCaptureName_inMatchedRanges_contract entries (Some q) (Some ranges)
      (captureIndexForCaptureName_inMatchedRanges regex (Some (name_buffer q)) (Some ranges))) \<and>
    captureIndexForCaptureName_inMatchedRanges_error_contract entries (Some q) (Some ranges)
      (captureIndexForCaptureName_inMatchedRanges_error regex (Some (name_buffer q)) (Some ranges)) \<and>
    captureIndexForCaptureName_contract entries None (captureIndexForCaptureName regex None) \<and>
    captureIndexForCaptureName_inMatchedRanges_contract entries (Some q) None
      (captureIndexForCaptureName_inMatchedRanges regex (Some (name_buffer q)) None)"
proof -
  have missing: "captureIndexForCaptureName_inMatchedRanges_contract entries (Some q) None
      (captureIndexForCaptureName_inMatchedRanges regex (Some (name_buffer q)) None)"
    using missing_name_argument(2) [of "Some q" None] by simp
  show ?thesis
    using compiled_names [OF assms(1-3,5)] name_of_index valid_name_contract [OF assms(2,6,4,8,9)]
      index_contract [OF assms(2,6,4,8,9)] range_index_contract [OF assms(2,6,7,8,9)] missing_name_argument(1) missing
    by blast
qed

section \<open>Witnesses\<close>

text \<open>The sample library, which finds its match at the start of the subject only.\<close>

definition anchored_exec :: pcre_exec where
  "anchored_exec h chars len start opts ovecsize =
     (if start = 0 then sample_exec h chars len start opts ovecsize else (-1, []))"

lemma anchored_exec_documented: "pcre_exec_documented anchored_exec sample_regex"
proof -
  have "pcre_exec_contract anchored_exec"
    unfolding pcre_exec_contract_def
  proof (intro allI impI)
    fix h chars len start opts size rc written
    assume call: "anchored_exec h chars len start opts size = (rc, written)"
    show "length written \<le> unat size \<and> (0 < rc \<longrightarrow> 3 * nat rc \<le> unat size \<and> 2 * nat rc \<le> length written \<and>
      written ! 0 \<noteq> - 1 \<and> (\<forall>i < nat rc. pair_ok len (written ! (2 * i)) (written ! (2 * i + 1))))"
    proof (cases "start = 0")
      case True
      then have "sample_exec h chars len start opts size = (rc, written)" using call by (simp add: anchored_exec_def)
      then show ?thesis using sample_exec_contract unfolding pcre_exec_contract_def by blast
    next
      case False
      then show ?thesis using call by (auto simp: anchored_exec_def)
    qed
  qed
  then show ?thesis
    by (auto simp: pcre_exec_documented_def anchored_exec_def sample_exec_def split: if_splits)
qed

theorem matching_keeps_documentation_witness:
  "matchesCharacters anchored_exec (\<lambda>i. 7) sample_regex (Some [65, 66, 67]) 3 (NSMakeRange 0 3) 0 = Ok True \<and>
   matchesCharacters anchored_exec (\<lambda>i. 7) sample_regex (Some [65, 66, 67]) 3 (NSMakeRange 2 2) 0 = Raise NSRangeException"
proof -
  have c: "unat (captureCount sample_regex) \<le> 170" "0 < captureCount sample_regex"
    by (simp_all add: sample_regex_def)
  have m: "library_match anchored_exec sample_regex [65, 66, 67] 3 (NSMakeRange 0 3) 0 \<noteq> None"
    by (simp add: library_match_def anchored_exec_def sample_exec_def sample_regex_def RK_PRESIZE_CAPTURE_COUNT_def
        range_end_def)
  have v: "search_valid 3 (NSMakeRange 0 3)" "\<not> search_valid 3 (NSMakeRange 2 2)"
    by (simp_all add: search_valid_def range_end_def)
  show ?thesis
    using matching_keeps_documentation [OF anchored_exec_documented c, where chars = "Some [65, 66, 67]" and len = 3 and r = "NSMakeRange 0 3"
        and options = 0 and junk = "\<lambda>i. 7"]
      matching_keeps_documentation [OF anchored_exec_documented c, where chars = "Some [65, 66, 67]" and len = 3 and r = "NSMakeRange 2 2"
        and options = 0 and junk = "\<lambda>i. 7"] m v
    by (auto simp: Let_def matchesCharacters_contract_def)
qed

text \<open>A library that compiles every pattern to one with the capture name \<open>ab\<close> for capture 1.\<close>

definition naming_pcre :: pcre_library where
  "naming_pcre = sample_pcre\<lparr>info_capturecount := (\<lambda>h. Some 2), info_namecount := (\<lambda>h. Some 1),
     info_nameentrysize := (\<lambda>h. Some 6), info_nametable := (\<lambda>h. Some (encode_entry 6 (1, [97, 98])))\<rparr>"

definition compiled_sample :: RKRegex where
  "compiled_sample = \<lparr>compiledPCRE = 7, regex_jchanged = Some 0, compiledRegexString = ''x'', compileOption = 0,
     captureCount = 3, captureNameTable = encode_entry 6 (1, [97, 98]), captureNameTableLength = 1,
     captureNameLength = 6, captureNameArray = Some [None, Some ''ab'', None], regex_hash = 1\<rparr>"

lemma compiled_sample:
  "compiled_regex sample_foundation naming_pcre EncodingUTF8 7 ''x'' 0 = Ok (Some compiled_sample)"
  "names_table compiled_sample [(1, [97, 98])]" "name_modes compiled_sample [(1, [97, 98])]"
proof -
  let ?e = "[(1, [97, 98 :: byte])] :: (nat \<times> byte list) list"
  have decode: "string_from_c sample_foundation [97, 98] EncodingUTF8 = Some ''ab''" by code_simp
  have "fill_names sample_foundation EncodingUTF8 (concat (map (encode_entry 6) ?e)) 6 (length ?e) (replicate 3 None) = Ok (Some (set_names sample_foundation EncodingUTF8 ?e (replicate 3 None)))"
    by (rule fill_names_correct) (simp add: good_name_def decode)
  moreover have "set_names sample_foundation EncodingUTF8 [(1, [97, 98])] (replicate 3 None) = [None, Some ''ab'', None]"
    by (simp add: set_names_def decode numeral_3_eq_3)
  ultimately show "compiled_regex sample_foundation naming_pcre EncodingUTF8 7 ''x'' 0 = Ok (Some compiled_sample)"
    by (simp add: compiled_regex_def load_names_def naming_pcre_def sample_pcre_def compiled_sample_def
        RKHashForStringAndCompileOption_def) (simp add: sample_foundation_def)
  show "names_table compiled_sample [(1, [97, 98])]" "name_modes compiled_sample [(1, [97, 98])]"
    by (simp_all add: names_table_def compiled_sample_def good_name_def name_modes_def unique_names_def)
qed

lemma names_keep_documentation_witness:
  "captureNameForCaptureIndex_contract (decoded_names sample_foundation EncodingUTF8 [(1, [97, 98])]) 3 2
     (captureNameForCaptureIndex compiled_sample 2) \<and>
   isValidCaptureName compiled_sample (Some (name_buffer [97, 98])) = Ok True"
proof -
  have all: "list_all (\<lambda>(i, nm). i < unat (captureCount compiled_sample) \<and> string_from_c sample_foundation nm EncodingUTF8 \<noteq> None)
      [(1, [97, 98])]"
    by (simp add: compiled_sample_def sample_foundation_def)
  have idx: "indexes_in [NSMakeRange 0 2, NSMakeRange 0 1, NSMakeRange 1 1] [(1, [97, 98])]"
    by (simp add: indexes_in_def)
  have cc: "captureCount compiled_sample = 3" by (simp add: compiled_sample_def)
  show ?thesis
    using names_keep_documentation [OF compiled_sample(1,2) _ _ all compiled_sample(3) idx, of "[97, 98]" 2] cc
    by (simp add: isValidCaptureName_contract_def)
qed

text \<open>
  The first entry of the table is missed when the binary search meets a later entry of the same name:
  \<open>b\<close> stands for captures 1 and 3, and capture 3 is answered.
\<close>

lemma first_duplicate_missed:
  "RKCaptureIndexForCaptureNameCharactersWithError (Some (named_regex RKCompileDupNames [(1, [98]), (3, [98])]))
     [98, 0] 1 None = Ok (3, None)"
  by code_simp

end
