(* ===== verification/RK_ErrorInfo.thy ===== *)
theory RK_ErrorInfo
  imports RK_Regex
begin

text \<open>
  The user info dictionaries of a pattern that does not compile: the one of the error object
  (\<open>RKErrorForCompileInitFailure\<close> in \<open>RKRegex.m\<close>) under the keys that \<open>RegexKitTypes.h\<close> documents, and the one
  of the exception that older methods raise from it (\<open>RKExceptionFromInitFailureForOlderAPI\<close>). Strings are
  lists of code points here, since the dictionary cuts them by ranges of UTF-16 units.
\<close>

section \<open>Keys and values\<close>

datatype user_info_key =
    NSLocalizedDescriptionKey
  | NSLocalizedFailureReasonErrorKey
  | RKRegexLibraryErrorKey
  | RKRegexLibraryErrorStringErrorKey
  | RKRegexStringErrorKey
  | RKRegexErrorKey
  | RKRegexStringErrorRangeErrorKey
  | RKAttributedRegexStringErrorKey
  | RKAbreviatedRegexStringErrorKey
  | RKAbreviatedRegexStringErrorRangeErrorKey
  | RKAbreviatedAttributedRegexStringErrorKey
  | RKCompileOptionErrorKey
  | RKCompileOptionArrayErrorKey
  | RKCompileOptionArrayStringErrorKey
  | RKCompileErrorCodeErrorKey
  | RKCompileErrorCodeStringErrorKey

definition RKRegexPCRELibrary :: string where
  "RKRegexPCRELibrary = ''RKRegexPCRELibrary''"

text \<open>The attributes that mark the character in error, with the range each is added to.\<close>

datatype text_attribute = ToolTip | Kern | UnderlineStyle | UnderlineColor | ErrorShadow | BackgroundColor

datatype info_value =
    LibraryName string
  | Message error_text
  | FailureReason "nat list" "nat list"
  | PatternText "nat list"
  | RegexObject "nat list"
  | RangeValue ns_range
  | AttributedText "nat list" "(text_attribute \<times> ns_range) list"
  | OptionNumber u32
  | OptionNames "option_text list"
  | OptionsJoined "option_text list"
  | CodeNumber int
  | LocationNumber u64

section \<open>Strings in UTF-16 units\<close>

text \<open>\<open>substringWithRange:\<close>: the characters all of whose units lie in the range.\<close>

definition substringWithRange :: "nat list \<Rightarrow> ns_range \<Rightarrow> nat list" where
  "substringWithRange cps r =
     map (\<lambda>k. cps ! k) (filter (\<lambda>k. unat (range_location r) \<le> w16 cps k \<and> w16 cps (Suc k) \<le> range_end r) [0..<length cps])"

text \<open>Spaces are made visible by replacing each of them by U+2423; the mark of an omission is U+2026.\<close>

definition visible_spaces :: "nat list \<Rightarrow> nat list" where
  "visible_spaces cps = map (\<lambda>c. if c = 32 then 0x2423 else c) cps"

definition abreviatedIndicator :: "nat list" where
  "abreviatedIndicator = [0x2026]"

definition abreviated_text :: "nat list \<Rightarrow> ns_range \<Rightarrow> nat list" where
  "abreviated_text cps truncated =
     (if range_location truncated \<noteq> 0 then abreviatedIndicator else []) @
     visible_spaces (substringWithRange cps truncated) @
     (if unat (NSMaxRange truncated) < utf16_width cps then abreviatedIndicator else [])"

text \<open>
  The range that is spaced out: from the character before the one in error to its end.
\<close>

definition kern_range :: "RKStringBuffer \<Rightarrow> ns_range \<Rightarrow> ns_range run" where
  "kern_range b utf8Error =
     run_bind (RKRangeForUTF8CharacterAtLocation (Some b)
        (if range_location utf8Error > 0 then range_location utf8Error - 1 else 0))
       (\<lambda>kern. RKConvertUTF8ToUTF16RangeForStringBuffer (Some b)
          (NSMakeRange (range_location kern) (NSMaxRange utf8Error - range_location kern)))"

definition highlighted :: "nat list \<Rightarrow> ns_range \<Rightarrow> ns_range \<Rightarrow> info_value" where
  "highlighted cps errorRange kernRange =
     AttributedText cps [(ToolTip, NSMakeRange 0 (of_nat (utf16_width cps))), (Kern, kernRange),
       (UnderlineStyle, errorRange), (UnderlineColor, errorRange), (ErrorShadow, errorRange)]"

section \<open>The dictionary of the error object\<close>

text \<open>
  \<open>text_buffer\<close> is the string buffer of a string; the padding of five characters is that of the caller.
\<close>

definition compile_error_info ::
  "(nat list \<Rightarrow> RKStringBuffer) \<Rightarrow> nat list \<Rightarrow> u64 \<Rightarrow> int \<Rightarrow> u32 \<Rightarrow> (user_info_key \<Rightarrow> info_value option) run" where
  "compile_error_info text_buffer cps errorOffset code options =
     run_bind (RKErrorForCompileInitFailure (text_buffer cps) errorOffset code options 5 1) (\<lambda>e.
     let abreviated = abreviated_text cps (truncatedRange e); message = RKLocalizedStringForPCRECompileErrorCode code
     in run_bind (RKConvertUTF16ToUTF8RangeForStringBuffer (Some (text_buffer abreviated)) (abreviatedErrorRange e)) (\<lambda>abreviated8.
     run_bind (kern_range (text_buffer abreviated) abreviated8) (\<lambda>abreviatedKern.
     run_bind (RKRangeForUTF8CharacterAtLocation (Some (text_buffer cps)) errorOffset) (\<lambda>error8.
     run_bind (kern_range (text_buffer cps) error8) (\<lambda>kern.
     Ok (map_of
       [(NSLocalizedDescriptionKey, Message message),
        (NSLocalizedFailureReasonErrorKey,
           FailureReason (visible_spaces (substringWithRange cps (regexStringErrorRange e))) abreviated),
        (RKRegexLibraryErrorKey, LibraryName RKRegexPCRELibrary),
        (RKRegexLibraryErrorStringErrorKey, Message message),
        (RKRegexStringErrorKey, PatternText cps),
        (RKRegexStringErrorRangeErrorKey, RangeValue (regexStringErrorRange e)),
        (RKAttributedRegexStringErrorKey, highlighted cps (regexStringErrorRange e) kern),
        (RKAbreviatedRegexStringErrorKey, PatternText abreviated),
        (RKAbreviatedRegexStringErrorRangeErrorKey, RangeValue (abreviatedErrorRange e)),
        (RKAbreviatedAttributedRegexStringErrorKey, highlighted abreviated (abreviatedErrorRange e) abreviatedKern),
        (RKCompileOptionErrorKey, OptionNumber options),
        (RKCompileOptionArrayErrorKey, OptionNames (RKArrayFromCompileOption options)),
        (RKCompileOptionArrayStringErrorKey, OptionsJoined (RKArrayFromCompileOption options)),
        (RKCompileErrorCodeErrorKey, CodeNumber code),
        (RKCompileErrorCodeStringErrorKey, Message (RKStringFromCompileErrorCode code))]))))))"

section \<open>The dictionary of the exception\<close>

datatype exception_key =
    Key_regexString | Key_regexStringErrorLocation | Key_regexAttributedString | Key_errorString
  | Key_RKCompileOption | Key_RKCompileOptionString | Key_RKCompileOptionArray
  | Key_RKCompileErrorCode | Key_RKCompileErrorCodeString

text \<open>The pairs in the order of the code, of which the first \<open>nil\<close> value would end the list.\<close>

definition exception_info :: "(user_info_key \<Rightarrow> info_value option) \<Rightarrow> exception_key \<Rightarrow> info_value option" where
  "exception_info info =
     (let location = (case info RKRegexStringErrorRangeErrorKey of Some (RangeValue r) \<Rightarrow> range_location r | _ \<Rightarrow> 0);
          pairs =
            [(Key_regexString, info RKRegexStringErrorKey),
             (Key_regexAttributedString, info RKAttributedRegexStringErrorKey),
             (Key_RKCompileOption, info RKCompileOptionErrorKey),
             (Key_RKCompileOptionString, info RKCompileOptionArrayErrorKey),
             (Key_RKCompileOptionArray, info RKCompileOptionArrayStringErrorKey),
             (Key_RKCompileErrorCode, info RKCompileErrorCodeErrorKey),
             (Key_RKCompileErrorCodeString, info RKCompileErrorCodeStringErrorKey),
             (Key_errorString, info RKRegexLibraryErrorStringErrorKey),
             (Key_regexStringErrorLocation, Some (LocationNumber location))]
      in map_of (map (\<lambda>(k, v). (k, the v)) (takeWhile (\<lambda>p. snd p \<noteq> None) pairs)))"

section \<open>The documented values\<close>

text \<open>
  What the header says of the value under each key, for a pattern whose character \<open>k\<close> is in error.
\<close>

definition shows_around :: "nat list \<Rightarrow> nat \<Rightarrow> nat list \<Rightarrow> bool" where
  "shows_around cps k t \<longleftrightarrow>
     (\<exists>i j before after. i \<le> k \<and> k < j \<and> j \<le> length cps \<and> j - i \<le> 11 \<and>
        before \<in> {[], abreviatedIndicator} \<and> after \<in> {[], abreviatedIndicator} \<and>
        (i = 0 \<longleftrightarrow> before = []) \<and> (j = length cps \<longleftrightarrow> after = []) \<and>
        t = before @ visible_spaces (drop i (take j cps)) @ after)"

definition highlights :: "nat list \<Rightarrow> nat list \<Rightarrow> info_value \<Rightarrow> bool" where
  "highlights shown ch v \<longleftrightarrow> (case v of AttributedText t attrs \<Rightarrow> t = shown \<and>
     (\<exists>a r. a \<noteq> ToolTip \<and> (a, r) \<in> set attrs \<and> substringWithRange t r = ch) | _ \<Rightarrow> False)"

definition marked_red :: "nat list \<Rightarrow> nat list \<Rightarrow> info_value \<Rightarrow> bool" where
  "marked_red shown ch v \<longleftrightarrow> (case v of AttributedText t attrs \<Rightarrow> t = shown \<and>
     (\<exists>r. (BackgroundColor, r) \<in> set attrs \<and> substringWithRange t r = ch) | _ \<Rightarrow> False)"

fun documented_info :: "(user_info_key \<Rightarrow> info_value option) \<Rightarrow> nat list \<Rightarrow> nat \<Rightarrow> int \<Rightarrow> u32 \<Rightarrow> user_info_key \<Rightarrow> bool" where
  "documented_info info cps k code options RKRegexLibraryErrorKey =
     (info RKRegexLibraryErrorKey = Some (LibraryName RKRegexPCRELibrary))"
| "documented_info info cps k code options RKRegexLibraryErrorStringErrorKey =
     (info RKRegexLibraryErrorStringErrorKey = Some (Message (RKLocalizedStringForPCRECompileErrorCode code)))"
| "documented_info info cps k code options RKRegexStringErrorKey = (info RKRegexStringErrorKey = Some (PatternText cps))"
| "documented_info info cps k code options RKRegexErrorKey = (info RKRegexErrorKey = Some (RegexObject cps))"
| "documented_info info cps k code options RKRegexStringErrorRangeErrorKey =
     (\<exists>r. info RKRegexStringErrorRangeErrorKey = Some (RangeValue r) \<and> r = range16 cps k (Suc k))"
| "documented_info info cps k code options RKAttributedRegexStringErrorKey =
     (\<exists>v. info RKAttributedRegexStringErrorKey = Some v \<and> highlights cps [cps ! k] v)"
| "documented_info info cps k code options RKAbreviatedRegexStringErrorKey =
     (\<exists>t. info RKAbreviatedRegexStringErrorKey = Some (PatternText t) \<and> shows_around cps k t)"
| "documented_info info cps k code options RKAbreviatedRegexStringErrorRangeErrorKey =
     (\<exists>t r. info RKAbreviatedRegexStringErrorKey = Some (PatternText t) \<and>
        info RKAbreviatedRegexStringErrorRangeErrorKey = Some (RangeValue r) \<and>
        substringWithRange t r = visible_spaces [cps ! k])"
| "documented_info info cps k code options RKAbreviatedAttributedRegexStringErrorKey =
     (\<exists>t v. info RKAbreviatedRegexStringErrorKey = Some (PatternText t) \<and>
        info RKAbreviatedAttributedRegexStringErrorKey = Some v \<and> highlights t (visible_spaces [cps ! k]) v)"
| "documented_info info cps k code options RKCompileOptionErrorKey =
     (info RKCompileOptionErrorKey = Some (OptionNumber options))"
| "documented_info info cps k code options RKCompileOptionArrayErrorKey =
     (info RKCompileOptionArrayErrorKey = Some (OptionNames (RKArrayFromCompileOption options)))"
| "documented_info info cps k code options RKCompileOptionArrayStringErrorKey =
     (info RKCompileOptionArrayStringErrorKey = Some (OptionsJoined (RKArrayFromCompileOption options)))"
| "documented_info info cps k code options RKCompileErrorCodeErrorKey =
     (info RKCompileErrorCodeErrorKey = Some (CodeNumber code))"
| "documented_info info cps k code options RKCompileErrorCodeStringErrorKey =
     (info RKCompileErrorCodeStringErrorKey = Some (Message (RKStringFromCompileErrorCode code)))"
| "documented_info info cps k code options _ = True"

text \<open>The table of \<open>initWithRegexString:options:\<close>, with the type of object under each key.\<close>

fun documented_exception_info :: "nat list \<Rightarrow> nat \<Rightarrow> int \<Rightarrow> u32 \<Rightarrow> exception_key \<Rightarrow> info_value \<Rightarrow> bool" where
  "documented_exception_info cps k code options Key_regexString v = (v = PatternText cps)"
| "documented_exception_info cps k code options Key_regexStringErrorLocation v = (v = LocationNumber (of_nat (w16 cps k)))"
| "documented_exception_info cps k code options Key_regexAttributedString v = marked_red cps [cps ! k] v"
| "documented_exception_info cps k code options Key_errorString v = (v = Message (RKLocalizedStringForPCRECompileErrorCode code))"
| "documented_exception_info cps k code options Key_RKCompileOption v = (v = OptionNumber options)"
| "documented_exception_info cps k code options Key_RKCompileOptionString v = (v = OptionsJoined (RKArrayFromCompileOption options))"
| "documented_exception_info cps k code options Key_RKCompileOptionArray v = (v = OptionNames (RKArrayFromCompileOption options))"
| "documented_exception_info cps k code options Key_RKCompileErrorCode v = (v = CodeNumber code)"
| "documented_exception_info cps k code options Key_RKCompileErrorCodeString v = (v = Message (RKStringFromCompileErrorCode code))"

section \<open>Ranges and substrings\<close>

lemma range16_nat:
  assumes "utf8_width cps < 2 ^ 32" "i \<le> j" "j \<le> length cps"
  shows "unat (range_location (range16 cps i j)) = w16 cps i" "range_end (range16 cps i j) = w16 cps j"
    "unat (NSMaxRange (range16 cps i j)) = w16 cps j"
proof -
  have b: "w16 cps i < 2 ^ 64" "w16 cps j < 2 ^ 64" "w16 cps i \<le> w16 cps j"
    using w8_bound(3) [OF assms(1)] w16_le [OF assms(2,3)] assms(2,3) by auto
  then show "unat (range_location (range16 cps i j)) = w16 cps i" "range_end (range16 cps i j) = w16 cps j"
    by (simp_all add: range16_def range_end_def unat_of_nat_small del: of_nat_diff)
  show "unat (NSMaxRange (range16 cps i j)) = w16 cps j"
    using b by (simp add: range_max [OF assms(2,3)] unat_of_nat_small)
qed

lemma filter_between: "filter (\<lambda>k. i \<le> k \<and> k < j) [0..<n] = [i..<min j n]"
proof (induction n)
  case (Suc n)
  then show ?case by (cases "j \<le> n"; cases "j = Suc n") (auto simp: min_def)
qed simp

lemma w16_le_iff: "i \<le> length cps \<Longrightarrow> j \<le> length cps \<Longrightarrow> w16 cps i \<le> w16 cps j \<longleftrightarrow> i \<le> j"
  using w16_le [of i j cps] w16_less [of j i cps] by (cases "i \<le> j") auto

lemma substring_range16:
  assumes "utf8_width cps < 2 ^ 32" "i \<le> j" "j \<le> length cps"
  shows "substringWithRange cps (range16 cps i j) = drop i (take j cps)"
proof -
  have "w16 cps i \<le> w16 cps k \<and> w16 cps (Suc k) \<le> w16 cps j \<longleftrightarrow> i \<le> k \<and> k < j" if "k < length cps" for k
    using that w16_le_iff [of i cps k] w16_le_iff [of "Suc k" cps j] assms(2,3) by (simp add: Suc_le_eq)
  then have "filter (\<lambda>k. w16 cps i \<le> w16 cps k \<and> w16 cps (Suc k) \<le> w16 cps j) [0..<length cps] = [i..<j]"
    using filter_between [of i j "length cps"] assms(3) by (subst filter_cong [OF refl]) (auto simp: min_absorb1)
  then show ?thesis
    unfolding substringWithRange_def range16_nat [OF assms]
    using assms(2,3) by (auto intro: nth_equalityI)
qed

lemma kern_range_text:
  assumes "holds_text b cps" "k < length cps"
  shows "kern_range b (range8 cps k (Suc k)) = Ok (range16 cps (k - 1) (Suc k))"
proof -
  have v: "utf8_width cps < 2 ^ 32" using assms(1) by (simp add: holds_text_def)
  note bound = w8_bound [OF v]
  have prev: "RKRangeForUTF8CharacterAtLocation (Some b)
      (if range_location (range8 cps k (Suc k)) > 0 then range_location (range8 cps k (Suc k)) - 1 else 0)
      = Ok (range8 cps (k - 1) (Suc (k - 1)))"
  proof (cases k)
    case 0
    have "0 < w8 cps (Suc 0)" using w8_less [of 0 "Suc 0" cps] assms(2) by simp
    then show ?thesis using character_range_at [OF assms(1), of 0 0] assms(2) 0 by (simp add: range_loc)
  next
    case (Suc j)
    have j: "j < length cps" "w8 cps j < w8 cps k" using Suc assms(2) w8_less [of j k cps] by simp_all
    define p where "p = w8 cps k - 1"
    have p: "w8 cps k = Suc p" "w8 cps j \<le> p" "p < w8 cps (Suc j)" using j Suc by (auto simp: p_def)
    have "unat (of_nat (Suc p) :: u64) = Suc p" by (rule unat_of_nat_small) (use bound(2) [of k] assms(2) p in simp)
    then have pos: "(of_nat (Suc p) :: u64) > 0" unfolding word_less_nat_alt by simp
    have minus: "(of_nat (Suc p) - 1 :: u64) = of_nat p" by simp
    show ?thesis
      unfolding range_loc p(1) minus if_P [OF pos] using character_range_at [OF assms(1) j(1) p(2)] p(3) Suc by simp
  qed
  have "NSMakeRange (range_location (range8 cps (k - 1) (Suc (k - 1))))
      (NSMaxRange (range8 cps k (Suc k)) - range_location (range8 cps (k - 1) (Suc (k - 1)))) = range8 cps (k - 1) (Suc k)"
    using w8_le [of "k - 1" "Suc k" cps] assms(2)
    by (simp add: range_max range_loc) (simp add: range8_def)
  then show ?thesis
    unfolding kern_range_def prev using utf8_range_converts [OF assms(1), of "k - 1" "Suc k"] assms(2) by simp
qed

section \<open>The abbreviated pattern\<close>

lemma visible_spaces_simps:
  "length (visible_spaces cps) = length cps" "k < length cps \<Longrightarrow> utf16_units (visible_spaces cps ! k) = utf16_units (cps ! k)"
  "list_all valid_code_point cps \<Longrightarrow> list_all valid_code_point (visible_spaces cps)"
  "take n (visible_spaces cps) = visible_spaces (take n cps)" "drop n (visible_spaces cps) = visible_spaces (drop n cps)"
  "visible_spaces [c] = [if c = 32 then 0x2423 else c]" "utf16_width (visible_spaces cps) = utf16_width cps"
proof -
  have unit: "utf16_units (if c = 32 then 0x2423 else c) = utf16_units c" for c by (simp add: utf16_units_def)
  show "utf16_width (visible_spaces cps) = utf16_width cps"
    unfolding utf16_width_def visible_spaces_def by (induction cps) (simp_all only: list.map sum_list.Nil sum_list.Cons unit)
  show "k < length cps \<Longrightarrow> utf16_units (visible_spaces cps ! k) = utf16_units (cps ! k)"
    by (simp add: visible_spaces_def utf16_units_def)
  show "list_all valid_code_point cps \<Longrightarrow> list_all valid_code_point (visible_spaces cps)"
    by (auto simp: visible_spaces_def list_all_iff valid_code_point_def)
qed (simp_all add: visible_spaces_def take_map drop_map)

lemma w16_append:
  "w16 (xs @ ys) (length xs + n) = utf16_width xs + w16 ys n" "n \<le> length xs \<Longrightarrow> w16 (xs @ ys) n = w16 xs n"
  by (simp_all add: w16_def utf16_width_def)

lemma w16_middle:
  "i \<le> m \<Longrightarrow> m \<le> j \<Longrightarrow> j \<le> length cps \<Longrightarrow> w16 (drop i (take j cps)) (m - i) = w16 cps m - w16 cps i"
proof -
  assume a: "i \<le> m" "m \<le> j" "j \<le> length cps"
  have "take m cps = take i cps @ take (m - i) (drop i (take j cps))"
    using a append_take_drop_id [of i "take m cps"] by (simp add: take_drop min_absorb1)
  then have "w16 cps m = w16 cps i + w16 (drop i (take j cps)) (m - i)"
    by (simp add: w16_def utf16_width_def)
  then show ?thesis by simp
qed

lemma w16_visible: "w16 (visible_spaces cps) n = w16 cps n"
  by (simp add: w16_def visible_spaces_simps)

text \<open>The characters \<open>i\<close> up to \<open>j\<close> in the abbreviated form, and where character \<open>k\<close> is in it.\<close>

definition shown_text :: "nat list \<Rightarrow> nat \<Rightarrow> nat \<Rightarrow> nat list" where
  "shown_text cps i j = (if i \<noteq> 0 then abreviatedIndicator else []) @ visible_spaces (drop i (take j cps)) @
     (if j < length cps then abreviatedIndicator else [])"

definition shown_at :: "nat \<Rightarrow> nat \<Rightarrow> nat" where
  "shown_at i k = (if i \<noteq> 0 then 1 else 0) + (k - i)"

lemma abreviated_text_range:
  assumes "utf8_width cps < 2 ^ 32" "i \<le> j" "j \<le> length cps"
  shows "abreviated_text cps (range16 cps i j) = shown_text cps i j"
proof -
  have "range_location (range16 cps i j) = 0 \<longleftrightarrow> w16 cps i = 0"
    using range16_nat(1) [OF assms] by (metis unat_eq_zero)
  then have "range_location (range16 cps i j) = 0 \<longleftrightarrow> i = 0"
    using w16_eq_iff [of i cps 0] assms by simp
  moreover have "unat (NSMaxRange (range16 cps i j)) < utf16_width cps \<longleftrightarrow> j < length cps"
    using range16_nat(3) [OF assms] w16_le_iff [of "length cps" cps j] assms(3) by (auto simp: w8_full not_le [symmetric])
  ultimately show ?thesis
    by (simp add: abreviated_text_def shown_text_def substring_range16 [OF assms])
qed

lemma shown_text_facts:
  assumes "i \<le> k" "k < j" "j \<le> length cps"
  shows "shown_at i k < length (shown_text cps i j)"
    and "drop (shown_at i k) (take (Suc (shown_at i k)) (shown_text cps i j)) = visible_spaces [cps ! k]"
    and "w16 (shown_text cps i j) (shown_at i k) = (if i \<noteq> 0 then 1 else 0) + (w16 cps k - w16 cps i)"
    and "w16 (shown_text cps i j) (Suc (shown_at i k)) = w16 (shown_text cps i j) (shown_at i k) + utf16_units (cps ! k)"
proof -
  define before where "before = (if i \<noteq> 0 then abreviatedIndicator else [])"
  define core where "core = visible_spaces (drop i (take j cps))"
  define after where "after = (if j < length cps then abreviatedIndicator else [])"
  have t: "shown_text cps i j = before @ core @ after" by (simp add: shown_text_def before_def core_def after_def)
  have lens: "length before = (if i \<noteq> 0 then 1 else 0)" "length core = j - i" "utf16_width before = length before"
    using assms(3) by (simp_all add: before_def core_def abreviatedIndicator_def visible_spaces_simps utf16_width_def utf16_units_def)
  have at: "shown_at i k = length before + (k - i)" by (simp add: shown_at_def lens)
  have inside: "k - i < length core" using assms lens by simp
  then show less: "shown_at i k < length (shown_text cps i j)" by (simp add: t at)
  have nth: "shown_text cps i j ! shown_at i k = core ! (k - i)"
    using inside by (simp add: t at nth_append)
  have core_nth: "core ! (k - i) = (if cps ! k = 32 then 0x2423 else cps ! k)"
    using assms by (simp add: core_def visible_spaces_def)
  have "drop (shown_at i k) (take (Suc (shown_at i k)) (shown_text cps i j)) = [shown_text cps i j ! shown_at i k]"
    using less by (simp add: take_Suc_conv_app_nth)
  then show "drop (shown_at i k) (take (Suc (shown_at i k)) (shown_text cps i j)) = visible_spaces [cps ! k]"
    using nth core_nth by (simp add: visible_spaces_simps)
  have "w16 (shown_text cps i j) (shown_at i k) = length before + w16 (core @ after) (k - i)"
    unfolding t at w16_append(1) lens(3) ..
  also have "w16 (core @ after) (k - i) = w16 cps k - w16 cps i"
    using inside w16_middle [of i k j cps] assms by (simp add: w16_append(2) core_def w16_visible)
  finally show "w16 (shown_text cps i j) (shown_at i k) = (if i \<noteq> 0 then 1 else 0) + (w16 cps k - w16 cps i)"
    using lens(1) by simp
  show "w16 (shown_text cps i j) (Suc (shown_at i k)) = w16 (shown_text cps i j) (shown_at i k) + utf16_units (cps ! k)"
    using w_Suc(2) [OF less] nth core_nth by (auto simp: utf16_units_def)
qed

lemma shown_text_valid:
  assumes "list_all valid_code_point cps" "j - i \<le> 11"
  shows "list_all valid_code_point (shown_text cps i j)" "utf8_width (shown_text cps i j) < 2 ^ 32"
proof -
  have "list_all valid_code_point (visible_spaces (drop i (take j cps)))"
    using assms(1) by (intro visible_spaces_simps(3)) (auto simp: list_all_iff dest: in_set_dropD in_set_takeD)
  moreover have "list_all valid_code_point abreviatedIndicator" by (simp add: abreviatedIndicator_def valid_code_point_def)
  ultimately show "list_all valid_code_point (shown_text cps i j)" by (simp add: shown_text_def)
  have "length (utf8_of t) \<le> 4 * length t" for t
    by (induction t) (auto simp: utf8_of_def utf8_encode_def)
  moreover have "length (shown_text cps i j) \<le> 13"
    using assms(2) by (auto simp: shown_text_def abreviatedIndicator_def visible_spaces_simps)
  ultimately have "utf8_width (shown_text cps i j) \<le> 4 * 13"
    unfolding utf8_width_def by (meson mult_le_mono2 order.trans)
  then show "utf8_width (shown_text cps i j) < 2 ^ 32" by simp
qed

section \<open>The dictionaries are as documented\<close>

definition buffers_text :: "(nat list \<Rightarrow> RKStringBuffer) \<Rightarrow> bool" where
  "buffers_text text_buffer \<longleftrightarrow> (\<forall>t. list_all valid_code_point t \<and> utf8_width t < 2 ^ 32 \<longrightarrow> holds_text (text_buffer t) t)"

lemma highlights_range:
  assumes "utf8_width t < 2 ^ 32" "k < length t"
  shows "highlights t (drop k (take (Suc k) t)) (highlighted t (range16 t k (Suc k)) kern)"
  using substring_range16 [OF assms(1), of k "Suc k"] assms(2)
  by (auto simp: highlights_def highlighted_def)

lemma not_marked_red: "\<not> marked_red t ch (highlighted t r kern)"
  by (simp add: marked_red_def highlighted_def)

text \<open>The dictionary with the abbreviated form \<open>t\<close> and the place of character \<open>k\<close> in it.\<close>

definition error_dictionary ::
  "nat list \<Rightarrow> nat \<Rightarrow> nat list \<Rightarrow> nat \<Rightarrow> int \<Rightarrow> u32 \<Rightarrow> user_info_key \<Rightarrow> info_value option" where
  "error_dictionary cps k t at code options = map_of
       [(NSLocalizedDescriptionKey, Message (RKLocalizedStringForPCRECompileErrorCode code)),
        (NSLocalizedFailureReasonErrorKey, FailureReason (visible_spaces [cps ! k]) t),
        (RKRegexLibraryErrorKey, LibraryName RKRegexPCRELibrary),
        (RKRegexLibraryErrorStringErrorKey, Message (RKLocalizedStringForPCRECompileErrorCode code)),
        (RKRegexStringErrorKey, PatternText cps),
        (RKRegexStringErrorRangeErrorKey, RangeValue (range16 cps k (Suc k))),
        (RKAttributedRegexStringErrorKey, highlighted cps (range16 cps k (Suc k)) (range16 cps (k - 1) (Suc k))),
        (RKAbreviatedRegexStringErrorKey, PatternText t),
        (RKAbreviatedRegexStringErrorRangeErrorKey, RangeValue (range16 t at (Suc at))),
        (RKAbreviatedAttributedRegexStringErrorKey,
           highlighted t (range16 t at (Suc at)) (range16 t (at - 1) (Suc at))),
        (RKCompileOptionErrorKey, OptionNumber options),
        (RKCompileOptionArrayErrorKey, OptionNames (RKArrayFromCompileOption options)),
        (RKCompileOptionArrayStringErrorKey, OptionsJoined (RKArrayFromCompileOption options)),
        (RKCompileErrorCodeErrorKey, CodeNumber code),
        (RKCompileErrorCodeStringErrorKey, Message (RKStringFromCompileErrorCode code))]"

lemma compile_error_info_eq:
  assumes buf: "buffers_text text_buffer" and cps: "list_all valid_code_point cps" "utf8_width cps < 2 ^ 32" "k < length cps"
    and p: "w8 cps k \<le> p" "p < w8 cps (Suc k) \<or> p = utf8_width cps \<and> Suc k = length cps"
  defines "i \<equiv> k - 5" and "j \<equiv> min (k + 6) (length cps)"
  defines "t \<equiv> shown_text cps i j" and "at \<equiv> shown_at i k"
  shows "compile_error_info text_buffer cps (of_nat p) code options = Ok (error_dictionary cps k t at code options)"
proof -
  have ij: "i \<le> k" "k < j" "j \<le> length cps" "j - i \<le> 11" "i \<le> j" using cps(3) by (auto simp: i_def j_def)
  note shown = shown_text_facts [OF ij(1-3), folded t_def at_def]
  note valid = shown_text_valid [OF cps(1) ij(4), folded t_def]
  have hold: "holds_text (text_buffer cps) cps" "holds_text (text_buffer t) t"
    using buf cps valid by (simp_all add: buffers_text_def)
  have units: "w16 cps (Suc k) - w16 cps k = utf16_units (cps ! k)" using cps(3) by (simp add: w_Suc)
  define e where "e = \<lparr>regexStringErrorRange = range16 cps k (Suc k), truncatedRange = range16 cps i j,
         abreviatedErrorRange = NSMakeRange (of_nat (w16 cps k - w16 cps i) + (if i \<noteq> 0 then 1 else 0))
             (of_nat (utf16_units (cps ! k))), compileErrorCode = code, errorCompileOption = options\<rparr>"
  have err: "RKErrorForCompileInitFailure (text_buffer cps) (of_nat p) code options 5 1 = Ok e"
    unfolding e_def using compile_error_at [OF hold(1) cps(3) p, of code options 5 1]
    unfolding i_def j_def by (simp add: Let_def add.commute)
  have range: "abreviatedErrorRange e = range16 t at (Suc at)"
    by (simp add: e_def range16_def shown)
  have abrev: "abreviated_text cps (truncatedRange e) = t"
    using abreviated_text_range [OF cps(2) ij(5,3)] by (simp add: e_def t_def)
  have conv: "RKConvertUTF16ToUTF8RangeForStringBuffer (Some (text_buffer t)) (range16 t at (Suc at)) = Ok (range8 t at (Suc at))"
    by (rule utf16_range_converts [OF hold(2)]) (use shown(1) in simp_all)
  have char: "RKRangeForUTF8CharacterAtLocation (Some (text_buffer cps)) (of_nat p) = Ok (range8 cps k (Suc k))"
    by (rule character_range_at [OF hold(1) cps(3) p])
  have cut: "substringWithRange cps (range16 cps k (Suc k)) = [cps ! k]"
    using substring_range16 [OF cps(2), of k "Suc k"] cps(3) by (simp add: take_Suc_conv_app_nth)
  have kern: "kern_range (text_buffer t) (range8 t at (Suc at)) = Ok (range16 t (at - 1) (Suc at))"
    "kern_range (text_buffer cps) (range8 cps k (Suc k)) = Ok (range16 cps (k - 1) (Suc k))"
    by (rule kern_range_text [OF hold(2) shown(1)], rule kern_range_text [OF hold(1) cps(3)])
  have fields: "regexStringErrorRange e = range16 cps k (Suc k)" by (simp add: e_def)
  show ?thesis
    unfolding compile_error_info_def err run_bind.simps Let_def abrev range conv kern char fields cut error_dictionary_def ..
qed

text \<open>
  The user info dictionaries of a pattern that does not compile. For an error at any byte of
  character \<open>k\<close>, or at the end of the pattern, the error object has under each documented key what the
  header says: the range selects exactly that character of the pattern; the abbreviated pattern shows it
  with at most five characters on either side, with a mark where something is left out; the abbreviated
  range selects it there, whatever was left out and made visible; the attributed strings highlight it. The
  dictionary of the exception made from it agrees with its documentation except for three keys: the
  string and the array of the options are under each other's keys, and the character in error does not
  have the background the documentation describes.
\<close>

lemma compile_error_user_info:
  assumes "buffers_text text_buffer" "list_all valid_code_point cps" "utf8_width cps < 2 ^ 32" "k < length cps"
    and "w8 cps k \<le> p" "p < w8 cps (Suc k) \<or> p = utf8_width cps \<and> Suc k = length cps"
  shows "\<exists>info. compile_error_info text_buffer cps (of_nat p) code options = Ok info \<and>
    (\<forall>key. key \<noteq> RKRegexErrorKey \<longrightarrow> documented_info info cps k code options key) \<and>
    (\<forall>key. \<exists>v. exception_info info key = Some v \<and>
       (documented_exception_info cps k code options key v \<longleftrightarrow>
          key \<notin> {Key_RKCompileOptionString, Key_RKCompileOptionArray, Key_regexAttributedString}))"
proof -
  define i where "i = k - 5"
  define j where "j = min (k + 6) (length cps)"
  define t where "t = shown_text cps i j"
  define at where "at = shown_at i k"
  note eq = compile_error_info_eq [OF assms, of code options, folded i_def j_def, folded t_def at_def]
  have ij: "i \<le> k" "k < j" "j \<le> length cps" "j - i \<le> 11" using assms(4) by (auto simp: i_def j_def)
  note shown = shown_text_facts [OF ij(1-3), folded t_def at_def]
  note valid = shown_text_valid [OF assms(2) ij(4), folded t_def]
  have around: "shows_around cps k t"
    unfolding shows_around_def t_def shown_text_def using ij
    by (intro exI [of _ i] exI [of _ j] exI [of _ "if i \<noteq> 0 then abreviatedIndicator else []"]
        exI [of _ "if j < length cps then abreviatedIndicator else []"]) (auto simp: abreviatedIndicator_def)
  have here: "substringWithRange t (range16 t at (Suc at)) = visible_spaces [cps ! k]"
    using substring_range16 [OF valid(2), of at "Suc at"] shown(1,2) by simp
  have one: "drop k (take (Suc k) cps) = [cps ! k]" using assms(4) by (simp add: take_Suc_conv_app_nth)
  have marks: "highlights cps [cps ! k] (highlighted cps (range16 cps k (Suc k)) kern)"
    "highlights t (visible_spaces [cps ! k]) (highlighted t (range16 t at (Suc at)) kern')" for kern kern'
    using highlights_range [OF assms(3,4), of kern] highlights_range [OF valid(2) shown(1), of kern'] one shown(2) by simp_all
  let ?info = "error_dictionary cps k t at code options"
  have "documented_info ?info cps k code options key" if "key \<noteq> RKRegexErrorKey" for key
    using around here marks that by (cases key) (simp_all add: error_dictionary_def)
  moreover have "\<exists>v. exception_info ?info key = Some v \<and>
       (documented_exception_info cps k code options key v \<longleftrightarrow>
          key \<notin> {Key_RKCompileOptionString, Key_RKCompileOptionArray, Key_regexAttributedString})" for key
    using marks not_marked_red by (cases key) (simp_all add: exception_info_def error_dictionary_def range_loc)
  ultimately show ?thesis unfolding eq by blast
qed

section \<open>Witness\<close>

text \<open>The pattern \<open>a (\<close>, for which PCRE reports a missing parenthesis at its end.\<close>

definition utf8_buffer :: "nat list \<Rightarrow> RKStringBuffer" where
  "utf8_buffer t = RKMakeStringBuffer (of_nat (utf16_width t)) (utf8_of t) (of_nat (utf8_width t)) EncodingUTF8"

lemma compile_error_user_info_witness:
  "\<exists>info. compile_error_info utf8_buffer [97, 32, 40] 3 14 0 = Ok info \<and>
     info RKRegexStringErrorRangeErrorKey = Some (RangeValue (NSMakeRange 2 1)) \<and>
     (\<exists>v. exception_info info Key_RKCompileOptionArray = Some v \<and>
        \<not> documented_exception_info [97, 32, 40] 2 14 0 Key_RKCompileOptionArray v)"
proof -
  let ?p = "[97, 32, 40] :: nat list"
  have "buffers_text utf8_buffer"
    by (simp add: buffers_text_def holds_text_def utf8_buffer_def RKMakeStringBuffer_def)
  moreover have "utf8_width ?p = 3" "w8 ?p 2 \<le> 3" by (simp_all add: sample_eval numeral_2_eq_2)
  moreover have "list_all valid_code_point ?p" "2 < length ?p" "Suc 2 = length ?p" by (simp_all add: sample_eval)
  ultimately obtain info where info: "compile_error_info utf8_buffer ?p (of_nat 3) 14 0 = Ok info"
      "\<forall>key. key \<noteq> RKRegexErrorKey \<longrightarrow> documented_info info ?p 2 14 0 key"
      "\<forall>key. \<exists>v. exception_info info key = Some v \<and> (documented_exception_info ?p 2 14 0 key v \<longleftrightarrow>
          key \<notin> {Key_RKCompileOptionString, Key_RKCompileOptionArray, Key_regexAttributedString})"
    using compile_error_user_info [of utf8_buffer ?p 2 3 14 0] by auto
  have "range16 ?p 2 (Suc 2) = NSMakeRange 2 1" by (simp add: sample_eval numeral_2_eq_2)
  then have "info RKRegexStringErrorRangeErrorKey = Some (RangeValue (NSMakeRange 2 1))"
    using info(2) [rule_format, of RKRegexStringErrorRangeErrorKey] by simp
  then show ?thesis
    using info(1) info(3) [rule_format, of Key_RKCompileOptionArray] by auto
qed

end
