(* ===== verification/RK_CreateContract.thy ===== *)
theory RK_CreateContract
  imports RK_Regex RK_CacheContract
begin

text \<open>
  What \<open>RKRegex.h\<close> documents for the information about the PCRE library and for the creation of regular
  expressions, the start-up code of \<open>RKRegex.m\<close> that reads the version of the library, and the proofs that
  the code keeps these contracts.
\<close>

section \<open>Reading the version\<close>

text \<open>The \<open>max\<close> and \<open>min\<close> macros of \<open>RegexKitPrivate.h\<close>.\<close>

definition max_macro :: "int \<Rightarrow> int \<Rightarrow> int" where
  "max_macro a b = (if a > b then a else b)"

definition min_macro :: "int \<Rightarrow> int \<Rightarrow> int" where
  "min_macro a b = (if a < b then a else b)"

definition is_digit :: "char \<Rightarrow> bool" where
  "is_digit c \<longleftrightarrow> 48 \<le> (of_char c :: nat) \<and> (of_char c :: nat) \<le> 57"

definition digit_value :: "char \<Rightarrow> nat" where
  "digit_value c = of_char c - 48"

definition decimal :: "string \<Rightarrow> nat" where
  "decimal ds = foldl (\<lambda>n c. 10 * n + digit_value c) 0 ds"

text \<open>\<open>atoi\<close> of a string that starts with a digit or has no number.\<close>

definition atoi :: "string \<Rightarrow> nat" where
  "atoi s = decimal (takeWhile is_digit s)"

text \<open>
  \<open>memcpy\<close> into one of the two zeroed buffers of 64 bytes, from the bytes of the object that holds the
  version string.
\<close>

definition copy_number :: "string \<Rightarrow> nat \<Rightarrow> nat \<Rightarrow> string run" where
  "copy_number mem from past =
     (let n = nat (max_macro (int past - int from) 32)
      in if from + n \<le> length mem \<and> n \<le> 64 then Ok (take n (drop from mem) @ replicate (64 - n) (CHR 0x00))
         else Undefined)"

text \<open>
  The major and the minor version: \<open>match\<close> is the return code of \<open>pcre_exec\<close> and the offsets it left; both
  stay 0 if the string does not have the expected form.
\<close>

definition load_versions :: "string \<Rightarrow> int \<times> nat list \<Rightarrow> (nat \<times> nat) run" where
  "load_versions mem result =
     (case result of (errorCode, vectors) \<Rightarrow>
        if errorCode = 3 then
          run_bind (copy_number mem (vectors ! 2) (vectors ! 3)) (\<lambda>majorBuffer.
          run_bind (copy_number mem (vectors ! 4) (vectors ! 5)) (\<lambda>minorBuffer.
          Ok (atoi majorBuffer, atoi minorBuffer)))
        else Ok (0, 0))"

section \<open>Documented library information\<close>

text \<open>The characters of \<open>pcre_version()\<close>.\<close>

definition PCREVersionString_contract :: "string \<Rightarrow> string \<Rightarrow> bool" where
  "PCREVersionString_contract pcre_version result \<longleftrightarrow> result = pcre_version"

definition PCREMajorVersion_contract :: "string \<Rightarrow> nat \<Rightarrow> bool" where
  "PCREMajorVersion_contract version result \<longleftrightarrow>
     (let major = takeWhile (\<lambda>c. c \<noteq> CHR ''.'') version in list_all is_digit major \<and> result = decimal major)"

definition PCREMinorVersion_contract :: "string \<Rightarrow> nat \<Rightarrow> bool" where
  "PCREMinorVersion_contract version result \<longleftrightarrow>
     result = decimal (takeWhile is_digit (tl (dropWhile (\<lambda>c. c \<noteq> CHR ''.'') version)))"

text \<open>The features and defaults of a build of the library.\<close>

datatype newline_default = NewlineCR | NewlineLF | NewlineCRLF | NewlineAny | NewlineAnyCRLF

record library_build =
  has_utf8 :: bool
  has_unicode_properties :: bool
  default_newline :: newline_default
  bsr_unicode :: bool

fun newline_bits :: "newline_default \<Rightarrow> u32" where
  "newline_bits NewlineCR = RKBuildConfigNewlineCR"
| "newline_bits NewlineLF = RKBuildConfigNewlineLF"
| "newline_bits NewlineCRLF = RKBuildConfigNewlineCRLF"
| "newline_bits NewlineAny = RKBuildConfigNewlineAny"
| "newline_bits NewlineAnyCRLF = RKBuildConfigNewlineAnyCRLF"

definition PCREBuildConfig_contract :: "library_build \<Rightarrow> u32 \<Rightarrow> bool" where
  "PCREBuildConfig_contract build result \<longleftrightarrow>
     (result AND RKBuildConfigUTF8 \<noteq> 0 \<longleftrightarrow> has_utf8 build) \<and>
     (result AND RKBuildConfigUnicodeProperties \<noteq> 0 \<longleftrightarrow> has_unicode_properties build) \<and>
     result AND RKBuildConfigNewlineMask = newline_bits (default_newline build) \<and>
     (result AND RKBuildConfigBackslashRUnicode \<noteq> 0 \<longleftrightarrow> bsr_unicode build) \<and>
     (result AND RKBuildConfigBackslashRAnyCRLR \<noteq> 0 \<longleftrightarrow> \<not> bsr_unicode build)"

text \<open>What \<open>pcre_config\<close> answers for a build.\<close>

fun newline_answer :: "newline_default \<Rightarrow> int" where
  "newline_answer NewlineCR = 13"
| "newline_answer NewlineLF = 10"
| "newline_answer NewlineCRLF = 3338"
| "newline_answer NewlineAny = -1"
| "newline_answer NewlineAnyCRLF = -2"

definition build_config_of :: "library_build \<Rightarrow> u32" where
  "build_config_of build =
     decode_build_config (Some (of_bool (has_utf8 build))) (Some (of_bool (has_unicode_properties build)))
       (Some (newline_answer (default_newline build))) (Some (if bsr_unicode build then 0 else 1)) 0"

section \<open>The library information is as documented\<close>

lemma takeWhile_digits:
  assumes "list_all is_digit ds" "n = length ds \<or> n > length ds \<and> rest \<noteq> [] \<and> \<not> is_digit (hd rest)"
  shows "takeWhile is_digit (take n (ds @ rest) @ replicate k (CHR 0x00)) = ds"
proof -
  have nul: "\<not> is_digit (CHR 0x00)" by (simp add: is_digit_def)
  have all: "takeWhile is_digit (ds @ ys) = ds @ takeWhile is_digit ys" for ys
    using assms(1) by (simp add: takeWhile_append2 list_all_iff)
  from assms(2) show ?thesis
  proof
    assume "n = length ds"
    then show ?thesis using all [of "replicate k (CHR 0x00)"] nul by (cases k) simp_all
  next
    assume n: "n > length ds \<and> rest \<noteq> [] \<and> \<not> is_digit (hd rest)"
    then obtain c cs m where "rest = c # cs" "n - length ds = Suc m" "\<not> is_digit c"
      by (cases rest) (auto dest!: less_imp_Suc_add)
    then show ?thesis using n all [of "take (n - length ds) rest @ replicate k (CHR 0x00)"] by simp
  qed
qed

lemma copy_number_value:
  assumes "list_all is_digit ds" "length ds \<le> 64" "rest \<noteq> []" "\<not> is_digit (hd rest)"
    and "mem = pre @ ds @ rest" "length pre + max (length ds) 32 \<le> length mem"
  shows "run_map atoi (copy_number mem (length pre) (length pre + length ds)) = Ok (decimal ds)"
proof -
  define n where "n = max (length ds) 32"
  have n: "nat (max_macro (int (length pre + length ds) - int (length pre)) 32) = n"
    by (simp add: max_macro_def n_def max_def)
  have "n = length ds \<or> n > length ds \<and> rest \<noteq> [] \<and> \<not> is_digit (hd rest)"
    using assms(3,4) by (auto simp: n_def max_def)
  then have "takeWhile is_digit (take n (ds @ rest) @ replicate (64 - n) (CHR 0x00)) = ds"
    by (rule takeWhile_digits [OF assms(1)])
  then show ?thesis
    using assms(2,5,6) unfolding copy_number_def Let_def n by (simp add: n_def atoi_def)
qed

text \<open>
  For a version string of digits, a dot, digits and more text (the date), with the offsets the pattern
  gives, both numbers are read, provided that the object extends far enough beyond them.
\<close>

lemma load_versions_value:
  assumes "list_all is_digit ds" "list_all is_digit es" "length ds \<le> 64" "length es \<le> 64"
    and "rest \<noteq> []" "\<not> is_digit (hd rest)" "mem = ds @ CHR ''.'' # es @ rest"
    and "max (length ds) 32 \<le> length mem" "length ds + 1 + max (length es) 32 \<le> length mem"
  shows "load_versions mem (3, [0, length ds + 1 + length es, 0, length ds, length ds + 1, length ds + 1 + length es]) =
    Ok (decimal ds, decimal es)"
proof -
  have dot: "\<not> is_digit (CHR ''.'')" by (simp add: is_digit_def)
  have a: "run_map atoi (copy_number mem 0 (length ds)) = Ok (decimal ds)"
    using copy_number_value [of ds "CHR ''.'' # es @ rest" mem "[]"] assms dot by simp
  have b: "run_map atoi (copy_number mem (length ds + 1) (length ds + 1 + length es)) = Ok (decimal es)"
    using copy_number_value [OF assms(2,4,5,6), of mem "ds @ [CHR ''.'']"] assms by simp
  obtain x y where "copy_number mem 0 (length ds) = Ok x" "atoi x = decimal ds"
      "copy_number mem (length ds + 1) (length ds + 1 + length es) = Ok y" "atoi y = decimal es"
    using a b by (auto simp: run_simps)
  then show ?thesis by (simp add: load_versions_def numeral_2_eq_2 numeral_3_eq_3 eval_nat_numeral)
qed

text \<open>
  The copy always takes 32 bytes, since the code has \<open>max\<close> where \<open>min\<close> is meant: for the string of the
  library the framework comes with, of 14 characters and a terminator, it reads past the end of the object.
\<close>

lemma version_over_read:
  "load_versions (''7.6 2008-01-28'' @ [CHR 0x00]) (3, [0, 3, 0, 1, 2, 3]) = Undefined"
  by (simp add: load_versions_def copy_number_def max_macro_def)

lemma build_config_documented: "PCREBuildConfig_contract build (build_config_of build)"
  unfolding PCREBuildConfig_contract_def build_config_of_def
  by (cases "default_newline build"; cases "has_utf8 build"; cases "has_unicode_properties build"; cases "bsr_unicode build")
    (simp_all add: decode_build_config_def RKBuildConfigUTF8_def RKBuildConfigUnicodeProperties_def
      RKBuildConfigNewlineMask_def RKBuildConfigNewlineCR_def RKBuildConfigNewlineLF_def RKBuildConfigNewlineCRLF_def
      RKBuildConfigNewlineAny_def RKBuildConfigNewlineAnyCRLF_def RKBuildConfigBackslashRUnicode_def
      RKBuildConfigBackslashRAnyCRLR_def)

text \<open>
  The information about the library is what the header documents: for a version string of two numbers
  separated by a dot and followed by other text, inside an object that extends at least 32 bytes beyond the
  start of the second number, the start-up code reads exactly the major and the minor version, and for
  every build of the library the configuration mask has exactly the bits of its features and defaults.
\<close>

lemma library_information_documented:
  assumes "list_all is_digit ds" "list_all is_digit es" "length ds \<le> 64" "length es \<le> 64"
    and "rest \<noteq> []" "\<not> is_digit (hd rest)" "length ds + 33 \<le> length (version @ padding)"
    and "version = ds @ CHR ''.'' # es @ rest" "length ds + 1 + length es \<le> length ds + 33"
    and "max (length ds) 32 \<le> length (version @ padding)"
  shows "(case load_versions (version @ padding)
        (3, [0, length ds + 1 + length es, 0, length ds, length ds + 1, length ds + 1 + length es]) of
      Ok (major, minor) \<Rightarrow> PCREMajorVersion_contract version major \<and> PCREMinorVersion_contract version minor
    | _ \<Rightarrow> False) \<and> PCREBuildConfig_contract build (build_config_of build)"
proof -
  have "load_versions (version @ padding)
      (3, [0, length ds + 1 + length es, 0, length ds, length ds + 1, length ds + 1 + length es]) = Ok (decimal ds, decimal es)"
    using assms by (intro load_versions_value [of ds es "rest @ padding"]) auto
  moreover have "\<forall>c \<in> set ds. c \<noteq> CHR ''.''"
    using assms(1) by (auto simp: list_all_iff is_digit_def)
  then have "takeWhile (\<lambda>c. c \<noteq> CHR ''.'') version = ds" "dropWhile (\<lambda>c. c \<noteq> CHR ''.'') version = CHR ''.'' # es @ rest"
    unfolding assms(8) by (simp_all add: takeWhile_append2 dropWhile_append2)
  moreover have "takeWhile is_digit (es @ rest) = es"
    using assms(2,5,6) by (cases rest) (simp_all add: takeWhile_append2 list_all_iff)
  ultimately show ?thesis
    using assms(1) build_config_documented
    by (simp add: PCREMajorVersion_contract_def PCREMinorVersion_contract_def)
qed

section \<open>Documented behaviour of creation\<close>

text \<open>
  The outcome of compiling a pattern with options: the regex, or the error of an invalid pattern; \<open>nil\<close> is
  \<open>None\<close>, also as an argument.
\<close>

datatype compilation = Valid RKRegex | Invalid ns_error

definition regexCache_contract :: "nat \<Rightarrow> nat \<Rightarrow> objects \<Rightarrow> objects \<Rightarrow> bool" where
  "regexCache_contract cache result st st' \<longleftrightarrow> result = cache \<and> counts (drain_pool st') = counts (drain_pool st)"

definition isValidRegexString_contract :: "compilation option \<Rightarrow> bool run \<Rightarrow> bool" where
  "isValidRegexString_contract compiled result \<longleftrightarrow> result = Ok (\<exists>r. compiled = Some (Valid r))"

definition regexWithRegexString_contract :: "compilation \<Rightarrow> RKRegex option run \<Rightarrow> bool" where
  "regexWithRegexString_contract compiled result \<longleftrightarrow>
     result = Ok (case compiled of Valid r \<Rightarrow> Some r | Invalid e \<Rightarrow> None)"

definition regexWithRegexString_library_contract :: "compilation \<Rightarrow> (RKRegex option \<times> ns_error option) run \<Rightarrow> bool" where
  "regexWithRegexString_library_contract compiled result \<longleftrightarrow>
     (\<exists>err. result = Ok (case compiled of Valid r \<Rightarrow> Some r | Invalid e \<Rightarrow> None, err))"

definition initWithRegexString_contract :: "compilation option \<Rightarrow> RKRegex run \<Rightarrow> bool" where
  "initWithRegexString_contract compiled result \<longleftrightarrow>
     result = (case compiled of None \<Rightarrow> Raise NSInvalidArgumentException
       | Some (Valid r) \<Rightarrow> Ok r | Some (Invalid e) \<Rightarrow> Raise RKRegexSyntaxErrorException)"

definition initWithRegexString_library_contract ::
  "compilation option \<Rightarrow> (RKRegex option \<times> ns_error option) run \<Rightarrow> bool" where
  "initWithRegexString_library_contract compiled result \<longleftrightarrow>
     (case compiled of None \<Rightarrow> result = Raise NSInvalidArgumentException
      | Some (Valid r) \<Rightarrow> result = Ok (Some r, None)
      | Some (Invalid e) \<Rightarrow> result = Ok (None, Some e))"

definition regexString_contract :: "string \<Rightarrow> RKRegex \<Rightarrow> bool" where
  "regexString_contract created_from regex \<longleftrightarrow> compiledRegexString regex = created_from"

definition compileOption_contract :: "u32 \<Rightarrow> RKRegex \<Rightarrow> bool" where
  "compileOption_contract created_with regex \<longleftrightarrow> compileOption regex = created_with"

definition captureCount_contract :: "nat \<Rightarrow> RKRegex \<Rightarrow> bool" where
  "captureCount_contract subpatterns regex \<longleftrightarrow> 1 \<le> unat (captureCount regex) \<and> unat (captureCount regex) = 1 + subpatterns"

section \<open>Creation is as documented\<close>

text \<open>\<open>+regexCache\<close> retains and autoreleases the global cache.\<close>

definition regexCache :: "memory_macros \<Rightarrow> nat \<Rightarrow> objects \<Rightarrow> nat \<times> objects" where
  "regexCache m cache st = (cache, RKAutorelease m cache (RKRetain m cache st))"

text \<open>
  The two class methods with a \<open>library\<close> argument, and the validity test with an error argument, go to the
  same functions.
\<close>

definition regexWithRegexString_library ::
  "foundation \<Rightarrow> pcre_library \<Rightarrow> bool \<Rightarrow> RKRegex RKCache \<Rightarrow> string option \<Rightarrow> bool \<Rightarrow> u32 \<Rightarrow>
     (RKRegex option \<times> ns_error option) run \<times> RKRegex RKCache" where
  "regexWithRegexString_library F L locked cache regexString libraryIsPCRE options =
     RKRegexFromStringOrRegexWithError F L locked cache
       (case regexString of None \<Rightarrow> ArgNULL | Some s \<Rightarrow> ArgString s) libraryIsPCRE options"

text \<open>Compilation of a pattern by a library whose queries do not fail.\<close>

definition compiles_to :: "foundation \<Rightarrow> pcre_library \<Rightarrow> string \<Rightarrow> u32 \<Rightarrow> compilation \<Rightarrow> bool" where
  "compiles_to F L str options c \<longleftrightarrow>
     build_regex F L (Some str) True options = Ok (case c of Valid r \<Rightarrow> (Some r, None) | Invalid e \<Rightarrow> (None, Some e))"

lemma older_api_value:
  "compiles_to F L str options c \<Longrightarrow> older_api (build_regex F L (Some str) True options) =
     (case c of Valid r \<Rightarrow> Ok r | Invalid e \<Rightarrow> Raise RKRegexSyntaxErrorException)"
  by (auto simp: compiles_to_def older_api_def split: compilation.split)

lemma init_result: "fst (initWithRegexString_error F L locked cache str lib options) = build_regex F L str lib options"
  by (simp add: initWithRegexString_error_def Let_def split: run.split prod.split option.split)

lemma class_methods_value:
  assumes "cache_built F L cache" "no_collision F cache str options" "compiles_to F L str options c"
  shows "fst (regexWithRegexString F L locked cache (Some str) options) =
      (case c of Valid r \<Rightarrow> Ok r | Invalid e \<Rightarrow> Raise RKRegexSyntaxErrorException)"
    and "fst (regexWithRegexString_library F L locked cache (Some str) True options) =
      Ok (case c of Valid r \<Rightarrow> (Some r, None) | Invalid e \<Rightarrow> (None, Some e))"
    and "fst (isValidRegexString F L locked cache (Some str) options) = Ok (\<exists>r. c = Valid r)"
proof -
  obtain result cache' where call: "regex_from_string F L locked cache str True options = (result, cache')" by force
  have built: "result = build_regex F L (Some str) True options"
    using from_string_transparent [OF assms(1,2), of locked] call by simp
  show first: "fst (regexWithRegexString F L locked cache (Some str) options) =
      (case c of Valid r \<Rightarrow> Ok r | Invalid e \<Rightarrow> Raise RKRegexSyntaxErrorException)"
    using older_api_value [OF assms(3)] built call
    by (simp add: regexWithRegexString_def RKRegexFromStringOrRegex_def RKRegexFromStringOrRegexWithError_def)
  show "fst (regexWithRegexString_library F L locked cache (Some str) True options) =
      Ok (case c of Valid r \<Rightarrow> (Some r, None) | Invalid e \<Rightarrow> (None, Some e))"
    using built call assms(3)
    by (simp add: regexWithRegexString_library_def RKRegexFromStringOrRegexWithError_def compiles_to_def)
  obtain result2 cache2 where call2: "regexWithRegexString F L locked cache (Some str) options = (result2, cache2)" by force
  then show "fst (isValidRegexString F L locked cache (Some str) options) = Ok (\<exists>r. c = Valid r)"
    using first by (cases c) (simp_all add: isValidRegexString_def)
qed

lemma captures_counted:
  assumes "build_regex F L (Some str) True options = Ok (Some r, None)"
  shows "\<exists>h n. compiledPCRE r = h \<and> info_capturecount L h = Some n \<and> captureCount_contract (unat n) r"
proof -
  have one: "unat (ucast (n :: u32) + 1 :: u64) = unat n + 1" for n
  proof -
    have "unat n < 2 ^ 32" using unsigned_less [of n] by simp
    then have "unat (ucast n :: u64) = unat n" by (simp add: unsigned_ucast_eq take_bit_nat_eq_self)
    then show ?thesis using \<open>unat n < 2 ^ 32\<close> by (simp add: unat_plus_small)
  qed
  obtain b where b: "string_buffer F str = Ok b"
    using assms by (cases "string_buffer F str") (auto simp: build_regex_def)
  obtain handle code offset where "pcre_compile2 L (buffer_characters b) options = (handle, code, offset)"
    by (cases "pcre_compile2 L (buffer_characters b) options") auto
  then obtain enc h where c: "compiled_regex F L enc h str options = Ok (Some r)"
    using assms b by (auto simp: build_regex_def run_simps split: if_splits option.splits)
  then obtain n where "info_capturecount L h = Some n" "compiledPCRE r = h" "captureCount r = ucast n + 1"
    by (auto simp: compiled_regex_def load_names_def Let_def run_simps split: if_splits option.splits)
  then show ?thesis using one [of n] by (auto simp: captureCount_contract_def)
qed

lemma regexCache_balanced:
  "regexCache_contract cache (fst (regexCache (plain_macros junk) cache st)) st (snd (regexCache (plain_macros junk) cache st))"
proof -
  have "counts (drain_pool (autorelease cache (retain cache st))) y = counts (drain_pool st) y" for y
    by (simp add: drain_pool_def autorelease_def count_foldr_release release_def retain_def)
  then show ?thesis by (simp add: regexCache_contract_def regexCache_def plain_macros_def fun_eq_iff)
qed


section \<open>Witnesses\<close>

definition sample_version :: string where
  "sample_version = ''7'' @ CHR ''.'' # ''6'' @ '' 2008-01-28''"

lemma library_information_documented_witness:
  "case load_versions (sample_version @ replicate 30 (CHR 0x00))
      (3, [0, length ''7'' + 1 + length ''6'', 0, length ''7'', length ''7'' + 1, length ''7'' + 1 + length ''6'']) of
     Ok (major, minor) \<Rightarrow> PCREMajorVersion_contract sample_version major \<and> PCREMinorVersion_contract sample_version minor
   | _ \<Rightarrow> False"
proof -
  have d: "list_all is_digit ''7''" "list_all is_digit ''6''" "length ''7'' \<le> 64" "length ''6'' \<le> 64" "'' 2008-01-28'' \<noteq> []"
      "\<not> is_digit (hd '' 2008-01-28'')"
    by (simp_all add: is_digit_def)
  have n: "length sample_version = 14" by (simp add: sample_version_def)
  have l: "length ''7'' + 33 \<le> length (sample_version @ replicate 30 (CHR 0x00))"
      "length ''7'' + 1 + length ''6'' \<le> length ''7'' + 33"
      "max (length ''7'') 32 \<le> length (sample_version @ replicate 30 (CHR 0x00))"
    by (simp_all add: n)
  show ?thesis
    by (rule conjunct1 [OF library_information_documented [OF d l(1) sample_version_def l(2,3)]])
qed


end
