(* ===== verification/RK_StringMethods.thy ===== *)
theory RK_StringMethods
  imports RK_MatchContract
begin

text \<open>
  The matching methods that \<open>NSString.m\<close> and \<open>NSObject.m\<close> add to strings and objects. They run the
  methods of \<open>RKRegex\<close> on the UTF-8 buffer of the string and translate ranges from UTF-16 to UTF-8
  on the way in and back on the way out. What \<open>NSString.h\<close> documents is stated over the characters of
  the text: a capture is a pair of character positions, and its range is the UTF-16 range of those characters.
\<close>

section \<open>The methods\<close>

text \<open>
  The compile options of every method here. \<open>regex\<close> is what \<open>RKRegexFromStringOrRegex\<close> answers for the
  argument \<open>aRegex\<close> with them; it is used after the buffer has been made.
\<close>

definition RKPCREDefaultOptions :: u32 where
  "RKPCREDefaultOptions = RKCompileUTF8 OR RKCompileNoUTF8Check"

definition string_regex ::
  "foundation \<Rightarrow> pcre_library \<Rightarrow> bool \<Rightarrow> RKRegex RKCache \<Rightarrow> regex_argument \<Rightarrow> RKRegex run \<times> RKRegex RKCache" where
  "string_regex F L locked cache aRegex = RKRegexFromStringOrRegex F L locked cache aRegex RKPCREDefaultOptions"

primrec run_all :: "('a \<Rightarrow> 'b run) \<Rightarrow> 'a list \<Rightarrow> 'b list run" where
  "run_all f [] = Ok []"
| "run_all f (x # xs) = run_bind (f x) (\<lambda>y. run_bind (run_all f xs) (\<lambda>ys. Ok (y # ys)))"

lemma run_all_Ok: "(\<And>x. x \<in> set xs \<Longrightarrow> f x = Ok (g x)) \<Longrightarrow> run_all f xs = Ok (map g xs)"
  by (induction xs) simp_all

text \<open>The loop that converts the first \<open>captureCount\<close> ranges in place.\<close>

definition convert_matched :: "ns_string \<Rightarrow> ns_range list option \<Rightarrow> ns_range list option run" where
  "convert_matched self matchRanges =
     (case matchRanges of None \<Rightarrow> Ok None
      | Some ranges \<Rightarrow> run_map Some (run_all (RKConvertUTF8ToUTF16RangeForString (Some self)) ranges))"

definition rangesOfRegex :: "pcre_exec \<Rightarrow> (nat \<Rightarrow> u32) \<Rightarrow> RKRegex run \<Rightarrow> ns_string \<Rightarrow> ns_range list option run" where
  "rangesOfRegex exec junk regex self =
     run_bind (RKStringBufferWithString self) (\<lambda>b. run_bind regex (\<lambda>r.
     run_bind (rangesForCharacters exec junk r (Some (buffer_characters b)) (buffer_length b)
       (NSMakeRange 0 (buffer_length b)) RKMatchNoUTF8Check) (convert_matched self)))"

definition rangesOfRegex_inRange ::
  "pcre_exec \<Rightarrow> (nat \<Rightarrow> u32) \<Rightarrow> RKRegex run \<Rightarrow> ns_string \<Rightarrow> ns_range \<Rightarrow> ns_range list option run" where
  "rangesOfRegex_inRange exec junk regex self aRange =
     run_bind (RKStringBufferWithString self) (\<lambda>b. run_bind regex (\<lambda>r.
     run_bind (RKConvertUTF16ToUTF8RangeForString (Some self) aRange) (\<lambda>utf8Range.
     run_bind (rangesForCharacters exec junk r (Some (buffer_characters b)) (buffer_length b)
       utf8Range RKMatchNoUTF8Check) (convert_matched self))))"

definition rangesOfRegex_error ::
  "pcre_exec \<Rightarrow> (nat \<Rightarrow> u32) \<Rightarrow> RKRegex run \<Rightarrow> ns_string \<Rightarrow> (ns_range list option \<times> ns_error option) run" where
  "rangesOfRegex_error exec junk regex self =
     run_bind (RKStringBufferWithString self) (\<lambda>b. run_bind regex (\<lambda>r.
     run_bind (rangesForCharacters_error exec junk r (Some (buffer_characters b)) (buffer_length b)
       (NSMakeRange 0 (buffer_length b)) RKMatchNoUTF8Check) (\<lambda>(ranges, err).
     run_map (\<lambda>converted. (converted, err)) (convert_matched self ranges))))"

definition rangesOfRegex_inRange_error ::
  "pcre_exec \<Rightarrow> (nat \<Rightarrow> u32) \<Rightarrow> RKRegex run \<Rightarrow> ns_string \<Rightarrow> ns_range \<Rightarrow> (ns_range list option \<times> ns_error option) run" where
  "rangesOfRegex_inRange_error exec junk regex self aRange =
     run_bind (RKStringBufferWithString self) (\<lambda>b. run_bind regex (\<lambda>r.
     run_bind (RKConvertUTF16ToUTF8RangeForString (Some self) aRange) (\<lambda>utf8Range.
     run_bind (rangesForCharacters_error exec junk r (Some (buffer_characters b)) (buffer_length b)
       utf8Range RKMatchNoUTF8Check) (\<lambda>(ranges, err).
     run_map (\<lambda>converted. (converted, err)) (convert_matched self ranges)))))"

definition rangeOfRegex :: "pcre_exec \<Rightarrow> (nat \<Rightarrow> u32) \<Rightarrow> RKRegex run \<Rightarrow> ns_string \<Rightarrow> ns_range run" where
  "rangeOfRegex exec junk regex self =
     run_bind (RKStringBufferWithString self) (\<lambda>b. run_bind regex (\<lambda>r.
     run_bind (rangeForCharacters exec junk r (Some (buffer_characters b)) (buffer_length b)
       (NSMakeRange 0 (buffer_length b)) 0 RKMatchNoUTF8Check) (RKConvertUTF8ToUTF16RangeForString (Some self))))"

definition rangeOfRegex_inRange_capture ::
  "pcre_exec \<Rightarrow> (nat \<Rightarrow> u32) \<Rightarrow> RKRegex run \<Rightarrow> ns_string \<Rightarrow> ns_range \<Rightarrow> u64 \<Rightarrow> ns_range run" where
  "rangeOfRegex_inRange_capture exec junk regex self aRange capture =
     run_bind (RKStringBufferWithString self) (\<lambda>b. run_bind regex (\<lambda>r.
     run_bind (RKConvertUTF16ToUTF8RangeForString (Some self) aRange) (\<lambda>utf8Range.
     run_bind (rangeForCharacters exec junk r (Some (buffer_characters b)) (buffer_length b)
       utf8Range capture RKMatchNoUTF8Check) (RKConvertUTF8ToUTF16RangeForString (Some self)))))"

definition rangeOfRegex_error ::
  "pcre_exec \<Rightarrow> (nat \<Rightarrow> u32) \<Rightarrow> RKRegex run \<Rightarrow> ns_string \<Rightarrow> (ns_range \<times> ns_error option) run" where
  "rangeOfRegex_error exec junk regex self =
     run_bind (RKStringBufferWithString self) (\<lambda>b. run_bind regex (\<lambda>r.
     run_bind (rangeForCharacters_error exec junk r (Some (buffer_characters b)) (buffer_length b)
       (NSMakeRange 0 (buffer_length b)) 0 RKMatchNoUTF8Check) (\<lambda>(matched, err).
     run_map (\<lambda>converted. (converted, err)) (RKConvertUTF8ToUTF16RangeForString (Some self) matched))))"

definition rangeOfRegex_inRange_capture_error ::
  "pcre_exec \<Rightarrow> (nat \<Rightarrow> u32) \<Rightarrow> RKRegex run \<Rightarrow> ns_string \<Rightarrow> ns_range \<Rightarrow> u64 \<Rightarrow> (ns_range \<times> ns_error option) run" where
  "rangeOfRegex_inRange_capture_error exec junk regex self aRange capture =
     run_bind (RKStringBufferWithString self) (\<lambda>b. run_bind regex (\<lambda>r.
     run_bind (RKConvertUTF16ToUTF8RangeForString (Some self) aRange) (\<lambda>utf8Range.
     run_bind (rangeForCharacters_error exec junk r (Some (buffer_characters b)) (buffer_length b)
       utf8Range capture RKMatchNoUTF8Check) (\<lambda>(matched, err).
     run_map (\<lambda>converted. (converted, err)) (RKConvertUTF8ToUTF16RangeForString (Some self) matched)))))"

definition isMatchedByRegex :: "pcre_exec \<Rightarrow> (nat \<Rightarrow> u32) \<Rightarrow> RKRegex run \<Rightarrow> ns_string \<Rightarrow> bool run" where
  "isMatchedByRegex exec junk regex self =
     run_bind (RKStringBufferWithString self) (\<lambda>b. run_bind regex (\<lambda>r.
     matchesCharacters exec junk r (Some (buffer_characters b)) (buffer_length b)
       (NSMakeRange 0 (buffer_length b)) RKMatchNoUTF8Check))"

definition isMatchedByRegex_inRange ::
  "pcre_exec \<Rightarrow> (nat \<Rightarrow> u32) \<Rightarrow> RKRegex run \<Rightarrow> ns_string \<Rightarrow> ns_range \<Rightarrow> bool run" where
  "isMatchedByRegex_inRange exec junk regex self aRange =
     run_bind (RKStringBufferWithString self) (\<lambda>b. run_bind regex (\<lambda>r.
     run_bind (RKConvertUTF16ToUTF8RangeForString (Some self) aRange) (\<lambda>utf8Range.
     matchesCharacters exec junk r (Some (buffer_characters b)) (buffer_length b) utf8Range RKMatchNoUTF8Check)))"

definition isMatchedByRegex_error ::
  "pcre_exec \<Rightarrow> (nat \<Rightarrow> u32) \<Rightarrow> RKRegex run \<Rightarrow> ns_string \<Rightarrow> (bool \<times> ns_error option) run" where
  "isMatchedByRegex_error exec junk regex self =
     run_bind (RKStringBufferWithString self) (\<lambda>b. run_bind regex (\<lambda>r.
     matchesCharacters_error exec junk r (Some (buffer_characters b)) (buffer_length b)
       (NSMakeRange 0 (buffer_length b)) RKMatchNoUTF8Check))"

definition isMatchedByRegex_inRange_error ::
  "pcre_exec \<Rightarrow> (nat \<Rightarrow> u32) \<Rightarrow> RKRegex run \<Rightarrow> ns_string \<Rightarrow> ns_range \<Rightarrow> (bool \<times> ns_error option) run" where
  "isMatchedByRegex_inRange_error exec junk regex self aRange =
     run_bind (RKStringBufferWithString self) (\<lambda>b. run_bind regex (\<lambda>r.
     run_bind (RKConvertUTF16ToUTF8RangeForString (Some self) aRange) (\<lambda>utf8Range.
     matchesCharacters_error exec junk r (Some (buffer_characters b)) (buffer_length b) utf8Range RKMatchNoUTF8Check)))"

text \<open>\<open>NSObject\<close>: an object is matched through its \<open>description\<close>.\<close>

definition object_isMatchedByRegex ::
  "pcre_exec \<Rightarrow> (nat \<Rightarrow> u32) \<Rightarrow> RKRegex run \<Rightarrow> ('obj \<Rightarrow> ns_string) \<Rightarrow> 'obj \<Rightarrow> bool run" where
  "object_isMatchedByRegex exec junk regex description self = isMatchedByRegex exec junk regex (description self)"

section \<open>Documented behaviour\<close>

text \<open>
  The first match in the characters of a text: the number of captures PCRE reports, and for every capture
  the positions of its first character and of the character after its last, or \<open>None\<close> if it did not take part.
\<close>

type_synonym text_match = "(int \<times> (nat \<times> nat) option list) option"

definition capture_range8 :: "nat list \<Rightarrow> (nat \<times> nat) option \<Rightarrow> ns_range" where
  "capture_range8 cps c = (case c of None \<Rightarrow> range_not_found | Some (i, j) \<Rightarrow> range8 cps i j)"

definition capture_range16 :: "nat list \<Rightarrow> (nat \<times> nat) option \<Rightarrow> ns_range" where
  "capture_range16 cps c = (case c of None \<Rightarrow> range_not_found | Some (i, j) \<Rightarrow> range16 cps i j)"

definition RKConvertUTF8ToUTF16_contract :: "nat list \<Rightarrow> nat \<Rightarrow> nat \<Rightarrow> ns_range run \<Rightarrow> bool" where
  "RKConvertUTF8ToUTF16_contract cps i j result \<longleftrightarrow> result = Ok (range16 cps i j)"

definition RKConvertUTF16ToUTF8_contract :: "nat list \<Rightarrow> nat \<Rightarrow> nat \<Rightarrow> ns_range run \<Rightarrow> bool" where
  "RKConvertUTF16ToUTF8_contract cps i j result \<longleftrightarrow> result = Ok (range8 cps i j)"

text \<open>
  Each method has a form with an \<open>error:\<close> argument that answers the same; the contract is about both, \<open>m\<close>
  being the first match in the receiver, or in the part of it that the range gives.
\<close>

definition rangesOfRegex_contract ::
  "nat list \<Rightarrow> text_match \<Rightarrow> ns_range list option run \<Rightarrow> (ns_range list option \<times> ns_error option) run \<Rightarrow> bool" where
  "rangesOfRegex_contract cps m result result_error \<longleftrightarrow>
     result = Ok (map_option (\<lambda>(n, captures). map (capture_range16 cps) captures) m) \<and>
     run_map fst result_error = result"

definition rangesOfRegex_inRange_contract ::
  "nat list \<Rightarrow> text_match \<Rightarrow> ns_range list option run \<Rightarrow> (ns_range list option \<times> ns_error option) run \<Rightarrow> bool" where
  "rangesOfRegex_inRange_contract cps m result result_error \<longleftrightarrow>
     result = Ok (map_option (\<lambda>(n, captures). map (capture_range16 cps) captures) m) \<and>
     run_map fst result_error = result"

definition rangeOfRegex_contract ::
  "nat list \<Rightarrow> text_match \<Rightarrow> ns_range run \<Rightarrow> (ns_range \<times> ns_error option) run \<Rightarrow> bool" where
  "rangeOfRegex_contract cps m result result_error \<longleftrightarrow>
     result = Ok (case m of None \<Rightarrow> NSMakeRange NSNotFound 0 | Some (n, captures) \<Rightarrow> capture_range16 cps (captures ! 0)) \<and>
     run_map fst result_error = result"

definition rangeOfRegex_inRange_capture_contract ::
  "nat list \<Rightarrow> text_match \<Rightarrow> u64 \<Rightarrow> ns_range run \<Rightarrow> (ns_range \<times> ns_error option) run \<Rightarrow> bool" where
  "rangeOfRegex_inRange_capture_contract cps m capture result result_error \<longleftrightarrow>
     result = Ok (case m of None \<Rightarrow> NSMakeRange NSNotFound 0
                  | Some (n, captures) \<Rightarrow> capture_range16 cps (captures ! unat capture)) \<and>
     run_map fst result_error = result"

definition isMatchedByRegex_contract :: "text_match \<Rightarrow> bool run \<Rightarrow> (bool \<times> ns_error option) run \<Rightarrow> bool" where
  "isMatchedByRegex_contract m result result_error \<longleftrightarrow> result = Ok (m \<noteq> None) \<and> run_map fst result_error = result"

definition isMatchedByRegex_inRange_contract :: "text_match \<Rightarrow> bool run \<Rightarrow> (bool \<times> ns_error option) run \<Rightarrow> bool" where
  "isMatchedByRegex_inRange_contract m result result_error \<longleftrightarrow>
     result = Ok (m \<noteq> None) \<and> run_map fst result_error = result"

definition object_isMatchedByRegex_contract :: "text_match \<Rightarrow> bool run \<Rightarrow> bool" where
  "object_isMatchedByRegex_contract m result \<longleftrightarrow> result = Ok (m \<noteq> None)"

section \<open>The text of a string\<close>

text \<open>
  A buffer in which a byte is a UTF-16 unit, and a string that PCRE can search: its buffer holds the
  text, and is no longer than PCRE's \<open>int\<close>.
\<close>

definition holds_ascii :: "RKStringBuffer \<Rightarrow> nat list \<Rightarrow> bool" where
  "holds_ascii b cps \<longleftrightarrow>
     list_all (\<lambda>c. c < 128) cps \<and> utf8_width cps < 2 ^ 32 \<and> buffer_characters b = utf8_of cps \<and>
     buffer_length b = of_nat (utf8_width cps) \<and> buffer_string_length b = of_nat (utf16_width cps) \<and>
     byte_is_unit (buffer_encoding b)"

definition string_text :: "ns_string \<Rightarrow> nat list \<Rightarrow> bool" where
  "string_text self cps \<longleftrightarrow> utf8_width cps \<le> 2147483647 \<and>
     (case RKStringBufferWithString self of Ok b \<Rightarrow> holds_text b cps \<or> holds_ascii b cps | _ \<Rightarrow> False)"

lemma ascii_widths: "list_all (\<lambda>c. c < 128) cps \<Longrightarrow> w8 cps i = w16 cps i"
  by (induction cps arbitrary: i)
    (simp_all add: w8_def w16_def take_Cons' utf8_width_def utf16_width_def utf8_of_def utf8_encode_def utf16_units_def)

lemma ascii_ranges: "list_all (\<lambda>c. c < 128) cps \<Longrightarrow> range16 cps i j = range8 cps i j"
  by (simp add: range8_def range16_def ascii_widths)

lemma ascii_range_converts:
  assumes "holds_ascii b cps" "i \<le> j" "j \<le> length cps"
  shows "RKConvertUTF8ToUTF16RangeForStringBuffer (Some b) (range8 cps i j) = Ok (range16 cps i j)"
    and "RKConvertUTF16ToUTF8RangeForStringBuffer (Some b) (range16 cps i j) = Ok (range8 cps i j)"
proof -
  have v: "list_all valid_code_point cps" "utf8_width cps < 2 ^ 32"
    and b: "buffer_length b = of_nat (utf8_width cps)" "buffer_string_length b = of_nat (utf16_width cps)"
      "byte_is_unit (buffer_encoding b)" "list_all (\<lambda>c. c < 128) cps"
    using assms(1) by (auto simp: holds_ascii_def list_all_iff valid_code_point_def)
  have widths: "utf16_width cps = utf8_width cps"
    using ascii_widths [OF b(4), of "length cps"] by (simp add: w8_full)
  have guards: "range_location (range8 cps i j) \<noteq> NSNotFound"
      "\<not> range_location (range8 cps i j) > of_nat (utf8_width cps)"
      "\<not> NSMaxRange (range8 cps i j) > of_nat (utf8_width cps)"
    using assms(2,3) v(2) w8_le [of _ "length cps" cps]
    by (simp_all add: range_max range_loc of_nat32_not_NSNotFound w8_bound of_nat64_less_iff w8_full not_less)
  show "RKConvertUTF8ToUTF16RangeForStringBuffer (Some b) (range8 cps i j) = Ok (range16 cps i j)"
    "RKConvertUTF16ToUTF8RangeForStringBuffer (Some b) (range16 cps i j) = Ok (range8 cps i j)"
    using guards by (simp_all add: RKConvertUTF8ToUTF16RangeForStringBuffer_def
        RKConvertUTF16ToUTF8RangeForStringBuffer_def b widths ascii_ranges)
qed

lemma string_ranges_convert:
  assumes "string_text self cps" "i \<le> j" "j \<le> length cps"
  shows "RKConvertUTF8ToUTF16RangeForString (Some self) (range8 cps i j) = Ok (range16 cps i j)"
    and "RKConvertUTF16ToUTF8RangeForString (Some self) (range16 cps i j) = Ok (range8 cps i j)"
  using assms utf8_range_converts [of _ cps i j] utf16_range_converts [of _ cps i j]
    ascii_range_converts [of _ cps i j]
  by (auto simp: string_text_def RKConvertUTF8ToUTF16RangeForString_def RKConvertUTF16ToUTF8RangeForString_def
      split: run.splits)

lemma string_text_buffer:
  assumes "string_text self cps"
  obtains b where "RKStringBufferWithString self = Ok b" "buffer_characters b = utf8_of cps"
    "buffer_length b = of_nat (utf8_width cps)" "utf8_width cps \<le> 2147483647"
  using assms by (auto simp: string_text_def holds_text_def holds_ascii_def split: run.splits)

lemma not_found_converts:
  "string_text self cps \<Longrightarrow> RKConvertUTF8ToUTF16RangeForString (Some self) range_not_found = Ok range_not_found"
  by (auto simp: string_text_def RKConvertUTF8ToUTF16RangeForString_def range_not_found_def
      RKConvertUTF8ToUTF16RangeForStringBuffer_def split: run.splits)

lemma w8_zero_full: "w8 cps 0 = 0" "w8 cps (length cps) = utf8_width cps"
  by (simp_all add: w8_full)

lemma full_range: "NSMakeRange 0 (of_nat (utf8_width cps)) = range8 cps 0 (length cps)"
  by (simp add: range8_def w8_zero_full)

lemma text_range_valid:
  assumes "utf8_width cps \<le> 2147483647" "i \<le> j" "j \<le> length cps"
  shows "search_valid (of_nat (utf8_width cps)) (range8 cps i j)"
proof -
  have le: "w8 cps i \<le> w8 cps j" "w8 cps j \<le> utf8_width cps"
    using assms w8_le [of i j cps] w8_le [of j "length cps" cps] by (simp_all add: w8_zero_full)
  then show ?thesis
    using assms
    by (simp add: search_valid_def range_end_def range8_def unat_of_nat_small of_nat_minus64 del: of_nat_diff)
qed

section \<open>The methods match texts\<close>

text \<open>The library reports, for a search in some characters of the text, a match in characters.\<close>

definition capture_ok :: "nat list \<Rightarrow> (nat \<times> nat) option \<Rightarrow> bool" where
  "capture_ok cps c \<longleftrightarrow> (case c of None \<Rightarrow> True | Some (i, j) \<Rightarrow> i \<le> j \<and> j \<le> length cps)"

definition reports_text :: "pcre_exec \<Rightarrow> RKRegex \<Rightarrow> nat list \<Rightarrow> nat \<Rightarrow> nat \<Rightarrow> text_match \<Rightarrow> bool" where
  "reports_text exec regex cps i j m \<longleftrightarrow>
     library_match exec regex (utf8_of cps) (of_nat (utf8_width cps)) (range8 cps i j) RKMatchNoUTF8Check =
       map_option (\<lambda>(n, captures). (n, map (capture_range8 cps) captures)) m \<and>
     (case m of None \<Rightarrow> True | Some (n, captures) \<Rightarrow> list_all (capture_ok cps) captures)"

lemma capture_converts:
  assumes "string_text self cps" "capture_ok cps c"
  shows "RKConvertUTF8ToUTF16RangeForString (Some self) (capture_range8 cps c) = Ok (capture_range16 cps c)"
  using assms not_found_converts [OF assms(1)] string_ranges_convert(1) [OF assms(1)]
  by (auto simp: capture_ok_def capture_range8_def capture_range16_def split: option.splits)

lemma raise_unless_pcre_Ok: "raise_unless_pcre e x = Ok y \<Longrightarrow> y = x"
  by (auto simp: raise_unless_pcre_def split: option.splits if_splits)

lemma error_methods_agree:
  "rangeForCharacters exec junk r chars len s c opts = Ok x \<Longrightarrow>
     \<exists>err. rangeForCharacters_error exec junk r chars len s c opts = Ok (x, err)"
  "rangesForCharacters exec junk r chars len s opts = Ok xs \<Longrightarrow>
     \<exists>err. rangesForCharacters_error exec junk r chars len s opts = Ok (xs, err)"
  "matchesCharacters exec junk r chars len s opts = Ok b \<Longrightarrow>
     \<exists>err. matchesCharacters_error exec junk r chars len s opts = Ok (b, err)"
  by (auto simp: rangeForCharacters_def rangesForCharacters_def matchesCharacters_def matchesCharacters_error_def
      run_simps dest: raise_unless_pcre_Ok split: prod.splits)

text \<open>The methods of \<open>RKRegex\<close> on the characters \<open>i\<close> up to \<open>j\<close> of a text.\<close>

lemma text_search:
  assumes held: "utf8_width cps \<le> 2147483647"
    and regex: "pcre_exec_documented exec regex" "unat (captureCount regex) \<le> 170" "0 < captureCount regex"
    and ij: "i \<le> j" "j \<le> length cps" and m: "reports_text exec regex cps i j m"
  shows "matchesCharacters exec junk regex (Some (utf8_of cps)) (of_nat (utf8_width cps)) (range8 cps i j)
      RKMatchNoUTF8Check = Ok (m \<noteq> None)"
    and "capture < captureCount regex \<Longrightarrow>
      rangeForCharacters exec junk regex (Some (utf8_of cps)) (of_nat (utf8_width cps)) (range8 cps i j) capture
        RKMatchNoUTF8Check =
      Ok (case m of None \<Rightarrow> range_not_found | Some (n, captures) \<Rightarrow> capture_range8 cps (captures ! unat capture))"
    and "rangesForCharacters exec junk regex (Some (utf8_of cps)) (of_nat (utf8_width cps)) (range8 cps i j)
        RKMatchNoUTF8Check =
      Ok (map_option (\<lambda>(n, captures). map (capture_range8 cps) captures) m)"
    and "m = Some (n, captures) \<Longrightarrow> length captures = unat (captureCount regex)"
proof -
  note valid = text_range_valid [OF held ij]
  note contracts = public_methods_match [OF regex refl, where chars = "Some (utf8_of cps)" and
      len = "of_nat (utf8_width cps)" and r = "range8 cps i j" and options = RKMatchNoUTF8Check and junk = junk]
  have lib: "library_match exec regex (utf8_of cps) (of_nat (utf8_width cps)) (range8 cps i j) RKMatchNoUTF8Check =
      map_option (\<lambda>(n, captures). (n, map (capture_range8 cps) captures)) m"
    using m by (simp add: reports_text_def)
  show len: "length captures = unat (captureCount regex)" if "m = Some (n, captures)" for n captures
    using library_match_length [of exec regex "utf8_of cps" "of_nat (utf8_width cps)" "range8 cps i j" RKMatchNoUTF8Check]
      lib that by simp
  show "matchesCharacters exec junk regex (Some (utf8_of cps)) (of_nat (utf8_width cps)) (range8 cps i j)
      RKMatchNoUTF8Check = Ok (m \<noteq> None)"
    using contracts(1) valid by (simp add: matchesCharacters_contract_def lib)
  show "rangeForCharacters exec junk regex (Some (utf8_of cps)) (of_nat (utf8_width cps)) (range8 cps i j) capture
        RKMatchNoUTF8Check =
      Ok (case m of None \<Rightarrow> range_not_found | Some (n, captures) \<Rightarrow> capture_range8 cps (captures ! unat capture))"
    if "capture < captureCount regex" for capture
    using contracts(2) [of capture] valid that
    by (auto simp: rangeForCharacters_contract_def lib len word_less_nat_alt range_not_found_def not_le split: option.splits)
  show "rangesForCharacters exec junk regex (Some (utf8_of cps)) (of_nat (utf8_width cps)) (range8 cps i j)
        RKMatchNoUTF8Check =
      Ok (map_option (\<lambda>(n, captures). map (capture_range8 cps) captures) m)"
    using contracts(3) valid
    by (auto simp: rangesForCharacters_contract_def lib option.map_comp comp_def case_prod_unfold)
qed

text \<open>What both forms of a method have in common.\<close>

lemma convert_matched_text:
  assumes "string_text self cps" "case m of None \<Rightarrow> True | Some (n, captures) \<Rightarrow> list_all (capture_ok cps) captures"
  shows "convert_matched self (map_option (\<lambda>(n, captures). map (capture_range8 cps) captures) m) =
    Ok (map_option (\<lambda>(n, captures). map (capture_range16 cps) captures) m)"
proof (cases m)
  case (Some a)
  obtain n captures where a: "a = (n, captures)" by (cases a)
  have "run_all (RKConvertUTF8ToUTF16RangeForString (Some self)) (map (capture_range8 cps) captures) =
      Ok (map (capture_range16 cps) captures)"
    using assms(2) capture_converts [OF assms(1)] unfolding Some a
    by (induction captures) simp_all
  then show ?thesis by (simp add: convert_matched_def Some a)
qed (simp add: convert_matched_def)

lemma matched_capture_text:
  assumes "string_text self cps" "case m of None \<Rightarrow> True | Some (n, captures) \<Rightarrow> list_all (capture_ok cps) captures"
    and "\<And>n captures. m = Some (n, captures) \<Longrightarrow> k < length captures"
  shows "RKConvertUTF8ToUTF16RangeForString (Some self)
      (case m of None \<Rightarrow> range_not_found | Some (n, captures) \<Rightarrow> capture_range8 cps (captures ! k)) =
    Ok (case m of None \<Rightarrow> NSMakeRange NSNotFound 0 | Some (n, captures) \<Rightarrow> capture_range16 cps (captures ! k))"
  using assms capture_converts [OF assms(1)] not_found_converts [OF assms(1)]
  by (auto simp: range_not_found_def list_all_length split: option.splits)

lemma methods_match_text:
  assumes held: "string_text self cps"
    and regex: "pcre_exec_documented exec regex" "unat (captureCount regex) \<le> 170" "0 < captureCount regex"
    and ij: "i \<le> j" "j \<le> length cps" and m: "reports_text exec regex cps i j m"
  shows "rangesOfRegex_inRange_contract cps m (rangesOfRegex_inRange exec junk (Ok regex) self (range16 cps i j))
      (rangesOfRegex_inRange_error exec junk (Ok regex) self (range16 cps i j))"
    and "capture < captureCount regex \<Longrightarrow> rangeOfRegex_inRange_capture_contract cps m capture
      (rangeOfRegex_inRange_capture exec junk (Ok regex) self (range16 cps i j) capture)
      (rangeOfRegex_inRange_capture_error exec junk (Ok regex) self (range16 cps i j) capture)"
    and "isMatchedByRegex_inRange_contract m (isMatchedByRegex_inRange exec junk (Ok regex) self (range16 cps i j))
      (isMatchedByRegex_inRange_error exec junk (Ok regex) self (range16 cps i j))"
    and "i = 0 \<Longrightarrow> j = length cps \<Longrightarrow>
      rangesOfRegex exec junk (Ok regex) self = rangesOfRegex_inRange exec junk (Ok regex) self (range16 cps i j) \<and>
      rangesOfRegex_error exec junk (Ok regex) self = rangesOfRegex_inRange_error exec junk (Ok regex) self (range16 cps i j) \<and>
      rangeOfRegex exec junk (Ok regex) self = rangeOfRegex_inRange_capture exec junk (Ok regex) self (range16 cps i j) 0 \<and>
      rangeOfRegex_error exec junk (Ok regex) self =
        rangeOfRegex_inRange_capture_error exec junk (Ok regex) self (range16 cps i j) 0 \<and>
      isMatchedByRegex exec junk (Ok regex) self = isMatchedByRegex_inRange exec junk (Ok regex) self (range16 cps i j) \<and>
      isMatchedByRegex_error exec junk (Ok regex) self =
        isMatchedByRegex_inRange_error exec junk (Ok regex) self (range16 cps i j)"
proof -
  obtain b where b: "RKStringBufferWithString self = Ok b" "buffer_characters b = utf8_of cps"
    "buffer_length b = of_nat (utf8_width cps)" and len: "utf8_width cps \<le> 2147483647"
    by (rule string_text_buffer [OF held])
  note search = text_search(1-3) [OF len regex ij m, where junk = junk]
  note captures_length = text_search(4) [OF len regex ij m]
  note range_in = string_ranges_convert(2) [OF held ij]
  have captures: "case m of None \<Rightarrow> True | Some (n, captures) \<Rightarrow> list_all (capture_ok cps) captures"
    using m by (simp add: reports_text_def)
  note out = convert_matched_text [OF held captures]
  note calls = b range_in search(1,3) out
  show "rangesOfRegex_inRange_contract cps m (rangesOfRegex_inRange exec junk (Ok regex) self (range16 cps i j))
      (rangesOfRegex_inRange_error exec junk (Ok regex) self (range16 cps i j))"
    using error_methods_agree(2) [OF search(3)]
    by (auto simp: rangesOfRegex_inRange_contract_def rangesOfRegex_inRange_def rangesOfRegex_inRange_error_def calls)
  show "isMatchedByRegex_inRange_contract m (isMatchedByRegex_inRange exec junk (Ok regex) self (range16 cps i j))
      (isMatchedByRegex_inRange_error exec junk (Ok regex) self (range16 cps i j))"
    using error_methods_agree(3) [OF search(1)]
    by (auto simp: isMatchedByRegex_inRange_contract_def isMatchedByRegex_inRange_def isMatchedByRegex_inRange_error_def calls)
  show "rangeOfRegex_inRange_capture_contract cps m capture
      (rangeOfRegex_inRange_capture exec junk (Ok regex) self (range16 cps i j) capture)
      (rangeOfRegex_inRange_capture_error exec junk (Ok regex) self (range16 cps i j) capture)"
    if c: "capture < captureCount regex" for capture
  proof -
    have "k < length captures" if "m = Some (n, captures)" "k = unat capture" for n captures k
      using that captures_length c by (simp add: word_less_nat_alt)
    then have "RKConvertUTF8ToUTF16RangeForString (Some self)
        (case m of None \<Rightarrow> range_not_found | Some (n, captures) \<Rightarrow> capture_range8 cps (captures ! unat capture)) =
      Ok (case m of None \<Rightarrow> NSMakeRange NSNotFound 0 | Some (n, captures) \<Rightarrow> capture_range16 cps (captures ! unat capture))"
      by (intro matched_capture_text [OF held captures]) blast
    then show ?thesis
      using error_methods_agree(1) [OF search(2) [OF c]] search(2) [OF c]
      by (auto simp: rangeOfRegex_inRange_capture_contract_def rangeOfRegex_inRange_capture_def
          rangeOfRegex_inRange_capture_error_def b range_in)
  qed
  show "i = 0 \<Longrightarrow> j = length cps \<Longrightarrow>
      rangesOfRegex exec junk (Ok regex) self = rangesOfRegex_inRange exec junk (Ok regex) self (range16 cps i j) \<and>
      rangesOfRegex_error exec junk (Ok regex) self = rangesOfRegex_inRange_error exec junk (Ok regex) self (range16 cps i j) \<and>
      rangeOfRegex exec junk (Ok regex) self = rangeOfRegex_inRange_capture exec junk (Ok regex) self (range16 cps i j) 0 \<and>
      rangeOfRegex_error exec junk (Ok regex) self =
        rangeOfRegex_inRange_capture_error exec junk (Ok regex) self (range16 cps i j) 0 \<and>
      isMatchedByRegex exec junk (Ok regex) self = isMatchedByRegex_inRange exec junk (Ok regex) self (range16 cps i j) \<and>
      isMatchedByRegex_error exec junk (Ok regex) self =
        isMatchedByRegex_inRange_error exec junk (Ok regex) self (range16 cps i j)"
    using range_in
    by (simp add: rangesOfRegex_def rangesOfRegex_inRange_def rangesOfRegex_error_def rangesOfRegex_inRange_error_def
        rangeOfRegex_def rangeOfRegex_inRange_capture_def rangeOfRegex_error_def rangeOfRegex_inRange_capture_error_def
        isMatchedByRegex_def isMatchedByRegex_inRange_def isMatchedByRegex_error_def isMatchedByRegex_inRange_error_def
        b full_range)
qed

text \<open>
  C23. The string methods and the two conversions of ranges do what the header documents, for every text of up to 2 GiB whose string keeps an
  ASCII or UTF-8 buffer and every regex of up to 170 captures: with a library whose captures are whole
  characters they answer with the first match in the whole text, or in the characters that the UTF-16
  range names, as UTF-16 ranges; the form with an \<open>error:\<close> argument answers the same.
\<close>

theorem string_methods_keep_documentation:
  assumes "string_text self cps" "pcre_exec_documented exec regex" "unat (captureCount regex) \<le> 170"
    and "0 < captureCount regex" "i \<le> j" "j \<le> length cps" "capture < captureCount regex"
    and "reports_text exec regex cps i j m" "reports_text exec regex cps 0 (length cps) whole"
  shows "RKConvertUTF8ToUTF16_contract cps i j (RKConvertUTF8ToUTF16RangeForString (Some self) (range8 cps i j)) \<and>
    RKConvertUTF16ToUTF8_contract cps i j (RKConvertUTF16ToUTF8RangeForString (Some self) (range16 cps i j)) \<and>
    rangesOfRegex_contract cps whole (rangesOfRegex exec junk (Ok regex) self)
      (rangesOfRegex_error exec junk (Ok regex) self) \<and>
    rangesOfRegex_inRange_contract cps m (rangesOfRegex_inRange exec junk (Ok regex) self (range16 cps i j))
      (rangesOfRegex_inRange_error exec junk (Ok regex) self (range16 cps i j)) \<and>
    rangeOfRegex_contract cps whole (rangeOfRegex exec junk (Ok regex) self)
      (rangeOfRegex_error exec junk (Ok regex) self) \<and>
    rangeOfRegex_inRange_capture_contract cps m capture
      (rangeOfRegex_inRange_capture exec junk (Ok regex) self (range16 cps i j) capture)
      (rangeOfRegex_inRange_capture_error exec junk (Ok regex) self (range16 cps i j) capture) \<and>
    isMatchedByRegex_contract whole (isMatchedByRegex exec junk (Ok regex) self)
      (isMatchedByRegex_error exec junk (Ok regex) self) \<and>
    isMatchedByRegex_inRange_contract m (isMatchedByRegex_inRange exec junk (Ok regex) self (range16 cps i j))
      (isMatchedByRegex_inRange_error exec junk (Ok regex) self (range16 cps i j)) \<and>
    (description object = self \<longrightarrow>
      object_isMatchedByRegex_contract whole (object_isMatchedByRegex exec junk (Ok regex) description object))"
proof -
  note part = methods_match_text(1-3) [OF assms(1-6,8), where junk = junk]
  note full = methods_match_text [OF assms(1-4) le0 order.refl assms(9), where junk = junk]
  note same = full(4) [OF refl refl]
  show ?thesis
    using part(1) part(2) [OF assms(7)] part(3) full(1) full(2) [OF assms(4)] full(3) same
      string_ranges_convert [OF assms(1,5,6)]
    unfolding RKConvertUTF8ToUTF16_contract_def RKConvertUTF16ToUTF8_contract_def rangesOfRegex_contract_def rangesOfRegex_inRange_contract_def rangeOfRegex_contract_def
      rangeOfRegex_inRange_capture_contract_def isMatchedByRegex_contract_def isMatchedByRegex_inRange_contract_def
      object_isMatchedByRegex_contract_def object_isMatchedByRegex_def unsigned_0
    by auto
qed

section \<open>Witness\<close>

text \<open>
  In the sample text of five characters, of one, two, three and four bytes, the library finds the second
  and third character from a search that starts before them, and captures the third.
\<close>

definition text_exec :: pcre_exec where
  "text_exec h chars len start opts ovecsize =
     (if unat start \<le> 1 \<and> 6 \<le> unat len \<and> 6 \<le> unat ovecsize then (2, [1, 6, 3, 6]) else (-1, []))"

lemma text_exec_documented: "pcre_exec_documented text_exec sample_regex"
proof -
  have pair: "pair_ok len ([1, 6, 3, 6] ! (2 * i)) ([1, 6, 3, 6] ! (2 * i + 1))"
    if i2: "6 \<le> unat len" "i < 2" for len i
  proof -
    consider "i = 0" | "i = 1" using less_2_cases [OF i2(2)] by auto
    then show ?thesis using i2(1) by cases (simp_all add: pair_ok_def)
  qed
  then have "pcre_exec_contract text_exec"
    unfolding pcre_exec_contract_def text_exec_def by (auto split: if_splits)
  then show ?thesis
    by (auto simp: pcre_exec_documented_def text_exec_def split: if_splits)
qed

definition sample_string :: ns_string where
  "sample_string = \<lparr>str_length = 6, str_fastest_encoding = EncodingOther, str_cstring_ptr = None,
     str_utf8 = Some (utf8_of sample_text)\<rparr>"

lemma sample_string_text: "string_text sample_string sample_text"
  by (simp add: string_text_def sample_string_def RKStringBufferWithString_def holds_text_def sample_eval)

lemma sample_reports:
  "reports_text text_exec sample_regex sample_text 0 (length sample_text) (Some (2, [Some (1, 3), Some (2, 3)]))"
  "reports_text text_exec sample_regex sample_text 0 2 None"
  by (simp_all add: reports_text_def library_match_def text_exec_def sample_regex_def sample_eval capture_ok_def
      RK_PRESIZE_CAPTURE_COUNT_def range_end_def expected_range_def range_of_vectors_def capture_range8_def upt_conv_Cons)

theorem string_methods_keep_documentation_witness:
  "rangesOfRegex text_exec (\<lambda>i. 7) (Ok sample_regex) sample_string = Ok (Some [NSMakeRange 1 2, NSMakeRange 2 1]) \<and>
   rangeOfRegex_inRange_capture text_exec (\<lambda>i. 7) (Ok sample_regex) sample_string (NSMakeRange 0 2) 1 =
     Ok (NSMakeRange NSNotFound 0)"
proof -
  have c: "unat (captureCount sample_regex) \<le> 170" "0 < captureCount sample_regex" "1 < captureCount sample_regex"
    by (simp_all add: sample_regex_def)
  have ij: "(0 :: nat) \<le> 2" "2 \<le> length sample_text" by (simp_all add: sample_text_def)
  have r: "range16 sample_text 0 2 = NSMakeRange 0 2" "range16 sample_text 1 3 = NSMakeRange 1 2"
    "range16 sample_text 2 3 = NSMakeRange 2 1"
    by (simp_all add: sample_eval)
  note documented = string_methods_keep_documentation [OF sample_string_text text_exec_documented c(1,2) ij c(3)
      sample_reports(2,1), where junk = "\<lambda>i. 7"]
  have "rangesOfRegex text_exec (\<lambda>i. 7) (Ok sample_regex) sample_string =
      Ok (Some [range16 sample_text 1 3, range16 sample_text 2 3])"
    using documented [THEN conjunct2, THEN conjunct2, THEN conjunct1]
    by (simp add: rangesOfRegex_contract_def capture_range16_def)
  moreover have "rangeOfRegex_inRange_capture text_exec (\<lambda>i. 7) (Ok sample_regex) sample_string
      (range16 sample_text 0 2) 1 = Ok (NSMakeRange NSNotFound 0)"
    using documented [THEN conjunct2, THEN conjunct2, THEN conjunct2, THEN conjunct2, THEN conjunct2, THEN conjunct1]
    by (simp add: rangeOfRegex_inRange_capture_contract_def)
  ultimately show ?thesis by (simp only: r)
qed

end
