(* ===== verification/RK_Collections.thy ===== *)
theory RK_Collections
  imports RK_StringMethods
begin

text \<open>
  The methods that \<open>NSArray.m\<close>, \<open>NSSet.m\<close> and \<open>NSDictionary.m\<close> add to the Foundation collections. Each
  file has one function that goes through the objects, collects those that a regex matches and performs
  an action on them; the methods are calls of it. \<open>isMatched regex object\<close> is the message
  \<open>isMatchedByRegex:\<close> to an object (as in \<open>RK_StringMethods\<close>, for any class), and \<open>regex\<close> what
  \<open>RKRegexFromStringOrRegex\<close> answers. The second half states what the three headers document.
\<close>

section \<open>The common loop\<close>

text \<open>
  The \<open>for\<close> loop of all three functions: it asks each object in turn, collects the matched ones with
  their indexes, or leaves with the first (\<open>first\<close>) if that is all the action needs.
\<close>

primrec matching_loop ::
  "('obj \<Rightarrow> bool run) \<Rightarrow> bool \<Rightarrow> 'obj list \<Rightarrow> u64 \<Rightarrow> (u64 \<times> 'obj) list \<Rightarrow>
     ((u64 \<times> 'obj) option \<times> (u64 \<times> 'obj) list) run" where
  "matching_loop didMatch first [] atIndex matched = Ok (None, matched)"
| "matching_loop didMatch first (x # xs) atIndex matched =
     run_bind (didMatch x) (\<lambda>yes.
       if yes then
         (if first then Ok (Some (atIndex, x), matched)
          else matching_loop didMatch first xs (atIndex + 1) (matched @ [(atIndex, x)]))
       else matching_loop didMatch first xs (atIndex + 1) matched)"

section \<open>Arrays\<close>

datatype RKArrayAction =
    RKArrayActionIndexOfFirstMatch
  | RKArrayActionArrayOfMatchingObjects
  | RKArrayActionCountOfMatchingObjects
  | RKArrayActionAddMatches
  | RKArrayActionRemoveMatches
  | RKArrayActionIndexSetOfMatchingObjects

text \<open>The object an action returns; \<open>NoObject\<close> is \<open>NULL\<close>.\<close>

datatype 'obj array_object = NoObject | ArrayObject "'obj list" | IndexSetObject "u64 set"

definition removeObjectAtIndex :: "'obj list \<Rightarrow> nat \<Rightarrow> 'obj list run" where
  "removeObjectAtIndex self i =
     (if i < length self then Ok (take i self @ drop (Suc i) self) else Raise NSRangeException)"

text \<open>Removing by index from the front: each removal moves the later objects down by one.\<close>

primrec remove_matched :: "u64 list \<Rightarrow> u64 \<Rightarrow> 'obj list \<Rightarrow> 'obj list run" where
  "remove_matched [] x self = Ok self"
| "remove_matched (i # is) x self = run_bind (removeObjectAtIndex self (unat (i - x))) (remove_matched is (x + 1))"

text \<open>
  The \<open>switch\<close>: the returned object, the number stored through \<open>UIntegerResult\<close> (\<open>23\<close> where the action has
  none) and the receiver afterwards.
\<close>

definition array_action ::
  "RKArrayAction \<Rightarrow> (u64 \<times> 'obj) list \<Rightarrow> 'obj list \<Rightarrow> ('obj array_object \<times> u64 \<times> 'obj list) run" where
  "array_action performAction matched self =
     (case performAction of
        RKArrayActionIndexOfFirstMatch \<Rightarrow> Ok (NoObject, NSNotFound, self)
      | RKArrayActionCountOfMatchingObjects \<Rightarrow> Ok (NoObject, of_nat (length matched), self)
      | RKArrayActionArrayOfMatchingObjects \<Rightarrow> Ok (ArrayObject (map snd matched), 23, self)
      | RKArrayActionAddMatches \<Rightarrow> Ok (NoObject, 23, fold (\<lambda>x xs. xs @ [x]) (map snd matched) self)
      | RKArrayActionRemoveMatches \<Rightarrow>
          run_map (\<lambda>self'. (NoObject, 23, self')) (remove_matched (map fst matched) 0 self)
      | RKArrayActionIndexSetOfMatchingObjects \<Rightarrow>
          Ok (IndexSetObject (fold insert (map fst matched) {}), 23, self))"

text \<open>
  The guard adds location and length with wrap-around; a range that passes it without lying in the array
  makes \<open>CFArrayGetValues\<close> read outside the array.
\<close>

definition RKDoArrayAction ::
  "'r run \<Rightarrow> ('r \<Rightarrow> 'obj \<Rightarrow> bool run) \<Rightarrow> 'obj list \<Rightarrow> 'obj list option \<Rightarrow> ns_range option \<Rightarrow> RKArrayAction \<Rightarrow>
     ('obj array_object \<times> u64 \<times> 'obj list) run" where
  "RKDoArrayAction regexObject isMatched self matchAgainstArray againstRange performAction =
     run_bind regexObject (\<lambda>regex.
     case matchAgainstArray of None \<Rightarrow> Raise NSInternalInconsistencyException
     | Some objects \<Rightarrow>
       let matchAgainstArrayCount = of_nat (length objects);
           matchRange = (case againstRange of None \<Rightarrow> NSMakeRange 0 matchAgainstArrayCount | Some r \<Rightarrow> r)
       in if range_location matchRange > matchAgainstArrayCount \<or>
             range_location matchRange + range_length matchRange > matchAgainstArrayCount
          then Raise NSRangeException
          else if range_length matchRange = 0 then array_action performAction [] self
          else if \<not> range_within matchRange (length objects) then Undefined
          else run_bind
            (matching_loop (isMatched regex) (performAction = RKArrayActionIndexOfFirstMatch)
              (take (unat (range_length matchRange)) (drop (unat (range_location matchRange)) objects))
              (range_location matchRange) [])
            (\<lambda>(found, matched). case found of
                Some (i, object) \<Rightarrow> Ok (NoObject, i, self)
              | None \<Rightarrow> array_action performAction matched self))"

fun array_of_object :: "'obj array_object \<Rightarrow> 'obj list option" where
  "array_of_object (ArrayObject xs) = Some xs"
| "array_of_object _ = None"

fun index_set_of_object :: "'obj array_object \<Rightarrow> u64 set option" where
  "index_set_of_object (IndexSetObject S) = Some S"
| "index_set_of_object _ = None"

definition arrayByMatchingObjectsWithRegex where
  "arrayByMatchingObjectsWithRegex regex isMatched self =
     run_map (\<lambda>(object, n, self'). array_of_object object)
       (RKDoArrayAction regex isMatched self (Some self) None RKArrayActionArrayOfMatchingObjects)"

definition arrayByMatchingObjectsWithRegex_inRange where
  "arrayByMatchingObjectsWithRegex_inRange regex isMatched self aRange =
     run_map (\<lambda>(object, n, self'). array_of_object object)
       (RKDoArrayAction regex isMatched self (Some self) (Some aRange) RKArrayActionArrayOfMatchingObjects)"

definition array_containsObjectMatchingRegex where
  "array_containsObjectMatchingRegex regex isMatched self =
     run_map (\<lambda>(object, n, self'). n \<noteq> NSNotFound)
       (RKDoArrayAction regex isMatched self (Some self) None RKArrayActionIndexOfFirstMatch)"

definition array_containsObjectMatchingRegex_inRange where
  "array_containsObjectMatchingRegex_inRange regex isMatched self aRange =
     run_map (\<lambda>(object, n, self'). n \<noteq> NSNotFound)
       (RKDoArrayAction regex isMatched self (Some self) (Some aRange) RKArrayActionIndexOfFirstMatch)"

definition array_countOfObjectsMatchingRegex where
  "array_countOfObjectsMatchingRegex regex isMatched self =
     run_map (\<lambda>(object, n, self'). n)
       (RKDoArrayAction regex isMatched self (Some self) None RKArrayActionCountOfMatchingObjects)"

definition array_countOfObjectsMatchingRegex_inRange where
  "array_countOfObjectsMatchingRegex_inRange regex isMatched self aRange =
     run_map (\<lambda>(object, n, self'). n)
       (RKDoArrayAction regex isMatched self (Some self) (Some aRange) RKArrayActionCountOfMatchingObjects)"

definition indexOfObjectMatchingRegex where
  "indexOfObjectMatchingRegex regex isMatched self =
     run_map (\<lambda>(object, n, self'). n)
       (RKDoArrayAction regex isMatched self (Some self) None RKArrayActionIndexOfFirstMatch)"

definition indexOfObjectMatchingRegex_inRange where
  "indexOfObjectMatchingRegex_inRange regex isMatched self aRange =
     run_map (\<lambda>(object, n, self'). n)
       (RKDoArrayAction regex isMatched self (Some self) (Some aRange) RKArrayActionIndexOfFirstMatch)"

definition indexSetOfObjectsMatchingRegex where
  "indexSetOfObjectsMatchingRegex regex isMatched self =
     run_map (\<lambda>(object, n, self'). index_set_of_object object)
       (RKDoArrayAction regex isMatched self (Some self) None RKArrayActionIndexSetOfMatchingObjects)"

definition indexSetOfObjectsMatchingRegex_inRange where
  "indexSetOfObjectsMatchingRegex_inRange regex isMatched self aRange =
     run_map (\<lambda>(object, n, self'). index_set_of_object object)
       (RKDoArrayAction regex isMatched self (Some self) (Some aRange) RKArrayActionIndexSetOfMatchingObjects)"

text \<open>The methods of mutable arrays answer the receiver afterwards.\<close>

definition array_addObjectsFromArray where
  "array_addObjectsFromArray regex isMatched self otherArray =
     (case otherArray of None \<Rightarrow> Raise NSInvalidArgumentException
      | Some others \<Rightarrow> run_map (\<lambda>(object, n, self'). self')
          (RKDoArrayAction regex isMatched self (Some others) None RKArrayActionAddMatches))"

definition array_removeObjectsMatchingRegex where
  "array_removeObjectsMatchingRegex regex isMatched self =
     run_map (\<lambda>(object, n, self'). self')
       (RKDoArrayAction regex isMatched self (Some self) None RKArrayActionRemoveMatches)"

definition array_removeObjectsMatchingRegex_inRange where
  "array_removeObjectsMatchingRegex_inRange regex isMatched self aRange =
     run_map (\<lambda>(object, n, self'). self')
       (RKDoArrayAction regex isMatched self (Some self) (Some aRange) RKArrayActionRemoveMatches)"

section \<open>Sets\<close>

datatype RKSetAction =
    RKSetActionObjectOfFirstMatch
  | RKSetActionSetOfMatchingObjects
  | RKSetActionCountOfMatchingObjects
  | RKSetActionAddMatches
  | RKSetActionRemoveMatches

datatype 'obj set_object = NoSetObject | OneObject 'obj | SetObject "'obj set"

definition set_action ::
  "RKSetAction \<Rightarrow> 'obj list \<Rightarrow> 'obj set \<Rightarrow> 'obj set_object \<times> u64 \<times> 'obj set" where
  "set_action performAction matched self =
     (case performAction of
        RKSetActionObjectOfFirstMatch \<Rightarrow> (NoSetObject, 0, self)
      | RKSetActionCountOfMatchingObjects \<Rightarrow> (NoSetObject, of_nat (length matched), self)
      | RKSetActionSetOfMatchingObjects \<Rightarrow> (SetObject (fold insert matched {}), 0, self)
      | RKSetActionAddMatches \<Rightarrow> (NoSetObject, 0, fold insert matched self)
      | RKSetActionRemoveMatches \<Rightarrow> (NoSetObject, 0, fold (\<lambda>x S. S - {x}) matched self))"

text \<open>
  \<open>elements\<close> is \<open>CFSetGetValues\<close>, which lists the objects of a set in an order of its own; \<open>same\<close> tells
  that \<open>self\<close> and \<open>matchAgainstSet\<close> are one object.
\<close>

definition RKDoSetAction ::
  "('obj set \<Rightarrow> 'obj list) \<Rightarrow> 'r run \<Rightarrow> ('r \<Rightarrow> 'obj \<Rightarrow> bool run) \<Rightarrow> 'obj set \<Rightarrow> bool \<Rightarrow> 'obj set option \<Rightarrow> RKSetAction \<Rightarrow>
     ('obj set_object \<times> u64 \<times> 'obj set) run" where
  "RKDoSetAction elements regexObject isMatched self same matchAgainstSet performAction =
     run_bind regexObject (\<lambda>regex.
     case matchAgainstSet of None \<Rightarrow> Raise NSInternalInconsistencyException
     | Some objects \<Rightarrow>
       if same \<and> performAction = RKSetActionAddMatches then Ok (NoSetObject, 0, self)
       else run_bind
         (matching_loop (isMatched regex) (performAction = RKSetActionObjectOfFirstMatch) (elements objects) 0 [])
         (\<lambda>(found, matched). case found of
             Some (i, object) \<Rightarrow> Ok (OneObject object, 0, self)
           | None \<Rightarrow> Ok (set_action performAction (map snd matched) self)))"

fun one_of_object :: "'obj set_object \<Rightarrow> 'obj option" where
  "one_of_object (OneObject x) = Some x"
| "one_of_object _ = None"

fun set_of_object :: "'obj set_object \<Rightarrow> 'obj set option" where
  "set_of_object (SetObject S) = Some S"
| "set_of_object _ = None"

definition anyObjectMatchingRegex where
  "anyObjectMatchingRegex elements regex isMatched self =
     run_map (\<lambda>(object, n, self'). one_of_object object)
       (RKDoSetAction elements regex isMatched self True (Some self) RKSetActionObjectOfFirstMatch)"

definition set_containsObjectMatchingRegex where
  "set_containsObjectMatchingRegex elements regex isMatched self =
     run_map (\<lambda>(object, n, self'). one_of_object object \<noteq> None)
       (RKDoSetAction elements regex isMatched self True (Some self) RKSetActionObjectOfFirstMatch)"

definition set_countOfObjectsMatchingRegex where
  "set_countOfObjectsMatchingRegex elements regex isMatched self =
     run_map (\<lambda>(object, n, self'). n)
       (RKDoSetAction elements regex isMatched self True (Some self) RKSetActionCountOfMatchingObjects)"

definition setByMatchingObjectsWithRegex where
  "setByMatchingObjectsWithRegex elements regex isMatched self =
     run_map (\<lambda>(object, n, self'). set_of_object object)
       (RKDoSetAction elements regex isMatched self True (Some self) RKSetActionSetOfMatchingObjects)"

definition set_addObjectsFromArray where
  "set_addObjectsFromArray elements regex isMatched self otherArray =
     (case otherArray of None \<Rightarrow> Raise NSInvalidArgumentException
      | Some others \<Rightarrow> run_map (\<lambda>(object, n, self'). self')
          (RKDoSetAction elements regex isMatched self False (Some (set others)) RKSetActionAddMatches))"

definition set_addObjectsFromSet where
  "set_addObjectsFromSet elements regex isMatched self same otherSet =
     (case otherSet of None \<Rightarrow> Raise NSInvalidArgumentException
      | Some others \<Rightarrow> run_map (\<lambda>(object, n, self'). self')
          (RKDoSetAction elements regex isMatched self same (Some others) RKSetActionAddMatches))"

definition set_removeObjectsMatchingRegex where
  "set_removeObjectsMatchingRegex elements regex isMatched self =
     run_map (\<lambda>(object, n, self'). self')
       (RKDoSetAction elements regex isMatched self True (Some self) RKSetActionRemoveMatches)"

section \<open>Dictionaries\<close>

datatype RKDictionaryAction =
    RKDictionaryActionBooleanYesOnAnyKeyMatch
  | RKDictionaryActionBooleanYesOnAnyObjectMatch
  | RKDictionaryActionArrayOfMatchedKeys
  | RKDictionaryActionArrayOfMatchedObjects
  | RKDictionaryActionArrayOfObjectsForMatchedKeys
  | RKDictionaryActionArrayOfKeysForMatchedObjects
  | RKDictionaryActionDictionaryWithMatchedKeys
  | RKDictionaryActionDictionaryWithMatchedObjects
  | RKDictionaryActionAddMatches
  | RKDictionaryActionRemoveMatches

text \<open>The returned object: \<open>NULL\<close>, the receiver (for \<open>YES\<close>), an array of keys or of objects, or a dictionary.\<close>

datatype ('k, 'v) dictionary_object =
  NoDictionaryObject | Receiver | KeyArray "'k list" | ObjectArray "'v list" | DictionaryObject "'k \<rightharpoonup> 'v"

definition dictionary_action ::
  "RKDictionaryAction \<Rightarrow> ('k \<times> 'v) list \<Rightarrow> ('k \<rightharpoonup> 'v) \<Rightarrow> ('k, 'v) dictionary_object \<times> ('k \<rightharpoonup> 'v)" where
  "dictionary_action performAction matched self =
     (case performAction of
        RKDictionaryActionBooleanYesOnAnyObjectMatch \<Rightarrow> (NoDictionaryObject, self)
      | RKDictionaryActionBooleanYesOnAnyKeyMatch \<Rightarrow> (NoDictionaryObject, self)
      | RKDictionaryActionArrayOfKeysForMatchedObjects \<Rightarrow> (KeyArray (map fst matched), self)
      | RKDictionaryActionArrayOfMatchedKeys \<Rightarrow> (KeyArray (map fst matched), self)
      | RKDictionaryActionArrayOfMatchedObjects \<Rightarrow> (ObjectArray (map snd matched), self)
      | RKDictionaryActionArrayOfObjectsForMatchedKeys \<Rightarrow> (ObjectArray (map snd matched), self)
      | RKDictionaryActionDictionaryWithMatchedObjects \<Rightarrow> (DictionaryObject (map_of matched), self)
      | RKDictionaryActionDictionaryWithMatchedKeys \<Rightarrow> (DictionaryObject (map_of matched), self)
      | RKDictionaryActionAddMatches \<Rightarrow> (NoDictionaryObject, fold (\<lambda>(k, v) d. d(k \<mapsto> v)) matched self)
      | RKDictionaryActionRemoveMatches \<Rightarrow> (NoDictionaryObject, fold (\<lambda>(k, v) d. d(k := None)) matched self))"

text \<open>The test of one entry: an absent regex matches nothing, and both or one of the two must match.\<close>

definition entry_matched ::
  "('r \<Rightarrow> 'k \<Rightarrow> bool run) \<Rightarrow> ('r \<Rightarrow> 'v \<Rightarrow> bool run) \<Rightarrow> 'r option \<Rightarrow> 'r option \<Rightarrow> bool \<Rightarrow> 'k \<times> 'v \<Rightarrow> bool run" where
  "entry_matched isKeyMatched isObjectMatched keyRegex objectRegex matchKeyAndObjectRegex entry =
     run_bind (case keyRegex of None \<Rightarrow> Ok False | Some r \<Rightarrow> isKeyMatched r (fst entry)) (\<lambda>didMatchKey.
     run_bind (case objectRegex of None \<Rightarrow> Ok False | Some r \<Rightarrow> isObjectMatched r (snd entry)) (\<lambda>didMatchObject.
     Ok (if matchKeyAndObjectRegex then didMatchKey \<and> didMatchObject else didMatchKey \<or> didMatchObject)))"

text \<open>
  \<open>entries\<close> is \<open>CFDictionaryGetKeysAndValues\<close>. A regex argument is \<open>None\<close> for \<open>NULL\<close>, otherwise what
  \<open>RKRegexFromStringOrRegex\<close> answers for it.
\<close>

definition regex_of_argument :: "'r run option \<Rightarrow> 'r option run" where
  "regex_of_argument aRegex = (case aRegex of None \<Rightarrow> Ok None | Some r \<Rightarrow> run_map Some r)"

definition RKDoDictionaryAction ::
  "(('k \<rightharpoonup> 'v) \<Rightarrow> ('k \<times> 'v) list) \<Rightarrow> ('r \<Rightarrow> 'k \<Rightarrow> bool run) \<Rightarrow> ('r \<Rightarrow> 'v \<Rightarrow> bool run) \<Rightarrow> ('k \<rightharpoonup> 'v) \<Rightarrow> bool \<Rightarrow>
     ('k \<rightharpoonup> 'v) option \<Rightarrow> 'r run option \<Rightarrow> 'r run option \<Rightarrow> RKDictionaryAction \<Rightarrow> bool \<Rightarrow>
     (('k, 'v) dictionary_object \<times> ('k \<rightharpoonup> 'v)) run" where
  "RKDoDictionaryAction entries isKeyMatched isObjectMatched self same matchAgainstDictionary aKeyRegex aObjectRegex
     performAction matchKeyAndObjectRegex =
     (if aKeyRegex = None \<and> aObjectRegex = None then Raise NSInternalInconsistencyException
      else case matchAgainstDictionary of None \<Rightarrow> Raise NSInternalInconsistencyException
      | Some dictionary \<Rightarrow>
        if same \<and> performAction = RKDictionaryActionAddMatches then Ok (NoDictionaryObject, self)
        else run_bind (regex_of_argument aKeyRegex) (\<lambda>keyRegex.
          run_bind (regex_of_argument aObjectRegex) (\<lambda>objectRegex.
          run_bind
            (matching_loop (entry_matched isKeyMatched isObjectMatched keyRegex objectRegex matchKeyAndObjectRegex)
              (performAction = RKDictionaryActionBooleanYesOnAnyKeyMatch \<or>
               performAction = RKDictionaryActionBooleanYesOnAnyObjectMatch)
              (entries dictionary) 0 [])
            (\<lambda>(found, matched). case found of
                Some _ \<Rightarrow> Ok (Receiver, self)
              | None \<Rightarrow> Ok (dictionary_action performAction (map snd matched) self)))))"

fun dictionary_of_object :: "('k, 'v) dictionary_object \<Rightarrow> ('k \<rightharpoonup> 'v) option" where
  "dictionary_of_object (DictionaryObject d) = Some d"
| "dictionary_of_object _ = None"

fun keys_of_object :: "('k, 'v) dictionary_object \<Rightarrow> 'k list option" where
  "keys_of_object (KeyArray ks) = Some ks"
| "keys_of_object _ = None"

fun objects_of_object :: "('k, 'v) dictionary_object \<Rightarrow> 'v list option" where
  "objects_of_object (ObjectArray vs) = Some vs"
| "objects_of_object _ = None"

definition dictionaryByMatchingKeysWithRegex where
  "dictionaryByMatchingKeysWithRegex entries isKeyMatched isObjectMatched regex self =
     run_map (\<lambda>(object, self'). dictionary_of_object object)
       (RKDoDictionaryAction entries isKeyMatched isObjectMatched self True (Some self) (Some regex) None
         RKDictionaryActionDictionaryWithMatchedKeys False)"

definition dictionaryByMatchingObjectsWithRegex where
  "dictionaryByMatchingObjectsWithRegex entries isKeyMatched isObjectMatched regex self =
     run_map (\<lambda>(object, self'). dictionary_of_object object)
       (RKDoDictionaryAction entries isKeyMatched isObjectMatched self True (Some self) None (Some regex)
         RKDictionaryActionDictionaryWithMatchedObjects False)"

definition containsKeyMatchingRegex where
  "containsKeyMatchingRegex entries isKeyMatched isObjectMatched regex self =
     run_map (\<lambda>(object, self'). object \<noteq> NoDictionaryObject)
       (RKDoDictionaryAction entries isKeyMatched isObjectMatched self True (Some self) (Some regex) None
         RKDictionaryActionBooleanYesOnAnyKeyMatch False)"

definition dictionary_containsObjectMatchingRegex where
  "dictionary_containsObjectMatchingRegex entries isKeyMatched isObjectMatched regex self =
     run_map (\<lambda>(object, self'). object \<noteq> NoDictionaryObject)
       (RKDoDictionaryAction entries isKeyMatched isObjectMatched self True (Some self) None (Some regex)
         RKDictionaryActionBooleanYesOnAnyObjectMatch False)"

definition keysMatchingRegex where
  "keysMatchingRegex entries isKeyMatched isObjectMatched regex self =
     run_map (\<lambda>(object, self'). keys_of_object object)
       (RKDoDictionaryAction entries isKeyMatched isObjectMatched self True (Some self) (Some regex) None
         RKDictionaryActionArrayOfMatchedKeys False)"

definition keysForObjectsMatchingRegex where
  "keysForObjectsMatchingRegex entries isKeyMatched isObjectMatched regex self =
     run_map (\<lambda>(object, self'). keys_of_object object)
       (RKDoDictionaryAction entries isKeyMatched isObjectMatched self True (Some self) None (Some regex)
         RKDictionaryActionArrayOfKeysForMatchedObjects False)"

definition objectsForKeysMatchingRegex where
  "objectsForKeysMatchingRegex entries isKeyMatched isObjectMatched regex self =
     run_map (\<lambda>(object, self'). objects_of_object object)
       (RKDoDictionaryAction entries isKeyMatched isObjectMatched self True (Some self) (Some regex) None
         RKDictionaryActionArrayOfObjectsForMatchedKeys False)"

definition objectsMatchingRegex where
  "objectsMatchingRegex entries isKeyMatched isObjectMatched regex self =
     run_map (\<lambda>(object, self'). objects_of_object object)
       (RKDoDictionaryAction entries isKeyMatched isObjectMatched self True (Some self) None (Some regex)
         RKDictionaryActionArrayOfMatchedObjects False)"

definition addEntriesFromDictionary_withKeysMatchingRegex where
  "addEntriesFromDictionary_withKeysMatchingRegex entries isKeyMatched isObjectMatched regex self same otherDictionary =
     (case otherDictionary of None \<Rightarrow> Raise NSInvalidArgumentException
      | Some other \<Rightarrow> run_map (\<lambda>(object, self'). self')
          (RKDoDictionaryAction entries isKeyMatched isObjectMatched self same (Some other) (Some regex) None
            RKDictionaryActionAddMatches False))"

definition addEntriesFromDictionary_withObjectsMatchingRegex where
  "addEntriesFromDictionary_withObjectsMatchingRegex entries isKeyMatched isObjectMatched regex self same otherDictionary =
     (case otherDictionary of None \<Rightarrow> Raise NSInvalidArgumentException
      | Some other \<Rightarrow> run_map (\<lambda>(object, self'). self')
          (RKDoDictionaryAction entries isKeyMatched isObjectMatched self same (Some other) None (Some regex)
            RKDictionaryActionAddMatches False))"

definition dictionary_removeObjectsMatchingRegex where
  "dictionary_removeObjectsMatchingRegex entries isKeyMatched isObjectMatched regex self =
     run_map (\<lambda>(object, self'). self')
       (RKDoDictionaryAction entries isKeyMatched isObjectMatched self True (Some self) None (Some regex)
         RKDictionaryActionRemoveMatches False)"

definition removeObjectsForKeysMatchingRegex where
  "removeObjectsForKeysMatchingRegex entries isKeyMatched isObjectMatched regex self =
     run_map (\<lambda>(object, self'). self')
       (RKDoDictionaryAction entries isKeyMatched isObjectMatched self True (Some self) (Some regex) None
         RKDictionaryActionRemoveMatches False)"

section \<open>Documented behaviour\<close>

text \<open>
  \<open>P\<close> tells which objects \<open>aRegex\<close> matches. A range of an array is given by the objects before it (\<open>pre\<close>),
  in it (\<open>mid\<close>) and after it (\<open>post\<close>).
\<close>

definition arrayByMatchingObjectsWithRegex_contract where
  "arrayByMatchingObjectsWithRegex_contract P objects result \<longleftrightarrow> result = Ok (Some (filter P objects))"

definition arrayByMatchingObjectsWithRegex_inRange_contract where
  "arrayByMatchingObjectsWithRegex_inRange_contract P mid result \<longleftrightarrow> result = Ok (Some (filter P mid))"

definition array_containsObjectMatchingRegex_contract where
  "array_containsObjectMatchingRegex_contract P objects result \<longleftrightarrow> result = Ok (\<exists>x \<in> set objects. P x)"

definition array_containsObjectMatchingRegex_inRange_contract where
  "array_containsObjectMatchingRegex_inRange_contract P mid result \<longleftrightarrow> result = Ok (\<exists>x \<in> set mid. P x)"

definition array_countOfObjectsMatchingRegex_contract where
  "array_countOfObjectsMatchingRegex_contract P objects result \<longleftrightarrow>
     (\<exists>n. result = Ok n \<and> unat (n :: u64) = length (filter P objects))"

definition array_countOfObjectsMatchingRegex_inRange_contract where
  "array_countOfObjectsMatchingRegex_inRange_contract P mid result \<longleftrightarrow>
     (\<exists>n. result = Ok n \<and> unat (n :: u64) = length (filter P mid))"

definition indexOfObjectMatchingRegex_contract where
  "indexOfObjectMatchingRegex_contract P objects result \<longleftrightarrow>
     (if \<exists>x \<in> set objects. P x
      then \<exists>i. result = Ok i \<and> unat (i :: u64) < length objects \<and> P (objects ! unat i) \<and> (\<forall>k < unat i. \<not> P (objects ! k))
      else result = Ok NSNotFound)"

definition indexOfObjectMatchingRegex_inRange_contract where
  "indexOfObjectMatchingRegex_inRange_contract P pre mid result \<longleftrightarrow>
     (if \<exists>x \<in> set mid. P x
      then \<exists>i. result = Ok i \<and> length pre \<le> unat (i :: u64) \<and> unat i < length pre + length mid \<and>
        P ((pre @ mid) ! unat i) \<and> (\<forall>k. length pre \<le> k \<and> k < unat i \<longrightarrow> \<not> P ((pre @ mid) ! k))
      else result = Ok NSNotFound)"

definition indexSetOfObjectsMatchingRegex_contract where
  "indexSetOfObjectsMatchingRegex_contract P objects result \<longleftrightarrow>
     result = Ok (Some {i :: u64. unat i < length objects \<and> P (objects ! unat i)})"

definition indexSetOfObjectsMatchingRegex_inRange_contract where
  "indexSetOfObjectsMatchingRegex_inRange_contract P pre mid result \<longleftrightarrow>
     result = Ok (Some {i :: u64. length pre \<le> unat i \<and> unat i < length pre + length mid \<and> P ((pre @ mid) ! unat i)})"

definition array_addObjectsFromArray_contract where
  "array_addObjectsFromArray_contract P self otherArray result \<longleftrightarrow> result = Ok (self @ filter P otherArray)"

definition array_removeObjectsMatchingRegex_contract where
  "array_removeObjectsMatchingRegex_contract P objects result \<longleftrightarrow> result = Ok (filter (\<lambda>x. \<not> P x) objects)"

definition array_removeObjectsMatchingRegex_inRange_contract where
  "array_removeObjectsMatchingRegex_inRange_contract P pre mid post result \<longleftrightarrow>
     result = Ok (pre @ filter (\<lambda>x. \<not> P x) mid @ post)"

definition anyObjectMatchingRegex_contract where
  "anyObjectMatchingRegex_contract P S result \<longleftrightarrow>
     (if \<exists>x \<in> S. P x then \<exists>x \<in> S. P x \<and> result = Ok (Some x) else result = Ok None)"

definition set_containsObjectMatchingRegex_contract where
  "set_containsObjectMatchingRegex_contract P S result \<longleftrightarrow> result = Ok (\<exists>x \<in> S. P x)"

definition set_countOfObjectsMatchingRegex_contract where
  "set_countOfObjectsMatchingRegex_contract P S result \<longleftrightarrow> (\<exists>n. result = Ok n \<and> unat (n :: u64) = card {x \<in> S. P x})"

definition setByMatchingObjectsWithRegex_contract where
  "setByMatchingObjectsWithRegex_contract P S result \<longleftrightarrow> result = Ok (Some {x \<in> S. P x})"

definition set_removeObjectsMatchingRegex_contract where
  "set_removeObjectsMatchingRegex_contract P S result \<longleftrightarrow> result = Ok {x \<in> S. \<not> P x}"

definition set_addObjectsFromArray_contract where
  "set_addObjectsFromArray_contract P S otherArray result \<longleftrightarrow> result = Ok (S \<union> {x \<in> set otherArray. P x})"

definition set_addObjectsFromSet_contract where
  "set_addObjectsFromSet_contract P S otherSet result \<longleftrightarrow> result = Ok (S \<union> {x \<in> otherSet. P x})"

text \<open>The keys of a dictionary come in no particular order, each once.\<close>

definition dictionaryByMatchingKeysWithRegex_contract where
  "dictionaryByMatchingKeysWithRegex_contract P d result \<longleftrightarrow> result = Ok (Some (d |` {k. P k}))"

definition dictionaryByMatchingObjectsWithRegex_contract where
  "dictionaryByMatchingObjectsWithRegex_contract P d result \<longleftrightarrow>
     result = Ok (Some (\<lambda>k. case d k of None \<Rightarrow> None | Some v \<Rightarrow> if P v then Some v else None))"

definition containsKeyMatchingRegex_contract where
  "containsKeyMatchingRegex_contract P d result \<longleftrightarrow> result = Ok (\<exists>k \<in> dom d. P k)"

definition dictionary_containsObjectMatchingRegex_contract where
  "dictionary_containsObjectMatchingRegex_contract P d result \<longleftrightarrow> result = Ok (\<exists>v \<in> ran d. P v)"

definition keysMatchingRegex_contract where
  "keysMatchingRegex_contract P d result \<longleftrightarrow>
     (\<exists>ks. result = Ok (Some ks) \<and> distinct ks \<and> set ks = {k \<in> dom d. P k})"

definition keysForObjectsMatchingRegex_contract where
  "keysForObjectsMatchingRegex_contract P d result \<longleftrightarrow>
     (\<exists>ks. result = Ok (Some ks) \<and> distinct ks \<and> set ks = {k. \<exists>v. d k = Some v \<and> P v})"

definition objectsForKeysMatchingRegex_contract where
  "objectsForKeysMatchingRegex_contract P d result \<longleftrightarrow>
     (\<exists>ks. distinct ks \<and> set ks = {k \<in> dom d. P k} \<and> result = Ok (Some (map (\<lambda>k. the (d k)) ks)))"

definition objectsMatchingRegex_contract where
  "objectsMatchingRegex_contract P d result \<longleftrightarrow>
     (\<exists>ks. distinct ks \<and> set ks = {k. \<exists>v. d k = Some v \<and> P v} \<and> result = Ok (Some (map (\<lambda>k. the (d k)) ks)))"

definition addEntriesFromDictionary_withKeysMatchingRegex_contract where
  "addEntriesFromDictionary_withKeysMatchingRegex_contract P self other result \<longleftrightarrow>
     result = Ok (\<lambda>k. if k \<in> dom other \<and> P k then other k else self k)"

definition addEntriesFromDictionary_withObjectsMatchingRegex_contract where
  "addEntriesFromDictionary_withObjectsMatchingRegex_contract P self other result \<longleftrightarrow>
     result = Ok (\<lambda>k. case other k of None \<Rightarrow> self k | Some v \<Rightarrow> if P v then Some v else self k)"

definition dictionary_removeObjectsMatchingRegex_contract where
  "dictionary_removeObjectsMatchingRegex_contract P d result \<longleftrightarrow>
     result = Ok (\<lambda>k. case d k of None \<Rightarrow> None | Some v \<Rightarrow> if P v then None else Some v)"

definition removeObjectsForKeysMatchingRegex_contract where
  "removeObjectsForKeysMatchingRegex_contract P d result \<longleftrightarrow> result = Ok (d |` {k. \<not> P k})"

section \<open>What the loop collects\<close>

primrec numbered :: "u64 \<Rightarrow> 'obj list \<Rightarrow> (u64 \<times> 'obj) list" where
  "numbered i [] = []"
| "numbered i (x # xs) = (i, x) # numbered (i + 1) xs"

abbreviation matched_entries where
  "matched_entries P i xs \<equiv> filter (\<lambda>e. P (snd e)) (numbered i xs)"

abbreviation first_index where
  "first_index P xs \<equiv> length (takeWhile (\<lambda>x. \<not> P x) xs)"

lemma matching_loop_all:
  "\<forall>x \<in> set xs. f x = Ok (P x) \<Longrightarrow> matching_loop f False xs i acc = Ok (None, acc @ matched_entries P i xs)"
  by (induction xs arbitrary: i acc) auto

lemma matching_loop_first:
  "\<forall>x \<in> set xs. f x = Ok (P x) \<Longrightarrow>
   matching_loop f True xs (of_nat p) acc =
     Ok (if \<exists>x \<in> set xs. P x then Some (of_nat (p + first_index P xs), xs ! first_index P xs) else None, acc)"
proof (induction xs arbitrary: p)
  case (Cons x xs)
  then show ?case using Cons.IH [of "Suc p"] by (auto simp: add.commute)
qed simp

lemma first_index_first:
  assumes "\<exists>x \<in> set xs. P x"
  shows "first_index P xs < length xs" "P (xs ! first_index P xs)" "k < first_index P xs \<Longrightarrow> \<not> P (xs ! k)"
proof -
  show less: "first_index P xs < length xs"
    using assms by (induction xs) auto
  show "P (xs ! first_index P xs)"
    using nth_length_takeWhile [OF less] by simp
  show "k < first_index P xs \<Longrightarrow> \<not> P (xs ! k)"
    by (metis nth_mem set_takeWhileD takeWhile_nth)
qed

lemma matched_objects [simp]: "map snd (matched_entries P i xs) = filter P xs"
  by (induction xs arbitrary: i) auto

lemma matched_count [simp]: "length (matched_entries P i xs) = length (filter P xs)"
  by (metis length_map matched_objects)

lemma matched_indexes:
  "fst ` set (matched_entries P (of_nat p) xs) = of_nat ` {k. p \<le> k \<and> k < p + length xs \<and> P (xs ! (k - p))}"
proof (induction xs arbitrary: p)
  case (Cons x xs)
  have split: "{k. p \<le> k \<and> k < p + length (x # xs) \<and> P ((x # xs) ! (k - p))} =
      (if P x then {p} else {}) \<union> {k. Suc p \<le> k \<and> k < Suc p + length xs \<and> P (xs ! (k - Suc p))}"
    by (auto simp: nth_Cons' Suc_le_eq le_less)
  show ?case
    using Cons.IH [of "Suc p"] unfolding split by (auto simp: image_Un add.commute)
qed simp

lemma remove_matched_all:
  assumes "p + length mid < 2 ^ 64" "length kept + x = p"
  shows "remove_matched (map fst (matched_entries P (of_nat p) mid)) (of_nat x) (kept @ mid @ post) =
    Ok (kept @ filter (\<lambda>y. \<not> P y) mid @ post)"
  using assms
proof (induction mid arbitrary: p kept x)
  case (Cons a mid)
  have at: "unat (of_nat p - of_nat x :: u64) = length kept"
    using Cons.prems by (simp add: of_nat_minus64 unat_of_nat_small del: of_nat_diff)
  show ?case
  proof (cases "P a")
    case True
    have "remove_matched (map fst (matched_entries P (of_nat (Suc p)) mid)) (of_nat (Suc x)) (kept @ mid @ post) =
        Ok (kept @ filter (\<lambda>y. \<not> P y) mid @ post)"
      using Cons.prems by (intro Cons.IH) simp_all
    then show ?thesis using True at by (simp add: removeObjectAtIndex_def add.commute)
  next
    case False
    have "remove_matched (map fst (matched_entries P (of_nat (Suc p)) mid)) (of_nat x) ((kept @ [a]) @ mid @ post) =
        Ok ((kept @ [a]) @ filter (\<lambda>y. \<not> P y) mid @ post)"
      using Cons.prems by (intro Cons.IH) simp_all
    then show ?thesis using False by (simp add: add.commute)
  qed
qed simp

section \<open>Arrays do what is documented\<close>

abbreviation range_of_part :: "'obj list \<Rightarrow> 'obj list \<Rightarrow> ns_range" where
  "range_of_part pre mid \<equiv> NSMakeRange (of_nat (length pre)) (of_nat (length mid))"

lemma array_action_in_part:
  assumes "length (pre @ mid @ post) < 2 ^ 63" "\<forall>x \<in> set mid. isMatched r x = Ok (P x)"
  shows "RKDoArrayAction (Ok r) isMatched self (Some (pre @ mid @ post)) (Some (range_of_part pre mid)) performAction =
    (if performAction = RKArrayActionIndexOfFirstMatch \<and> (\<exists>x \<in> set mid. P x)
     then Ok (NoObject, of_nat (length pre + first_index P mid), self)
     else array_action performAction (matched_entries P (of_nat (length pre)) mid) self)"
proof -
  have small: "length pre < 2 ^ 64" "length mid < 2 ^ 64" "length (pre @ mid @ post) < 2 ^ 64"
    using assms(1) by simp_all
  let ?n = "length (pre @ mid @ post)"
  have le: "(of_nat (length pre) :: u64) \<le> of_nat ?n" "(of_nat (length pre + length mid) :: u64) \<le> of_nat ?n"
    using assms(1) small(1,3) by (simp_all only: of_nat64_le_iff length_append)
  have guards: "\<not> range_location (range_of_part pre mid) > of_nat ?n"
    "\<not> range_location (range_of_part pre mid) + range_length (range_of_part pre mid) > of_nat ?n"
    using le unfolding not_less NSMakeRange_sel of_nat_add by blast+
  have within: "range_within (range_of_part pre mid) ?n"
    using small(1,2) by (simp add: range_within_def range_end_def unat_of_nat_small)
  have part: "take (unat (range_length (range_of_part pre mid)))
      (drop (unat (range_location (range_of_part pre mid))) (pre @ mid @ post)) = mid"
    using small by (simp add: unat_of_nat_small)
  have empty: "range_length (range_of_part pre mid) = 0 \<longleftrightarrow> mid = []"
    using of_nat64_eq_iff [OF small(2), of 0] by simp
  note loops = matching_loop_all [OF assms(2), of "of_nat (length pre)" "[]"]
    matching_loop_first [OF assms(2), of "length pre" "[]"]
  have run: "RKDoArrayAction (Ok r) isMatched self (Some (pre @ mid @ post)) (Some (range_of_part pre mid)) performAction =
    (if mid = [] then array_action performAction [] self
     else run_bind
       (matching_loop (isMatched r) (performAction = RKArrayActionIndexOfFirstMatch) mid (of_nat (length pre)) [])
       (\<lambda>(found, matched). case found of
           Some (i, object) \<Rightarrow> Ok (NoObject, i, self) | None \<Rightarrow> array_action performAction matched self))"
    unfolding RKDoArrayAction_def run_bind.simps option.case Let_def part empty
    using guards within by (simp only: if_False if_True simp_thms NSMakeRange_sel)
  show ?thesis
  proof (cases "performAction = RKArrayActionIndexOfFirstMatch")
    case True
    then show ?thesis unfolding run using loops(2) by (auto simp: array_action_def)
  next
    case False
    then show ?thesis unfolding run using loops(1) by auto
  qed
qed

lemma array_action_whole:
  "RKDoArrayAction regex isMatched self (Some objects) None performAction =
   RKDoArrayAction regex isMatched self (Some ([] @ objects @ [])) (Some (range_of_part [] objects)) performAction"
  by (simp add: RKDoArrayAction_def Let_def)

lemma index_small:
  fixes n :: nat
  assumes "n < 9223372036854775807" shows "(of_nat n :: u64) \<noteq> NSNotFound" "unat (of_nat n :: u64) = n"
proof -
  have "n < 2 ^ 64" using assms by simp
  then show u: "unat (of_nat n :: u64) = n" by (rule unat_of_nat_small)
  show "(of_nat n :: u64) \<noteq> NSNotFound"
  proof
    assume "(of_nat n :: u64) = NSNotFound"
    then have "n = unat NSNotFound" using u by metis
    then show False using assms unfolding unat_NSNotFound by simp
  qed
qed

lemma index_set_part:
  assumes "length pre + length mid < 2 ^ 64"
  shows "fold insert (map fst (matched_entries P (of_nat (length pre)) mid)) {} =
    {i :: u64. length pre \<le> unat i \<and> unat i < length pre + length mid \<and> P ((pre @ mid) ! unat i)}"
proof -
  have "fold insert (map fst (matched_entries P (of_nat (length pre)) mid)) {} =
      fst ` set (matched_entries P (of_nat (length pre)) mid)"
    by (simp only: union_set_fold [symmetric] set_map sup_bot.right_neutral)
  also have "\<dots> = of_nat ` {k. length pre \<le> k \<and> k < length pre + length mid \<and> P (mid ! (k - length pre))}"
    by (rule matched_indexes)
  also have "\<dots> = {i :: u64. length pre \<le> unat i \<and> unat i < length pre + length mid \<and> P ((pre @ mid) ! unat i)}"
    (is "_ ` ?A = ?B")
  proof (intro set_eqI iffI)
    fix i :: u64 assume "i \<in> of_nat ` ?A"
    then show "i \<in> ?B" using assms by (auto simp: nth_append unat_of_nat_small)
  next
    fix i :: u64 assume "i \<in> ?B"
    then have "unat i \<in> ?A" by (auto simp: nth_append)
    then show "i \<in> of_nat ` ?A" by (intro image_eqI [of i of_nat "unat i"]) simp_all
  qed
  finally show ?thesis .
qed

text \<open>Every method on a part of an array; the methods without a range are about the whole array as a part.\<close>

lemma array_part_methods:
  assumes len: "length (pre @ mid @ post) < 2 ^ 63 - 1" and m: "\<forall>x \<in> set mid. isMatched r x = Ok (P x)"
  shows "arrayByMatchingObjectsWithRegex_inRange_contract P mid
      (arrayByMatchingObjectsWithRegex_inRange (Ok r) isMatched (pre @ mid @ post) (range_of_part pre mid))"
    and "array_containsObjectMatchingRegex_inRange_contract P mid
      (array_containsObjectMatchingRegex_inRange (Ok r) isMatched (pre @ mid @ post) (range_of_part pre mid))"
    and "array_countOfObjectsMatchingRegex_inRange_contract P mid
      (array_countOfObjectsMatchingRegex_inRange (Ok r) isMatched (pre @ mid @ post) (range_of_part pre mid))"
    and "indexOfObjectMatchingRegex_inRange_contract P pre mid
      (indexOfObjectMatchingRegex_inRange (Ok r) isMatched (pre @ mid @ post) (range_of_part pre mid))"
    and "indexSetOfObjectsMatchingRegex_inRange_contract P pre mid
      (indexSetOfObjectsMatchingRegex_inRange (Ok r) isMatched (pre @ mid @ post) (range_of_part pre mid))"
    and "array_removeObjectsMatchingRegex_inRange_contract P pre mid post
      (array_removeObjectsMatchingRegex_inRange (Ok r) isMatched (pre @ mid @ post) (range_of_part pre mid))"
proof -
  have small: "length (pre @ mid @ post) < 2 ^ 63" "length pre + length mid < 2 ^ 64" "length mid < 2 ^ 64"
    using len by simp_all
  note run = array_action_in_part [of pre mid post isMatched r P, OF small(1) m]
  have found: "first_index P mid < length mid" "P (mid ! first_index P mid)"
    "k < first_index P mid \<Longrightarrow> \<not> P (mid ! k)" if "\<exists>x \<in> set mid. P x" for k
    using first_index_first [OF that] by blast+
  have at: "(of_nat (length pre + first_index P mid) :: u64) \<noteq> NSNotFound"
    "unat (of_nat (length pre + first_index P mid) :: u64) = length pre + first_index P mid" if "\<exists>x \<in> set mid. P x"
    using index_small [of "length pre + first_index P mid"] found(1) [OF that] len by simp_all
  show "arrayByMatchingObjectsWithRegex_inRange_contract P mid
      (arrayByMatchingObjectsWithRegex_inRange (Ok r) isMatched (pre @ mid @ post) (range_of_part pre mid))"
    by (simp add: arrayByMatchingObjectsWithRegex_inRange_contract_def arrayByMatchingObjectsWithRegex_inRange_def
        run array_action_def)
  show "array_containsObjectMatchingRegex_inRange_contract P mid
      (array_containsObjectMatchingRegex_inRange (Ok r) isMatched (pre @ mid @ post) (range_of_part pre mid))"
    unfolding array_containsObjectMatchingRegex_inRange_contract_def array_containsObjectMatchingRegex_inRange_def run
    using at by (simp add: array_action_def)
  show "array_countOfObjectsMatchingRegex_inRange_contract P mid
      (array_countOfObjectsMatchingRegex_inRange (Ok r) isMatched (pre @ mid @ post) (range_of_part pre mid))"
  proof -
    have "length (filter P mid) < 2 ^ 64" using small(3) le_less_trans [OF length_filter_le] by blast
    then show ?thesis
      unfolding array_countOfObjectsMatchingRegex_inRange_contract_def array_countOfObjectsMatchingRegex_inRange_def run
      by (simp add: array_action_def unat_of_nat_small)
  qed
  show "indexOfObjectMatchingRegex_inRange_contract P pre mid
      (indexOfObjectMatchingRegex_inRange (Ok r) isMatched (pre @ mid @ post) (range_of_part pre mid))"
  proof (cases "\<exists>x \<in> set mid. P x")
    case True
    note f = found [OF True] at(2) [OF True]
    have "\<not> P ((pre @ mid) ! k)" if "length pre \<le> k" "k < length pre + first_index P mid" for k
      using that f(3) [of "k - length pre"] by (simp add: nth_append less_diff_conv2 add.commute)
    then show ?thesis
      unfolding indexOfObjectMatchingRegex_inRange_contract_def indexOfObjectMatchingRegex_inRange_def run
      using True f(1,2,4) by (simp del: of_nat_add add: nth_append)
  next
    case False
    then show ?thesis
      unfolding indexOfObjectMatchingRegex_inRange_contract_def indexOfObjectMatchingRegex_inRange_def run
      by (simp add: array_action_def)
  qed
  show "indexSetOfObjectsMatchingRegex_inRange_contract P pre mid
      (indexSetOfObjectsMatchingRegex_inRange (Ok r) isMatched (pre @ mid @ post) (range_of_part pre mid))"
    unfolding indexSetOfObjectsMatchingRegex_inRange_contract_def indexSetOfObjectsMatchingRegex_inRange_def run
    using index_set_part [OF small(2)] by (simp add: array_action_def)
  show "array_removeObjectsMatchingRegex_inRange_contract P pre mid post
      (array_removeObjectsMatchingRegex_inRange (Ok r) isMatched (pre @ mid @ post) (range_of_part pre mid))"
    unfolding array_removeObjectsMatchingRegex_inRange_contract_def array_removeObjectsMatchingRegex_inRange_def run
    using remove_matched_all [OF small(2), of pre 0 P post] by (simp add: array_action_def)
qed

lemma array_whole_methods:
  "arrayByMatchingObjectsWithRegex regex isMatched objects =
    arrayByMatchingObjectsWithRegex_inRange regex isMatched ([] @ objects @ []) (range_of_part [] objects)"
  "array_containsObjectMatchingRegex regex isMatched objects =
    array_containsObjectMatchingRegex_inRange regex isMatched ([] @ objects @ []) (range_of_part [] objects)"
  "array_countOfObjectsMatchingRegex regex isMatched objects =
    array_countOfObjectsMatchingRegex_inRange regex isMatched ([] @ objects @ []) (range_of_part [] objects)"
  "indexOfObjectMatchingRegex regex isMatched objects =
    indexOfObjectMatchingRegex_inRange regex isMatched ([] @ objects @ []) (range_of_part [] objects)"
  "indexSetOfObjectsMatchingRegex regex isMatched objects =
    indexSetOfObjectsMatchingRegex_inRange regex isMatched ([] @ objects @ []) (range_of_part [] objects)"
  "array_removeObjectsMatchingRegex regex isMatched objects =
    array_removeObjectsMatchingRegex_inRange regex isMatched ([] @ objects @ []) (range_of_part [] objects)"
  unfolding arrayByMatchingObjectsWithRegex_def arrayByMatchingObjectsWithRegex_inRange_def
    array_containsObjectMatchingRegex_def array_containsObjectMatchingRegex_inRange_def
    array_countOfObjectsMatchingRegex_def array_countOfObjectsMatchingRegex_inRange_def
    indexOfObjectMatchingRegex_def indexOfObjectMatchingRegex_inRange_def indexSetOfObjectsMatchingRegex_def
    indexSetOfObjectsMatchingRegex_inRange_def array_removeObjectsMatchingRegex_def
    array_removeObjectsMatchingRegex_inRange_def
  by (simp_all add: array_action_whole)

lemma appended: "fold (\<lambda>x xs. xs @ [x]) ys xs = xs @ ys"
  by (induction ys arbitrary: xs) simp_all

lemma array_add_method:
  assumes "length others < 2 ^ 63" "\<forall>x \<in> set others. isMatched r x = Ok (P x)"
  shows "array_addObjectsFromArray_contract P self others (array_addObjectsFromArray (Ok r) isMatched self (Some others))"
proof -
  have "length ([] @ others @ []) < 2 ^ 63" using assms(1) by simp
  note run = array_action_in_part [of "[]" others "[]" isMatched r P, OF this assms(2), unfolded append_Nil append_Nil2]
  show ?thesis
    unfolding array_addObjectsFromArray_contract_def array_addObjectsFromArray_def option.case array_action_whole
      append_Nil append_Nil2 run
    by (simp add: array_action_def appended)
qed

text \<open>
  C37. The array methods do what the header documents, when \<open>isMatchedByRegex:\<close> answers for every object
  concerned: the objects, their number, their indexes, the lowest index and the array after adding or
  removing are exactly those of the matching objects, in the whole array (of fewer than \<open>2 ^ 63 - 1\<close>
  objects) and in every part of it.
\<close>

theorem array_methods_keep_documentation:
  assumes "length (pre @ mid @ post) < 2 ^ 63 - 1" "objects = pre @ mid @ post" "aRange = range_of_part pre mid"
    and "\<forall>x \<in> set objects. isMatched r x = Ok (P x)"
    and "length others < 2 ^ 63" "\<forall>x \<in> set others. isMatched r x = Ok (P x)"
  shows "arrayByMatchingObjectsWithRegex_contract P objects (arrayByMatchingObjectsWithRegex (Ok r) isMatched objects) \<and>
    arrayByMatchingObjectsWithRegex_inRange_contract P mid
      (arrayByMatchingObjectsWithRegex_inRange (Ok r) isMatched objects aRange) \<and>
    array_containsObjectMatchingRegex_contract P objects (array_containsObjectMatchingRegex (Ok r) isMatched objects) \<and>
    array_containsObjectMatchingRegex_inRange_contract P mid
      (array_containsObjectMatchingRegex_inRange (Ok r) isMatched objects aRange) \<and>
    array_countOfObjectsMatchingRegex_contract P objects (array_countOfObjectsMatchingRegex (Ok r) isMatched objects) \<and>
    array_countOfObjectsMatchingRegex_inRange_contract P mid
      (array_countOfObjectsMatchingRegex_inRange (Ok r) isMatched objects aRange) \<and>
    indexOfObjectMatchingRegex_contract P objects (indexOfObjectMatchingRegex (Ok r) isMatched objects) \<and>
    indexOfObjectMatchingRegex_inRange_contract P pre mid
      (indexOfObjectMatchingRegex_inRange (Ok r) isMatched objects aRange) \<and>
    indexSetOfObjectsMatchingRegex_contract P objects (indexSetOfObjectsMatchingRegex (Ok r) isMatched objects) \<and>
    indexSetOfObjectsMatchingRegex_inRange_contract P pre mid
      (indexSetOfObjectsMatchingRegex_inRange (Ok r) isMatched objects aRange) \<and>
    array_addObjectsFromArray_contract P objects others
      (array_addObjectsFromArray (Ok r) isMatched objects (Some others)) \<and>
    array_removeObjectsMatchingRegex_contract P objects (array_removeObjectsMatchingRegex (Ok r) isMatched objects) \<and>
    array_removeObjectsMatchingRegex_inRange_contract P pre mid post
      (array_removeObjectsMatchingRegex_inRange (Ok r) isMatched objects aRange)"
proof -
  have mid: "\<forall>x \<in> set mid. isMatched r x = Ok (P x)" using assms(2,4) by simp
  have whole: "length ([] @ objects @ []) < 2 ^ 63 - 1" using assms(1,2) by simp
  note part = array_part_methods [of pre mid post isMatched r P, OF assms(1) mid,
      folded assms(2), folded assms(3)]
  note all = array_part_methods [of "[]" objects "[]" isMatched r P, OF whole assms(4)]
  show ?thesis
    using part all array_add_method [of others isMatched r P objects, OF assms(5,6)]
    unfolding array_whole_methods arrayByMatchingObjectsWithRegex_contract_def
      arrayByMatchingObjectsWithRegex_inRange_contract_def array_containsObjectMatchingRegex_contract_def
      array_containsObjectMatchingRegex_inRange_contract_def array_countOfObjectsMatchingRegex_contract_def
      array_countOfObjectsMatchingRegex_inRange_contract_def indexOfObjectMatchingRegex_contract_def
      indexOfObjectMatchingRegex_inRange_contract_def indexSetOfObjectsMatchingRegex_contract_def
      indexSetOfObjectsMatchingRegex_inRange_contract_def array_removeObjectsMatchingRegex_contract_def
      array_removeObjectsMatchingRegex_inRange_contract_def
    by (simp only: append_Nil append_Nil2 list.size add_0 le0 simp_thms)
qed

section \<open>Sets do what is documented\<close>

text \<open>Core Foundation lists every object of a set once, and every entry of a dictionary once.\<close>

definition lists_elements :: "('obj set \<Rightarrow> 'obj list) \<Rightarrow> 'obj set \<Rightarrow> bool" where
  "lists_elements elements S \<longleftrightarrow> set (elements S) = S \<and> distinct (elements S) \<and> length (elements S) < 2 ^ 63"

lemma removed: "fold (\<lambda>x S. S - {x}) xs S = S - set xs"
  by (induction xs arbitrary: S) auto

lemma inserted: "fold insert xs S = S \<union> set xs"
  by (metis sup_commute union_set_fold)

lemma set_action_run:
  assumes "\<forall>x \<in> set (elements objects). isMatched r x = Ok (P x)" "\<not> (same \<and> performAction = RKSetActionAddMatches)"
  shows "RKDoSetAction elements (Ok r) isMatched self same (Some objects) performAction =
    Ok (if performAction = RKSetActionObjectOfFirstMatch \<and> (\<exists>x \<in> set (elements objects). P x)
        then (OneObject (elements objects ! first_index P (elements objects)), 0, self)
        else set_action performAction (filter P (elements objects)) self)"
proof (cases "performAction = RKSetActionObjectOfFirstMatch")
  case True
  then show ?thesis
    using matching_loop_first [OF assms(1), of 0 "[]"] by (auto simp: RKDoSetAction_def set_action_def)
next
  case False
  then show ?thesis
    using assms(2) matching_loop_all [OF assms(1), of 0 "[]"] by (auto simp: RKDoSetAction_def)
qed

lemma set_own_methods:
  assumes l: "lists_elements elements S" and m: "\<forall>x \<in> S. isMatched r x = Ok (P x)"
  shows "anyObjectMatchingRegex_contract P S (anyObjectMatchingRegex elements (Ok r) isMatched S)"
    and "set_containsObjectMatchingRegex_contract P S (set_containsObjectMatchingRegex elements (Ok r) isMatched S)"
    and "set_countOfObjectsMatchingRegex_contract P S (set_countOfObjectsMatchingRegex elements (Ok r) isMatched S)"
    and "setByMatchingObjectsWithRegex_contract P S (setByMatchingObjectsWithRegex elements (Ok r) isMatched S)"
    and "set_removeObjectsMatchingRegex_contract P S (set_removeObjectsMatchingRegex elements (Ok r) isMatched S)"
proof -
  have v: "set (elements S) = S" "distinct (elements S)" "length (elements S) < 2 ^ 63" using l by (simp_all add: lists_elements_def)
  have m': "\<forall>x \<in> set (elements S). isMatched r x = Ok (P x)" using m v(1) by simp
  note run = set_action_run [of elements S isMatched r P, OF m']
  have found: "elements S ! first_index P (elements S) \<in> S" "P (elements S ! first_index P (elements S))" if "\<exists>x \<in> S. P x"
    using first_index_first(1,2) [of "elements S" P] that v(1) nth_mem by auto
  show "anyObjectMatchingRegex_contract P S (anyObjectMatchingRegex elements (Ok r) isMatched S)"
    using found by (auto simp: anyObjectMatchingRegex_contract_def anyObjectMatchingRegex_def run v(1) set_action_def)
  show "set_containsObjectMatchingRegex_contract P S (set_containsObjectMatchingRegex elements (Ok r) isMatched S)"
    by (auto simp: set_containsObjectMatchingRegex_contract_def set_containsObjectMatchingRegex_def run v(1) set_action_def)
  show "set_countOfObjectsMatchingRegex_contract P S (set_countOfObjectsMatchingRegex elements (Ok r) isMatched S)"
  proof -
    have "{x \<in> S. P x} = set (filter P (elements S))" using v(1) by auto
    then have c: "card {x \<in> S. P x} = length (filter P (elements S))" using v(2) by (metis distinct_card distinct_filter)
    have "length (filter P (elements S)) < 2 ^ 64" 
      using le_less_trans [OF length_filter_le v(3)] by (rule less_trans) simp
    then show ?thesis
      unfolding set_countOfObjectsMatchingRegex_contract_def c set_countOfObjectsMatchingRegex_def
      by (simp add: run set_action_def unat_of_nat_small)
  qed
  show "setByMatchingObjectsWithRegex_contract P S (setByMatchingObjectsWithRegex elements (Ok r) isMatched S)"
    using v(1) by (auto simp: setByMatchingObjectsWithRegex_contract_def setByMatchingObjectsWithRegex_def run
        set_action_def inserted)
  show "set_removeObjectsMatchingRegex_contract P S (set_removeObjectsMatchingRegex elements (Ok r) isMatched S)"
    using v(1) by (auto simp: set_removeObjectsMatchingRegex_contract_def set_removeObjectsMatchingRegex_def run
        set_action_def removed)
qed

lemma set_add_methods:
  assumes "lists_elements elements T" "\<forall>x \<in> T. isMatched r x = Ok (P x)"
  shows "T = set xs \<Longrightarrow> set_addObjectsFromArray_contract P S xs (set_addObjectsFromArray elements (Ok r) isMatched S (Some xs))"
    and "(same \<Longrightarrow> T = S) \<Longrightarrow>
      set_addObjectsFromSet_contract P S T (set_addObjectsFromSet elements (Ok r) isMatched S same (Some T))"
proof -
  have v: "set (elements T) = T" using assms(1) by (simp add: lists_elements_def)
  then have m: "\<forall>x \<in> set (elements T). isMatched r x = Ok (P x)" using assms(2) by simp
  note run = set_action_run [of elements T isMatched r P, OF m]
  show "T = set xs \<Longrightarrow> set_addObjectsFromArray_contract P S xs (set_addObjectsFromArray elements (Ok r) isMatched S (Some xs))"
    using v run [of False RKSetActionAddMatches S]
    by (auto simp: set_addObjectsFromArray_contract_def set_addObjectsFromArray_def set_action_def inserted)
  show "set_addObjectsFromSet_contract P S T (set_addObjectsFromSet elements (Ok r) isMatched S same (Some T))"
    if "same \<Longrightarrow> T = S"
  proof (cases same)
    case True
    then show ?thesis
      using that by (auto simp: set_addObjectsFromSet_contract_def set_addObjectsFromSet_def RKDoSetAction_def)
  next
    case False
    then show ?thesis
      using v run [of same RKSetActionAddMatches S]
      by (auto simp: set_addObjectsFromSet_contract_def set_addObjectsFromSet_def set_action_def inserted)
  qed
qed

section \<open>Dictionaries do what is documented\<close>

definition lists_entries :: "(('k \<rightharpoonup> 'v) \<Rightarrow> ('k \<times> 'v) list) \<Rightarrow> ('k \<rightharpoonup> 'v) \<Rightarrow> bool" where
  "lists_entries entries d \<longleftrightarrow> map_of (entries d) = d \<and> distinct (map fst (entries d))"

lemma dictionary_action_run:
  assumes "\<forall>e \<in> set (entries other). isKeyMatched rk (fst e) = Ok (K (fst e))"
    and "\<forall>e \<in> set (entries other). isObjectMatched ro (snd e) = Ok (V (snd e))"
    and "aKeyRegex = (if useKey then Some (Ok rk) else None)" "aObjectRegex = (if useKey then None else Some (Ok ro))"
    and "\<not> (same \<and> performAction = RKDictionaryActionAddMatches)"
    and "P = (\<lambda>e. if useKey then K (fst e) else V (snd e))"
  shows "RKDoDictionaryAction entries isKeyMatched isObjectMatched self same (Some other) aKeyRegex aObjectRegex
      performAction False =
    Ok (if performAction \<in> {RKDictionaryActionBooleanYesOnAnyKeyMatch, RKDictionaryActionBooleanYesOnAnyObjectMatch} \<and>
           (\<exists>e \<in> set (entries other). P e)
        then (Receiver, self) else dictionary_action performAction (filter P (entries other)) self)"
proof -
  let ?f = "entry_matched isKeyMatched isObjectMatched (if useKey then Some rk else None)
    (if useKey then None else Some ro) False"
  let ?first = "performAction = RKDictionaryActionBooleanYesOnAnyKeyMatch \<or>
    performAction = RKDictionaryActionBooleanYesOnAnyObjectMatch"
  have f: "\<forall>e \<in> set (entries other). ?f e = Ok (P e)"
    using assms(1,2) by (auto simp: entry_matched_def assms(6))
  have run: "RKDoDictionaryAction entries isKeyMatched isObjectMatched self same (Some other) aKeyRegex aObjectRegex
      performAction False =
    run_bind (matching_loop ?f ?first (entries other) 0 [])
      (\<lambda>(found, matched). case found of
          Some _ \<Rightarrow> Ok (Receiver, self) | None \<Rightarrow> Ok (dictionary_action performAction (map snd matched) self))"
    using assms(5) by (auto simp: RKDoDictionaryAction_def assms(3,4) regex_of_argument_def)
  show ?thesis
  proof (cases ?first)
    case True
    then show ?thesis
      unfolding run using matching_loop_first [OF f, of 0 "[]"] by (auto simp: dictionary_action_def)
  next
    case False
    then show ?thesis
      unfolding run using matching_loop_all [OF f, of 0 "[]"] by simp
  qed
qed

text \<open>The matched entries of a dictionary, and what adding and removing them does.\<close>

lemma map_of_filter_entries:
  "distinct (map fst es) \<Longrightarrow>
   map_of (filter P es) k = (case map_of es k of None \<Rightarrow> None | Some v \<Rightarrow> if P (k, v) then Some v else None)"
proof (induction es)
  case (Cons e es)
  obtain k' v' where e: "e = (k', v')" by (cases e)
  have "k = k' \<Longrightarrow> map_of es k = None" using Cons.prems by (auto simp: e map_of_eq_None_iff)
  then show ?case using Cons by (auto simp: e split: option.splits)
qed simp

lemma added_entries: "fold (\<lambda>(k, v) d. d(k \<mapsto> v)) es d = d ++ map_of (rev es)"
  by (induction es arbitrary: d) (auto simp: map_add_upd_left map_add_def split: option.splits)

lemma removed_entries: "fold (\<lambda>(k, v) d. d(k := None)) es d = d |` (- fst ` set es)"
  by (induction es arbitrary: d) (auto simp: restrict_map_def)

lemma entries_facts:
  assumes "lists_entries entries d"
  shows "\<And>k v. (k, v) \<in> set (entries d) \<longleftrightarrow> d k = Some v" "fst ` set (entries d) = dom d" "snd ` set (entries d) = ran d"
proof -
  show e: "(k, v) \<in> set (entries d) \<longleftrightarrow> d k = Some v" for k v
    using assms by (metis lists_entries_def map_of_eq_Some_iff)
  show "fst ` set (entries d) = dom d" "snd ` set (entries d) = ran d"
    using e by (auto simp: image_iff ran_def, force+)
qed

lemma dictionary_own_methods:
  assumes l: "lists_entries entries d" and K: "\<forall>k \<in> dom d. isKeyMatched rk k = Ok (K k)"
    and V: "\<forall>v \<in> ran d. isObjectMatched ro v = Ok (V v)"
  shows "dictionaryByMatchingKeysWithRegex_contract K d
      (dictionaryByMatchingKeysWithRegex entries isKeyMatched isObjectMatched (Ok rk) d)"
    and "dictionaryByMatchingObjectsWithRegex_contract V d
      (dictionaryByMatchingObjectsWithRegex entries isKeyMatched isObjectMatched (Ok ro) d)"
    and "containsKeyMatchingRegex_contract K d (containsKeyMatchingRegex entries isKeyMatched isObjectMatched (Ok rk) d)"
    and "dictionary_containsObjectMatchingRegex_contract V d
      (dictionary_containsObjectMatchingRegex entries isKeyMatched isObjectMatched (Ok ro) d)"
    and "keysMatchingRegex_contract K d (keysMatchingRegex entries isKeyMatched isObjectMatched (Ok rk) d)"
    and "keysForObjectsMatchingRegex_contract V d
      (keysForObjectsMatchingRegex entries isKeyMatched isObjectMatched (Ok ro) d)"
    and "objectsForKeysMatchingRegex_contract K d
      (objectsForKeysMatchingRegex entries isKeyMatched isObjectMatched (Ok rk) d)"
    and "objectsMatchingRegex_contract V d (objectsMatchingRegex entries isKeyMatched isObjectMatched (Ok ro) d)"
    and "dictionary_removeObjectsMatchingRegex_contract V d
      (dictionary_removeObjectsMatchingRegex entries isKeyMatched isObjectMatched (Ok ro) d)"
    and "removeObjectsForKeysMatchingRegex_contract K d
      (removeObjectsForKeysMatchingRegex entries isKeyMatched isObjectMatched (Ok rk) d)"
proof -
  let ?KE = "filter (\<lambda>e. K (fst e)) (entries d)" and ?VE = "filter (\<lambda>e. V (snd e)) (entries d)"
  note facts = entries_facts [OF l]
  have d: "map_of (entries d) = d" "distinct (map fst (entries d))" using l by (simp_all add: lists_entries_def)
  have "\<forall>e \<in> set (entries d). isKeyMatched rk (fst e) = Ok (K (fst e))"
    "\<forall>e \<in> set (entries d). isObjectMatched ro (snd e) = Ok (V (snd e))"
    using K V facts(2,3) by blast+
  note run = dictionary_action_run [of entries d isKeyMatched rk K isObjectMatched ro V, OF this]
  note key = run [of "Some (Ok rk)" True None, simplified] and obj = run [of None False "Some (Ok ro)", simplified]
  have any: "(\<exists>e \<in> set (entries d). K (fst e)) \<longleftrightarrow> (\<exists>k \<in> dom d. K k)"
    "(\<exists>e \<in> set (entries d). V (snd e)) \<longleftrightarrow> (\<exists>v \<in> ran d. V v)"
    unfolding facts(2,3) [symmetric] by simp_all
  have maps: "map_of ?KE = d |` {k. K k}"
    "map_of ?VE = (\<lambda>k. case d k of None \<Rightarrow> None | Some v \<Rightarrow> if V v then Some v else None)"
    by (auto simp: fun_eq_iff map_of_filter_entries [OF d(2)] d(1) restrict_map_def split: option.splits)
  have keys: "set (map fst ?KE) = {k \<in> dom d. K k}" "set (map fst ?VE) = {k. \<exists>v. d k = Some v \<and> V v}"
    "distinct (map fst ?KE)" "distinct (map fst ?VE)"
    using facts(1) d(2) by (force, force, simp_all add: distinct_map inj_on_def)
  have objects: "map snd (filter Q (entries d)) = map (\<lambda>k. the (d k)) (map fst (filter Q (entries d)))" for Q
    using facts(1) by (auto simp: map_eq_conv)
  have remove: "d |` (- fst ` set ?KE) = d |` {k. \<not> K k}"
    "d |` (- fst ` set ?VE) = (\<lambda>k. case d k of None \<Rightarrow> None | Some v \<Rightarrow> if V v then None else Some v)"
    using keys(1,2) by (auto simp: fun_eq_iff restrict_map_def split: option.splits)
  show "dictionaryByMatchingKeysWithRegex_contract K d
      (dictionaryByMatchingKeysWithRegex entries isKeyMatched isObjectMatched (Ok rk) d)"
    "dictionaryByMatchingObjectsWithRegex_contract V d
      (dictionaryByMatchingObjectsWithRegex entries isKeyMatched isObjectMatched (Ok ro) d)"
    by (simp_all add: dictionaryByMatchingKeysWithRegex_contract_def dictionaryByMatchingKeysWithRegex_def
        dictionaryByMatchingObjectsWithRegex_contract_def dictionaryByMatchingObjectsWithRegex_def
        key obj dictionary_action_def maps)
  show "containsKeyMatchingRegex_contract K d (containsKeyMatchingRegex entries isKeyMatched isObjectMatched (Ok rk) d)"
    "dictionary_containsObjectMatchingRegex_contract V d
      (dictionary_containsObjectMatchingRegex entries isKeyMatched isObjectMatched (Ok ro) d)"
    unfolding containsKeyMatchingRegex_contract_def dictionary_containsObjectMatchingRegex_contract_def any [symmetric]
      containsKeyMatchingRegex_def dictionary_containsObjectMatchingRegex_def
    by (simp_all add: key obj dictionary_action_def)
  show "keysMatchingRegex_contract K d (keysMatchingRegex entries isKeyMatched isObjectMatched (Ok rk) d)"
    unfolding keysMatchingRegex_contract_def keysMatchingRegex_def
    using keys(1,3) by (intro exI [of _ "map fst ?KE"]) (simp add: key dictionary_action_def)
  show "keysForObjectsMatchingRegex_contract V d
      (keysForObjectsMatchingRegex entries isKeyMatched isObjectMatched (Ok ro) d)"
    unfolding keysForObjectsMatchingRegex_contract_def keysForObjectsMatchingRegex_def
    using keys(2,4) by (intro exI [of _ "map fst ?VE"]) (simp add: obj dictionary_action_def)
  show "objectsForKeysMatchingRegex_contract K d
      (objectsForKeysMatchingRegex entries isKeyMatched isObjectMatched (Ok rk) d)"
    unfolding objectsForKeysMatchingRegex_contract_def objectsForKeysMatchingRegex_def objects [symmetric]
    using keys(1,3) objects by (intro exI [of _ "map fst ?KE"]) (simp add: key dictionary_action_def)
  show "objectsMatchingRegex_contract V d (objectsMatchingRegex entries isKeyMatched isObjectMatched (Ok ro) d)"
    unfolding objectsMatchingRegex_contract_def objectsMatchingRegex_def
    using keys(2,4) objects by (intro exI [of _ "map fst ?VE"]) (simp add: obj dictionary_action_def)
  show "dictionary_removeObjectsMatchingRegex_contract V d
      (dictionary_removeObjectsMatchingRegex entries isKeyMatched isObjectMatched (Ok ro) d)"
    "removeObjectsForKeysMatchingRegex_contract K d
      (removeObjectsForKeysMatchingRegex entries isKeyMatched isObjectMatched (Ok rk) d)"
    unfolding dictionary_removeObjectsMatchingRegex_contract_def removeObjectsForKeysMatchingRegex_contract_def
      dictionary_removeObjectsMatchingRegex_def removeObjectsForKeysMatchingRegex_def remove [symmetric]
    by (simp_all add: key obj dictionary_action_def removed_entries)
qed

lemma dictionary_add_methods:
  assumes l: "lists_entries entries other" and K: "\<forall>k \<in> dom other. isKeyMatched rk k = Ok (K k)"
    and V: "\<forall>v \<in> ran other. isObjectMatched ro v = Ok (V v)" and same: "same \<Longrightarrow> other = d"
  shows "addEntriesFromDictionary_withKeysMatchingRegex_contract K d other
      (addEntriesFromDictionary_withKeysMatchingRegex entries isKeyMatched isObjectMatched (Ok rk) d same (Some other))"
    and "addEntriesFromDictionary_withObjectsMatchingRegex_contract V d other
      (addEntriesFromDictionary_withObjectsMatchingRegex entries isKeyMatched isObjectMatched (Ok ro) d same (Some other))"
proof -
  note facts = entries_facts [OF l]
  have o: "map_of (entries other) = other" "distinct (map fst (entries other))" using l by (simp_all add: lists_entries_def)
  have "\<forall>e \<in> set (entries other). isKeyMatched rk (fst e) = Ok (K (fst e))"
    "\<forall>e \<in> set (entries other). isObjectMatched ro (snd e) = Ok (V (snd e))"
    using K V facts(2,3) by blast+
  note run = dictionary_action_run [of entries other isKeyMatched rk K isObjectMatched ro V, OF this]
  have key: "RKDoDictionaryAction entries isKeyMatched isObjectMatched d False (Some other) (Some (Ok rk)) None
      RKDictionaryActionAddMatches False =
      Ok (dictionary_action RKDictionaryActionAddMatches (filter (\<lambda>e. K (fst e)) (entries other)) d)"
    and obj: "RKDoDictionaryAction entries isKeyMatched isObjectMatched d False (Some other) None (Some (Ok ro))
      RKDictionaryActionAddMatches False =
      Ok (dictionary_action RKDictionaryActionAddMatches (filter (\<lambda>e. V (snd e)) (entries other)) d)"
    using run [of "Some (Ok rk)" True None False RKDictionaryActionAddMatches "\<lambda>e. K (fst e)" d]
      run [of None False "Some (Ok ro)" False RKDictionaryActionAddMatches "\<lambda>e. V (snd e)" d] by simp_all
  have added: "fold (\<lambda>(k, v) d. d(k \<mapsto> v)) (filter Q (entries other)) d =
      (\<lambda>k. case other k of None \<Rightarrow> d k | Some v \<Rightarrow> if Q (k, v) then Some v else d k)" for Q
  proof -
    have "distinct (map fst (filter Q (entries other)))" using o(2) by (simp add: distinct_map_filter)
    then have "map_of (rev (filter Q (entries other))) = map_of (filter Q (entries other))"
      by (subst map_of_inject_set) (simp_all add: rev_map [symmetric])
    then show ?thesis
      unfolding added_entries by (auto simp: fun_eq_iff map_add_def map_of_filter_entries [OF o(2)] o(1) split: option.splits)
  qed
  show "addEntriesFromDictionary_withKeysMatchingRegex_contract K d other
      (addEntriesFromDictionary_withKeysMatchingRegex entries isKeyMatched isObjectMatched (Ok rk) d same (Some other))"
  proof (cases same)
    case True
    then show ?thesis
      using same by (auto simp: addEntriesFromDictionary_withKeysMatchingRegex_contract_def fun_eq_iff
          addEntriesFromDictionary_withKeysMatchingRegex_def RKDoDictionaryAction_def)
  next
    case False
    then show ?thesis
      by (auto simp: addEntriesFromDictionary_withKeysMatchingRegex_contract_def fun_eq_iff
          addEntriesFromDictionary_withKeysMatchingRegex_def key dictionary_action_def added split: option.splits)
  qed
  show "addEntriesFromDictionary_withObjectsMatchingRegex_contract V d other
      (addEntriesFromDictionary_withObjectsMatchingRegex entries isKeyMatched isObjectMatched (Ok ro) d same (Some other))"
  proof (cases same)
    case True
    then show ?thesis
      using same by (auto simp: addEntriesFromDictionary_withObjectsMatchingRegex_contract_def fun_eq_iff
          addEntriesFromDictionary_withObjectsMatchingRegex_def RKDoDictionaryAction_def split: option.splits)
  next
    case False
    then show ?thesis
      by (auto simp: addEntriesFromDictionary_withObjectsMatchingRegex_contract_def fun_eq_iff
          addEntriesFromDictionary_withObjectsMatchingRegex_def obj dictionary_action_def added split: option.splits)
  qed
qed

text \<open>
  The set methods do what the header documents, in whatever order Core Foundation lists the objects:
  the answered object is a matching one if there is one, the number and the new set are those of the
  matching objects, and exactly those are added or removed, also when a set is added to itself.
\<close>

lemma set_methods_keep_documentation:
  assumes "lists_elements elements S" "\<forall>x \<in> S. isMatched r x = Ok (P x)"
    and "lists_elements elements T" "\<forall>x \<in> T. isMatched r x = Ok (P x)" "T = set xs" "same \<longrightarrow> T = S"
  shows "anyObjectMatchingRegex_contract P S (anyObjectMatchingRegex elements (Ok r) isMatched S) \<and>
    set_containsObjectMatchingRegex_contract P S (set_containsObjectMatchingRegex elements (Ok r) isMatched S) \<and>
    set_countOfObjectsMatchingRegex_contract P S (set_countOfObjectsMatchingRegex elements (Ok r) isMatched S) \<and>
    setByMatchingObjectsWithRegex_contract P S (setByMatchingObjectsWithRegex elements (Ok r) isMatched S) \<and>
    set_removeObjectsMatchingRegex_contract P S (set_removeObjectsMatchingRegex elements (Ok r) isMatched S) \<and>
    set_addObjectsFromArray_contract P S xs (set_addObjectsFromArray elements (Ok r) isMatched S (Some xs)) \<and>
    set_addObjectsFromSet_contract P S T (set_addObjectsFromSet elements (Ok r) isMatched S same (Some T))"
  using set_own_methods [of elements S isMatched r P, OF assms(1,2)]
    set_add_methods [of elements T isMatched r P, OF assms(3,4)] assms(5,6) by blast

text \<open>
  The dictionary methods do what the header documents: tests, arrays of keys and of objects, new
  dictionaries, additions (which replace the object of a key the receiver has) and removals concern
  exactly the entries whose key, or whose object, matches.
\<close>

lemma dictionary_methods_keep_documentation:
  assumes "lists_entries entries d" "\<forall>k \<in> dom d. isKeyMatched rk k = Ok (K k)" "\<forall>v \<in> ran d. isObjectMatched ro v = Ok (V v)"
    and "lists_entries entries other" "\<forall>k \<in> dom other. isKeyMatched rk k = Ok (K k)"
    and "\<forall>v \<in> ran other. isObjectMatched ro v = Ok (V v)" "same \<longrightarrow> other = d"
  shows "dictionaryByMatchingKeysWithRegex_contract K d
      (dictionaryByMatchingKeysWithRegex entries isKeyMatched isObjectMatched (Ok rk) d) \<and>
    dictionaryByMatchingObjectsWithRegex_contract V d
      (dictionaryByMatchingObjectsWithRegex entries isKeyMatched isObjectMatched (Ok ro) d) \<and>
    containsKeyMatchingRegex_contract K d (containsKeyMatchingRegex entries isKeyMatched isObjectMatched (Ok rk) d) \<and>
    dictionary_containsObjectMatchingRegex_contract V d
      (dictionary_containsObjectMatchingRegex entries isKeyMatched isObjectMatched (Ok ro) d) \<and>
    keysMatchingRegex_contract K d (keysMatchingRegex entries isKeyMatched isObjectMatched (Ok rk) d) \<and>
    keysForObjectsMatchingRegex_contract V d
      (keysForObjectsMatchingRegex entries isKeyMatched isObjectMatched (Ok ro) d) \<and>
    objectsForKeysMatchingRegex_contract K d
      (objectsForKeysMatchingRegex entries isKeyMatched isObjectMatched (Ok rk) d) \<and>
    objectsMatchingRegex_contract V d (objectsMatchingRegex entries isKeyMatched isObjectMatched (Ok ro) d) \<and>
    dictionary_removeObjectsMatchingRegex_contract V d
      (dictionary_removeObjectsMatchingRegex entries isKeyMatched isObjectMatched (Ok ro) d) \<and>
    removeObjectsForKeysMatchingRegex_contract K d
      (removeObjectsForKeysMatchingRegex entries isKeyMatched isObjectMatched (Ok rk) d) \<and>
    addEntriesFromDictionary_withKeysMatchingRegex_contract K d other
      (addEntriesFromDictionary_withKeysMatchingRegex entries isKeyMatched isObjectMatched (Ok rk) d same (Some other)) \<and>
    addEntriesFromDictionary_withObjectsMatchingRegex_contract V d other
      (addEntriesFromDictionary_withObjectsMatchingRegex entries isKeyMatched isObjectMatched (Ok ro) d same (Some other))"
  using dictionary_own_methods [of entries d isKeyMatched rk K isObjectMatched ro V, OF assms(1-3)]
    dictionary_add_methods [of entries other isKeyMatched rk K isObjectMatched ro V same d, OF assms(4-6)] assms(7)
  by blast

section \<open>A range that wraps around\<close>

text \<open>
  The guard of \<open>RKDoArrayAction\<close> adds the location and the length of the range: with a length close to
  \<open>2 ^ 64\<close> the sum wraps around, no exception is raised and the array is read beyond its end.
\<close>

lemma array_range_wraps:
  "array_countOfObjectsMatchingRegex_inRange (Ok r) isMatched [x] (NSMakeRange 1 RKUIntegerMax) = Undefined"
proof -
  have largest: "RKUIntegerMax = - 1" by (simp add: RKUIntegerMax_def)
  show ?thesis
    unfolding largest
    by (simp add: array_countOfObjectsMatchingRegex_inRange_def RKDoArrayAction_def range_within_def
        range_end_def Let_def unat_minus_one_64)
qed

section \<open>Witnesses\<close>

text \<open>The collections hold two strings, of which the sample regex matches the first.\<close>

definition no_string :: ns_string where
  "no_string = \<lparr>str_length = 0, str_fastest_encoding = EncodingOther, str_cstring_ptr = None, str_utf8 = Some []\<rparr>"

abbreviation sample_matched :: "RKRegex \<Rightarrow> ns_string \<Rightarrow> bool run" where
  "sample_matched regex s \<equiv> isMatchedByRegex text_exec (\<lambda>i. 7) (Ok regex) s"

lemma sample_matching:
  "sample_matched sample_regex sample_string = Ok True" "sample_matched sample_regex no_string = Ok False"
  "sample_string \<noteq> no_string"
proof -
  have c: "unat (captureCount sample_regex) \<le> 170" "0 < captureCount sample_regex" by (simp_all add: sample_regex_def)
  have empty: "string_text no_string []" "reports_text text_exec sample_regex [] 0 (length []) None"
    by (simp_all add: string_text_def no_string_def RKStringBufferWithString_def holds_text_def sample_eval
        reports_text_def library_match_def text_exec_def)
  note sample = methods_match_text [OF sample_string_text text_exec_documented c le0 order.refl sample_reports(1),
      where junk = "\<lambda>i. 7"]
  show "sample_matched sample_regex sample_string = Ok True"
    using sample(3) sample(4) [OF refl refl] by (simp add: isMatchedByRegex_inRange_contract_def)
  note none = methods_match_text [OF empty(1) text_exec_documented c le0 order.refl empty(2), where junk = "\<lambda>i. 7"]
  show "sample_matched sample_regex no_string = Ok False"
    using none(3) none(4) [OF refl refl] by (simp add: isMatchedByRegex_inRange_contract_def)
  show "sample_string \<noteq> no_string" by (simp add: sample_string_def no_string_def)
qed

theorem array_methods_keep_documentation_witness:
  "indexOfObjectMatchingRegex (Ok sample_regex) sample_matched [no_string, sample_string, no_string] = Ok 1 \<and>
   array_removeObjectsMatchingRegex (Ok sample_regex) sample_matched [no_string, sample_string, no_string] =
     Ok [no_string, no_string]"
proof -
  let ?P = "\<lambda>s. s = sample_string"
  have m: "\<forall>x \<in> set [no_string, sample_string, no_string]. sample_matched sample_regex x = Ok (?P x)"
    "\<forall>x \<in> set []. sample_matched sample_regex x = Ok (?P x)"
    using sample_matching by simp_all
  have l: "length ([no_string] @ [sample_string] @ [no_string]) < 2 ^ 63 - 1" "length ([] :: ns_string list) < 2 ^ 63"
    by simp_all
  note documented = array_methods_keep_documentation [of "[no_string]" "[sample_string]" "[no_string]" _ _ sample_matched
      sample_regex ?P "[]", OF l(1) _ refl m(1) l(2) m(2), simplified]
  then obtain i :: u64 where "indexOfObjectMatchingRegex (Ok sample_regex) sample_matched [no_string, sample_string, no_string] = Ok i"
    "unat i < 3" "[no_string, sample_string, no_string] ! unat i = sample_string"
    by (auto simp: indexOfObjectMatchingRegex_contract_def numeral_3_eq_3)
  moreover from this have "unat i = 1"
    using sample_matching(3) by (auto simp: less_Suc_eq numeral_3_eq_3)
  moreover have "i = of_nat (unat i)" by simp
  ultimately show ?thesis
    using documented sample_matching(3) by (auto simp: array_removeObjectsMatchingRegex_contract_def)
qed

text \<open>An order for the sets and dictionaries of the witnesses.\<close>

definition sample_elements :: "ns_string set \<Rightarrow> ns_string list" where
  "sample_elements S = filter (\<lambda>s. s \<in> S) [no_string, sample_string]"

definition sample_entries_of :: "(ns_string \<rightharpoonup> ns_string) \<Rightarrow> (ns_string \<times> ns_string) list" where
  "sample_entries_of d =
     concat (map (\<lambda>k. case d k of None \<Rightarrow> [] | Some v \<Rightarrow> [(k, v)]) [no_string, sample_string])"

lemma set_methods_keep_documentation_witness:
  "setByMatchingObjectsWithRegex sample_elements (Ok sample_regex) sample_matched {no_string, sample_string} =
     Ok (Some {sample_string}) \<and>
   set_addObjectsFromArray sample_elements (Ok sample_regex) sample_matched {no_string, sample_string}
     (Some [no_string]) = Ok {no_string, sample_string}"
proof -
  let ?P = "\<lambda>s. s = sample_string"
  have m: "\<forall>x \<in> {no_string, sample_string}. sample_matched sample_regex x = Ok (?P x)"
    "\<forall>x \<in> {no_string}. sample_matched sample_regex x = Ok (?P x)"
    using sample_matching by simp_all
  have l: "lists_elements sample_elements {no_string, sample_string}" "lists_elements sample_elements {no_string}"
    using sample_matching(3) by (auto simp: lists_elements_def sample_elements_def)
  show ?thesis
    using set_methods_keep_documentation [of sample_elements _ sample_matched sample_regex ?P "{no_string}" "[no_string]" False,
        OF l(1) m(1) l(2) m(2)] sample_matching(3)
    by (auto simp: setByMatchingObjectsWithRegex_contract_def set_addObjectsFromArray_contract_def)
qed

lemma dictionary_methods_keep_documentation_witness:
  "containsKeyMatchingRegex sample_entries_of sample_matched sample_matched (Ok sample_regex) [no_string \<mapsto> sample_string] =
     Ok False \<and>
   dictionary_containsObjectMatchingRegex sample_entries_of sample_matched sample_matched (Ok sample_regex)
     [no_string \<mapsto> sample_string] = Ok True"
proof -
  let ?P = "\<lambda>s. s = sample_string" and ?d = "[no_string \<mapsto> sample_string]"
  have l: "lists_entries sample_entries_of ?d"
    using sample_matching(3) by (auto simp: lists_entries_def sample_entries_of_def)
  have m: "\<forall>x \<in> dom ?d. sample_matched sample_regex x = Ok (?P x)"
    "\<forall>x \<in> ran ?d. sample_matched sample_regex x = Ok (?P x)"
    using sample_matching by auto
  show ?thesis
    using dictionary_methods_keep_documentation [of sample_entries_of ?d sample_matched sample_regex ?P sample_matched
        sample_regex ?P ?d True, OF l m l m] sample_matching(3)
    by (auto simp: containsKeyMatchingRegex_contract_def dictionary_containsObjectMatchingRegex_contract_def)
qed

end
