(* ===== verification/RK_DataMethods.thy ===== *)
theory RK_DataMethods
  imports RK_StringMethods
begin

text \<open>
  \<open>NSData.m\<close>: matching the bytes of a data object. There is no conversion, so all ranges are ranges of
  bytes. \<open>[self bytes]\<close> is \<open>NULL\<close> for an empty object, as Foundation documents, which the matching methods refuse.
\<close>

section \<open>The methods\<close>

definition data_bytes :: "byte list \<Rightarrow> byte list option" where
  "data_bytes self = (if self = [] then None else Some self)"

definition data_length :: "byte list \<Rightarrow> u64" where
  "data_length self = of_nat (length self)"

definition subdataWithRange :: "byte list \<Rightarrow> ns_range \<Rightarrow> byte list run" where
  "subdataWithRange self r =
     (if range_end r \<le> length self then Ok (take (unat (range_length r)) (drop (unat (range_location r)) self))
      else Raise NSRangeException)"

text \<open>\<open>regex\<close> is what \<open>RKRegexFromStringOrRegex\<close> answers for \<open>aRegex\<close> with \<open>RKCompileNoOptions\<close>.\<close>

definition data_isMatchedByRegex :: "pcre_exec \<Rightarrow> (nat \<Rightarrow> u32) \<Rightarrow> RKRegex run \<Rightarrow> byte list \<Rightarrow> bool run" where
  "data_isMatchedByRegex exec junk regex self =
     run_bind regex (\<lambda>r. matchesCharacters exec junk r (data_bytes self) (data_length self)
       (NSMakeRange 0 (data_length self)) RKMatchNoOptions)"

definition data_isMatchedByRegex_inRange ::
  "pcre_exec \<Rightarrow> (nat \<Rightarrow> u32) \<Rightarrow> RKRegex run \<Rightarrow> byte list \<Rightarrow> ns_range \<Rightarrow> bool run" where
  "data_isMatchedByRegex_inRange exec junk regex self aRange =
     run_bind regex (\<lambda>r. matchesCharacters exec junk r (data_bytes self) (data_length self) aRange RKMatchNoOptions)"

definition data_rangeOfRegex :: "pcre_exec \<Rightarrow> (nat \<Rightarrow> u32) \<Rightarrow> RKRegex run \<Rightarrow> byte list \<Rightarrow> ns_range run" where
  "data_rangeOfRegex exec junk regex self =
     run_bind regex (\<lambda>r. rangeForCharacters exec junk r (data_bytes self) (data_length self)
       (NSMakeRange 0 (data_length self)) 0 RKMatchNoOptions)"

definition data_rangeOfRegex_inRange_capture ::
  "pcre_exec \<Rightarrow> (nat \<Rightarrow> u32) \<Rightarrow> RKRegex run \<Rightarrow> byte list \<Rightarrow> ns_range \<Rightarrow> u64 \<Rightarrow> ns_range run" where
  "data_rangeOfRegex_inRange_capture exec junk regex self aRange capture =
     run_bind regex (\<lambda>r. rangeForCharacters exec junk r (data_bytes self) (data_length self) aRange capture RKMatchNoOptions)"

definition data_rangesOfRegex :: "pcre_exec \<Rightarrow> (nat \<Rightarrow> u32) \<Rightarrow> RKRegex run \<Rightarrow> byte list \<Rightarrow> ns_range list option run" where
  "data_rangesOfRegex exec junk regex self =
     run_bind regex (\<lambda>r. rangesForCharacters exec junk r (data_bytes self) (data_length self)
       (NSMakeRange 0 (data_length self)) RKMatchNoOptions)"

definition data_rangesOfRegex_inRange ::
  "pcre_exec \<Rightarrow> (nat \<Rightarrow> u32) \<Rightarrow> RKRegex run \<Rightarrow> byte list \<Rightarrow> ns_range \<Rightarrow> ns_range list option run" where
  "data_rangesOfRegex_inRange exec junk regex self aRange =
     run_bind regex (\<lambda>r. rangesForCharacters exec junk r (data_bytes self) (data_length self) aRange RKMatchNoOptions)"

definition subdataByMatching :: "pcre_exec \<Rightarrow> (nat \<Rightarrow> u32) \<Rightarrow> RKRegex run \<Rightarrow> byte list \<Rightarrow> byte list run" where
  "subdataByMatching exec junk regex self =
     run_bind regex (\<lambda>r. run_bind (rangeForCharacters exec junk r (data_bytes self) (data_length self)
       (NSMakeRange 0 (data_length self)) 0 RKMatchNoOptions)
       (\<lambda>subdataRange. if NSEqualRanges (NSMakeRange NSNotFound 0) subdataRange then Ok []
          else subdataWithRange self subdataRange))"

definition subdataByMatching_inRange ::
  "pcre_exec \<Rightarrow> (nat \<Rightarrow> u32) \<Rightarrow> RKRegex run \<Rightarrow> byte list \<Rightarrow> ns_range \<Rightarrow> byte list run" where
  "subdataByMatching_inRange exec junk regex self aRange =
     run_bind regex (\<lambda>r. run_bind (rangeForCharacters exec junk r (data_bytes self) (data_length self) aRange 0 RKMatchNoOptions)
       (\<lambda>subdataRange. if NSEqualRanges (NSMakeRange NSNotFound 0) subdataRange then Ok []
          else subdataWithRange self subdataRange))"

section \<open>Documented behaviour\<close>

text \<open>\<open>m\<close> is the first match in the data or in the range of it.\<close>

definition data_isMatchedByRegex_contract :: "first_match \<Rightarrow> bool run \<Rightarrow> bool" where
  "data_isMatchedByRegex_contract m result \<longleftrightarrow> result = Ok (m \<noteq> None)"

definition data_isMatchedByRegex_inRange_contract :: "first_match \<Rightarrow> bool run \<Rightarrow> bool" where
  "data_isMatchedByRegex_inRange_contract m result \<longleftrightarrow> result = Ok (m \<noteq> None)"

definition data_rangeOfRegex_contract :: "first_match \<Rightarrow> ns_range run \<Rightarrow> bool" where
  "data_rangeOfRegex_contract m result \<longleftrightarrow>
     result = Ok (case m of None \<Rightarrow> NSMakeRange NSNotFound 0 | Some (n, ranges) \<Rightarrow> ranges ! 0)"

definition data_rangeOfRegex_inRange_capture_contract :: "first_match \<Rightarrow> u64 \<Rightarrow> ns_range run \<Rightarrow> bool" where
  "data_rangeOfRegex_inRange_capture_contract m capture result \<longleftrightarrow>
     result = Ok (case m of None \<Rightarrow> NSMakeRange NSNotFound 0 | Some (n, ranges) \<Rightarrow> ranges ! unat capture)"

definition data_rangesOfRegex_contract :: "first_match \<Rightarrow> ns_range list option run \<Rightarrow> bool" where
  "data_rangesOfRegex_contract m result \<longleftrightarrow> result = Ok (map_option snd m)"

definition data_rangesOfRegex_inRange_contract :: "first_match \<Rightarrow> ns_range list option run \<Rightarrow> bool" where
  "data_rangesOfRegex_inRange_contract m result \<longleftrightarrow> result = Ok (map_option snd m)"

definition bytes_of_range :: "byte list \<Rightarrow> ns_range \<Rightarrow> byte list" where
  "bytes_of_range self r = take (unat (range_length r)) (drop (unat (range_location r)) self)"

definition subdataByMatching_contract :: "byte list \<Rightarrow> first_match \<Rightarrow> byte list run \<Rightarrow> bool" where
  "subdataByMatching_contract self m result \<longleftrightarrow>
     (case m of None \<Rightarrow> result = Ok [] | Some (n, ranges) \<Rightarrow> result = Ok (bytes_of_range self (ranges ! 0)))"

definition subdataByMatching_inRange_contract :: "byte list \<Rightarrow> first_match \<Rightarrow> byte list run \<Rightarrow> bool" where
  "subdataByMatching_inRange_contract self m result \<longleftrightarrow>
     (case m of None \<Rightarrow> result = Ok [] | Some (n, ranges) \<Rightarrow> result = Ok (bytes_of_range self (ranges ! 0)))"

section \<open>The methods do what is documented\<close>

lemma data_range_methods:
  assumes regex: "pcre_exec_documented exec regex" "unat (captureCount regex) \<le> 170" "0 < captureCount regex"
    and data: "self \<noteq> []" "search_valid (data_length self) r" "length self \<le> 2147483647"
    and capture: "capture < captureCount regex"
    and m_def: "m = library_match exec regex self (data_length self) r RKMatchNoOptions"
  shows "data_isMatchedByRegex_inRange_contract m (data_isMatchedByRegex_inRange exec junk (Ok regex) self r)"
    and "data_rangeOfRegex_inRange_capture_contract m capture
      (data_rangeOfRegex_inRange_capture exec junk (Ok regex) self r capture)"
    and "data_rangesOfRegex_inRange_contract m (data_rangesOfRegex_inRange exec junk (Ok regex) self r)"
    and "subdataByMatching_inRange_contract self m (subdataByMatching_inRange exec junk (Ok regex) self r)"
proof -
  have bytes: "data_bytes self = Some self" using data(1) by (simp add: data_bytes_def)
  have m': "m = (case Some self of None \<Rightarrow> None | Some cs \<Rightarrow> library_match exec regex cs (data_length self) r RKMatchNoOptions)"
    by (simp add: m_def)
  note methods = public_methods_match [OF regex m', where junk = junk]
  show "data_isMatchedByRegex_inRange_contract m (data_isMatchedByRegex_inRange exec junk (Ok regex) self r)"
    using methods(1) data(2)
    by (simp add: data_isMatchedByRegex_inRange_contract_def data_isMatchedByRegex_inRange_def matchesCharacters_contract_def bytes)
  have ranges: "rangeForCharacters exec junk regex (Some self) (data_length self) r c RKMatchNoOptions =
      Ok (case m of None \<Rightarrow> NSMakeRange NSNotFound 0 | Some (n, ranges) \<Rightarrow> ranges ! unat c)"
    if "c < captureCount regex" for c
    using methods(2) [of c] data(2) that by (simp add: rangeForCharacters_contract_def not_le [symmetric])
  show "data_rangeOfRegex_inRange_capture_contract m capture
      (data_rangeOfRegex_inRange_capture exec junk (Ok regex) self r capture)"
    using ranges [OF capture]
    by (simp add: data_rangeOfRegex_inRange_capture_contract_def data_rangeOfRegex_inRange_capture_def bytes)
  show "data_rangesOfRegex_inRange_contract m (data_rangesOfRegex_inRange exec junk (Ok regex) self r)"
    using methods(3) data(2)
    by (simp add: data_rangesOfRegex_inRange_contract_def data_rangesOfRegex_inRange_def rangesForCharacters_contract_def bytes)
  show "subdataByMatching_inRange_contract self m (subdataByMatching_inRange exec junk (Ok regex) self r)"
  proof (cases m)
    case None
    then show ?thesis
      using ranges [OF regex(3)]
      by (simp add: subdataByMatching_inRange_contract_def subdataByMatching_inRange_def bytes NSEqualRanges_def)
  next
    case (Some a)
    obtain n rs where a: "m = Some (n, rs)" using Some by (cases a) simp
    have first: "rangeForCharacters exec junk regex (Some self) (data_length self) r 0 RKMatchNoOptions = Ok (rs ! 0)"
      using ranges [OF regex(3)] by (simp add: a)
    have found: "rs ! 0 \<noteq> range_not_found"
    proof -
      have "length rs = unat (captureCount regex)" using library_match_length m_def a by metis
      moreover have "0 < unat (captureCount regex)" using regex(3) by (simp add: word_less_nat_alt)
      ultimately show ?thesis
        using private_match_library [OF regex data(2), of junk self RKMatchNoOptions] a m_def by auto
    qed
    obtain err where "rangeForCharacters_error exec junk regex (Some self) (data_length self) r 0 RKMatchNoOptions = Ok (rs ! 0, err)"
      using error_methods_agree(1) [OF first] by blast
    then have "valid_capture (data_length self) (rs ! 0)"
      using rangeForCharacters_error_valid [of exec regex junk self "data_length self" r 0 RKMatchNoOptions "rs ! 0" err] regex(1,2)
      by (simp add: pcre_exec_documented_def)
    then have "range_end (rs ! 0) \<le> length self"
      using found data(3) by (simp add: valid_capture_def data_length_def unat_of_nat_small)
    then show ?thesis
      using first found
      by (simp add: subdataByMatching_inRange_contract_def subdataByMatching_inRange_def bytes NSEqualRanges_iff a
          subdataWithRange_def bytes_of_range_def range_not_found_def)
  qed
qed

lemma data_whole_methods:
  "data_isMatchedByRegex exec junk regex self =
     data_isMatchedByRegex_inRange exec junk regex self (NSMakeRange 0 (data_length self))"
  "data_rangeOfRegex exec junk regex self =
     data_rangeOfRegex_inRange_capture exec junk regex self (NSMakeRange 0 (data_length self)) 0"
  "data_rangesOfRegex exec junk regex self =
     data_rangesOfRegex_inRange exec junk regex self (NSMakeRange 0 (data_length self))"
  "subdataByMatching exec junk regex self =
     subdataByMatching_inRange exec junk regex self (NSMakeRange 0 (data_length self))"
  by (simp_all add: data_isMatchedByRegex_def data_isMatchedByRegex_inRange_def data_rangeOfRegex_def
      data_rangeOfRegex_inRange_capture_def data_rangesOfRegex_def data_rangesOfRegex_inRange_def
      subdataByMatching_def subdataByMatching_inRange_def)

text \<open>
  The data methods do what the header documents for every data object that is not empty and no longer
  than PCRE's \<open>int\<close>: they answer with the first match of the library in the bytes or in a range of them, and
  \<open>subdataByMatching:\<close> with exactly the bytes of that match.
\<close>

lemma data_methods_keep_documentation:
  assumes "pcre_exec_documented exec regex" "unat (captureCount regex) \<le> 170" "0 < captureCount regex"
    and "self \<noteq> []" "length self \<le> 2147483647" "range_within r (length self)" "capture < captureCount regex"
  shows "let m = library_match exec regex self (data_length self) r RKMatchNoOptions;
      whole = library_match exec regex self (data_length self) (NSMakeRange 0 (data_length self)) RKMatchNoOptions
    in data_isMatchedByRegex_contract whole (data_isMatchedByRegex exec junk (Ok regex) self) \<and>
    data_isMatchedByRegex_inRange_contract m (data_isMatchedByRegex_inRange exec junk (Ok regex) self r) \<and>
    data_rangeOfRegex_contract whole (data_rangeOfRegex exec junk (Ok regex) self) \<and>
    data_rangeOfRegex_inRange_capture_contract m capture
      (data_rangeOfRegex_inRange_capture exec junk (Ok regex) self r capture) \<and>
    data_rangesOfRegex_contract whole (data_rangesOfRegex exec junk (Ok regex) self) \<and>
    data_rangesOfRegex_inRange_contract m (data_rangesOfRegex_inRange exec junk (Ok regex) self r) \<and>
    subdataByMatching_contract self whole (subdataByMatching exec junk (Ok regex) self) \<and>
    subdataByMatching_inRange_contract self m (subdataByMatching_inRange exec junk (Ok regex) self r)"
proof -
  have len: "unat (data_length self) = length self"
    using assms(5) by (simp add: data_length_def unat_of_nat_small)
  have valid: "search_valid (data_length self) r" "search_valid (data_length self) (NSMakeRange 0 (data_length self))"
    using assms(5,6) len by (simp_all add: search_valid_def range_within_def range_end_def)
  note part = data_range_methods [OF assms(1-4) valid(1) assms(5,7) refl, where junk = junk]
  note all = data_range_methods [OF assms(1-4) valid(2) assms(5,3) refl, where junk = junk]
  show ?thesis
    using part all
    unfolding Let_def data_whole_methods data_isMatchedByRegex_contract_def data_isMatchedByRegex_inRange_contract_def
      data_rangeOfRegex_contract_def data_rangeOfRegex_inRange_capture_contract_def data_rangesOfRegex_contract_def
      data_rangesOfRegex_inRange_contract_def subdataByMatching_contract_def subdataByMatching_inRange_contract_def
      unsigned_0 by blast
qed

text \<open>An empty data object makes every method raise, even for a regex that matches the empty string.\<close>

lemma empty_data_raises:
  assumes "pcre_exec_documented exec regex" "unat (captureCount regex) \<le> 170" "0 < captureCount regex"
  shows "data_isMatchedByRegex exec junk (Ok regex) [] = Raise NSInvalidArgumentException"
  using public_methods_match(1) [OF assms refl, where chars = None and junk = junk]
  by (simp add: data_isMatchedByRegex_def data_bytes_def matchesCharacters_contract_def)

lemma data_methods_keep_documentation_witness:
  "subdataByMatching anchored_exec (\<lambda>i. 7) (Ok sample_regex) [65, 66, 67] = Ok [65, 66] \<and>
   data_isMatchedByRegex_inRange anchored_exec (\<lambda>i. 7) (Ok sample_regex) [65, 66, 67] (NSMakeRange 1 2) = Ok False"
proof -
  have c: "unat (captureCount sample_regex) \<le> 170" "0 < captureCount sample_regex" "1 < captureCount sample_regex"
    by (simp_all add: sample_regex_def)
  have d: "[65, 66, 67 :: byte] \<noteq> []" "length [65, 66, 67 :: byte] \<le> 2147483647"
    "range_within (NSMakeRange 1 2) (length [65, 66, 67 :: byte])"
    by (simp_all add: range_within_def range_end_def)
  have m: "library_match anchored_exec sample_regex [65, 66, 67] (data_length [65, 66, 67]) (NSMakeRange 1 2) RKMatchNoOptions = None"
    "library_match anchored_exec sample_regex [65, 66, 67] (data_length [65, 66, 67])
       (NSMakeRange 0 (data_length [65, 66, 67])) RKMatchNoOptions = Some (2, [NSMakeRange 0 2, NSMakeRange 1 1])"
    by (simp_all add: library_match_def anchored_exec_def sample_exec_def sample_regex_def RK_PRESIZE_CAPTURE_COUNT_def
        range_end_def data_length_def expected_range_def range_of_vectors_def upt_conv_Cons)
  show ?thesis
    using data_methods_keep_documentation [OF anchored_exec_documented c(1,2) d(1,2,3) c(3), where junk = "\<lambda>i. 7"]
    by (simp add: Let_def m data_isMatchedByRegex_inRange_contract_def subdataByMatching_contract_def bytes_of_range_def)
qed

end
