(* ===== verification/RK_UtilityContract.thy ===== *)
theory RK_UtilityContract
  imports RK_Utility RK_Unicode
begin

text \<open>
  What \<open>RKUtility.h\<close> documents for the functions that decode option sets and error codes, proved of the
  code in \<open>RK_Utility\<close>; and the inline function of \<open>RKUnicode.h\<close> that copies a string into a C buffer.
\<close>

section \<open>Documented behaviour\<close>

text \<open>The newline sequences and, for each kind of option, the bits that have a name.\<close>

definition newline_sequences :: "(u32 \<times> string) list" where
  "newline_sequences =
     [(RKMatchNewlineDefault, ''Default''), (RKMatchNewlineCR, ''NewlineCR''), (RKMatchNewlineLF, ''NewlineLF''),
      (RKMatchNewlineCRLF, ''NewlineCRLF''), (RKMatchNewlineAnyCRLF, ''NewlineAnyCRLF''), (RKMatchNewlineAny, ''NewlineAny'')]"

definition RKStringFromNewlineOption_contract :: "u32 \<Rightarrow> string \<Rightarrow> option_text \<Rightarrow> bool" where
  "RKStringFromNewlineOption_contract decodeNewlineOption prefixString result \<longleftrightarrow>
     (case map_of newline_sequences (decodeNewlineOption AND RKMatchNewlineMask) of
        Some newline \<Rightarrow> result = OptionName (prefixString @ newline)
      | None \<Rightarrow> result = UnknownNewline (decodeNewlineOption AND RKMatchNewlineMask))"

text \<open>
  An array of options: a name for each bit that is set and has one, the newline sequence if one is set, and
  a text for undecoded bits if there are any.
\<close>

definition names_individual_bits :: "(string \<times> u32) list \<Rightarrow> string \<Rightarrow> u32 \<Rightarrow> option_text list \<Rightarrow> bool" where
  "names_individual_bits bits prefix opts result \<longleftrightarrow>
     (\<forall>(name, bit) \<in> set bits. bit \<noteq> 0 \<longrightarrow> (OptionName name \<in> set result \<longleftrightarrow> opts AND bit \<noteq> 0)) \<and>
     (opts AND RKMatchNewlineMask \<noteq> 0 \<longrightarrow> RKStringFromNewlineOption opts prefix \<in> set result) \<and>
     ((\<exists>w. UnknownOptions w \<in> set result) \<longleftrightarrow> opts AND NOT (table_bits bits OR RKMatchNewlineMask) \<noteq> 0)"

definition RKArrayFromMatchOption_contract :: "u32 \<Rightarrow> option_text list \<Rightarrow> bool" where
  "RKArrayFromMatchOption_contract decodeMatchOption result \<longleftrightarrow>
     names_individual_bits match_option_table ''RKMatch'' decodeMatchOption result \<and>
     (decodeMatchOption = 0 \<longrightarrow> result = [OptionName ''RKMatchNoOptions'']) \<and>
     (decodeMatchOption = RKMatchAnchored OR RKMatchNoUTF8Check \<longrightarrow>
        result = [OptionName ''RKMatchAnchored'', OptionName ''RKMatchNoUTF8Check''])"

definition RKArrayFromCompileOption_contract :: "u32 \<Rightarrow> option_text list \<Rightarrow> bool" where
  "RKArrayFromCompileOption_contract decodeCompileOption result \<longleftrightarrow>
     names_individual_bits compile_option_table ''RKCompile'' decodeCompileOption result \<and>
     (decodeCompileOption = 0 \<longrightarrow> result = [OptionName ''RKCompileNoOptions''])"

definition RKArrayFromBuildConfig_contract :: "u32 \<Rightarrow> option_text list \<Rightarrow> bool" where
  "RKArrayFromBuildConfig_contract decodeBuildConfig result \<longleftrightarrow>
     names_individual_bits build_config_table ''RKBuildConfig'' decodeBuildConfig result"

definition RKStringFromCompileErrorCode_contract :: "int \<Rightarrow> error_text \<Rightarrow> bool" where
  "RKStringFromCompileErrorCode_contract decodeErrorCode result \<longleftrightarrow>
     (\<forall>(name, code) \<in> set RKCompileErrorCode_enum. code = decodeErrorCode \<longrightarrow> result = ErrorName name) \<and>
     (decodeErrorCode \<notin> snd ` set RKCompileErrorCode_enum \<longrightarrow> result = UnknownErrorCode decodeErrorCode)"

definition RKStringFromMatchErrorCode_contract :: "int \<Rightarrow> error_text \<Rightarrow> bool" where
  "RKStringFromMatchErrorCode_contract decodeErrorCode result \<longleftrightarrow>
     (\<forall>(name, code) \<in> set RKMatchErrorCode_enum. code = decodeErrorCode \<longrightarrow> result = ErrorName name) \<and>
     (decodeErrorCode \<notin> snd ` set RKMatchErrorCode_enum \<longrightarrow> result = UnknownErrorCode decodeErrorCode)"

section \<open>The functions do what is documented\<close>

lemma newline_contract:
  "RKStringFromNewlineOption_contract opts prefix (RKStringFromNewlineOption opts prefix)"
  by (simp add: RKStringFromNewlineOption_contract_def RKStringFromNewlineOption_def newline_sequences_def Let_def
      option_bits)

text \<open>What the chain of \<open>if\<close> statements appends.\<close>

lemma fold_decode:
  "fold (decode_option opts) table (ss, d) =
     (ss @ map (OptionName \<circ> fst) (filter (\<lambda>e. opts AND snd e \<noteq> 0) table),
      d OR foldr (\<lambda>e acc. snd e OR acc) (filter (\<lambda>e. opts AND snd e \<noteq> 0) table) 0)"
  by (induction table arbitrary: ss d) (simp_all add: decode_option_def or.assoc)

lemma decoded_names:
  assumes ok: "table_ok names table" and names: "distinct (map fst table)"
    and start: "start = 0 \<or> start = RKMatchNewlineMask"
    and none: "none \<notin> fst ` {e \<in> set table. snd e \<noteq> 0}"
    and newline: "\<forall>newline \<in> snd ` set newline_sequences. prefix @ newline \<notin> fst ` set table"
  shows "names_individual_bits table prefix opts (decode_options start table prefix none opts)"
proof -
  let ?M = "RKMatchNewlineMask"
  define set_entries where "set_entries = filter (\<lambda>e. opts AND snd e \<noteq> 0) table"
  define known where "known = start OR foldr (\<lambda>e acc. snd e OR acc) set_entries 0"
  define left where "left = ((known OR (opts AND ?M)) XOR 0xFFFFFFFF) AND opts"
  have bits: "snd (fold (decode_option opts) table ([], start)) = start OR (opts AND table_bits table)"
    using decode_fold [OF ok, of opts "[]" start] by (simp add: Let_def)
  then have known: "known = start OR (opts AND table_bits table)"
    by (simp add: known_def set_entries_def fold_decode)
  have left: "left = opts AND NOT (table_bits table OR ?M)"
  proof -
    have ones: "(0xFFFFFFFF :: u32) = - 1" by simp
    show ?thesis
      unfolding left_def known ones using start by (auto intro!: bit_word_eqI simp: bit_simps)
  qed
  define strings where "strings = map (OptionName \<circ> fst) set_entries @
    (if opts AND ?M \<noteq> 0 then [RKStringFromNewlineOption opts prefix] else []) @
    (if left \<noteq> 0 then [UnknownOptions left] else [])"
  have run: "decode_options start table prefix none opts = (if strings = [] then [OptionName none] else strings)"
    by (simp add: decode_options_def fold_decode set_entries_def [symmetric] known_def [symmetric]
        left_def [symmetric] strings_def Let_def)
  have newline_name: "RKStringFromNewlineOption opts prefix \<noteq> OptionName n" if n: "n \<in> fst ` set table" for n
  proof (cases "map_of newline_sequences (opts AND RKMatchNewlineMask)")
    case None
    then show ?thesis using newline_contract [of opts prefix] by (simp add: RKStringFromNewlineOption_contract_def)
  next
    case (Some nl)
    then have "nl \<in> snd ` set newline_sequences" by (metis image_eqI map_of_SomeD snd_conv)
    then have "prefix @ nl \<noteq> n" using newline n by blast
    then show ?thesis
      using newline_contract [of opts prefix] Some by (simp add: RKStringFromNewlineOption_contract_def)
  qed
  have entry: "OptionName n \<in> set (map (OptionName \<circ> fst) set_entries) \<longleftrightarrow> opts AND b \<noteq> 0" if "(n, b) \<in> set table" for n b
    using that names by (force simp: set_entries_def distinct_map inj_on_def)
  have "OptionName n \<in> set (decode_options start table prefix none opts) \<longleftrightarrow> opts AND b \<noteq> 0"
    if e: "(n, b) \<in> set table" "b \<noteq> 0" for n b
  proof (cases "strings = []")
    case True
    moreover have "n \<noteq> none" using none e by force
    ultimately show ?thesis using entry [OF e(1)] by (simp add: run strings_def split: if_splits)
  next
    case False
    then show ?thesis
      using entry [OF e(1)] newline_name [of n] e(1) by (force simp: run strings_def)
  qed
  moreover have "RKStringFromNewlineOption opts prefix \<in> set (decode_options start table prefix none opts)"
    if "opts AND ?M \<noteq> 0"
    using that by (simp add: run strings_def)
  moreover have "(\<exists>w. UnknownOptions w \<in> set (decode_options start table prefix none opts)) \<longleftrightarrow> left \<noteq> 0"
    using newline_contract [of opts prefix]
    by (auto simp: run strings_def RKStringFromNewlineOption_contract_def split: option.splits)
  ultimately show ?thesis
    unfolding names_individual_bits_def left [symmetric] by blast
qed

lemma error_name_contract:
  assumes "distinct (map snd enum)" "strings = map (\<lambda>(n, v). (v, n)) enum"
    and "result = (case map_of strings code of Some s \<Rightarrow> ErrorName s | None \<Rightarrow> UnknownErrorCode code)"
  shows "(\<forall>(name, c) \<in> set enum. c = code \<longrightarrow> result = ErrorName name) \<and>
    (code \<notin> snd ` set enum \<longrightarrow> result = UnknownErrorCode code)"
proof (intro conjI impI)
  show "\<forall>(name, c) \<in> set enum. c = code \<longrightarrow> result = ErrorName name"
    using map_of_swap [OF assms(1)] by (auto simp: assms(2,3))
  assume "code \<notin> snd ` set enum"
  then have "code \<notin> fst ` set strings" by (force simp: assms(2))
  then have "map_of strings code = None" by (metis map_of_eq_None_iff)
  then show "result = UnknownErrorCode code" by (simp add: assms(3))
qed

lemma decoded_examples:
  "RKArrayFromMatchOption 0 = [OptionName ''RKMatchNoOptions'']"
  "RKArrayFromMatchOption (RKMatchAnchored OR RKMatchNoUTF8Check) =
     [OptionName ''RKMatchAnchored'', OptionName ''RKMatchNoUTF8Check'']"
  "RKArrayFromCompileOption 0 = [OptionName ''RKCompileNoOptions'']"
  by (simp_all add: RKArrayFromMatchOption_def RKArrayFromCompileOption_def decode_options_def decode_option_def
      match_option_table_def compile_option_table_def option_bits)

text \<open>A positive match error code is unknown, but is answered with the empty string, not with the documented text.\<close>

lemma positive_match_code:
  "0 < code \<Longrightarrow> RKStringFromMatchErrorCode code = ErrorName [] \<and>
    \<not> RKStringFromMatchErrorCode_contract code (RKStringFromMatchErrorCode code)"
  using error_tables_swap(5)
  by (auto simp: RKStringFromMatchErrorCode_def RKStringFromMatchErrorCode_contract_def list_all_iff)

text \<open>
  The decoding functions do what the header documents: for every option word the array names exactly
  the set bits that have a name, the newline sequence, and undecoded bits if and only if some are left;
  no options give the documented name; every compile error code, and every match error code up to 0, is
  named after its enumerator or reported as unknown.
\<close>

lemma utility_functions_documented:
  "RKStringFromNewlineOption_contract opts prefix (RKStringFromNewlineOption opts prefix) \<and>
   RKArrayFromMatchOption_contract opts (RKArrayFromMatchOption opts) \<and>
   RKArrayFromCompileOption_contract opts (RKArrayFromCompileOption opts) \<and>
   RKArrayFromBuildConfig_contract opts (RKArrayFromBuildConfig opts) \<and>
   RKStringFromCompileErrorCode_contract code (RKStringFromCompileErrorCode code) \<and>
   (code \<le> 0 \<longrightarrow> RKStringFromMatchErrorCode_contract code (RKStringFromMatchErrorCode code))"
proof (intro conjI impI newline_contract)
  have tables: "table_ok (match_option_table @ newline_names ''RKMatch'') match_option_table"
    "table_ok (compile_option_table @ newline_names ''RKCompile'') compile_option_table"
    "table_ok (build_config_table @ newline_names ''RKBuildConfig'') build_config_table"
    by (simp_all add: table_ok_def match_option_table_def compile_option_table_def build_config_table_def
        newline_names_def option_bits single_bits_list map_add_def)
  have distinct: "distinct (map fst match_option_table)" "distinct (map fst compile_option_table)"
    "distinct (map fst build_config_table)"
    by (simp_all add: match_option_table_def compile_option_table_def build_config_table_def)
  have none: "''RKMatchNoOptions'' \<notin> fst ` {e \<in> set match_option_table. snd e \<noteq> 0}"
    "''RKCompileNoOptions'' \<notin> fst ` {e \<in> set compile_option_table. snd e \<noteq> 0}"
    "''RKBuildConfigNoOptions'' \<notin> fst ` {e \<in> set build_config_table. snd e \<noteq> 0}"
    by (auto simp: match_option_table_def compile_option_table_def build_config_table_def RKCompileNoOptions_def)
  have newline: "\<forall>newline \<in> snd ` set newline_sequences. ''RKMatch'' @ newline \<notin> fst ` set match_option_table"
    "\<forall>newline \<in> snd ` set newline_sequences. ''RKCompile'' @ newline \<notin> fst ` set compile_option_table"
    "\<forall>newline \<in> snd ` set newline_sequences. ''RKBuildConfig'' @ newline \<notin> fst ` set build_config_table"
    by (simp_all add: newline_sequences_def match_option_table_def compile_option_table_def build_config_table_def)
  have starts: "RKMatchNewlineMask = 0 \<or> RKMatchNewlineMask = RKMatchNewlineMask"
    "RKCompileNewlineMask = 0 \<or> RKCompileNewlineMask = RKMatchNewlineMask"
    "RKBuildConfigNoOptions = 0 \<or> RKBuildConfigNoOptions = RKMatchNewlineMask"
    by (simp_all add: option_bits)
  note named = decoded_names [OF tables(1) distinct(1) starts(1) none(1) newline(1)]
    decoded_names [OF tables(2) distinct(2) starts(2) none(2) newline(2)]
    decoded_names [OF tables(3) distinct(3) starts(3) none(3) newline(3)]
  show "RKArrayFromMatchOption_contract opts (RKArrayFromMatchOption opts)"
    unfolding RKArrayFromMatchOption_contract_def
    using named(1) [of opts, folded RKArrayFromMatchOption_def] decoded_examples by blast
  show "RKArrayFromCompileOption_contract opts (RKArrayFromCompileOption opts)"
    unfolding RKArrayFromCompileOption_contract_def
    using named(2) [of opts, folded RKArrayFromCompileOption_def] decoded_examples by blast
  show "RKArrayFromBuildConfig_contract opts (RKArrayFromBuildConfig opts)"
    using named(3) unfolding RKArrayFromBuildConfig_contract_def RKArrayFromBuildConfig_def by blast
  show "RKStringFromCompileErrorCode_contract code (RKStringFromCompileErrorCode code)"
    unfolding RKStringFromCompileErrorCode_contract_def
    by (rule error_name_contract [OF error_enums_distinct(2) error_tables_swap(1)])
      (rule RKStringFromCompileErrorCode_def)
  show "RKStringFromMatchErrorCode_contract code (RKStringFromMatchErrorCode code)" if "code \<le> 0"
    unfolding RKStringFromMatchErrorCode_contract_def
    by (rule error_name_contract [OF error_enums_distinct(1) error_tables_swap(2)])
      (use that in \<open>simp add: RKStringFromMatchErrorCode_def\<close>)
qed

lemma utility_functions_documented_witness:
  "RKStringFromMatchErrorCode_contract (- 8) (RKStringFromMatchErrorCode (- 8))"
  using utility_functions_documented [of 0 "[]" "- 8"] by simp

section \<open>A string as a C string\<close>

text \<open>
  \<open>RKGetUTF8String\<close>. Core Foundation's \<open>CFStringGetBytes\<close> writes the UTF-8 bytes of as many characters
  as fit and returns the number of UTF-16 units it converted. \<open>None\<close> stands for a \<open>NULL\<close> argument, and
  the result is the buffer afterwards. The second form is for Foundation's \<open>getCString:maxLength:encoding:\<close>,
  which writes the bytes with their NUL if they fit (\<open>None\<close> if not).
\<close>

definition RKGetUTF8String ::
  "(nat \<Rightarrow> byte list \<times> nat) option \<Rightarrow> byte list option \<Rightarrow> u64 \<Rightarrow> byte list run" where
  "RKGetUTF8String string temporaryBuffer len =
     (case (string, temporaryBuffer) of
        (Some getBytes, Some buffer) \<Rightarrow>
          if len = 0 then Raise NSInternalInconsistencyException
          else let (bytes, copiedLength) = getBytes (unat (len - 1));
                   buffer = bytes @ drop (length bytes) buffer
               in if copiedLength < length buffer then Ok (buffer[copiedLength := 0]) else Undefined
      | _ \<Rightarrow> Raise NSInternalInconsistencyException)"

definition RKGetUTF8String_foundation ::
  "(nat \<Rightarrow> byte list option) option \<Rightarrow> byte list option \<Rightarrow> u64 \<Rightarrow> byte list run" where
  "RKGetUTF8String_foundation string temporaryBuffer len =
     (case (string, temporaryBuffer) of
        (Some getCString, Some (b # buffer)) \<Rightarrow>
          if len = 0 then Raise NSInternalInconsistencyException
          else (case getCString (unat len) of
                  Some bytes \<Rightarrow> Ok (bytes @ drop (length bytes) (0 # buffer))
                | None \<Rightarrow> Ok (0 # buffer))
      | (Some getCString, Some []) \<Rightarrow> if len = 0 then Raise NSInternalInconsistencyException else Undefined
      | _ \<Rightarrow> Raise NSInternalInconsistencyException)"

definition get_bytes_contract :: "nat list \<Rightarrow> (nat \<Rightarrow> byte list \<times> nat) \<Rightarrow> bool" where
  "get_bytes_contract cps getBytes \<longleftrightarrow>
     (\<forall>room. \<exists>k \<le> length cps. getBytes room = (utf8_of (take k cps), w16 cps k) \<and> w8 cps k \<le> room \<and>
        (k < length cps \<longrightarrow> room < w8 cps (Suc k)))"

text \<open>
  The call stays inside the buffer, and what it leaves there starts with the bytes of the characters that
  fit; but the NUL comes after as many bytes as there are UTF-16 units, so only of an ASCII text is this
  all of them.
\<close>

lemma get_utf8_string:
  assumes "get_bytes_contract cps getBytes" "length buffer = unat len" "0 < len"
  obtains k where "k \<le> length cps" "w8 cps k < unat len" "k < length cps \<Longrightarrow> unat len \<le> w8 cps (Suc k)"
    "RKGetUTF8String (Some getBytes) (Some buffer) len =
      Ok ((utf8_of (take k cps) @ drop (w8 cps k) buffer)[w16 cps k := 0])"
    "w16 cps k \<le> w8 cps k"
proof -
  have room: "unat (len - 1) = unat len - 1" "0 < unat len"
    using assms(3) unat_minus_small [of 1 len] by (simp_all add: word_less_nat_alt word_le_nat_alt)
  obtain k where k: "k \<le> length cps" "getBytes (unat len - 1) = (utf8_of (take k cps), w16 cps k)" "w8 cps k \<le> unat len - 1"
    "k < length cps \<Longrightarrow> unat len - 1 < w8 cps (Suc k)"
    using assms(1) unfolding get_bytes_contract_def by blast
  have le: "w16 cps k \<le> w8 cps k" using k(1) by (rule w16_le_w8)
  have "length (utf8_of (take k cps)) = w8 cps k" by (simp add: w8_def utf8_width_def)
  then have "RKGetUTF8String (Some getBytes) (Some buffer) len =
      Ok ((utf8_of (take k cps) @ drop (w8 cps k) buffer)[w16 cps k := 0])"
    using k(2,3) assms(2,3) room le by (auto simp: RKGetUTF8String_def)
  then show ?thesis using that [of k] k room le by linarith
qed

lemma utf8_string_cut:
  "RKGetUTF8String (Some (\<lambda>room. (utf8_of [0xE9, 0x61], 2))) (Some [9, 9, 9, 9, 9]) 5 = Ok [0xC3, 0xA9, 0, 9, 9]"
  by (simp add: RKGetUTF8String_def utf8_of_def utf8_encode_def)

end
