(* ===== verification/RK_SortedCollection.thy ===== *)
theory RK_SortedCollection
  imports RK_Regex
begin

text \<open>
  \<open>RKSortedRegexCollection\<close>: matching an object against all regexes of an array or a set at once. The
  worker threads of the pool run one function over a shared match state; it is modelled as a thread
  program whose steps read or write the shared state once, so that every interleaving of any number of
  threads is a run. Around it are the hit counts, the sorting by them and the cache of objects that
  matched nothing, and the methods of \<open>NSObject.m\<close> that use all this.
\<close>

section \<open>The collection and the match state\<close>

datatype RKCollectionType = RKUnknownCollection | RKArrayCollection | RKSetCollection | RKDictionaryCollection

definition RKStringFromCollectionType :: "RKCollectionType \<Rightarrow> string" where
  "RKStringFromCollectionType collectionType =
     (case collectionType of
        RKArrayCollection \<Rightarrow> ''Array'' | RKSetCollection \<Rightarrow> ''Set'' | RKDictionaryCollection \<Rightarrow> ''Dictionary''
      | RKUnknownCollection \<Rightarrow> ''Unknown'')"

definition RK_SORTED_REGEX_COLLECTION_CACHE_BUCKETS :: u64 where
  "RK_SORTED_REGEX_COLLECTION_CACHE_BUCKETS = 251"

text \<open>
  An element has a regex and a hit count. \<open>sortedElements\<close> are pointers to the elements, here their
  indexes, so that the pointer difference in the code is the index itself. \<open>missedHits\<close> and \<open>missedMisses\<close> are
  the members \<open>cacheHits\<close> and \<open>cacheMisses\<close>.
\<close>

record 'r RKCollectionElement =
  element_regex :: 'r
  hitCount :: u64

record 'r RKSortedRegexCollection =
  collectionType :: RKCollectionType
  resortRequired :: bool
  coll_elements :: "'r RKCollectionElement list"
  sortedElements :: "nat list"
  missedObjectHashCache :: "u64 list"
  missedHits :: u64
  missedMisses :: u64

record 'r match_state =
  findLowestIndex :: bool
  atSortedIndex :: nat
  highestMatchingArrayIndex :: nat
  finished :: bool
  matchedRegex :: "'r option"
  matchingSortedIndex :: nat
  matchingCollectionIndex :: nat

definition collectionCount :: "'r RKSortedRegexCollection \<Rightarrow> nat" where
  "collectionCount c = length (coll_elements c)"

definition sorted_regex :: "'r RKSortedRegexCollection \<Rightarrow> nat \<Rightarrow> 'r" where
  "sorted_regex c k = element_regex (coll_elements c ! (sortedElements c ! k))"

section \<open>The thread function\<close>

text \<open>
  The test that decides whether a match ends the search: it does unless the lowest index is wanted, and
  then only for a set, or for the first regex of an array.
\<close>

definition settles :: "'r RKSortedRegexCollection \<Rightarrow> bool \<Rightarrow> nat \<Rightarrow> bool" where
  "settles c lowestIndex i \<longleftrightarrow>
     \<not> lowestIndex \<or> collectionType c = RKSetCollection \<or>
     (collectionType c = RKArrayCollection \<and> sortedElements c ! i = 0)"

text \<open>
  The points of \<open>threadMatchEntryFunction\<close> between two accesses to the shared state; \<open>i\<close> is
  \<open>threadAtSortedIndex\<close> and \<open>e\<close> the value the atomic exchange expects.
\<close>

datatype match_point =
    CheckFinished | CheckMatched | CheckAt
  | FetchIndex
  | TestFinished nat | TestMatched nat | TestHighest nat
  | CompareIndex nat | MatchRegex nat
  | ClaimMatch nat | SetSorted nat | SetIndex nat | SetFinished nat
  | ReadHighest nat | ReadExpected nat | ExchangeHighest nat nat
  | AfterMiss nat | MissFinish
  | LeaveMatched | LeaveAt | LeaveFinished | LeaveExchange
  | ThreadDone

text \<open>
  One step of a thread. \<open>matches\<close> is what \<open>matchesCharacters:\<close> answers for a regex and the text of the
  object. Of the two accesses of an atomic operation nothing can come in between.
\<close>

fun thread_step ::
  "'r RKSortedRegexCollection \<Rightarrow> ('r \<Rightarrow> bool) \<Rightarrow> 'r match_state \<Rightarrow> match_point \<Rightarrow> 'r match_state \<times> match_point" where
  "thread_step c matches st CheckFinished = (st, if \<not> finished st then CheckMatched else LeaveMatched)"
| "thread_step c matches st CheckMatched = (st, if matchedRegex st = None then CheckAt else LeaveMatched)"
| "thread_step c matches st CheckAt = (st, if atSortedIndex st < collectionCount c then FetchIndex else LeaveMatched)"
| "thread_step c matches st FetchIndex =
     (st\<lparr>atSortedIndex := Suc (atSortedIndex st)\<rparr>, TestFinished (atSortedIndex st))"
| "thread_step c matches st (TestFinished i) = (st, if \<not> finished st then TestMatched i else LeaveMatched)"
| "thread_step c matches st (TestMatched i) =
     (st, if matchedRegex st = None \<and> i < collectionCount c then TestHighest i else LeaveMatched)"
| "thread_step c matches st (TestHighest i) =
     (st, if highestMatchingArrayIndex st > 0 then CompareIndex i else LeaveMatched)"
| "thread_step c matches st (CompareIndex i) =
     (st, if sortedElements c ! i > highestMatchingArrayIndex st then FetchIndex else MatchRegex i)"
| "thread_step c matches st (MatchRegex i) =
     (st, if matches (sorted_regex c i) then
            (if settles c (findLowestIndex st) i then ClaimMatch i else ReadHighest i)
          else AfterMiss i)"
| "thread_step c matches st (ClaimMatch i) =
     (if matchedRegex st = None then (st\<lparr>matchedRegex := Some (sorted_regex c i)\<rparr>, SetSorted i)
      else (st, LeaveMatched))"
| "thread_step c matches st (SetSorted i) = (st\<lparr>matchingSortedIndex := i\<rparr>, SetIndex i)"
| "thread_step c matches st (SetIndex i) = (st\<lparr>matchingCollectionIndex := sortedElements c ! i\<rparr>, SetFinished i)"
| "thread_step c matches st (SetFinished i) = (st\<lparr>finished := True\<rparr>, LeaveMatched)"
| "thread_step c matches st (ReadHighest i) =
     (st, if highestMatchingArrayIndex st > sortedElements c ! i then ReadExpected i else FetchIndex)"
| "thread_step c matches st (ReadExpected i) = (st, ExchangeHighest i (highestMatchingArrayIndex st))"
| "thread_step c matches st (ExchangeHighest i e) =
     (if highestMatchingArrayIndex st = e
      then (st\<lparr>highestMatchingArrayIndex := sortedElements c ! i\<rparr>, FetchIndex)
      else (st, ReadHighest i))"
| "thread_step c matches st (AfterMiss i) = (st, if atSortedIndex st \<ge> collectionCount c then MissFinish else FetchIndex)"
| "thread_step c matches st MissFinish = (st\<lparr>finished := True\<rparr>, LeaveMatched)"
| "thread_step c matches st LeaveMatched = (st, if matchedRegex st \<noteq> None then LeaveFinished else LeaveAt)"
| "thread_step c matches st LeaveAt = (st, if atSortedIndex st \<ge> collectionCount c then LeaveFinished else ThreadDone)"
| "thread_step c matches st LeaveFinished = (st, if \<not> finished st then LeaveExchange else ThreadDone)"
| "thread_step c matches st LeaveExchange = (st\<lparr>finished := True\<rparr>, ThreadDone)"
| "thread_step c matches st ThreadDone = (st, ThreadDone)"

text \<open>Any thread that has not returned may take the next step.\<close>

inductive match_step ::
  "'r RKSortedRegexCollection \<Rightarrow> ('r \<Rightarrow> bool) \<Rightarrow> 'r match_state \<times> match_point list \<Rightarrow> 'r match_state \<times> match_point list \<Rightarrow> bool"
  for c matches where
  thread: "t < length points \<Longrightarrow> points ! t \<noteq> ThreadDone \<Longrightarrow> thread_step c matches st (points ! t) = (st', point') \<Longrightarrow>
    match_step c matches (st, points) (st', points[t := point'])"

abbreviation match_run where
  "match_run c matches \<equiv> (match_step c matches)\<^sup>*\<^sup>*"

definition start_match :: "bool \<Rightarrow> 'r match_state" where
  "start_match lowestIndex =
     \<lparr>findLowestIndex = lowestIndex, atSortedIndex = 0, highestMatchingArrayIndex = unat RKUIntegerMax,
      finished = False, matchedRegex = None, matchingSortedIndex = 0, matchingCollectionIndex = 0\<rparr>"

definition start_threads :: "nat \<Rightarrow> bool \<Rightarrow> 'r match_state \<times> match_point list" where
  "start_threads n lowestIndex = (start_match lowestIndex, replicate n CheckFinished)"

definition all_done :: "match_point list \<Rightarrow> bool" where
  "all_done points \<longleftrightarrow> list_all (\<lambda>p. p = ThreadDone) points"

section \<open>What a reported match is\<close>

fun writing :: "match_point \<Rightarrow> bool" where
  "writing (SetSorted i) = True"
| "writing (SetIndex i) = True"
| "writing (SetFinished i) = True"
| "writing p = False"

fun claims :: "match_point \<Rightarrow> nat option" where
  "claims (TestHighest i) = Some i"
| "claims (CompareIndex i) = Some i"
| "claims (MatchRegex i) = Some i"
| "claims (ClaimMatch i) = Some i"
| "claims p = None"

fun records_match :: "'r RKSortedRegexCollection \<Rightarrow> 'r match_state \<Rightarrow> nat \<Rightarrow> match_point \<Rightarrow> bool" where
  "records_match c st k (SetSorted i) \<longleftrightarrow> i = k"
| "records_match c st k (SetIndex i) \<longleftrightarrow> i = k \<and> matchingSortedIndex st = k"
| "records_match c st k p \<longleftrightarrow> matchingSortedIndex st = k \<and> matchingCollectionIndex st = sortedElements c ! k"

text \<open>
  The invariant: a thread at work has an index in range, which it claims only if its regex matches; and
  once a regex is reported it matches, and one thread only has recorded or is recording its indexes.
\<close>

definition reported_once :: "'r RKSortedRegexCollection \<Rightarrow> ('r \<Rightarrow> bool) \<Rightarrow> 'r match_state \<Rightarrow> match_point list \<Rightarrow> nat \<Rightarrow> nat \<Rightarrow> bool" where
  "reported_once c matches st points w k \<longleftrightarrow>
     w < length points \<and> k < collectionCount c \<and> matchedRegex st = Some (sorted_regex c k) \<and>
     matches (sorted_regex c k) \<and> settles c (findLowestIndex st) k \<and> records_match c st k (points ! w) \<and>
     (\<forall>t < length points. t \<noteq> w \<longrightarrow> \<not> writing (points ! t))"

definition match_sound :: "'r RKSortedRegexCollection \<Rightarrow> ('r \<Rightarrow> bool) \<Rightarrow> 'r match_state \<times> match_point list \<Rightarrow> bool" where
  "match_sound c matches s \<longleftrightarrow> (case s of (st, points) \<Rightarrow>
     (\<forall>t < length points. \<forall>i. claims (points ! t) = Some i \<longrightarrow> i < collectionCount c) \<and>
     (\<forall>t < length points. \<forall>i. points ! t = ClaimMatch i \<longrightarrow> matches (sorted_regex c i) \<and> settles c (findLowestIndex st) i) \<and>
     (if matchedRegex st = None then \<forall>t < length points. \<not> writing (points ! t)
      else \<exists>w k. reported_once c matches st points w k))"

lemma thread_step_lowest: "thread_step c matches st p = (st', p') \<Longrightarrow> findLowestIndex st' = findLowestIndex st"
  by (cases p) (auto split: if_splits)

lemma match_run_lowest: "match_run c matches s s' \<Longrightarrow> findLowestIndex (fst s') = findLowestIndex (fst s)"
  by (induction rule: rtranclp_induct) (auto elim!: match_step.cases dest: thread_step_lowest)

lemma match_run_threads: "match_run c matches s s' \<Longrightarrow> length (snd s') = length (snd s)"
  by (induction rule: rtranclp_induct) (auto elim!: match_step.cases)

lemma match_sound_reported:
  assumes "\<forall>t < length points. \<forall>i. claims (points ! t) = Some i \<longrightarrow> i < collectionCount c"
    "\<forall>t < length points. \<forall>i. points ! t = ClaimMatch i \<longrightarrow> matches (sorted_regex c i) \<and> settles c (findLowestIndex st) i"
    "reported_once c matches st points w k"
  shows "match_sound c matches (st, points)"
proof -
  have "matchedRegex st \<noteq> None" using assms(3) by (simp add: reported_once_def)
  then show ?thesis unfolding match_sound_def using assms by auto
qed

lemma match_sound_step:
  assumes "match_sound c matches s" "match_step c matches s s'"
  shows "match_sound c matches s'"
  using assms(2)
proof cases
  case (thread t points st st' point')
  note s = thread(1) and s' = thread(2) and t = thread(3) and step = thread(5)
  have inv: "\<And>t i. t < length points \<Longrightarrow> claims (points ! t) = Some i \<Longrightarrow> i < collectionCount c"
    "\<And>t i. t < length points \<Longrightarrow> points ! t = ClaimMatch i \<Longrightarrow> matches (sorted_regex c i) \<and> settles c (findLowestIndex st) i"
    "if matchedRegex st = None then \<forall>t < length points. \<not> writing (points ! t)
     else \<exists>w k. reported_once c matches st points w k"
    using assms(1) by (auto simp: match_sound_def s)
  have low: "findLowestIndex st' = findLowestIndex st" using step by (rule thread_step_lowest)
  have own: "(\<forall>i. claims point' = Some i \<longrightarrow> i < collectionCount c) \<and>
      (\<forall>i. point' = ClaimMatch i \<longrightarrow> matches (sorted_regex c i) \<and> settles c (findLowestIndex st) i)"
    using step inv(1,2) [OF t] by (cases "points ! t") (auto split: if_splits)
  have claim: "\<forall>u < length (points[t := point']). \<forall>i. claims (points[t := point'] ! u) = Some i \<longrightarrow> i < collectionCount c"
    "\<forall>u < length (points[t := point']). \<forall>i. points[t := point'] ! u = ClaimMatch i \<longrightarrow>
       matches (sorted_regex c i) \<and> settles c (findLowestIndex st') i"
    using own inv(1,2) t low by (auto simp: nth_list_update split: if_splits)
  show ?thesis
  proof (cases "matchedRegex st")
    case None
    then have quiet: "\<not> writing (points ! u)" if "u < length points" for u using inv(3) that by simp
    show ?thesis
    proof (cases "\<exists>i. points ! t = ClaimMatch i")
      case True
      then obtain i where i: "points ! t = ClaimMatch i" ..
      then have "i < collectionCount c" "matches (sorted_regex c i)" "settles c (findLowestIndex st) i" using inv(1,2) [OF t] by auto
      moreover have "st' = st\<lparr>matchedRegex := Some (sorted_regex c i)\<rparr>" "point' = SetSorted i"
        using step i None by auto
      ultimately have "reported_once c matches st' (points[t := point']) t i"
        using quiet t by (auto simp: reported_once_def nth_list_update)
      then show ?thesis unfolding s' by (rule match_sound_reported [OF claim])
    next
      case False
      then have "matchedRegex st' = None \<and> \<not> writing point'"
        using step None quiet [OF t] by (cases "points ! t") (auto split: if_splits)
      then show ?thesis
        using claim quiet t unfolding match_sound_def s' by (auto simp: nth_list_update)
    qed
  next
    case (Some r)
    then obtain w k where "reported_once c matches st points w k" using inv(3) by auto
    then have w: "w < length points" "k < collectionCount c" "r = sorted_regex c k" "matches (sorted_regex c k)"
      "settles c (findLowestIndex st) k" "records_match c st k (points ! w)" "\<And>u. u < length points \<Longrightarrow> u \<noteq> w \<Longrightarrow> \<not> writing (points ! u)"
      using Some by (auto simp: reported_once_def)
    have "matchedRegex st' = Some r \<and> records_match c st' k (points[t := point'] ! w) \<and> (t \<noteq> w \<longrightarrow> \<not> writing point')"
    proof (cases "t = w")
      case True
      then show ?thesis
        using step Some w(1,6) by (cases "points ! t") (auto split: if_splits)
    next
      case False
      then have "\<not> writing (points ! t)" using w(7) t by blast
      then have "matchedRegex st' = Some r" "matchingSortedIndex st' = matchingSortedIndex st"
        "matchingCollectionIndex st' = matchingCollectionIndex st" "\<not> writing point'"
        using step Some by (cases "points ! t"; auto split: if_splits)+
      then show ?thesis
        using False w(6) by (cases "points ! w") auto
    qed
    then have "reported_once c matches st' (points[t := point']) w k"
      using w t low by (auto simp: reported_once_def nth_list_update)
    then show ?thesis unfolding s' by (rule match_sound_reported [OF claim])
  qed
qed

lemma match_sound_run:
  "match_run c matches s s' \<Longrightarrow> match_sound c matches s \<Longrightarrow> match_sound c matches s'"
  by (induction rule: rtranclp_induct) (auto intro: match_sound_step)

lemma match_sound_start: "match_sound c matches (start_threads n lowestIndex)"
  by (simp add: match_sound_def start_threads_def start_match_def)


text \<open>
  C4. In every interleaving of any number of threads running \<open>threadMatchEntryFunction\<close>: when all have
  returned, a reported regex is one of the collection, it matches, the search may end with it, and the two
  indexes stored with it, by several separate writes, are its own.
\<close>
theorem parallel_match_sound:
  assumes "match_run c matches (start_threads n lowestIndex) (st, points)" "all_done points" "matchedRegex st = Some r"
  shows "\<exists>k < collectionCount c. r = sorted_regex c k \<and> matches r \<and> settles c lowestIndex k \<and>
    matchingSortedIndex st = k \<and> matchingCollectionIndex st = sortedElements c ! k"
proof -
  have "match_sound c matches (st, points)"
    using match_sound_run [OF assms(1) match_sound_start] .
  then obtain w k where k: "reported_once c matches st points w k"
    using assms(3) by (auto simp: match_sound_def)
  moreover have "findLowestIndex st = lowestIndex"
    using match_run_lowest [OF assms(1)] by (simp add: start_threads_def start_match_def)
  moreover from k have "points ! w = ThreadDone" using assms(2) by (auto simp: reported_once_def all_done_def list_all_length)
  ultimately show ?thesis using assms(3) by (auto simp: reported_once_def)
qed

section \<open>Threads return\<close>

text \<open>
  Work left, in two parts. The coarse part falls whenever an index is fetched, an element is finished or
  the highest matching index is lowered; in between the fine part counts the steps of each thread. An
  exchange that will fail, because another thread has just lowered the index, lies above the read of it.
\<close>

fun coarse :: "nat \<Rightarrow> match_point \<Rightarrow> nat" where
  "coarse n CheckFinished = 4"
| "coarse n CheckMatched = 4"
| "coarse n CheckAt = 4"
| "coarse n FetchIndex = 1"
| "coarse n (TestFinished i) = (if i < n then 3 else 0)"
| "coarse n (TestMatched i) = (if i < n then 3 else 0)"
| "coarse n (TestHighest i) = 3"
| "coarse n (CompareIndex i) = 3"
| "coarse n (MatchRegex i) = 3"
| "coarse n (ReadHighest i) = 3"
| "coarse n (ReadExpected i) = 3"
| "coarse n (ExchangeHighest i e) = 3"
| "coarse n (AfterMiss i) = 2"
| "coarse n p = 0"

fun fine :: "nat \<Rightarrow> match_point \<Rightarrow> nat" where
  "fine h CheckFinished = 22"
| "fine h CheckMatched = 21"
| "fine h CheckAt = 20"
| "fine h FetchIndex = 0"
| "fine h (TestFinished i) = 19"
| "fine h (TestMatched i) = 18"
| "fine h (TestHighest i) = 17"
| "fine h (CompareIndex i) = 16"
| "fine h (MatchRegex i) = 15"
| "fine h (ExchangeHighest i e) = (if e = h then 12 else 15)"
| "fine h (ReadHighest i) = 14"
| "fine h (ReadExpected i) = 13"
| "fine h (AfterMiss i) = 0"
| "fine h (ClaimMatch i) = 9"
| "fine h (SetSorted i) = 8"
| "fine h (SetIndex i) = 7"
| "fine h (SetFinished i) = 6"
| "fine h MissFinish = 6"
| "fine h LeaveMatched = 5"
| "fine h LeaveAt = 4"
| "fine h LeaveFinished = 3"
| "fine h LeaveExchange = 2"
| "fine h ThreadDone = 0"

definition match_work :: "'r RKSortedRegexCollection \<Rightarrow> 'r match_state \<times> match_point list \<Rightarrow> nat \<times> nat" where
  "match_work c s = (case s of (st, points) \<Rightarrow>
     (3 * (collectionCount c - atSortedIndex st) + (\<Sum>p\<leftarrow>points. coarse (collectionCount c) p),
      \<Sum>p\<leftarrow>points. fine (highestMatchingArrayIndex st) p))"

lemma thread_step_work:
  assumes "thread_step c matches st p = (st', p')" "p \<noteq> ThreadDone"
  shows "3 * (collectionCount c - atSortedIndex st') + coarse (collectionCount c) p'
       < 3 * (collectionCount c - atSortedIndex st) + coarse (collectionCount c) p \<or>
    atSortedIndex st' = atSortedIndex st \<and> highestMatchingArrayIndex st' = highestMatchingArrayIndex st \<and>
    coarse (collectionCount c) p' \<le> coarse (collectionCount c) p \<and>
    fine (highestMatchingArrayIndex st) p' < fine (highestMatchingArrayIndex st) p"
  using assms by (cases p) (auto split: if_splits)

lemma sum_list_nth_update:
  "t < length xs \<Longrightarrow> (\<Sum>x\<leftarrow>xs[t := y]. f x) + f (xs ! t) = (\<Sum>x\<leftarrow>xs. f x) + (f y :: nat)"
  by (induction xs arbitrary: t) (auto simp: nth_Cons split: nat.splits)

lemma match_step_work:
  assumes "match_step c matches s s'"
  shows "(match_work c s', match_work c s) \<in> less_than <*lex*> less_than"
  using assms
proof cases
  case (thread t points st st' point')
  note coarse_update = sum_list_nth_update [OF thread(3), of "coarse (collectionCount c)" point']
  note fine_update = sum_list_nth_update [OF thread(3), of "fine (highestMatchingArrayIndex st)" point']
  show ?thesis
    using thread_step_work [OF thread(5,4)] coarse_update fine_update
    by (auto simp: match_work_def thread(1,2))
qed

lemma match_step_wf: "wf {(s', s). match_step c matches s s'}"
  by (rule wf_subset [OF wf_inv_image [OF wf_lex_prod [OF wf_less_than wf_less_than], of "match_work c"]])
    (auto simp: inv_image_def dest: match_step_work)

lemma match_step_progress: "(\<exists>s'. match_step c matches (st, points) s') \<longleftrightarrow> \<not> all_done points"
proof
  assume "\<exists>s'. match_step c matches (st, points) s'"
  then show "\<not> all_done points" by (auto simp: all_done_def list_all_length elim: match_step.cases)
next
  assume "\<not> all_done points"
  then obtain t where "t < length points" "points ! t \<noteq> ThreadDone" by (auto simp: all_done_def list_all_length)
  then show "\<exists>s'. match_step c matches (st, points) s'"
    by (metis match_step.thread surj_pair)
qed

text \<open>
  C5. The threads return: no schedule goes on for ever, whatever the state it starts from, and a run is
  at its end only when every thread has returned. In particular the loop around the compare-and-swap,
  which another thread can make fail, cannot be kept going.
\<close>
theorem match_threads_terminate:
  "wf {(s', s). match_step c matches s s'} \<and>
   ((\<nexists>s'. match_step c matches (st, points) s') \<longleftrightarrow> all_done points)"
  using match_step_wf match_step_progress by blast

text \<open>So every run can be completed.\<close>

lemma match_run_completes: "\<exists>st' points'. match_run c matches s (st', points') \<and> all_done points'"
proof (induction s rule: wf_induct_rule [OF match_step_wf [of c matches]])
  case (1 s)
  obtain st points where s: "s = (st, points)" by fastforce
  show ?case
  proof (cases "all_done points")
    case True
    then show ?thesis unfolding s by blast
  next
    case False
    then obtain s' where "match_step c matches s s'" using match_step_progress s by blast
    then show ?thesis using 1 [of s'] by (auto intro: converse_rtranclp_into_rtranclp)
  qed
qed

end
