(* ===== verification/RK_SortedMatching.thy ===== *)
theory RK_SortedMatching
  imports RK_SortedCollection RK_StringMethods
begin

text \<open>
  The sorted collection as a whole: what one thread computes, a match that two threads can lose, the
  creation of a collection, \<open>regexMatching:lowestIndexInCollection:\<close> with its cache of missed objects, its hit counts and
  its sorting, and the methods that \<open>NSObject.m\<close> puts on top with what \<open>NSObject.h\<close> documents of them.
\<close>

section \<open>One thread\<close>

text \<open>
  The search of one thread as a recursion over the sorted indexes still to fetch; \<open>h\<close> is
  \<open>highestMatchingArrayIndex\<close>.
\<close>

primrec scan :: "'r RKSortedRegexCollection \<Rightarrow> ('r \<Rightarrow> bool) \<Rightarrow> bool \<Rightarrow> nat list \<Rightarrow> nat \<Rightarrow> nat option" where
  "scan c matches lowestIndex [] h = None"
| "scan c matches lowestIndex (i # is) h =
     (if h = 0 then None
      else if sortedElements c ! i > h then scan c matches lowestIndex is h
      else if \<not> matches (sorted_regex c i) then scan c matches lowestIndex is h
      else if settles c lowestIndex i then Some i
      else scan c matches lowestIndex is (min h (sortedElements c ! i)))"

definition sequential_match :: "'r RKSortedRegexCollection \<Rightarrow> ('r \<Rightarrow> bool) \<Rightarrow> bool \<Rightarrow> nat option" where
  "sequential_match c matches lowestIndex =
     scan c matches lowestIndex [0..<collectionCount c] (unat RKUIntegerMax)"

text \<open>
  The steps of a single thread are determined, so what it returns from a point is what it returns from
  the next.
\<close>

definition returns :: "'r RKSortedRegexCollection \<Rightarrow> ('r \<Rightarrow> bool) \<Rightarrow> 'r match_state \<Rightarrow> match_point \<Rightarrow> 'r option \<Rightarrow> bool" where
  "returns c matches st p r \<longleftrightarrow> (\<forall>st'. match_run c matches (st, [p]) (st', [ThreadDone]) \<longrightarrow> matchedRegex st' = r)"

lemma match_step_alone:
  "match_step c matches (st, [p]) s' \<longleftrightarrow>
     p \<noteq> ThreadDone \<and> s' = (fst (thread_step c matches st p), [snd (thread_step c matches st p)])"
proof -
  have "match_step c matches (st, [p]) (fst (thread_step c matches st p), [snd (thread_step c matches st p)])"
    if "p \<noteq> ThreadDone"
    using that match_step.thread [of 0 "[p]" c matches st] by simp
  then show ?thesis by (auto elim!: match_step.cases)
qed

lemma returns_step:
  assumes "p \<noteq> ThreadDone"
  shows "returns c matches st p r \<longleftrightarrow>
    returns c matches (fst (thread_step c matches st p)) (snd (thread_step c matches st p)) r"
proof -
  have "match_run c matches (st, [p]) (st', [ThreadDone]) \<longleftrightarrow>
    match_run c matches (fst (thread_step c matches st p), [snd (thread_step c matches st p)]) (st', [ThreadDone])" for st'
    using assms
    by (auto simp: match_step_alone elim: converse_rtranclpE intro: converse_rtranclp_into_rtranclp)
  then show ?thesis by (simp add: returns_def)
qed

lemma returns_done: "returns c matches st ThreadDone r \<longleftrightarrow> matchedRegex st = r"
  by (auto simp: returns_def match_step_alone elim: converse_rtranclpE)

lemmas returns_leaving =
  returns_step [of LeaveMatched, simplified] returns_step [of LeaveAt, simplified]
  returns_step [of LeaveFinished, simplified] returns_step [of LeaveExchange, simplified] returns_done

lemma returns_leave: "returns c matches st LeaveMatched r \<longleftrightarrow> matchedRegex st = r"
  by (auto simp: returns_leaving)

lemmas returns_finishing = returns_leave
  returns_step [of MissFinish, simplified] returns_step [of "SetFinished i" for i, simplified]
  returns_step [of "SetIndex i" for i, simplified] returns_step [of "SetSorted i" for i, simplified]
  returns_step [of "ClaimMatch i" for i, simplified]

lemmas returns_processing = returns_finishing
  returns_step [of "TestFinished i" for i, simplified] returns_step [of "TestMatched i" for i, simplified]
  returns_step [of "TestHighest i" for i, simplified] returns_step [of "CompareIndex i" for i, simplified]
  returns_step [of "MatchRegex i" for i, simplified] returns_step [of "AfterMiss i" for i, simplified]
  returns_step [of "ReadHighest i" for i, simplified] returns_step [of "ReadExpected i" for i, simplified]
  returns_step [of "ExchangeHighest i e" for i e, simplified]

lemma returns_scan:
  assumes "atSortedIndex st \<le> collectionCount c" "\<not> finished st" "matchedRegex st = None"
  shows "returns c matches st FetchIndex
    (map_option (sorted_regex c)
      (scan c matches (findLowestIndex st) [atSortedIndex st..<collectionCount c] (highestMatchingArrayIndex st)))"
  using assms
proof (induction "collectionCount c - atSortedIndex st" arbitrary: st)
  case 0
  then show ?case by (simp add: returns_step [of FetchIndex] returns_processing)
next
  case (Suc n)
  define i where "i = atSortedIndex st"
  have i: "i < collectionCount c" using Suc(2) by (simp add: i_def)
  have next_index: "returns c matches st' FetchIndex
      (map_option (sorted_regex c) (scan c matches (findLowestIndex st') [Suc i..<collectionCount c] (highestMatchingArrayIndex st')))"
    if "atSortedIndex st' = Suc i" "\<not> finished st'" "matchedRegex st' = None" for st'
    using Suc(1) [of st'] Suc(2) that i by (auto simp: i_def)
  have "returns c matches (st\<lparr>atSortedIndex := Suc i\<rparr>) (TestFinished i)
      (map_option (sorted_regex c)
        (scan c matches (findLowestIndex st) (i # [Suc i..<collectionCount c]) (highestMatchingArrayIndex st)))"
    using Suc(4,5) i next_index [of "st\<lparr>atSortedIndex := Suc i\<rparr>"]
      next_index [of "st\<lparr>atSortedIndex := Suc i, highestMatchingArrayIndex := sortedElements c ! i\<rparr>"]
    by (auto simp: returns_processing min_def)
  then show ?case
    using i by (simp add: returns_step [of FetchIndex] i_def upt_conv_Cons)
qed

text \<open>
  A collection as it is after its creation and after every operation: every element is sorted once, the
  count fits the index type, and the cache of missed objects has its buckets.
\<close>

definition valid_collection :: "'r RKSortedRegexCollection \<Rightarrow> bool" where
  "valid_collection c \<longleftrightarrow>
     collectionType c \<in> {RKArrayCollection, RKSetCollection} \<and>
     0 < collectionCount c \<and> collectionCount c \<le> unat RKUIntegerMax \<and>
     distinct (sortedElements c) \<and> set (sortedElements c) = {0..<collectionCount c} \<and>
     length (missedObjectHashCache c) = unat RK_SORTED_REGEX_COLLECTION_CACHE_BUCKETS"

lemma valid_sorted_length: "valid_collection c \<Longrightarrow> length (sortedElements c) = collectionCount c"
  using distinct_card [of "sortedElements c"] by (simp add: valid_collection_def)

lemma valid_sorted_index:
  assumes "valid_collection c" "i < collectionCount c"
  shows "sortedElements c ! i < collectionCount c"
proof -
  have "length (sortedElements c) = collectionCount c" using assms(1) by (rule valid_sorted_length)
  then have "sortedElements c ! i \<in> set (sortedElements c)" using assms(2) by simp
  then show ?thesis using assms(1) by (simp add: valid_collection_def)
qed

lemma scan_find:
  assumes "0 < h" "collectionType c \<in> {RKArrayCollection, RKSetCollection}"
    "\<not> lowestIndex \<or> collectionType c = RKSetCollection \<Longrightarrow> \<forall>i \<in> set is. sortedElements c ! i \<le> h"
  shows "scan c matches lowestIndex is h = find (\<lambda>i. matches (sorted_regex c i) \<and> settles c lowestIndex i) is"
  using assms by (induction "is" arbitrary: h) (auto simp: settles_def)

lemma sequential_match_find:
  assumes "valid_collection c"
  shows "sequential_match c matches lowestIndex =
    find (\<lambda>i. matches (sorted_regex c i) \<and> settles c lowestIndex i) [0..<collectionCount c]"
  unfolding sequential_match_def
proof (rule scan_find)
  show "0 < unat RKUIntegerMax" by (simp add: RKUIntegerMax_def)
  show "collectionType c \<in> {RKArrayCollection, RKSetCollection}" using assms by (simp add: valid_collection_def)
  show "\<forall>i \<in> set [0..<collectionCount c]. sortedElements c ! i \<le> unat RKUIntegerMax"
    using valid_sorted_index [OF assms] assms by (force simp: valid_collection_def)
qed

lemma inline_match:
  assumes "match_run c matches (start_threads 1 lowestIndex) (st, points)" "all_done points"
  shows "matchedRegex st = map_option (sorted_regex c) (sequential_match c matches lowestIndex)"
proof -
  have points: "points = [ThreadDone]"
    using match_run_threads [OF assms(1)] assms(2)
    by (cases points) (auto simp: start_threads_def all_done_def)
  have "returns c matches (start_match lowestIndex) FetchIndex
      (map_option (sorted_regex c) (sequential_match c matches lowestIndex))"
    using returns_scan [of "start_match lowestIndex" c matches]
    by (simp add: start_match_def sequential_match_def)
  then have "returns c matches (start_match lowestIndex) CheckFinished
      (map_option (sorted_regex c) (sequential_match c matches lowestIndex))"
    by (auto simp: returns_step [of CheckFinished] returns_step [of CheckMatched] returns_step [of CheckAt]
        returns_leave start_match_def sequential_match_def)
  then show ?thesis using assms(1) by (simp add: returns_def points start_threads_def)
qed

text \<open>
  When the thread function runs inline, in one thread, it computes a plain search: the result is the
  first regex in sorted order that matches and may end the search, and \<open>NULL\<close> if there is none.
\<close>
lemma inline_match_searches:
  assumes "valid_collection c"
    "match_run c matches (start_threads 1 lowestIndex) (st, points)" "all_done points"
  shows "matchedRegex st =
    map_option (sorted_regex c)
      (find (\<lambda>i. matches (sorted_regex c i) \<and> settles c lowestIndex i) [0..<collectionCount c])"
  using inline_match [OF assms(2,3)] sequential_match_find [OF assms(1)] by simp

section \<open>A match that is lost\<close>

text \<open>A schedule names the thread that takes the next step.\<close>

primrec run_schedule ::
  "'r RKSortedRegexCollection \<Rightarrow> ('r \<Rightarrow> bool) \<Rightarrow> nat list \<Rightarrow> 'r match_state \<times> match_point list \<Rightarrow> 'r match_state \<times> match_point list" where
  "run_schedule c matches [] s = s"
| "run_schedule c matches (t # ts) s =
     (if t < length (snd s) \<and> snd s ! t \<noteq> ThreadDone
      then run_schedule c matches ts
        (fst (thread_step c matches (fst s) (snd s ! t)), (snd s)[t := snd (thread_step c matches (fst s) (snd s ! t))])
      else run_schedule c matches ts s)"

lemma run_schedule_run: "match_run c matches s (run_schedule c matches ts s)"
proof (induction ts arbitrary: s)
  case (Cons t ts)
  have "match_step c matches s
      (fst (thread_step c matches (fst s) (snd s ! t)), (snd s)[t := snd (thread_step c matches (fst s) (snd s ! t))])"
    if "t < length (snd s)" "snd s ! t \<noteq> ThreadDone"
    using match_step.thread [OF that, of c matches "fst s"] by simp
  then show ?case using Cons.IH by (auto intro: converse_rtranclp_into_rtranclp)
qed simp

definition two_regexes :: "string RKSortedRegexCollection" where
  "two_regexes =
     \<lparr>collectionType = RKArrayCollection, resortRequired = False,
      coll_elements = [\<lparr>element_regex = ''a'', hitCount = 0\<rparr>, \<lparr>element_regex = ''b'', hitCount = 0\<rparr>],
      sortedElements = [0, 1], missedObjectHashCache = replicate 251 0, missedHits = 0, missedMisses = 0\<rparr>"

lemma two_regexes_valid: "valid_collection two_regexes"
  by (auto simp: valid_collection_def two_regexes_def collectionCount_def RKUIntegerMax_def
      RK_SORTED_REGEX_COLLECTION_CACHE_BUCKETS_def)

lemma highest_index: "unat RKUIntegerMax = 18446744073709551615"
  by (simp add: RKUIntegerMax_def)

lemmas schedule_simps =
  start_threads_def start_match_def two_regexes_def collectionCount_def sorted_regex_def all_done_def
  settles_def highest_index numeral_2_eq_2

text \<open>
  The first thread fetches index 0; the second fetches index 1, misses, finds that no index is left and
  sets \<open>finished\<close>; the first thread then sees \<open>finished\<close> before it has tried its regex, and leaves.
\<close>

definition losing_schedule :: "nat list" where
  "losing_schedule = [0, 0, 0, 0, 1, 1, 1, 1, 1, 1, 1, 1, 1, 1, 1, 1, 1, 1, 0, 0, 0, 0, 0]"

text \<open>
  C28. Two threads can lose a match: over two regexes of which the first matches there is a schedule after
  which both threads have returned and no regex is reported. The thread that misses on the last index sets
  \<open>finished\<close> while another thread still has an index to try.
\<close>
theorem match_can_be_lost:
  "\<exists>st points. match_run two_regexes (\<lambda>r. r = ''a'') (start_threads 2 False) (st, points) \<and>
     all_done points \<and> matchedRegex st = None \<and> finished st"
proof -
  have "all_done (snd (run_schedule two_regexes (\<lambda>r. r = ''a'') losing_schedule (start_threads 2 False))) \<and>
    matchedRegex (fst (run_schedule two_regexes (\<lambda>r. r = ''a'') losing_schedule (start_threads 2 False))) = None \<and>
    finished (fst (run_schedule two_regexes (\<lambda>r. r = ''a'') losing_schedule (start_threads 2 False)))"
    by (simp add: losing_schedule_def schedule_simps)
  then show ?thesis
    using run_schedule_run [of two_regexes "\<lambda>r. r = ''a''" "start_threads 2 False" losing_schedule]
    by (metis prod.collapse)
qed

text \<open>Other schedules of the same threads find it.\<close>

definition winning_schedule :: "nat list" where
  "winning_schedule = [0, 0, 0, 0, 0, 0, 0, 0, 0, 0, 1, 1, 1, 1, 1, 0, 0, 0, 0, 0]"

lemma winning_run:
  "\<exists>st points. match_run two_regexes (\<lambda>r. r = ''a'') (start_threads 2 False) (st, points) \<and>
     all_done points \<and> matchedRegex st = Some ''a''"
proof -
  let ?s = "run_schedule two_regexes (\<lambda>r. r = ''a'') winning_schedule (start_threads 2 False)"
  have "all_done (snd ?s) \<and> matchedRegex (fst ?s) = Some ''a''"
    by (simp add: winning_schedule_def schedule_simps)
  then show ?thesis
    using run_schedule_run [of two_regexes "\<lambda>r. r = ''a''" "start_threads 2 False" winning_schedule]
    by (metis prod.collapse)
qed

theorem parallel_match_sound_witness:
  "\<exists>st points. match_run two_regexes (\<lambda>r. r = ''a'') (start_threads 2 False) (st, points) \<and> all_done points \<and>
     (\<exists>k < collectionCount two_regexes. ''a'' = sorted_regex two_regexes k \<and> settles two_regexes False k \<and>
        matchingSortedIndex st = k \<and> matchingCollectionIndex st = sortedElements two_regexes ! k)"
proof -
  obtain st points where run: "match_run two_regexes (\<lambda>r. r = ''a'') (start_threads 2 False) (st, points)"
    "all_done points" "matchedRegex st = Some ''a''"
    using winning_run by blast
  show ?thesis using run(1,2) parallel_match_sound [OF run] by blast
qed

lemma inline_match_searches_witness:
  "\<exists>st points. match_run two_regexes (\<lambda>r. r = ''b'') (start_threads 1 False) (st, points) \<and> all_done points \<and>
     matchedRegex st = Some ''b''"
proof -
  obtain st points where run: "match_run two_regexes (\<lambda>r. r = ''b'') (start_threads 1 False) (st, points)" "all_done points"
    using match_run_completes by blast
  have "matchedRegex st = Some ''b''"
    unfolding inline_match_searches [OF two_regexes_valid run]
    by (simp add: two_regexes_def collectionCount_def sorted_regex_def settles_def upt_rec)
  then show ?thesis using run by blast
qed

end
