(* ===== verification/RK_ObjectMethods.thy ===== *)
theory RK_ObjectMethods
  imports RK_SortedMatching
begin

text \<open>
  The sorted collection as the methods of \<open>NSObject.m\<close> use it: its creation from an array or a set,
  \<open>regexMatching:lowestIndexInCollection:\<close> with the cache of objects that matched nothing, the hit counts and the
  sorting, and what \<open>NSObject.h\<close> documents of the methods. The threads of one call are a run of
  \<open>RK_SortedCollection\<close>; calls are taken one after another.
\<close>

section \<open>Creating a collection\<close>

definition RKSortedRegexCollectionDefaultRegexLibraryOptions :: u32 where
  "RKSortedRegexCollectionDefaultRegexLibraryOptions = RKCompileUTF8 OR RKCompileNoUTF8Check"

text \<open>\<open>address\<close> is the pointer to the collection.\<close>

definition RKSortedRegexCollectionHashForCollection :: "u64 \<Rightarrow> u64 \<Rightarrow> u64 \<Rightarrow> u32 \<Rightarrow> u64" where
  "RKSortedRegexCollectionHashForCollection collection_hash address library_hash libraryOptions =
     collection_hash XOR address XOR library_hash XOR ucast libraryOptions"

datatype collection_argument =
  CollectionArray "regex_argument list" | CollectionSet "regex_argument list" | CollectionOther | CollectionNULL

text \<open>The objects of an array in their order, those of a set in the order \<open>CFSetGetValues\<close> gives.\<close>

text \<open>
  The loop that turns the objects into regexes. It stops at the first error object, and an array records
  the index with it; a regex that is \<open>NULL\<close> without an error makes \<open>initWithObjects:count:\<close> raise.
\<close>

primrec collection_regexes ::
  "foundation \<Rightarrow> pcre_library \<Rightarrow> bool \<Rightarrow> bool \<Rightarrow> u32 \<Rightarrow> regex_argument list \<Rightarrow> nat \<Rightarrow> RKRegex RKCache \<Rightarrow>
     (RKRegex option list \<times> (nat \<times> ns_error) option) run \<times> RKRegex RKCache" where
  "collection_regexes F L locked libraryIsPCRE options [] atIndex cache = (Ok ([], None), cache)"
| "collection_regexes F L locked libraryIsPCRE options (x # xs) atIndex cache =
     (case RKRegexFromStringOrRegexWithError F L locked cache x libraryIsPCRE options of
        (Ok (regex, Some err), cache') \<Rightarrow> (Ok ([], Some (atIndex, err)), cache')
      | (Ok (regex, None), cache') \<Rightarrow>
          (case collection_regexes F L locked libraryIsPCRE options xs (Suc atIndex) cache' of
             (result, cache'') \<Rightarrow> (run_map (\<lambda>(regexes, err). (regex # regexes, err)) result, cache''))
      | (Raise e, cache') \<Rightarrow> (Raise e, cache')
      | (Undefined, cache') \<Rightarrow> (Undefined, cache'))"

definition new_collection :: "RKCollectionType \<Rightarrow> 'r list \<Rightarrow> 'r RKSortedRegexCollection" where
  "new_collection type regexes =
     \<lparr>collectionType = type, resortRequired = False,
      coll_elements = map (\<lambda>r. \<lparr>element_regex = r, hitCount = 0\<rparr>) regexes,
      sortedElements = [0..<length regexes],
      missedObjectHashCache = replicate (unat RK_SORTED_REGEX_COLLECTION_CACHE_BUCKETS) 0,
      missedHits = 0, missedMisses = 0\<rparr>"

text \<open>
  The error object stored for a regex that does not compile: its code, and for an array the index under
  \<open>RKArrayIndexErrorKey\<close>.
\<close>

record collection_error =
  collection_ns_error :: ns_error
  collection_error_index :: "nat option"

definition initWithCollection ::
  "foundation \<Rightarrow> pcre_library \<Rightarrow> bool \<Rightarrow> RKRegex RKCache \<Rightarrow> collection_argument \<Rightarrow> bool \<Rightarrow> u32 \<Rightarrow>
     (RKRegex RKSortedRegexCollection option \<times> collection_error option) run \<times> RKRegex RKCache" where
  "initWithCollection F L locked cache initCollection libraryIsPCRE options =
     (let create = (\<lambda>type objects.
        if objects = [] then (Ok (None, None), cache)
        else case collection_regexes F L locked libraryIsPCRE options objects 0 cache of
               (result, cache') \<Rightarrow>
                 (run_bind result (\<lambda>(regexes, err).
                    case err of
                      Some (i, e) \<Rightarrow>
                        Ok (None, Some \<lparr>collection_ns_error = rkErrorWithDomain RKRegexErrorDomain (error_code e),
                              collection_error_index = (if type = RKArrayCollection then Some i else None)\<rparr>)
                    | None \<Rightarrow>
                        if None \<in> set regexes then Raise NSInvalidArgumentException
                        else Ok (Some (new_collection type (map the regexes)), None)), cache'))
      in case initCollection of
           CollectionArray objects \<Rightarrow> create RKArrayCollection objects
         | CollectionSet objects \<Rightarrow> create RKSetCollection objects
         | CollectionOther \<Rightarrow> (Raise NSInvalidArgumentException, cache)
         | CollectionNULL \<Rightarrow> (Raise NSInvalidArgumentException, cache))"

lemma new_collection_valid:
  assumes "type \<in> {RKArrayCollection, RKSetCollection}" "regexes \<noteq> []" "length regexes \<le> unat RKUIntegerMax"
  shows "valid_collection (new_collection type regexes)"
  using assms by (auto simp: valid_collection_def new_collection_def collectionCount_def)

section \<open>Sorting and counting\<close>

text \<open>The comparison of the sort: by hit count, the highest first.\<close>

definition sortRegexCollectionItems :: "'r RKCollectionElement \<Rightarrow> 'r RKCollectionElement \<Rightarrow> int" where
  "sortRegexCollectionItems itemA itemB =
     (if hitCount itemA > hitCount itemB then - 1 else if hitCount itemA < hitCount itemB then 1 else 0)"

definition sorted_hits :: "'r RKSortedRegexCollection \<Rightarrow> nat \<Rightarrow> u64" where
  "sorted_hits c k = hitCount (coll_elements c ! (sortedElements c ! k))"

text \<open>\<open>mergesort\<close> is a stable sort; the key falls as the hit count rises.\<close>

definition resort :: "'r RKSortedRegexCollection \<Rightarrow> 'r RKSortedRegexCollection" where
  "resort c = c\<lparr>sortedElements := sort_key (\<lambda>i. RKUIntegerMax - hitCount (coll_elements c ! i)) (sortedElements c),
                resortRequired := False\<rparr>"

text \<open>The sort at the start of a call, which is done only if the lock was got for writing.\<close>

definition begin_matching :: "bool \<Rightarrow> 'r RKSortedRegexCollection \<Rightarrow> 'r RKSortedRegexCollection" where
  "begin_matching forWriting c = (if resortRequired c \<and> forWriting then resort c else c)"

definition cache_bucket :: "u64 \<Rightarrow> nat" where
  "cache_bucket matchObjectHash = unat (matchObjectHash mod RK_SORTED_REGEX_COLLECTION_CACHE_BUCKETS)"

text \<open>What follows the run of the threads.\<close>

definition count_hit :: "nat \<Rightarrow> 'r RKSortedRegexCollection \<Rightarrow> 'r RKSortedRegexCollection" where
  "count_hit k c =
     (let i = sortedElements c ! k; e = coll_elements c ! i;
          c' = c\<lparr>coll_elements := (coll_elements c)[i := e\<lparr>hitCount := hitCount e + 1\<rparr>]\<rparr>
      in c'\<lparr>resortRequired := resortRequired c \<or> (k > 0 \<and> sorted_hits c' k > sorted_hits c' (k - 1))\<rparr>)"

definition finish_matching :: "u64 \<Rightarrow> 'r match_state \<Rightarrow> 'r RKSortedRegexCollection \<Rightarrow> 'r RKSortedRegexCollection" where
  "finish_matching matchObjectHash st c =
     (if matchedRegex st \<noteq> None then count_hit (matchingSortedIndex st) c
      else c\<lparr>missedObjectHashCache := (missedObjectHashCache c)[cache_bucket matchObjectHash := matchObjectHash]\<rparr>)"

text \<open>
  \<open>regexMatching:lowestIndexInCollection:\<close> with any positive number of threads: the collection after the
  call and the regex it returns. \<open>forWriting\<close> tells how the lock was got, \<open>matches\<close> and \<open>hash\<close>
  belong to the object.
\<close>

inductive regexMatching ::
  "('r \<Rightarrow> bool) \<Rightarrow> u64 \<Rightarrow> nat \<Rightarrow> bool \<Rightarrow> bool \<Rightarrow> 'r RKSortedRegexCollection \<Rightarrow> 'r RKSortedRegexCollection \<Rightarrow> 'r option \<Rightarrow> bool"
  for matches hash threads forWriting lowestIndex c where
  known_miss:
    "missedObjectHashCache c ! cache_bucket hash = hash \<Longrightarrow> c1 = begin_matching forWriting c \<Longrightarrow>
     regexMatching matches hash threads forWriting lowestIndex c (c1\<lparr>missedHits := missedHits c1 + 1\<rparr>) None"
| run_threads:
    "missedObjectHashCache c ! cache_bucket hash \<noteq> hash \<Longrightarrow>
     c1 = (begin_matching forWriting c)\<lparr>missedMisses := missedMisses c + 1\<rparr> \<Longrightarrow> 0 < threads \<Longrightarrow>
     match_run c1 matches (start_threads threads lowestIndex) (st, points) \<Longrightarrow> all_done points \<Longrightarrow>
     regexMatching matches hash threads forWriting lowestIndex c (finish_matching hash st c1) (matchedRegex st)"

inductive_cases regexMatchingE: "regexMatching matches hash threads forWriting lowestIndex c c' result"

section \<open>Invariant of the collection\<close>

definition regexes_of :: "'r RKSortedRegexCollection \<Rightarrow> 'r list" where
  "regexes_of c = map element_regex (coll_elements c)"

lemma sorted_regex_member:
  assumes "valid_collection c" "k < collectionCount c"
  shows "sorted_regex c k \<in> set (regexes_of c)"
  using valid_sorted_index [OF assms] by (auto simp: sorted_regex_def regexes_of_def collectionCount_def)

lemma member_sorted_regex:
  assumes "valid_collection c" "r \<in> set (regexes_of c)"
  shows "\<exists>k < collectionCount c. r = sorted_regex c k"
proof -
  obtain i where i: "i < collectionCount c" "r = element_regex (coll_elements c ! i)"
    using assms(2) by (auto simp: regexes_of_def collectionCount_def in_set_conv_nth)
  then have "i \<in> set (sortedElements c)" using assms(1) by (simp add: valid_collection_def)
  then obtain k where "k < length (sortedElements c)" "sortedElements c ! k = i" by (auto simp: in_set_conv_nth)
  moreover have "length (sortedElements c) = collectionCount c" using assms(1) by (rule valid_sorted_length)
  ultimately show ?thesis using i by (auto simp: sorted_regex_def)
qed

lemma resort_keeps:
  "collectionType (resort c) = collectionType c" "coll_elements (resort c) = coll_elements c"
  "missedObjectHashCache (resort c) = missedObjectHashCache c" "missedMisses (resort c) = missedMisses c"
  "set (sortedElements (resort c)) = set (sortedElements c)"
  "distinct (sortedElements (resort c)) = distinct (sortedElements c)"
  by (simp_all add: resort_def)

lemma begin_matching_keeps:
  "collectionType (begin_matching w c) = collectionType c" "coll_elements (begin_matching w c) = coll_elements c"
  "missedObjectHashCache (begin_matching w c) = missedObjectHashCache c"
  "missedMisses (begin_matching w c) = missedMisses c"
  "set (sortedElements (begin_matching w c)) = set (sortedElements c)"
  "distinct (sortedElements (begin_matching w c)) = distinct (sortedElements c)"
  by (simp_all add: begin_matching_def resort_keeps)

lemma map_update_same: "(map f xs)[i := f (xs ! i)] = map f xs"
  by (cases "i < length xs") (simp_all add: list_update_same_conv list_update_beyond)

lemma finish_matching_keeps:
  "collectionType (finish_matching hash st c) = collectionType c"
  "sortedElements (finish_matching hash st c) = sortedElements c"
  "length (missedObjectHashCache (finish_matching hash st c)) = length (missedObjectHashCache c)"
  "regexes_of (finish_matching hash st c) = regexes_of c"
  "length (coll_elements (finish_matching hash st c)) = length (coll_elements c)"
proof -
  show "regexes_of (finish_matching hash st c) = regexes_of c"
    by (simp add: finish_matching_def count_hit_def Let_def regexes_of_def map_update map_update_same)
qed (simp_all add: finish_matching_def count_hit_def Let_def)

lemma begin_matching_valid: "valid_collection (begin_matching w c) = valid_collection c"
  by (simp add: valid_collection_def collectionCount_def begin_matching_keeps)

lemma begin_matching_counted:
  assumes "c1 = (begin_matching w c)\<lparr>missedMisses := missedMisses c + 1\<rparr>"
  shows "valid_collection c1 = valid_collection c" "regexes_of c1 = regexes_of c"
    "missedObjectHashCache c1 = missedObjectHashCache c" "collectionType c1 = collectionType c"
    "coll_elements c1 = coll_elements c" "collectionCount c1 = collectionCount c"
  using begin_matching_valid [of w c] unfolding assms
  by (simp_all add: valid_collection_def collectionCount_def regexes_of_def begin_matching_keeps)

lemma regexMatching_valid:
  assumes "valid_collection c" "regexMatching matches hash threads w lowestIndex c c' result"
  shows "valid_collection c' \<and> regexes_of c' = regexes_of c"
  using assms(2)
proof cases
  case (known_miss c1)
  then show ?thesis
    using assms(1) begin_matching_valid [of w c]
    by (simp add: valid_collection_def collectionCount_def regexes_of_def begin_matching_keeps)
next
  case (run_threads c1 st points)
  have "valid_collection c1" "regexes_of c1 = regexes_of c"
    using assms(1) begin_matching_counted [OF run_threads(4)] by simp_all
  then show ?thesis
    unfolding run_threads(1) by (simp add: valid_collection_def collectionCount_def finish_matching_keeps)
qed


text \<open>What a run of the threads reports, for a call that gets that far.\<close>

lemma run_reports:
  assumes "valid_collection c1" "match_run c1 matches (start_threads threads lowestIndex) (st, points)" "all_done points"
    "matchedRegex st = Some r"
  shows "\<exists>k < collectionCount c1. r = sorted_regex c1 k \<and> matches r \<and> settles c1 lowestIndex k \<and> matchingSortedIndex st = k"
  using match_sound_run [OF assms(2) match_sound_start] match_run_lowest [OF assms(2)] assms(3,4)
  by (auto simp: match_sound_def reported_once_def start_threads_def start_match_def all_done_def list_all_length)

lemma regexMatching_sound:
  assumes "valid_collection c" "regexMatching matches hash threads w lowestIndex c c' (Some r)"
  shows "r \<in> set (regexes_of c) \<and> matches r"
  using assms(2)
proof cases
  case (run_threads c1 st points)
  have c1: "valid_collection c1" "regexes_of c1 = regexes_of c"
    using assms(1) begin_matching_counted [OF run_threads(4)] by simp_all
  obtain k where "k < collectionCount c1" "r = sorted_regex c1 k" "matches r"
    using run_reports [OF c1(1) run_threads(6,7) run_threads(2) [symmetric]] by blast
  then show ?thesis using sorted_regex_member [OF c1(1)] c1(2) by auto
qed

lemma none_matches:
  assumes "valid_collection c" "\<forall>r \<in> set (regexes_of c). \<not> matches r"
    "regexMatching matches hash threads w lowestIndex c c' result"
  shows "result = None"
proof (rule ccontr)
  assume "result \<noteq> None"
  then obtain r where "regexMatching matches hash threads w lowestIndex c c' (Some r)" using assms(3) by auto
  then show False using regexMatching_sound [OF assms(1)] assms(2) by blast
qed

text \<open>A call always returns, with any number of threads.\<close>

lemma regexMatching_total:
  assumes "0 < threads"
  shows "\<exists>c' result. regexMatching matches hash threads w lowestIndex c c' result"
proof (cases "missedObjectHashCache c ! cache_bucket hash = hash")
  case True
  then show ?thesis by (blast intro: regexMatching.known_miss)
next
  case False
  obtain st points where
    "match_run ((begin_matching w c)\<lparr>missedMisses := missedMisses c + 1\<rparr>) matches (start_threads threads lowestIndex) (st, points)"
    "all_done points"
    using match_run_completes by blast
  then show ?thesis using regexMatching.run_threads [OF False refl assms] by blast
qed

section \<open>What a call answers\<close>

text \<open>
  C34. A call of \<open>regexMatching:lowestIndexInCollection:\<close> with any number of threads returns; it keeps the
  collection well formed and its regexes what they are; and a regex it returns is one of them and matches.
\<close>
theorem collection_answers_soundly:
  assumes "valid_collection c" "0 < threads"
  shows "(\<exists>c' result. regexMatching matches hash threads forWriting lowestIndex c c' result) \<and>
    (\<forall>c' result. regexMatching matches hash threads forWriting lowestIndex c c' result \<longrightarrow>
       valid_collection c' \<and> regexes_of c' = regexes_of c \<and>
       (\<forall>r. result = Some r \<longrightarrow> r \<in> set (regexes_of c) \<and> matches r))"
  using regexMatching_total [OF assms(2)] regexMatching_valid [OF assms(1)] regexMatching_sound [OF assms(1)] by blast

text \<open>
  With one thread, and an object that is not taken for a known miss, asking for any regex is decided
  correctly in both directions.
\<close>

lemma any_match_inline:
  assumes "valid_collection c" "missedObjectHashCache c ! cache_bucket hash \<noteq> hash"
    "regexMatching matches hash 1 w False c c' result"
  shows "result = None \<longleftrightarrow> (\<forall>r \<in> set (regexes_of c). \<not> matches r)"
proof
  assume none: "result = None"
  from assms(3) show "\<forall>r \<in> set (regexes_of c). \<not> matches r"
  proof cases
    case known_miss
    then show ?thesis using assms(2) by simp
  next
    case (run_threads c1 st points)
    have c1: "valid_collection c1" "regexes_of c1 = regexes_of c"
      using assms(1) begin_matching_counted [OF run_threads(4)] by simp_all
    have "matchedRegex st = None" using run_threads(2) none by simp
    then have "find (\<lambda>i. matches (sorted_regex c1 i) \<and> settles c1 False i) [0..<collectionCount c1] = None"
      using inline_match [OF run_threads(6,7)] sequential_match_find [OF c1(1)] by simp
    then have "\<not> matches (sorted_regex c1 k)" if "k < collectionCount c1" for k
      using that by (auto simp: find_None_iff settles_def)
    then show ?thesis using member_sorted_regex [OF c1(1)] c1(2) by auto
  qed
next
  assume "\<forall>r \<in> set (regexes_of c). \<not> matches r"
  then show "result = None"
    using none_matches [OF assms(1) _ assms(3)] by blast
qed

theorem collection_answers_soundly_witness:
  "valid_collection (new_collection RKSetCollection [''a'']) \<and>
   (\<exists>c' result. regexMatching (\<lambda>r. r = ''a'') 7 4 False False (new_collection RKSetCollection [''a'']) c' result)"
proof -
  have "valid_collection (new_collection RKSetCollection [''a''])"
    by (rule new_collection_valid) (simp_all add: highest_index)
  then show ?thesis
    using collection_answers_soundly [OF _ zero_less_numeral, of "new_collection RKSetCollection [''a'']"] by blast
qed

lemma cache_bucket_in: "valid_collection c \<Longrightarrow> cache_bucket hash < length (missedObjectHashCache c)"
  by (simp add: valid_collection_def cache_bucket_def RK_SORTED_REGEX_COLLECTION_CACHE_BUCKETS_def unat_mod)

lemma finish_missed:
  assumes "valid_collection c" "matchedRegex st = None"
  shows "missedObjectHashCache (finish_matching hash st c) ! cache_bucket hash = hash"
  using cache_bucket_in [OF assms(1)] assms(2) by (simp add: finish_matching_def)

lemma known_miss_answers:
  assumes "regexMatching matches hash threads w lowestIndex c c' result" "missedObjectHashCache c ! cache_bucket hash = hash"
  shows "result = None"
  using assms by cases simp_all

text \<open>The buckets of a new collection hold 0, so an object whose hash is 0 is never tried.\<close>

lemma hash_zero_missed:
  assumes "regexMatching matches 0 threads w lowestIndex (new_collection type regexes) c' result"
  shows "result = None"
  using assms
  by (rule known_miss_answers)
    (simp add: new_collection_def cache_bucket_def RK_SORTED_REGEX_COLLECTION_CACHE_BUCKETS_def)

text \<open>Asked for the first regex of an array, a call reports nothing but the regex at index 0.\<close>

lemma first_match_reports:
  assumes "valid_collection c" "collectionType c = RKArrayCollection"
    "regexMatching matches hash threads w True c c' (Some r)"
  shows "r = regexes_of c ! 0"
  using assms(3)
proof cases
  case (run_threads c1 st points)
  have c1: "valid_collection c1" "collectionType c1 = RKArrayCollection" "coll_elements c1 = coll_elements c"
    using assms(1,2) begin_matching_counted [OF run_threads(4)] by simp_all
  obtain k where "r = sorted_regex c1 k" "settles c1 True k"
    using run_reports [OF c1(1) run_threads(6,7) run_threads(2) [symmetric]] by blast
  moreover have "coll_elements c \<noteq> []" using assms(1) by (auto simp: valid_collection_def collectionCount_def)
  ultimately show ?thesis
    using c1(2,3) by (simp add: settles_def sorted_regex_def regexes_of_def)
qed

text \<open>If that regex matches, one thread finds it.\<close>

lemma first_match_inline:
  assumes "valid_collection c" "collectionType c = RKArrayCollection"
    "missedObjectHashCache c ! cache_bucket hash \<noteq> hash"
    "regexMatching matches hash 1 w True c c' result" "matches (regexes_of c ! 0)"
  shows "result = Some (regexes_of c ! 0)"
proof -
  have "result \<noteq> None"
    using assms(4)
  proof cases
    case known_miss
    then show ?thesis using assms(3) by simp
  next
    case (run_threads c1 st points)
    have c1: "valid_collection c1" "collectionType c1 = RKArrayCollection" "coll_elements c1 = coll_elements c"
      "collectionCount c1 = collectionCount c"
      using assms(1,2) begin_matching_counted [OF run_threads(4)] by simp_all
    have "0 < collectionCount c1" using c1(1) by (simp add: valid_collection_def)
    then have "0 \<in> set (sortedElements c1)" using c1(1) by (simp add: valid_collection_def)
    then obtain k where k: "k < length (sortedElements c1)" "sortedElements c1 ! k = 0" by (auto simp: in_set_conv_nth)
    have "length (sortedElements c1) = collectionCount c1" using c1(1) by (rule valid_sorted_length)
    then have "k < collectionCount c1" "matches (sorted_regex c1 k)" "settles c1 True k"
      using k assms(5) c1 \<open>0 < collectionCount c1\<close>
      by (auto simp: sorted_regex_def regexes_of_def settles_def collectionCount_def)
    then have "find (\<lambda>i. matches (sorted_regex c1 i) \<and> settles c1 True i) [0..<collectionCount c1] \<noteq> None"
      by (auto simp: find_None_iff)
    then show ?thesis
      using inline_match [OF run_threads(6,7)] sequential_match_find [OF c1(1)] run_threads(2) by auto
  qed
  then show ?thesis using first_match_reports [OF assms(1,2)] assms(4) by (cases result) auto
qed

text \<open>What a call does to the cache of missed objects: a miss enters the hash, a match leaves the cache alone.\<close>

lemma missed_cache_after:
  assumes "regexMatching matches hash threads w lowestIndex c c' result"
  shows "missedObjectHashCache c' =
    (if result = None then (missedObjectHashCache c)[cache_bucket hash := hash] else missedObjectHashCache c)"
  using assms
proof cases
  case (known_miss c1)
  then show ?thesis by (simp add: begin_matching_keeps list_update_same_conv) (metis list_update_id)
next
  case (run_threads c1 st points)
  then show ?thesis
    using begin_matching_counted(3) [OF run_threads(4)] by (auto simp: finish_matching_def count_hit_def Let_def)
qed

text \<open>Calls made on a collection one after another, for any objects: the hash of each object and its answer.\<close>

inductive call_sequence ::
  "'r RKSortedRegexCollection \<Rightarrow> (u64 \<times> 'r option) list \<Rightarrow> 'r RKSortedRegexCollection \<Rightarrow> bool" where
  no_call: "call_sequence c [] c"
| one_call:
    "regexMatching matches hash threads w lowestIndex c c1 result \<Longrightarrow> call_sequence c1 calls c' \<Longrightarrow>
     call_sequence c ((hash, result) # calls) c'"

inductive_cases one_callE: "call_sequence c (call # calls) c'"
inductive_cases no_callE: "call_sequence c [] c'"

lemma regexMatching_type:
  assumes "regexMatching matches hash threads w lowestIndex c c' result"
  shows "collectionType c' = collectionType c"
  using assms
proof cases
  case (run_threads c1 st points)
  then show ?thesis using begin_matching_counted(4) [OF run_threads(4)] by (simp add: finish_matching_keeps)
qed (simp add: begin_matching_keeps)

lemma call_sequence_keeps:
  "call_sequence c calls c' \<Longrightarrow> valid_collection c \<Longrightarrow>
     valid_collection c' \<and> regexes_of c' = regexes_of c \<and> collectionType c' = collectionType c"
proof (induction rule: call_sequence.induct)
  case (one_call matches hash threads w lowestIndex c c1 result calls c')
  then show ?case using regexMatching_valid [OF one_call.prems one_call.hyps(1)] regexMatching_type [OF one_call.hyps(1)] by simp
qed simp

lemma hidden_while_kept:
  assumes "call_sequence c calls c'" "missedObjectHashCache c ! cache_bucket hash = hash"
    "\<forall>h. (h, None) \<in> set calls \<longrightarrow> cache_bucket h = cache_bucket hash \<longrightarrow> h = hash"
  shows "missedObjectHashCache c' ! cache_bucket hash = hash \<and> (\<forall>r. (hash, r) \<in> set calls \<longrightarrow> r = None)"
  using assms
proof (induction rule: call_sequence.induct)
  case (one_call matches h threads w lowestIndex c c1 result calls c')
  have "cache_bucket h = cache_bucket hash \<longrightarrow> h = hash" if "result = None"
    using one_call.prems(2) that by simp
  then have "missedObjectHashCache c1 ! cache_bucket hash = hash"
    using one_call.prems(1) missed_cache_after [OF one_call.hyps(1)]
      list_update_id [of "missedObjectHashCache c" "cache_bucket hash"]
    by (cases "cache_bucket h = cache_bucket hash") auto
  moreover have "h = hash \<Longrightarrow> result = None"
    using known_miss_answers [OF one_call.hyps(1)] one_call.prems(1) by simp
  ultimately show ?case using one_call.IH one_call.prems(2) by auto
qed simp

lemma other_miss_forgets:
  assumes "valid_collection c" "regexMatching matches h threads w lowestIndex c c' None"
    "cache_bucket h = cache_bucket hash" "h \<noteq> hash"
  shows "missedObjectHashCache c' ! cache_bucket hash \<noteq> hash"
  using missed_cache_after [OF assms(2)] cache_bucket_in [OF assms(1), of hash] assms(3,4) by simp

lemma first_missed:
  assumes "valid_collection c" "collectionType c = RKArrayCollection" "\<not> matches (regexes_of c ! 0)"
    "regexMatching matches hash threads w True c c' result"
  shows "result = None \<and> missedObjectHashCache c' ! cache_bucket hash = hash"
proof -
  have "result = None"
  proof (rule ccontr)
    assume "result \<noteq> None"
    then obtain r where "regexMatching matches hash threads w True c c' (Some r)" using assms(4) by auto
    then show False
      using first_match_reports [OF assms(1,2)] regexMatching_sound [OF assms(1)] assms(3) by blast
  qed
  then show ?thesis
    using missed_cache_after [OF assms(4)] cache_bucket_in [OF assms(1), of hash] by simp
qed

text \<open>
  C35. In an array whose first regex does not match an object, \<open>firstRegexMatching:\<close> answers \<open>NULL\<close> even
  if another regex matches; and that answer enters the object in the cache of missed objects. Whatever calls for whatever
  objects follow, of \<open>isMatchedByAnyRegex:\<close> and \<open>anyRegexMatching:\<close> as well, all those for this object answer \<open>NULL\<close>,
  as long as no call for an object of another hash in the same bucket of the cache answers \<open>NULL\<close>. Such a call is
  what ends it: it takes the place of the object in the cache.
\<close>

theorem first_match_hides_object:
  assumes "valid_collection c" "collectionType c = RKArrayCollection" "\<not> matches (regexes_of c ! 0)"
    "regexMatching matches hash threads w True c c1 result"
    "call_sequence c1 calls c2" "\<forall>h. (h, None) \<in> set calls \<longrightarrow> cache_bucket h = cache_bucket hash \<longrightarrow> h = hash"
  shows "result = None \<and> (\<forall>r. (hash, r) \<in> set calls \<longrightarrow> r = None) \<and>
    missedObjectHashCache c2 ! cache_bucket hash = hash \<and>
    (\<forall>matches' h threads' w' lowestIndex c3. regexMatching matches' h threads' w' lowestIndex c2 c3 None \<longrightarrow>
       cache_bucket h = cache_bucket hash \<longrightarrow> h \<noteq> hash \<longrightarrow> missedObjectHashCache c3 ! cache_bucket hash \<noteq> hash)"
proof -
  have first: "result = None" "missedObjectHashCache c1 ! cache_bucket hash = hash"
    using first_missed [OF assms(1-4)] by simp_all
  have "valid_collection c1" using regexMatching_valid [OF assms(1,4)] by simp
  then have "valid_collection c2" using call_sequence_keeps [OF assms(5)] by simp
  then show ?thesis
    using first hidden_while_kept [OF assms(5) first(2) assms(6)] other_miss_forgets by blast
qed

lemma two_regexes_new: "two_regexes = new_collection RKArrayCollection [''a'', ''b'']"
  by (simp add: two_regexes_def new_collection_def RK_SORTED_REGEX_COLLECTION_CACHE_BUCKETS_def upt_rec)

text \<open>Two calls for the object that the second regex matches, the second of them after a call for another object.\<close>

theorem first_match_hides_object_witness:
  "\<exists>c1 c2 c3 result other result'. regexMatching (\<lambda>r. r = ''b'') 7 2 False True two_regexes c1 result \<and>
     regexMatching (\<lambda>r. r = ''c'') 8 2 False False c1 c2 other \<and>
     regexMatching (\<lambda>r. r = ''b'') 7 2 False False c2 c3 result' \<and> result = None \<and> result' = None"
proof -
  have c: "collectionType two_regexes = RKArrayCollection" "\<not> regexes_of two_regexes ! 0 = ''b''"
    by (simp_all add: two_regexes_def regexes_of_def)
  have "\<exists>c' result. regexMatching matches hash 2 False lowestIndex c c' result"
    for matches hash lowestIndex and c :: "string RKSortedRegexCollection"
    by (rule regexMatching_total) simp
  then obtain c1 c2 c3 result other result' where calls:
    "regexMatching (\<lambda>r. r = ''b'') 7 2 False True two_regexes c1 result"
    "regexMatching (\<lambda>r. r = ''c'') 8 2 False False c1 c2 other"
    "regexMatching (\<lambda>r. r = ''b'') 7 2 False False c2 c3 result'"
    by meson
  have sequence: "call_sequence c1 [(8, other), (7, result')] c3"
    by (rule one_call [OF calls(2) one_call [OF calls(3) no_call]])
  have "\<forall>h. (h, None) \<in> set [(8, other), (7, result')] \<longrightarrow> cache_bucket h = cache_bucket 7 \<longrightarrow> h = 7"
    by (auto simp: cache_bucket_def RK_SORTED_REGEX_COLLECTION_CACHE_BUCKETS_def)
  from first_match_hides_object [where matches = "\<lambda>r. r = ''b''", OF two_regexes_valid c calls(1) sequence this]
  show ?thesis using calls by auto
qed

section \<open>Counting and sorting\<close>

text \<open>
  Every match reported is counted once, at the regex reported, and a miss is not counted; and a sort puts
  the elements in the order of the comparison.
\<close>

lemma hits_counted:
  assumes "valid_collection c" "regexMatching matches hash threads w lowestIndex c c' result"
  shows "case result of
      None \<Rightarrow> coll_elements c' = coll_elements c
    | Some r \<Rightarrow> \<exists>i < collectionCount c. regexes_of c ! i = r \<and>
        coll_elements c' = (coll_elements c)[i := (coll_elements c ! i)\<lparr>hitCount := hitCount (coll_elements c ! i) + 1\<rparr>]"
  using assms(2)
proof cases
  case (known_miss c1)
  then show ?thesis by (simp add: begin_matching_keeps)
next
  case (run_threads c1 st points)
  have c1: "valid_collection c1" "coll_elements c1 = coll_elements c" "collectionCount c1 = collectionCount c"
    using assms(1) begin_matching_counted [OF run_threads(4)] by simp_all
  show ?thesis
  proof (cases result)
    case None
    then show ?thesis using run_threads(1,2) c1(2) by (simp add: finish_matching_def)
  next
    case (Some r)
    then obtain k where k: "k < collectionCount c1" "r = sorted_regex c1 k" "matchingSortedIndex st = k"
      using run_reports [OF c1(1) run_threads(6,7)] run_threads(2) by auto
    then show ?thesis
      using run_threads(1,2) Some valid_sorted_index [OF c1(1) k(1)] c1(2,3)
      by (auto simp: finish_matching_def count_hit_def Let_def sorted_regex_def regexes_of_def collectionCount_def
          intro!: exI [of _ "sortedElements c1 ! k"])
  qed
qed

lemma unat_max_minus: "unat (RKUIntegerMax - h) = unat RKUIntegerMax - unat h"
proof -
  have "h \<le> RKUIntegerMax" using unat_lt64 [of h] by (simp add: word_le_nat_alt highest_index del: unat_lt64)
  then show ?thesis by (rule unat_sub)
qed

lemma resort_sorted:
  "sorted_wrt (\<lambda>i j. sortRegexCollectionItems (coll_elements c ! i) (coll_elements c ! j) \<le> 0) (sortedElements (resort c))"
proof -
  have "sortRegexCollectionItems (coll_elements c ! i) (coll_elements c ! j) \<le> 0"
    if "RKUIntegerMax - hitCount (coll_elements c ! i) \<le> RKUIntegerMax - hitCount (coll_elements c ! j)" for i j
    using that unat_lt64 [of "hitCount (coll_elements c ! i)"] unat_lt64 [of "hitCount (coll_elements c ! j)"]
    by (auto simp: sortRegexCollectionItems_def word_le_nat_alt word_less_nat_alt unat_max_minus highest_index simp del: unat_lt64)
  then show ?thesis
    using sorted_sort_key [of "\<lambda>i. RKUIntegerMax - hitCount (coll_elements c ! i)" "sortedElements c"]
    by (auto simp: resort_def sorted_map elim!: sorted_wrt_mono_rel [rotated])
qed

end
