(* ===== verification/RK_ObjectContract.thy ===== *)
theory RK_ObjectContract
  imports RK_ObjectMethods RK_ErrorInfo
begin

text \<open>
  The methods of \<open>NSObject.m\<close> that match an object against the regexes of an array or a set, and what
  \<open>NSObject.h\<close> documents of them. The collection that a method works on is the one that
  \<open>sortedRegexCollectionForCollection:library:options:error:\<close> answers.
\<close>

section \<open>The methods\<close>

text \<open>
  What a call takes from its surroundings: how the receiver is matched and its hash, the threads that run
  and how the lock was got.
\<close>

record 'r matching_call =
  call_matches :: "'r \<Rightarrow> bool"
  call_hash :: u64
  call_threads :: nat
  call_forWriting :: bool

text \<open>A worker thread matches the buffer of the description with \<open>matchesCharacters:length:inRange:options:\<close>.\<close>

definition matches_buffer :: "pcre_exec \<Rightarrow> (nat \<Rightarrow> u32) \<Rightarrow> RKStringBuffer \<Rightarrow> RKRegex \<Rightarrow> bool" where
  "matches_buffer exec junk b r \<longleftrightarrow>
     matchesCharacters exec junk r (Some (buffer_characters b)) (buffer_length b)
       (NSMakeRange 0 (buffer_length b)) RKMatchNoUTF8Check = Ok True"

text \<open>A message to the collection; \<open>NULL\<close> answers \<open>NULL\<close>.\<close>

definition send_regexMatching ::
  "'r matching_call \<Rightarrow> bool \<Rightarrow> 'r RKSortedRegexCollection option \<Rightarrow> 'r RKSortedRegexCollection option \<Rightarrow> 'r option \<Rightarrow> bool" where
  "send_regexMatching call lowestIndex c c' result \<longleftrightarrow>
     (case c of
        None \<Rightarrow> c' = None \<and> result = None
      | Some c \<Rightarrow> \<exists>c1. c' = Some c1 \<and>
          regexMatching (call_matches call) (call_hash call) (call_threads call) (call_forWriting call) lowestIndex c c1 result)"

definition isMatchedByAnyRegex where
  "isMatchedByAnyRegex call c c' answer \<longleftrightarrow> (\<exists>result. send_regexMatching call False (Some c) c' result \<and> answer = (result \<noteq> None))"

definition anyRegexMatching where
  "anyRegexMatching call c c' result \<longleftrightarrow> send_regexMatching call False (Some c) c' result"

definition firstRegexMatching where
  "firstRegexMatching call c c' result \<longleftrightarrow> send_regexMatching call True (Some c) c' result"

text \<open>
  \<open>create library options\<close> is the collection and the error object made of the array or the set.
\<close>

type_synonym 'r creation = "string \<Rightarrow> u32 \<Rightarrow> 'r RKSortedRegexCollection option \<times> collection_error option"

definition isMatchedByAnyRegexInArray_library where
  "isMatchedByAnyRegexInArray_library call (create :: 'r creation) library libraryOptions c' answer err \<longleftrightarrow>
     (\<exists>result. send_regexMatching call False (fst (create library libraryOptions)) c' result \<and>
        answer = (result \<noteq> None)) \<and> err = snd (create library libraryOptions)"

definition anyMatchingRegexInArray_library where
  "anyMatchingRegexInArray_library call (create :: 'r creation) library libraryOptions c' result err \<longleftrightarrow>
     send_regexMatching call False (fst (create library libraryOptions)) c' result \<and> err = snd (create library libraryOptions)"

definition firstMatchingRegexInArray_library where
  "firstMatchingRegexInArray_library call (create :: 'r creation) library libraryOptions c' result err \<longleftrightarrow>
     send_regexMatching call True (fst (create library libraryOptions)) c' result \<and> err = snd (create library libraryOptions)"

definition isMatchedByAnyRegexInArray where
  "isMatchedByAnyRegexInArray call (create :: 'r creation) c' answer \<longleftrightarrow>
     (\<exists>result. send_regexMatching call False (fst (create RKRegexPCRELibrary RKPCREDefaultOptions)) c' result \<and>
        answer = (result \<noteq> None))"

definition anyMatchingRegexInArray where
  "anyMatchingRegexInArray call (create :: 'r creation) c' result \<longleftrightarrow>
     send_regexMatching call False (fst (create RKRegexPCRELibrary RKPCREDefaultOptions)) c' result"

definition firstMatchingRegexInArray where
  "firstMatchingRegexInArray call (create :: 'r creation) c' result \<longleftrightarrow>
     send_regexMatching call True (fst (create RKRegexPCRELibrary RKPCREDefaultOptions)) c' result"

definition isMatchedByAnyRegexInSet_library where
  "isMatchedByAnyRegexInSet_library call (create :: 'r creation) library libraryOptions c' answer err \<longleftrightarrow>
     (\<exists>result. send_regexMatching call False (fst (create library libraryOptions)) c' result \<and>
        answer = (result \<noteq> None)) \<and> err = snd (create library libraryOptions)"

definition anyMatchingRegexInSet_library where
  "anyMatchingRegexInSet_library call (create :: 'r creation) library libraryOptions c' result err \<longleftrightarrow>
     send_regexMatching call False (fst (create library libraryOptions)) c' result \<and> err = snd (create library libraryOptions)"

definition isMatchedByAnyRegexInSet where
  "isMatchedByAnyRegexInSet call (create :: 'r creation) c' answer \<longleftrightarrow>
     (\<exists>result. send_regexMatching call False (fst (create RKRegexPCRELibrary RKPCREDefaultOptions)) c' result \<and>
        answer = (result \<noteq> None))"

definition anyMatchingRegexInSet where
  "anyMatchingRegexInSet call (create :: 'r creation) c' result \<longleftrightarrow>
     send_regexMatching call False (fst (create RKRegexPCRELibrary RKPCREDefaultOptions)) c' result"

section \<open>What the header documents\<close>

text \<open>
  \<open>regexes\<close> are the regular expressions of the array or the set, or \<open>None\<close> if an error occurred, \<open>matches r\<close>
  tells whether \<open>r\<close> matches the receiver. The short forms are documented as equivalent to the long ones
  with the default library and options.
\<close>

definition isMatchedByAnyRegexInArray_library_contract where
  "isMatchedByAnyRegexInArray_library_contract regexes matches answer err \<longleftrightarrow>
     answer = (\<exists>rs. regexes = Some rs \<and> (\<exists>r \<in> set rs. matches r)) \<and> (err \<noteq> None \<longleftrightarrow> regexes = None)"

definition anyMatchingRegexInArray_library_contract where
  "anyMatchingRegexInArray_library_contract regexes matches result err \<longleftrightarrow>
     (case result of
        Some r \<Rightarrow> \<exists>rs. regexes = Some rs \<and> r \<in> set rs \<and> matches r
      | None \<Rightarrow> \<forall>rs. regexes = Some rs \<longrightarrow> (\<forall>r \<in> set rs. \<not> matches r)) \<and> (err \<noteq> None \<longleftrightarrow> regexes = None)"

definition firstMatchingRegexInArray_library_contract where
  "firstMatchingRegexInArray_library_contract regexes matches result err \<longleftrightarrow>
     result = (case regexes of None \<Rightarrow> None | Some rs \<Rightarrow> find matches rs) \<and> (err \<noteq> None \<longleftrightarrow> regexes = None)"

definition isMatchedByAnyRegexInSet_library_contract where
  "isMatchedByAnyRegexInSet_library_contract regexes matches answer err \<longleftrightarrow>
     answer = (\<exists>rs. regexes = Some rs \<and> (\<exists>r \<in> rs. matches r)) \<and> (err \<noteq> None \<longleftrightarrow> regexes = None)"

definition anyMatchingRegexInSet_library_contract where
  "anyMatchingRegexInSet_library_contract regexes matches result err \<longleftrightarrow>
     (case result of
        Some r \<Rightarrow> \<exists>rs. regexes = Some rs \<and> r \<in> rs \<and> matches r
      | None \<Rightarrow> \<forall>rs. regexes = Some rs \<longrightarrow> (\<forall>r \<in> rs. \<not> matches r)) \<and> (err \<noteq> None \<longleftrightarrow> regexes = None)"

definition isMatchedByAnyRegexInArray_contract where
  "isMatchedByAnyRegexInArray_contract short long \<longleftrightarrow>
     (\<forall>c' answer. short c' answer \<longleftrightarrow>
        (\<exists>err :: collection_error option. long RKRegexPCRELibrary (RKCompileUTF8 OR RKCompileNoUTF8Check) c' answer err))"

definition anyMatchingRegexInArray_contract where
  "anyMatchingRegexInArray_contract short long \<longleftrightarrow>
     (\<forall>c' result. short c' result \<longleftrightarrow>
        (\<exists>err :: collection_error option. long RKRegexPCRELibrary (RKCompileUTF8 OR RKCompileNoUTF8Check) c' result err))"

definition firstMatchingRegexInArray_contract where
  "firstMatchingRegexInArray_contract short long \<longleftrightarrow>
     (\<forall>c' result. short c' result \<longleftrightarrow>
        (\<exists>err :: collection_error option. long RKRegexPCRELibrary (RKCompileUTF8 OR RKCompileNoUTF8Check) c' result err))"

definition isMatchedByAnyRegexInSet_contract where
  "isMatchedByAnyRegexInSet_contract short long \<longleftrightarrow>
     (\<forall>c' answer. short c' answer \<longleftrightarrow>
        (\<exists>err :: collection_error option. long RKRegexPCRELibrary (RKCompileUTF8 OR RKCompileNoUTF8Check) c' answer err))"

definition anyMatchingRegexInSet_contract where
  "anyMatchingRegexInSet_contract short long \<longleftrightarrow>
     (\<forall>c' result. short c' result \<longleftrightarrow>
        (\<exists>err :: collection_error option. long RKRegexPCRELibrary (RKCompileUTF8 OR RKCompileNoUTF8Check) c' result err))"

section \<open>Collections made from an array or a set\<close>

text \<open>
  What the creation answers for objects that stand for the regexes \<open>rs\<close>, or, with \<open>None\<close>, for objects of
  which one does not compile. An empty collection gives \<open>NULL\<close> without an error.
\<close>

definition created_from ::
  "RKCollectionType \<Rightarrow> 'r list option \<Rightarrow> 'r RKSortedRegexCollection option \<times> collection_error option \<Rightarrow> bool" where
  "created_from type regexes made \<longleftrightarrow>
     (case regexes of
        None \<Rightarrow> fst made = None \<and> snd made \<noteq> None
      | Some rs \<Rightarrow> snd made = None \<and>
          (if rs = [] then fst made = None
           else \<exists>c. fst made = Some c \<and> valid_collection c \<and> collectionType c = type \<and> regexes_of c = rs))"

lemma new_collection_regexes: "regexes_of (new_collection type regexes) = regexes"
  "collectionType (new_collection type regexes) = type"
  by (simp_all add: regexes_of_def new_collection_def o_def)

text \<open>
  How the regexes belong to the objects: each is what \<open>RKRegexFromStringOrRegexWithError\<close> made of its object, in the
  order of the objects; or, with \<open>None\<close>, one of the objects did not compile.
\<close>

definition converts_to ::
  "foundation \<Rightarrow> pcre_library \<Rightarrow> bool \<Rightarrow> bool \<Rightarrow> u32 \<Rightarrow> regex_argument \<Rightarrow> RKRegex option \<Rightarrow> ns_error option \<Rightarrow> bool" where
  "converts_to F L locked pcre options x r err \<longleftrightarrow>
     (\<exists>cache. fst (RKRegexFromStringOrRegexWithError F L locked cache x pcre options) = Ok (r, err))"

definition regexes_for ::
  "foundation \<Rightarrow> pcre_library \<Rightarrow> bool \<Rightarrow> bool \<Rightarrow> u32 \<Rightarrow> regex_argument list \<Rightarrow> RKRegex list option \<Rightarrow> bool" where
  "regexes_for F L locked pcre options objects regexes \<longleftrightarrow>
     (case regexes of
        Some rs \<Rightarrow> list_all2 (\<lambda>x r. converts_to F L locked pcre options x (Some r) None) objects rs
      | None \<Rightarrow> \<exists>x \<in> set objects. \<exists>r e. converts_to F L locked pcre options x r (Some e))"

lemma converts_to_I:
  "RKRegexFromStringOrRegexWithError F L locked cache x pcre options = (Ok (r, err), cache') \<Longrightarrow>
     converts_to F L locked pcre options x r err"
  unfolding converts_to_def by (rule exI [of _ cache]) simp

lemma collection_regexes_converts:
  "fst (collection_regexes F L locked pcre options objects i cache) = Ok (regexes, None) \<Longrightarrow>
     list_all2 (\<lambda>x r. converts_to F L locked pcre options x r None) objects regexes"
proof (induction objects arbitrary: i cache regexes)
  case (Cons x xs)
  obtain m cache' where x: "RKRegexFromStringOrRegexWithError F L locked cache x pcre options = (m, cache')" by fastforce
  obtain m' cache'' where xs: "collection_regexes F L locked pcre options xs (Suc i) cache' = (m', cache'')" by fastforce
  show ?case
    using Cons.prems Cons.IH [of "Suc i" cache'] x
    by (auto simp: xs run_simps split: run.splits option.splits intro: converts_to_I)
qed simp

lemma collection_regexes_fails:
  "fst (collection_regexes F L locked pcre options objects i cache) = Ok (regexes, Some (k, e)) \<Longrightarrow>
     \<exists>x \<in> set objects. \<exists>r. converts_to F L locked pcre options x r (Some e)"
proof (induction objects arbitrary: i cache regexes)
  case (Cons x xs)
  obtain m cache' where x: "RKRegexFromStringOrRegexWithError F L locked cache x pcre options = (m, cache')" by fastforce
  obtain m' cache'' where xs: "collection_regexes F L locked pcre options xs (Suc i) cache' = (m', cache'')" by fastforce
  consider (stops) r where "m = Ok (r, Some e)" | (rest) regexes' where "m' = Ok (regexes', Some (k, e))"
    using Cons.prems by (auto simp: x xs run_simps split: run.splits option.splits)
  then show ?case
  proof cases
    case stops
    then show ?thesis using converts_to_I [OF x [unfolded stops]] by auto
  next
    case rest
    then show ?thesis using Cons.IH [of "Suc i" cache' regexes'] xs by auto
  qed
qed simp

text \<open>The initialiser makes such a collection of any array or set, or raises.\<close>

lemma initWithCollection_created:
  assumes "fst (initWithCollection F L locked cache argument pcre options) = Ok made"
    "argument = CollectionArray objects \<and> type = RKArrayCollection \<or> argument = CollectionSet objects \<and> type = RKSetCollection"
    "length objects \<le> unat RKUIntegerMax"
  shows "\<exists>regexes. created_from type regexes made \<and> regexes_for F L locked pcre options objects regexes"
proof (cases "objects = []")
  case True
  then have "created_from type (Some []) made"
    using assms(1,2) by (auto simp: initWithCollection_def created_from_def)
  then show ?thesis using True by (auto simp: regexes_for_def)
next
  case False
  obtain m cache' where loop: "collection_regexes F L locked pcre options objects 0 cache = (m, cache')" by fastforce
  then obtain found err where m: "m = Ok (found, err)"
    using assms(1,2) False by (auto simp: initWithCollection_def run_simps)
  show ?thesis
  proof (cases err)
    case None
    have converted: "list_all2 (\<lambda>x r. converts_to F L locked pcre options x r None) objects found"
      using collection_regexes_converts loop m None by (metis fst_conv)
    have made: "None \<notin> set found" "made = (Some (new_collection type (map the found)), None)"
      using assms(1,2) False loop m None by (auto simp: initWithCollection_def split: if_splits)
    have "regexes_for F L locked pcre options objects (Some (map the found))"
      unfolding regexes_for_def option.case list.rel_map
    proof (rule list.rel_mono_strong [OF converted])
      fix x r
      assume r: "r \<in> set found" "converts_to F L locked pcre options x r None"
      have "r \<noteq> None" using r(1) made(1) by metis
      then show "converts_to F L locked pcre options x (Some (the r)) None" using r(2) by simp
    qed
    moreover have "valid_collection (new_collection type (map the found))"
      using assms(2,3) False converted by (intro new_collection_valid) (auto dest: list_all2_lengthD)
    then have "created_from type (Some (map the found)) made"
      using False made(2) list_all2_lengthD [OF converted] by (auto simp: created_from_def new_collection_regexes)
    ultimately show ?thesis by blast
  next
    case (Some e)
    then have "created_from type None made"
      using assms(1,2) False loop m by (auto simp: initWithCollection_def created_from_def split: prod.splits)
    moreover have "regexes_for F L locked pcre options objects None"
      using collection_regexes_fails [of F L locked pcre options objects 0 cache found "fst e" "snd e"] loop m Some
      by (auto simp: regexes_for_def)
    ultimately show ?thesis by blast
  qed
qed

text \<open>
  The collection a method gets: the one that was made of the array or the set, after any calls for any objects since, as it is
  kept in the cache of collections.
\<close>

definition in_use ::
  "'r RKSortedRegexCollection option \<times> collection_error option \<Rightarrow> 'r RKSortedRegexCollection option \<times> collection_error option \<Rightarrow> bool" where
  "in_use made now \<longleftrightarrow> snd now = snd made \<and>
     (case fst made of None \<Rightarrow> fst now = None | Some c \<Rightarrow> \<exists>calls c'. call_sequence c calls c' \<and> fst now = Some c')"

lemma created_from_in_use: "created_from type regexes made \<Longrightarrow> in_use made now \<Longrightarrow> created_from type regexes now"
  using call_sequence_keeps by (fastforce simp: created_from_def in_use_def split: option.splits if_splits)

section \<open>The methods keep what is documented\<close>

text \<open>The calls for which the answer is the documented one: one thread, and no entry in the cache of misses.\<close>

definition undisturbed :: "'r matching_call \<Rightarrow> 'r RKSortedRegexCollection option \<times> collection_error option \<Rightarrow> bool" where
  "undisturbed call made \<longleftrightarrow> call_threads call = 1 \<and>
     (case fst made of None \<Rightarrow> True
      | Some c \<Rightarrow> missedObjectHashCache c ! cache_bucket (call_hash call) \<noteq> call_hash call)"

lemma send_finds_member:
  assumes "created_from type regexes made" "send_regexMatching call lowestIndex (fst made) c' (Some r)"
  shows "\<exists>rs. regexes = Some rs \<and> r \<in> set rs \<and> call_matches call r"
  using assms regexMatching_sound
  by (fastforce simp: created_from_def send_regexMatching_def split: option.splits if_splits)

lemma send_misses_none:
  assumes "created_from type regexes made" "send_regexMatching call False (fst made) c' None" "undisturbed call made"
    "regexes = Some rs" "r \<in> set rs"
  shows "\<not> call_matches call r"
proof -
  obtain c c1 where c: "fst made = Some c" "valid_collection c" "regexes_of c = rs"
    "regexMatching (call_matches call) (call_hash call) 1 (call_forWriting call) False c c1 None"
    using assms by (force simp: created_from_def send_regexMatching_def undisturbed_def split: option.splits if_splits)
  then show ?thesis
    using any_match_inline [OF c(2) _ c(4)] assms(3,5) by (auto simp: undisturbed_def)
qed

lemma send_any:
  assumes "created_from type regexes made" "undisturbed call made" "send_regexMatching call False (fst made) c' result"
  shows "result = None \<Longrightarrow> regexes = Some rs \<Longrightarrow> r \<in> set rs \<Longrightarrow> \<not> call_matches call r"
    "result = Some r \<Longrightarrow> \<exists>rs. regexes = Some rs \<and> r \<in> set rs \<and> call_matches call r"
    "result \<noteq> None \<longleftrightarrow> (\<exists>rs. regexes = Some rs \<and> (\<exists>r \<in> set rs. call_matches call r))"
proof -
  show none: "\<not> call_matches call r" if "result = None" "regexes = Some rs" "r \<in> set rs" for rs r
    using send_misses_none [OF assms(1) _ assms(2) that(2,3)] assms(3) that(1) by simp
  show some: "\<exists>rs. regexes = Some rs \<and> r \<in> set rs \<and> call_matches call r" if "result = Some r" for r
    using send_finds_member [OF assms(1)] assms(3) that by simp
  show "result \<noteq> None \<longleftrightarrow> (\<exists>rs. regexes = Some rs \<and> (\<exists>r \<in> set rs. call_matches call r))"
    using none some by (cases result) auto
qed

lemma created_error: "created_from type regexes made \<Longrightarrow> snd made \<noteq> None \<longleftrightarrow> regexes = None"
  by (auto simp: created_from_def split: option.splits)

text \<open>What \<open>firstMatchingRegexInArray:\<close> really answers: the regex at index 0 if that matches, else \<open>NULL\<close>.\<close>

definition index_0_only :: "'r list option \<Rightarrow> ('r \<Rightarrow> bool) \<Rightarrow> 'r option" where
  "index_0_only regexes matches =
     (case regexes of Some (r # rs) \<Rightarrow> if matches r then Some r else None | _ \<Rightarrow> None)"

lemma index_0_is_first:
  "index_0_only regexes matches = (case regexes of None \<Rightarrow> None | Some rs \<Rightarrow> find matches rs) \<longleftrightarrow>
     (\<forall>r rs. regexes = Some (r # rs) \<longrightarrow> matches r \<or> (\<forall>x \<in> set rs. \<not> matches x))"
proof (cases "\<exists>r rs. regexes = Some (r # rs)")
  case True
  then obtain r rs where "regexes = Some (r # rs)" by blast
  then show ?thesis by (auto simp: index_0_only_def find_None_iff eq_commute [of None])
next
  case False
  then show ?thesis by (auto simp: index_0_only_def split: option.split list.split)
qed

text \<open>Asked for the lowest index, the collection reports the regex at index 0 if that matches, and no other.\<close>

lemma send_first:
  assumes "created_from RKArrayCollection regexes made" "send_regexMatching call True (fst made) c' result" "undisturbed call made"
  shows "result = index_0_only regexes (call_matches call)"
proof (cases "regexes = None \<or> regexes = Some []")
  case True
  then show ?thesis using assms(1,2) by (auto simp: created_from_def send_regexMatching_def index_0_only_def)
next
  case False
  then obtain r rs where regexes: "regexes = Some (r # rs)" by (cases regexes; cases "the regexes") auto
  obtain c c1 where c: "fst made = Some c" "valid_collection c" "collectionType c = RKArrayCollection" "regexes_of c = r # rs"
    "regexMatching (call_matches call) (call_hash call) 1 (call_forWriting call) True c c1 result"
    using assms regexes
    by (force simp: created_from_def send_regexMatching_def undisturbed_def split: option.splits if_splits)
  have hash: "missedObjectHashCache c ! cache_bucket (call_hash call) \<noteq> call_hash call"
    using assms(3) c(1) by (simp add: undisturbed_def)
  show ?thesis
  proof (cases "call_matches call r")
    case True
    then show ?thesis using first_match_inline [OF c(2,3) hash c(5)] c(4) regexes by (simp add: index_0_only_def)
  next
    case False
    then have "result = None" using first_missed [OF c(2,3) _ c(5)] c(4) by simp
    then show ?thesis using False regexes by (simp add: index_0_only_def)
  qed
qed

lemma array_methods_answer:
  assumes "created_from RKArrayCollection regexes (create library options)" "undisturbed call (create library options)"
  shows "isMatchedByAnyRegexInArray_library call create library options c' answer err \<Longrightarrow>
      isMatchedByAnyRegexInArray_library_contract regexes (call_matches call) answer err"
    and "anyMatchingRegexInArray_library call create library options c' result err \<Longrightarrow>
      anyMatchingRegexInArray_library_contract regexes (call_matches call) result err"
    and "firstMatchingRegexInArray_library call create library options c' result err \<Longrightarrow>
      result = index_0_only regexes (call_matches call) \<and> (err \<noteq> None \<longleftrightarrow> regexes = None)"
proof -
  note any = send_any [OF assms] and failed = created_error [OF assms(1)]
  show "isMatchedByAnyRegexInArray_library_contract regexes (call_matches call) answer err"
    if called: "isMatchedByAnyRegexInArray_library call create library options c' answer err"
  proof -
    obtain result where "send_regexMatching call False (fst (create library options)) c' result"
      "answer = (result \<noteq> None)" "err = snd (create library options)"
      using called unfolding isMatchedByAnyRegexInArray_library_def by blast
    then show ?thesis
      unfolding isMatchedByAnyRegexInArray_library_contract_def using any(3) [of c' result] failed by (cases regexes) auto
  qed
  show "anyMatchingRegexInArray_library_contract regexes (call_matches call) result err"
    if called: "anyMatchingRegexInArray_library call create library options c' result err"
  proof -
    have sent: "send_regexMatching call False (fst (create library options)) c' result" "err = snd (create library options)"
      using called by (simp_all add: anyMatchingRegexInArray_library_def)
    show ?thesis
      unfolding anyMatchingRegexInArray_library_contract_def using any(1,2) [OF sent(1)] sent(2) failed
      by (auto split: option.split)
  qed
  show "result = index_0_only regexes (call_matches call) \<and> (err \<noteq> None \<longleftrightarrow> regexes = None)"
    if "firstMatchingRegexInArray_library call create library options c' result err"
    using that send_first [where made = "create library options", OF assms(1) _ assms(2), of c' result] failed
    by (simp add: firstMatchingRegexInArray_library_def)
qed

lemma set_methods_answer:
  assumes "created_from RKSetCollection regexes (create library options)" "undisturbed call (create library options)"
  shows "isMatchedByAnyRegexInSet_library call create library options c' answer err \<Longrightarrow>
      isMatchedByAnyRegexInSet_library_contract (map_option set regexes) (call_matches call) answer err"
    and "anyMatchingRegexInSet_library call create library options c' result err \<Longrightarrow>
      anyMatchingRegexInSet_library_contract (map_option set regexes) (call_matches call) result err"
proof -
  note any = send_any [OF assms] and failed = created_error [OF assms(1)]
  show "isMatchedByAnyRegexInSet_library_contract (map_option set regexes) (call_matches call) answer err"
    if called: "isMatchedByAnyRegexInSet_library call create library options c' answer err"
  proof -
    obtain result where "send_regexMatching call False (fst (create library options)) c' result"
      "answer = (result \<noteq> None)" "err = snd (create library options)"
      using called unfolding isMatchedByAnyRegexInSet_library_def by blast
    then show ?thesis
      unfolding isMatchedByAnyRegexInSet_library_contract_def using any(3) [of c' result] failed by (cases regexes) auto
  qed
  show "anyMatchingRegexInSet_library_contract (map_option set regexes) (call_matches call) result err"
    if called: "anyMatchingRegexInSet_library call create library options c' result err"
  proof -
    have sent: "send_regexMatching call False (fst (create library options)) c' result" "err = snd (create library options)"
      using called by (simp_all add: anyMatchingRegexInSet_library_def)
    show ?thesis
      unfolding anyMatchingRegexInSet_library_contract_def using any(1,2) [OF sent(1)] sent(2) failed
      by (auto split: option.split)
  qed
qed


text \<open>The short forms are the long ones with the documented arguments.\<close>

lemma short_forms:
  "isMatchedByAnyRegexInArray_contract (isMatchedByAnyRegexInArray call create) (isMatchedByAnyRegexInArray_library call create)"
  "anyMatchingRegexInArray_contract (anyMatchingRegexInArray call create) (anyMatchingRegexInArray_library call create)"
  "firstMatchingRegexInArray_contract (firstMatchingRegexInArray call create) (firstMatchingRegexInArray_library call create)"
  "isMatchedByAnyRegexInSet_contract (isMatchedByAnyRegexInSet call create) (isMatchedByAnyRegexInSet_library call create)"
  "anyMatchingRegexInSet_contract (anyMatchingRegexInSet call create) (anyMatchingRegexInSet_library call create)"
  by (auto simp: isMatchedByAnyRegexInArray_contract_def anyMatchingRegexInArray_contract_def
      firstMatchingRegexInArray_contract_def isMatchedByAnyRegexInSet_contract_def anyMatchingRegexInSet_contract_def
      isMatchedByAnyRegexInArray_def anyMatchingRegexInArray_def firstMatchingRegexInArray_def
      isMatchedByAnyRegexInSet_def anyMatchingRegexInSet_def
      isMatchedByAnyRegexInArray_library_def anyMatchingRegexInArray_library_def firstMatchingRegexInArray_library_def
      isMatchedByAnyRegexInSet_library_def anyMatchingRegexInSet_library_def RKPCREDefaultOptions_def)

section \<open>Witness\<close>

text \<open>An array and a set of two regexes, of which the second matches the object.\<close>

definition sample_regex :: "string \<Rightarrow> RKRegex" where
  "sample_regex pattern = \<lparr>compiledPCRE = 2, regex_jchanged = Some 0, compiledRegexString = pattern, compileOption = 0,
     captureCount = 1, captureNameTable = [], captureNameTableLength = 0, captureNameLength = 0,
     captureNameArray = None, regex_hash = 2\<rparr>"

definition sample_objects :: "regex_argument list" where
  "sample_objects = [ArgRegex (sample_regex ''a''), ArgRegex (sample_regex ''b'')]"

definition sample_call :: "RKRegex matching_call" where
  "sample_call = \<lparr>call_matches = (\<lambda>r. r = sample_regex ''b''), call_hash = 7, call_threads = 1, call_forWriting = False\<rparr>"

definition sample_creation :: "RKCollectionType \<Rightarrow> RKRegex creation" where
  "sample_creation type library options = (Some (new_collection type [sample_regex ''a'', sample_regex ''b'']), None)"

lemma sample_created:
  "fst (initWithCollection sample_foundation sample_pcre True ready_cache (CollectionArray sample_objects)
     (RKRegexPCRELibrary = RKRegexPCRELibrary) 0) = Ok (sample_creation RKArrayCollection RKRegexPCRELibrary 0)"
  "fst (initWithCollection sample_foundation sample_pcre True ready_cache (CollectionSet sample_objects)
     (RKRegexPCRELibrary = RKRegexPCRELibrary) 0) = Ok (sample_creation RKSetCollection RKRegexPCRELibrary 0)"
  by (simp_all add: initWithCollection_def sample_objects_def sample_creation_def sample_regex_def run_simps
      RKRegexFromStringOrRegexWithError_def)

lemma sample_in_use: "in_use (sample_creation type library options) (sample_creation type library options)"
  unfolding in_use_def sample_creation_def by (auto intro: no_call)

lemma sample_undisturbed: "undisturbed sample_call (sample_creation type library options)"
  by (simp add: undisturbed_def sample_call_def sample_creation_def new_collection_def cache_bucket_def
      RK_SORTED_REGEX_COLLECTION_CACHE_BUCKETS_def unat_mod)


end
