(* ===== verification/RK_Enumerator.thy ===== *)
theory RK_Enumerator
  imports RK_StringMethods RK_Template
begin

text \<open>
  \<open>RKEnumerator\<close>: the matches of a regex in a string, one after another. The object is a small state machine:
  it starts before the first match, moves to the next with every \<open>next\<close> method, and drops its regex, its
  string and its two result arrays when there is none. The model has every method that the header
  declares apart from the extraction of captures through variable arguments.
\<close>

section \<open>The object\<close>

record RKEnumerator =
  enum_regex :: "RKRegex option"
  enum_string :: "ns_string option"
  atBufferLocation :: u64
  regexCaptureCount :: u64
  searchByteRange :: ns_range
  searchUTF16Range :: ns_range
  resultUTF8Ranges :: "ns_range list option"
  resultUTF16Ranges :: "ns_range list option"
  hasPerformedMatch :: bool

text \<open>
  \<open>initWithRegex:string:inRange:error:\<close>; \<open>converted\<close> is the answer of \<open>RKRegexFromStringOrRegexWithError\<close> for the
  argument with the options \<open>RKCompileUTF8 | RKCompileNoUTF8Check\<close>. Memory for the two arrays is there.
\<close>

definition enum_initWithRegex_inRange_error ::
  "(RKRegex option \<times> ns_error option) run \<Rightarrow> ns_string option \<Rightarrow> ns_range \<Rightarrow> (RKEnumerator option \<times> ns_error option) run" where
  "enum_initWithRegex_inRange_error converted initString initRange =
     run_bind converted (\<lambda>(regex, initError).
       case regex of None \<Rightarrow> Ok (None, initError)
       | Some r \<Rightarrow>
         if initError \<noteq> None then Ok (None, initError)
         else case initString of None \<Rightarrow> Raise NSInvalidArgumentException
         | Some str \<Rightarrow>
           run_bind (RKStringBufferWithString str) (\<lambda>stringBuffer.
           run_bind (RKConvertUTF16ToUTF8RangeForString (Some str) initRange) (\<lambda>byteRange.
             if buffer_length stringBuffer < range_location byteRange then Raise NSRangeException
             else if buffer_length stringBuffer < NSMaxRange byteRange then Raise NSRangeException
             else
               let empty = replicate (unat (captureCount r)) (NSMakeRange NSNotFound 0)
               in Ok (Some \<lparr>enum_regex = Some r, enum_string = Some str, atBufferLocation = range_location byteRange,
                        regexCaptureCount = captureCount r, searchByteRange = byteRange, searchUTF16Range = initRange,
                        resultUTF8Ranges = Some empty, resultUTF16Ranges = Some empty, hasPerformedMatch = False\<rparr>, None))))"

text \<open>The older form raises for an error object.\<close>

definition enum_initWithRegex_inRange ::
  "(RKRegex option \<times> ns_error option) run \<Rightarrow> ns_string option \<Rightarrow> ns_range \<Rightarrow> RKEnumerator run" where
  "enum_initWithRegex_inRange converted initString initRange =
     run_bind (enum_initWithRegex_inRange_error converted initString initRange) (\<lambda>(self, initRegexError).
       if initRegexError \<noteq> None
       then (if self \<noteq> None then Raise NSInternalInconsistencyException else Raise RKRegexSyntaxErrorException)
       else case self of None \<Rightarrow> Raise NSInternalInconsistencyException | Some e \<Rightarrow> Ok e)"

text \<open>\<open>[initString length]\<close>, which is 0 for \<open>NULL\<close>.\<close>

definition string_length :: "ns_string option \<Rightarrow> u64" where
  "string_length initString = (case initString of None \<Rightarrow> 0 | Some str \<Rightarrow> str_length str)"

definition enum_initWithRegex where
  "enum_initWithRegex converted initString =
     enum_initWithRegex_inRange converted initString (NSMakeRange 0 (string_length initString))"

definition enum_initWithRegex_error where
  "enum_initWithRegex_error converted initString =
     enum_initWithRegex_inRange_error converted initString (NSMakeRange 0 (string_length initString))"

definition enumeratorWithRegex where
  "enumeratorWithRegex converted aString =
     enum_initWithRegex_inRange converted aString (NSMakeRange 0 (string_length aString))"

definition enumeratorWithRegex_error where
  "enumeratorWithRegex_error converted aString =
     enum_initWithRegex_inRange_error converted aString (NSMakeRange 0 (string_length aString))"

definition enumeratorWithRegex_inRange where
  "enumeratorWithRegex_inRange converted aString aRange = enum_initWithRegex_inRange converted aString aRange"

definition enumeratorWithRegex_inRange_error where
  "enumeratorWithRegex_inRange_error converted aString aRange = enum_initWithRegex_inRange_error converted aString aRange"

section \<open>Moving to the next match\<close>

definition releaseAllResources :: "RKEnumerator \<Rightarrow> RKEnumerator" where
  "releaseAllResources e = e\<lparr>enum_regex := None, enum_string := None, resultUTF8Ranges := None, resultUTF16Ranges := None,
     atBufferLocation := NSNotFound\<rparr>"

definition updateToNextMatch :: "pcre_exec \<Rightarrow> (nat \<Rightarrow> u32) \<Rightarrow> RKEnumerator \<Rightarrow> (bool \<times> RKEnumerator) run" where
  "updateToNextMatch exec junk e =
     (if atBufferLocation e = NSNotFound then Ok (False, e)
      else case (enum_string e, enum_regex e) of
        (Some str, Some regex) \<Rightarrow>
          run_bind (RKStringBufferWithString str) (\<lambda>stringBuffer.
          run_bind (getRanges exec junk regex (resultUTF8Ranges e = None) (Some (buffer_characters stringBuffer)) (buffer_length stringBuffer)
              (NSMakeRange (atBufferLocation e) (NSMaxRange (searchByteRange e) - atBufferLocation e)) RKMatchNoUTF8Check)
            (\<lambda>(matched, written).
              let ranges = (case written of None \<Rightarrow> resultUTF8Ranges e | Some rs \<Rightarrow> Some rs)
              in if matched > 0 then
                   (case ranges of None \<Rightarrow> Undefined
                    | Some rs \<Rightarrow>
                      run_map (\<lambda>converted. (True,
                          e\<lparr>hasPerformedMatch := True, atBufferLocation := range_location (rs ! 0) + range_length (rs ! 0),
                            resultUTF8Ranges := Some rs, resultUTF16Ranges := Some converted\<rparr>))
                        (run_all (RKConvertUTF8ToUTF16RangeForString (Some str)) rs))
                 else Ok (False, releaseAllResources (e\<lparr>hasPerformedMatch := True, resultUTF8Ranges := ranges\<rparr>))))
      | _ \<Rightarrow> Undefined)"

section \<open>The current match\<close>

definition result_at :: "RKEnumerator \<Rightarrow> u64 \<Rightarrow> ns_range run" where
  "result_at e i =
     (case resultUTF16Ranges e of None \<Rightarrow> Undefined
      | Some rs \<Rightarrow> if unat i < length rs then Ok (rs ! unat i) else Undefined)"

definition currentRange :: "RKEnumerator \<Rightarrow> ns_range run" where
  "currentRange e =
     (if atBufferLocation e = NSNotFound then Ok (NSMakeRange NSNotFound 0)
      else if \<not> hasPerformedMatch e then Raise NSInvalidArgumentException
      else result_at e 0)"

definition currentRangeForCapture :: "RKEnumerator \<Rightarrow> u64 \<Rightarrow> ns_range run" where
  "currentRangeForCapture e capture =
     (if atBufferLocation e = NSNotFound then Ok (NSMakeRange NSNotFound 0)
      else if \<not> hasPerformedMatch e then Raise NSInvalidArgumentException
      else if capture \<ge> regexCaptureCount e then Raise NSInvalidArgumentException
      else result_at e capture)"

definition currentRangeForCaptureName :: "RKEnumerator \<Rightarrow> RKStringBuffer option \<Rightarrow> ns_range run" where
  "currentRangeForCaptureName e captureNameString =
     (if captureNameString = None then Raise NSInvalidArgumentException
      else if atBufferLocation e = NSNotFound then Ok (NSMakeRange NSNotFound 0)
      else if \<not> hasPerformedMatch e then Raise NSInvalidArgumentException
      else case enum_regex e of None \<Rightarrow> Undefined
      | Some regex \<Rightarrow>
        run_bind (isValidCaptureName regex captureNameString) (\<lambda>valid.
          if \<not> valid then Raise RKRegexCaptureReferenceException
          else run_bind (captureIndexForCaptureName_inMatchedRanges regex captureNameString (resultUTF8Ranges e)) (result_at e)))"

text \<open>The form with \<open>error:\<close> reads the array only if the caller gives no error pointer.\<close>

definition currentRangeForCaptureName_error ::
  "RKEnumerator \<Rightarrow> RKStringBuffer option \<Rightarrow> bool \<Rightarrow> (ns_range \<times> ns_error option) run" where
  "currentRangeForCaptureName_error e captureNameString errorIsNULL =
     (if captureNameString = None then Raise NSInvalidArgumentException
      else if atBufferLocation e = NSNotFound then Ok (NSMakeRange NSNotFound 0, None)
      else if \<not> hasPerformedMatch e
      then Ok (NSMakeRange NSNotFound 0, if errorIsNULL then None else Some (rkErrorWithCode 0))
      else case enum_regex e of None \<Rightarrow> Undefined
      | Some regex \<Rightarrow>
        run_bind (captureIndexForCaptureName_inMatchedRanges_error regex captureNameString (resultUTF8Ranges e))
          (\<lambda>(captureIndex, err).
            if errorIsNULL then run_map (\<lambda>range. (range, None)) (result_at e captureIndex)
            else Ok (NSMakeRange NSNotFound 0, err)))"

definition currentRanges :: "RKEnumerator \<Rightarrow> ns_range list option run" where
  "currentRanges e =
     (if atBufferLocation e = NSNotFound then Ok None
      else if \<not> hasPerformedMatch e then Raise NSInvalidArgumentException
      else Ok (resultUTF16Ranges e))"

section \<open>The next match\<close>

text \<open>Each answers the value of the method and the enumerator after it.\<close>

definition nextObject :: "pcre_exec \<Rightarrow> (nat \<Rightarrow> u32) \<Rightarrow> RKEnumerator \<Rightarrow> (ns_range list option \<times> RKEnumerator) run" where
  "nextObject exec junk e =
     (if atBufferLocation e = NSNotFound then Ok (None, e)
      else run_bind (updateToNextMatch exec junk e) (\<lambda>(updated, e').
        if \<not> updated then Ok (None, e')
        else case resultUTF16Ranges e' of None \<Rightarrow> Undefined
             | Some rs \<Rightarrow> Ok (Some (take (unat (regexCaptureCount e')) rs), e')))"

definition nextRange :: "pcre_exec \<Rightarrow> (nat \<Rightarrow> u32) \<Rightarrow> RKEnumerator \<Rightarrow> (ns_range \<times> RKEnumerator) run" where
  "nextRange exec junk e =
     (if atBufferLocation e = NSNotFound then Ok (NSMakeRange NSNotFound 0, e)
      else run_bind (updateToNextMatch exec junk e) (\<lambda>(updated, e'). run_map (\<lambda>r. (r, e')) (currentRange e')))"

definition nextRangeForCapture ::
  "pcre_exec \<Rightarrow> (nat \<Rightarrow> u32) \<Rightarrow> RKEnumerator \<Rightarrow> u64 \<Rightarrow> (ns_range \<times> RKEnumerator) run" where
  "nextRangeForCapture exec junk e capture =
     (if atBufferLocation e = NSNotFound then Ok (NSMakeRange NSNotFound 0, e)
      else if capture \<ge> regexCaptureCount e then Raise NSInvalidArgumentException
      else run_bind (updateToNextMatch exec junk e) (\<lambda>(updated, e'). run_map (\<lambda>r. (r, e')) (currentRangeForCapture e' capture)))"

definition nextRangeForCaptureName ::
  "pcre_exec \<Rightarrow> (nat \<Rightarrow> u32) \<Rightarrow> RKEnumerator \<Rightarrow> RKStringBuffer option \<Rightarrow> (ns_range \<times> RKEnumerator) run" where
  "nextRangeForCaptureName exec junk e captureNameString =
     (if captureNameString = None then Raise NSInvalidArgumentException
      else if atBufferLocation e = NSNotFound then Ok (NSMakeRange NSNotFound 0, e)
      else case enum_regex e of None \<Rightarrow> Undefined
      | Some regex \<Rightarrow>
        run_bind (isValidCaptureName regex captureNameString) (\<lambda>valid.
          if \<not> valid then Raise RKRegexCaptureReferenceException
          else run_bind (updateToNextMatch exec junk e) (\<lambda>(updated, e').
                 run_map (\<lambda>r. (r, e')) (currentRangeForCaptureName e' captureNameString))))"

definition nextRanges ::
  "pcre_exec \<Rightarrow> (nat \<Rightarrow> u32) \<Rightarrow> RKEnumerator \<Rightarrow> (ns_range list option \<times> RKEnumerator) run" where
  "nextRanges exec junk e =
     run_bind (updateToNextMatch exec junk e) (\<lambda>(updated, e'). run_map (\<lambda>rs. (rs, e')) (currentRanges e'))"

text \<open>A template is expanded with the ranges of the current match; the subject is at \<open>subjectPtr\<close>, the template at \<open>refPtr\<close>.\<close>

definition stringWithReferenceString ::
  "string_library \<Rightarrow> memory \<Rightarrow> nat \<Rightarrow> nat \<Rightarrow> RKEnumerator \<Rightarrow> RKStringBuffer option \<Rightarrow> byte list option run" where
  "stringWithReferenceString S mem subjectPtr refPtr e referenceString =
     (case referenceString of None \<Rightarrow> Raise NSInvalidArgumentException
      | Some ref \<Rightarrow>
        if atBufferLocation e = NSNotFound then Ok None
        else case (enum_regex e, resultUTF8Ranges e) of
          (Some regex, Some ranges) \<Rightarrow> run_map Some (RKStringFromReferenceString S regex ranges mem subjectPtr ref refPtr)
        | _ \<Rightarrow> Undefined)"

definition stringWithReferenceString_error ::
  "string_library \<Rightarrow> memory \<Rightarrow> nat \<Rightarrow> nat \<Rightarrow> RKEnumerator \<Rightarrow> RKStringBuffer option \<Rightarrow>
     (byte list option \<times> template_error option) run" where
  "stringWithReferenceString_error S mem subjectPtr refPtr e referenceString =
     (case referenceString of None \<Rightarrow> Raise NSInvalidArgumentException
      | Some ref \<Rightarrow>
        if atBufferLocation e = NSNotFound then Ok (None, None)
        else case (enum_regex e, resultUTF8Ranges e) of
          (Some regex, Some ranges) \<Rightarrow> RKStringFromReferenceStringX S regex ranges mem subjectPtr ref refPtr
        | _ \<Rightarrow> Undefined)"

text \<open>\<open>formatted\<close> is what \<open>initWithFormat:arguments:\<close> makes of the format and its arguments.\<close>

definition stringWithReferenceFormat_arguments ::
  "string_library \<Rightarrow> memory \<Rightarrow> nat \<Rightarrow> nat \<Rightarrow> ('format \<Rightarrow> RKStringBuffer) \<Rightarrow> RKEnumerator \<Rightarrow> 'format option \<Rightarrow> byte list option run" where
  "stringWithReferenceFormat_arguments S mem subjectPtr refPtr formatted e referenceFormatString =
     (case referenceFormatString of None \<Rightarrow> Raise NSInvalidArgumentException
      | Some format \<Rightarrow>
        if atBufferLocation e = NSNotFound then Ok None
        else case (enum_regex e, resultUTF8Ranges e) of
          (Some regex, Some ranges) \<Rightarrow>
            run_map Some (RKStringFromReferenceString S regex ranges mem subjectPtr (formatted format) refPtr)
        | _ \<Rightarrow> Undefined)"

definition stringWithReferenceFormat where
  "stringWithReferenceFormat S mem subjectPtr refPtr formatted e referenceFormatString =
     (case referenceFormatString of None \<Rightarrow> Raise NSInvalidArgumentException
      | Some format \<Rightarrow>
        if atBufferLocation e = NSNotFound then Ok None
        else stringWithReferenceFormat_arguments S mem subjectPtr refPtr formatted e (Some format))"

text \<open>The regex and the string, which are \<open>NULL\<close> once the resources are released.\<close>

definition enumerator_regex :: "RKEnumerator \<Rightarrow> RKRegex option" where
  "enumerator_regex e = enum_regex e"

definition enumerator_string :: "RKEnumerator \<Rightarrow> ns_string option" where
  "enumerator_string e = enum_string e"

end
