(* ===== verification/RK_EnumeratorContract.thy ===== *)
theory RK_EnumeratorContract
  imports RK_Enumerator
begin

text \<open>
  What \<open>RKEnumerator.h\<close> documents, over the characters of the text: an enumeration stands before the first
  match, at a match, or behind the last one. The enumerator of the code represents it in every state
  that its methods reach, and their answers are the ranges of its match. Enumeration ends if no match
  is empty, and repeats an empty match for ever.
\<close>

section \<open>Enumerations\<close>

datatype enumeration = Start nat | At nat "(nat \<times> nat) option list" | Exhausted

definition match_end :: "(nat \<times> nat) option list \<Rightarrow> nat" where
  "match_end captures = (case captures ! 0 of None \<Rightarrow> 0 | Some (s, e) \<Rightarrow> e)"

text \<open>\<open>search p\<close> is the first match in the characters from \<open>p\<close> on.\<close>

definition next_from :: "(nat \<Rightarrow> text_match) \<Rightarrow> nat \<Rightarrow> enumeration" where
  "next_from search p = (case search p of None \<Rightarrow> Exhausted | Some (n, captures) \<Rightarrow> At (match_end captures) captures)"

primrec next_match :: "(nat \<Rightarrow> text_match) \<Rightarrow> enumeration \<Rightarrow> enumeration" where
  "next_match search (Start p) = next_from search p"
| "next_match search (At p captures) = next_from search p"
| "next_match search Exhausted = Exhausted"

text \<open>The library searches the characters up to \<open>j\<close> and reports whole characters of that part.\<close>

definition searches :: "pcre_exec \<Rightarrow> RKRegex \<Rightarrow> nat list \<Rightarrow> nat \<Rightarrow> (nat \<Rightarrow> text_match) \<Rightarrow> bool" where
  "searches exec regex cps j search \<longleftrightarrow>
     (\<forall>p \<le> j. reports_text exec regex cps p j (search p) \<and>
        (case search p of None \<Rightarrow> True
         | Some (n, captures) \<Rightarrow> \<exists>s e. captures ! 0 = Some (s, e) \<and> p \<le> s \<and> s \<le> e \<and> e \<le> j))"

section \<open>What the header documents\<close>

text \<open>\<open>enumerates e s\<close> says that the enumerator \<open>e\<close> is in the state \<open>s\<close> of the enumeration.\<close>

definition enumeratorWithRegex_contract :: "(RKEnumerator \<Rightarrow> enumeration \<Rightarrow> bool) \<Rightarrow> RKEnumerator run \<Rightarrow> bool" where
  "enumeratorWithRegex_contract enumerates result \<longleftrightarrow> (\<exists>e. result = Ok e \<and> enumerates e (Start 0))"

definition enumeratorWithRegex_inRange_contract ::
  "(RKEnumerator \<Rightarrow> enumeration \<Rightarrow> bool) \<Rightarrow> nat \<Rightarrow> RKEnumerator run \<Rightarrow> bool" where
  "enumeratorWithRegex_inRange_contract enumerates i result \<longleftrightarrow> (\<exists>e. result = Ok e \<and> enumerates e (Start i))"

definition enumeratorWithRegex_inRange_error_contract ::
  "(RKEnumerator \<Rightarrow> enumeration \<Rightarrow> bool) \<Rightarrow> nat \<Rightarrow> (RKEnumerator option \<times> ns_error option) run \<Rightarrow> bool" where
  "enumeratorWithRegex_inRange_error_contract enumerates i result \<longleftrightarrow>
     (\<exists>e. result = Ok (Some e, None) \<and> enumerates e (Start i))"

text \<open>
  The initialisers answer an enumerator if they are successful and \<open>nil\<close> otherwise; the form with an error argument stores
  the error. \<open>problem\<close> is what stands against success: a regex that does not compile, no string, or a range that
  does not fit.
\<close>

datatype init_problem = RegexProblem ns_error | NoString | OutsideString

definition initWithRegex_contract ::
  "(RKEnumerator \<Rightarrow> enumeration \<Rightarrow> bool) \<Rightarrow> init_problem option \<Rightarrow> RKEnumerator option run \<Rightarrow> RKEnumerator option run \<Rightarrow> bool" where
  "initWithRegex_contract enumerates problem in_entire_range result \<longleftrightarrow>
     result = in_entire_range \<and>
     (case problem of None \<Rightarrow> \<exists>e. result = Ok (Some e) \<and> enumerates e (Start 0) | Some _ \<Rightarrow> result = Ok None)"

definition initWithRegex_inRange_contract ::
  "(RKEnumerator \<Rightarrow> enumeration \<Rightarrow> bool) \<Rightarrow> nat \<Rightarrow> init_problem option \<Rightarrow> RKEnumerator option run \<Rightarrow> bool" where
  "initWithRegex_inRange_contract enumerates i problem result \<longleftrightarrow>
     (case problem of None \<Rightarrow> \<exists>e. result = Ok (Some e) \<and> enumerates e (Start i) | Some _ \<Rightarrow> result = Ok None)"

definition initWithRegex_inRange_error_contract ::
  "(RKEnumerator \<Rightarrow> enumeration \<Rightarrow> bool) \<Rightarrow> nat \<Rightarrow> init_problem option \<Rightarrow>
     (RKEnumerator option \<times> ns_error option) run \<Rightarrow> bool" where
  "initWithRegex_inRange_error_contract enumerates i problem result \<longleftrightarrow>
     (case problem of
        None \<Rightarrow> \<exists>e. result = Ok (Some e, None) \<and> enumerates e (Start i)
      | Some (RegexProblem err) \<Rightarrow> result = Ok (None, Some err)
      | Some _ \<Rightarrow> \<exists>err. result = Ok (None, err))"

definition current_capture :: "nat list \<Rightarrow> enumeration \<Rightarrow> nat \<Rightarrow> ns_range" where
  "current_capture cps s k =
     (case s of At p captures \<Rightarrow> capture_range16 cps (captures ! k) | _ \<Rightarrow> NSMakeRange NSNotFound 0)"

definition current_captures :: "nat list \<Rightarrow> enumeration \<Rightarrow> ns_range list option" where
  "current_captures cps s = (case s of At p captures \<Rightarrow> Some (map (capture_range16 cps) captures) | _ \<Rightarrow> None)"

text \<open>The current match, for an enumeration that has been advanced.\<close>

definition currentRange_contract :: "nat list \<Rightarrow> enumeration \<Rightarrow> ns_range run \<Rightarrow> bool" where
  "currentRange_contract cps s result \<longleftrightarrow> (\<forall>p. s \<noteq> Start p) \<longrightarrow> result = Ok (current_capture cps s 0)"

definition currentRangeForCapture_contract :: "nat list \<Rightarrow> enumeration \<Rightarrow> u64 \<Rightarrow> ns_range run \<Rightarrow> bool" where
  "currentRangeForCapture_contract cps s capture result \<longleftrightarrow>
     (\<forall>p. s \<noteq> Start p) \<longrightarrow> result = Ok (current_capture cps s (unat capture))"

text \<open>\<open>named s\<close> is the index that the name has for the ranges of the current match.\<close>

definition currentRangeForCaptureName_contract ::
  "nat list \<Rightarrow> enumeration \<Rightarrow> (enumeration \<Rightarrow> u64) \<Rightarrow> ns_range run \<Rightarrow> bool" where
  "currentRangeForCaptureName_contract cps s named result \<longleftrightarrow>
     (\<forall>p. s \<noteq> Start p) \<longrightarrow> result = Ok (current_capture cps s (unat (named s)))"

definition currentRanges_contract :: "nat list \<Rightarrow> enumeration \<Rightarrow> ns_range list option run \<Rightarrow> bool" where
  "currentRanges_contract cps s result \<longleftrightarrow> (\<forall>p. s \<noteq> Start p) \<longrightarrow> result = Ok (current_captures cps s)"

text \<open>
  The next match: each method advances to it and answers as its \<open>current\<close> method. To advance is to come to another match
  than the current one, or to the end.
\<close>

definition advances :: "enumeration \<Rightarrow> enumeration \<Rightarrow> bool" where
  "advances s s' \<longleftrightarrow>
     (case (s, s') of (At p captures, At p' captures') \<Rightarrow> captures' ! 0 \<noteq> captures ! 0 | _ \<Rightarrow> True)"

definition nextObject_contract where
  "nextObject_contract enumerates cps search s result \<longleftrightarrow> advances s (next_match search s) \<and>
     (\<exists>e. result = Ok (current_captures cps (next_match search s), e) \<and> enumerates e (next_match search s))"

definition nextRange_contract where
  "nextRange_contract enumerates cps search s result \<longleftrightarrow> advances s (next_match search s) \<and>
     (\<exists>e. result = Ok (current_capture cps (next_match search s) 0, e) \<and> enumerates e (next_match search s))"

definition nextRangeForCapture_contract where
  "nextRangeForCapture_contract enumerates cps search s (capture :: u64) result \<longleftrightarrow> advances s (next_match search s) \<and>
     (\<exists>e. result = Ok (current_capture cps (next_match search s) (unat capture), e) \<and> enumerates e (next_match search s))"

definition nextRangeForCaptureName_contract where
  "nextRangeForCaptureName_contract enumerates cps search s (named :: enumeration \<Rightarrow> u64) result \<longleftrightarrow>
     advances s (next_match search s) \<and>
     (\<exists>e. result = Ok (current_capture cps (next_match search s) (unat (named (next_match search s))), e) \<and>
       enumerates e (next_match search s))"

definition nextRanges_contract where
  "nextRanges_contract enumerates cps search s result \<longleftrightarrow> advances s (next_match search s) \<and>
     (\<exists>e. result = Ok (current_captures cps (next_match search s), e) \<and> enumerates e (next_match search s))"

section \<open>The enumerator represents the enumeration\<close>

definition live :: "RKRegex \<Rightarrow> ns_string \<Rightarrow> nat list \<Rightarrow> nat \<Rightarrow> nat \<Rightarrow> RKEnumerator \<Rightarrow> nat \<Rightarrow> bool" where
  "live regex str cps i j e p \<longleftrightarrow>
     enum_regex e = Some regex \<and> enum_string e = Some str \<and> atBufferLocation e = of_nat (w8 cps p) \<and>
     searchByteRange e = range8 cps i j \<and> i \<le> p \<and> p \<le> j \<and> regexCaptureCount e = captureCount regex \<and>
     resultUTF8Ranges e \<noteq> None"

definition enumerates :: "RKRegex \<Rightarrow> ns_string \<Rightarrow> nat list \<Rightarrow> nat \<Rightarrow> nat \<Rightarrow> RKEnumerator \<Rightarrow> enumeration \<Rightarrow> bool" where
  "enumerates regex str cps i j e s \<longleftrightarrow>
     (case s of
        Start p \<Rightarrow> live regex str cps i j e p \<and> \<not> hasPerformedMatch e
      | At p captures \<Rightarrow> live regex str cps i j e p \<and> hasPerformedMatch e \<and> match_end captures = p \<and>
          resultUTF8Ranges e = Some (map (capture_range8 cps) captures) \<and>
          resultUTF16Ranges e = Some (map (capture_range16 cps) captures) \<and>
          length captures = unat (captureCount regex)
      | Exhausted \<Rightarrow> atBufferLocation e = NSNotFound)"

lemma rest_range:
  assumes "p \<le> j" "i \<le> j" "j \<le> length cps"
  shows "NSMakeRange (of_nat (w8 cps p)) (NSMaxRange (range8 cps i j) - of_nat (w8 cps p)) = range8 cps p j"
  using assms w8_le [of p j cps] by (simp add: range_max) (simp add: range8_def of_nat_diff)

lemma live_not_exhausted:
  assumes "live regex str cps i j e p" "string_text str cps" "j \<le> length cps"
  shows "atBufferLocation e \<noteq> NSNotFound"
  using assms w8_bound(1) [of cps p]
  by (auto simp: live_def string_text_def intro!: of_nat32_not_NSNotFound)

lemma getRanges_text:
  assumes "utf8_width cps \<le> 2147483647"
    and "pcre_exec_documented exec regex" "unat (captureCount regex) \<le> 170" "0 < captureCount regex"
    and "i \<le> j" "j \<le> length cps" "reports_text exec regex cps i j m"
  shows "case m of
      None \<Rightarrow> \<exists>code < 0. getRanges exec junk regex False (Some (utf8_of cps)) (of_nat (utf8_width cps)) (range8 cps i j)
        RKMatchNoUTF8Check = Ok (code, None)
    | Some (n, captures) \<Rightarrow> 0 < n \<and> getRanges exec junk regex False (Some (utf8_of cps)) (of_nat (utf8_width cps))
        (range8 cps i j) RKMatchNoUTF8Check = Ok (n, Some (map (capture_range8 cps) captures))"
  using public_methods_match(4) [OF assms(2-4) refl, where chars = "Some (utf8_of cps)" and
      len = "of_nat (utf8_width cps)" and r = "range8 cps i j" and options = RKMatchNoUTF8Check and junk = junk
      and rangesIsNULL = False]
    text_range_valid [OF assms(1,5,6)] assms(7)
  by (auto simp: getRanges_contract_def reports_text_def split: option.splits)

text \<open>The step: \<open>_updateToNextMatch\<close> moves the enumeration on.\<close>

lemma update_enumerates:
  assumes held: "string_text str cps" and len: "j \<le> length cps"
    and regex: "pcre_exec_documented exec regex" "unat (captureCount regex) \<le> 170" "0 < captureCount regex"
    and search: "searches exec regex cps j search"
    and s: "enumerates regex str cps i j e s" "s \<noteq> Exhausted"
  shows "\<exists>e'. updateToNextMatch exec junk e = Ok (next_match search s \<noteq> Exhausted, e') \<and>
    enumerates regex str cps i j e' (next_match search s)"
proof -
  obtain p where live: "live regex str cps i j e p" and s_next: "next_match search s = next_from search p"
    using s by (cases s) (auto simp: enumerates_def)
  obtain b where b: "RKStringBufferWithString str = Ok b" "buffer_characters b = utf8_of cps"
    "buffer_length b = of_nat (utf8_width cps)" and small: "utf8_width cps \<le> 2147483647"
    by (rule string_text_buffer [OF held])
  have p: "i \<le> p" "p \<le> j" "enum_regex e = Some regex" "enum_string e = Some str" "resultUTF8Ranges e \<noteq> None"
    "atBufferLocation e = of_nat (w8 cps p)" "searchByteRange e = range8 cps i j" "regexCaptureCount e = captureCount regex"
    using live by (simp_all add: live_def)
  have reports: "reports_text exec regex cps p j (search p)" using search p(2) by (simp add: searches_def)
  note found = getRanges_text [OF small regex p(2) len reports, of junk]
  have rest: "NSMakeRange (atBufferLocation e) (NSMaxRange (searchByteRange e) - atBufferLocation e) = range8 cps p j"
    using rest_range [OF p(2) _ len, of i] p(1,2,6,7) by simp
  note call = live_not_exhausted [OF live held len] p(3,4,5) b rest
  show ?thesis
  proof (cases "search p")
    case None
    then show ?thesis
      using found call unfolding s_next next_from_def
      by (auto simp: updateToNextMatch_def Let_def releaseAllResources_def enumerates_def)
  next
    case (Some m)
    obtain n captures where m: "m = (n, captures)" by (cases m)
    obtain s' e' where whole: "captures ! 0 = Some (s', e')" "p \<le> s'" "s' \<le> e'" "e' \<le> j"
      using search p(2) Some m by (fastforce simp: searches_def)
    have n: "length captures = unat (captureCount regex)"
      using text_search(4) [OF small regex p(2) len reports] Some m by simp
    have ok: "list_all (capture_ok cps) captures" using reports Some m by (simp add: reports_text_def)
    have converted: "run_all (RKConvertUTF8ToUTF16RangeForString (Some str)) (map (capture_range8 cps) captures) =
        Ok (map (capture_range16 cps) captures)"
      using ok capture_converts [OF held] by (induction captures) simp_all
    have zero: "0 < length captures" using n regex(3) by (simp add: word_less_nat_alt)
    have at: "range_location (map (capture_range8 cps) captures ! 0) + range_length (map (capture_range8 cps) captures ! 0) =
        of_nat (w8 cps e')"
      using whole zero len range_max(1) [of s' e' cps] by (simp add: capture_range8_def NSMaxRange_def)
    show ?thesis
      using found call converted at whole n p unfolding s_next next_from_def Some m
      by (auto simp: updateToNextMatch_def Let_def enumerates_def live_def match_end_def)
  qed
qed

section \<open>The methods keep what is documented\<close>

text \<open>A name that the regex has, and the index it stands for in the ranges of a match.\<close>

definition name_stands_for :: "RKRegex \<Rightarrow> nat list \<Rightarrow> RKStringBuffer option \<Rightarrow> (enumeration \<Rightarrow> u64) \<Rightarrow> bool" where
  "name_stands_for regex cps captureName named \<longleftrightarrow>
     captureName \<noteq> None \<and> isValidCaptureName regex captureName = Ok True \<and>
     (\<forall>p captures. length captures = unat (captureCount regex) \<longrightarrow>
        captureIndexForCaptureName_inMatchedRanges regex captureName (Some (map (capture_range8 cps) captures)) =
          Ok (named (At p captures)) \<and>
        named (At p captures) < captureCount regex)"

lemma current_match:
  assumes held: "string_text str cps" and len: "j \<le> length cps" and count: "0 < captureCount regex"
    and s: "enumerates regex str cps i j e s"
  shows "currentRange_contract cps s (currentRange e)"
    and "capture < captureCount regex \<Longrightarrow> currentRangeForCapture_contract cps s capture (currentRangeForCapture e capture)"
    and "name_stands_for regex cps captureName named \<Longrightarrow>
      currentRangeForCaptureName_contract cps s named (currentRangeForCaptureName e captureName)"
    and "currentRanges_contract cps s (currentRanges e)"
proof -
  note contracts = currentRange_contract_def currentRange_def currentRangeForCapture_contract_def currentRangeForCapture_def
    currentRangeForCaptureName_contract_def currentRangeForCaptureName_def currentRanges_contract_def currentRanges_def
    current_capture_def current_captures_def result_at_def
  consider (start) p where "s = Start p" | (exhausted) "s = Exhausted" | (at) p captures where "s = At p captures"
    by (cases s) auto
  then have "currentRange_contract cps s (currentRange e) \<and>
    (capture < captureCount regex \<longrightarrow> currentRangeForCapture_contract cps s capture (currentRangeForCapture e capture)) \<and>
    (name_stands_for regex cps captureName named \<longrightarrow>
      currentRangeForCaptureName_contract cps s named (currentRangeForCaptureName e captureName)) \<and>
    currentRanges_contract cps s (currentRanges e)"
  proof cases
    case start
    then show ?thesis by (simp add: contracts)
  next
    case exhausted
    then show ?thesis using s by (auto simp: contracts enumerates_def name_stands_for_def)
  next
    case at
    then have live: "live regex str cps i j e p" and now: "hasPerformedMatch e"
      "resultUTF8Ranges e = Some (map (capture_range8 cps) captures)"
      "resultUTF16Ranges e = Some (map (capture_range16 cps) captures)" "length captures = unat (captureCount regex)"
      using s by (simp_all add: enumerates_def)
    have e: "enum_regex e = Some regex" "regexCaptureCount e = captureCount regex" using live by (simp_all add: live_def)
    have named: "captureName \<noteq> None \<and> isValidCaptureName regex captureName = Ok True \<and>
        captureIndexForCaptureName_inMatchedRanges regex captureName (Some (map (capture_range8 cps) captures)) =
          Ok (named (At p captures)) \<and> unat (named (At p captures)) < length captures"
      if "name_stands_for regex cps captureName named"
      using that now(4) by (simp add: name_stands_for_def word_less_nat_alt)
    show ?thesis
      using live_not_exhausted [OF live held len] now e count at named
      by (auto simp: contracts word_less_nat_alt word_le_nat_alt)
  qed
  then show "currentRange_contract cps s (currentRange e)"
    and "capture < captureCount regex \<Longrightarrow> currentRangeForCapture_contract cps s capture (currentRangeForCapture e capture)"
    and "name_stands_for regex cps captureName named \<Longrightarrow>
      currentRangeForCaptureName_contract cps s named (currentRangeForCaptureName e captureName)"
    and "currentRanges_contract cps s (currentRanges e)"
    by blast+
qed

lemma next_not_start: "next_match search s \<noteq> Start p"
  by (cases s) (auto simp: next_from_def split: option.splits)

lemma exhausted_stays:
  assumes "enumerates regex str cps i j e Exhausted"
  shows "updateToNextMatch exec junk e = Ok (False, e)"
  using assms by (simp add: enumerates_def updateToNextMatch_def)

lemma next_answers:
  assumes held: "string_text str cps" and len: "j \<le> length cps"
    and regex: "pcre_exec_documented exec regex" "unat (captureCount regex) \<le> 170" "0 < captureCount regex"
    and search: "searches exec regex cps j search"
    and s: "enumerates regex str cps i j e s"
  shows "\<exists>e'. nextRange exec junk e = Ok (current_capture cps (next_match search s) 0, e') \<and>
      enumerates regex str cps i j e' (next_match search s)" (is ?range)
    and "\<exists>e'. nextRanges exec junk e = Ok (current_captures cps (next_match search s), e') \<and>
      enumerates regex str cps i j e' (next_match search s)" (is ?ranges)
    and "\<exists>e'. nextObject exec junk e = Ok (current_captures cps (next_match search s), e') \<and>
      enumerates regex str cps i j e' (next_match search s)" (is ?object)
    and "capture < captureCount regex \<Longrightarrow>
      \<exists>e'. nextRangeForCapture exec junk e capture = Ok (current_capture cps (next_match search s) (unat capture), e') \<and>
        enumerates regex str cps i j e' (next_match search s)" (is "_ \<Longrightarrow> ?capture")
    and "name_stands_for regex cps captureName named \<Longrightarrow>
      \<exists>e'. nextRangeForCaptureName exec junk e captureName =
          Ok (current_capture cps (next_match search s) (unat (named (next_match search s))), e') \<and>
        enumerates regex str cps i j e' (next_match search s)" (is "_ \<Longrightarrow> ?name")
proof -
  note methods = nextRange_def nextRanges_def nextObject_def nextRangeForCapture_def nextRangeForCaptureName_def
  have "?range \<and> ?ranges \<and> ?object \<and> (capture < captureCount regex \<longrightarrow> ?capture) \<and>
    (name_stands_for regex cps captureName named \<longrightarrow> ?name)"
  proof (cases "s = Exhausted")
    case True
    then have "atBufferLocation e = NSNotFound" using s by (simp add: enumerates_def)
    then show ?thesis
      using s exhausted_stays [of regex str cps i j e exec junk] True
      by (auto simp: methods current_capture_def current_captures_def name_stands_for_def currentRanges_def)
  next
    case False
    obtain p where live: "live regex str cps i j e p" using s False by (cases s) (auto simp: enumerates_def)
    have e: "atBufferLocation e \<noteq> NSNotFound" "enum_regex e = Some regex" "regexCaptureCount e = captureCount regex"
      using live_not_exhausted [OF live held len] live by (simp_all add: live_def)
    obtain e' where e': "updateToNextMatch exec junk e = Ok (next_match search s \<noteq> Exhausted, e')"
      "enumerates regex str cps i j e' (next_match search s)"
      using update_enumerates [OF held len regex search s False] by blast
    note now = current_match [OF held len regex(3) e'(2), unfolded currentRange_contract_def
        currentRangeForCapture_contract_def currentRangeForCaptureName_contract_def currentRanges_contract_def]
    have current: "currentRange e' = Ok (current_capture cps (next_match search s) 0)"
      "currentRanges e' = Ok (current_captures cps (next_match search s))"
      using now(1,4) next_not_start by blast+
    have objects: "next_match search s = At q captures \<Longrightarrow> resultUTF16Ranges e' = Some (map (capture_range16 cps) captures) \<and>
        unat (regexCaptureCount e') = length captures" for q captures
      using e'(2) by (simp add: enumerates_def live_def)
    have "\<exists>e''. nextObject exec junk e = Ok (current_captures cps (next_match search s), e'') \<and>
        enumerates regex str cps i j e'' (next_match search s)"
    proof (cases "next_match search s")
      case (At q captures)
      then show ?thesis using objects e(1) e' by (simp add: nextObject_def current_captures_def)
    next
      case Exhausted
      then show ?thesis using e(1) e' by (simp add: nextObject_def current_captures_def)
    qed (use next_not_start in blast)
    moreover have "currentRangeForCapture e' capture = Ok (current_capture cps (next_match search s) (unat capture))"
      if "capture < captureCount regex"
      using now(2) [OF that] next_not_start by blast
    moreover have "currentRangeForCaptureName e' captureName =
        Ok (current_capture cps (next_match search s) (unat (named (next_match search s))))"
      if "name_stands_for regex cps captureName named"
      using now(3) [OF that] next_not_start by blast
    ultimately show ?thesis
      using e e' current by (auto simp: methods not_le name_stands_for_def)
  qed
  then show ?range ?ranges ?object "capture < captureCount regex \<Longrightarrow> ?capture"
    "name_stands_for regex cps captureName named \<Longrightarrow> ?name"
    by blast+
qed

text \<open>Where the code does not advance: at an empty match, with an empty match found again in the same place.\<close>

definition repeats :: "(nat \<Rightarrow> text_match) \<Rightarrow> enumeration \<Rightarrow> bool" where
  "repeats search s \<longleftrightarrow>
     (\<exists>p captures n captures'. s = At p captures \<and> captures ! 0 = Some (p, p) \<and>
        search p = Some (n, captures') \<and> captures' ! 0 = Some (p, p))"

lemma advances_unless_repeats:
  assumes "searches exec regex cps j search" "enumerates regex str cps i j e s"
  shows "advances s (next_match search s) \<longleftrightarrow> \<not> repeats search s"
proof (cases s)
  case (At p captures)
  then have p: "p \<le> j" "match_end captures = p" using assms(2) by (simp_all add: enumerates_def live_def)
  show ?thesis
  proof (cases "search p")
    case (Some m)
    obtain n captures' where m: "m = (n, captures')" by (cases m)
    obtain b d where found: "captures' ! 0 = Some (b, d)" "p \<le> b" "b \<le> d"
      using assms(1) p(1) Some m by (fastforce simp: searches_def)
    have "captures ! 0 = Some (p, p) \<and> captures' ! 0 = Some (p, p)" if "captures' ! 0 = captures ! 0"
    proof -
      have "captures ! 0 = Some (b, d)" using that found(1) by (rule subst)
      moreover from this have "d = p" using p(2) by (simp add: match_end_def)
      ultimately show ?thesis using found that by simp
    qed
    then have "captures' ! 0 = captures ! 0 \<longleftrightarrow> captures ! 0 = Some (p, p) \<and> captures' ! 0 = Some (p, p)"
      by auto
    then show ?thesis using At Some m by (auto simp: advances_def repeats_def next_from_def)
  qed (use At in \<open>simp add: advances_def repeats_def next_from_def\<close>)
qed (simp_all add: advances_def repeats_def)

lemma next_matches:
  assumes "string_text str cps" "j \<le> length cps"
    and "pcre_exec_documented exec regex" "unat (captureCount regex) \<le> 170" "0 < captureCount regex"
    and "searches exec regex cps j search" "enumerates regex str cps i j e s" "\<not> repeats search s"
  shows "nextRange_contract (enumerates regex str cps i j) cps search s (nextRange exec junk e)"
    and "nextRanges_contract (enumerates regex str cps i j) cps search s (nextRanges exec junk e)"
    and "nextObject_contract (enumerates regex str cps i j) cps search s (nextObject exec junk e)"
    and "capture < captureCount regex \<Longrightarrow>
      nextRangeForCapture_contract (enumerates regex str cps i j) cps search s capture (nextRangeForCapture exec junk e capture)"
    and "name_stands_for regex cps captureName named \<Longrightarrow>
      nextRangeForCaptureName_contract (enumerates regex str cps i j) cps search s named
        (nextRangeForCaptureName exec junk e captureName)"
  using next_answers [OF assms(1-7), where junk = junk] advances_unless_repeats [OF assms(6,7)] assms(8)
  by (simp_all add: nextRange_contract_def nextRanges_contract_def nextObject_contract_def nextRangeForCapture_contract_def
      nextRangeForCaptureName_contract_def)

section \<open>Creation\<close>

lemma init_enumerates:
  assumes held: "string_text str cps" and ij: "i \<le> j" "j \<le> length cps"
  shows "\<exists>e. enum_initWithRegex_inRange_error (Ok (Some regex, None)) (Some str) (range16 cps i j) = Ok (Some e, None) \<and>
    enumerates regex str cps i j e (Start i)"
proof -
  obtain b where b: "RKStringBufferWithString str = Ok b" "buffer_length b = of_nat (utf8_width cps)"
    and small: "utf8_width cps \<le> 2147483647"
    by (rule string_text_buffer [OF held])
  have "w8 cps i \<le> w8 cps j" "w8 cps j \<le> utf8_width cps"
    using ij w8_le [of i j cps] w8_le [of j "length cps" cps] by (simp_all add: w8_zero_full)
  then have guards: "\<not> buffer_length b < range_location (range8 cps i j)" "\<not> buffer_length b < NSMaxRange (range8 cps i j)"
    using ij small b(2) by (simp_all add: range_max range_loc of_nat64_less_iff)
  show ?thesis
    using b guards string_ranges_convert(2) [OF held ij] ij
    by (auto simp: enum_initWithRegex_inRange_error_def Let_def enumerates_def live_def range_loc)
qed

lemma whole_string_range:
  assumes "string_text str cps"
  shows "NSMakeRange 0 (string_length (Some str)) = range16 cps 0 (length cps)"
proof -
  obtain b where b: "RKStringBufferWithString str = Ok b" "buffer_string_length b = of_nat (utf16_width cps)"
    using assms by (auto simp: string_text_def holds_text_def holds_ascii_def split: run.splits)
  then have "str_length str = of_nat (utf16_width cps)"
    by (auto simp: RKStringBufferWithString_def RKMakeStringBuffer_def Let_def split: option.splits if_splits)
  then show ?thesis by (simp add: string_length_def range16_def w8_full)
qed

section \<open>The enumerators of strings\<close>

text \<open>The methods of \<open>NSString.m\<close>; \<open>converted\<close> is what the enumerator makes of \<open>aRegex\<close>.\<close>

definition matchEnumeratorWithRegex where
  "matchEnumeratorWithRegex converted self = enumeratorWithRegex converted (Some self)"

definition matchEnumeratorWithRegex_error where
  "matchEnumeratorWithRegex_error converted self = enumeratorWithRegex_error converted (Some self)"

definition matchEnumeratorWithRegex_inRange where
  "matchEnumeratorWithRegex_inRange converted self aRange = enumeratorWithRegex_inRange converted (Some self) aRange"

definition matchEnumeratorWithRegex_inRange_error where
  "matchEnumeratorWithRegex_inRange_error converted self aRange = enumeratorWithRegex_inRange_error converted (Some self) aRange"

text \<open>\<open>NSString.h\<close>: an enumerator that begins at location 0, or at the start of the range.\<close>

definition matchEnumeratorWithRegex_contract ::
  "(RKEnumerator \<Rightarrow> enumeration \<Rightarrow> bool) \<Rightarrow> RKEnumerator run \<Rightarrow> (RKEnumerator option \<times> ns_error option) run \<Rightarrow> bool" where
  "matchEnumeratorWithRegex_contract represents result result_error \<longleftrightarrow>
     (\<exists>e. result = Ok e \<and> result_error = Ok (Some e, None) \<and> represents e (Start 0))"

definition matchEnumeratorWithRegex_inRange_contract ::
  "(RKEnumerator \<Rightarrow> enumeration \<Rightarrow> bool) \<Rightarrow> nat \<Rightarrow> RKEnumerator run \<Rightarrow> (RKEnumerator option \<times> ns_error option) run \<Rightarrow> bool" where
  "matchEnumeratorWithRegex_inRange_contract represents i result result_error \<longleftrightarrow>
     (\<exists>e. result = Ok e \<and> result_error = Ok (Some e, None) \<and> represents e (Start i))"

lemma match_enumerators_keep_documentation:
  assumes "string_text self cps" "i \<le> j" "j \<le> length cps"
  shows "matchEnumeratorWithRegex_contract (enumerates regex self cps 0 (length cps))
      (matchEnumeratorWithRegex (Ok (Some regex, None)) self) (matchEnumeratorWithRegex_error (Ok (Some regex, None)) self)"
    and "matchEnumeratorWithRegex_inRange_contract (enumerates regex self cps i j) i
      (matchEnumeratorWithRegex_inRange (Ok (Some regex, None)) self (range16 cps i j))
      (matchEnumeratorWithRegex_inRange_error (Ok (Some regex, None)) self (range16 cps i j))"
proof -
  have init: "\<exists>e. enum_initWithRegex_inRange_error (Ok (Some regex, None)) (Some self) (range16 cps a b) = Ok (Some e, None) \<and>
      enumerates regex self cps a b e (Start a)" if "a \<le> b" "b \<le> length cps" for a b
    using init_enumerates [OF assms(1) that] by blast
  show "matchEnumeratorWithRegex_contract (enumerates regex self cps 0 (length cps))
      (matchEnumeratorWithRegex (Ok (Some regex, None)) self) (matchEnumeratorWithRegex_error (Ok (Some regex, None)) self)"
    using init [of 0 "length cps"]
    by (auto simp: matchEnumeratorWithRegex_contract_def matchEnumeratorWithRegex_def matchEnumeratorWithRegex_error_def
        enumeratorWithRegex_def enumeratorWithRegex_error_def enum_initWithRegex_inRange_def whole_string_range [OF assms(1)])
  show "matchEnumeratorWithRegex_inRange_contract (enumerates regex self cps i j) i
      (matchEnumeratorWithRegex_inRange (Ok (Some regex, None)) self (range16 cps i j))
      (matchEnumeratorWithRegex_inRange_error (Ok (Some regex, None)) self (range16 cps i j))"
    using init [OF assms(2,3)]
    by (auto simp: matchEnumeratorWithRegex_inRange_contract_def matchEnumeratorWithRegex_inRange_def
        matchEnumeratorWithRegex_inRange_error_def enumeratorWithRegex_inRange_def enumeratorWithRegex_inRange_error_def
        enum_initWithRegex_inRange_def)
qed

section \<open>Enumerating to the end\<close>

text \<open>A client that takes the next range \<open>n\<close> times.\<close>

primrec enumerate_ranges :: "pcre_exec \<Rightarrow> (nat \<Rightarrow> u32) \<Rightarrow> nat \<Rightarrow> RKEnumerator \<Rightarrow> (ns_range list \<times> RKEnumerator) run" where
  "enumerate_ranges exec junk 0 e = Ok ([], e)"
| "enumerate_ranges exec junk (Suc n) e =
     run_bind (nextRange exec junk e) (\<lambda>(r, e'). run_map (\<lambda>(rs, e''). (r # rs, e'')) (enumerate_ranges exec junk n e'))"

definition stands_at :: "enumeration \<Rightarrow> nat \<Rightarrow> bool" where
  "stands_at s p \<longleftrightarrow> s = Start p \<or> (\<exists>captures. s = At p captures)"

lemma stands_next: "stands_at s p \<Longrightarrow> next_match search s = next_from search p"
  by (auto simp: stands_at_def)

lemma next_range_answers:
  assumes "string_text str cps" "j \<le> length cps"
    and "pcre_exec_documented exec regex" "unat (captureCount regex) \<le> 170" "0 < captureCount regex"
    and "searches exec regex cps j search" "enumerates regex str cps i j e s"
  obtains e' where "nextRange exec junk e = Ok (current_capture cps (next_match search s) 0, e')"
    "enumerates regex str cps i j e' (next_match search s)"
  using next_answers(1) [OF assms, of junk] by blast

definition no_empty_match :: "(nat \<Rightarrow> text_match) \<Rightarrow> nat \<Rightarrow> bool" where
  "no_empty_match search j \<longleftrightarrow>
     (\<forall>p \<le> j. case search p of None \<Rightarrow> True | Some (n, captures) \<Rightarrow> \<forall>s e. captures ! 0 = Some (s, e) \<longrightarrow> s < e)"

definition successive :: "nat \<Rightarrow> nat \<Rightarrow> (nat \<times> nat) list \<Rightarrow> bool" where
  "successive i j ms \<longleftrightarrow>
     sorted_wrt (\<lambda>(s, e) (s', e'). e \<le> s') ms \<and> list_all (\<lambda>(s, e). i \<le> s \<and> s < e \<and> e \<le> j) ms \<and> length ms \<le> j - i"

lemma successive_Cons:
  assumes "i \<le> s" "s < e" "e \<le> j" "successive e j ms"
  shows "successive i j ((s, e) # ms)"
  using assms by (auto simp: successive_def list_all_iff)

lemma enumeration_finishes:
  assumes "string_text str cps" "j \<le> length cps"
    and "pcre_exec_documented exec regex" "unat (captureCount regex) \<le> 170" "0 < captureCount regex"
    and "searches exec regex cps j search" "no_empty_match search j"
    and "enumerates regex str cps i j e s" "stands_at s p" "p \<le> j"
  shows "\<exists>ms e'. successive p j ms \<and>
    enumerate_ranges exec junk (length ms + 1) e =
      Ok (map (\<lambda>(s, e). range16 cps s e) ms @ [NSMakeRange NSNotFound 0], e') \<and>
    enumerates regex str cps i j e' Exhausted"
  using assms(8-10)
proof (induction "j - p" arbitrary: e s p rule: less_induct)
  case less
  obtain e1 where e1: "nextRange exec junk e = Ok (current_capture cps (next_from search p) 0, e1)"
    "enumerates regex str cps i j e1 (next_from search p)"
    using next_range_answers [OF assms(1-6) less(2)] stands_next [OF less(3)] by metis
  show ?case
  proof (cases "search p")
    case None
    then have "enumerate_ranges exec junk 1 e = Ok ([NSMakeRange NSNotFound 0], e1)"
      using e1(1) by (simp add: next_from_def current_capture_def)
    then show ?thesis
      using e1(2) None by (intro exI [of _ "[]"] exI [of _ e1]) (simp add: successive_def next_from_def)
  next
    case (Some m)
    obtain n captures where m: "m = (n, captures)" by (cases m)
    obtain b d where match: "captures ! 0 = Some (b, d)" "p \<le> b" "b \<le> d" "d \<le> j"
      using assms(6) less(4) Some m by (fastforce simp: searches_def)
    have "b < d" using assms(7) less(4) Some m match(1) by (fastforce simp: no_empty_match_def)
    have closer: "j - d < j - p" using match \<open>b < d\<close> by linarith
    have at: "next_from search p = At d captures" using Some m match(1) by (simp add: next_from_def match_end_def)
    obtain ms e' where ms: "successive d j ms" "enumerate_ranges exec junk (length ms + 1) e1 =
        Ok (map (\<lambda>(s, e). range16 cps s e) ms @ [NSMakeRange NSNotFound 0], e')" "enumerates regex str cps i j e' Exhausted"
      using less(1) [of d e1 "At d captures"] e1(2) at match(4) closer by (auto simp: stands_at_def simp del: enumerate_ranges.simps)
    have "enumerate_ranges exec junk (length ((b, d) # ms) + 1) e =
        Ok (map (\<lambda>(s, e). range16 cps s e) ((b, d) # ms) @ [NSMakeRange NSNotFound 0], e')"
      using e1(1) ms(2) at match(1) by (simp add: current_capture_def capture_range16_def)
    then show ?thesis
      using ms(3) successive_Cons [OF match(2) \<open>b < d\<close> match(4) ms(1)] by blast
  qed
qed

text \<open>
  C21. Enumeration ends: if the regex matches no empty string, taking the next range until it is
  \<open>{NSNotFound, 0}\<close> ends after at most as many matches as the part has characters; the ranges are those of
  matches that follow one another without overlap inside the part.
\<close>
theorem enumeration_ends:
  assumes "string_text str cps" "i \<le> j" "j \<le> length cps"
    and "pcre_exec_documented exec regex" "unat (captureCount regex) \<le> 170" "0 < captureCount regex"
    and "searches exec regex cps j search" "no_empty_match search j"
    and "enumeratorWithRegex_inRange (Ok (Some regex, None)) (Some str) (range16 cps i j) = Ok e"
  shows "\<exists>ms e'. successive i j ms \<and>
    enumerate_ranges exec junk (length ms + 1) e =
      Ok (map (\<lambda>(s, e). range16 cps s e) ms @ [NSMakeRange NSNotFound 0], e') \<and>
    atBufferLocation e' = NSNotFound"
proof -
  obtain e0 where "enum_initWithRegex_inRange_error (Ok (Some regex, None)) (Some str) (range16 cps i j) = Ok (Some e0, None)"
    "enumerates regex str cps i j e0 (Start i)"
    using init_enumerates [OF assms(1-3)] by blast
  then have "enumerates regex str cps i j e (Start i)"
    using assms(9) by (simp add: enumeratorWithRegex_inRange_def enum_initWithRegex_inRange_def)
  then obtain ms e' where "successive i j ms" "enumerate_ranges exec junk (length ms + 1) e =
      Ok (map (\<lambda>(s, e). range16 cps s e) ms @ [NSMakeRange NSNotFound 0], e')" "enumerates regex str cps i j e' Exhausted"
    using enumeration_finishes [OF assms(1,3-8), of i e "Start i" i junk] assms(2) by (auto simp: stands_at_def)
  then show ?thesis by (auto simp: enumerates_def)
qed

text \<open>An empty match does not move the enumerator: it is found again and again.\<close>

lemma empty_match_repeats:
  assumes "string_text str cps" "j \<le> length cps"
    and "pcre_exec_documented exec regex" "unat (captureCount regex) \<le> 170" "0 < captureCount regex"
    and "searches exec regex cps j search" "search p = Some (n, captures)" "captures ! 0 = Some (p, p)"
    and "enumerates regex str cps i j e s" "stands_at s p"
  shows "\<exists>e'. enumerate_ranges exec junk k e = Ok (replicate k (range16 cps p p), e')"
  using assms(9,10)
proof (induction k arbitrary: e s)
  case (Suc k)
  have at: "next_match search s = At p captures"
    using stands_next [OF Suc(3)] assms(7,8) by (simp add: next_from_def match_end_def)
  obtain e1 where "nextRange exec junk e = Ok (current_capture cps (At p captures) 0, e1)"
    and held: "enumerates regex str cps i j e1 (At p captures)"
    using next_range_answers [OF assms(1-6) Suc(2)] unfolding at by blast
  then have e1: "nextRange exec junk e = Ok (range16 cps p p, e1)"
    using assms(8) by (simp add: current_capture_def capture_range16_def)
  obtain e' where "enumerate_ranges exec junk k e1 = Ok (replicate k (range16 cps p p), e')"
    using Suc(1) [OF held] by (auto simp: stands_at_def)
  then show ?case using e1 by simp
qed simp

lemma created_enumerators:
  assumes "string_text str cps" "i \<le> j" "j \<le> length cps"
  shows "enumeratorWithRegex_contract (enumerates regex str cps 0 (length cps))
      (enumeratorWithRegex (Ok (Some regex, None)) (Some str))"
    and "enumeratorWithRegex_inRange_contract (enumerates regex str cps i j) i
      (enumeratorWithRegex_inRange (Ok (Some regex, None)) (Some str) (range16 cps i j))"
    and "enumeratorWithRegex_inRange_error_contract (enumerates regex str cps i j) i
      (enumeratorWithRegex_inRange_error (Ok (Some regex, None)) (Some str) (range16 cps i j))"
    and "initWithRegex_contract (enumerates regex str cps 0 (length cps)) None
      (run_map Some (enum_initWithRegex_inRange (Ok (Some regex, None)) (Some str) (range16 cps 0 (length cps))))
      (run_map Some (enum_initWithRegex (Ok (Some regex, None)) (Some str)))"
    and "initWithRegex_inRange_contract (enumerates regex str cps i j) i None
      (run_map Some (enum_initWithRegex_inRange (Ok (Some regex, None)) (Some str) (range16 cps i j)))"
    and "initWithRegex_inRange_error_contract (enumerates regex str cps i j) i None
      (enum_initWithRegex_inRange_error (Ok (Some regex, None)) (Some str) (range16 cps i j))"
    and "initWithRegex_inRange_error_contract (enumerates regex str cps i j) i (Some (RegexProblem problem))
      (enum_initWithRegex_inRange_error (Ok (None, Some problem)) (Some str) (range16 cps i j))"
proof -
  obtain part where part: "enum_initWithRegex_inRange_error (Ok (Some regex, None)) (Some str) (range16 cps i j) = Ok (Some part, None)"
    "enumerates regex str cps i j part (Start i)"
    using init_enumerates [OF assms] by blast
  obtain whole where whole: "enum_initWithRegex_inRange_error (Ok (Some regex, None)) (Some str) (range16 cps 0 (length cps)) =
      Ok (Some whole, None)" "enumerates regex str cps 0 (length cps) whole (Start 0)"
    using init_enumerates [OF assms(1) le0 order.refl] by blast
  show "initWithRegex_inRange_error_contract (enumerates regex str cps i j) i (Some (RegexProblem problem))
      (enum_initWithRegex_inRange_error (Ok (None, Some problem)) (Some str) (range16 cps i j))"
    by (simp add: initWithRegex_inRange_error_contract_def enum_initWithRegex_inRange_error_def)
  note methods = enumeratorWithRegex_def enumeratorWithRegex_inRange_def enumeratorWithRegex_inRange_error_def
    enum_initWithRegex_def enum_initWithRegex_inRange_def whole_string_range [OF assms(1)] part(1) whole(1)
  show "enumeratorWithRegex_contract (enumerates regex str cps 0 (length cps))
      (enumeratorWithRegex (Ok (Some regex, None)) (Some str))"
    "initWithRegex_contract (enumerates regex str cps 0 (length cps)) None
      (run_map Some (enum_initWithRegex_inRange (Ok (Some regex, None)) (Some str) (range16 cps 0 (length cps))))
      (run_map Some (enum_initWithRegex (Ok (Some regex, None)) (Some str)))"
    using whole(2) by (simp_all add: enumeratorWithRegex_contract_def initWithRegex_contract_def methods)
  show "enumeratorWithRegex_inRange_contract (enumerates regex str cps i j) i
      (enumeratorWithRegex_inRange (Ok (Some regex, None)) (Some str) (range16 cps i j))"
    "enumeratorWithRegex_inRange_error_contract (enumerates regex str cps i j) i
      (enumeratorWithRegex_inRange_error (Ok (Some regex, None)) (Some str) (range16 cps i j))"
    "initWithRegex_inRange_contract (enumerates regex str cps i j) i None
      (run_map Some (enum_initWithRegex_inRange (Ok (Some regex, None)) (Some str) (range16 cps i j)))"
    "initWithRegex_inRange_error_contract (enumerates regex str cps i j) i None
      (enum_initWithRegex_inRange_error (Ok (Some regex, None)) (Some str) (range16 cps i j))"
    using part(2) by (simp_all add: enumeratorWithRegex_inRange_contract_def enumeratorWithRegex_inRange_error_contract_def
        initWithRegex_inRange_contract_def initWithRegex_inRange_error_contract_def methods)
qed

lemma repeats_for_ever:
  assumes "string_text str cps" "j \<le> length cps"
    and "pcre_exec_documented exec regex" "unat (captureCount regex) \<le> 170" "0 < captureCount regex"
    and "searches exec regex cps j search" "enumerates regex str cps i j e s" "repeats search s"
  shows "\<not> nextRange_contract (enumerates regex str cps i j) cps search s (nextRange exec junk e) \<and>
    (\<forall>k. \<exists>e'. enumerate_ranges exec junk k e = Ok (replicate k (current_capture cps s 0), e'))"
proof -
  obtain p captures n captures' where s: "s = At p captures" "captures ! 0 = Some (p, p)"
    "search p = Some (n, captures')" "captures' ! 0 = Some (p, p)"
    using assms(8) by (auto simp: repeats_def)
  have "\<exists>e'. enumerate_ranges exec junk k e = Ok (replicate k (range16 cps p p), e')" for k
    using empty_match_repeats [OF assms(1-6) s(3,4) assms(7)] s(1) by (auto simp: stands_at_def)
  moreover have "current_capture cps s 0 = range16 cps p p"
    using s(1,2) by (simp add: current_capture_def capture_range16_def)
  moreover have "\<not> advances s (next_match search s)"
    using advances_unless_repeats [OF assms(6,7)] assms(8) by simp
  ultimately show ?thesis by (simp add: nextRange_contract_def)
qed

text \<open>The failures of the initialisers.\<close>

lemma init_fails:
  "enum_initWithRegex_inRange (Ok (None, Some err)) str r = Raise RKRegexSyntaxErrorException"
  "enum_initWithRegex_inRange_error (Ok (Some regex, None)) None r = Raise NSInvalidArgumentException"
  "enum_initWithRegex_inRange (Ok (Some regex, None)) None r = Raise NSInvalidArgumentException"
  by (simp_all add: enum_initWithRegex_inRange_def enum_initWithRegex_inRange_error_def)

lemma outside_fails:
  assumes "string_text str cps" "range_location r \<noteq> NSNotFound" "range_end r < 2 ^ 64" "utf16_width cps < range_end r"
  shows "enum_initWithRegex_inRange_error (Ok (Some regex, None)) (Some str) r = Raise NSRangeException"
    and "enum_initWithRegex_inRange (Ok (Some regex, None)) (Some str) r = Raise NSRangeException"
proof -
  obtain b where b: "RKStringBufferWithString str = Ok b" "buffer_string_length b = of_nat (utf16_width cps)"
    using assms(1) by (auto simp: string_text_def holds_text_def holds_ascii_def split: run.splits)
  have "utf16_width cps \<le> utf8_width cps" "utf8_width cps \<le> 2147483647"
    using w16_le_w8 [of "length cps" cps] assms(1) by (simp_all add: w8_full string_text_def)
  then have "NSMaxRange r > buffer_string_length b"
    using assms(3,4) unat_max_range [OF assms(3)] b(2) by (simp add: word_less_nat_alt unat_of_nat_small)
  then show error: "enum_initWithRegex_inRange_error (Ok (Some regex, None)) (Some str) r = Raise NSRangeException"
    using b(1) assms(2)
    by (simp add: enum_initWithRegex_inRange_error_def RKConvertUTF16ToUTF8RangeForString_def
        RKConvertUTF16ToUTF8RangeForStringBuffer_def)
  then show "enum_initWithRegex_inRange (Ok (Some regex, None)) (Some str) r = Raise NSRangeException"
    by (simp add: enum_initWithRegex_inRange_def)
qed


text \<open>With an error pointer the range of a named capture is never read.\<close>

lemma named_range_with_error_lost:
  "currentRangeForCaptureName_error e captureName False = Ok (r, err) \<Longrightarrow> r = NSMakeRange NSNotFound 0"
  by (auto simp: currentRangeForCaptureName_error_def run_simps split: if_splits option.splits)

section \<open>Templates\<close>

definition stringWithReferenceString_contract where
  "stringWithReferenceString_contract S captures pieces s result \<longleftrightarrow>
     result = Ok (if s = Exhausted then None else Some (utf8_of (expand S OP_STOP [] (map (meaning captures) pieces))))"

lemma template_of_current_match:
  assumes "string_text str cps" "j \<le> length cps"
    and "string_library_contract S" "addressable ref" "length (buffer_characters ref) < 2147483648"
    and "names_table regex entries" "distinct (map snd entries)" "unique_names regex" "list_all (\<lambda>(i, nm). i < 128) entries"
    and "read_bytes mem ptr (length (buffer_characters ref)) = Ok (buffer_characters ref)" "ptr \<noteq> 0" "mem \<noteq> []"
    and "buffer_characters ref = concat (map render pieces)" "length pieces \<le> 15"
    and "enumerates regex str cps i j e s"
    and "\<And>q found. s = At q found \<Longrightarrow>
      list_all (\<lambda>x. good_piece regex entries x \<and> capture_present mem subj (map (capture_range8 cps) found) captures x) pieces \<and>
      empties_outside OP_STOP (map (meaning captures) pieces)"
    and "\<And>q. s \<noteq> Start q"
  shows "stringWithReferenceString_contract S captures pieces s (stringWithReferenceString S mem subj ptr e (Some ref))"
proof (cases s)
  case (At q found)
  then have live: "live regex str cps i j e q" and ranges: "resultUTF8Ranges e = Some (map (capture_range8 cps) found)"
    using assms(15) by (simp_all add: enumerates_def)
  show ?thesis
    using template_expands [OF assms(3-14) assms(16) [OF At, THEN conjunct1] assms(16) [OF At, THEN conjunct2]] live_not_exhausted [OF live assms(1,2)] live ranges At
    by (simp add: stringWithReferenceString_contract_def stringWithReferenceString_def live_def)
next
  case Exhausted
  then show ?thesis
    using assms(15) by (simp add: stringWithReferenceString_contract_def stringWithReferenceString_def enumerates_def)
qed (use assms(17) in blast)

section \<open>The regex and the string of an enumerator\<close>

definition regex_contract :: "RKRegex \<Rightarrow> RKRegex option \<Rightarrow> bool" where
  "regex_contract created_with result \<longleftrightarrow> result = Some created_with"

definition string_contract :: "ns_string \<Rightarrow> ns_string option \<Rightarrow> bool" where
  "string_contract created_with result \<longleftrightarrow> result = Some created_with"

lemma enumerator_information:
  assumes "enumerates regex str cps i j e s" "s \<noteq> Exhausted"
  shows "regex_contract regex (enumerator_regex e)" "string_contract str (enumerator_string e)"
  using assms by (cases s; simp add: enumerates_def live_def regex_contract_def string_contract_def
      enumerator_regex_def enumerator_string_def)+

text \<open>Once it has found no match, it has neither, although the header documents them without that condition.\<close>

lemma exhausted_forgets:
  assumes "updateToNextMatch exec junk e = Ok (False, e')" "atBufferLocation e \<noteq> NSNotFound"
  shows "enumerator_regex e' = None \<and> enumerator_string e' = None"
  using assms
  by (auto simp: updateToNextMatch_def Let_def run_simps releaseAllResources_def enumerator_regex_def enumerator_string_def
      split: option.splits if_splits)

section \<open>Witnesses\<close>

text \<open>In the sample text the library finds the second and third character, from a start at the first or second.\<close>

definition sample_search :: "nat \<Rightarrow> text_match" where
  "sample_search p = (if p \<le> 1 then Some (2, [Some (1, 3), Some (2, 3)]) else None)"

lemma sample_searches: "searches text_exec sample_regex sample_text 5 sample_search"
proof -
  have "reports_text text_exec sample_regex sample_text p 5 (sample_search p)" if "p \<le> 5" for p
  proof -
    have "p = 0 \<or> p = 1 \<or> p = 2 \<or> p = 3 \<or> p = 4 \<or> p = 5" using that by arith
    then consider "p = 0" | "p = 1" | "p = 2" | "p = 3" | "p = 4" | "p = 5" by blast
    then show ?thesis
      by cases (simp_all add: sample_search_def reports_text_def library_match_def text_exec_def sample_regex_def sample_eval
          capture_ok_def RK_PRESIZE_CAPTURE_COUNT_def range_end_def expected_range_def range_of_vectors_def
          capture_range8_def upt_conv_Cons)
  qed
  then show ?thesis by (auto simp: searches_def sample_search_def)
qed

lemma sample_parts:
  "5 \<le> length sample_text" "unat (captureCount sample_regex) \<le> 170" "0 < captureCount sample_regex"
  "no_empty_match sample_search 5"
  by (simp_all add: sample_text_def sample_regex_def no_empty_match_def sample_search_def)

theorem enumeration_ends_witness:
  "\<exists>e ms e'. enumeratorWithRegex_inRange (Ok (Some sample_regex, None)) (Some sample_string) (range16 sample_text 0 5) = Ok e \<and>
    successive 0 5 ms \<and> enumerate_ranges text_exec (\<lambda>i. 7) (length ms + 1) e =
      Ok (map (\<lambda>(s, e). range16 sample_text s e) ms @ [NSMakeRange NSNotFound 0], e')"
proof -
  obtain e where "enum_initWithRegex_inRange_error (Ok (Some sample_regex, None)) (Some sample_string) (range16 sample_text 0 5) =
      Ok (Some e, None)"
    using init_enumerates [OF sample_string_text le0 sample_parts(1)] by blast
  then have e: "enumeratorWithRegex_inRange (Ok (Some sample_regex, None)) (Some sample_string) (range16 sample_text 0 5) = Ok e"
    by (simp add: enumeratorWithRegex_inRange_def enum_initWithRegex_inRange_def)
  show ?thesis
    using enumeration_ends [OF sample_string_text le0 sample_parts(1) text_exec_documented sample_parts(2,3)
        sample_searches sample_parts(4) e, of "\<lambda>i. 7"] e
    by blast
qed


end
