(* ===== verification/RK_ReplaceLoop.thy ===== *)
theory RK_ReplaceLoop
  imports RK_SearchReplace
begin

text \<open>
  What the search and replace loop of \<open>NSString.m\<close> does: one turn of it in terms of the matches of the
  job, when it ends and when it does not, and the text it makes: what is between the matches, and the
  template expanded for each of them.
\<close>

section \<open>One turn of the loop\<close>

lemma step_no_match:
  assumes "good_job job" "length (range_memory st) = 4 * unat (job_presize job)" "search_index st < job_end job"
    and "find_match job (search_index st) = None"
  shows "\<exists>mem'. replace_step job st = Ok (NoMore (st\<lparr>range_memory := mem'\<rparr>))"
  using job_match_cases [OF assms(1-3)] assms(4) by (auto simp: replace_step_def RKMatchErrorNoMatch_def)

lemma stands_for_more_ranges: "stands_for mem s rs i p \<Longrightarrow> stands_for mem s (rs @ others) i p"
  by (auto simp: stands_for_def Let_def nth_append split: piece.splits)

lemma template_for_more_ranges: "template_for mem s rs t ps \<Longrightarrow> template_for mem s (rs @ others) t ps"
  unfolding template_for_def instructions_for_def by (auto elim: list_all2_mono simp: stands_for_more_ranges)

lemma template_for_grow: "template_for mem s rs t ps \<Longrightarrow> template_for (mem @ extra) s rs t ps"
  unfolding template_for_def instructions_for_def by (auto elim: list_all2_mono simp: stands_for_grow)

lemma run_map_as_bind: "run_map f m = run_bind m (\<lambda>x. Ok (f x))"
  by (cases m) simp_all

text \<open>The copy of the text in front of a match at \<open>r\<close>, and the state behind the match.\<close>

definition gap_copies :: "replace_job \<Rightarrow> replace_state \<Rightarrow> ns_range \<Rightarrow> copy_buffer" where
  "gap_copies job st r =
     (if job_replace job
      then RKAppendCopyInstruction (result_copies st) (job_subject_ptr job) (unat (search_index st))
             (unat (range_location r - search_index st))
      else result_copies st)"

definition behind_match :: "replace_state \<Rightarrow> ns_range \<Rightarrow> u32 list \<Rightarrow> memory \<Rightarrow> copy_buffer \<Rightarrow> replace_state" where
  "behind_match st r mem text' copies' =
     st\<lparr>search_index := NSMaxRange r, matched_count := matched_count st + 1,
        range_memory := mem, text_memory := text', result_copies := copies'\<rparr>"

lemma step_match:
  assumes "good_job job" "length (range_memory st) = 4 * unat (job_presize job)" "search_index st < job_end job"
    and "find_match job (search_index st) = Some rs"
  shows "\<exists>mem' others. length mem' = 4 * unat (job_presize job) \<and>
    replace_step job st =
      run_map (\<lambda>(text', copies'). Again (behind_match st (rs ! 0) mem' text' copies'))
        (RKApplyReferenceInstructions (job_strings job) (job_regex job) (rs @ others) (job_subject_ptr job)
           (job_template job) (text_memory st) (gap_copies job st (rs ! 0)))"
    and "range_end (rs ! 0) \<le> unat (job_end job)" "length rs = unat (captureCount (job_regex job))"
proof -
  let ?cc = "unat (captureCount (job_regex job))" and ?n = "unat (job_presize job)"
  obtain rc mem' where m: "job_match job (range_memory st) (search_index st) = Ok (rc, mem', None)" "0 < rc"
      "length mem' = 4 * ?n" "rs = map (get_range mem') [0..<?cc]"
      "list_all (valid_capture (buffer_length (job_subject job))) rs" "NSMaxRange (rs ! 0) \<le> job_end job"
      "rs ! 0 \<noteq> range_not_found"
    using job_match_cases [OF assms(1-3)] assms(2,4) by auto
  have cc: "0 < ?cc" "?cc \<le> ?n" using assms(1) presize_facts(2) [OF assms(1)]
    by (auto simp: good_job_def word_less_nat_alt word_le_nat_alt)
  have first: "rs ! 0 = get_range mem' 0" using m(4) cc by simp
  have all: "map (get_range mem') [0..<length mem' div 4] = rs @ map (get_range mem') [?cc..<?n]"
    using m(3,4) upt_add_eq_append [of 0 ?cc "?n - ?cc"] cc(2) by simp
  have "replace_step job st =
      run_map (\<lambda>(text', copies'). Again (behind_match st (rs ! 0) mem' text' copies'))
        (RKApplyReferenceInstructions (job_strings job) (job_regex job) (rs @ map (get_range mem') [?cc..<?n])
           (job_subject_ptr job) (job_template job) (text_memory st) (gap_copies job st (rs ! 0)))"
    using m(1,2) all
    by (simp add: replace_step_def Let_def first gap_copies_def behind_match_def NSMaxRange_def run_map_as_bind split_def)
  then show "\<exists>mem' others. length mem' = 4 * ?n \<and> replace_step job st =
      run_map (\<lambda>(text', copies'). Again (behind_match st (rs ! 0) mem' text' copies'))
        (RKApplyReferenceInstructions (job_strings job) (job_regex job) (rs @ others) (job_subject_ptr job)
           (job_template job) (text_memory st) (gap_copies job st (rs ! 0)))"
    using m(3) by blast
  have "valid_capture (buffer_length (job_subject job)) (rs ! 0)" using m(4,5) cc(1) by (simp add: list_all_length)
  then have fits: "range_end (rs ! 0) \<le> unat (buffer_length (job_subject job))" using m(7) by (simp add: valid_capture_def)
  then have "unat (NSMaxRange (rs ! 0)) = range_end (rs ! 0)"
    using assms(1) by (simp add: NSMaxRange_def range_end_def good_job_def unat_plus_simple unat_word_ariths)
  then show "range_end (rs ! 0) \<le> unat (job_end job)" using m(6) by (simp add: word_le_nat_alt)
  show "length rs = ?cc" using m(4) by simp
qed

section \<open>When the loop ends\<close>

text \<open>The indexes a search goes on from, when it begins at \<open>i\<close>: each is the end of a match from the one before.\<close>

inductive reached :: "replace_job \<Rightarrow> u64 \<Rightarrow> u64 \<Rightarrow> bool" for job i where
  start: "reached job i i"
| behind: "reached job i k \<Longrightarrow> k < job_end job \<Longrightarrow> find_match job k = Some rs \<Longrightarrow> reached job i (NSMaxRange (rs ! 0))"

text \<open>
  Matches begin at or behind the index the search began at, as \<open>pcre_exec\<close> is documented to answer, and
  the job either counts its matches or has none of length zero.
\<close>

definition forward :: "replace_job \<Rightarrow> u64 \<Rightarrow> bool" where
  "forward job i \<longleftrightarrow>
     (\<forall>k rs. reached job i k \<longrightarrow> k < job_end job \<longrightarrow> find_match job k = Some rs \<longrightarrow> k \<le> range_location (rs ! 0))"

definition advancing :: "replace_job \<Rightarrow> u64 \<Rightarrow> bool" where
  "advancing job i \<longleftrightarrow>
     job_count job \<noteq> RKReplaceAll \<or>
     forward job i \<and>
     (\<forall>k rs. reached job i k \<longrightarrow> k < job_end job \<longrightarrow> find_match job k = Some rs \<longrightarrow> range_length (rs ! 0) \<noteq> 0)"

definition work_left :: "replace_job \<Rightarrow> replace_state \<Rightarrow> nat" where
  "work_left job st =
     (if job_count job = RKReplaceAll then unat (job_end job) - unat (search_index st)
      else unat (job_count job) - unat (matched_count st))"

lemma behind_match_sel [simp]:
  "search_index (behind_match st r mem t c) = NSMaxRange r" "matched_count (behind_match st r mem t c) = matched_count st + 1"
  "range_memory (behind_match st r mem t c) = mem" "text_memory (behind_match st r mem t c) = t"
  "result_copies (behind_match st r mem t c) = c"
  by (simp_all add: behind_match_def)

lemma NSMaxRange_fits: "range_end r \<le> unat (n :: u64) \<Longrightarrow> unat (NSMaxRange r) = range_end r"
  using unat_lt64 [of n] by (simp add: NSMaxRange_def range_end_def unat_word_ariths del: unat_lt64)

lemma work_counted:
  assumes "job_count job \<noteq> RKReplaceAll" "replace_guard job st" "matched_count st' = matched_count st + 1"
  shows "work_left job st' + 1 = work_left job st"
proof -
  have less: "matched_count st < job_count job" using assms(1,2) by (simp add: replace_guard_def)
  then have "unat (matched_count st + 1) = unat (matched_count st) + 1"
    using unat_lt64 [of "job_count job"] by (simp add: word_less_nat_alt unat_word_ariths del: unat_lt64)
  then show ?thesis using less assms(1,3) by (simp add: work_left_def word_less_nat_alt)
qed

lemma work_decreases:
  assumes "advancing job i" "replace_guard job st" "find_match job (search_index st) = Some rs" "reached job i (search_index st)"
    and "range_end (rs ! 0) \<le> unat (job_end job)"
  shows "work_left job (behind_match st (rs ! 0) mem t c) < work_left job st"
proof (cases "job_count job = RKReplaceAll")
  case True
  then have "search_index st \<le> range_location (rs ! 0)" "range_length (rs ! 0) \<noteq> 0"
    using assms(1-4) by (auto simp: advancing_def forward_def replace_guard_def)
  moreover have "unat (range_length (rs ! 0)) \<noteq> 0" using calculation(2) by (simp add: unat_eq_0)
  ultimately show ?thesis
    using True assms(2,5) NSMaxRange_fits [OF assms(5)]
    by (simp add: work_left_def range_end_def word_le_nat_alt word_less_nat_alt replace_guard_def)
next
  case False
  then show ?thesis using work_counted [OF False assms(2), of "behind_match st (rs ! 0) mem t c"] by simp
qed

lemma loop_ends:
  assumes job: "good_job job" "advancing job i" and st: "length (range_memory st) = 4 * unat (job_presize job)"
    "reached job i (search_index st)"
  shows "\<exists>r. replace_loop job st = Some r"
  using st
proof (induction "work_left job st" arbitrary: st rule: less_induct)
  case less
  show ?case
  proof (cases "replace_guard job st")
    case True
    then have before: "search_index st < job_end job" by (simp add: replace_guard_def)
    show ?thesis
    proof (cases "find_match job (search_index st)")
      case None
      then show ?thesis using step_no_match [OF job(1) less.prems(1) before] True by (auto simp: replace_loop.simps)
    next
      case (Some rs)
      obtain mem' others where m: "length mem' = 4 * unat (job_presize job)" and
          s: "replace_step job st = run_map (\<lambda>(text', copies'). Again (behind_match st (rs ! 0) mem' text' copies'))
            (RKApplyReferenceInstructions (job_strings job) (job_regex job) (rs @ others) (job_subject_ptr job)
              (job_template job) (text_memory st) (gap_copies job st (rs ! 0)))"
        using step_match(1) [OF job(1) less.prems(1) before Some] by blast
      show ?thesis
      proof (cases "RKApplyReferenceInstructions (job_strings job) (job_regex job) (rs @ others) (job_subject_ptr job)
              (job_template job) (text_memory st) (gap_copies job st (rs ! 0))")
        case (Ok r)
        obtain t c where r: "r = (t, c)" by force
        have "\<exists>x. replace_loop job (behind_match st (rs ! 0) mem' t c) = Some x"
          using less.hyps [OF work_decreases [OF job(2) True Some less.prems(2) step_match(2) [OF job(1) less.prems(1) before Some]]]
            m reached.behind [OF less.prems(2) before Some] by simp
        then show ?thesis using True s Ok r by (simp add: replace_loop.simps [of job st])
      qed (use True s in \<open>simp_all add: replace_loop.simps [of job st]\<close>)
    qed
  qed (simp add: replace_loop.simps [of job st])
qed

lemma start_state_ranges [simp]: "length (range_memory (start_state job junk i mem)) = 4 * unat (job_presize job)"
  by (simp add: start_state_def stack_ranges_def)

text \<open>
  C9. Search and replace ends: whatever the template does, the loop returns, if the number of matches is
  limited, or if every match makes the search advance.
\<close>

theorem replacing_ends:
  assumes "good_job job" "advancing job i"
  shows "\<exists>r. run_replace job junk i mem = Some r"
  using loop_ends [OF assms start_state_ranges, of junk i mem] reached.start
  by (auto simp: start_state_def run_replace_def split: run.splits sum.splits)

section \<open>A match of length zero\<close>

text \<open>A match of length zero at the place where the search stands, all matches to be replaced by nothing.\<close>

lemma empty_match_step:
  assumes "good_job job" "i < job_end job" "find_match job i = Some rs" "rs ! 0 = NSMakeRange i 0"
    and "\<And>ranges mem b. \<exists>r. RKApplyReferenceInstructions (job_strings job) (job_regex job) ranges
      (job_subject_ptr job) (job_template job) mem b = Ok r"
    and st: "search_index st = i" "length (range_memory st) = 4 * unat (job_presize job)"
  shows "\<exists>st'. replace_step job st = Ok (Again st') \<and> search_index st' = i \<and>
    length (range_memory st') = 4 * unat (job_presize job)"
proof -
  obtain mem' others where m: "length mem' = 4 * unat (job_presize job)" and
      s: "replace_step job st = run_map (\<lambda>(text', copies'). Again (behind_match st (rs ! 0) mem' text' copies'))
        (RKApplyReferenceInstructions (job_strings job) (job_regex job) (rs @ others) (job_subject_ptr job)
          (job_template job) (text_memory st) (gap_copies job st (rs ! 0)))"
    using step_match(1) [OF assms(1) st(2)] assms(2,3) st(1) by blast
  obtain t c where "RKApplyReferenceInstructions (job_strings job) (job_regex job) (rs @ others) (job_subject_ptr job)
      (job_template job) (text_memory st) (gap_copies job st (rs ! 0)) = Ok (t, c)"
    using assms(5) by (metis surj_pair)
  then show ?thesis using s m assms(4) by (simp add: NSMaxRange_def)
qed

lemma loop_never_returns:
  assumes count: "job_count job = RKReplaceAll" "i < job_end job"
    and step: "\<And>st. search_index st = i \<Longrightarrow> length (range_memory st) = 4 * unat (job_presize job) \<Longrightarrow>
      \<exists>st'. replace_step job st = Ok (Again st') \<and> search_index st' = i \<and> length (range_memory st') = 4 * unat (job_presize job)"
    and returns: "replace_loop job st = Some r"
  shows "search_index st = i \<longrightarrow> length (range_memory st) \<noteq> 4 * unat (job_presize job)"
proof -
  let ?stuck = "\<lambda>j st. j = job \<and> search_index st = i \<and> length (range_memory st) = 4 * unat (job_presize job)"
  have "\<not> ?stuck job st"
  proof (rule replace_loop.raw_induct [where P = "\<lambda>j st r. \<not> ?stuck j st", OF _ returns], rule notI)
    fix loop j st r
    assume IH: "\<And>j st r. loop j st = Some r \<Longrightarrow> \<not> ?stuck j st"
      and body: "(if \<not> replace_guard j st then Some (Ok (Inr st))
        else case replace_step j st of
          Ok nx \<Rightarrow> (case nx of Again st' \<Rightarrow> loop j st' | NoMore st' \<Rightarrow> Some (Ok (Inr st')) | Failed e \<Rightarrow> Some (Ok (Inl e)))
        | Raise e \<Rightarrow> Some (Raise e)
        | Undefined \<Rightarrow> Some Undefined) = Some r"
      and st: "?stuck j st"
    obtain st' where st': "replace_step job st = Ok (Again st')" "?stuck job st'" using step [of st] st by blast
    have "replace_guard job st" using count st by (simp add: replace_guard_def)
    then have "loop job st' = Some r" using body st st'(1) by simp
    then show False using IH [of job st' r] st'(2) by blast
  qed
  then show ?thesis by blast
qed

text \<open>
  C10. A match of length zero at the place where the search stands, when all matches are to be replaced:
  the loop does not return, because the search goes on at the end of the match, which is where it began.
\<close>

theorem empty_match_never_ends:
  assumes "good_job job" "job_count job = RKReplaceAll" "i < job_end job"
    and "find_match job i = Some rs" "rs ! 0 = NSMakeRange i 0"
    and "\<And>ranges mem b. \<exists>r. RKApplyReferenceInstructions (job_strings job) (job_regex job) ranges
      (job_subject_ptr job) (job_template job) mem b = Ok r"
  shows "run_replace job junk i mem = None"
proof -
  have "replace_loop job (start_state job junk i mem) \<noteq> Some r" for r
    using loop_never_returns [OF assms(2,3) empty_match_step [OF assms(1,3-6)], of "start_state job junk i mem" r]
    by (auto simp: start_state_def stack_ranges_def)
  then show ?thesis by (auto simp: run_replace_def split: option.splits)
qed

section \<open>The text that is made\<close>

text \<open>The matches of a search from an index on, at most \<open>n\<close> of them.\<close>

fun match_list :: "nat \<Rightarrow> replace_job \<Rightarrow> u64 \<Rightarrow> ns_range list list" where
  "match_list 0 job i = []"
| "match_list (Suc n) job i =
     (if i < job_end job
      then case find_match job i of None \<Rightarrow> [] | Some rs \<Rightarrow> rs # match_list n job (NSMaxRange (rs ! 0))
      else [])"

fun behind_matches :: "u64 \<Rightarrow> ns_range list list \<Rightarrow> u64" where
  "behind_matches i [] = i"
| "behind_matches i (rs # ms) = behind_matches (NSMaxRange (rs ! 0)) ms"

text \<open>The bytes of a buffer between two indexes.\<close>

definition bytes_between :: "byte list \<Rightarrow> nat \<Rightarrow> nat \<Rightarrow> byte list" where
  "bytes_between bs a b = take (b - a) (drop a bs)"

text \<open>
  The text made from the matches: for each the text in front of it, when that is copied, and the expansion
  of the template, the pieces of which depend on the match.
\<close>

fun replaced_from :: "replace_job \<Rightarrow> (ns_range list \<Rightarrow> piece list) \<Rightarrow> u64 \<Rightarrow> ns_range list list \<Rightarrow> byte list" where
  "replaced_from job pieces i [] = []"
| "replaced_from job pieces i (rs # ms) =
     (if job_replace job
      then bytes_between (buffer_characters (job_subject job)) (unat i) (unat (range_location (rs ! 0))) else []) @
     utf8_of (expand (job_strings job) OP_STOP [] (pieces rs)) @ replaced_from job pieces (NSMaxRange (rs ! 0)) ms"

text \<open>The most copy instructions the matches need.\<close>

definition copies_needed :: "(ns_range list \<Rightarrow> piece list) \<Rightarrow> ns_range list list \<Rightarrow> nat" where
  "copies_needed pieces ms = sum_list (map (\<lambda>rs. 2 + 2 * length (pieces rs)) ms)"

text \<open>The subject is in the memory at its address.\<close>

definition subject_in :: "replace_job \<Rightarrow> memory \<Rightarrow> bool" where
  "subject_in job mem \<longleftrightarrow>
     0 < length mem \<and>
     read_bytes mem (job_subject_ptr job) (length (buffer_characters (job_subject job))) = Ok (buffer_characters (job_subject job))"

lemma subject_in_grow: "subject_in job mem \<Longrightarrow> subject_in job (mem @ extra)"
  by (simp add: subject_in_def read_bytes_grow)

lemma read_between:
  assumes "read_bytes mem p (length bs) = Ok bs" "a \<le> b" "b \<le> length bs"
  shows "read_bytes mem (p + a) (b - a) = Ok (bytes_between bs a b)"
  using read_bytes_split [of mem p a "length bs - a" bs] read_bytes_split [of mem "p + a" "b - a" "length bs - b" "drop a bs"] assms
  by (simp add: bytes_between_def)

lemma copy_between:
  assumes "copies_to mem b out" "subject_in job mem" "x \<le> y" "y \<le> length (buffer_characters (job_subject job))" "0 < copy_room b"
  shows "copies_to mem (RKAppendCopyInstruction b (job_subject_ptr job) x (y - x))
      (out @ bytes_between (buffer_characters (job_subject job)) x y)"
    and "copy_room b \<le> copy_room (RKAppendCopyInstruction b (job_subject_ptr job) x (y - x)) + 1"
  using append_copy [OF assms(1) read_between [of mem "job_subject_ptr job" "buffer_characters (job_subject job)" x y]]
    assms(2-5) by (simp_all add: subject_in_def)

text \<open>One match.\<close>

lemma one_match:
  assumes job: "good_job job" "forward job k" and mem: "length (range_memory st) = 4 * unat (job_presize job)"
    and i: "search_index st < job_end job" and match: "find_match job (search_index st) = Some rs"
    and at: "reached job k (search_index st)"
    and st: "copies_to (text_memory st) (result_copies st) out" "subject_in job (text_memory st)"
    and t: "template_for (text_memory st) (job_subject_ptr job) rs (job_template job) (pieces rs)"
    and room: "2 + 2 * length (pieces rs) \<le> copy_room (result_copies st)"
  shows "\<exists>st' extra. replace_step job st = Ok (Again st') \<and> length (range_memory st') = 4 * unat (job_presize job) \<and>
    search_index st' = NSMaxRange (rs ! 0) \<and> matched_count st' = matched_count st + 1 \<and>
    copies_to (text_memory st') (result_copies st') (out @ replaced_from job pieces (search_index st) [rs]) \<and>
    copy_room (result_copies st) \<le> copy_room (result_copies st') + (2 + 2 * length (pieces rs)) \<and>
    text_memory st' = text_memory st @ extra"
proof -
  let ?S = "job_strings job" and ?chars = "buffer_characters (job_subject job)" and ?loc = "range_location (rs ! 0)"
  obtain mem' others where m: "length mem' = 4 * unat (job_presize job)" and
      s: "replace_step job st = run_map (\<lambda>(text', copies'). Again (behind_match st (rs ! 0) mem' text' copies'))
        (RKApplyReferenceInstructions ?S (job_regex job) (rs @ others) (job_subject_ptr job)
          (job_template job) (text_memory st) (gap_copies job st (rs ! 0)))"
    using step_match(1) [OF job(1) mem i match] by blast
  have loc: "search_index st \<le> ?loc" using job(2) i match at by (simp add: forward_def)
  have len: "unat ?loc \<le> length ?chars"
    using step_match(2) [OF job(1) mem i match] job(1)
    by (simp add: range_end_def good_job_def valid_buffer_def word_le_nat_alt)
  define gap where "gap = (if job_replace job then bytes_between ?chars (unat (search_index st)) (unat ?loc) else [])"
  have d: "unat (?loc - search_index st) = unat ?loc - unat (search_index st)" "unat (search_index st) \<le> unat ?loc"
    using loc by (simp_all add: unat_sub word_le_nat_alt)
  have g: "copies_to (text_memory st) (gap_copies job st (rs ! 0)) (out @ gap)"
      "copy_room (result_copies st) \<le> copy_room (gap_copies job st (rs ! 0)) + 1"
    using copy_between [OF st d(2) len] room st(1) d(1) by (auto simp: gap_copies_def gap_def)
  have S: "string_library_contract ?S" using job(1) by (simp add: good_job_def)
  obtain t' c' extra where a: "RKApplyReferenceInstructions ?S (job_regex job) (rs @ others) (job_subject_ptr job)
          (job_template job) (text_memory st) (gap_copies job st (rs ! 0)) = Ok (t', c')"
      "copies_to t' c' ((out @ gap) @ utf8_of (expand ?S OP_STOP [] (pieces rs)))"
      "copy_room (gap_copies job st (rs ! 0)) \<le> copy_room c' + 2 * length (pieces rs) + 1" "t' = text_memory st @ extra"
    using apply_template [OF S template_for_more_ranges [OF t] g(1), of "job_regex job" others] st(2) g(2) room
    by (auto simp: subject_in_def)
  show ?thesis using s m a g(2) by (auto simp: gap_def)
qed

text \<open>All of them.\<close>

lemma copies_needed_Cons [simp]: "copies_needed pieces (rs # ms) = 2 + 2 * length (pieces rs) + copies_needed pieces ms"
  by (simp add: copies_needed_def)

lemma replaced_from_Cons:
  "replaced_from job pieces i (rs # ms) = replaced_from job pieces i [rs] @ replaced_from job pieces (NSMaxRange (rs ! 0)) ms"
  by simp

lemma loop_stops:
  assumes "good_job job" "length (range_memory st) = 4 * unat (job_presize job)"
    and "\<not> replace_guard job st \<or> find_match job (search_index st) = None"
  shows "\<exists>mem'. replace_loop job st = Some (Ok (Inr (st\<lparr>range_memory := mem'\<rparr>)))"
proof (cases "replace_guard job st")
  case True
  then show ?thesis
    using step_no_match [OF assms(1,2)] assms(3) by (auto simp: replace_guard_def replace_loop.simps [of job st])
next
  case False
  then show ?thesis by (auto simp: replace_loop.simps [of job st] intro: exI [of _ "range_memory st"])
qed

lemma no_more_matches:
  assumes "job_count job \<noteq> RKReplaceAll \<Longrightarrow> 0 < work_left job st"
    and "\<not> (replace_guard job st \<and> find_match job (search_index st) \<noteq> None)"
  shows "match_list n job (search_index st) = []"
proof (cases "replace_guard job st")
  case True
  then show ?thesis using assms(2) by (cases n) simp_all
next
  case False
  then have "\<not> search_index st < job_end job"
    using assms(1) by (auto simp: replace_guard_def work_left_def word_less_nat_alt split: if_splits)
  then show ?thesis by (cases n) simp_all
qed

lemma loop_replaces:
  assumes job: "good_job job" "forward job k" "advancing job k"
  shows "reached job k (search_index st) \<Longrightarrow> length (range_memory st) = 4 * unat (job_presize job) \<Longrightarrow> work_left job st \<le> n \<Longrightarrow>
    (job_count job \<noteq> RKReplaceAll \<Longrightarrow> work_left job st = n) \<Longrightarrow>
    copies_to (text_memory st) (result_copies st) out \<Longrightarrow> subject_in job (text_memory st) \<Longrightarrow>
    (\<And>rs. rs \<in> set (match_list n job (search_index st)) \<Longrightarrow>
       template_for (text_memory st) (job_subject_ptr job) rs (job_template job) (pieces rs)) \<Longrightarrow>
    copies_needed pieces (match_list n job (search_index st)) \<le> copy_room (result_copies st) \<Longrightarrow>
    \<exists>st' extra. replace_loop job st = Some (Ok (Inr st')) \<and>
      search_index st' = behind_matches (search_index st) (match_list n job (search_index st)) \<and>
      matched_count st' = matched_count st + of_nat (length (match_list n job (search_index st))) \<and>
      copies_to (text_memory st') (result_copies st')
        (out @ replaced_from job pieces (search_index st) (match_list n job (search_index st))) \<and>
      copy_room (result_copies st) \<le> copy_room (result_copies st') + copies_needed pieces (match_list n job (search_index st)) \<and>
      text_memory st' = text_memory st @ extra"
proof (induction n arbitrary: st out)
  case 0
  then have "\<not> replace_guard job st"
    by (auto simp: replace_guard_def work_left_def word_less_nat_alt split: if_splits)
  then show ?case using loop_stops [OF job(1) "0.prems"(2)] "0.prems"(5) by (auto simp: copies_needed_def)
next
  case (Suc n)
  let ?i = "search_index st"
  show ?case
  proof (cases "replace_guard job st \<and> find_match job ?i \<noteq> None")
    case False
    have "match_list (Suc n) job ?i = []" using no_more_matches [OF _ False] Suc.prems(4) by simp
    then show ?thesis
      using loop_stops [OF job(1) Suc.prems(2)] False Suc.prems(5) by (auto simp: copies_needed_def)
  next
    case True
    then obtain rs where rs: "find_match job ?i = Some rs" and i: "?i < job_end job" by (auto simp: replace_guard_def)
    then have ml: "match_list (Suc n) job ?i = rs # match_list n job (NSMaxRange (rs ! 0))" by simp
    obtain st' extra where st': "replace_step job st = Ok (Again st')"
        "length (range_memory st') = 4 * unat (job_presize job)" "search_index st' = NSMaxRange (rs ! 0)"
        "matched_count st' = matched_count st + 1"
        "copies_to (text_memory st') (result_copies st') (out @ replaced_from job pieces ?i [rs])"
        "copy_room (result_copies st) \<le> copy_room (result_copies st') + (2 + 2 * length (pieces rs))"
        "text_memory st' = text_memory st @ extra"
      using one_match [where pieces = pieces, OF job(1,2) Suc.prems(2) i rs Suc.prems(1,5,6)] Suc.prems(7,8) unfolding ml by auto
    have "work_left job st' < work_left job st"
      using work_decreases [OF job(3) _ rs Suc.prems(1) step_match(2) [OF job(1) Suc.prems(2) i rs], of "[]" "[]" empty_copies] True st'(3,4)
      by (auto simp: work_left_def split: if_splits)
    moreover have "job_count job \<noteq> RKReplaceAll \<Longrightarrow> work_left job st' + 1 = work_left job st"
      using work_counted [OF _ _ st'(4)] True by blast
    moreover note Suc.prems(3,4)
    ultimately have w: "work_left job st' \<le> n" "job_count job \<noteq> RKReplaceAll \<Longrightarrow> work_left job st' = n" by simp_all
    have t: "template_for (text_memory st') (job_subject_ptr job) rs' (job_template job) (pieces rs')"
      if "rs' \<in> set (match_list n job (search_index st'))" for rs'
      using Suc.prems(7) [of rs'] that st'(3,7) unfolding ml by (simp add: template_for_grow)
    have at': "reached job k (search_index st')" using reached.behind [OF Suc.prems(1) i rs] st'(3) by simp
    have room: "copies_needed pieces (match_list n job (search_index st')) \<le> copy_room (result_copies st')"
      using Suc.prems(8) st'(3,6) unfolding ml by simp
    have sub: "subject_in job (text_memory st')" using Suc.prems(6) st'(7) subject_in_grow by simp
    have unroll: "replace_loop job st = replace_loop job st'" using True st'(1) by (simp add: replace_loop.simps [of job st])
    obtain st2 extra2 where "replace_loop job st' = Some (Ok (Inr st2))"
      "search_index st2 = behind_matches (search_index st') (match_list n job (search_index st'))"
      "matched_count st2 = matched_count st' + of_nat (length (match_list n job (search_index st')))"
      "copies_to (text_memory st2) (result_copies st2)
        ((out @ replaced_from job pieces ?i [rs]) @ replaced_from job pieces (search_index st') (match_list n job (search_index st')))"
      "copy_room (result_copies st') \<le> copy_room (result_copies st2) + copies_needed pieces (match_list n job (search_index st'))"
      "text_memory st2 = text_memory st' @ extra2"
      using Suc.IH [OF at' st'(2) w st'(5) sub t room] by blast
    then show ?thesis unfolding ml unroll using st'(3,4,6,7)
      by (intro exI [of _ st2] exI [of _ "extra @ extra2"]) simp
  qed
qed

section \<open>The string that is answered\<close>

text \<open>
  What a job makes of its subject: with \<open>expandOrReplace\<close> also what is in front of the searched range and
  behind the last match. The new string is a C string: it ends at the first NUL.
\<close>

definition replaced_text :: "replace_job \<Rightarrow> (ns_range list \<Rightarrow> piece list) \<Rightarrow> u64 \<Rightarrow> ns_range list list \<Rightarrow> byte list" where
  "replaced_text job pieces i ms =
     (if job_replace job then take (unat i) (buffer_characters (job_subject job)) else []) @
     replaced_from job pieces i ms @
     (if job_replace job then drop (unat (behind_matches i ms)) (buffer_characters (job_subject job)) else [])"

definition c_string :: "byte list \<Rightarrow> byte list" where
  "c_string bs = take (c_strlen bs) bs"

definition string_answered :: "byte list \<Rightarrow> replaced \<Rightarrow> byte list option" where
  "string_answered self r = (case r of SameString \<Rightarrow> Some self | NewString bs \<Rightarrow> Some bs | NoString \<Rightarrow> None)"

definition most_matches :: "replace_job \<Rightarrow> u64 \<Rightarrow> nat" where
  "most_matches job i =
     (if job_count job = RKReplaceAll then unat (job_end job) - unat i else unat (job_count job))"

lemma start_state_sel [simp]:
  "search_index (start_state job junk i mem) = i" "matched_count (start_state job junk i mem) = 0"
  "text_memory (start_state job junk i mem) = mem"
  by (simp_all add: start_state_def)

lemma work_at_start: "work_left job (start_state job junk i mem) = most_matches job i"
  by (simp add: work_left_def most_matches_def)

lemma copy_room_empty [simp]: "copy_room empty_copies = 64"
  by (simp add: empty_copies_def)

lemma start_copies:
  assumes "subject_in job mem" "unat i \<le> length (buffer_characters (job_subject job))"
  shows "copies_to mem (result_copies (start_state job junk i mem))
      (if job_replace job then take (unat i) (buffer_characters (job_subject job)) else [])"
    and "63 \<le> copy_room (result_copies (start_state job junk i mem))"
  using copy_between [OF copies_to_empty assms(1) _ assms(2), of 0]
  by (auto simp: start_state_def bytes_between_def)

lemma behind_matches_end:
  assumes "good_job job"
  shows "unat i \<le> unat (job_end job) \<Longrightarrow> unat (behind_matches i (match_list n job i)) \<le> unat (job_end job)"
proof (induction n arbitrary: i)
  case (Suc n)
  show ?case
  proof (cases "i < job_end job \<and> find_match job i \<noteq> None")
    case True
    then obtain rs where rs: "find_match job i = Some rs" by blast
    let ?st = "start_state job undefined i []"
    have "range_end (rs ! 0) \<le> unat (job_end job)" using step_match(2) [OF assms, of ?st rs] True rs by simp
    then have "unat (NSMaxRange (rs ! 0)) \<le> unat (job_end job)" using NSMaxRange_fits by simp
    then show ?thesis using Suc.IH True rs by simp
  qed (use Suc.prems in auto)
qed simp

lemma finish_copies:
  assumes "good_job job" "subject_in job mem" "search_index st \<le> job_end job"
    and "copies_to (text_memory st) (result_copies st) out" "0 < copy_room (result_copies st)"
    and "text_memory st = mem @ extra" "buffer_length (job_subject job) = 0 \<Longrightarrow> out = []"
  shows "\<exists>r. finish_replace job st = Ok (r, matched_count st) \<and> string_answered (buffer_characters (job_subject job)) r =
    Some (c_string (out @ (if job_replace job then drop (unat (search_index st)) (buffer_characters (job_subject job)) else [])))"
proof -
  let ?chars = "buffer_characters (job_subject job)" and ?i = "search_index st" and ?len = "buffer_length (job_subject job)"
  let ?all = "RKAppendCopyInstruction (result_copies st) (job_subject_ptr job) (unat ?i) (unat (?len - ?i))"
  show ?thesis
  proof (cases "job_replace job")
    case False
    then show ?thesis
      using evaluate_copies [OF assms(4)] by (simp add: RKStringFromCopyInstructions_def finish_replace_def Let_def string_answered_def c_string_def)
  next
    case True
    have len: "unat ?len = length ?chars" "?i \<le> ?len"
      using assms(1,3) by (auto simp: good_job_def valid_buffer_def)
    then have d: "unat (?len - ?i) = length ?chars - unat ?i" "unat ?i \<le> length ?chars"
      by (simp_all add: unat_sub word_le_nat_alt)
    have sub: "subject_in job (text_memory st)" using assms(2,6) subject_in_grow by simp
    have all: "copies_to (text_memory st) ?all (out @ drop (unat ?i) ?chars)"
      using copy_between(1) [OF assms(4) sub d(2) order_refl assms(5)] d by (simp add: bytes_between_def)
    show ?thesis
    proof (cases "(of_nat (buf_length (copies (result_copies st))) :: u64) = 0 \<and> ?len - ?i = 0 \<and> ?i = 0")
      case same: True
      then have "out = []" "?chars = []" using assms(7) len by auto
      then show ?thesis
        using True same by (auto simp: finish_replace_def Let_def NSEqualRanges_def string_answered_def c_string_def)
    next
      case False
      then have "finish_replace job st = run_map (\<lambda>s. (NewString s, matched_count st)) (RKStringFromCopyInstructions (text_memory st) ?all)"
        using True by (auto simp: finish_replace_def Let_def NSEqualRanges_def)
      then show ?thesis using evaluate_copies [OF all] True by (simp add: RKStringFromCopyInstructions_def string_answered_def c_string_def)
    qed
  qed
qed

text \<open>
  The string search and replace answers, for a job whose matches advance: the subject with the matches,
  from the range's start on and at most as many as asked for, replaced by the template's expansion, and the number
  of matches made; without \<open>expandOrReplace\<close> the expansions alone. The answer ends at its first NUL, as a C
  string does, and there is room for the copies on the stack.
\<close>

lemma replaced_text_core:
  assumes "good_job job" "forward job i" "advancing job i" "subject_in job mem" "i \<le> job_end job"
    and "\<And>rs. rs \<in> set (match_list (most_matches job i) job i) \<Longrightarrow>
      template_for mem (job_subject_ptr job) rs (job_template job) (pieces rs)"
    and "copies_needed pieces (match_list (most_matches job i) job i) \<le> 62"
  shows "\<exists>r. run_replace job junk i mem = Some (Ok (r, of_nat (length (match_list (most_matches job i) job i))), None) \<and>
    string_answered (buffer_characters (job_subject job)) r =
      Some (c_string (replaced_text job pieces i (match_list (most_matches job i) job i)))"
proof -
  let ?ms = "match_list (most_matches job i) job i" and ?st = "start_state job junk i mem"
  have fits: "unat i \<le> unat (job_end job)" "unat (job_end job) \<le> length (buffer_characters (job_subject job))"
    using assms(1,5) by (simp_all add: word_le_nat_alt good_job_def valid_buffer_def)
  note start = start_copies [OF assms(4) order_trans [OF fits], of junk]
  have "copies_needed pieces ?ms \<le> copy_room (result_copies ?st)" using assms(7) start(2) by simp
  then obtain st' extra where st': "replace_loop job ?st = Some (Ok (Inr st'))" "search_index st' = behind_matches i ?ms"
      "matched_count st' = of_nat (length ?ms)"
      "copies_to (text_memory st') (result_copies st')
        ((if job_replace job then take (unat i) (buffer_characters (job_subject job)) else []) @ replaced_from job pieces i ?ms)"
      "copy_room (result_copies ?st) \<le> copy_room (result_copies st') + copies_needed pieces ?ms" "text_memory st' = mem @ extra"
    using loop_replaces [OF assms(1-3), of ?st "most_matches job i"
        "if job_replace job then take (unat i) (buffer_characters (job_subject job)) else []" pieces] start(1) assms(4,6) reached.start
    by (auto simp: work_at_start)
  have "search_index st' \<le> job_end job"
    using behind_matches_end [OF assms(1) fits(1), of "most_matches job i"] st'(2) by (simp add: word_le_nat_alt)
  moreover have "(if job_replace job then take (unat i) (buffer_characters (job_subject job)) else []) @ replaced_from job pieces i ?ms = []"
    if "buffer_length (job_subject job) = 0"
  proof -
    have none: "job_end job = 0" "buffer_characters (job_subject job) = []"
      using that assms(1) by (auto simp: good_job_def valid_buffer_def)
    have "match_list n job i = []" for n using none(1) by (cases n) simp_all
    then show ?thesis using none(2) by simp
  qed
  moreover have "0 < copy_room (result_copies st')" using st'(5) start(2) assms(7) by simp
  ultimately show ?thesis using finish_copies [OF assms(1,4) _ st'(4) _ st'(6)] st'(1-3) by (auto simp: run_replace_def replaced_text_def)
qed

section \<open>Two jobs\<close>

lemma find_match_written:
  assumes "good_job job" "i < job_end job" "0 < rc" "\<not> (scast (written ! 1) :: u64) > job_end job"
    and "job_exec job (compiledPCRE (job_regex job)) (buffer_characters (job_subject job))
      (ucast (buffer_length (job_subject job))) (ucast i) RKMatchNoUTF8Check (ucast (job_presize job)) = (rc, written)"
  shows "find_match job i = Some (map (expected_range written (nat rc)) [0..<unat (captureCount (job_regex job))])"
  using job_match_result [OF assms(1) _ assms(2,5), of "replicate (4 * unat (job_presize job)) 0"] assms(3,4)
  by (auto simp: find_match_def)

lemma find_match_none:
  assumes "good_job job" "i < job_end job" "rc = -1"
    and "job_exec job (compiledPCRE (job_regex job)) (buffer_characters (job_subject job))
      (ucast (buffer_length (job_subject job))) (ucast i) RKMatchNoUTF8Check (ucast (job_presize job)) = (rc, written)"
  shows "find_match job i = None"
  using job_match_result [OF assms(1) _ assms(2,4), of "replicate (4 * unat (job_presize job)) 0"] assms(3)
  by (auto simp: find_match_def)

text \<open>A library that finds the letter \<open>a\<close>, and one that finds the empty string where the search begins.\<close>

definition letter_exec :: pcre_exec where
  "letter_exec h chars len start opts ovecsize =
     (case find (\<lambda>j. chars ! j = 97) [unat start..<unat len] of
        None \<Rightarrow> (-1, [])
      | Some j \<Rightarrow> if 3 \<le> unat ovecsize then (1, [of_nat j, of_nat (j + 1)]) else (-1, []))"

definition empty_exec :: pcre_exec where
  "empty_exec h chars len start opts ovecsize =
     (if start \<noteq> -1 \<and> unat start \<le> unat len \<and> 3 \<le> unat ovecsize then (1, [start, start]) else (-1, []))"

lemma letter_exec_contract: "pcre_exec_contract letter_exec"
proof -
  have len32: "unat (x :: u32) < 2 ^ 32" for x using unsigned_less [of x] by simp
  have "pair_ok len (of_nat j) (of_nat (j + 1)) \<and> (of_nat j :: u32) \<noteq> - 1"
    if "find (\<lambda>j. (chars :: byte list) ! j = 97) [unat (start :: u32)..<unat len] = Some j" for chars start len j
  proof -
    have j: "j < unat len" using that by (auto simp: find_Some_iff)
    then have u: "unat (of_nat j :: u32) = j" "unat (of_nat (j + 1) :: u32) = j + 1"
      using len32 [of len] by (simp_all add: unat_of_nat del: of_nat_add of_nat_Suc)
    have "(of_nat (j + 1) :: u32) = of_nat j + 1" by simp
    then have "(of_nat j :: u32) \<noteq> - 1" using u(2) by auto
    then show ?thesis
      using j u len32 [of len] by (auto simp: pair_ok_def simp del: of_nat_add of_nat_Suc)
  qed
  then show ?thesis
    unfolding pcre_exec_contract_def letter_exec_def by (auto split: option.splits if_splits)
qed

lemma empty_exec_contract: "pcre_exec_contract empty_exec"
  unfolding pcre_exec_contract_def empty_exec_def by (auto simp: pair_ok_def split: if_splits)

definition letter_job :: replace_job where
  "letter_job =
     \<lparr>job_strings = sample_strings, job_exec = letter_exec, job_regex = sample_regex\<lparr>captureCount := 1\<rparr>,
      job_subject = \<lparr>buffer_string_length = 4, buffer_characters = [120, 97, 121, 97], buffer_length = 4, buffer_encoding = EncodingUTF8\<rparr>,
      job_subject_ptr = 3, job_template = sample_template, job_end = 4, job_count = RKReplaceAll, job_replace = True\<rparr>"

definition nothing_template :: reference_buffer where
  "nothing_template = store_append zero_instruction (stack_store zero_instruction) (instruction OP_STOP 0 (NSMakeRange NSNotFound 0))"

definition empty_job :: replace_job where
  "empty_job = letter_job\<lparr>job_exec := empty_exec, job_template := nothing_template\<rparr>"

lemma letter_presize: "job_presize letter_job = 257" "job_presize empty_job = 257"
  by (simp_all add: job_presize_def letter_job_def empty_job_def sample_regex_def RK_PRESIZE_CAPTURE_COUNT_def)

lemma good_letter_job: "good_job letter_job"
  using letter_presize
  by (auto simp: good_job_def letter_exec_contract sample_strings_contract letter_exec_def Let_def valid_buffer_def
      letter_job_def sample_regex_def split: option.splits)

lemma good_empty_job: "good_job empty_job"
  using letter_presize
  by (auto simp: good_job_def empty_exec_contract sample_strings_contract empty_exec_def Let_def valid_buffer_def
      empty_job_def letter_job_def sample_regex_def)

lemma below_four: "(i :: u64) < 4 \<Longrightarrow> i = 0 \<or> i = 1 \<or> i = 2 \<or> i = 3"
proof -
  assume "i < 4"
  then have "unat i < 4" by (simp add: word_less_nat_alt)
  then have "unat i = 0 \<or> unat i = 1 \<or> unat i = 2 \<or> unat i = 3" by arith
  then show ?thesis by (auto simp: word_unat_eq_iff)
qed

lemma letter_job_sel [simp]:
  "job_strings letter_job = sample_strings" "job_exec letter_job = letter_exec" "captureCount (job_regex letter_job) = 1"
  "buffer_characters (job_subject letter_job) = [120, 97, 121, 97]" "buffer_length (job_subject letter_job) = 4"
  "job_subject_ptr letter_job = 3" "job_template letter_job = sample_template" "job_end letter_job = 4"
  "job_count letter_job = RKReplaceAll" "job_replace letter_job"
  by (simp_all add: letter_job_def)

lemma letter_match_at:
  assumes "i < 4" "unat (ucast i :: u32) = unat i"
    and "find (\<lambda>j. [120, 97, 121, 97 :: byte] ! j = 97) [unat i..<4] = Some j" "j < 4"
  shows "find_match letter_job i = Some [expected_range [of_nat j, of_nat (j + 1)] 1 0]"
proof -
  have "j = 0 \<or> j = 1 \<or> j = 2 \<or> j = 3" using assms(4) by arith
  then have "\<not> (scast (of_nat (j + 1) :: u32) :: u64) > 4" by auto
  then show ?thesis
    using find_match_written [OF good_letter_job, of i 1 "[of_nat j, of_nat (j + 1)]"] assms(1-3) letter_presize(1)
    by (simp add: letter_exec_def)
qed

lemma letter_matches:
  "find_match letter_job 0 = Some [NSMakeRange 1 1]" "find_match letter_job 1 = Some [NSMakeRange 1 1]"
  "find_match letter_job 2 = Some [NSMakeRange 3 1]" "find_match letter_job 3 = Some [NSMakeRange 3 1]"
  using letter_match_at [of 0 1] letter_match_at [of 1 1] letter_match_at [of 2 3] letter_match_at [of 3 3]
  by (simp_all add: upt_conv_Cons expected_range_def range_of_vectors_def)

lemma letter_job_forward: "forward letter_job 0" "advancing letter_job 0"
proof -
  have "i \<le> range_location (rs ! 0) \<and> range_length (rs ! 0) \<noteq> 0" if "i < 4" "find_match letter_job i = Some rs" for i rs
    using below_four [OF that(1)] that(2) letter_matches by auto
  then show "forward letter_job 0" "advancing letter_job 0" by (auto simp: forward_def advancing_def)
qed

theorem replacing_ends_witness: "\<exists>r. run_replace letter_job (\<lambda>i. 7) 0 [0, 97, 98, 120, 97, 121, 97] = Some r"
  by (rule replacing_ends [OF good_letter_job letter_job_forward(2)])

lemma empty_job_sel [simp]:
  "job_strings empty_job = sample_strings" "job_exec empty_job = empty_exec" "job_regex empty_job = job_regex letter_job"
  "job_subject empty_job = job_subject letter_job" "job_subject_ptr empty_job = 3" "job_template empty_job = nothing_template"
  "job_end empty_job = 4" "job_count empty_job = RKReplaceAll"
  by (simp_all add: empty_job_def)

theorem empty_match_never_ends_witness: "run_replace empty_job (\<lambda>i. 7) 1 [0, 120, 97, 121, 97] = None"
proof (rule empty_match_never_ends [OF good_empty_job])
  show "find_match empty_job 1 = Some [NSMakeRange 1 0]"
    using find_match_written [OF good_empty_job, of 1 1 "[1, 1]"] letter_presize(2)
    by (simp add: empty_exec_def expected_range_def range_of_vectors_def)
  show "\<exists>r. RKApplyReferenceInstructions (job_strings empty_job) (job_regex empty_job) ranges
      (job_subject_ptr empty_job) (job_template empty_job) mem b = Ok r" for ranges mem b
    by (simp add: RKApplyReferenceInstructions_def nothing_template_def store_append_def stack_store_def instruction_def
        RK_DEFAULT_STACK_INSTRUCTIONS_def nth_list_update)
qed simp_all

end
