(* ===== verification/RK_ReplaceText.thy ===== *)
theory RK_ReplaceText
  imports RK_ReplaceLoop RK_EnumeratorContract
begin

text \<open>
  Search and replace over the characters of a text, as \<open>NSString.h\<close> describes it, and the proof that the
  loop of \<open>NSString.m\<close>, which works on UTF-8 bytes, copy instructions and compiled templates, makes that text.
\<close>

section \<open>Search and replace on characters\<close>

definition chars_between :: "nat list \<Rightarrow> nat \<Rightarrow> nat \<Rightarrow> nat list" where
  "chars_between cps a b = take (b - a) (drop a cps)"

text \<open>The matches from a character on, at most \<open>n\<close>, each search going on at the end of the last match.\<close>

fun text_matches :: "nat \<Rightarrow> (nat \<Rightarrow> text_match) \<Rightarrow> nat \<Rightarrow> nat \<Rightarrow> (nat \<times> nat) option list list" where
  "text_matches 0 search j p = []"
| "text_matches (Suc n) search j p =
     (if p < j
      then case search p of None \<Rightarrow> [] | Some (rc, captures) \<Rightarrow> captures # text_matches n search j (match_end captures)
      else [])"

definition match_start :: "(nat \<times> nat) option list \<Rightarrow> nat" where
  "match_start captures = (case captures ! 0 of None \<Rightarrow> 0 | Some (s, e) \<Rightarrow> s)"

definition capture_text :: "nat list \<Rightarrow> (nat \<times> nat) option list \<Rightarrow> nat \<Rightarrow> nat list" where
  "capture_text cps captures k = (case captures ! k of None \<Rightarrow> [] | Some (s, e) \<Rightarrow> chars_between cps s e)"

definition expansion :: "string_library \<Rightarrow> nat list \<Rightarrow> template_piece list \<Rightarrow> (nat \<times> nat) option list \<Rightarrow> nat list" where
  "expansion S cps tps captures = expand S OP_STOP [] (map (meaning (capture_text cps captures)) tps)"

fun replaced_chars ::
  "string_library \<Rightarrow> nat list \<Rightarrow> template_piece list \<Rightarrow> bool \<Rightarrow> nat \<Rightarrow> (nat \<times> nat) option list list \<Rightarrow> nat list" where
  "replaced_chars S cps tps keep p [] = []"
| "replaced_chars S cps tps keep p (captures # ms) =
     (if keep then chars_between cps p (match_start captures) else []) @
     expansion S cps tps captures @ replaced_chars S cps tps keep (match_end captures) ms"

fun last_end :: "nat \<Rightarrow> (nat \<times> nat) option list list \<Rightarrow> nat" where
  "last_end p [] = p"
| "last_end p (captures # ms) = last_end (match_end captures) ms"

definition result_chars ::
  "string_library \<Rightarrow> nat list \<Rightarrow> template_piece list \<Rightarrow> bool \<Rightarrow> nat \<Rightarrow> (nat \<times> nat) option list list \<Rightarrow> nat list" where
  "result_chars S cps tps keep i ms =
     (if keep then take i cps else []) @ replaced_chars S cps tps keep i ms @ (if keep then drop (last_end i ms) cps else [])"

section \<open>Bytes and characters\<close>

lemma w8_mono: "a \<le> b \<Longrightarrow> b \<le> length cps \<Longrightarrow> w8 cps a \<le> w8 cps b"
  by (rule w8_le)

lemma utf8_take: "utf8_of (take k cps) = take (w8 cps k) (utf8_of cps)"
proof -
  have "utf8_of cps = utf8_of (take k cps) @ utf8_of (drop k cps)" by (simp flip: utf8_of_append)
  then show ?thesis by (simp add: w8_def utf8_width_def)
qed

lemma utf8_drop: "utf8_of (drop k cps) = drop (w8 cps k) (utf8_of cps)"
proof -
  have "utf8_of cps = utf8_of (take k cps) @ utf8_of (drop k cps)" by (simp flip: utf8_of_append)
  then show ?thesis by (simp add: w8_def utf8_width_def)
qed

lemma w8_drop:
  assumes "a \<le> b" "b \<le> length cps"
  shows "w8 (drop a cps) (b - a) = w8 cps b - w8 cps a"
proof -
  have "take b cps = take a cps @ take (b - a) (drop a cps)" using assms(1) by (simp flip: take_add)
  then have "utf8_of (take b cps) = utf8_of (take a cps) @ utf8_of (take (b - a) (drop a cps))" by simp
  then have "length (utf8_of (take b cps)) = length (utf8_of (take a cps)) + length (utf8_of (take (b - a) (drop a cps)))"
    by simp
  then show ?thesis by (simp add: w8_def utf8_width_def)
qed

lemma utf8_between:
  "a \<le> b \<Longrightarrow> b \<le> length cps \<Longrightarrow> utf8_of (chars_between cps a b) = bytes_between (utf8_of cps) (w8 cps a) (w8 cps b)"
  by (simp add: chars_between_def bytes_between_def utf8_take utf8_drop w8_drop)

text \<open>The bytes of a text that is not too long, and what is true of its offsets.\<close>

definition short_text :: "nat list \<Rightarrow> bool" where
  "short_text cps \<longleftrightarrow> utf8_width cps \<le> 2147483647"

lemma unat_w8: "short_text cps \<Longrightarrow> k \<le> length cps \<Longrightarrow> unat (of_nat (w8 cps k) :: u64) = w8 cps k"
  using w8_bound(2) [of cps k] by (simp add: short_text_def unat_of_nat)

lemma w8_of_nat_less:
  "short_text cps \<Longrightarrow> a \<le> length cps \<Longrightarrow> b \<le> length cps \<Longrightarrow>
     (of_nat (w8 cps a) :: u64) < of_nat (w8 cps b) \<longleftrightarrow> a < b"
  using w8_less [of a b cps] w8_le [of b a cps] by (auto simp: word_less_nat_alt unat_w8 not_le [symmetric])

lemma range8_parts:
  assumes "short_text cps" "a \<le> b" "b \<le> length cps"
  shows "range_location (range8 cps a b) = of_nat (w8 cps a)" "unat (range_location (range8 cps a b)) = w8 cps a"
    "unat (range_length (range8 cps a b)) = w8 cps b - w8 cps a" "NSMaxRange (range8 cps a b) = of_nat (w8 cps b)"
    "range_length (range8 cps a b) = 0 \<longleftrightarrow> a = b"
proof -
  have le: "w8 cps a \<le> w8 cps b" using w8_le assms(2,3) by blast
  have small: "w8 cps b < 18446744073709551616" using w8_bound(2) [of cps b] assms(1,3) by (simp add: short_text_def)
  show "range_location (range8 cps a b) = of_nat (w8 cps a)" by (simp add: range8_def)
  show "unat (range_location (range8 cps a b)) = w8 cps a" using assms unat_w8 by (simp add: range8_def)
  show l: "unat (range_length (range8 cps a b)) = w8 cps b - w8 cps a"
    using small by (simp add: range8_def unat_of_nat)
  show "NSMaxRange (range8 cps a b) = of_nat (w8 cps b)"
    using le by (simp add: NSMaxRange_def range8_def flip: of_nat_add)
  have "range_length (range8 cps a b) = 0 \<longleftrightarrow> unat (range_length (range8 cps a b)) = 0" by (simp add: unat_eq_0)
  then show "range_length (range8 cps a b) = 0 \<longleftrightarrow> a = b"
    unfolding l using le w8_less [of a b cps] assms(2,3) by (cases "a = b") auto
qed

section \<open>The matches of the loop are those of the text\<close>

lemma find_match_library:
  assumes job: "good_job job" and i: "i < job_end job"
  shows "find_match job i = map_option snd (library_match (job_exec job) (job_regex job) (buffer_characters (job_subject job))
    (buffer_length (job_subject job)) (NSMakeRange i (job_end job - i)) RKMatchNoUTF8Check)"
proof -
  let ?len = "buffer_length (job_subject job)"
  obtain rc written where call: "job_exec job (compiledPCRE (job_regex job)) (buffer_characters (job_subject job))
      (ucast ?len) (ucast i) RKMatchNoUTF8Check (ucast (job_presize job)) = (rc, written)" by force
  have rend: "range_end (NSMakeRange i (job_end job - i)) = unat (job_end job)"
    using i by (simp add: range_end_def unat_sub word_le_nat_alt word_less_nat_alt)
  have second: "(scast (written ! 1) :: u64) > job_end job \<longleftrightarrow> unat (job_end job) < unat (written ! 1)" if "0 < rc"
  proof -
    have "pcre_exec_contract (job_exec job)" "unat ?len \<le> 2147483647" using job by (simp_all add: good_job_def)
    moreover have u: "unat (ucast ?len :: u32) = unat ?len"
      using calculation(2) by (simp add: unsigned_ucast_eq take_bit_nat_eq_self)
    moreover have "pair_ok (ucast ?len) (written ! 0) (written ! 1)" "written ! 0 \<noteq> - 1"
    proof -
      have "\<forall>k < nat rc. pair_ok (ucast ?len) (written ! (2 * k)) (written ! (2 * k + 1))" "written ! 0 \<noteq> - 1"
        using calculation(1) call that unfolding pcre_exec_contract_def by blast+
      then show "pair_ok (ucast ?len) (written ! 0) (written ! 1)" "written ! 0 \<noteq> - 1" using that by (auto dest: spec [of _ 0])
    qed
    ultimately have "unat (written ! 1) \<le> 2147483647" by (auto simp: pair_ok_def)
    then have "unat (scast (written ! 1) :: u64) = unat (written ! 1)"
      using scast_small [of "written ! 1"] by (simp add: unat_of_nat del: of_nat_unat)
    then show ?thesis by (simp add: word_less_nat_alt)
  qed
  show ?thesis
  proof (cases "0 < rc \<and> unat (written ! 1) \<le> unat (job_end job)")
    case True
    then have "find_match job i = Some (map (expected_range written (nat rc)) [0..<unat (captureCount (job_regex job))])"
      using find_match_written [OF job i _ _ call] second by auto
    then show ?thesis using True call rend by (simp add: library_match_def job_presize_def)
  next
    case False
    then have "\<not> (0 < rc \<and> \<not> (scast (written ! 1) :: u64) > job_end job)" using second by auto
    then have "find_match job i = None"
      using job_match_result [OF job _ i call, of "replicate (4 * unat (job_presize job)) 0"] by (auto simp: find_match_def)
    then show ?thesis using False call rend by (auto simp: library_match_def job_presize_def)
  qed
qed

text \<open>A job on the UTF-8 bytes of a text, up to its character \<open>j\<close>, and what the library finds in it.\<close>

definition text_job :: "replace_job \<Rightarrow> nat list \<Rightarrow> nat \<Rightarrow> (nat \<Rightarrow> text_match) \<Rightarrow> bool" where
  "text_job job cps j search \<longleftrightarrow>
     good_job job \<and> short_text cps \<and> plain_text cps \<and> j \<le> length cps \<and>
     buffer_characters (job_subject job) = utf8_of cps \<and> buffer_length (job_subject job) = of_nat (utf8_width cps) \<and>
     job_end job = of_nat (w8 cps j) \<and> searches (job_exec job) (job_regex job) cps j search"

lemma found_in_text:
  assumes "text_job job cps j search" "p < j"
  shows "find_match job (of_nat (w8 cps p)) = map_option (\<lambda>(rc, captures). map (capture_range8 cps) captures) (search p)"
proof -
  have t: "good_job job" "short_text cps" "j \<le> length cps" "job_end job = of_nat (w8 cps j)"
    "reports_text (job_exec job) (job_regex job) cps p j (search p)"
    using assms by (auto simp: text_job_def searches_def)
  have "of_nat (w8 cps p) < job_end job" using w8_of_nat_less [OF t(2)] assms(2) t(3,4) by simp
  moreover have "NSMakeRange (of_nat (w8 cps p)) (job_end job - of_nat (w8 cps p)) = range8 cps p j"
    using t(4) w8_le [of p j cps] assms(2) t(3) by (simp add: range8_def)
  ultimately show ?thesis
    using find_match_library [OF t(1)] assms(1) t(5)
    by (auto simp: text_job_def reports_text_def option.map_comp comp_def split_def intro: option.map_cong)
qed

lemma match_shape:
  assumes "text_job job cps j search" "p < j" "search p = Some (rc, captures)"
  obtains s e where "captures ! 0 = Some (s, e)" "p \<le> s" "s \<le> e" "e \<le> j" "match_start captures = s" "match_end captures = e"
    "list_all (capture_ok cps) captures" "length captures = unat (captureCount (job_regex job))" "captures \<noteq> []"
proof -
  have r: "reports_text (job_exec job) (job_regex job) cps p j (search p)" and good: "good_job job"
    and se: "\<exists>s e. captures ! 0 = Some (s, e) \<and> p \<le> s \<and> s \<le> e \<and> e \<le> j"
    using assms by (auto simp: text_job_def searches_def dest!: spec [of _ p])
  have "length captures = unat (captureCount (job_regex job))" "list_all (capture_ok cps) captures"
    using r assms(3) library_match_length by (fastforce simp: reports_text_def)+
  moreover have "captures \<noteq> []" using calculation(1) good by (auto simp: good_job_def word_less_nat_alt)
  ultimately show ?thesis using that se by (auto simp: match_start_def match_end_def)
qed

lemma first_range:
  assumes "short_text cps" "captures ! 0 = Some (s, e)" "s \<le> e" "e \<le> length cps" "captures \<noteq> []"
  shows "map (capture_range8 cps) captures ! 0 = range8 cps s e"
  using assms by (simp add: capture_range8_def)

lemma match_list_text:
  assumes "text_job job cps j search"
  shows "p \<le> j \<Longrightarrow>
    match_list n job (of_nat (w8 cps p)) = map (map (capture_range8 cps)) (text_matches n search j p)"
proof (induction n arbitrary: p)
  case (Suc n)
  have t: "short_text cps" "j \<le> length cps" "job_end job = of_nat (w8 cps j)" using assms by (simp_all add: text_job_def)
  have less: "of_nat (w8 cps p) < job_end job \<longleftrightarrow> p < j"
    using w8_of_nat_less [OF t(1)] t(2,3) Suc.prems by simp
  show ?case
  proof (cases "p < j \<and> search p \<noteq> None")
    case True
    then obtain rc captures where m: "search p = Some (rc, captures)" by auto
    obtain s e where se: "captures ! 0 = Some (s, e)" "s \<le> e" "e \<le> j" "match_end captures = e" "captures \<noteq> []"
      using match_shape [OF assms _ m] True by blast
    have "NSMaxRange (map (capture_range8 cps) captures ! 0) = of_nat (w8 cps e)"
      using first_range [OF t(1) se(1,2) _ se(5)] range8_parts(4) [OF t(1) se(2)] se(3) t(2) by simp
    then show ?thesis
      using True m less found_in_text [OF assms, of p] Suc.IH [OF se(3)] se(4) by simp
  next
    case False
    then consider "\<not> p < j" | "p < j" "search p = None" by blast
    then show ?thesis using less found_in_text [OF assms, of p] by cases simp_all
  qed
qed simp

lemma no_text_matches: "\<not> (p < j \<and> search p \<noteq> None) \<Longrightarrow> text_matches n search j p = []"
  by (cases n; cases "search p") auto

text \<open>Matches that are not empty: there are no more of them than characters.\<close>

lemma text_matches_enough:
  assumes "text_job job cps j search" "no_empty_match search j"
  shows "j - p \<le> n \<Longrightarrow> j - p \<le> m \<Longrightarrow> text_matches n search j p = text_matches m search j p"
proof (induction n arbitrary: p m)
  case 0
  then show ?case by (cases m) simp_all
next
  case (Suc n)
  show ?case
  proof (cases "p < j \<and> search p \<noteq> None")
    case True
    then obtain rc captures where f: "search p = Some (rc, captures)" by auto
    obtain s e where "captures ! 0 = Some (s, e)" "p \<le> s" "match_end captures = e"
      using match_shape [OF assms(1) _ f] True by blast
    moreover from this have "s < e" using assms(2) f True by (auto simp: no_empty_match_def dest!: spec [of _ p])
    moreover have "0 < m" using Suc.prems(2) True by (cases m) simp_all
    ultimately have "j - match_end captures \<le> n" "j - match_end captures \<le> m - 1" "0 < m" using Suc.prems True by simp_all
    then show ?thesis using Suc.IH [of "match_end captures" "m - 1"] f by (cases m) simp_all
  next
    case False
    then show ?thesis using no_text_matches [of p j search] by metis
  qed
qed

text \<open>The indexes the loop reaches are those of characters, so its conditions follow from those on the text.\<close>

lemma match_at:
  assumes "text_job job cps j search" "p < j" "find_match job (of_nat (w8 cps p)) = Some rs"
  obtains rc captures s e where "search p = Some (rc, captures)" "rs ! 0 = range8 cps s e" "p \<le> s" "s \<le> e" "e \<le> j"
    "captures ! 0 = Some (s, e)" "j \<le> length cps" "short_text cps"
proof -
  obtain rc captures where m: "search p = Some (rc, captures)" "rs = map (capture_range8 cps) captures"
    using assms(3) found_in_text [OF assms(1,2)] by auto
  have t: "j \<le> length cps" "short_text cps" using assms(1) by (simp_all add: text_job_def)
  obtain s e where se: "captures ! 0 = Some (s, e)" "p \<le> s" "s \<le> e" "e \<le> j" "captures \<noteq> []"
    using match_shape [OF assms(1,2) m(1)] by blast
  then have "rs ! 0 = range8 cps s e" using first_range [OF t(2)] t(1) m(2) by simp
  then show ?thesis using that m(1) se t by blast
qed

lemma text_reached:
  assumes "text_job job cps j search" "p \<le> j"
  shows "reached job (of_nat (w8 cps p)) k \<Longrightarrow> \<exists>q \<le> j. k = of_nat (w8 cps q)"
proof (induction rule: reached.induct)
  case start
  then show ?case using assms(2) by blast
next
  case (behind k rs)
  then obtain q where q: "q \<le> j" "k = of_nat (w8 cps q)" by blast
  have t: "short_text cps" "j \<le> length cps" "job_end job = of_nat (w8 cps j)" using assms(1) by (simp_all add: text_job_def)
  then have "q < j" using behind.hyps(2) w8_of_nat_less [OF t(1)] q by simp
  then obtain s e where "rs ! 0 = range8 cps s e" "s \<le> e" "e \<le> j"
    using match_at [OF assms(1)] behind.hyps(3) q(2) by metis
  then show ?case using range8_parts(4) [OF t(1)] t(2) by (intro exI [of _ e]) simp
qed

lemma text_job_conditions:
  assumes "text_job job cps j search" "p \<le> j"
  shows "forward job (of_nat (w8 cps p))"
    and "job_count job \<noteq> RKReplaceAll \<or> no_empty_match search j \<Longrightarrow> advancing job (of_nat (w8 cps p))"
proof -
  have t: "short_text cps" "j \<le> length cps" "job_end job = of_nat (w8 cps j)" using assms(1) by (simp_all add: text_job_def)
  have facts: "k \<le> range_location (rs ! 0) \<and> (no_empty_match search j \<longrightarrow> range_length (rs ! 0) \<noteq> 0)"
    if k: "reached job (of_nat (w8 cps p)) k" "k < job_end job" "find_match job k = Some rs" for k rs
  proof -
    obtain q where q: "q \<le> j" "k = of_nat (w8 cps q)" using text_reached [OF assms k(1)] by blast
    then have "q < j" using k(2) w8_of_nat_less [OF t(1)] t(2,3) by simp
    then obtain rc captures s e where m: "search q = Some (rc, captures)" "rs ! 0 = range8 cps s e" "q \<le> s" "s \<le> e" "e \<le> j"
        "captures ! 0 = Some (s, e)"
      using match_at [OF assms(1)] k(3) q(2) by metis
    have "k \<le> range_location (rs ! 0)"
      using m(2-5) t(2) q w8_le [of q s cps] range8_parts(1) [OF t(1), of s e]
      by (simp add: word_le_nat_alt unat_w8 [OF t(1)])
    moreover have "range_length (rs ! 0) \<noteq> 0" if "no_empty_match search j"
    proof -
      have "s < e" using that m(1,6) q(1) by (auto simp: no_empty_match_def dest!: spec [of _ q])
      then show ?thesis using range8_parts(5) [OF t(1), of s e] m(2,5) t(2) by simp
    qed
    ultimately show ?thesis by blast
  qed
  show "forward job (of_nat (w8 cps p))" using facts by (auto simp: forward_def)
  then show "job_count job \<noteq> RKReplaceAll \<or> no_empty_match search j \<Longrightarrow> advancing job (of_nat (w8 cps p))"
    using facts by (auto simp: advancing_def)
qed

section \<open>The text of the loop is the replaced text\<close>

lemma replaced_from_text:
  assumes "text_job job cps j search"
    and "\<And>captures. captures \<in> set (text_matches n search j p) \<Longrightarrow>
      expand (job_strings job) OP_STOP [] (pieces (map (capture_range8 cps) captures)) = expansion (job_strings job) cps tps captures"
  shows "p \<le> j \<Longrightarrow>
    replaced_from job pieces (of_nat (w8 cps p)) (map (map (capture_range8 cps)) (text_matches n search j p)) =
      utf8_of (replaced_chars (job_strings job) cps tps (job_replace job) p (text_matches n search j p)) \<and>
    behind_matches (of_nat (w8 cps p)) (map (map (capture_range8 cps)) (text_matches n search j p)) =
      of_nat (w8 cps (last_end p (text_matches n search j p))) \<and> last_end p (text_matches n search j p) \<le> j"
  using assms(2)
proof (induction n arbitrary: p)
  case (Suc n)
  have t: "short_text cps" "j \<le> length cps" "buffer_characters (job_subject job) = utf8_of cps"
    using assms(1) by (simp_all add: text_job_def)
  show ?case
  proof (cases "p < j \<and> search p \<noteq> None")
    case True
    then obtain rc captures where m: "search p = Some (rc, captures)" by auto
    obtain s e where se: "captures ! 0 = Some (s, e)" "p \<le> s" "s \<le> e" "e \<le> j" "match_start captures = s"
        "match_end captures = e" "captures \<noteq> []"
      using match_shape [OF assms(1) _ m] True by blast
    have tm: "text_matches (Suc n) search j p = captures # text_matches n search j e" using True m se(6) by simp
    have first: "map (capture_range8 cps) captures ! 0 = range8 cps s e" using first_range [OF t(1) se(1,3)] se(4,7) t(2) by simp
    note r = range8_parts [OF t(1) se(3)]
    have "unat (of_nat (w8 cps p) :: u64) = w8 cps p" using unat_w8 [OF t(1), of p] Suc.prems(1) t(2) by simp
    then show ?thesis
      using Suc.IH [OF se(4)] Suc.prems(2) first r se t utf8_between [of p s cps] unfolding tm by simp
  next
    case False
    then have "text_matches (Suc n) search j p = []" by (rule no_text_matches)
    then show ?thesis using Suc.prems(1) by simp
  qed
qed simp

section \<open>The template for a match\<close>

lemma capture_range8_inj:
  assumes "short_text cps" "capture_ok cps a" "capture_ok cps b" "capture_range8 cps a = capture_range8 cps b"
  shows "a = b"
proof -
  have some: "c = Some (s, e)" if "capture_ok cps c" "capture_range8 cps c = range8 cps s e" "s \<le> e" "e \<le> length cps" for c s e
  proof (cases c)
    case None
    have "w8 cps s < 4294967296" using w8_bound(1) [of cps s] assms(1) that(3,4) by (simp add: short_text_def)
    then have "range_location (range8 cps s e) \<noteq> NSNotFound" using of_nat32_not_NSNotFound by (simp add: range8_def)
    moreover have "range_location (range8 cps s e) = NSNotFound"
      unfolding that(2) [symmetric] using None by (simp add: capture_range8_def range_not_found_def)
    ultimately show ?thesis by blast
  next
    case (Some q)
    obtain s' e' where q': "q = (s', e')" by force
    then have q: "q = (s', e')" "s' \<le> e'" "e' \<le> length cps" using that(1) Some by (simp_all add: capture_ok_def)
    then have eq: "range8 cps s' e' = range8 cps s e" using that(2) Some by (simp add: capture_range8_def)
    have "w8 cps s' = w8 cps s" "w8 cps e' - w8 cps s' = w8 cps e - w8 cps s"
      using range8_parts(2,3) [OF assms(1) q(2,3)] range8_parts(2,3) [OF assms(1) that(3,4)] eq by metis+
    moreover have "w8 cps s \<le> w8 cps e" "w8 cps s' \<le> w8 cps e'" using w8_le that(3,4) q(2,3) by blast+
    ultimately have "w8 cps s' = w8 cps s" "w8 cps e' = w8 cps e" by arith+
    then show ?thesis using w8_eq_iff [of s' cps s] w8_eq_iff [of e' cps e] q that(3,4) Some by simp
  qed
  show ?thesis
  proof (cases b)
    case None
    show ?thesis
    proof (cases a)
      case (Some q)
      then show ?thesis using some [of b "fst q" "snd q"] assms(2-4) by (cases q) (auto simp: capture_ok_def capture_range8_def)
    qed (use None in simp)
  next
    case (Some q)
    then show ?thesis using some [of a "fst q" "snd q"] assms(2-4) by (cases q) (auto simp: capture_ok_def capture_range8_def)
  qed
qed

lemma captures_inj:
  "short_text cps \<Longrightarrow> list_all (capture_ok cps) as \<Longrightarrow> list_all (capture_ok cps) bs \<Longrightarrow>
     map (capture_range8 cps) as = map (capture_range8 cps) bs \<Longrightarrow> as = bs"
  by (intro nth_equalityI) (auto simp: list_all_length list_eq_iff_nth_eq intro: capture_range8_inj)

text \<open>
  A match for which the template is expanded as documented: the captures without text that it refers to are
  not within a case conversion.
\<close>

definition keeps_empties :: "nat list \<Rightarrow> template_piece list \<Rightarrow> (nat \<times> nat) option list \<Rightarrow> bool" where
  "keeps_empties cps tps captures \<longleftrightarrow> empties_outside OP_STOP (map (meaning (capture_text cps captures)) tps)"

lemma plain_between: "plain_text cps \<Longrightarrow> plain_text (chars_between cps s e)"
  by (auto simp: plain_text_def chars_between_def list_all_iff dest: in_set_takeD in_set_dropD)

lemma capture_text_plain: "plain_text cps \<Longrightarrow> plain_text (capture_text cps captures n)"
  by (simp add: capture_text_def plain_between split: option.split prod.split) (simp add: plain_text_def)

lemma captures_present:
  assumes "text_job job cps j search" "subject_in job mem" "list_all (capture_ok cps) captures"
    and "length captures = unat (captureCount (job_regex job))" "good_piece (job_regex job) entries p"
  shows "capture_present mem (job_subject_ptr job) (map (capture_range8 cps) captures) (capture_text cps captures) p"
proof (cases p)
  case (Reference body n)
  have t: "short_text cps" "plain_text cps" "buffer_characters (job_subject job) = utf8_of cps" "job_subject_ptr job \<noteq> 0"
    using assms(1) by (auto simp: text_job_def good_job_def)
  have n: "n < length captures" using assms(4,5) Reference by simp
  show ?thesis
  proof (cases "captures ! n")
    case None
    then show ?thesis
      using Reference n t by (simp add: capture_text_def capture_range8_def range_not_found_def plain_text_def)
  next
    case (Some q)
    obtain s e where k: "captures ! n = Some (s, e)" using Some by (cases q) auto
    then have le: "s \<le> e" "e \<le> length cps" using assms(3) n by (auto simp: list_all_length capture_ok_def dest!: spec [of _ n])
    have w: "w8 cps s \<le> w8 cps e" "w8 cps e \<le> length (utf8_of cps)"
      using w8_le [OF le] w8_le [OF le(2) order_refl] by (simp_all add: w8_full utf8_width_def)
    have "read_bytes mem (job_subject_ptr job + w8 cps s) (w8 cps e - w8 cps s) = Ok (utf8_of (chars_between cps s e))"
      using read_between [OF _ w] assms(2) t(3) utf8_between [OF le] by (simp add: subject_in_def)
    moreover have "capture_text cps captures n = chars_between cps s e" using k by (simp add: capture_text_def)
    moreover have "range_length (range8 cps s e) = 0" if "chars_between cps s e = []"
      using that range8_parts(5) [OF t(1) le] le by (auto simp: chars_between_def)
    ultimately show ?thesis
      using Reference n k capture_text_plain [OF t(2), of captures n] range8_parts(2,3) [OF t(1) le] t(4)
      by (simp add: capture_range8_def)
  qed
qed simp_all

text \<open>What is asked of the template: pieces as \<open>NSString.h\<close> writes them, at an address of the memory.\<close>

definition template_at ::
  "memory \<Rightarrow> nat \<Rightarrow> RKStringBuffer \<Rightarrow> RKRegex \<Rightarrow> (nat \<times> byte list) list \<Rightarrow> template_piece list \<Rightarrow> bool" where
  "template_at mem ptr b regex entries tps \<longleftrightarrow>
     addressable b \<and> length (buffer_characters b) < 2147483648 \<and> ptr \<noteq> 0 \<and>
     read_bytes mem ptr (length (buffer_characters b)) = Ok (buffer_characters b) \<and>
     buffer_characters b = concat (map render tps) \<and> length tps \<le> 30 \<and> list_all (good_piece regex entries) tps"

definition regex_names :: "RKRegex \<Rightarrow> (nat \<times> byte list) list \<Rightarrow> bool" where
  "regex_names regex entries \<longleftrightarrow>
     names_table regex entries \<and> distinct (map snd entries) \<and> unique_names regex \<and> list_all (\<lambda>(i, nm). i < 128) entries"

lemma template_for_text:
  assumes job: "text_job job cps j search" and mem: "subject_in job mem"
    and template: "template_at mem ptr b (job_regex job) entries tps" "regex_names (job_regex job) entries"
    and compiled: "RKCompileReferenceStringX b ptr (job_regex job) (stack_store zero_instruction) = Ok (None, job_template job)"
    and captures: "list_all (capture_ok cps) captures" "length captures = unat (captureCount (job_regex job))"
      "keeps_empties cps tps captures"
  shows "\<exists>xs. template_for mem (job_subject_ptr job) (map (capture_range8 cps) captures) (job_template job) xs \<and>
    length xs \<le> 2 * length tps + 1 \<and>
    expand (job_strings job) OP_STOP [] xs = expansion (job_strings job) cps tps captures"
proof -
  have good: "list_all (\<lambda>p. good_piece (job_regex job) entries p \<and>
      capture_present mem (job_subject_ptr job) (map (capture_range8 cps) captures) (capture_text cps captures) p) tps"
    using template(1) captures_present [OF job mem captures(1,2)] by (auto simp: template_at_def list_all_iff)
  note t = template(1) [unfolded template_at_def] template(2) [unfolded regex_names_def]
  obtain instrs xs where "RKCompileReferenceStringX b ptr (job_regex job) (stack_store zero_instruction) = Ok (None, instrs)"
      "template_for mem (job_subject_ptr job) (map (capture_range8 cps) captures) instrs xs" "length xs \<le> 2 * length tps + 1"
      "same_expansion (job_strings job) xs (map (meaning (capture_text cps captures)) tps)"
    using compile_for_match [OF _ _ _ _ _ _ _ _ _ _ good, of b ptr "job_strings job"] t captures(3) [unfolded keeps_empties_def] by blast
  then show ?thesis using compiled by (auto simp: same_expansion_def expansion_def)
qed

text \<open>The template compiles, whether there is a match or not.\<close>

lemma template_compiles:
  assumes template: "template_at mem ptr b regex entries tps" "regex_names regex entries" and mem: "mem \<noteq> []"
  shows "\<exists>instrs. RKCompileReferenceStringX b ptr regex (stack_store zero_instruction) = Ok (None, instrs)"
proof -
  let ?mem = "mem @ [97]" and ?ranges = "replicate (unat (captureCount regex)) (NSMakeRange 0 1)"
  note t = template(1) [unfolded template_at_def] template(2) [unfolded regex_names_def]
  have a: "utf8_of [97] = [97]" "plain_text [97]" by (simp_all add: utf8_of_def utf8_encode_def plain_text_def valid_code_point_def)
  have "capture_present ?mem (length mem) ?ranges (\<lambda>_. [97]) p" if "good_piece regex entries p" for p
    using that a mem by (cases p) (simp_all add: read_bytes_def)
  then have good: "list_all (\<lambda>p. good_piece regex entries p \<and> capture_present ?mem (length mem) ?ranges (\<lambda>_. [97]) p) tps"
    using t by (auto simp: list_all_iff)
  have "meaning (\<lambda>_. [97]) p \<noteq> Text []" if "good_piece regex entries p" for p using that by (cases p) simp_all
  then have "Text [] \<notin> set (map (meaning (\<lambda>_. [97])) tps)" using t by (force simp: list_all_iff)
  then have empties: "empties_outside OP_STOP (map (meaning (\<lambda>_. [97])) tps)" by (rule empties_outside_full)
  have "read_bytes ?mem ptr (length (buffer_characters b)) = Ok (buffer_characters b)" using t read_bytes_grow by blast
  then show ?thesis
    using compile_for_match [OF _ _ _ _ _ _ _ _ _ _ good empties, of b ptr sample_strings] t by blast
qed

text \<open>A choice of the instructions' meaning for each match.\<close>

lemma template_pieces:
  assumes "text_job job cps j search" "subject_in job mem" "template_at mem ptr b (job_regex job) entries tps" "regex_names (job_regex job) entries"
    and "RKCompileReferenceStringX b ptr (job_regex job) (stack_store zero_instruction) = Ok (None, job_template job)"
    and ms: "\<And>captures. captures \<in> set ms \<Longrightarrow> list_all (capture_ok cps) captures \<and> length captures = unat (captureCount (job_regex job)) \<and>
      keeps_empties cps tps captures"
  shows "\<exists>pieces. \<forall>captures \<in> set ms.
    template_for mem (job_subject_ptr job) (map (capture_range8 cps) captures) (job_template job) (pieces (map (capture_range8 cps) captures)) \<and>
    length (pieces (map (capture_range8 cps) captures)) \<le> 2 * length tps + 1 \<and>
    expand (job_strings job) OP_STOP [] (pieces (map (capture_range8 cps) captures)) = expansion (job_strings job) cps tps captures"
proof -
  let ?P = "\<lambda>captures xs. template_for mem (job_subject_ptr job) (map (capture_range8 cps) captures) (job_template job) xs \<and>
    length xs \<le> 2 * length tps + 1 \<and> expand (job_strings job) OP_STOP [] xs = expansion (job_strings job) cps tps captures"
  let ?f = "map (capture_range8 cps)"
  have "\<exists>xs. ?P captures xs" if "captures \<in> set ms" for captures
    using template_for_text [OF assms(1-5)] ms [OF that] by blast
  then obtain g where g: "\<And>captures. captures \<in> set ms \<Longrightarrow> ?P captures (g captures)" by metis
  have "inj_on ?f (set ms)"
    using captures_inj [of cps] assms(1) ms by (intro inj_onI) (auto simp: text_job_def)
  then have "g (the_inv_into (set ms) ?f (?f captures)) = g captures" if "captures \<in> set ms" for captures
    using that by (simp add: the_inv_into_f_f)
  then show ?thesis using g by (intro exI [of _ "g \<circ> the_inv_into (set ms) ?f"]) simp
qed

section \<open>Search and replace makes the replaced text\<close>

definition match_limit :: "u64 \<Rightarrow> nat \<Rightarrow> nat \<Rightarrow> nat" where
  "match_limit count i j = (if count = RKReplaceAll then j - i else unat count)"

text \<open>
  What the copy instructions have room for, with the template's pieces and the text in front of each match.
\<close>

definition few_copies :: "template_piece list \<Rightarrow> (nat \<times> nat) option list list \<Rightarrow> bool" where
  "few_copies tps ms \<longleftrightarrow> length ms * (4 + 4 * length tps) \<le> 62"

lemma text_matches_ok:
  assumes "text_job job cps j search"
  shows "captures \<in> set (text_matches n search j p) \<Longrightarrow> p \<le> j \<Longrightarrow>
    list_all (capture_ok cps) captures \<and> length captures = unat (captureCount (job_regex job))"
proof (induction n arbitrary: p)
  case (Suc n)
  have "p < j \<and> search p \<noteq> None" using no_text_matches [of p j search "Suc n"] Suc.prems(1) by (metis empty_iff list.set(1))
  then obtain rc first where m: "search p = Some (rc, first)" "p < j" by auto
  then show ?case
    using match_shape [OF assms m(2,1)] Suc.prems(1) Suc.IH [of "match_end first"] Suc.prems(1) by (auto split: if_splits)
qed simp

lemma plain_expansion:
  assumes "string_library_contract S" "list_all (good_piece regex entries) tps" "plain_text cps"
  shows "plain_text (expansion S cps tps captures)"
proof -
  have "plain_piece (meaning (capture_text cps captures) p)" if "good_piece regex entries p" for p
    using that capture_text_plain [OF assms(3)] by (cases p) (auto simp: plain_text_def valid_code_point_def)
  then show ?thesis
    using assms(2) unfolding expansion_def by (intro expand_plain [OF assms(1)]) (auto simp: list_all_iff plain_text_def)
qed

lemma plain_result:
  assumes "plain_text cps" "\<And>captures. captures \<in> set ms \<Longrightarrow> plain_text (expansion S cps tps captures)"
  shows "plain_text (result_chars S cps tps keep i ms)"
proof -
  have nil: "plain_text []" by (simp add: plain_text_def)
  have parts: "plain_text (take k cps)" "plain_text (drop k cps)" for k
    using assms(1) by (auto simp: plain_text_def list_all_iff dest: in_set_takeD in_set_dropD)
  have "plain_text (replaced_chars S cps tps keep i ms)"
    using assms(2) by (induction ms arbitrary: i) (simp_all add: nil plain_between [OF assms(1)])
  then show ?thesis using parts nil by (simp add: result_chars_def)
qed

lemma c_string_plain: "plain_text cps \<Longrightarrow> c_string (utf8_of cps) = utf8_of cps"
  by (simp add: c_string_def c_strlen_plain)

lemma room_for_copies:
  assumes "few_copies tps ms" "\<And>captures. captures \<in> set ms \<Longrightarrow> length (pieces (f captures)) \<le> 2 * length tps + 1"
  shows "copies_needed pieces (map f ms) \<le> 62"
proof -
  have "copies_needed pieces (map f ms) \<le> length ms * (4 + 4 * length tps)"
    using assms(2)
  proof (induction ms)
    case (Cons captures ms)
    then have "length (pieces (f captures)) \<le> 2 * length tps + 1" "copies_needed pieces (map f ms) \<le> length ms * (4 + 4 * length tps)"
      by simp_all
    then show ?case by simp
  qed (simp add: copies_needed_def)
  then show ?thesis using assms(1) by (simp add: few_copies_def)
qed

text \<open>The matches of the loop are as many as those of the text, though it counts bytes.\<close>

lemma limited_matches:
  assumes "text_job job cps j search" "i \<le> j" "job_count job \<noteq> RKReplaceAll \<or> no_empty_match search j"
  shows "match_list (most_matches job (of_nat (w8 cps i))) job (of_nat (w8 cps i)) =
    map (map (capture_range8 cps)) (text_matches (match_limit (job_count job) i j) search j i)"
proof (cases "job_count job = RKReplaceAll")
  case True
  have t: "short_text cps" "j \<le> length cps" "job_end job = of_nat (w8 cps j)" using assms(1) by (simp_all add: text_job_def)
  have "i + k \<le> length cps \<Longrightarrow> k \<le> w8 cps (i + k) - w8 cps i" for k
  proof (induction k)
    case (Suc k)
    then show ?case using w8_less [of "i + k" "i + Suc k" cps] w8_le [of i "i + k" cps] by simp
  qed simp
  from this [of "j - i"] have "j - i \<le> w8 cps j - w8 cps i" using assms(2) t(2) by simp
  then have "text_matches (w8 cps j - w8 cps i) search j i = text_matches (j - i) search j i"
    using text_matches_enough [OF assms(1)] assms(3) True by blast
  moreover have "most_matches job (of_nat (w8 cps i)) = w8 cps j - w8 cps i"
    using True t unat_w8 [OF t(1)] assms(2) by (simp add: most_matches_def)
  ultimately show ?thesis using match_list_text [OF assms(1,2)] True by (simp add: match_limit_def)
next
  case False
  then show ?thesis using match_list_text [OF assms(1,2)] by (simp add: most_matches_def match_limit_def)
qed

text \<open>What is asked of each match that is replaced, in an abbreviation for the statements below.\<close>

abbreviation fit_for_template :: "nat list \<Rightarrow> template_piece list \<Rightarrow> (nat \<times> nat) option list list \<Rightarrow> bool" where
  "fit_for_template cps tps ms \<equiv> list_all (keeps_empties cps tps) ms \<and> few_copies tps ms"

lemma job_replaces_text:
  assumes job: "text_job job cps j search" "i \<le> j" "job_count job \<noteq> RKReplaceAll \<or> no_empty_match search j"
    and mem: "subject_in job mem"
    and template: "template_at mem ptr b (job_regex job) entries tps" "regex_names (job_regex job) entries"
      "RKCompileReferenceStringX b ptr (job_regex job) (stack_store zero_instruction) = Ok (None, job_template job)"
    and ms: "ms = text_matches (match_limit (job_count job) i j) search j i" "fit_for_template cps tps ms"
  shows "\<exists>r. run_replace job junk (of_nat (w8 cps i)) mem = Some (Ok (r, of_nat (length ms)), None) \<and>
    string_answered (utf8_of cps) r = Some (utf8_of (result_chars (job_strings job) cps tps (job_replace job) i ms))"
proof -
  let ?f = "map (capture_range8 cps)" and ?i = "of_nat (w8 cps i) :: u64" and ?S = "job_strings job"
  have t: "good_job job" "short_text cps" "plain_text cps" "j \<le> length cps" "job_end job = of_nat (w8 cps j)"
    "buffer_characters (job_subject job) = utf8_of cps"
    using job(1) by (simp_all add: text_job_def)
  have S: "string_library_contract ?S" using t(1) by (simp add: good_job_def)
  have list: "match_list (most_matches job ?i) job ?i = map ?f ms" using limited_matches [OF job] ms(1) by simp
  have each: "list_all (capture_ok cps) captures \<and> length captures = unat (captureCount (job_regex job)) \<and>
      keeps_empties cps tps captures" if "captures \<in> set ms" for captures
    using text_matches_ok [OF job(1) _ job(2)] that ms by (auto simp: list_all_iff)
  obtain pieces where p: "\<And>captures. captures \<in> set ms \<Longrightarrow>
      template_for mem (job_subject_ptr job) (?f captures) (job_template job) (pieces (?f captures)) \<and>
      length (pieces (?f captures)) \<le> 2 * length tps + 1 \<and>
      expand ?S OP_STOP [] (pieces (?f captures)) = expansion ?S cps tps captures"
    using template_pieces [OF job(1) mem template(1,2,3), of ms] each by blast
  have same: "expand ?S OP_STOP [] (pieces (?f captures)) = expansion ?S cps tps captures"
    if "captures \<in> set (text_matches (match_limit (job_count job) i j) search j i)" for captures
    using p that ms(1) by blast
  have made: "replaced_from job pieces ?i (map ?f ms) = utf8_of (replaced_chars ?S cps tps (job_replace job) i ms)"
    "behind_matches ?i (map ?f ms) = of_nat (w8 cps (last_end i ms))" "last_end i ms \<le> j"
    using replaced_from_text [OF job(1) same job(2)] unfolding ms(1) by blast+
  have "of_nat (w8 cps i) \<le> job_end job"
    using w8_of_nat_less [OF t(2), of j i] job(2) t(4,5) by (simp add: not_less [symmetric])
  note loop = replaced_text_core [OF t(1) text_job_conditions(1) [OF job(1,2)] text_job_conditions(2) [OF job] mem this,
      of pieces junk, unfolded list]
  have last: "unat (of_nat (w8 cps (last_end i ms)) :: u64) = w8 cps (last_end i ms)"
    using unat_w8 [OF t(2)] made t(4) by simp
  have "replaced_text job pieces ?i (map ?f ms) = utf8_of (result_chars ?S cps tps (job_replace job) i ms)"
    using made last unat_w8 [OF t(2), of i] job(2) t(4)
    by (simp add: replaced_text_def result_chars_def t(6) utf8_take utf8_drop)
  moreover have "plain_text (result_chars ?S cps tps (job_replace job) i ms)"
    using plain_result [OF t(3)] plain_expansion [OF S _ t(3), of "job_regex job" entries tps] template(1)
    by (auto simp: template_at_def)
  moreover have "copies_needed pieces (map ?f ms) \<le> 62" using room_for_copies [of tps ms pieces ?f] ms(2) p by blast
  ultimately show ?thesis using loop p t(6) c_string_plain by (auto simp: image_iff)
qed

end
