(* ===== verification/RK_ReplaceMethods.thy ===== *)
theory RK_ReplaceMethods
  imports RK_ReplaceText
begin

text \<open>
  The methods of \<open>NSString.m\<close> that expand a template for a match or replace matches, what \<open>NSString.h\<close>
  documents of them, and the proof that they do it.
\<close>

section \<open>The methods\<close>

text \<open>
  The receiver and the arguments of a method: the libraries, what \<open>RKRegexFromStringOrRegexWithError\<close> answers for
  \<open>aRegex\<close>, the memory, the receiver and the template with the addresses of their characters.
\<close>

record replace_call =
  call_strings :: string_library
  call_exec :: pcre_exec
  call_junk :: "nat \<Rightarrow> u32"
  call_regex :: "(RKRegex option \<times> ns_error option) run"
  call_memory :: memory
  call_self :: ns_string
  call_self_ptr :: nat
  call_template :: ns_string
  call_template_ptr :: nat

type_synonym expanded = "((replaced \<times> u64) run \<times> ns_error option) option"

text \<open>\<open>argListPtr\<close> is \<open>NULL\<close>, or the arguments with which \<open>initWithFormat:arguments:\<close> formats the template.\<close>

definition expanding :: "replace_call \<Rightarrow> (ns_string \<Rightarrow> ns_string) option \<Rightarrow> search_span \<Rightarrow> u64 \<Rightarrow> bool \<Rightarrow> expanded" where
  "expanding c argListPtr sp count expandOrReplace =
     RKStringByMatchingAndExpandingX (call_strings c) (call_exec c) (call_junk c) (call_regex c) (call_memory c)
       (call_self c) (call_self_ptr c)
       (case argListPtr of None \<Rightarrow> call_template c | Some format \<Rightarrow> format (call_template c)) (call_template_ptr c)
       sp count expandOrReplace"

definition string_only :: "(replaced \<times> u64) run option \<Rightarrow> replaced run option" where
  "string_only = map_option (run_map fst)"

definition string_and_error :: "expanded \<Rightarrow> (replaced run \<times> ns_error option) option" where
  "string_and_error = map_option (\<lambda>(r, err). (run_map fst r, err))"

definition stringByMatching_withReferenceString :: "replace_call \<Rightarrow> replaced run option" where
  "stringByMatching_withReferenceString c =
     string_only (RKStringByMatchingAndExpanding (expanding c None WholeString 1 False))"

definition stringByMatching_inRange_withReferenceString :: "replace_call \<Rightarrow> ns_range \<Rightarrow> replaced run option" where
  "stringByMatching_inRange_withReferenceString c aRange =
     string_only (RKStringByMatchingAndExpanding (expanding c None (InRange aRange) 1 False))"

definition stringByMatching_withReferenceString_error :: "replace_call \<Rightarrow> (replaced run \<times> ns_error option) option" where
  "stringByMatching_withReferenceString_error c = string_and_error (expanding c None WholeString 1 False)"

definition stringByMatching_inRange_withReferenceString_error ::
  "replace_call \<Rightarrow> ns_range \<Rightarrow> (replaced run \<times> ns_error option) option" where
  "stringByMatching_inRange_withReferenceString_error c aRange = string_and_error (expanding c None (InRange aRange) 1 False)"

definition stringByMatching_withReferenceFormat :: "replace_call \<Rightarrow> (ns_string \<Rightarrow> ns_string) \<Rightarrow> replaced run option" where
  "stringByMatching_withReferenceFormat c argList =
     string_only (RKStringByMatchingAndExpanding (expanding c (Some argList) WholeString 1 False))"

definition stringByMatching_inRange_withReferenceFormat ::
  "replace_call \<Rightarrow> ns_range \<Rightarrow> (ns_string \<Rightarrow> ns_string) \<Rightarrow> replaced run option" where
  "stringByMatching_inRange_withReferenceFormat c aRange argList =
     string_only (RKStringByMatchingAndExpanding (expanding c (Some argList) (InRange aRange) 1 False))"

definition stringByMatching_withReferenceFormat_error ::
  "replace_call \<Rightarrow> (ns_string \<Rightarrow> ns_string) \<Rightarrow> (replaced run \<times> ns_error option) option" where
  "stringByMatching_withReferenceFormat_error c argList = string_and_error (expanding c (Some argList) WholeString 1 False)"

definition stringByMatching_inRange_withReferenceFormat_error ::
  "replace_call \<Rightarrow> ns_range \<Rightarrow> (ns_string \<Rightarrow> ns_string) \<Rightarrow> (replaced run \<times> ns_error option) option" where
  "stringByMatching_inRange_withReferenceFormat_error c aRange argList =
     string_and_error (expanding c (Some argList) (InRange aRange) 1 False)"

definition stringByMatching_replace_withReferenceString :: "replace_call \<Rightarrow> u64 \<Rightarrow> replaced run option" where
  "stringByMatching_replace_withReferenceString c count =
     string_only (RKStringByMatchingAndExpanding (expanding c None WholeString count True))"

definition stringByMatching_inRange_replace_withReferenceString :: "replace_call \<Rightarrow> ns_range \<Rightarrow> u64 \<Rightarrow> replaced run option" where
  "stringByMatching_inRange_replace_withReferenceString c aRange count =
     string_only (RKStringByMatchingAndExpanding (expanding c None (InRange aRange) count True))"

definition stringByMatching_replace_withReferenceString_error ::
  "replace_call \<Rightarrow> u64 \<Rightarrow> (replaced run \<times> ns_error option) option" where
  "stringByMatching_replace_withReferenceString_error c count = string_and_error (expanding c None WholeString count True)"

definition stringByMatching_inRange_replace_withReferenceString_error ::
  "replace_call \<Rightarrow> ns_range \<Rightarrow> u64 \<Rightarrow> (replaced run \<times> ns_error option) option" where
  "stringByMatching_inRange_replace_withReferenceString_error c aRange count =
     string_and_error (expanding c None (InRange aRange) count True)"

definition stringByMatching_replace_withReferenceFormat ::
  "replace_call \<Rightarrow> u64 \<Rightarrow> (ns_string \<Rightarrow> ns_string) \<Rightarrow> replaced run option" where
  "stringByMatching_replace_withReferenceFormat c count argList =
     string_only (RKStringByMatchingAndExpanding (expanding c (Some argList) WholeString count True))"

definition stringByMatching_inRange_replace_withReferenceFormat ::
  "replace_call \<Rightarrow> ns_range \<Rightarrow> u64 \<Rightarrow> (ns_string \<Rightarrow> ns_string) \<Rightarrow> replaced run option" where
  "stringByMatching_inRange_replace_withReferenceFormat c aRange count argList =
     string_only (RKStringByMatchingAndExpanding (expanding c (Some argList) (InRange aRange) count True))"

definition stringByMatching_replace_withReferenceFormat_error ::
  "replace_call \<Rightarrow> u64 \<Rightarrow> (ns_string \<Rightarrow> ns_string) \<Rightarrow> (replaced run \<times> ns_error option) option" where
  "stringByMatching_replace_withReferenceFormat_error c count argList =
     string_and_error (expanding c (Some argList) WholeString count True)"

definition stringByMatching_inRange_replace_withReferenceFormat_error ::
  "replace_call \<Rightarrow> ns_range \<Rightarrow> u64 \<Rightarrow> (ns_string \<Rightarrow> ns_string) \<Rightarrow> (replaced run \<times> ns_error option) option" where
  "stringByMatching_inRange_replace_withReferenceFormat_error c aRange count argList =
     string_and_error (expanding c (Some argList) (InRange aRange) count True)"

text \<open>
  The methods of mutable strings answer the number of replacements; the first component is the text of the
  receiver afterwards, which was \<open>self\<close>. The form with an error argument stores the error.
\<close>

definition RKMutableStringMatchX :: "byte list \<Rightarrow> expanded \<Rightarrow> ((byte list \<times> u64) run \<times> ns_error option) option" where
  "RKMutableStringMatchX self result = map_option (\<lambda>(r, err). (RKMutableStringMatch self r, err)) result"

definition match_replace_withString :: "replace_call \<Rightarrow> byte list \<Rightarrow> u64 \<Rightarrow> (byte list \<times> u64) run option" where
  "match_replace_withString c self count =
     map_option (RKMutableStringMatch self) (RKStringByMatchingAndExpanding (expanding c None WholeString count True))"

definition match_inRange_replace_withString ::
  "replace_call \<Rightarrow> byte list \<Rightarrow> ns_range \<Rightarrow> u64 \<Rightarrow> (byte list \<times> u64) run option" where
  "match_inRange_replace_withString c self aRange count =
     map_option (RKMutableStringMatch self) (RKStringByMatchingAndExpanding (expanding c None (InRange aRange) count True))"

definition match_replace_withString_error ::
  "replace_call \<Rightarrow> byte list \<Rightarrow> u64 \<Rightarrow> ((byte list \<times> u64) run \<times> ns_error option) option" where
  "match_replace_withString_error c self count = RKMutableStringMatchX self (expanding c None WholeString count True)"

definition match_inRange_replace_withString_error ::
  "replace_call \<Rightarrow> byte list \<Rightarrow> ns_range \<Rightarrow> u64 \<Rightarrow> ((byte list \<times> u64) run \<times> ns_error option) option" where
  "match_inRange_replace_withString_error c self aRange count =
     RKMutableStringMatchX self (expanding c None (InRange aRange) count True)"

definition match_replace_withFormat ::
  "replace_call \<Rightarrow> byte list \<Rightarrow> u64 \<Rightarrow> (ns_string \<Rightarrow> ns_string) \<Rightarrow> (byte list \<times> u64) run option" where
  "match_replace_withFormat c self count argList =
     map_option (RKMutableStringMatch self) (RKStringByMatchingAndExpanding (expanding c (Some argList) WholeString count True))"

definition match_inRange_replace_withFormat ::
  "replace_call \<Rightarrow> byte list \<Rightarrow> ns_range \<Rightarrow> u64 \<Rightarrow> (ns_string \<Rightarrow> ns_string) \<Rightarrow> (byte list \<times> u64) run option" where
  "match_inRange_replace_withFormat c self aRange count argList =
     map_option (RKMutableStringMatch self) (RKStringByMatchingAndExpanding (expanding c (Some argList) (InRange aRange) count True))"

definition match_replace_withFormat_error ::
  "replace_call \<Rightarrow> byte list \<Rightarrow> u64 \<Rightarrow> (ns_string \<Rightarrow> ns_string) \<Rightarrow> ((byte list \<times> u64) run \<times> ns_error option) option" where
  "match_replace_withFormat_error c self count argList =
     RKMutableStringMatchX self (expanding c (Some argList) WholeString count True)"

definition match_inRange_replace_withFormat_error ::
  "replace_call \<Rightarrow> byte list \<Rightarrow> ns_range \<Rightarrow> u64 \<Rightarrow> (ns_string \<Rightarrow> ns_string) \<Rightarrow> ((byte list \<times> u64) run \<times> ns_error option) option" where
  "match_inRange_replace_withFormat_error c self aRange count argList =
     RKMutableStringMatchX self (expanding c (Some argList) (InRange aRange) count True)"

section \<open>What the header documents\<close>

text \<open>A string method answers a text, with and without an error argument.\<close>

definition answers_text :: "replaced run option \<Rightarrow> (replaced run \<times> ns_error option) option \<Rightarrow> nat list \<Rightarrow> nat list \<Rightarrow> bool" where
  "answers_text result result_error cps answer \<longleftrightarrow>
     (\<exists>r. result = Some (Ok r) \<and> result_error = Some (Ok r, None) \<and>
        string_answered (utf8_of cps) r = Some (utf8_of answer))"

text \<open>
  \<open>stringByMatching:inRange:withReferenceString:\<close>, the references expanded with the text of the first
  match within the range; the form without a range is equivalent to that for the entire range.
\<close>

definition stringByMatching_inRange_withReferenceString_contract where
  "stringByMatching_inRange_withReferenceString_contract S cps tps (m :: text_match) result result_error \<longleftrightarrow>
     (case m of None \<Rightarrow> True
      | Some (n, captures) \<Rightarrow> answers_text result result_error cps (expansion S cps tps captures))"

definition stringByMatching_withReferenceString_contract where
  "stringByMatching_withReferenceString_contract result result_error in_entire_range in_entire_range_error \<longleftrightarrow>
     (result :: replaced run option) = in_entire_range \<and>
     (result_error :: (replaced run \<times> ns_error option) option) = in_entire_range_error"

text \<open>With a format string, the arguments are substituted before the references are expanded.\<close>

definition stringByMatching_withReferenceFormat_contract where
  "stringByMatching_withReferenceFormat_contract result result_error formatted formatted_error \<longleftrightarrow>
     (result :: replaced run option) = formatted \<and>
     (result_error :: (replaced run \<times> ns_error option) option) = formatted_error"

definition stringByMatching_inRange_withReferenceFormat_contract where
  "stringByMatching_inRange_withReferenceFormat_contract result result_error formatted formatted_error \<longleftrightarrow>
     (result :: replaced run option) = formatted \<and>
     (result_error :: (replaced run \<times> ns_error option) option) = formatted_error"

text \<open>
  \<open>stringByMatching:inRange:replace:withReferenceString:\<close>: repeatedly searching the range and replacing
  up to \<open>count\<close> matches, or all, with the template after the references have been expanded.
\<close>

definition stringByMatching_inRange_replace_withReferenceString_contract where
  "stringByMatching_inRange_replace_withReferenceString_contract S cps tps search i j count result result_error \<longleftrightarrow>
     answers_text result result_error cps
       (result_chars S cps tps True i (text_matches (match_limit count i j) search j i))"

definition stringByMatching_replace_withReferenceString_contract where
  "stringByMatching_replace_withReferenceString_contract result result_error in_entire_range in_entire_range_error \<longleftrightarrow>
     (result :: replaced run option) = in_entire_range \<and>
     (result_error :: (replaced run \<times> ns_error option) option) = in_entire_range_error"

definition stringByMatching_replace_withReferenceFormat_contract where
  "stringByMatching_replace_withReferenceFormat_contract result result_error formatted formatted_error \<longleftrightarrow>
     (result :: replaced run option) = formatted \<and>
     (result_error :: (replaced run \<times> ns_error option) option) = formatted_error"

definition stringByMatching_inRange_replace_withReferenceFormat_contract where
  "stringByMatching_inRange_replace_withReferenceFormat_contract result result_error formatted formatted_error \<longleftrightarrow>
     (result :: replaced run option) = formatted \<and>
     (result_error :: (replaced run \<times> ns_error option) option) = formatted_error"

text \<open>
  \<open>match:replace:withString:\<close> is identical to \<open>stringByMatching:replace:withReferenceString:\<close> except that it
  modifies the receiver; it answers the number of replacements.
\<close>

definition modifies_to :: "(byte list \<times> u64) run option \<Rightarrow> ((byte list \<times> u64) run \<times> ns_error option) option \<Rightarrow>
    nat list \<Rightarrow> nat \<Rightarrow> bool" where
  "modifies_to result result_error answer n \<longleftrightarrow>
     result = Some (Ok (utf8_of answer, of_nat n)) \<and> result_error = Some (Ok (utf8_of answer, of_nat n), None)"

definition match_inRange_replace_withString_contract where
  "match_inRange_replace_withString_contract S cps tps search i j count result result_error \<longleftrightarrow>
     (let ms = text_matches (match_limit count i j) search j i
      in modifies_to result result_error (result_chars S cps tps True i ms) (length ms))"

definition match_replace_withString_contract where
  "match_replace_withString_contract S cps tps search count result result_error \<longleftrightarrow>
     (let ms = text_matches (match_limit count 0 (length cps)) search (length cps) 0
      in modifies_to result result_error (result_chars S cps tps True 0 ms) (length ms))"

section \<open>Calls on a text\<close>

text \<open>
  A call whose regex was created, whose receiver holds a text without NULs, with the characters of both
  strings in memory, and libraries that do as documented.
\<close>

definition call_on_text :: "replace_call \<Rightarrow> RKRegex \<Rightarrow> nat list \<Rightarrow> (nat \<times> byte list) list \<Rightarrow> bool" where
  "call_on_text c regex cps entries \<longleftrightarrow>
     string_library_contract (call_strings c) \<and> pcre_exec_contract (call_exec c) \<and>
     (\<forall>start. let rc = fst (call_exec c (compiledPCRE regex) (utf8_of cps)
          (ucast (of_nat (utf8_width cps) :: u64)) start RKMatchNoUTF8Check (ucast (RK_PRESIZE_CAPTURE_COUNT (captureCount regex))))
        in rc = -1 \<or> 0 < rc) \<and>
     0 < captureCount regex \<and> unat (captureCount regex) \<le> 2 ^ 30 \<and> regex_names regex entries \<and>
     call_regex c = Ok (Some regex, None) \<and> string_text (call_self c) cps \<and> plain_text cps \<and> call_self_ptr c \<noteq> 0 \<and>
     call_memory c \<noteq> [] \<and> read_bytes (call_memory c) (call_self_ptr c) (length (utf8_of cps)) = Ok (utf8_of cps)"

definition template_string ::
  "replace_call \<Rightarrow> RKRegex \<Rightarrow> (nat \<times> byte list) list \<Rightarrow> ns_string \<Rightarrow> template_piece list \<Rightarrow> bool" where
  "template_string c regex entries template tps \<longleftrightarrow>
     (case RKStringBufferWithString template of
        Ok b \<Rightarrow> template_at (call_memory c) (call_template_ptr c) b regex entries tps
      | _ \<Rightarrow> False)"

text \<open>Which part of the text a call searches.\<close>

definition span_of :: "nat list \<Rightarrow> search_span \<Rightarrow> nat \<Rightarrow> nat \<Rightarrow> bool" where
  "span_of cps sp i j \<longleftrightarrow>
     i \<le> j \<and> j \<le> length cps \<and> (sp = WholeString \<and> i = 0 \<and> j = length cps \<or> sp = InRange (range16 cps i j))"

lemma span_range:
  assumes "span_of cps sp i j" "string_text self cps" "RKStringBufferWithString self = Ok b"
  shows "search_range_of self b sp = Ok (range8 cps i j)"
proof -
  have "buffer_length b = of_nat (utf8_width cps)" using assms(2,3) string_text_buffer by fastforce
  then show ?thesis
    using assms(1) string_ranges_convert(2) [OF assms(2), of i j] full_range [of cps]
    by (auto simp: span_of_def search_range_of_def)
qed

lemma run_replace_same:
  "run_replace job junk i mem = Some (Ok (SameString, n), e) \<Longrightarrow> buffer_length (job_subject job) = 0"
  by (auto simp: run_replace_def finish_replace_def NSEqualRanges_def Let_def run_simps
      split: if_splits option.splits run.splits sum.splits)

lemma expanding_text:
  assumes call: "call_on_text c regex cps entries" "span_of cps sp i j" "searches (call_exec c) regex cps j search"
    and template: "template_string c regex entries (case argListPtr of None \<Rightarrow> call_template c | Some format \<Rightarrow> format (call_template c)) tps"
    and count: "count \<noteq> RKReplaceAll \<or> no_empty_match search j"
    and ms: "ms = text_matches (match_limit count i j) search j i" "fit_for_template cps tps ms"
  shows "\<exists>r. expanding c argListPtr sp count keep = Some (Ok (r, of_nat (length ms)), None) \<and>
    string_answered (utf8_of cps) r = Some (utf8_of (result_chars (call_strings c) cps tps keep i ms)) \<and>
    (r = SameString \<longrightarrow> ms = [])"
proof -
  let ?template = "case argListPtr of None \<Rightarrow> call_template c | Some format \<Rightarrow> format (call_template c)"
  note call' = call(1) [unfolded call_on_text_def]
  obtain sb where sb: "RKStringBufferWithString (call_self c) = Ok sb" "buffer_characters sb = utf8_of cps"
      "buffer_length sb = of_nat (utf8_width cps)" "utf8_width cps \<le> 2147483647"
    using string_text_buffer call' by metis
  obtain tb where tb: "RKStringBufferWithString ?template = Ok tb" "template_at (call_memory c) (call_template_ptr c) tb regex entries tps"
    using template by (auto simp: template_string_def split: run.splits)
  obtain instrs where instrs: "RKCompileReferenceStringX tb (call_template_ptr c) regex (stack_store zero_instruction) = Ok (None, instrs)"
    using template_compiles [OF tb(2)] call' by blast
  have span: "search_range_of (call_self c) sb sp = Ok (range8 cps i j)" "i \<le> j" "j \<le> length cps"
    using span_range [OF call(2) _ sb(1)] call' call(2) by (auto simp: span_of_def)
  have short: "short_text cps" using sb(4) by (simp add: short_text_def)
  have max: "range_location (range8 cps i j) + range_length (range8 cps i j) = of_nat (w8 cps j)"
    using range8_parts(4) [OF short span(2,3)] by (simp add: NSMaxRange_def)
  define job where "job = \<lparr>job_strings = call_strings c, job_exec = call_exec c, job_regex = regex, job_subject = sb,
    job_subject_ptr = call_self_ptr c, job_template = instrs, job_end = of_nat (w8 cps j), job_count = count, job_replace = keep\<rparr>"
  have width: "unat (of_nat (utf8_width cps) :: u64) = utf8_width cps" using sb(4) by (simp add: unat_of_nat)
  have "w8 cps j \<le> utf8_width cps" using w8_le [OF span(3) order_refl] by (simp add: w8_full)
  then have "good_job job"
    using call' sb width unat_w8 [OF short span(3)]
    by (simp add: good_job_def job_def job_presize_def valid_buffer_def utf8_width_def word_le_nat_alt)
  then have job: "text_job job cps j search"
    using call' call(3) sb short span(3) by (simp add: text_job_def job_def)
  have x: "expanding c argListPtr sp count keep = run_replace job (call_junk c) (of_nat (w8 cps i)) (call_memory c)"
    using call' sb(1) tb(1) span(1) instrs max range8_parts(1) [OF short span(2,3)]
    by (simp add: expanding_def RKStringByMatchingAndExpandingX_def RKCompileReferenceString_def job_def)
  have sub: "subject_in job (call_memory c)" using call' sb(2) by (simp add: subject_in_def job_def)
  have "ms = []" if "buffer_length (job_subject job) = 0"
  proof -
    have "utf8_width cps = 0" using that sb(3) width by (simp add: job_def)
    then have "w8 cps j \<le> w8 cps i" using \<open>w8 cps j \<le> utf8_width cps\<close> by simp
    then have "\<not> i < j" using w8_less [of i j cps] span(3) by auto
    then show ?thesis using no_text_matches [of i j search] ms(1) by simp
  qed
  then show ?thesis
    using job_replaces_text [OF job span(2) _ sub, of "call_template_ptr c" tb entries tps ms "call_junk c"]
      tb(2) instrs count ms call' run_replace_same [of job "call_junk c" "of_nat (w8 cps i)" "call_memory c"] unfolding x
    by (auto simp: job_def)
qed

lemmas reference_method_defs =
  stringByMatching_withReferenceString_contract_def stringByMatching_withReferenceString_def
  stringByMatching_withReferenceString_error_def stringByMatching_inRange_withReferenceString_def
  stringByMatching_inRange_withReferenceString_error_def stringByMatching_withReferenceFormat_contract_def
  stringByMatching_withReferenceFormat_def stringByMatching_withReferenceFormat_error_def
  stringByMatching_inRange_withReferenceFormat_contract_def stringByMatching_inRange_withReferenceFormat_def
  stringByMatching_inRange_withReferenceFormat_error_def

lemmas replace_method_defs =
  stringByMatching_replace_withReferenceString_contract_def stringByMatching_replace_withReferenceString_def
  stringByMatching_replace_withReferenceString_error_def stringByMatching_inRange_replace_withReferenceString_def
  stringByMatching_inRange_replace_withReferenceString_error_def stringByMatching_replace_withReferenceFormat_contract_def
  stringByMatching_replace_withReferenceFormat_def stringByMatching_replace_withReferenceFormat_error_def
  stringByMatching_inRange_replace_withReferenceFormat_contract_def stringByMatching_inRange_replace_withReferenceFormat_def
  stringByMatching_inRange_replace_withReferenceFormat_error_def

lemmas mutable_method_defs =
  match_inRange_replace_withString_contract_def match_inRange_replace_withString_def match_inRange_replace_withString_error_def
  match_replace_withString_contract_def match_replace_withString_def match_replace_withString_error_def modifies_to_def

section \<open>The methods do what is documented\<close>

text \<open>The entire range, as a range and as no range.\<close>

lemma expanding_entire:
  assumes "call_on_text c regex cps entries"
  shows "expanding c argListPtr WholeString count keep = expanding c argListPtr (InRange (range16 cps 0 (length cps))) count keep"
proof -
  have self: "string_text (call_self c) cps" and created: "call_regex c = Ok (Some regex, None)"
    using assms by (simp_all add: call_on_text_def)
  obtain b where b: "RKStringBufferWithString (call_self c) = Ok b" using string_text_buffer [OF self] by metis
  have "search_range_of (call_self c) b WholeString = search_range_of (call_self c) b (InRange (range16 cps 0 (length cps)))"
    using span_range [of cps WholeString 0 "length cps", OF _ self b]
      span_range [of cps "InRange (range16 cps 0 (length cps))" 0 "length cps", OF _ self b] by (simp add: span_of_def)
  then show ?thesis by (simp add: expanding_def RKStringByMatchingAndExpandingX_def b created)
qed

lemma expanding_format:
  "expanding c (Some argList) sp count keep = expanding (c\<lparr>call_template := argList (call_template c)\<rparr>) None sp count keep"
  by (simp add: expanding_def)

lemma expanding_answers:
  assumes "expanding c a sp count keep = Some (Ok (r, n), None)"
    and "string_answered (utf8_of cps) r = Some (utf8_of answer)" "r = SameString \<Longrightarrow> n = 0"
  shows "answers_text (string_only (RKStringByMatchingAndExpanding (expanding c a sp count keep)))
      (string_and_error (expanding c a sp count keep)) cps answer"
    and "map_option (RKMutableStringMatch (utf8_of cps)) (RKStringByMatchingAndExpanding (expanding c a sp count keep)) =
      Some (Ok (utf8_of answer, n))"
    and "RKMutableStringMatchX (utf8_of cps) (expanding c a sp count keep) = Some (Ok (utf8_of answer, n), None)"
  using assms
  by (auto simp: answers_text_def string_only_def string_and_error_def RKStringByMatchingAndExpanding_def
      RKMutableStringMatchX_def RKMutableStringMatch_def string_answered_def split: replaced.splits)

lemma first_match_text:
  assumes "call_on_text c regex cps entries" "span_of cps sp i j" "i < j" "searches (call_exec c) regex cps j search"
    and "template_string c regex entries (call_template c) tps" "search i = Some (n, captures)" "keeps_empties cps tps captures"
    "length tps \<le> 14"
  shows "answers_text (string_only (RKStringByMatchingAndExpanding (expanding c None sp 1 False)))
    (string_and_error (expanding c None sp 1 False)) cps (expansion (call_strings c) cps tps captures)"
proof -
  have one: "text_matches (match_limit 1 i j) search j i = [captures]"
    using assms(3,6) by (simp add: match_limit_def RKReplaceAll_def RKIntegerMax_def)
  have "fit_for_template cps tps [captures]" using assms(7,8) by (simp add: few_copies_def)
  then obtain r where "expanding c None sp 1 False = Some (Ok (r, 1), None)"
      "string_answered (utf8_of cps) r = Some (utf8_of (expansion (call_strings c) cps tps captures))" "r \<noteq> SameString"
    using expanding_text [OF assms(1,2,4), of None tps 1 "[captures]" False] one assms(5)
    by (auto simp: result_chars_def RKReplaceAll_def RKIntegerMax_def)
  then show ?thesis using expanding_answers(1) by blast
qed

text \<open>
  The methods that expand a template for the first match: those with a range answer the template expanded
  with the text of the match in a range that is not empty, those without a range do it for the entire
  string, and a format string is formatted first.
\<close>

lemma reference_methods_keep_documentation:
  assumes "call_on_text c regex cps entries" "i < j" "j \<le> length cps" "searches (call_exec c) regex cps j search"
    and "template_string c regex entries (call_template c) tps" "length tps \<le> 14"
    and "case search i of None \<Rightarrow> True | Some (n, captures) \<Rightarrow> keeps_empties cps tps captures"
  shows "stringByMatching_inRange_withReferenceString_contract (call_strings c) cps tps (search i)
      (stringByMatching_inRange_withReferenceString c (range16 cps i j))
      (stringByMatching_inRange_withReferenceString_error c (range16 cps i j)) \<and>
    stringByMatching_withReferenceString_contract
      (stringByMatching_withReferenceString c) (stringByMatching_withReferenceString_error c)
      (stringByMatching_inRange_withReferenceString c (range16 cps 0 (length cps)))
      (stringByMatching_inRange_withReferenceString_error c (range16 cps 0 (length cps))) \<and>
    stringByMatching_withReferenceFormat_contract
      (stringByMatching_withReferenceFormat c' argList) (stringByMatching_withReferenceFormat_error c' argList)
      (stringByMatching_withReferenceString (c'\<lparr>call_template := argList (call_template c')\<rparr>))
      (stringByMatching_withReferenceString_error (c'\<lparr>call_template := argList (call_template c')\<rparr>)) \<and>
    stringByMatching_inRange_withReferenceFormat_contract
      (stringByMatching_inRange_withReferenceFormat c' aRange argList)
      (stringByMatching_inRange_withReferenceFormat_error c' aRange argList)
      (stringByMatching_inRange_withReferenceString (c'\<lparr>call_template := argList (call_template c')\<rparr>) aRange)
      (stringByMatching_inRange_withReferenceString_error (c'\<lparr>call_template := argList (call_template c')\<rparr>) aRange)"
proof -
  have span: "span_of cps (InRange (range16 cps i j)) i j" using assms(2,3) by (simp add: span_of_def)
  have "stringByMatching_inRange_withReferenceString_contract (call_strings c) cps tps (search i)
      (stringByMatching_inRange_withReferenceString c (range16 cps i j))
      (stringByMatching_inRange_withReferenceString_error c (range16 cps i j))"
    using first_match_text [OF assms(1) span assms(2,4,5) _ _ assms(6)] assms(7)
    by (auto simp: stringByMatching_inRange_withReferenceString_contract_def stringByMatching_inRange_withReferenceString_def
        stringByMatching_inRange_withReferenceString_error_def split: option.splits)
  then show ?thesis by (simp add: reference_method_defs expanding_entire [OF assms(1)] expanding_format)
qed

text \<open>An empty match at the start of the range is found again at each search.\<close>

lemma text_matches_empty:
  "i < j \<Longrightarrow> search i = Some (n, captures) \<Longrightarrow> captures ! 0 = Some (i, i) \<Longrightarrow>
     text_matches k search j i = replicate k captures"
  by (induction k) (simp_all add: match_end_def)

lemma replaced_empty:
  "captures ! 0 = Some (i, i) \<Longrightarrow>
     replaced_chars S cps tps keep i (replicate k captures) = concat (replicate k (expansion S cps tps captures)) \<and>
     last_end i (replicate k captures) = i"
  by (induction k) (simp_all add: match_end_def match_start_def chars_between_def)


section \<open>A call\<close>

text \<open>The text \<open>xaya\<close>, the regex that finds the letter \<open>a\<close>, and the template \<open>\u${0}\<close>.\<close>

definition letter_text :: "nat list" where
  "letter_text = [120, 97, 121, 97]"

definition upper_string :: ns_string where
  "upper_string = \<lparr>str_length = 6, str_fastest_encoding = EncodingOther, str_cstring_ptr = None,
     str_utf8 = Some [0x5c, 0x75, 0x24, 0x7b, 0x30, 0x7d]\<rparr>"

definition letter_regex :: RKRegex where
  "letter_regex = sample_regex\<lparr>captureCount := 1\<rparr>"

definition letter_call :: replace_call where
  "letter_call =
     \<lparr>call_strings = sample_strings, call_exec = letter_exec, call_junk = (\<lambda>i. 7), call_regex = Ok (Some letter_regex, None),
      call_memory = [0, 120, 97, 121, 97, 0x5c, 0x75, 0x24, 0x7b, 0x30, 0x7d],
      call_self = \<lparr>str_length = 4, str_fastest_encoding = EncodingOther, str_cstring_ptr = None, str_utf8 = Some [120, 97, 121, 97]\<rparr>,
      call_self_ptr = 1, call_template = upper_string, call_template_ptr = 5\<rparr>"

definition letter_search :: "nat \<Rightarrow> text_match" where
  "letter_search p = (if p \<le> 1 then Some (1, [Some (1, 2)]) else if p \<le> 3 then Some (1, [Some (3, 4)]) else None)"

lemma letter_eval:
  "utf8_of letter_text = [120, 97, 121, 97]" "utf8_width letter_text = 4" "utf16_width letter_text = 4" "length letter_text = 4"
  "w8 letter_text 0 = 0" "w8 letter_text (Suc 0) = 1" "w8 letter_text 2 = 2" "w8 letter_text 3 = 3" "w8 letter_text 4 = 4"
  by (simp_all add: letter_text_def utf8_of_def utf8_encode_def utf8_width_def utf16_width_def utf16_units_def w8_def)

lemma letter_call_on_text: "call_on_text letter_call letter_regex letter_text []"
proof -
  have "string_text (call_self letter_call) letter_text"
    by (simp add: string_text_def letter_call_def RKStringBufferWithString_def RKMakeStringBuffer_def holds_text_def letter_eval)
      (simp add: letter_text_def valid_code_point_def)
  moreover have "plain_text letter_text" by (simp add: letter_text_def plain_text_def valid_code_point_def)
  moreover have "regex_names letter_regex []"
    by (simp add: regex_names_def names_table_def letter_regex_def sample_regex_def unique_names_def)
  ultimately show ?thesis
    by (simp add: call_on_text_def letter_eval)
      (auto simp: letter_call_def letter_regex_def sample_regex_def sample_strings_contract letter_exec_contract letter_exec_def
        read_bytes_def Let_def split: option.splits)
qed

lemma letter_searches: "searches (call_exec letter_call) letter_regex letter_text 4 letter_search"
proof -
  have "reports_text letter_exec letter_regex letter_text p 4 (letter_search p)" if "p \<le> 4" for p
  proof -
    have "p = 0 \<or> p = 1 \<or> p = 2 \<or> p = 3 \<or> p = 4" using that by arith
    then consider "p = 0" | "p = 1" | "p = 2" | "p = 3" | "p = 4" by blast
    then show ?thesis
      by cases (simp_all add: letter_search_def reports_text_def library_match_def letter_exec_def letter_regex_def sample_regex_def
          letter_eval capture_ok_def RK_PRESIZE_CAPTURE_COUNT_def range_end_def expected_range_def range_of_vectors_def
          capture_range8_def upt_conv_Cons range8_def)
  qed
  then show ?thesis by (auto simp: searches_def letter_search_def letter_call_def)
qed

lemma upper_template: "template_string letter_call letter_regex [] (call_template letter_call) [Operator OP_UPPERCASE_NEXT_CHAR, Reference (reference_body.Number [0]) 0]"
  by (simp add: template_string_def letter_call_def upper_string_def RKStringBufferWithString_def RKMakeStringBuffer_def
      template_at_def addressable_def valid_buffer_def read_bytes_def digit_char_def case_ops_def letter_regex_def sample_regex_def)

lemma letter_answer:
  "expansion sample_strings letter_text [Operator OP_UPPERCASE_NEXT_CHAR, Reference (reference_body.Number [0]) 0] [Some (Suc 0, 2)] = [65]"
  "expansion sample_strings letter_text [Operator OP_UPPERCASE_NEXT_CHAR, Reference (reference_body.Number [0]) 0] [Some (3, 4)] = [65]"
  by (simp_all add: expansion_def capture_text_def chars_between_def letter_text_def is_begin_def is_next_def
      convert_case_def sample_strings_def ascii_upper_def)

lemma letter_keeps:
  "keeps_empties letter_text [Operator OP_UPPERCASE_NEXT_CHAR, Reference (reference_body.Number [0]) 0] [Some (Suc 0, 2)]"
  "keeps_empties letter_text [Operator OP_UPPERCASE_NEXT_CHAR, Reference (reference_body.Number [0]) 0] [Some (3, 4)]"
  by (simp_all add: keeps_empties_def capture_text_def chars_between_def letter_text_def)

lemma reference_methods_keep_documentation_witness:
  "answers_text (stringByMatching_inRange_withReferenceString letter_call (range16 letter_text 0 4))
    (stringByMatching_inRange_withReferenceString_error letter_call (range16 letter_text 0 4)) letter_text [65]"
proof -
  have m: "letter_search 0 = Some (1, [Some (1, 2)])" by (simp add: letter_search_def)
  have S: "call_strings letter_call = sample_strings" by (simp add: letter_call_def)
  show ?thesis
    using reference_methods_keep_documentation [OF letter_call_on_text _ _ letter_searches upper_template, of 0, THEN conjunct1]
    by (simp add: letter_eval m S letter_answer letter_keeps stringByMatching_inRange_withReferenceString_contract_def)
qed


end
