(* ===== verification/RK_ExtractContract.thy ===== *)
theory RK_ExtractContract
  imports RK_Extract "HOL-Library.Multiset"
begin

text \<open>
  What \<open>NSString.h\<close> and \<open>RKEnumerator.h\<close> document of capture extraction, over the characters of the text, and the
  proof that the methods of \<open>RK_Extract\<close> keep it.
\<close>

section \<open>Documented behaviour\<close>

text \<open>The conversions of the documentation, their syntax, and what each stores for a text.\<close>

datatype key_format = AsString | AsInteger byte | AsScan "byte list" | AsDate | AsNumber "byte option"

definition integer_letters :: "byte list" where
  "integer_letters = [0x75, 0x78, 0x58, 0x64, 0x69, 0x6f]"

fun format_text :: "key_format \<Rightarrow> byte list" where
  "format_text AsString = []"
| "format_text (AsInteger c) = [0x25, c]"
| "format_text (AsScan spec) = 0x25 # spec"
| "format_text AsDate = [0x40, 0x64]"
| "format_text (AsNumber None) = [0x40, 0x6e]"
| "format_text (AsNumber (Some style)) = [0x40, style, 0x6e]"

fun good_format :: "key_format \<Rightarrow> bool" where
  "good_format AsString \<longleftrightarrow> True"
| "good_format (AsInteger c) \<longleftrightarrow> c \<in> set integer_letters"
| "good_format (AsScan spec) \<longleftrightarrow> spec \<noteq> [] \<and> 0 \<notin> set spec \<and> 0x7d \<notin> set spec \<and>
     \<not> (length spec = 1 \<and> hd spec \<in> set integer_letters)"
| "good_format AsDate \<longleftrightarrow> True"
| "good_format (AsNumber None) \<longleftrightarrow> True"
| "good_format (AsNumber (Some style)) \<longleftrightarrow> style \<in> set number_styles"

text \<open>
  The integer conversions are documented to be those of \<open>scanf\<close>: \<open>%d\<close> and \<open>%u\<close> read decimal numbers, \<open>%o\<close>
  octal and \<open>%x\<close> and \<open>%X\<close> hexadecimal numbers, \<open>%i\<close> numbers in the base their prefix says. This is the part of it that the
  code keeps: a number in a base that the letter reads, with the prefix of that base, in the range of the type. Left out
  are octal and hexadecimal numbers without their prefix and decimal numbers with leading zeros, which the code reads in the
  base of the prefix they have, and signed decimal numbers beyond 2147483644.
\<close>

definition reads_base :: "byte \<Rightarrow> nat \<Rightarrow> bool" where
  "reads_base c radix \<longleftrightarrow>
     (c \<in> {0x64, 0x75} \<and> radix = 10) \<or> (c = 0x6f \<and> radix = 8) \<or> (c \<in> {0x78, 0x58} \<and> radix = 16) \<or>
     (c = 0x69 \<and> radix \<in> {8, 10, 16})"

definition integer_fits :: "byte \<Rightarrow> bool \<Rightarrow> nat \<Rightarrow> nat \<Rightarrow> bool" where
  "integer_fits c neg radix v \<longleftrightarrow>
     (if c \<in> {0x75, 0x78, 0x58} then v \<le> 4294967295
      else if radix = 10 then v \<le> 2147483644 else if neg then v \<le> 2147483648 else v \<le> 2147483647)"

definition scanned_integer :: "byte \<Rightarrow> byte list \<Rightarrow> u32 \<Rightarrow> bool" where
  "scanned_integer c t w \<longleftrightarrow>
     (\<forall>neg radix d ds tail. t = sign_prefix neg @ radix_prefix radix @ map digit_char (d # ds) @ tail \<longrightarrow>
        reads_base c radix \<longrightarrow> list_all (\<lambda>x. x < radix) (d # ds) \<longrightarrow> (radix = 10 \<longrightarrow> d \<noteq> 0) \<longrightarrow> ends_number radix tail \<longrightarrow>
        integer_fits c neg radix (digits_value radix 0 (d # ds)) \<longrightarrow>
        w = (if neg then - of_nat (digits_value radix 0 (d # ds)) else of_nat (digits_value radix 0 (d # ds))))"

fun converts :: "key_format \<Rightarrow> byte list \<Rightarrow> conversion_result \<Rightarrow> bool" where
  "converts AsString t v \<longleftrightarrow> v = ConvertedString t"
| "converts (AsInteger c) t v \<longleftrightarrow> (\<exists>w. v = ConvertedInt w \<and> scanned_integer c t w)"
| "converts (AsScan spec) t v \<longleftrightarrow> v = ConvertedScan t (0x25 # spec)"
| "converts AsDate t v \<longleftrightarrow> v = ConvertedDate t"
| "converts (AsNumber style) t v \<longleftrightarrow> v = ConvertedNumber style t"

definition key_text :: "reference_body \<Rightarrow> key_format \<Rightarrow> byte list" where
  "key_text body fmt =
     [0x24, 0x7b] @ body_text body @ (if fmt = AsString then [] else 0x3a # format_text fmt) @ [0x7d]"

text \<open>One pair of arguments: the capture that the reference stands for, the conversion, and the pointer.\<close>

record extraction =
  ext_capture :: nat
  ext_format :: key_format
  ext_pointer :: nat

definition key_string :: "RKRegex \<Rightarrow> (nat \<times> byte list) list \<Rightarrow> ns_string \<Rightarrow> extraction \<Rightarrow> bool" where
  "key_string regex entries str x \<longleftrightarrow>
     (\<exists>body b. good_body body \<and> body_index entries body = (None, of_nat (ext_capture x)) \<and>
        ext_capture x < unat (captureCount regex) \<and> good_format (ext_format x) \<and>
        RKStringBufferWithString str = Ok b \<and> valid_buffer b \<and> buffer_characters b = key_text body (ext_format x) \<and>
        length (buffer_characters b) < 2147483648)"

text \<open>The pairs, ended by \<open>nil\<close>.\<close>

fun asks_for :: "RKRegex \<Rightarrow> (nat \<times> byte list) list \<Rightarrow> argument list \<Rightarrow> extraction list \<Rightarrow> bool" where
  "asks_for regex entries (NilArgument # rest) [] \<longleftrightarrow> True"
| "asks_for regex entries (KeyArgument k # PointerArgument p # rest) (x # xs) \<longleftrightarrow>
     key_string regex entries k x \<and> ext_pointer x = p \<and> asks_for regex entries rest xs"
| "asks_for regex entries args xs \<longleftrightarrow> False"

text \<open>
  What is behind the pointers afterwards, one pair after the other: a capture that took no part in the match leaves its
  pointer alone.
\<close>

primrec documented_extraction :: "nat list \<Rightarrow> (nat \<times> nat) option list \<Rightarrow> extraction list \<Rightarrow> slots \<Rightarrow> slots \<Rightarrow> bool" where
  "documented_extraction cps captures [] slots slots' \<longleftrightarrow> slots' = slots"
| "documented_extraction cps captures (x # xs) slots slots' \<longleftrightarrow>
     (case captures ! ext_capture x of
        None \<Rightarrow> documented_extraction cps captures xs slots slots'
      | Some (s, e) \<Rightarrow> \<exists>v. converts (ext_format x) (utf8_of (chars_between cps s e)) v \<and>
          documented_extraction cps captures xs (slots(ext_pointer x \<mapsto> v)) slots')"

definition getCapturesWithRegexAndReferences_contract ::
  "nat list \<Rightarrow> text_match \<Rightarrow> extraction list \<Rightarrow> slots \<Rightarrow> bool run \<times> slots \<Rightarrow> bool" where
  "getCapturesWithRegexAndReferences_contract cps m xs slots result \<longleftrightarrow>
     (case m of None \<Rightarrow> result = (Ok False, slots)
      | Some (n, captures) \<Rightarrow> fst result = Ok True \<and> documented_extraction cps captures xs slots (snd result))"

definition getCapturesWithRegex_inRange_references_contract ::
  "nat list \<Rightarrow> text_match \<Rightarrow> extraction list \<Rightarrow> slots \<Rightarrow> bool run \<times> slots \<Rightarrow> bool" where
  "getCapturesWithRegex_inRange_references_contract cps m xs slots result \<longleftrightarrow>
     (case m of None \<Rightarrow> result = (Ok False, slots)
      | Some (n, captures) \<Rightarrow> fst result = Ok True \<and> documented_extraction cps captures xs slots (snd result))"

definition getCapturesWithReferences_contract ::
  "nat list \<Rightarrow> enumeration \<Rightarrow> extraction list \<Rightarrow> slots \<Rightarrow> bool run \<times> slots \<Rightarrow> bool" where
  "getCapturesWithReferences_contract cps s xs slots result \<longleftrightarrow>
     (case s of Start p \<Rightarrow> True
      | At p captures \<Rightarrow> fst result = Ok True \<and> documented_extraction cps captures xs slots (snd result)
      | Exhausted \<Rightarrow> result = (Ok False, slots))"

section \<open>What the code stores\<close>

text \<open>The same as functions, with the conversion of the code, which is one that is documented.\<close>

fun converted_text :: "key_format \<Rightarrow> byte list \<Rightarrow> conversion_result" where
  "converted_text AsString t = ConvertedString t"
| "converted_text (AsInteger c) t = ConvertedInt (convert_int (c \<in> {0x75, 0x78, 0x58}) t)"
| "converted_text (AsScan spec) t = ConvertedScan t (0x25 # spec)"
| "converted_text AsDate t = ConvertedDate t"
| "converted_text (AsNumber style) t = ConvertedNumber style t"

definition store_capture :: "nat list \<Rightarrow> (nat \<times> nat) option list \<Rightarrow> extraction \<Rightarrow> slots \<Rightarrow> slots" where
  "store_capture cps captures x slots =
     (case captures ! ext_capture x of None \<Rightarrow> slots
      | Some (s, e) \<Rightarrow> slots(ext_pointer x \<mapsto> converted_text (ext_format x) (utf8_of (chars_between cps s e))))"

definition extracted :: "nat list \<Rightarrow> (nat \<times> nat) option list \<Rightarrow> extraction list \<Rightarrow> slots \<Rightarrow> slots" where
  "extracted cps captures xs slots = fold (store_capture cps captures) xs slots"

lemma convert_int_scans:
  assumes "c \<in> set integer_letters"
  shows "scanned_integer c t (convert_int (c \<in> {0x75, 0x78, 0x58}) t)"
  unfolding scanned_integer_def
proof (intro allI impI)
  fix neg radix d ds tail
  assume t: "t = sign_prefix neg @ radix_prefix radix @ map digit_char (d # ds) @ tail" and base: "reads_base c radix"
    and digits: "list_all (\<lambda>x. x < radix) (d # ds)" "radix = 10 \<longrightarrow> d \<noteq> 0" "ends_number radix tail"
    and fits: "integer_fits c neg radix (digits_value radix 0 (d # ds))"
  have radix: "radix \<in> {8, 10, 16}" using base by (auto simp: reads_base_def)
  have "digits_value radix 0 (d # ds) \<le> conversion_limit (c \<in> {0x75, 0x78, 0x58}) neg radix"
    using fits by (auto simp: integer_fits_def conversion_limit_def split: if_splits)
  then show "convert_int (c \<in> {0x75, 0x78, 0x58}) t =
      (if neg then - of_nat (digits_value radix 0 (d # ds)) else of_nat (digits_value radix 0 (d # ds)))"
    unfolding t convert_int_digits [OF radix digits] Let_def by (simp only: if_True)
qed

lemma converted_text_converts: "good_format fmt \<Longrightarrow> converts fmt t (converted_text fmt t)"
  by (cases fmt) (simp_all add: convert_int_scans [simplified])

lemma extracted_documented:
  "list_all (\<lambda>x. good_format (ext_format x)) xs \<Longrightarrow>
     documented_extraction cps captures xs slots (extracted cps captures xs slots)"
proof (induction xs arbitrary: slots)
  case (Cons x xs)
  have step: "extracted cps captures (x # xs) slots = extracted cps captures xs (store_capture cps captures x slots)" for slots
    by (simp add: extracted_def)
  show ?case
    using Cons converted_text_converts by (auto simp: step store_capture_def split: option.split)
qed (simp add: extracted_def)

lemma asked_formats: "asks_for regex entries args xs \<Longrightarrow> list_all (\<lambda>x. good_format (ext_format x)) xs"
  by (induction regex entries args xs rule: asks_for.induct) (auto simp: key_string_def)

section \<open>Parsing a key\<close>

lemma format_chars: "good_format fmt \<Longrightarrow> c \<in> set (format_text fmt) \<Longrightarrow> c \<noteq> 0 \<and> c \<noteq> 0x7d"
  by (cases fmt rule: format_text.cases) (auto simp: integer_letters_def number_styles_def)

lemma format_shape:
  "good_format fmt \<Longrightarrow> fmt \<noteq> AsString \<Longrightarrow> 2 \<le> length (format_text fmt) \<and> (hd (format_text fmt) = 0x25 \<or> hd (format_text fmt) = 0x40)"
  by (cases fmt rule: format_text.cases) (auto simp: Suc_le_eq)

lemma bracket_loop_format:
  assumes "unat len < 2147483648" "unat len = length cs"
  shows "drop p cs = g @ 0x7d # post \<Longrightarrow> \<forall>c \<in> set g. c \<noteq> 0 \<and> c \<noteq> 0x7d \<Longrightarrow> bracket_loop cs len p = Ok (p + length g)"
proof (induction g arbitrary: p)
  case Nil
  then have "p < length cs" "cs ! p = 0x7d" using drop_Cons_nth [of p cs] by simp_all
  then show ?case using assms by (subst bracket_loop.simps) (simp add: before_limit_iff read_char_def char_at_def)
next
  case (Cons c g)
  then have p: "p < length cs" "cs ! p = c" "drop (Suc p) cs = g @ 0x7d # post"
    using drop_Cons_nth [of p cs] by simp_all
  have "bracket_loop cs len p = bracket_loop cs len (Suc p)"
    using p Cons.prems(2) assms by (subst bracket_loop.simps) (simp add: before_limit_iff read_char_def char_at_def)
  then show ?case using Cons.IH [OF p(3)] Cons.prems by simp
qed

definition key_span :: "reference_body \<Rightarrow> key_format \<Rightarrow> (nat \<times> nat) option" where
  "key_span body fmt =
     (if fmt = AsString then None
      else Some (length (body_text body) + 3, length (body_text body) + 3 + length (format_text fmt)))"

lemma scan_key:
  assumes cs: "cs = key_text body fmt" and good: "good_body body" "good_format fmt"
    and len: "unat len < 2147483648" "unat len = length cs"
  shows "scan_reference cs len True False True =
    Ok (None, scanned (length cs) 2 (length (body_text body) + 2) (body_number body) (key_span body fmt))"
proof -
  let ?n = "length (body_text body)"
  define t where "t = (if fmt = AsString then 0x7d else 0x3a :: byte)"
  define post where "post = (if fmt = AsString then [] else format_text fmt @ [0x7d])"
  have cs': "cs = [0x24, 0x7b] @ body_text body @ t # post" by (simp add: cs key_text_def t_def post_def)
  have t: "t = 0x7d \<or> t = 0x3a" by (simp add: t_def)
  have at: "read_char cs 0 = Ok 0x24" "read_char cs 1 = Ok 0x7b" "read_char cs (?n + 2) = Ok t"
    by (simp_all add: cs' read_char_def char_at_def nth_append)
  have nodigit: "fast_digit cs True = Ok False" using at by (simp add: fast_digit_def is_digit_def)
  have loop: "name_loop cs len 2 0 = Ok (?n + 2, body_number body)" by (rule body_loop [OF len t cs' good_body_ok [OF good(1)]])
  have slow: "scan_braced cs len True False =
    Ok (None, scanned (length cs) 2 (?n + 2) (body_number body) (key_span body fmt))"
  proof (cases "fmt = AsString")
    case True
    then show ?thesis
      using loop at(3) body_not_empty [OF good_body_ok [OF good(1)]]
      by (simp add: scan_braced_def scan_close_def t_def post_def key_span_def cs')
  next
    case False
    let ?g = "format_text fmt"
    have g: "2 \<le> length ?g" "hd ?g = 0x25 \<or> hd ?g = 0x40" using format_shape [OF good(2) False] by auto
    have rest: "drop (Suc (?n + 2)) cs = ?g @ [0x7d]" using False by (simp add: cs' post_def)
    have next_char: "read_char cs (Suc (?n + 2)) = Ok (hd ?g)"
      using g(1) rest by (cases ?g) (auto simp: read_char_def char_at_def dest: drop_Cons_nth)
    have bracket: "bracket_loop cs len (Suc (?n + 2)) = Ok (Suc (?n + 2) + length ?g)"
      using bracket_loop_format [OF len, of _ ?g "[]"] rest format_chars [OF good(2)] by simp
    have close: "read_char cs (Suc (?n + 2) + length ?g) = Ok 0x7d"
      using False by (simp add: cs' post_def t_def read_char_def char_at_def nth_append)
    show ?thesis
      using loop at(3) body_not_empty [OF good_body_ok [OF good(1)]] g next_char bracket close False
      by (simp add: scan_braced_def scan_close_def t_def key_span_def cs' post_def numeral_3_eq_3)
  qed
  obtain f where f: "fast_braced cs True = Ok f"
    using fast_braced_ok [of cs True] by (auto simp: cs')
  have four: "length cs = 4 \<and> fmt = AsString \<and> digit_index cs 2 = body_number body" if f
  proof -
    have "fast_braced cs True = Ok True" using f that by simp
    note fast = body_fast [OF cs' good_body_ok [OF good(1)] this]
    then have "fmt = AsString" by (auto simp: t_def split: if_splits)
    then show ?thesis using fast by (simp add: cs' post_def)
  qed
  show ?thesis
    using at(1,2) nodigit f slow four body_fast(1) [OF cs' good_body_ok [OF good(1)], of True]
    by (cases f) (simp_all add: scan_reference_def scanned_def key_span_def)
qed

lemma key_conversion:
  assumes "good_format fmt" "cs = key_text body fmt"
  shows "perform_conversion True txt (span_of cs (key_span body fmt)) = Ok (None, Some (converted_text fmt txt))"
proof -
  have span: "span_of cs (key_span body fmt) = (if fmt = AsString then None else Some (format_text fmt))"
    by (simp add: assms(2) span_of_def key_span_def key_text_def numeral_3_eq_3)
  show ?thesis
    using assms(1) unfolding span
    by (cases fmt rule: format_text.cases)
      (auto simp: perform_conversion_def integer_letters_def number_styles_def length_Suc_conv)
qed

section \<open>Extracting the captures of a match\<close>

text \<open>The ranges with which the code extracts, for the captures of a match of the text.\<close>

definition ranges_of :: "RKRegex \<Rightarrow> nat list \<Rightarrow> (nat \<times> nat) option list \<Rightarrow> ns_range list \<Rightarrow> bool" where
  "ranges_of regex cps captures ranges \<longleftrightarrow>
     length captures = unat (captureCount regex) \<and> list_all (capture_ok cps) captures \<and>
     length captures \<le> length ranges \<and> (\<forall>k < length captures. ranges ! k = capture_range8 cps (captures ! k))"

definition regex_names :: "RKRegex \<Rightarrow> (nat \<times> byte list) list \<Rightarrow> bool" where
  "regex_names regex entries \<longleftrightarrow>
     names_table regex entries \<and> distinct (map snd entries) \<and> unique_names regex \<and> list_all (\<lambda>(i, nm). i < 128) entries \<and>
     unat (captureCount regex) \<le> 170"

lemma extract_flag_simps:
  "parse_flag (extract_flags extract_options) RKParseReferenceConversionAllowed = True"
  "parse_flag (extract_flags extract_options) RKParseReferenceIgnoreConversion = False"
  "parse_flag (extract_flags extract_options) RKParseReferenceStrictReference = True"
  "parse_flag (extract_flags extract_options) RKParseReferencePerformConversion = True"
  "parse_flag (extract_flags extract_options) RKParseReferenceCheckCaptureName = True"
  by (simp_all add: parse_flag_def extract_flags_def extract_options_def RKCaptureExtractAllowConversions_def
      RKCaptureExtractStrictReference_def RKCaptureExtractIgnoreConversions_def RKParseReferenceConversionAllowed_def
      RKParseReferenceIgnoreConversion_def RKParseReferenceStrictReference_def
      RKParseReferencePerformConversion_def RKParseReferenceCheckCaptureName_def)

lemma key_index:
  assumes names: "regex_names regex entries" and body: "good_body body" "body_index entries body = (None, of_nat k)"
    and k: "k < unat (captureCount regex)" and cs: "cs = key_text body fmt" "good_format fmt"
  shows "resolve_name regex cs (scanned (length cs) 2 (length (body_text body) + 2) (body_number body) (key_span body fmt))
      True True = Ok (None, of_nat k)"
proof -
  let ?sc = "scanned (length cs) 2 (length (body_text body) + 2) (body_number body) (key_span body fmt)"
  have text_at: "take (length (body_text body)) (drop 2 cs) = body_text body" by (simp add: cs key_text_def)
  have good: "good_scan cs None ?sc"
    using body_chars [OF good_body_ok [OF body(1)]] text_at
    by (auto simp: good_scan_def scanned_def key_span_def list_all_iff cs(1) key_text_def)
  have "named_index entries cs ?sc = (None, of_nat k)"
  proof (cases body)
    case (Number ds)
    then have "(of_nat (digits_value 10 0 ds) :: u64) \<noteq> NSNotFound"
      using body(1) by (simp add: NSNotFound_def RKIntegerMax_def word_unat_eq_iff unat_of_nat)
    then show ?thesis using body Number good_number [of ds] by (simp add: named_index_def scanned_def)
  next
    case (Name q)
    obtain i where i: "lookup_name entries q = Some i" "(of_nat i :: u64) = of_nat k"
      using body(2) Name by (auto split: option.splits)
    have small: "i < 128" using lookup_name_in [OF i(1)] names by (auto simp: list_all_iff regex_names_def)
    then have "reported_index i = of_nat i" "reported_index i \<noteq> NSNotFound"
      using reported_index_small [OF small] by (simp_all add: NSNotFound_def RKIntegerMax_def word_unat_eq_iff unat_of_nat)
    then show ?thesis using i Name text_at by (simp add: named_index_def scanned_def body_number_def)
  qed
  then show ?thesis using resolve_name_eq [OF _ _ _ good, of regex entries True] names by (simp add: regex_names_def)
qed

lemma extract_key_stores:
  assumes names: "regex_names regex entries" and ranges: "ranges_of regex cps captures ranges" and short: "short_text cps"
    and subject: "buffer_characters subject = utf8_of cps" "buffer_length subject = of_nat (utf8_width cps)"
    and key: "key_string regex entries str x"
  shows "\<exists>r. extract_key regex subject ranges extract_options (KeyArgument str) = Ok r \<and> parseError r = None \<and>
    conversion_stored r = (case captures ! ext_capture x of None \<Rightarrow> None
      | Some (s, e) \<Rightarrow> Some (converted_text (ext_format x) (utf8_of (chars_between cps s e))))"
proof -
  let ?k = "ext_capture x"
  obtain body b where body: "good_body body" "body_index entries body = (None, of_nat ?k)" "?k < unat (captureCount regex)"
      "good_format (ext_format x)" and b: "RKStringBufferWithString str = Ok b" "valid_buffer b"
      "buffer_characters b = key_text body (ext_format x)" "length (buffer_characters b) < 2147483648"
    using key by (auto simp: key_string_def)
  let ?cs = "key_text body (ext_format x)"
  let ?sc = "scanned (length ?cs) 2 (length (body_text body) + 2) (body_number body) (key_span body (ext_format x))"
  have len: "unat (buffer_length b) < 2147483648" "unat (buffer_length b) = length ?cs"
    using b by (simp_all add: valid_buffer_def)
  have scan: "scan_reference ?cs (buffer_length b) True False True = Ok (None, ?sc)"
    by (rule scan_key [OF refl body(1,4) len])
  have index: "resolve_name regex ?cs ?sc True True = Ok (None, of_nat ?k)"
    by (rule key_index [OF names body(1,2,3) refl body(4)])
  have k: "?k < 170" "unat (of_nat ?k :: u64) = ?k"
    using body(3) names by (simp_all add: regex_names_def unat_of_nat)
  then have small: "(of_nat ?k :: u64) \<noteq> NSNotFound" "\<not> captureCount regex \<le> of_nat ?k"
    using body(3) by (auto simp: NSNotFound_def RKIntegerMax_def word_unat_eq_iff word_le_nat_alt)
  have at: "capture_is ranges (of_nat ?k) = Ok (capture_range8 cps (captures ! ?k))" "capture_ok cps (captures ! ?k)"
    using ranges body(3) k(2) by (auto simp: ranges_of_def capture_is_def list_all_length)
  let ?stored = "case captures ! ?k of None \<Rightarrow> None
      | Some (s, e) \<Rightarrow> Some (converted_text (ext_format x) (utf8_of (chars_between cps s e)))"
  have resolved: "resolve_reference regex ?cs ?sc (Some subject) (Some ranges) True True True = Ok (None, of_nat ?k, ?stored)"
  proof (cases "captures ! ?k")
    case None
    then show ?thesis
      using index small at by (simp add: resolve_reference_def capture_range8_def range_not_found_def)
  next
    case (Some q)
    obtain s e where q: "q = (s, e)" by (cases q)
    have se: "s \<le> e" "e \<le> length cps" using at(2) Some q by (simp_all add: capture_ok_def)
    note parts = range8_parts [OF short se]
    have w: "w8 cps e \<le> utf8_width cps" using w8_mono [OF se(2) order_refl] by (simp add: w8_full)
    have guard: "range_location (range8 cps s e) \<noteq> NSNotFound" "NSMaxRange (range8 cps s e) \<le> buffer_length subject"
      using w w8_mono [OF se] short parts(1,2,4) subject(2)
      by (auto simp: short_text_def NSNotFound_def RKIntegerMax_def word_unat_eq_iff word_le_nat_alt unat_of_nat)
    have bytes: "take (unat (range_length (range8 cps s e))) (drop (unat (range_location (range8 cps s e))) (buffer_characters subject)) =
        utf8_of (chars_between cps s e)"
      using utf8_between [OF se] parts(2,3) by (simp add: subject(1) bytes_between_def)
    have span: "conversion_span ?sc = key_span body (ext_format x)" by (simp add: scanned_def)
    show ?thesis
      using index small at(1) guard bytes key_conversion [OF body(4) refl] span
      by (simp add: resolve_reference_def capture_range8_def Some q)
  qed
  show ?thesis
    using scan resolved b(1,3)
    by (simp add: extract_key_def RKParseReference_def Let_def extract_flag_simps reference_result_of_def)
qed

lemma asks_for_Nil: "asks_for regex entries args [] \<Longrightarrow> \<exists>rest. args = NilArgument # rest"
  by (cases args; cases "hd args") auto

lemma asks_for_Cons:
  "asks_for regex entries args (x # xs) \<Longrightarrow> \<exists>k rest. args = KeyArgument k # PointerArgument (ext_pointer x) # rest \<and>
     key_string regex entries k x \<and> asks_for regex entries rest xs"
  by (cases "(regex, entries, args, x # xs)" rule: asks_for.cases) auto

lemma extract_loop_stores:
  assumes names: "regex_names regex entries" and ranges: "ranges_of regex cps captures ranges" and short: "short_text cps"
    and subject: "buffer_characters subject = utf8_of cps" "buffer_length subject = of_nat (utf8_width cps)"
  shows "asks_for regex entries args xs \<Longrightarrow>
    \<exists>pairs. count_while args = Ok (2 * length xs) \<and> collect_pairs None args (length xs) = Ok pairs \<and>
      extract_loop regex subject ranges extract_options pairs slots = (Ok None, extracted cps captures xs slots)"
proof (induction xs arbitrary: args slots)
  case Nil
  then show ?case using asks_for_Nil by (fastforce simp: extracted_def)
next
  case (Cons x xs)
  obtain k rest where args: "args = KeyArgument k # PointerArgument (ext_pointer x) # rest"
      "key_string regex entries k x" "asks_for regex entries rest xs"
    using asks_for_Cons [OF Cons.prems] by blast
  obtain r where r: "extract_key regex subject ranges extract_options (KeyArgument k) = Ok r" "parseError r = None"
      "conversion_stored r = (case captures ! ext_capture x of None \<Rightarrow> None
        | Some (s, e) \<Rightarrow> Some (converted_text (ext_format x) (utf8_of (chars_between cps s e))))"
    using extract_key_stores [OF names ranges short subject args(2)] by blast
  have stored: "store (PointerArgument (ext_pointer x)) (conversion_stored r) slots = Ok (store_capture cps captures x slots)"
    by (simp add: store_def r(3) store_capture_def split: option.split)
  obtain pairs where pairs: "count_while rest = Ok (2 * length xs)" "collect_pairs None rest (length xs) = Ok pairs"
      "extract_loop regex subject ranges extract_options pairs (store_capture cps captures x slots) =
        (Ok None, extracted cps captures xs (store_capture cps captures x slots))"
    using Cons.IH [OF args(3)] by blast
  show ?case using args pairs r(1,2) stored by (simp add: extracted_def)
qed

lemma collect_first: "collect_pairs (Some k) rest n = collect_pairs None (k # rest) n"
  by (cases n; cases rest) auto

text \<open>The whole extraction, with the first key before the list or in it.\<close>

lemma extraction_stores:
  assumes names: "regex_names regex entries" and ranges: "ranges_of regex cps captures ranges" and short: "short_text cps"
    and subject: "buffer_characters subject = utf8_of cps" "buffer_length subject = of_nat (utf8_width cps)"
    and args: "asks_for regex entries (case firstKey of None \<Rightarrow> args | Some k \<Rightarrow> k # args) xs"
  shows "RKExtractCapturesFromMatchesWithKeyArgumentsX regex subject ranges extract_options firstKey args slots =
    (Ok (True, None), extracted cps captures xs slots)"
proof -
  obtain pairs where pairs: "count_while (case firstKey of None \<Rightarrow> args | Some k \<Rightarrow> k # args) = Ok (2 * length xs)"
      "collect_pairs None (case firstKey of None \<Rightarrow> args | Some k \<Rightarrow> k # args) (length xs) = Ok pairs"
      "extract_loop regex subject ranges extract_options pairs slots = (Ok None, extracted cps captures xs slots)"
    using extract_loop_stores [OF names ranges short subject args] by blast
  moreover have "collect_pairs firstKey args (length xs) = Ok pairs"
    using pairs(2) by (cases firstKey) (simp_all add: collect_first)
  moreover have "count_arguments firstKey args = Ok (2 * length xs)"
    using pairs(1) by (cases firstKey) (simp_all add: count_arguments_def)
  ultimately show ?thesis
    by (simp add: RKExtractCapturesFromMatchesWithKeyArgumentsX_def
        RKExtractCapturesFromMatchesWithKeysAndPointers_def)
qed

section \<open>The methods keep what is documented\<close>

text \<open>The library reports no error for a search from a character on: a match, or that there is none.\<close>

definition no_library_error :: "pcre_exec \<Rightarrow> RKRegex \<Rightarrow> nat list \<Rightarrow> nat \<Rightarrow> bool" where
  "no_library_error exec regex cps i \<longleftrightarrow>
     - 1 \<le> fst (exec (compiledPCRE regex) (utf8_of cps) (ucast (of_nat (utf8_width cps) :: u64))
       (ucast (of_nat (w8 cps i) :: u64)) RKMatchNoUTF8Check (ucast (RK_PRESIZE_CAPTURE_COUNT (captureCount regex))))"

lemma getRanges_count_error:
  "getRanges_count exec regex (Some mem) n (Some chars) len r opts = Ok (code, mem', err) \<Longrightarrow>
     - 1 \<le> fst (exec (compiledPCRE regex) chars (ucast len) (ucast (range_location r)) opts (ucast n)) \<Longrightarrow> err = None"
  by (auto simp: getRanges_count_def Let_def run_simps split: if_splits prod.splits)

lemma match_ranges:
  assumes regex: "pcre_exec_documented exec regex" "unat (captureCount regex) \<le> 170" "0 < captureCount regex"
    and short: "short_text cps" and ij: "i \<le> j" "j \<le> length cps" and m: "reports_text exec regex cps i j m"
    and quiet: "no_library_error exec regex cps i"
  shows "\<exists>code mem. getRanges_count exec regex (Some (stack_ranges junk (RK_PRESIZE_CAPTURE_COUNT (captureCount regex))))
      (RK_PRESIZE_CAPTURE_COUNT (captureCount regex)) (Some (utf8_of cps)) (of_nat (utf8_width cps)) (range8 cps i j)
      RKMatchNoUTF8Check = Ok (code, mem, None) \<and>
    (case m of None \<Rightarrow> code < 0
     | Some (n, captures) \<Rightarrow> 0 < code \<and>
         ranges_of regex cps captures (map (get_range mem) [0..<unat (RK_PRESIZE_CAPTURE_COUNT (captureCount regex))]))"
proof -
  have valid: "search_valid (of_nat (utf8_width cps)) (range8 cps i j)"
    using text_range_valid [OF _ ij] short by (simp add: short_text_def)
  obtain code mem err where run: "private_match exec junk regex (Some (utf8_of cps)) (of_nat (utf8_width cps)) (range8 cps i j)
        RKMatchNoUTF8Check = Ok (code, mem, err)"
    and lib: "case map_option (\<lambda>(n, captures). (n, map (capture_range8 cps) captures)) m of None \<Rightarrow> code < 0
      | Some (n, rs) \<Rightarrow> code = n \<and> map (get_range mem) [0..<unat (captureCount regex)] = rs"
    using private_match_library [OF regex valid, of junk "utf8_of cps" RKMatchNoUTF8Check] m
    by (auto simp: reports_text_def split: option.splits)
  have "err = None"
    using getRanges_count_error [OF run [unfolded private_match_def]] quiet by (simp add: no_library_error_def range8_def)
  note run = run [unfolded this]
  have pre: "unat (captureCount regex) \<le> unat (RK_PRESIZE_CAPTURE_COUNT (captureCount regex))"
    using presize_ge_minimum(3) [of "captureCount regex"] regex(2) by auto
  show ?thesis
  proof (cases m)
    case (Some q)
    obtain n captures where q: "q = (n, captures)" by (cases q)
    have pos: "0 < n" using library_match_length m Some q by (fastforce simp: reports_text_def)
    have eq: "map (get_range mem) [0..<unat (captureCount regex)] = map (capture_range8 cps) captures"
      using lib Some q by simp
    then have n: "length captures = unat (captureCount regex)" by (metis length_map length_upt diff_zero)
    have "get_range mem k = capture_range8 cps (captures ! k)" if "k < length captures" for k
      using arg_cong [OF eq, of "\<lambda>l. l ! k"] that n by simp
    moreover have "list_all (capture_ok cps) captures" using m Some q by (simp add: reports_text_def)
    ultimately show ?thesis
      using run lib pos n pre Some q by (simp add: private_match_def ranges_of_def)
  qed (use run lib in \<open>simp add: private_match_def\<close>)
qed

lemma match_and_extract:
  assumes held: "string_text self cps"
    and regex: "pcre_exec_documented exec regex" "0 < captureCount regex" and names: "regex_names regex entries"
    and ij: "i \<le> j" "j \<le> length cps" and m: "reports_text exec regex cps i j m" "no_library_error exec regex cps i"
    and sp: "\<And>b. RKStringBufferWithString self = Ok b \<Longrightarrow> search_range_of self b sp = Ok (range8 cps i j)"
    and args: "asks_for regex entries (case firstKey of None \<Rightarrow> args | Some k \<Rightarrow> k # args) xs"
  shows "RKMatchAndExtractCaptureReferencesX exec junk (Ok (Some regex, None)) self sp RKMatchNoUTF8Check extract_options
      firstKey args slots =
    (case m of None \<Rightarrow> (Ok (False, None), slots) | Some (n, captures) \<Rightarrow> (Ok (True, None), extracted cps captures xs slots))"
proof -
  obtain b where b: "RKStringBufferWithString self = Ok b" "buffer_characters b = utf8_of cps"
    "buffer_length b = of_nat (utf8_width cps)" and small: "utf8_width cps \<le> 2147483647"
    by (rule string_text_buffer [OF held])
  have short: "short_text cps" and count: "unat (captureCount regex) \<le> 170"
    using small names by (simp_all add: short_text_def regex_names_def)
  let ?n = "RK_PRESIZE_CAPTURE_COUNT (captureCount regex)"
  obtain code mem where run: "getRanges_count exec regex (Some (stack_ranges junk ?n)) ?n (Some (buffer_characters b))
      (buffer_length b) (range8 cps i j) RKMatchNoUTF8Check = Ok (code, mem, None)"
    and found: "case m of None \<Rightarrow> code < 0
      | Some (n, captures) \<Rightarrow> 0 < code \<and> ranges_of regex cps captures (map (get_range mem) [0..<unat ?n])"
    using match_ranges [OF regex(1) count regex(2) short ij m, of junk] unfolding b(2,3) by blast
  show ?thesis
  proof (cases m)
    case None
    then show ?thesis
      using run found b(1) sp [OF b(1)] by (simp add: RKMatchAndExtractCaptureReferencesX_def Let_def)
  next
    case (Some q)
    obtain n captures where q: "q = (n, captures)" by (cases q)
    have "ranges_of regex cps captures (map (get_range mem) [0..<unat ?n])" "\<not> code \<le> 0" using found Some q by auto
    then show ?thesis
      using run b(1) sp [OF b(1)] extraction_stores [OF names _ short b(2,3) args] Some q
      by (simp add: RKMatchAndExtractCaptureReferencesX_def Let_def)
  qed
qed

text \<open>The parts of the string that the methods search.\<close>

lemma whole_string_span:
  "string_text self cps \<Longrightarrow> RKStringBufferWithString self = Ok b \<Longrightarrow>
     search_range_of self b WholeString = Ok (range8 cps 0 (length cps))"
  by (erule string_text_buffer) (simp add: search_range_of_def full_range)

lemma in_range_span:
  "string_text self cps \<Longrightarrow> i \<le> j \<Longrightarrow> j \<le> length cps \<Longrightarrow>
     search_range_of self b (InRange (range16 cps i j)) = Ok (range8 cps i j)"
  by (simp add: search_range_of_def string_ranges_convert)

text \<open>
  What is assumed of a call of a method: the text of the receiver, a library that keeps its documentation, the
  names of the regex, and what the library finds in the characters \<open>i\<close> up to \<open>j\<close>.
\<close>

definition extract_call ::
  "pcre_exec \<Rightarrow> RKRegex \<Rightarrow> (nat \<times> byte list) list \<Rightarrow> ns_string \<Rightarrow> nat list \<Rightarrow> nat \<Rightarrow> nat \<Rightarrow> text_match \<Rightarrow> bool" where
  "extract_call exec regex entries self cps i j m \<longleftrightarrow>
     string_text self cps \<and> pcre_exec_documented exec regex \<and> 0 < captureCount regex \<and> regex_names regex entries \<and>
     i \<le> j \<and> j \<le> length cps \<and> reports_text exec regex cps i j m \<and> no_library_error exec regex cps i"

lemma string_extraction:
  assumes whole: "extract_call exec regex entries self cps 0 (length cps) m"
    and part: "extract_call exec regex entries self cps i j m'"
    and args: "asks_for regex entries (firstKey # args) xs"
  shows "getCapturesWithRegexAndReferences_contract cps m xs slots
      (getCapturesWithRegexAndReferences exec junk (Ok (Some regex, None)) self (firstKey # args) slots)"
    and "getCapturesWithRegex_inRange_references_contract cps m' xs slots
      (getCapturesWithRegex_inRange_references exec junk (Ok (Some regex, None)) self (range16 cps i j) (Some firstKey) args slots)"
    and "getCapturesWithRegex_inRange_arguments exec junk (Ok (Some regex, None)) self (range16 cps i j) (firstKey # args) slots =
      getCapturesWithRegex_inRange_references exec junk (Ok (Some regex, None)) self (range16 cps i j) (Some firstKey) args slots"
    and "getCapturesWithRegex_inRange_error_references exec junk (Ok (Some regex, None)) self (range16 cps i j) (Some firstKey)
        args slots =
      (case m' of None \<Rightarrow> (Ok (False, None), slots) | Some (n, captures) \<Rightarrow> (Ok (True, None), extracted cps captures xs slots))"
    and "getCapturesWithRegex_inRange_error_arguments exec junk (Ok (Some regex, None)) self (range16 cps i j)
        (firstKey # args) slots =
      getCapturesWithRegex_inRange_error_references exec junk (Ok (Some regex, None)) self (range16 cps i j) (Some firstKey)
        args slots"
proof -
  have list: "asks_for regex entries (case None of None \<Rightarrow> firstKey # args | Some k \<Rightarrow> k # firstKey # args) xs"
    and first: "asks_for regex entries (case Some firstKey of None \<Rightarrow> args | Some k \<Rightarrow> k # args) xs"
    using args by simp_all
  note w = whole [unfolded extract_call_def] and p = part [unfolded extract_call_def]
  have x0: "RKMatchAndExtractCaptureReferencesX exec junk (Ok (Some regex, None)) self WholeString RKMatchNoUTF8Check
      extract_options None (firstKey # args) slots =
    (case m of None \<Rightarrow> (Ok (False, None), slots) | Some (n, captures) \<Rightarrow> (Ok (True, None), extracted cps captures xs slots))"
    by (rule match_and_extract [OF _ _ _ _ _ _ _ _ whole_string_span list]) (use w in auto)
  have x1: "RKMatchAndExtractCaptureReferencesX exec junk (Ok (Some regex, None)) self (InRange (range16 cps i j))
      RKMatchNoUTF8Check extract_options None (firstKey # args) slots =
    (case m' of None \<Rightarrow> (Ok (False, None), slots) | Some (n, captures) \<Rightarrow> (Ok (True, None), extracted cps captures xs slots))"
    by (rule match_and_extract [OF _ _ _ _ _ _ _ _ in_range_span list]) (use p in auto)
  have x2: "RKMatchAndExtractCaptureReferencesX exec junk (Ok (Some regex, None)) self (InRange (range16 cps i j))
      RKMatchNoUTF8Check extract_options (Some firstKey) args slots =
    (case m' of None \<Rightarrow> (Ok (False, None), slots) | Some (n, captures) \<Rightarrow> (Ok (True, None), extracted cps captures xs slots))"
    by (rule match_and_extract [OF _ _ _ _ _ _ _ _ in_range_span first]) (use p in auto)
  show "getCapturesWithRegexAndReferences_contract cps m xs slots
      (getCapturesWithRegexAndReferences exec junk (Ok (Some regex, None)) self (firstKey # args) slots)"
    using extracted_documented [OF asked_formats [OF args]]
    by (simp add: getCapturesWithRegexAndReferences_contract_def getCapturesWithRegexAndReferences_def x0
        RKMatchAndExtractCaptureReferences_def split: option.split)
  show "getCapturesWithRegex_inRange_references_contract cps m' xs slots
      (getCapturesWithRegex_inRange_references exec junk (Ok (Some regex, None)) self (range16 cps i j) (Some firstKey) args slots)"
    using extracted_documented [OF asked_formats [OF args]]
    by (simp add: getCapturesWithRegex_inRange_references_contract_def getCapturesWithRegex_inRange_references_def x2
        RKMatchAndExtractCaptureReferences_def split: option.split)
  show "getCapturesWithRegex_inRange_arguments exec junk (Ok (Some regex, None)) self (range16 cps i j) (firstKey # args) slots =
      getCapturesWithRegex_inRange_references exec junk (Ok (Some regex, None)) self (range16 cps i j) (Some firstKey) args slots"
    by (simp add: getCapturesWithRegex_inRange_arguments_def getCapturesWithRegex_inRange_references_def x1 x2)
  show "getCapturesWithRegex_inRange_error_references exec junk (Ok (Some regex, None)) self (range16 cps i j) (Some firstKey)
        args slots =
      (case m' of None \<Rightarrow> (Ok (False, None), slots) | Some (n, captures) \<Rightarrow> (Ok (True, None), extracted cps captures xs slots))"
    by (simp add: getCapturesWithRegex_inRange_error_references_def x2)
  show "getCapturesWithRegex_inRange_error_arguments exec junk (Ok (Some regex, None)) self (range16 cps i j)
        (firstKey # args) slots =
      getCapturesWithRegex_inRange_error_references exec junk (Ok (Some regex, None)) self (range16 cps i j) (Some firstKey)
        args slots"
    by (simp add: getCapturesWithRegex_inRange_error_arguments_def getCapturesWithRegex_inRange_error_references_def x1 x2)
qed

text \<open>The methods of the enumerator.\<close>

lemma enumerator_extraction:
  assumes held: "string_text str cps" and names: "regex_names regex entries" and j: "j \<le> length cps"
    and s: "enumerates regex str cps i j e s" "\<And>p captures. s = At p captures \<Longrightarrow> list_all (capture_ok cps) captures"
    and args: "asks_for regex entries (firstKey # args) xs"
  shows "getCapturesWithReferences_contract cps s xs slots (getCapturesWithReferences e (Some firstKey) args slots)"
proof -
  obtain b where b: "RKStringBufferWithString str = Ok b" "buffer_characters b = utf8_of cps"
    "buffer_length b = of_nat (utf8_width cps)" and small: "utf8_width cps \<le> 2147483647"
    by (rule string_text_buffer [OF held])
  have short: "short_text cps" using small by (simp add: short_text_def)
  have first: "asks_for regex entries (case Some firstKey of None \<Rightarrow> args | Some k \<Rightarrow> k # args) xs" using args by simp
  show ?thesis
  proof (cases s)
    case (At p captures)
    then have e: "enum_string e = Some str" "enum_regex e = Some regex"
      "resultUTF8Ranges e = Some (map (capture_range8 cps) captures)" "length captures = unat (captureCount regex)"
      using s(1) by (auto simp: enumerates_def live_def)
    have "ranges_of regex cps captures (map (capture_range8 cps) captures)"
      using e(4) s(2) [OF At] by (simp add: ranges_of_def)
    note stores = extraction_stores [OF names this short b(2,3) first]
    have "atBufferLocation e \<noteq> NSNotFound"
      using s(1) At live_not_exhausted [OF _ held j, of regex i e p] by (simp add: enumerates_def)
    then show ?thesis
      using e b(1) stores At extracted_documented [OF asked_formats [OF args]]
      by (simp add: getCapturesWithReferences_contract_def getCapturesWithReferences_def
          RKExtractCapturesFromMatchesWithKeyArguments_def)
  qed (use s(1) in \<open>auto simp: getCapturesWithReferences_contract_def getCapturesWithReferences_def enumerates_def\<close>)
qed

text \<open>With different pointers the order of the pairs does not matter.\<close>

lemma extracted_order:
  assumes "distinct (map ext_pointer xs)" "mset xs = mset ys"
  shows "extracted cps captures xs slots = extracted cps captures ys slots"
proof -
  have "store_capture cps captures x \<circ> store_capture cps captures y = store_capture cps captures y \<circ> store_capture cps captures x"
    if "x \<in> set xs" "y \<in> set xs" for x y
  proof (cases "ext_pointer x = ext_pointer y")
    case True
    then have "x = y" using assms(1) that by (simp add: distinct_map inj_on_def)
    then show ?thesis by simp
  qed (auto simp: fun_eq_iff store_capture_def fun_upd_def split: option.split)
  then have "fold (store_capture cps captures) xs = fold (store_capture cps captures) ys"
    by (rule fold_multiset_equiv) (use assms(2) in auto)
  then show ?thesis by (simp add: extracted_def)
qed

text \<open>The method with an error pointer and no range: without its first reference the arguments are an odd number.\<close>

lemma count_misaligned:
  "asks_for regex entries args xs \<Longrightarrow> \<exists>n. count_while (PointerArgument p # args) = Ok n \<and> odd n"
proof (induction xs arbitrary: args p)
  case Nil
  then show ?case using asks_for_Nil by fastforce
next
  case (Cons x xs)
  obtain k rest where args: "args = KeyArgument k # PointerArgument (ext_pointer x) # rest" "asks_for regex entries rest xs"
    using asks_for_Cons [OF Cons.prems] by blast
  then show ?case using Cons.IH [OF args(2), of "ext_pointer x"] by auto
qed

lemma misaligned_raises:
  assumes "extract_call exec regex entries self cps 0 (length cps) (Some (n, captures))"
    and "asks_for regex entries (firstKey # args) (x # xs)"
  shows "getCapturesWithRegex_error_references exec junk (Ok (Some regex, None)) self (Some firstKey) args slots =
    (Raise NSInvalidArgumentException, slots)"
proof -
  note call = assms(1) [unfolded extract_call_def]
  obtain b where b: "RKStringBufferWithString self = Ok b" "buffer_characters b = utf8_of cps"
    "buffer_length b = of_nat (utf8_width cps)" and small: "utf8_width cps \<le> 2147483647"
    using string_text_buffer call by metis
  have short: "short_text cps" and count: "unat (captureCount regex) \<le> 170"
    using small call by (simp_all add: short_text_def regex_names_def)
  obtain rest where args: "args = PointerArgument (ext_pointer x) # rest" "asks_for regex entries rest xs"
    using asks_for_Cons [OF assms(2)] by auto
  obtain c where c: "count_while args = Ok c" "odd c" using count_misaligned [OF args(2)] args(1) by blast
  have "\<exists>code mem. getRanges_count exec regex (Some (stack_ranges junk (RK_PRESIZE_CAPTURE_COUNT (captureCount regex))))
      (RK_PRESIZE_CAPTURE_COUNT (captureCount regex)) (Some (utf8_of cps)) (of_nat (utf8_width cps))
      (range8 cps 0 (length cps)) RKMatchNoUTF8Check = Ok (code, mem, None) \<and> 0 < code"
    using match_ranges [of exec regex cps 0 "length cps" "Some (n, captures)" junk] call count short by auto
  then show ?thesis
    using b c whole_string_span [of self cps b] call
    by (auto simp: getCapturesWithRegex_error_references_def RKMatchAndExtractCaptureReferencesX_def Let_def
        RKExtractCapturesFromMatchesWithKeyArgumentsX_def count_arguments_def)
qed

text \<open>What \<open>getCapturesWithRegexAndReferences:\<close> stores, for the comparison of two orders of the pairs.\<close>

lemma references_extracted:
  assumes "extract_call exec regex entries self cps 0 (length cps) m" "asks_for regex entries args xs"
  shows "getCapturesWithRegexAndReferences exec junk (Ok (Some regex, None)) self args slots =
    (case m of None \<Rightarrow> (Ok False, slots) | Some (n, captures) \<Rightarrow> (Ok True, extracted cps captures xs slots))"
proof -
  note w = assms(1) [unfolded extract_call_def]
  have list: "asks_for regex entries (case None of None \<Rightarrow> args | Some k \<Rightarrow> k # args) xs" using assms(2) by simp
  have "RKMatchAndExtractCaptureReferencesX exec junk (Ok (Some regex, None)) self WholeString RKMatchNoUTF8Check
      extract_options None args slots =
    (case m of None \<Rightarrow> (Ok (False, None), slots) | Some (n, captures) \<Rightarrow> (Ok (True, None), extracted cps captures xs slots))"
    by (rule match_and_extract [OF _ _ _ _ _ _ _ _ whole_string_span list]) (use w in auto)
  then show ?thesis
    by (simp add: getCapturesWithRegexAndReferences_def RKMatchAndExtractCaptureReferences_def split: option.split)
qed

lemma order_irrelevant:
  assumes "extract_call exec regex entries self cps 0 (length cps) m" "asks_for regex entries args xs"
    "asks_for regex entries args' ys" "distinct (map ext_pointer xs)" "mset ys = mset xs"
  shows "getCapturesWithRegexAndReferences exec junk (Ok (Some regex, None)) self args' slots =
    getCapturesWithRegexAndReferences exec junk (Ok (Some regex, None)) self args slots"
  using extracted_order [OF assms(4) assms(5) [symmetric]]
  by (simp add: references_extracted [OF assms(1,2)] references_extracted [OF assms(1,3)] split: option.split)


section \<open>Witnesses\<close>

definition utf8_string :: "byte list \<Rightarrow> ns_string" where
  "utf8_string cs = \<lparr>str_length = of_nat (length cs), str_fastest_encoding = EncodingOther, str_cstring_ptr = None,
     str_utf8 = Some cs\<rparr>"

text \<open>The keys \<open>${1}\<close> and \<open>${0:%d}\<close>.\<close>

definition sample_arguments :: "argument list" where
  "sample_arguments =
     [KeyArgument (utf8_string [0x24, 0x7b, 0x31, 0x7d]), PointerArgument 100,
      KeyArgument (utf8_string [0x24, 0x7b, 0x30, 0x3a, 0x25, 0x64, 0x7d]), PointerArgument 200, NilArgument]"

definition sample_extractions :: "extraction list" where
  "sample_extractions =
     [\<lparr>ext_capture = 1, ext_format = AsString, ext_pointer = 100\<rparr>,
      \<lparr>ext_capture = 0, ext_format = AsInteger 0x64, ext_pointer = 200\<rparr>]"

lemma sample_key:
  assumes "cs = key_text (reference_body.Number [d]) fmt" "d < 2" "good_format fmt" "list_all (\<lambda>c. c \<noteq> 0) cs" "length cs < 100"
  shows "key_string sample_regex [] (utf8_string cs) \<lparr>ext_capture = d, ext_format = fmt, ext_pointer = p\<rparr>"
proof -
  have "c_strlen cs = length cs" using assms(4) by (induction cs) auto
  then have b: "RKStringBufferWithString (utf8_string cs) =
      Ok (RKMakeStringBuffer (of_nat (length cs)) cs (of_nat (length cs)) EncodingUTF8)"
    by (simp add: RKStringBufferWithString_def utf8_string_def)
  show ?thesis
    unfolding key_string_def
    by (intro exI [of _ "reference_body.Number [d]"] exI [of _ "RKMakeStringBuffer (of_nat (length cs)) cs (of_nat (length cs)) EncodingUTF8"]
        conjI b)
      (use assms in \<open>auto simp: valid_buffer_def RKMakeStringBuffer_def sample_regex_def unat_of_nat\<close>)
qed

lemma sample_asks: "asks_for sample_regex [] sample_arguments sample_extractions"
proof -
  have "key_string sample_regex [] (utf8_string [0x24, 0x7b, 0x31, 0x7d]) \<lparr>ext_capture = 1, ext_format = AsString, ext_pointer = 100\<rparr>"
    by (rule sample_key) (simp_all add: key_text_def digit_char_def)
  moreover have "key_string sample_regex [] (utf8_string [0x24, 0x7b, 0x30, 0x3a, 0x25, 0x64, 0x7d])
      \<lparr>ext_capture = 0, ext_format = AsInteger 0x64, ext_pointer = 200\<rparr>"
    by (rule sample_key) (simp_all add: key_text_def digit_char_def integer_letters_def)
  ultimately show ?thesis by (simp add: sample_arguments_def sample_extractions_def)
qed

lemma sample_call:
  "extract_call text_exec sample_regex [] sample_string sample_text 0 (length sample_text) (Some (2, [Some (1, 3), Some (2, 3)]))"
  using sample_string_text text_exec_documented sample_reports(1)
  by (simp add: extract_call_def regex_names_def names_table_def unique_names_def no_library_error_def text_exec_def
      sample_regex_def)

lemma sample_first: "sample_arguments \<noteq> []" "sample_extractions \<noteq> []"
  by (simp_all add: sample_arguments_def sample_extractions_def)

lemma sample_asks_first: "asks_for sample_regex [] (hd sample_arguments # tl sample_arguments) (hd sample_extractions # tl sample_extractions)"
  using sample_asks by (simp add: sample_first)


end
