(* ===== verification/RK_Lock.thy ===== *)
theory RK_Lock
  imports RK_Prelude
begin

text \<open>
  The mutex functions and \<open>RKLock\<close> of \<open>RKLock.m\<close>. While the program has one thread the lock is a bypass: nothing is
  locked. That is sound only if the program does not become multithreaded while the lock is owned, as the file says
  at its top; both the soundness and the need for the condition are proved here, over every interleaving of threads.
\<close>

section \<open>POSIX threads\<close>

datatype pthread_code = Success | EAGAIN | EBUSY | EINVAL | EDEADLK | ENOMEM | EPERM | ETIMEDOUT | OtherError int

text \<open>
  The operations on a mutex, with its state; threads are numbers. \<open>mutex_lock\<close> is \<open>None\<close> while the call waits.
\<close>

record 'm mutex_ops =
  mutex_holder :: "'m \<Rightarrow> nat option"
  mutex_lock :: "nat \<Rightarrow> 'm \<Rightarrow> (pthread_code \<times> 'm) option"
  mutex_trylock :: "nat \<Rightarrow> 'm \<Rightarrow> pthread_code \<times> 'm"
  mutex_unlock :: "nat \<Rightarrow> 'm \<Rightarrow> pthread_code \<times> 'm"

text \<open>What POSIX documents of a mutex of type \<open>PTHREAD_MUTEX_ERRORCHECK\<close>.\<close>

definition mutex_documented :: "'m mutex_ops \<Rightarrow> bool" where
  "mutex_documented ops \<longleftrightarrow> (\<forall>t m.
     (case mutex_holder ops m of
        None \<Rightarrow> (\<exists>m'. mutex_lock ops t m = Some (Success, m') \<and> mutex_trylock ops t m = (Success, m') \<and> mutex_holder ops m' = Some t) \<and>
          mutex_unlock ops t m = (EPERM, m)
      | Some u \<Rightarrow> mutex_trylock ops t m = (EBUSY, m) \<and>
          (if u = t then mutex_lock ops t m = Some (EDEADLK, m) \<and> (\<exists>m'. mutex_unlock ops t m = (Success, m') \<and> mutex_holder ops m' = None)
           else mutex_lock ops t m = None \<and> mutex_unlock ops t m = (EPERM, m))))"

lemma mutex_free:
  "mutex_documented ops \<Longrightarrow> mutex_holder ops m = None \<Longrightarrow>
     \<exists>m'. mutex_lock ops t m = Some (Success, m') \<and> mutex_trylock ops t m = (Success, m') \<and> mutex_holder ops m' = Some t"
  "mutex_documented ops \<Longrightarrow> mutex_holder ops m = None \<Longrightarrow> mutex_unlock ops t m = (EPERM, m)"
  by (auto simp: mutex_documented_def split: option.splits dest!: spec [of _ t] spec [of _ m])

lemma mutex_own:
  "mutex_documented ops \<Longrightarrow> mutex_holder ops m = Some t \<Longrightarrow> mutex_lock ops t m = Some (EDEADLK, m)"
  "mutex_documented ops \<Longrightarrow> mutex_holder ops m = Some t \<Longrightarrow> \<exists>m'. mutex_unlock ops t m = (Success, m') \<and> mutex_holder ops m' = None"
  by (auto simp: mutex_documented_def split: option.splits dest!: spec [of _ t] spec [of _ m])

lemma mutex_other:
  "mutex_documented ops \<Longrightarrow> mutex_holder ops m = Some u \<Longrightarrow> mutex_trylock ops t m = (EBUSY, m)"
  "mutex_documented ops \<Longrightarrow> mutex_holder ops m = Some u \<Longrightarrow> u \<noteq> t \<Longrightarrow> mutex_lock ops t m = None"
  "mutex_documented ops \<Longrightarrow> mutex_holder ops m = Some u \<Longrightarrow> u \<noteq> t \<Longrightarrow> mutex_unlock ops t m = (EPERM, m)"
  by (auto simp: mutex_documented_def split: option.splits dest!: spec [of _ t] spec [of _ m])

section \<open>The mutex functions\<close>

datatype RKMutexLockStrategy = RKMutexTryLazyLock | RKMutexTryFullLock | RKMutexLazyLock | RKMutexFullLock

definition mutex_strategy_value :: "RKMutexLockStrategy \<Rightarrow> int" where
  "mutex_strategy_value s =
     (case s of RKMutexTryLazyLock \<Rightarrow> 0 | RKMutexTryFullLock \<Rightarrow> 1 | RKMutexLazyLock \<Rightarrow> 2 | RKMutexFullLock \<Rightarrow> 3)"

text \<open>A mutex together with the global variable of the file; \<open>isMultiThreaded\<close> below is the answer of \<open>NSThread\<close>.\<close>

record 'm lock_state =
  the_mutex :: 'm
  globalIsMultiThreaded :: bool

text \<open>Codes that are not listed leave \<open>didLock\<close> at \<open>NO\<close>. \<open>None\<close>: the thread waits for the mutex.\<close>

definition RKFastMutexLock ::
  "'m mutex_ops \<Rightarrow> bool \<Rightarrow> RKMutexLockStrategy \<Rightarrow> nat \<Rightarrow> 'm lock_state \<Rightarrow> (bool run \<times> 'm lock_state) option" where
  "RKFastMutexLock ops isMultiThreaded strategy t st =
     (let lazyLock = strategy = RKMutexTryLazyLock \<or> strategy = RKMutexLazyLock;
          tryLock = strategy = RKMutexTryLazyLock \<or> strategy = RKMutexTryFullLock
      in if \<not> globalIsMultiThreaded st \<and> lazyLock \<and> \<not> isMultiThreaded then Some (Ok True, st)
         else
           let st' = (if \<not> globalIsMultiThreaded st \<and> lazyLock then st\<lparr>globalIsMultiThreaded := True\<rparr> else st)
           in map_option (\<lambda>(code, m).
                (case code of Success \<Rightarrow> Ok True | EINVAL \<Rightarrow> Raise RKLockingException | EDEADLK \<Rightarrow> Raise RKLockingException
                 | _ \<Rightarrow> Ok False, st'\<lparr>the_mutex := m\<rparr>))
              (if tryLock then Some (mutex_trylock ops t (the_mutex st')) else mutex_lock ops t (the_mutex st')))"

definition RKFastMutexUnlock :: "'m mutex_ops \<Rightarrow> nat \<Rightarrow> 'm lock_state \<Rightarrow> unit run \<times> 'm lock_state" where
  "RKFastMutexUnlock ops t st =
     (let (code, m) = mutex_unlock ops t (the_mutex st)
      in (case code of EINVAL \<Rightarrow> Raise RKLockingException | EPERM \<Rightarrow> Raise RKLockingException | _ \<Rightarrow> Ok (),
          st\<lparr>the_mutex := m\<rparr>))"

section \<open>The lock object\<close>

definition RKFastLock :: "'m mutex_ops \<Rightarrow> bool \<Rightarrow> nat \<Rightarrow> 'm lock_state \<Rightarrow> (bool run \<times> 'm lock_state) option" where
  "RKFastLock ops isMultiThreaded t st =
     (if \<not> globalIsMultiThreaded st \<and> \<not> isMultiThreaded then Some (Ok True, st)
      else RKFastMutexLock ops isMultiThreaded RKMutexFullLock t (st\<lparr>globalIsMultiThreaded := True\<rparr>))"

definition RKFastUnlock :: "'m mutex_ops \<Rightarrow> nat \<Rightarrow> 'm lock_state \<Rightarrow> unit run \<times> 'm lock_state" where
  "RKFastUnlock ops t st = (if globalIsMultiThreaded st then RKFastMutexUnlock ops t st else (Ok (), st))"

definition setMultithreaded :: "bool \<Rightarrow> 'm lock_state \<Rightarrow> 'm lock_state" where
  "setMultithreaded enable st = (if enable then st\<lparr>globalIsMultiThreaded := True\<rparr> else st)"

text \<open>
  The loops around \<open>pthread_mutex_init\<close> and its like: one code is tried again, up to a limit, some make the object
  give up, and any other code is tried again without a limit. \<open>codes i\<close> is the answer to the attempt \<open>i\<close>; the result
  is whether it succeeded, \<open>None\<close> that the loop does not end.
\<close>

partial_function (option) attempts ::
  "pthread_code \<Rightarrow> nat \<Rightarrow> pthread_code list \<Rightarrow> (nat \<Rightarrow> pthread_code) \<Rightarrow> nat \<Rightarrow> nat \<Rightarrow> bool option" where
  "attempts again limit fatal codes i tries =
     (if codes i = Success then Some True
      else if codes i = again
      then (if limit < tries + 1 then Some False else attempts again limit fatal codes (i + 1) (tries + 1))
      else if codes i \<in> set fatal then Some False
      else attempts again limit fatal codes (i + 1) tries)"

text \<open>\<open>init\<close> of \<open>RKLock\<close>: the codes of the two calls for the attributes, then the loop. The answer is whether there is an object.\<close>

definition RKLock_init :: "pthread_code \<Rightarrow> pthread_code \<Rightarrow> (nat \<Rightarrow> pthread_code) \<Rightarrow> bool option" where
  "RKLock_init attrInit attrSettype codes =
     (if attrInit \<noteq> Success \<or> attrSettype \<noteq> Success then Some False
      else attempts EAGAIN 5 [EINVAL, EDEADLK, ENOMEM] codes 0 0)"

definition releaseRKLockResources :: "(nat \<Rightarrow> pthread_code) \<Rightarrow> bool option" where
  "releaseRKLockResources codes = attempts EBUSY 100 [EINVAL] codes 0 0"

lemma attempts_returns:
  assumes "\<And>j. codes j = Success \<or> codes j = again \<or> codes j \<in> set fatal" "tries \<le> limit"
  shows "\<exists>r. attempts again limit fatal codes i tries = Some r"
  using assms(2)
proof (induction "limit - tries" arbitrary: i tries)
  case 0
  then show ?case using assms(1) [of i] by (subst attempts.simps) auto
next
  case (Suc n)
  have "\<exists>r. attempts again limit fatal codes (i + 1) (tries + 1) = Some r"
    using Suc.hyps(2) by (intro Suc.hyps(1)) simp_all
  then show ?case using assms(1) [of i] by (subst attempts.simps) auto
qed

text \<open>A code that is neither tried again nor listed makes the loop go on as long as it is answered.\<close>

lemma attempts_listed:
  "attempts again limit fatal codes i tries = Some r \<Longrightarrow>
     \<exists>j. codes j = Success \<or> codes j = again \<or> codes j \<in> set fatal"
  by (erule attempts.raw_induct
      [of "\<lambda>again limit fatal codes i tries r. \<exists>j. codes j = Success \<or> codes j = again \<or> codes j \<in> set fatal", rotated])
    (auto split: if_splits)

lemma attempts_stuck:
  assumes "\<And>j. codes j = c" "c \<noteq> Success" "c \<noteq> again" "c \<notin> set fatal"
  shows "attempts again limit fatal codes i tries = None"
  using attempts_listed [of again limit fatal codes i tries] assms
  by (cases "attempts again limit fatal codes i tries") auto

section \<open>Threads that use a lock\<close>

text \<open>
  The state of a program with one lock: the lock, whether the program has become multithreaded, and the threads that
  own the lock: they were answered \<open>YES\<close> and have not unlocked it. While there is one thread it is thread 0. With
  \<open>disciplined\<close> the condition at the top of \<open>RKLock.m\<close> is kept: nothing switches to several threads while
  the lock is owned.
\<close>

record 'm lock_world =
  lock_of :: "'m lock_state"
  app_multithreaded :: bool
  owners :: "nat set"

inductive lock_step :: "'m mutex_ops \<Rightarrow> bool \<Rightarrow> 'm lock_world \<Rightarrow> 'm lock_world \<Rightarrow> bool" for ops disciplined where
  locks: "t \<notin> owners w \<Longrightarrow> app_multithreaded w \<or> t = 0 \<Longrightarrow>
     RKFastLock ops (app_multithreaded w) t (lock_of w) = Some (Ok True, st) \<Longrightarrow>
     lock_step ops disciplined w (w\<lparr>lock_of := st, owners := insert t (owners w)\<rparr>)"
| unlocks: "t \<in> owners w \<Longrightarrow> RKFastUnlock ops t (lock_of w) = (Ok (), st) \<Longrightarrow>
     lock_step ops disciplined w (w\<lparr>lock_of := st, owners := owners w - {t}\<rparr>)"
| starts_thread: "disciplined \<longrightarrow> owners w = {} \<Longrightarrow>
     lock_step ops disciplined w (w\<lparr>app_multithreaded := True\<rparr>)"
| sets_multithreaded: "disciplined \<longrightarrow> owners w = {} \<Longrightarrow>
     lock_step ops disciplined w (w\<lparr>lock_of := setMultithreaded True (lock_of w)\<rparr>)"
| other_lock: "app_multithreaded w \<Longrightarrow>
     lock_step ops disciplined w (w\<lparr>lock_of := (lock_of w)\<lparr>globalIsMultiThreaded := True\<rparr>\<rparr>)"

inductive lock_run :: "'m mutex_ops \<Rightarrow> bool \<Rightarrow> 'm lock_world \<Rightarrow> 'm lock_world \<Rightarrow> bool" for ops disciplined where
  run_start: "lock_run ops disciplined w w"
| run_step: "lock_run ops disciplined w w' \<Longrightarrow> lock_step ops disciplined w' w'' \<Longrightarrow> lock_run ops disciplined w w''"

inductive_cases lock_stepE: "lock_step ops disciplined w w'"

definition new_world :: "'m mutex_ops \<Rightarrow> 'm lock_world \<Rightarrow> bool" where
  "new_world ops w \<longleftrightarrow> mutex_holder ops (the_mutex (lock_of w)) = None \<and> owners w = {} \<and> \<not> app_multithreaded w \<and>
     \<not> globalIsMultiThreaded (lock_of w)"

definition world_ok :: "'m mutex_ops \<Rightarrow> 'm lock_world \<Rightarrow> bool" where
  "world_ok ops w \<longleftrightarrow>
     (if globalIsMultiThreaded (lock_of w) then owners w = set_option (mutex_holder ops (the_mutex (lock_of w)))
      else mutex_holder ops (the_mutex (lock_of w)) = None \<and> owners w \<subseteq> {0} \<and> (app_multithreaded w \<longrightarrow> owners w = {}))"

lemma RKFastLock_free:
  assumes "mutex_documented ops" "mutex_holder ops (the_mutex st) = None" "globalIsMultiThreaded st \<or> mt"
  shows "\<exists>m. RKFastLock ops mt t st = Some (Ok True, st\<lparr>globalIsMultiThreaded := True, the_mutex := m\<rparr>) \<and> mutex_holder ops m = Some t"
  using mutex_free(1) [OF assms(1,2), of t] assms(3)
  by (auto simp: RKFastLock_def RKFastMutexLock_def)

lemma RKFastLock_held:
  assumes "mutex_documented ops" "mutex_holder ops (the_mutex st) = Some u" "globalIsMultiThreaded st \<or> mt"
  shows "RKFastLock ops mt t st \<noteq> Some (Ok True, st')"
proof (cases "u = t")
  case True
  then show ?thesis using mutex_own(1) [OF assms(1)] assms(2,3) by (auto simp: RKFastLock_def RKFastMutexLock_def)
next
  case False
  then show ?thesis using mutex_other(2) [OF assms(1,2)] assms(3) by (auto simp: RKFastLock_def RKFastMutexLock_def)
qed

lemma RKFastUnlock_owner:
  assumes "mutex_documented ops" "world_ok ops w" "t \<in> owners w"
  shows "\<exists>st. RKFastUnlock ops t (lock_of w) = (Ok (), st) \<and> globalIsMultiThreaded st = globalIsMultiThreaded (lock_of w) \<and>
    mutex_holder ops (the_mutex st) = None"
proof (cases "globalIsMultiThreaded (lock_of w)")
  case True
  then have "mutex_holder ops (the_mutex (lock_of w)) = Some t" using assms(2,3) by (simp add: world_ok_def)
  then show ?thesis using mutex_own(2) [OF assms(1)] True by (fastforce simp: RKFastUnlock_def RKFastMutexUnlock_def)
next
  case False
  then show ?thesis using assms(2) by (simp add: RKFastUnlock_def world_ok_def)
qed

lemma lock_step_ok:
  assumes ops: "mutex_documented ops"
  shows "lock_step ops True w w' \<Longrightarrow> world_ok ops w \<Longrightarrow> world_ok ops w'"
proof (induction rule: lock_step.induct)
  case (locks t w st)
  show ?case
  proof (cases "globalIsMultiThreaded (lock_of w) \<or> app_multithreaded w")
    case True
    show ?thesis
    proof (cases "mutex_holder ops (the_mutex (lock_of w))")
      case None
      then have "owners w = {}" using locks True by (auto simp: world_ok_def split: if_splits)
      then show ?thesis using locks RKFastLock_free [OF ops None True, of t] by (auto simp: world_ok_def)
    next
      case (Some u)
      then show ?thesis using RKFastLock_held [OF ops Some True] locks by blast
    qed
  next
    case False
    then show ?thesis using locks by (auto simp: RKFastLock_def world_ok_def)
  qed
next
  case (unlocks t w st)
  then obtain st' where "RKFastUnlock ops t (lock_of w) = (Ok (), st')"
    "globalIsMultiThreaded st' = globalIsMultiThreaded (lock_of w)" "mutex_holder ops (the_mutex st') = None"
    using RKFastUnlock_owner [OF ops] by blast
  then show ?case using unlocks by (auto simp: world_ok_def elim: option.set_cases split: if_splits)
qed (auto simp: world_ok_def setMultithreaded_def split: if_splits)

lemma lock_run_ok:
  assumes "mutex_documented ops"
  shows "lock_run ops True w w' \<Longrightarrow> world_ok ops w \<Longrightarrow> world_ok ops w'"
  by (induction rule: lock_run.induct) (auto intro: lock_step_ok [OF assms])

lemma world_ok_owners:
  "world_ok ops w \<Longrightarrow> t \<in> owners w \<Longrightarrow> u \<in> owners w \<Longrightarrow> t = u"
  by (auto simp: world_ok_def split: if_splits elim!: option.set_cases)

text \<open>With the condition at the top of the file kept, and without it.\<close>

lemma owners_exclude:
  assumes "mutex_documented ops" "new_world ops w" "lock_run ops True w w'" "t \<in> owners w'"
  shows "owners w' = {t} \<and> (\<exists>st. RKFastUnlock ops t (lock_of w') = (Ok (), st))"
proof -
  have "world_ok ops w" using assms(2) by (simp add: world_ok_def new_world_def)
  then have ok: "world_ok ops w'" using lock_run_ok [OF assms(1,3)] by blast
  then show ?thesis using world_ok_owners [OF ok assms(4)] assms(4) RKFastUnlock_owner [OF assms(1) ok assms(4)] by blast
qed

lemma bypass_shares:
  assumes "mutex_documented ops" "new_world ops w"
  shows "\<exists>w'. lock_run ops False w w' \<and> owners w' = {0, 1} \<and>
    RKFastUnlock ops 0 (lock_of w') = (Raise RKLockingException, lock_of w')"
proof -
  let ?w1 = "w\<lparr>owners := {0}\<rparr>" and ?w2 = "w\<lparr>owners := {0}, app_multithreaded := True\<rparr>"
  have new: "mutex_holder ops (the_mutex (lock_of w)) = None" "owners w = {}" "\<not> app_multithreaded w"
    "\<not> globalIsMultiThreaded (lock_of w)"
    using assms(2) by (simp_all add: new_world_def)
  have "RKFastLock ops (app_multithreaded w) 0 (lock_of w) = Some (Ok True, lock_of w)"
    using new by (simp add: RKFastLock_def)
  from lock_step.locks [OF _ _ this, of False] have s1: "lock_step ops False w ?w1" using new by simp
  have s2: "lock_step ops False ?w1 ?w2" using lock_step.starts_thread [of False ?w1 ops] by simp
  obtain m where m: "RKFastLock ops True 1 (lock_of w) = Some (Ok True, (lock_of w)\<lparr>globalIsMultiThreaded := True, the_mutex := m\<rparr>)"
      "mutex_holder ops m = Some 1"
    using RKFastLock_free [OF assms(1) new(1), of True 1] by auto
  define w3 where "w3 = ?w2\<lparr>lock_of := (lock_of w)\<lparr>globalIsMultiThreaded := True, the_mutex := m\<rparr>, owners := {0, 1}\<rparr>"
  have s3: "lock_step ops False ?w2 w3"
    using lock_step.locks [of 1 ?w2 ops "(lock_of w)\<lparr>globalIsMultiThreaded := True, the_mutex := m\<rparr>" False] m(1)
    by (simp add: w3_def insert_commute)
  have "lock_run ops False w w3"
    by (rule run_step [OF run_step [OF run_step [OF run_start s1] s2] s3])
  moreover have "RKFastUnlock ops 0 (lock_of w3) = (Raise RKLockingException, lock_of w3)"
    using mutex_other(3) [OF assms(1) m(2), of 0] by (simp add: RKFastUnlock_def RKFastMutexUnlock_def w3_def)
  ultimately show ?thesis by (intro exI [of _ w3]) (simp add: w3_def)
qed

text \<open>
  C18. \<open>RKLock\<close> excludes: if the program does not become multithreaded while the lock is owned, then in every
  interleaving of threads that lock and unlock, with the bypass for a single thread and the switch to the mutex, at most
  one thread owns the lock, and its \<open>unlock\<close> never raises. The condition is needed: if the program becomes
  multithreaded while its only thread owns the lock, a second thread gets the lock as well, and \<open>unlock\<close> of the
  first raises \<open>RKLockingException\<close>.
\<close>

theorem lock_excludes:
  assumes "mutex_documented ops" "new_world ops w"
  shows "(\<forall>w' t. lock_run ops True w w' \<longrightarrow> t \<in> owners w' \<longrightarrow>
      owners w' = {t} \<and> (\<exists>st. RKFastUnlock ops t (lock_of w') = (Ok (), st))) \<and>
    (\<exists>w'. lock_run ops False w w' \<and> owners w' = {0, 1} \<and>
      RKFastUnlock ops 0 (lock_of w') = (Raise RKLockingException, lock_of w'))"
  using owners_exclude [OF assms] bypass_shares [OF assms] by blast

section \<open>Witness\<close>

text \<open>A mutex that is the thread that holds it.\<close>

definition holder_ops :: "nat option mutex_ops" where
  "holder_ops =
     \<lparr>mutex_holder = id,
      mutex_lock = (\<lambda>t m. case m of None \<Rightarrow> Some (Success, Some t) | Some u \<Rightarrow> if u = t then Some (EDEADLK, m) else None),
      mutex_trylock = (\<lambda>t m. case m of None \<Rightarrow> (Success, Some t) | Some u \<Rightarrow> (EBUSY, m)),
      mutex_unlock = (\<lambda>t m. if m = Some t then (Success, None) else (EPERM, m))\<rparr>"

lemma holder_ops_documented: "mutex_documented holder_ops"
  by (auto simp: mutex_documented_def holder_ops_def split: option.split)

definition idle_world :: "nat option lock_world" where
  "idle_world = \<lparr>lock_of = \<lparr>the_mutex = None, globalIsMultiThreaded = False\<rparr>, app_multithreaded = False, owners = {}\<rparr>"

lemma idle_new: "new_world holder_ops idle_world"
  by (simp add: new_world_def idle_world_def holder_ops_def)

theorem lock_excludes_witness:
  "\<exists>w'. lock_run holder_ops True idle_world w' \<and> owners w' = {5} \<and>
    (\<exists>st. RKFastUnlock holder_ops 5 (lock_of w') = (Ok (), st))"
proof -
  let ?w1 = "idle_world\<lparr>app_multithreaded := True\<rparr>"
  define w2 where "w2 = ?w1\<lparr>lock_of := \<lparr>the_mutex = Some 5, globalIsMultiThreaded = True\<rparr>, owners := {5}\<rparr>"
  have s1: "lock_step holder_ops True idle_world ?w1"
    using lock_step.starts_thread [of True idle_world holder_ops] by (simp add: idle_world_def)
  have "RKFastLock holder_ops (app_multithreaded ?w1) 5 (lock_of ?w1) =
      Some (Ok True, \<lparr>the_mutex = Some 5, globalIsMultiThreaded = True\<rparr>)"
    by (simp add: RKFastLock_def RKFastMutexLock_def idle_world_def holder_ops_def)
  from lock_step.locks [OF _ _ this, of True] have "lock_step holder_ops True ?w1 w2"
    by (simp add: w2_def idle_world_def)
  then have run: "lock_run holder_ops True idle_world w2" by (rule run_step [OF run_step [OF run_start s1]])
  have five: "owners w2 = {5}" by (simp add: w2_def)
  show ?thesis using lock_excludes [OF holder_ops_documented idle_new] run five by blast
qed

end
