(* ===== verification/RK_ReadWriteLock.thy ===== *)
theory RK_ReadWriteLock
  imports RK_Lock
begin

text \<open>
  \<open>RKReadWriteLock\<close> of \<open>RKLock.m\<close>: how a lock for reading or writing is acquired, with the retries for busy and
  unknown codes, the strategies that try, and the counters.
\<close>

section \<open>The object\<close>

datatype RKReadWriteLockStrategy =
    RKLockForReading | RKLockForWriting | RKLockTryForReading | RKLockTryForWriting
  | RKLockTryForWritingThenForReading | RKLockTryForWritingThenTryForReading

definition strategy_value :: "RKReadWriteLockStrategy \<Rightarrow> int" where
  "strategy_value s =
     (case s of RKLockForReading \<Rightarrow> 0 | RKLockForWriting \<Rightarrow> 1 | RKLockTryForReading \<Rightarrow> 2 | RKLockTryForWriting \<Rightarrow> 3
      | RKLockTryForWritingThenForReading \<Rightarrow> 4 | RKLockTryForWritingThenTryForReading \<Rightarrow> 5)"

definition RKLOCK_MAX_SPURIOUS_ERROR_ATTEMPTS :: nat where
  "RKLOCK_MAX_SPURIOUS_ERROR_ATTEMPTS = 2"

text \<open>The object without its \<open>pthread_rwlock_t\<close>, whose answers are given to the functions below.\<close>

record RKReadWriteLock =
  readBusyCount :: u64
  readSpinCount :: u64
  readDowngradedFromWriteCount :: u64
  writeBusyCount :: u64
  writeSpinCount :: u64
  spuriousErrorsCount :: u64
  writeLocked :: bool
  debuggingEnabled :: bool

definition setDebug :: "bool \<Rightarrow> RKReadWriteLock \<Rightarrow> RKReadWriteLock" where
  "setDebug enable self = self\<lparr>debuggingEnabled := enable\<rparr>"

definition clearCounters :: "RKReadWriteLock \<Rightarrow> RKReadWriteLock" where
  "clearCounters self =
     self\<lparr>readBusyCount := 0, readSpinCount := 0, readDowngradedFromWriteCount := 0, writeBusyCount := 0, writeSpinCount := 0\<rparr>"

definition RKReadWriteLock_init :: "(nat \<Rightarrow> pthread_code) \<Rightarrow> bool option" where
  "RKReadWriteLock_init codes = attempts EAGAIN 5 [EINVAL, EDEADLK, ENOMEM] codes 0 0"

definition releaseRKReadWriteResources :: "(nat \<Rightarrow> pthread_code) \<Rightarrow> bool option" where
  "releaseRKReadWriteResources codes = attempts EBUSY 100 [EPERM, EINVAL] codes 0 0"

section \<open>Acquiring the lock\<close>

text \<open>
  The calls of \<open>pthread_rwlock\<close> functions that one acquisition makes, and the answers they get: the n-th call of each
  kind. The function answers what it did, the level that it stores through \<open>lockLevelAcquired\<close> (\<open>None\<close> is
  \<open>RKLockDidNotLock\<close>), and the calls it made.
\<close>

datatype rwlock_call = TryWrite | Write | TryRead | Read

type_synonym rwlock_answers = "rwlock_call \<Rightarrow> nat \<Rightarrow> pthread_code"

record acquisition =
  did_lock :: bool
  level_acquired :: "RKReadWriteLockStrategy option"
  acquired_self :: RKReadWriteLock
  calls_made :: "(rwlock_call \<times> pthread_code) list"

definition finish_lock :: "bool \<Rightarrow> bool \<Rightarrow> RKReadWriteLock \<Rightarrow> (rwlock_call \<times> pthread_code) list \<Rightarrow> acquisition" where
  "finish_lock didLock forWriting self calls =
     \<lparr>did_lock = didLock,
      level_acquired = (if didLock then Some (if forWriting then RKLockForWriting else RKLockForReading) else None),
      acquired_self = (if didLock then self\<lparr>writeLocked := forWriting\<rparr> else self), calls_made = calls\<rparr>"

definition count_spin :: "bool \<Rightarrow> RKReadWriteLock \<Rightarrow> RKReadWriteLock" where
  "count_spin forWriting self =
     (if \<not> debuggingEnabled self then self
      else if forWriting then self\<lparr>writeSpinCount := writeSpinCount self + 1\<rparr>
      else self\<lparr>readSpinCount := readSpinCount self + 1\<rparr>)"

definition count_busy :: "bool \<Rightarrow> RKReadWriteLock \<Rightarrow> RKReadWriteLock" where
  "count_busy forWriting self =
     (if \<not> debuggingEnabled self then self
      else if forWriting then self\<lparr>writeBusyCount := writeBusyCount self + 1\<rparr>
      else self\<lparr>readBusyCount := readBusyCount self + 1\<rparr>)"

definition count_spurious :: "RKReadWriteLock \<Rightarrow> RKReadWriteLock" where
  "count_spurious self = self\<lparr>spuriousErrorsCount := spuriousErrorsCount self + 1\<rparr>"

definition hopeless :: "pthread_code \<Rightarrow> bool" where
  "hopeless c \<longleftrightarrow> c = EINVAL \<or> c = EDEADLK \<or> c = ENOMEM"

text \<open>The loop of the waiting call.\<close>

partial_function (option) wait_loop ::
  "bool \<Rightarrow> (nat \<Rightarrow> pthread_code) \<Rightarrow> nat \<Rightarrow> nat \<Rightarrow> RKReadWriteLock \<Rightarrow> (rwlock_call \<times> pthread_code) list \<Rightarrow> acquisition option" where
  "wait_loop forWriting answers n spuriousErrors self calls =
     (let code = answers n; calls' = calls @ [(if forWriting then Write else Read, code)]
      in if code = Success then Some (finish_lock True forWriting self calls')
         else if code = EAGAIN \<or> code = EBUSY
         then wait_loop forWriting answers (n + 1) spuriousErrors (count_spin forWriting self) calls'
         else if hopeless code then Some (finish_lock False forWriting self calls')
         else if spuriousErrors < RKLOCK_MAX_SPURIOUS_ERROR_ATTEMPTS
         then wait_loop forWriting answers (n + 1) (spuriousErrors + 1) (count_spurious self) calls'
         else Some (finish_lock False forWriting self calls'))"

text \<open>
  The first attempt, which does not wait, and what follows it. \<open>onlyTry\<close>: the strategy is the one that
  only tries. (Nothing before the first attempt counts errors, so that an unknown code never gives up there.)
\<close>

definition acquire ::
  "bool \<Rightarrow> bool \<Rightarrow> rwlock_answers \<Rightarrow> RKReadWriteLock \<Rightarrow> (rwlock_call \<times> pthread_code) list \<Rightarrow> acquisition option" where
  "acquire forWriting onlyTry answers self calls =
     (let try = (if forWriting then TryWrite else TryRead);
          code = answers try 0;
          calls' = calls @ [(try, code)]
      in if code = Success then Some (finish_lock True forWriting self calls')
         else if hopeless code then Some (finish_lock False forWriting self calls')
         else
           let unknown = code \<noteq> EAGAIN \<and> code \<noteq> EBUSY;
               self' = (if unknown then count_spurious self else count_busy forWriting self)
           in if onlyTry then Some (finish_lock False forWriting self' calls')
              else wait_loop forWriting (answers (if forWriting then Write else Read)) 0 (if unknown then 1 else 0) self' calls')"

definition RKFastReadWriteLockWithStrategy ::
  "bool \<Rightarrow> bool \<Rightarrow> rwlock_answers \<Rightarrow> RKReadWriteLockStrategy \<Rightarrow> RKReadWriteLock \<Rightarrow> (acquisition \<times> bool) option" where
  "RKFastReadWriteLockWithStrategy globalMultiThreaded isMultiThreaded answers lockStrategy self =
     (let forWriting = \<not> (lockStrategy = RKLockForReading \<or> lockStrategy = RKLockTryForReading)
      in if \<not> globalMultiThreaded \<and> \<not> isMultiThreaded
         then Some (finish_lock True forWriting self [], globalMultiThreaded)
         else map_option (\<lambda>a. (a, True))
           (if lockStrategy = RKLockTryForWritingThenForReading then
              (let code = answers TryWrite 0
               in if code = Success then Some (finish_lock True True self [(TryWrite, code)])
                  else acquire False False answers self [(TryWrite, code)])
            else acquire forWriting (lockStrategy = RKLockTryForWriting \<or> lockStrategy = RKLockTryForReading) answers self []))"

definition RKFastReadWriteLock where
  "RKFastReadWriteLock globalMultiThreaded isMultiThreaded answers forWriting self =
     RKFastReadWriteLockWithStrategy globalMultiThreaded isMultiThreaded answers
       (if forWriting then RKLockForWriting else RKLockForReading) self"

text \<open>Whether the unlock function of the library is called; its error codes are only logged.\<close>

definition RKFastReadWriteUnlock :: "bool \<Rightarrow> pthread_code \<Rightarrow> pthread_code list" where
  "RKFastReadWriteUnlock globalMultiThreaded code = (if globalMultiThreaded then [code] else [])"

section \<open>What an acquisition answers\<close>

text \<open>
  An answer is sound if it says truly what the calls did: with \<open>YES\<close> the last call succeeded, it was the only one, and
  the level is that of the call; with \<open>NO\<close> no call succeeded.
\<close>

definition answer_sound :: "acquisition \<Rightarrow> bool" where
  "answer_sound a \<longleftrightarrow>
     (if did_lock a then calls_made a \<noteq> [] \<and> snd (last (calls_made a)) = Success \<and>
        list_all (\<lambda>c. snd c \<noteq> Success) (butlast (calls_made a)) \<and>
        level_acquired a = Some (if fst (last (calls_made a)) \<in> {TryWrite, Write} then RKLockForWriting else RKLockForReading) \<and>
        (writeLocked (acquired_self a) \<longleftrightarrow> level_acquired a = Some RKLockForWriting)
      else list_all (\<lambda>c. snd c \<noteq> Success) (calls_made a) \<and> level_acquired a = None)"

lemma wait_loop_sound:
  "wait_loop forWriting answers n errs self calls = Some a \<Longrightarrow> list_all (\<lambda>c. snd c \<noteq> Success) calls \<longrightarrow> answer_sound a"
  by (erule wait_loop.raw_induct
      [of "\<lambda>forWriting answers n errs self calls a. list_all (\<lambda>c. snd c \<noteq> Success) calls \<longrightarrow> answer_sound a", rotated])
    (auto simp: Let_def answer_sound_def finish_lock_def split: if_splits)

lemma acquire_sound:
  "acquire forWriting onlyTry answers self calls = Some a \<Longrightarrow> list_all (\<lambda>c. snd c \<noteq> Success) calls \<Longrightarrow> answer_sound a"
  by (auto simp: acquire_def Let_def answer_sound_def finish_lock_def dest!: wait_loop_sound split: if_splits)

text \<open>When the waiting call is busy for a while and then succeeds, the loop returns with the lock.\<close>

lemma wait_loop_returns:
  "\<forall>i < k. answers (n + i) \<in> {EAGAIN, EBUSY} \<Longrightarrow> answers (n + k) \<notin> {EAGAIN, EBUSY} \<Longrightarrow>
     answers (n + k) = Success \<or> hopeless (answers (n + k)) \<Longrightarrow>
     \<exists>a. wait_loop forWriting answers n errs self calls = Some a \<and> (did_lock a \<longleftrightarrow> answers (n + k) = Success)"
proof (induction k arbitrary: n self calls)
  case 0
  then show ?case by (subst wait_loop.simps) (auto simp: Let_def finish_lock_def hopeless_def)
next
  case (Suc k)
  have busy: "answers n \<in> {EAGAIN, EBUSY}" using Suc.prems(1) by force
  have "\<forall>i < k. answers (n + 1 + i) \<in> {EAGAIN, EBUSY}" using Suc.prems(1) by (auto dest: spec [of _ "Suc _"])
  then obtain a where "wait_loop forWriting answers (n + 1) errs (count_spin forWriting self)
      (calls @ [(if forWriting then Write else Read, answers n)]) = Some a" "did_lock a \<longleftrightarrow> answers (n + Suc k) = Success"
    using Suc.IH [of "n + 1"] Suc.prems(2,3) by fastforce
  then show ?case using busy by (subst wait_loop.simps) (auto simp: Let_def)
qed

text \<open>
  Which calls a strategy may make by its name: one that tries makes only calls that do not wait, and one that falls back on
  reading waits for reading only.
\<close>

definition allowed_calls :: "RKReadWriteLockStrategy \<Rightarrow> rwlock_call set" where
  "allowed_calls s =
     (case s of RKLockForReading \<Rightarrow> {TryRead, Read} | RKLockForWriting \<Rightarrow> {TryWrite, Write}
      | RKLockTryForReading \<Rightarrow> {TryRead} | RKLockTryForWriting \<Rightarrow> {TryWrite}
      | RKLockTryForWritingThenForReading \<Rightarrow> {TryWrite, TryRead, Read}
      | RKLockTryForWritingThenTryForReading \<Rightarrow> {TryWrite, TryRead})"

lemma wait_loop_calls:
  "wait_loop forWriting answers n errs self calls = Some a \<Longrightarrow>
     ((if forWriting then Write else Read) \<in> P \<longrightarrow> list_all (\<lambda>c. fst c \<in> P) calls \<longrightarrow> list_all (\<lambda>c. fst c \<in> P) (calls_made a)) \<and>
     readDowngradedFromWriteCount (acquired_self a) = readDowngradedFromWriteCount self"
  by (erule wait_loop.raw_induct
      [of "\<lambda>forWriting answers n errs self calls a.
        ((if forWriting then Write else Read) \<in> P \<longrightarrow> list_all (\<lambda>c. fst c \<in> P) calls \<longrightarrow> list_all (\<lambda>c. fst c \<in> P) (calls_made a)) \<and>
        readDowngradedFromWriteCount (acquired_self a) = readDowngradedFromWriteCount self", rotated])
    (auto simp: Let_def finish_lock_def count_spin_def count_spurious_def split: if_splits)

lemma acquire_calls:
  assumes "acquire forWriting onlyTry answers self calls = Some a" "list_all (\<lambda>c. fst c \<in> P) calls"
    and "(if forWriting then TryWrite else TryRead) \<in> P" "onlyTry \<or> (if forWriting then Write else Read) \<in> P"
  shows "list_all (\<lambda>c. fst c \<in> P) (calls_made a) \<and>
    readDowngradedFromWriteCount (acquired_self a) = readDowngradedFromWriteCount self"
  using assms
  by (auto simp: acquire_def Let_def finish_lock_def count_busy_def count_spurious_def
      dest!: wait_loop_calls [where P = P] split: if_splits)

lemma acquisition_answers:
  assumes mt: "globalMultiThreaded \<or> isMultiThreaded"
    and a: "RKFastReadWriteLockWithStrategy globalMultiThreaded isMultiThreaded answers s self = Some (a, g)"
  shows "g \<and> answer_sound a \<and>
    (s \<noteq> RKLockTryForWritingThenTryForReading \<longrightarrow> list_all (\<lambda>c. fst c \<in> allowed_calls s) (calls_made a)) \<and>
    readDowngradedFromWriteCount (acquired_self a) = readDowngradedFromWriteCount self"
proof (cases "s = RKLockTryForWritingThenForReading")
  case True
  show ?thesis
  proof (cases "answers TryWrite 0 = Success")
    case True
    then show ?thesis
      using a mt \<open>s = _\<close> by (auto simp: RKFastReadWriteLockWithStrategy_def Let_def answer_sound_def finish_lock_def allowed_calls_def)
  next
    case False
    then have "acquire False False answers self [(TryWrite, answers TryWrite 0)] = Some a" "g"
      using a mt \<open>s = _\<close> by (auto simp: RKFastReadWriteLockWithStrategy_def Let_def)
    then show ?thesis
      using acquire_sound [of False False answers self _ a] acquire_calls [of False False answers self _ a "allowed_calls s"]
        False \<open>s = _\<close> by (simp add: allowed_calls_def)
  qed
next
  case False
  then have "acquire (\<not> (s = RKLockForReading \<or> s = RKLockTryForReading)) (s = RKLockTryForWriting \<or> s = RKLockTryForReading)
      answers self [] = Some a" "g"
    using a mt by (auto simp: RKFastReadWriteLockWithStrategy_def Let_def)
  then show ?thesis
    using acquire_sound [of _ _ answers self "[]" a] acquire_calls [of _ _ answers self "[]" a "allowed_calls s"]
      acquire_calls [of _ _ answers self "[]" a UNIV] False
    by (cases s) (simp_all add: allowed_calls_def)
qed

text \<open>
  The last strategy is handled nowhere: it takes the way of \<open>RKLockForWriting\<close>, call by call.
\<close>

lemma try_then_try_is_writing:
  "RKFastReadWriteLockWithStrategy globalMultiThreaded isMultiThreaded answers RKLockTryForWritingThenTryForReading self =
   RKFastReadWriteLockWithStrategy globalMultiThreaded isMultiThreaded answers RKLockForWriting self"
  by (simp add: RKFastReadWriteLockWithStrategy_def)

text \<open>Waiting: the calls that a strategy ends up with, the one that tries and the one that waits.\<close>

definition waiting_calls :: "RKReadWriteLockStrategy \<Rightarrow> (rwlock_call \<times> rwlock_call) option" where
  "waiting_calls s =
     (case s of RKLockForReading \<Rightarrow> Some (TryRead, Read) | RKLockForWriting \<Rightarrow> Some (TryWrite, Write)
      | RKLockTryForWritingThenForReading \<Rightarrow> Some (TryRead, Read) | _ \<Rightarrow> None)"

lemma acquire_busy_then_free:
  assumes "\<not> hopeless (answers (if fw then TryWrite else TryRead) 0)"
    and "\<forall>i < k. answers (if fw then Write else Read) i \<in> {EAGAIN, EBUSY}"
    and "answers (if fw then Write else Read) k = Success"
  shows "\<exists>a. acquire fw False answers self calls = Some a \<and> did_lock a"
  using assms wait_loop_returns [of k "answers (if fw then Write else Read)" 0 fw]
  by (auto simp: acquire_def Let_def finish_lock_def)

lemma busy_then_free:
  assumes mt: "globalMultiThreaded \<or> isMultiThreaded" and calls: "waiting_calls s = Some (try, wait)"
    and answers: "\<not> hopeless (answers try 0)" "\<forall>i < k. answers wait i \<in> {EAGAIN, EBUSY}" "answers wait k = Success"
  shows "\<exists>a. RKFastReadWriteLockWithStrategy globalMultiThreaded isMultiThreaded answers s self = Some (a, True) \<and> did_lock a"
proof (cases "s = RKLockForWriting")
  case True
  then show ?thesis
    using mt calls answers acquire_busy_then_free [of answers True k self "[]"]
    by (auto simp: RKFastReadWriteLockWithStrategy_def waiting_calls_def)
next
  case False
  then have "try = TryRead" "wait = Read" "s = RKLockForReading \<or> s = RKLockTryForWritingThenForReading"
    using calls by (cases s; simp add: waiting_calls_def)+
  then show ?thesis
    using mt answers acquire_busy_then_free [of answers False k self]
    by (auto simp: RKFastReadWriteLockWithStrategy_def Let_def finish_lock_def)
qed

text \<open>
  C24. What \<open>RKFastReadWriteLockWithStrategy\<close> answers is what it did. In a program with several threads, whatever the
  library answers: \<open>YES\<close> means that the last call, and only that, acquired the lock, and the level stored is that of
  the call; \<open>NO\<close> means that none did. Five strategies make only the calls of their names, so that those that only
  try never wait. The sixth, \<open>RKLockTryForWritingThenTryForReading\<close>, does not keep to its name: it is the same
  as \<open>RKLockForWriting\<close>, waits for writing and never tries to read. The counter of downgraded
  locks never counts. If the lock becomes free after any number of busy answers, the three strategies whose names say that
  they wait get it.
\<close>

theorem read_write_lock_answers:
  assumes "globalMultiThreaded \<or> isMultiThreaded"
  shows "(RKFastReadWriteLockWithStrategy globalMultiThreaded isMultiThreaded answers s self = Some (a, g) \<longrightarrow>
      g \<and> answer_sound a \<and>
      (s \<noteq> RKLockTryForWritingThenTryForReading \<longrightarrow> list_all (\<lambda>c. fst c \<in> allowed_calls s) (calls_made a)) \<and>
      readDowngradedFromWriteCount (acquired_self a) = readDowngradedFromWriteCount self) \<and>
    RKFastReadWriteLockWithStrategy globalMultiThreaded isMultiThreaded answers RKLockTryForWritingThenTryForReading self =
      RKFastReadWriteLockWithStrategy globalMultiThreaded isMultiThreaded answers RKLockForWriting self \<and>
    (\<forall>try wait k. waiting_calls s = Some (try, wait) \<and> \<not> hopeless (answers try 0) \<and>
      (\<forall>i < k. answers wait i \<in> {EAGAIN, EBUSY}) \<and> answers wait k = Success \<longrightarrow>
      (\<exists>a. RKFastReadWriteLockWithStrategy globalMultiThreaded isMultiThreaded answers s self = Some (a, True) \<and> did_lock a))"
  using acquisition_answers [OF assms] busy_then_free [OF assms] try_then_try_is_writing by blast

text \<open>With one thread nothing is called and the answer is \<open>YES\<close>, for a strategy that tries as well.\<close>

lemma single_thread_bypass:
  "\<exists>a. RKFastReadWriteLockWithStrategy False False answers s self = Some (a, False) \<and> did_lock a \<and> calls_made a = []"
  by (simp add: RKFastReadWriteLockWithStrategy_def finish_lock_def Let_def)

text \<open>A lock that stays busy, for the strategy that promises only to try.\<close>

lemma wait_loop_busy:
  "wait_loop forWriting answers n errs self calls = Some a \<Longrightarrow> \<exists>j. answers j \<notin> {EAGAIN, EBUSY}"
  by (erule wait_loop.raw_induct [of "\<lambda>forWriting answers n errs self calls a. \<exists>j. answers j \<notin> {EAGAIN, EBUSY}", rotated])
    ((clarsimp simp: Let_def split: if_splits; metis pthread_code.distinct(1,3))+)

lemma try_strategy_waits:
  assumes "\<And>c j. answers c j = EBUSY"
  shows "RKFastReadWriteLockWithStrategy True isMultiThreaded answers RKLockTryForWritingThenTryForReading self = None"
proof -
  have "wait_loop True (answers Write) 0 errs self' calls = None" for errs self' calls
    using wait_loop_busy [of True "answers Write" 0 errs self' calls] assms by (cases "wait_loop True (answers Write) 0 errs self' calls") auto
  then show ?thesis by (simp add: RKFastReadWriteLockWithStrategy_def acquire_def Let_def assms hopeless_def)
qed

section \<open>Witness\<close>

definition sample_rwlock :: RKReadWriteLock where
  "sample_rwlock = \<lparr>readBusyCount = 0, readSpinCount = 0, readDowngradedFromWriteCount = 0, writeBusyCount = 0,
     writeSpinCount = 0, spuriousErrorsCount = 0, writeLocked = False, debuggingEnabled = True\<rparr>"

text \<open>Writing fails, reading is busy twice and then succeeds.\<close>

definition sample_answers :: rwlock_answers where
  "sample_answers c n = (if c = Read \<and> 2 \<le> n then Success else EBUSY)"

theorem read_write_lock_answers_witness:
  "\<exists>a. RKFastReadWriteLockWithStrategy True True sample_answers RKLockTryForWritingThenForReading sample_rwlock = Some (a, True) \<and>
    did_lock a \<and> answer_sound a"
proof -
  have "waiting_calls RKLockTryForWritingThenForReading = Some (TryRead, Read) \<and> \<not> hopeless (sample_answers TryRead 0) \<and>
      (\<forall>i < 2. sample_answers Read i \<in> {EAGAIN, EBUSY}) \<and> sample_answers Read 2 = Success"
    by (simp add: waiting_calls_def sample_answers_def hopeless_def)
  then obtain a where a: "RKFastReadWriteLockWithStrategy True True sample_answers RKLockTryForWritingThenForReading sample_rwlock
      = Some (a, True)" "did_lock a"
    using read_write_lock_answers [of True True sample_answers RKLockTryForWritingThenForReading sample_rwlock] by blast
  then show ?thesis
    using read_write_lock_answers [of True True sample_answers RKLockTryForWritingThenForReading sample_rwlock a True] by blast
qed

end
