(* ===== verification/RK_ConditionLock.thy ===== *)
theory RK_ConditionLock
  imports RK_Lock Complex_Main
begin

text \<open>
  \<open>RKConditionLock\<close> of \<open>RKLock.m\<close>: a lock with a number, the condition, that threads can wait for. A mutex protects the
  object while it is looked at; a thread that waits on the condition variable has released it. The model has the
  calls of any number of threads in any order, and the exceptions that leave the mutex locked.
\<close>

section \<open>The object and the strategies\<close>

datatype RKConditionLockStrategy =
    RKConditionLockAnyCondition | RKConditionLockWhenCondition | RKConditionLockTryAnyCondition
  | RKConditionLockTryWhenCondition | RKConditionLockTryAnyConditionUntilTime | RKConditionLockTryWhenConditionUntilTime
  | RKConditionLockTryAnyConditionRelativeTime | RKConditionLockTryWhenConditionRelativeTime

datatype RKConditionUnlockStrategy = RKConditionUnlockAndWakeNone | RKConditionUnlockAndWakeOne | RKConditionUnlockAndWakeAll

definition lockOnAnyCondition :: "RKConditionLockStrategy \<Rightarrow> bool" where
  "lockOnAnyCondition s \<longleftrightarrow>
     s \<in> {RKConditionLockAnyCondition, RKConditionLockTryAnyCondition, RKConditionLockTryAnyConditionUntilTime,
       RKConditionLockTryAnyConditionRelativeTime}"

definition tryToLock :: "RKConditionLockStrategy \<Rightarrow> bool" where
  "tryToLock s \<longleftrightarrow> s \<in> {RKConditionLockTryAnyCondition, RKConditionLockTryWhenCondition}"

definition canTimeOut :: "RKConditionLockStrategy \<Rightarrow> bool" where
  "canTimeOut s \<longleftrightarrow>
     s \<in> {RKConditionLockTryAnyConditionUntilTime, RKConditionLockTryWhenConditionUntilTime,
       RKConditionLockTryAnyConditionRelativeTime, RKConditionLockTryWhenConditionRelativeTime}"

definition isRelativeTime :: "RKConditionLockStrategy \<Rightarrow> bool" where
  "isRelativeTime s \<longleftrightarrow> s \<in> {RKConditionLockTryAnyConditionRelativeTime, RKConditionLockTryWhenConditionRelativeTime}"

text \<open>The time at which \<open>pthread_cond_timedwait\<close> gives up, in seconds since 1970.\<close>

definition wait_deadline :: "RKConditionLockStrategy \<Rightarrow> real \<Rightarrow> real \<Rightarrow> real" where
  "wait_deadline s relativeTime now =
     (let time = (if canTimeOut s \<and> \<not> isRelativeTime s then 0 else relativeTime)
      in if isRelativeTime s then time + now else time)"

record RKConditionLock =
  conditionIsLocked :: bool
  lockOwner :: "nat option"
  currentLockCondition :: u64

text \<open>\<open>initWithCondition:\<close>: the codes of the attribute calls, of \<open>pthread_mutex_init\<close> and of \<open>pthread_cond_init\<close>.\<close>

definition initWithCondition ::
  "pthread_code \<Rightarrow> pthread_code \<Rightarrow> (nat \<Rightarrow> pthread_code) \<Rightarrow> (nat \<Rightarrow> pthread_code) \<Rightarrow> u64 \<Rightarrow> RKConditionLock option option" where
  "initWithCondition attrInit attrSettype mutexCodes condCodes initCondition =
     (if attrInit \<noteq> Success \<or> attrSettype \<noteq> Success then Some None
      else case attempts EAGAIN 5 [EINVAL, ENOMEM] mutexCodes 0 0 of
        None \<Rightarrow> None
      | Some False \<Rightarrow> Some None
      | Some True \<Rightarrow>
          map_option (\<lambda>made. if made then Some \<lparr>conditionIsLocked = False, lockOwner = None, currentLockCondition = initCondition\<rparr>
                             else None) (attempts EAGAIN 5 [EINVAL, ENOMEM] condCodes 0 0))"

definition releaseRKConditionLockResources :: "(nat \<Rightarrow> pthread_code) \<Rightarrow> (nat \<Rightarrow> pthread_code) \<Rightarrow> bool option" where
  "releaseRKConditionLockResources condCodes mutexCodes =
     (case attempts EBUSY 100 [EINVAL] condCodes 0 0 of
        None \<Rightarrow> None
      | Some destroyed \<Rightarrow> if destroyed then attempts EBUSY 100 [EINVAL] mutexCodes 0 0 else Some False)"

definition isLockedByThread :: "RKConditionLock \<Rightarrow> nat \<Rightarrow> bool" where
  "isLockedByThread self t \<longleftrightarrow> lockOwner self = Some t"

definition isLockedByCurrentThread :: "RKConditionLock \<Rightarrow> nat \<Rightarrow> bool" where
  "isLockedByCurrentThread self t \<longleftrightarrow> conditionIsLocked self \<and> lockOwner self = Some t"

section \<open>Locking\<close>

record 'm condition_state =
  cond_self :: RKConditionLock
  cond_mutex :: "'m lock_state"

text \<open>What a call has come to: it waits for the mutex, has returned or raised, or waits on the condition variable.\<close>

datatype 'm lock_answer = Blocks | Answers "bool run" "'m condition_state" | Waits "'m condition_state"

definition lock_ready :: "RKConditionLockStrategy \<Rightarrow> u64 \<Rightarrow> RKConditionLock \<Rightarrow> bool" where
  "lock_ready s lockOnCondition self \<longleftrightarrow>
     \<not> conditionIsLocked self \<and> (currentLockCondition self = lockOnCondition \<or> lockOnAnyCondition s)"

text \<open>\<open>exitNow\<close>: the mutex is unlocked, which can raise.\<close>

definition exit_lock :: "'m mutex_ops \<Rightarrow> nat \<Rightarrow> bool \<Rightarrow> 'm condition_state \<Rightarrow> 'm lock_answer" where
  "exit_lock ops t didLock st =
     (let (unlocked, m) = RKFastMutexUnlock ops t (cond_mutex st)
      in Answers (run_map (\<lambda>_. didLock) unlocked) (st\<lparr>cond_mutex := m\<rparr>))"

text \<open>The head of the loop, with the mutex held: wait, or leave the loop and take the lock if it is ready.\<close>

definition condition_loop ::
  "'m mutex_ops \<Rightarrow> RKConditionLockStrategy \<Rightarrow> u64 \<Rightarrow> nat \<Rightarrow> bool \<Rightarrow> 'm condition_state \<Rightarrow> 'm lock_answer" where
  "condition_loop ops s lockOnCondition t lockTimedOut st =
     (let self = cond_self st in
      if \<not> lock_ready s lockOnCondition self \<and> \<not> lockTimedOut \<and> \<not> tryToLock s
      then Waits (st\<lparr>cond_mutex := snd (RKFastMutexUnlock ops t (cond_mutex st))\<rparr>)
      else if lock_ready s lockOnCondition self \<and> \<not> lockTimedOut
      then exit_lock ops t True (st\<lparr>cond_self := self\<lparr>conditionIsLocked := True, lockOwner := Some t,
             currentLockCondition := if lockOnAnyCondition s then currentLockCondition self else lockOnCondition\<rparr>\<rparr>)
      else exit_lock ops t False st)"

text \<open>
  The waiting thread has the mutex again, and the code of the wait. An exception leaves the mutex locked.
\<close>

definition condition_wake ::
  "'m mutex_ops \<Rightarrow> RKConditionLockStrategy \<Rightarrow> u64 \<Rightarrow> nat \<Rightarrow> pthread_code \<Rightarrow> 'm condition_state \<Rightarrow> 'm lock_answer" where
  "condition_wake ops s lockOnCondition t code st =
     (if code = ETIMEDOUT \<or> code = EINVAL \<and> canTimeOut s
      then (if code = ETIMEDOUT \<and> \<not> canTimeOut s then Answers (Raise NSInternalInconsistencyException) st
            else condition_loop ops s lockOnCondition t True st)
      else if code \<noteq> Success then Answers (Raise RKConditionLockException) st
      else condition_loop ops s lockOnCondition t False st)"

text \<open>
  A call up to its answer or its wait. The look at the object before the mutex is locked, with which a strategy that tries
  gives up early, is taken in the same step.
\<close>

definition RKFastConditionLock ::
  "'m mutex_ops \<Rightarrow> bool \<Rightarrow> nat \<Rightarrow> u64 \<Rightarrow> RKConditionLockStrategy \<Rightarrow> 'm condition_state \<Rightarrow> 'm lock_answer" where
  "RKFastConditionLock ops isMultiThreaded t lockOnCondition s st =
     (if tryToLock s \<and> \<not> lock_ready s lockOnCondition (cond_self st) then Answers (Ok False) st
      else case RKFastMutexLock ops isMultiThreaded (if tryToLock s then RKMutexTryFullLock else RKMutexFullLock) t (cond_mutex st) of
        None \<Rightarrow> Blocks
      | Some (mutexLocked, m) \<Rightarrow>
          let st' = st\<lparr>cond_mutex := m\<rparr> in
          (case mutexLocked of
             Raise e \<Rightarrow> Answers (Raise e) st'
           | Undefined \<Rightarrow> Answers Undefined st'
           | Ok locked \<Rightarrow>
               if \<not> locked then Answers (if tryToLock s then Ok False else Raise RKConditionLockException) st'
               else if conditionIsLocked (cond_self st') \<and> lockOwner (cond_self st') = Some t
               then Answers (Raise RKConditionLockException) st'
               else if tryToLock s \<and> \<not> lock_ready s lockOnCondition (cond_self st') then exit_lock ops t False st'
               else condition_loop ops s lockOnCondition t False st'))"

text \<open>\<open>None\<close>: the call waits for the mutex. Which waiting threads are woken does not change the object.\<close>

definition RKFastConditionUnlock ::
  "'m mutex_ops \<Rightarrow> bool \<Rightarrow> nat \<Rightarrow> u64 \<Rightarrow> RKConditionUnlockStrategy \<Rightarrow> 'm condition_state \<Rightarrow> (unit run \<times> 'm condition_state) option" where
  "RKFastConditionUnlock ops isMultiThreaded t unlockWithCondition strategy st =
     map_option (\<lambda>(mutexLocked, m).
       let st' = st\<lparr>cond_mutex := m\<rparr> in
       (case mutexLocked of
          Raise e \<Rightarrow> (Raise e, st')
        | Undefined \<Rightarrow> (Undefined, st')
        | Ok locked \<Rightarrow>
            if \<not> locked then (Raise RKConditionLockException, st')
            else if \<not> conditionIsLocked (cond_self st') \<or> lockOwner (cond_self st') \<noteq> Some t
            then (Raise RKConditionLockException, st')
            else
              let self = (cond_self st')\<lparr>conditionIsLocked := False, currentLockCondition := unlockWithCondition\<rparr>;
                  (unlocked, m') = RKFastMutexUnlock ops t (cond_mutex st')
              in (unlocked, \<lparr>cond_self = self, cond_mutex = m'\<rparr>)))
      (RKFastMutexLock ops isMultiThreaded RKMutexFullLock t (cond_mutex st))"

text \<open>The methods and their strategies. \<open>tryLock\<close> and \<open>lock\<close> have the same.\<close>

definition condition_tryLock where
  "condition_tryLock ops isMultiThreaded t st = RKFastConditionLock ops isMultiThreaded t 0 RKConditionLockAnyCondition st"

definition tryLockWhenCondition where
  "tryLockWhenCondition ops isMultiThreaded t condition st =
     RKFastConditionLock ops isMultiThreaded t condition RKConditionLockTryWhenCondition st"

definition condition_lock where
  "condition_lock ops isMultiThreaded t st = RKFastConditionLock ops isMultiThreaded t 0 RKConditionLockAnyCondition st"

definition lockBeforeDate where
  "lockBeforeDate ops isMultiThreaded t st =
     RKFastConditionLock ops isMultiThreaded t 0 RKConditionLockTryAnyConditionUntilTime st"

definition lockWhenCondition where
  "lockWhenCondition ops isMultiThreaded t condition st =
     RKFastConditionLock ops isMultiThreaded t condition RKConditionLockWhenCondition st"

definition lockWhenCondition_beforeDate where
  "lockWhenCondition_beforeDate ops isMultiThreaded t condition st =
     RKFastConditionLock ops isMultiThreaded t condition RKConditionLockTryWhenConditionUntilTime st"

definition condition_unlock where
  "condition_unlock ops isMultiThreaded t st =
     RKFastConditionUnlock ops isMultiThreaded t (currentLockCondition (cond_self st)) RKConditionUnlockAndWakeAll st"

definition unlockWithCondition where
  "unlockWithCondition ops isMultiThreaded t condition st =
     RKFastConditionUnlock ops isMultiThreaded t condition RKConditionUnlockAndWakeAll st"

section \<open>One call with a free mutex\<close>

lemma mutex_lock_free:
  assumes "mutex_documented ops" "mutex_holder ops (the_mutex m) = None" "strategy \<in> {RKMutexFullLock, RKMutexTryFullLock}"
  shows "\<exists>x. RKFastMutexLock ops mt strategy t m = Some (Ok True, m\<lparr>the_mutex := x\<rparr>) \<and> mutex_holder ops x = Some t"
  using mutex_free(1) [OF assms(1,2), of t] assms(3) by (auto simp: RKFastMutexLock_def Let_def)

lemma mutex_lock_held:
  assumes "mutex_documented ops" "mutex_holder ops (the_mutex m) = Some u"
  shows "RKFastMutexLock ops mt RKMutexTryFullLock t m = Some (Ok False, m)"
    and "RKFastMutexLock ops mt RKMutexFullLock t m = (if t = u then Some (Raise RKLockingException, m) else None)"
  using mutex_own(1) [OF assms(1), of "the_mutex m" t] mutex_other [OF assms, of t] assms(2)
  by (auto simp: RKFastMutexLock_def Let_def)

lemma mutex_unlock_held:
  assumes "mutex_documented ops" "mutex_holder ops (the_mutex m) = Some t"
  shows "\<exists>x. RKFastMutexUnlock ops t m = (Ok (), m\<lparr>the_mutex := x\<rparr>) \<and> mutex_holder ops x = None"
  using mutex_own(2) [OF assms] by (auto simp: RKFastMutexUnlock_def)

text \<open>What an object becomes when a thread takes the lock and when it gives it up.\<close>

definition taken_by :: "nat \<Rightarrow> RKConditionLock \<Rightarrow> RKConditionLock" where
  "taken_by t self = self\<lparr>conditionIsLocked := True, lockOwner := Some t\<rparr>"

definition given_up :: "u64 \<Rightarrow> RKConditionLock \<Rightarrow> RKConditionLock" where
  "given_up condition self = self\<lparr>conditionIsLocked := False, currentLockCondition := condition\<rparr>"

definition mutex_free_in :: "'m mutex_ops \<Rightarrow> 'm condition_state \<Rightarrow> bool" where
  "mutex_free_in ops st \<longleftrightarrow> mutex_holder ops (the_mutex (cond_mutex st)) = None"

lemma condition_loop_answers:
  assumes ops: "mutex_documented ops" and held: "mutex_holder ops (the_mutex (cond_mutex st)) = Some t"
  shows "\<exists>st'. mutex_free_in ops st' \<and>
    condition_loop ops s c t timedOut st =
      (if lock_ready s c (cond_self st) \<and> \<not> timedOut then Answers (Ok True) st'
       else if timedOut \<or> tryToLock s then Answers (Ok False) st' else Waits st') \<and>
    cond_self st' = (if lock_ready s c (cond_self st) \<and> \<not> timedOut then taken_by t (cond_self st) else cond_self st)"
proof -
  obtain x where x: "RKFastMutexUnlock ops t (cond_mutex st) = (Ok (), (cond_mutex st)\<lparr>the_mutex := x\<rparr>)" "mutex_holder ops x = None"
    using mutex_unlock_held [OF ops held] by blast
  have "(cond_self st)\<lparr>conditionIsLocked := True, lockOwner := Some t,
      currentLockCondition := if lockOnAnyCondition s then currentLockCondition (cond_self st) else c\<rparr> = taken_by t (cond_self st)"
    if "lock_ready s c (cond_self st)"
    using that by (auto simp: taken_by_def lock_ready_def)
  then show ?thesis
    using x by (auto simp: condition_loop_def exit_lock_def mutex_free_in_def Let_def)
qed

text \<open>
  A call with the mutex free: it takes the lock if it is ready; else a strategy that tries answers \<open>NO\<close>, and the others
  wait, except that the owner of the lock gets an exception, with the mutex left locked.
\<close>

lemma lock_call:
  assumes ops: "mutex_documented ops" and free: "mutex_free_in ops st"
  shows "\<exists>st'. RKFastConditionLock ops mt t c s st =
      (if lock_ready s c (cond_self st) then Answers (Ok True) st'
       else if tryToLock s then Answers (Ok False) st'
       else if conditionIsLocked (cond_self st) \<and> lockOwner (cond_self st) = Some t
       then Answers (Raise RKConditionLockException) st'
       else Waits st') \<and>
    cond_self st' = (if lock_ready s c (cond_self st) then taken_by t (cond_self st) else cond_self st) \<and>
    (if \<not> lock_ready s c (cond_self st) \<and> \<not> tryToLock s \<and> conditionIsLocked (cond_self st) \<and> lockOwner (cond_self st) = Some t
     then mutex_holder ops (the_mutex (cond_mutex st')) = Some t else mutex_free_in ops st')"
proof -
  have "(if tryToLock s then RKMutexTryFullLock else RKMutexFullLock) \<in> {RKMutexFullLock, RKMutexTryFullLock}" by simp
  then obtain x where x: "RKFastMutexLock ops mt (if tryToLock s then RKMutexTryFullLock else RKMutexFullLock) t (cond_mutex st) =
      Some (Ok True, (cond_mutex st)\<lparr>the_mutex := x\<rparr>)" "mutex_holder ops x = Some t"
    using mutex_lock_free [OF ops free [unfolded mutex_free_in_def]] by blast
  let ?st = "st\<lparr>cond_mutex := (cond_mutex st)\<lparr>the_mutex := x\<rparr>\<rparr>"
  obtain st' where st': "mutex_free_in ops st'"
    "condition_loop ops s c t False ?st =
      (if lock_ready s c (cond_self ?st) \<and> \<not> False then Answers (Ok True) st'
       else if False \<or> tryToLock s then Answers (Ok False) st' else Waits st')"
    "cond_self st' = (if lock_ready s c (cond_self ?st) \<and> \<not> False then taken_by t (cond_self ?st) else cond_self ?st)"
    using condition_loop_answers [OF ops, of ?st t s c False] x(2) by auto
  show ?thesis
  proof (cases "lock_ready s c (cond_self st)")
    case True
    then have "\<not> conditionIsLocked (cond_self st)" by (simp add: lock_ready_def)
    then show ?thesis using True x(1) st' by (auto simp: RKFastConditionLock_def Let_def)
  next
    case False
    show ?thesis
    proof (cases "tryToLock s")
      case True
      then show ?thesis using False free by (simp add: RKFastConditionLock_def)
    next
      case notry: False
      show ?thesis
      proof (cases "conditionIsLocked (cond_self st) \<and> lockOwner (cond_self st) = Some t")
        case True
        then show ?thesis using False notry x by (intro exI [of _ ?st]) (simp add: RKFastConditionLock_def)
      next
        case other: False
        then show ?thesis using False notry x st' by (intro exI [of _ st']) (auto simp: RKFastConditionLock_def)
      qed
    qed
  qed
qed

lemma unlock_call:
  assumes ops: "mutex_documented ops" and free: "mutex_free_in ops st"
  shows "\<exists>st'. RKFastConditionUnlock ops mt t c strategy st =
      Some (if isLockedByCurrentThread (cond_self st) t then Ok () else Raise RKConditionLockException, st') \<and>
    (if isLockedByCurrentThread (cond_self st) t then mutex_free_in ops st' \<and> cond_self st' = given_up c (cond_self st)
     else mutex_holder ops (the_mutex (cond_mutex st')) = Some t \<and> cond_self st' = cond_self st)"
proof -
  obtain x where x: "RKFastMutexLock ops mt RKMutexFullLock t (cond_mutex st) = Some (Ok True, (cond_mutex st)\<lparr>the_mutex := x\<rparr>)"
      "mutex_holder ops x = Some t"
    using mutex_lock_free [OF ops free [unfolded mutex_free_in_def], of RKMutexFullLock] by auto
  obtain y where y: "RKFastMutexUnlock ops t ((cond_mutex st)\<lparr>the_mutex := x\<rparr>) = (Ok (), (cond_mutex st)\<lparr>the_mutex := y\<rparr>)"
      "mutex_holder ops y = None"
    using mutex_unlock_held [OF ops, of "(cond_mutex st)\<lparr>the_mutex := x\<rparr>" t] x(2) by auto
  show ?thesis
    using x y by (auto simp: RKFastConditionUnlock_def Let_def isLockedByCurrentThread_def given_up_def mutex_free_in_def)
qed

section \<open>Threads that use a condition lock\<close>

text \<open>
  The threads that own the lock, by the answers they got, and those that wait on the condition variable, with their
  calls. A step is a call of a thread that does not wait, or the end of a wait: signalled, spurious or timed out.
\<close>

record 'm condition_world =
  cw_state :: "'m condition_state"
  cw_waiting :: "nat \<Rightarrow> (RKConditionLockStrategy \<times> u64) option"
  cw_owners :: "nat set"

text \<open>The world after an answer to thread \<open>t\<close>.\<close>

fun after_answer :: "nat \<Rightarrow> RKConditionLockStrategy \<Rightarrow> u64 \<Rightarrow> 'm lock_answer \<Rightarrow> 'm condition_world \<Rightarrow> 'm condition_world" where
  "after_answer t s c Blocks w = w"
| "after_answer t s c (Answers r st) w =
     w\<lparr>cw_state := st, cw_waiting := (cw_waiting w)(t := None),
       cw_owners := (if r = Ok True then insert t (cw_owners w) else cw_owners w)\<rparr>"
| "after_answer t s c (Waits st) w = w\<lparr>cw_state := st, cw_waiting := (cw_waiting w)(t \<mapsto> (s, c))\<rparr>"

inductive condition_step :: "'m mutex_ops \<Rightarrow> 'm condition_world \<Rightarrow> 'm condition_world \<Rightarrow> bool" for ops where
  calls_lock: "cw_waiting w t = None \<Longrightarrow> RKFastConditionLock ops True t c s (cw_state w) = a \<Longrightarrow>
     condition_step ops w (after_answer t s c a w)"
| wakes: "cw_waiting w t = Some (s, c) \<Longrightarrow> mutex_lock ops t (the_mutex (cond_mutex (cw_state w))) = Some (Success, m) \<Longrightarrow>
     code = Success \<or> code = ETIMEDOUT \<and> canTimeOut s \<Longrightarrow>
     condition_wake ops s c t code ((cw_state w)\<lparr>cond_mutex := (cond_mutex (cw_state w))\<lparr>the_mutex := m\<rparr>\<rparr>) = a \<Longrightarrow>
     condition_step ops w (after_answer t s c a w)"
| calls_unlock: "cw_waiting w t = None \<Longrightarrow> RKFastConditionUnlock ops True t c strategy (cw_state w) = Some (r, st) \<Longrightarrow>
     condition_step ops w (w\<lparr>cw_state := st, cw_owners := (if r = Ok () then cw_owners w - {t} else cw_owners w)\<rparr>)"

inductive condition_run :: "'m mutex_ops \<Rightarrow> 'm condition_world \<Rightarrow> 'm condition_world \<Rightarrow> bool" for ops where
  runs_none: "condition_run ops w w"
| runs_on: "condition_run ops w w' \<Longrightarrow> condition_step ops w' w'' \<Longrightarrow> condition_run ops w w''"

inductive_cases condition_stepE: "condition_step ops w w'"

definition owners_of :: "RKConditionLock \<Rightarrow> nat set" where
  "owners_of self = (if conditionIsLocked self then set_option (lockOwner self) else {})"

text \<open>
  In every state the owners are what the object says. The mutex is free, or an exception has left it locked by a
  thread that does not wait.
\<close>

definition condition_ok :: "'m mutex_ops \<Rightarrow> 'm condition_world \<Rightarrow> bool" where
  "condition_ok ops w \<longleftrightarrow> cw_owners w = owners_of (cond_self (cw_state w)) \<and>
     (\<forall>t \<in> cw_owners w. cw_waiting w t = None)"

definition mutex_left_by :: "'m mutex_ops \<Rightarrow> nat \<Rightarrow> 'm condition_world \<Rightarrow> bool" where
  "mutex_left_by ops t w \<longleftrightarrow> mutex_holder ops (the_mutex (cond_mutex (cw_state w))) = Some t \<and> cw_waiting w t = None"

text \<open>With the mutex left locked no call changes anything but the waiting threads' patience.\<close>

lemma lock_call_stuck:
  assumes "mutex_documented ops" "mutex_holder ops (the_mutex (cond_mutex st)) = Some u"
  shows "RKFastConditionLock ops mt t c s st \<in> {Blocks, Answers (Ok False) st, Answers (Raise RKLockingException) st}"
  using mutex_lock_held [OF assms, of mt t]
  by (auto simp: RKFastConditionLock_def split: if_splits)

lemma unlock_call_stuck:
  assumes "mutex_documented ops" "mutex_holder ops (the_mutex (cond_mutex st)) = Some u"
  shows "RKFastConditionUnlock ops mt t c strategy st \<in> {None, Some (Raise RKLockingException, st)}"
  using mutex_lock_held [OF assms, of mt t] by (auto simp: RKFastConditionUnlock_def)

lemma stuck_step:
  assumes ops: "mutex_documented ops"
  shows "condition_step ops w w' \<Longrightarrow> mutex_left_by ops u w \<Longrightarrow> w' = w"
proof (induction rule: condition_step.induct)
  case (calls_lock w t c s a)
  then have "a \<in> {Blocks, Answers (Ok False) (cw_state w), Answers (Raise RKLockingException) (cw_state w)}"
    using lock_call_stuck [OF ops, of "cw_state w" u True t c s] by (auto simp: mutex_left_by_def)
  then show ?case using calls_lock(1) by (auto simp: fun_upd_idem)
next
  case (wakes w t s c m code a)
  then have "t = u \<Longrightarrow> False" by (simp add: mutex_left_by_def)
  then show ?case using wakes mutex_other(2) [OF ops, of "the_mutex (cond_mutex (cw_state w))" u t] by (auto simp: mutex_left_by_def)
next
  case (calls_unlock w t c strategy r st)
  then have "st = cw_state w \<and> r = Raise RKLockingException"
    using unlock_call_stuck [OF ops, of "cw_state w" u True t c strategy] by (auto simp: mutex_left_by_def)
  then show ?case by simp
qed

lemma stuck_run:
  assumes "mutex_documented ops"
  shows "condition_run ops w w' \<Longrightarrow> mutex_left_by ops u w \<Longrightarrow> w' = w"
  by (induction rule: condition_run.induct) (auto dest: stuck_step [OF assms])

text \<open>The invariant: the mutex is free or left locked for ever, and the owners are those of the object.\<close>

definition world_sound :: "'m mutex_ops \<Rightarrow> 'm condition_world \<Rightarrow> bool" where
  "world_sound ops w \<longleftrightarrow> condition_ok ops w \<and> (mutex_free_in ops (cw_state w) \<or> (\<exists>u. mutex_left_by ops u w))"

lemma wake_call:
  assumes ops: "mutex_documented ops" and free: "mutex_free_in ops st"
    and m: "mutex_lock ops t (the_mutex (cond_mutex st)) = Some (Success, m)" and code: "code = Success \<or> code = ETIMEDOUT \<and> canTimeOut s"
  shows "\<exists>st'. mutex_free_in ops st' \<and>
    condition_wake ops s c t code (st\<lparr>cond_mutex := (cond_mutex st)\<lparr>the_mutex := m\<rparr>\<rparr>) =
      (if lock_ready s c (cond_self st) \<and> code = Success then Answers (Ok True) st'
       else if code = ETIMEDOUT \<or> tryToLock s then Answers (Ok False) st' else Waits st') \<and>
    cond_self st' = (if lock_ready s c (cond_self st) \<and> code = Success then taken_by t (cond_self st) else cond_self st)"
proof -
  let ?st = "st\<lparr>cond_mutex := (cond_mutex st)\<lparr>the_mutex := m\<rparr>\<rparr>"
  have held: "mutex_holder ops (the_mutex (cond_mutex ?st)) = Some t"
    using mutex_free(1) [OF ops free [unfolded mutex_free_in_def], of t] m by auto
  have "condition_wake ops s c t code ?st = condition_loop ops s c t (code = ETIMEDOUT) ?st"
    using code by (auto simp: condition_wake_def)
  then show ?thesis
    using condition_loop_answers [OF ops held, of s c "code = ETIMEDOUT"] code by auto
qed

lemma owners_taken: "owners_of (taken_by t self) = {t}"
  by (simp add: owners_of_def taken_by_def)

lemma owners_given_up: "owners_of (given_up c self) = {}"
  by (simp add: owners_of_def given_up_def)

lemma owners_ready: "lock_ready s c self \<Longrightarrow> owners_of self = {}"
  by (simp add: owners_of_def lock_ready_def)

lemma owners_iff: "t \<in> owners_of self \<longleftrightarrow> isLockedByCurrentThread self t"
  by (auto simp: owners_of_def isLockedByCurrentThread_def)

text \<open>An answer keeps the invariant if it says what became of the object.\<close>

lemma answer_sound_world:
  assumes "condition_ok ops w" "mutex_free_in ops st' \<or> a = Answers (Raise e) st' \<and> mutex_holder ops (the_mutex (cond_mutex st')) = Some t"
    and "a \<in> {Answers (Ok True) st', Answers (Ok False) st', Answers (Raise e) st', Waits st'}"
    and "a = Answers (Ok True) st' \<Longrightarrow> owners_of (cond_self (cw_state w)) = {} \<and> cond_self st' = taken_by t (cond_self (cw_state w))"
    and "a \<noteq> Answers (Ok True) st' \<Longrightarrow> cond_self st' = cond_self (cw_state w)"
    and "a = Waits st' \<Longrightarrow> t \<notin> owners_of (cond_self (cw_state w))"
  shows "world_sound ops (after_answer t s c a w)"
proof -
  have ok: "condition_ok ops (after_answer t s c a w)"
    using assms(1,3-6) by (auto simp: condition_ok_def owners_taken)
  have "mutex_free_in ops (cw_state (after_answer t s c a w)) \<or> mutex_left_by ops t (after_answer t s c a w)"
    using assms(2,3) by (auto simp: mutex_left_by_def)
  then show ?thesis using ok by (auto simp: world_sound_def)
qed

lemma world_step:
  assumes ops: "mutex_documented ops"
  shows "condition_step ops w w' \<Longrightarrow> world_sound ops w \<Longrightarrow> world_sound ops w'"
proof -
  assume step: "condition_step ops w w'" and sound: "world_sound ops w"
  then consider (stuck) u where "mutex_left_by ops u w" | (free) "mutex_free_in ops (cw_state w)" by (auto simp: world_sound_def)
  then show ?thesis
  proof cases
    case stuck
    then show ?thesis using stuck_step [OF ops step] sound by simp
  next
    case free
    have ok: "condition_ok ops w" using sound by (simp add: world_sound_def)
    let ?self = "cond_self (cw_state w)"
    from step show ?thesis
    proof cases
      case (calls_lock t c s a)
      obtain st' where st': "a = (if lock_ready s c ?self then Answers (Ok True) st'
           else if tryToLock s then Answers (Ok False) st'
           else if conditionIsLocked ?self \<and> lockOwner ?self = Some t then Answers (Raise RKConditionLockException) st'
           else Waits st')"
        "cond_self st' = (if lock_ready s c ?self then taken_by t ?self else ?self)"
        "if \<not> lock_ready s c ?self \<and> \<not> tryToLock s \<and> conditionIsLocked ?self \<and> lockOwner ?self = Some t
         then mutex_holder ops (the_mutex (cond_mutex st')) = Some t else mutex_free_in ops st'"
        using lock_call [OF ops free, of True t c s, unfolded calls_lock(3)] by blast
      show ?thesis
        unfolding calls_lock(1)
        by (rule answer_sound_world [OF ok, where e = RKConditionLockException and st' = st'])
          (use st' in \<open>auto simp: owners_ready owners_iff isLockedByCurrentThread_def split: if_splits\<close>)
    next
      case (wakes t s c m code a)
      obtain st' where st': "mutex_free_in ops st'" "a =
            (if lock_ready s c ?self \<and> code = Success then Answers (Ok True) st'
             else if code = ETIMEDOUT \<or> tryToLock s then Answers (Ok False) st' else Waits st')"
          "cond_self st' = (if lock_ready s c ?self \<and> code = Success then taken_by t ?self else ?self)"
        using wake_call [OF ops free wakes(3,4), of c, unfolded wakes(5)] by blast
      have "t \<notin> owners_of ?self" using ok wakes(2) by (auto simp: condition_ok_def)
      then show ?thesis
        unfolding wakes(1)
        by (intro answer_sound_world [OF ok, where e = RKConditionLockException and st' = st'])
          (use st' in \<open>auto simp: owners_ready split: if_splits\<close>)
    next
      case (calls_unlock t c strategy r st)
      have r: "r = (if isLockedByCurrentThread ?self t then Ok () else Raise RKConditionLockException)"
        "if isLockedByCurrentThread ?self t then mutex_free_in ops st \<and> cond_self st = given_up c ?self
         else mutex_holder ops (the_mutex (cond_mutex st)) = Some t \<and> cond_self st = ?self"
        using unlock_call [OF ops free, of True t c strategy] calls_unlock(3) by auto
      show ?thesis
      proof (cases "isLockedByCurrentThread ?self t")
        case True
        then have "cw_owners w = {t}"
          using ok by (auto simp: condition_ok_def owners_of_def isLockedByCurrentThread_def)
        then show ?thesis using r True calls_unlock(1) ok by (simp add: world_sound_def condition_ok_def owners_given_up)
      next
        case False
        then have "mutex_left_by ops t w'" using r calls_unlock(1,2) by (simp add: mutex_left_by_def)
        then show ?thesis using r False calls_unlock(1) ok by (auto simp: world_sound_def condition_ok_def)
      qed
    qed
  qed
qed

lemma world_run:
  assumes "mutex_documented ops"
  shows "condition_run ops w w' \<Longrightarrow> world_sound ops w \<Longrightarrow> world_sound ops w'"
  by (induction rule: condition_run.induct) (auto intro: world_step [OF assms])

definition new_condition_world :: "'m mutex_ops \<Rightarrow> 'm condition_world \<Rightarrow> bool" where
  "new_condition_world ops w \<longleftrightarrow> mutex_free_in ops (cw_state w) \<and> \<not> conditionIsLocked (cond_self (cw_state w)) \<and>
     cw_owners w = {} \<and> cw_waiting w = (\<lambda>t. None)"

lemma new_world_sound: "new_condition_world ops w \<Longrightarrow> world_sound ops w"
  by (simp add: new_condition_world_def world_sound_def condition_ok_def owners_of_def)

text \<open>Getting the lock, by a call or after a wait.\<close>

lemma gets_lock:
  assumes "mutex_documented ops" "world_sound ops w"
  shows "RKFastConditionLock ops True t c s (cw_state w) = Answers (Ok True) st' \<Longrightarrow>
      lock_ready s c (cond_self (cw_state w)) \<and> cond_self st' = taken_by t (cond_self (cw_state w))"
    and "mutex_lock ops t (the_mutex (cond_mutex (cw_state w))) = Some (Success, m) \<Longrightarrow> code = Success \<or> code = ETIMEDOUT \<and> canTimeOut s \<Longrightarrow>
      condition_wake ops s c t code ((cw_state w)\<lparr>cond_mutex := (cond_mutex (cw_state w))\<lparr>the_mutex := m\<rparr>\<rparr>) = Answers (Ok True) st' \<Longrightarrow>
      lock_ready s c (cond_self (cw_state w)) \<and> cond_self st' = taken_by t (cond_self (cw_state w))"
proof -
  assume call: "RKFastConditionLock ops True t c s (cw_state w) = Answers (Ok True) st'"
  show "lock_ready s c (cond_self (cw_state w)) \<and> cond_self st' = taken_by t (cond_self (cw_state w))"
  proof (cases "mutex_free_in ops (cw_state w)")
    case True
    then show ?thesis using lock_call [OF assms(1) True, of True t c s] call by (auto split: if_splits)
  next
    case False
    then obtain u where "mutex_left_by ops u w" using assms(2) by (auto simp: world_sound_def)
    then show ?thesis using lock_call_stuck [OF assms(1), of "cw_state w" u True t c s] call by (auto simp: mutex_left_by_def)
  qed
next
  assume m: "mutex_lock ops t (the_mutex (cond_mutex (cw_state w))) = Some (Success, m)"
    and code: "code = Success \<or> code = ETIMEDOUT \<and> canTimeOut s"
    and call: "condition_wake ops s c t code ((cw_state w)\<lparr>cond_mutex := (cond_mutex (cw_state w))\<lparr>the_mutex := m\<rparr>\<rparr>) = Answers (Ok True) st'"
  have "mutex_free_in ops (cw_state w)"
    using m mutex_own(1) [OF assms(1)] mutex_other(2) [OF assms(1)]
    by (cases "mutex_holder ops (the_mutex (cond_mutex (cw_state w)))") (auto simp: mutex_free_in_def, metis option.distinct(1) option.inject pthread_code.distinct prod.inject)
  then show "lock_ready s c (cond_self (cw_state w)) \<and> cond_self st' = taken_by t (cond_self (cw_state w))"
    using wake_call [OF assms(1) _ m code, of c] call by (auto split: if_splits)
qed

lemma one_owner: "world_sound ops w \<Longrightarrow> cw_owners w = owners_of (cond_self (cw_state w)) \<and> card (cw_owners w) \<le> 1"
  by (cases "lockOwner (cond_self (cw_state w))") (auto simp: world_sound_def condition_ok_def owners_of_def)

text \<open>
  What it means that a thread gets the lock: no thread owned it, the condition was the one asked for, if
  the strategy is one that asks for a condition, and only the owner changes.
\<close>

definition grant_allowed ::
  "'m condition_world \<Rightarrow> nat \<Rightarrow> RKConditionLockStrategy \<Rightarrow> u64 \<Rightarrow> 'm condition_state \<Rightarrow> bool" where
  "grant_allowed w t s c st' \<longleftrightarrow>
     cw_owners w = {} \<and>
     (s \<in> {RKConditionLockWhenCondition, RKConditionLockTryWhenCondition, RKConditionLockTryWhenConditionUntilTime,
        RKConditionLockTryWhenConditionRelativeTime} \<longrightarrow> currentLockCondition (cond_self (cw_state w)) = c) \<and>
     cond_self st' = taken_by t (cond_self (cw_state w))"

lemma grant_allowed_ready:
  assumes "world_sound ops w"
    and "lock_ready s c (cond_self (cw_state w)) \<and> cond_self st' = taken_by t (cond_self (cw_state w))"
  shows "grant_allowed w t s c st'"
  using one_owner [OF assms(1)] owners_ready assms(2)
  by (auto simp: grant_allowed_def lock_ready_def lockOnAnyCondition_def)

lemma owner_unlocks:
  assumes ops: "mutex_documented ops" and sound: "world_sound ops w"
    and call: "unlockWithCondition ops True t c (cw_state w) = Some (Ok (), st')"
  shows "cw_owners w = {t} \<and> cond_self st' = given_up c (cond_self (cw_state w))"
proof (cases "mutex_free_in ops (cw_state w)")
  case True
  then have "isLockedByCurrentThread (cond_self (cw_state w)) t" "cond_self st' = given_up c (cond_self (cw_state w))"
    using unlock_call [OF ops True, of True t c RKConditionUnlockAndWakeAll] call
    by (auto simp: unlockWithCondition_def split: if_splits)
  then show ?thesis using one_owner [OF sound] by (auto simp: owners_of_def isLockedByCurrentThread_def)
next
  case False
  then obtain u where "mutex_left_by ops u w" using sound by (auto simp: world_sound_def)
  then show ?thesis
    using unlock_call_stuck [OF ops, of "cw_state w" u True t c RKConditionUnlockAndWakeAll] call
    by (auto simp: mutex_left_by_def unlockWithCondition_def)
qed

text \<open>
  C16. \<open>RKConditionLock\<close> excludes: whatever calls any threads make in whatever order, also such that raise, at most one
  thread owns the lock, and the object says which. A call that answers \<open>YES\<close> at once, and a thread that comes back
  from its wait with the mutex and answers \<open>YES\<close>, whether it was woken or ran out of time, gets the lock only if no thread
  owned it and the condition was then the one asked for, and only becomes the owner; \<open>unlockWithCondition:\<close> of the
  owner gives the lock up with the new condition.
\<close>

theorem condition_lock_excludes:
  assumes "mutex_documented ops" "new_condition_world ops w" "condition_run ops w w'"
  shows "cw_owners w' = owners_of (cond_self (cw_state w')) \<and> card (cw_owners w') \<le> 1 \<and>
    (RKFastConditionLock ops True t c s (cw_state w') = Answers (Ok True) st' \<longrightarrow> grant_allowed w' t s c st') \<and>
    (mutex_lock ops t (the_mutex (cond_mutex (cw_state w'))) = Some (Success, m) \<and>
       (code = Success \<or> code = ETIMEDOUT \<and> canTimeOut s) \<and>
       condition_wake ops s c t code ((cw_state w')\<lparr>cond_mutex := (cond_mutex (cw_state w'))\<lparr>the_mutex := m\<rparr>\<rparr>) = Answers (Ok True) st' \<longrightarrow>
       grant_allowed w' t s c st') \<and>
    (unlockWithCondition ops True t c (cw_state w') = Some (Ok (), st') \<longrightarrow>
      cw_owners w' = {t} \<and> cond_self st' = given_up c (cond_self (cw_state w')))"
proof -
  have sound: "world_sound ops w'" using world_run [OF assms(1,3)] new_world_sound [OF assms(2)] by blast
  show ?thesis
    using one_owner [OF sound] owner_unlocks [OF assms(1) sound] grant_allowed_ready [OF sound]
      gets_lock [OF assms(1) sound] by blast
qed

lemma condition_exception_kills:
  assumes ops: "mutex_documented ops" and sound: "world_sound ops w" and free: "mutex_free_in ops (cw_state w)" and t: "t \<in> cw_owners w"
  shows "\<exists>w1. condition_step ops w w1 \<and>
      condition_lock ops True t (cw_state w) = Answers (Raise RKConditionLockException) (cw_state w1) \<and>
      (\<forall>w2. condition_run ops w1 w2 \<longrightarrow> w2 = w1) \<and> t \<in> cw_owners w1 \<and>
      condition_unlock ops True t (cw_state w1) = Some (Raise RKLockingException, cw_state w1)"
    and "u \<noteq> t \<Longrightarrow> cw_waiting w u = None \<Longrightarrow> \<exists>w1. condition_step ops w w1 \<and>
      condition_unlock ops True u (cw_state w) = Some (Raise RKConditionLockException, cw_state w1) \<and>
      (\<forall>w2. condition_run ops w1 w2 \<longrightarrow> w2 = w1) \<and> t \<in> cw_owners w1 \<and>
      condition_unlock ops True t (cw_state w1) = None"
proof -
  let ?self = "cond_self (cw_state w)"
  have own: "conditionIsLocked ?self" "lockOwner ?self = Some t" "cw_waiting w t = None"
    using sound t by (auto simp: world_sound_def condition_ok_def owners_iff isLockedByCurrentThread_def)
  have unready: "\<not> lock_ready RKConditionLockAnyCondition 0 ?self" "\<not> tryToLock RKConditionLockAnyCondition"
    using own by (simp_all add: lock_ready_def tryToLock_def)
  obtain st where st: "RKFastConditionLock ops True t 0 RKConditionLockAnyCondition (cw_state w) = Answers (Raise RKConditionLockException) st"
      "mutex_holder ops (the_mutex (cond_mutex st)) = Some t"
    using lock_call [OF ops free, of True t 0 RKConditionLockAnyCondition] own unready by auto
  define w1 where "w1 = after_answer t RKConditionLockAnyCondition 0 (Answers (Raise RKConditionLockException) st) w"
  have step: "condition_step ops w w1" unfolding w1_def by (rule calls_lock [OF own(3) st(1)])
  have left: "mutex_left_by ops t w1" using st(2) by (simp add: w1_def mutex_left_by_def)
  have "condition_unlock ops True t (cw_state w1) = Some (Raise RKLockingException, cw_state w1)"
    using mutex_lock_held(2) [OF ops st(2), of True t] by (simp add: w1_def condition_unlock_def RKFastConditionUnlock_def)
  moreover have "t \<in> cw_owners w1" "cw_state w1 = st" using t by (simp_all add: w1_def)
  ultimately show "\<exists>w1. condition_step ops w w1 \<and>
      condition_lock ops True t (cw_state w) = Answers (Raise RKConditionLockException) (cw_state w1) \<and>
      (\<forall>w2. condition_run ops w1 w2 \<longrightarrow> w2 = w1) \<and> t \<in> cw_owners w1 \<and>
      condition_unlock ops True t (cw_state w1) = Some (Raise RKLockingException, cw_state w1)"
    using step st(1) stuck_run [OF ops _ left] by (auto simp: condition_lock_def)
next
  let ?self = "cond_self (cw_state w)"
  assume u: "u \<noteq> t" "cw_waiting w u = None"
  have own: "conditionIsLocked ?self" "lockOwner ?self = Some t"
    using sound t by (auto simp: world_sound_def condition_ok_def owners_iff isLockedByCurrentThread_def)
  obtain st where st: "condition_unlock ops True u (cw_state w) = Some (Raise RKConditionLockException, st)"
      "mutex_holder ops (the_mutex (cond_mutex st)) = Some u"
    using unlock_call [OF ops free, of True u "currentLockCondition ?self" RKConditionUnlockAndWakeAll] own u(1)
    by (auto simp: condition_unlock_def isLockedByCurrentThread_def)
  define w1 where "w1 = w\<lparr>cw_state := st\<rparr>"
  have step: "condition_step ops w w1"
    using calls_unlock [OF u(2) st(1) [unfolded condition_unlock_def]] by (simp add: w1_def)
  have left: "mutex_left_by ops u w1" using st(2) u(2) by (simp add: w1_def mutex_left_by_def)
  have "condition_unlock ops True t (cw_state w1) = None"
    using mutex_lock_held(2) [OF ops st(2), of True t] u(1) by (simp add: w1_def condition_unlock_def RKFastConditionUnlock_def)
  moreover have "t \<in> cw_owners w1" "cw_state w1 = st" using t by (simp_all add: w1_def)
  ultimately show "\<exists>w1. condition_step ops w w1 \<and>
      condition_unlock ops True u (cw_state w) = Some (Raise RKConditionLockException, cw_state w1) \<and>
      (\<forall>w2. condition_run ops w1 w2 \<longrightarrow> w2 = w1) \<and> t \<in> cw_owners w1 \<and>
      condition_unlock ops True t (cw_state w1) = None"
    using step st(1) stuck_run [OF ops _ left] by auto
qed

text \<open>
  C17. An exception of \<open>RKConditionLock\<close> kills the lock. If the owner calls \<open>lock\<close> again, or another thread calls
  \<open>unlock\<close>, the exception leaves the mutex locked: from then on nothing that any thread does changes anything, the
  owner owns the lock for ever, and its \<open>unlock\<close> raises in the first case and waits for ever in the second.
\<close>

theorem condition_exception_deadlocks:
  assumes "mutex_documented ops" "new_condition_world ops w0" "condition_run ops w0 w"
    and "mutex_free_in ops (cw_state w)" "t \<in> cw_owners w" "u \<noteq> t" "cw_waiting w u = None"
  shows "(\<exists>w1. condition_step ops w w1 \<and>
      condition_lock ops True t (cw_state w) = Answers (Raise RKConditionLockException) (cw_state w1) \<and>
      (\<forall>w2. condition_run ops w1 w2 \<longrightarrow> w2 = w1) \<and> t \<in> cw_owners w1 \<and>
      condition_unlock ops True t (cw_state w1) = Some (Raise RKLockingException, cw_state w1)) \<and>
    (\<exists>w1. condition_step ops w w1 \<and>
      condition_unlock ops True u (cw_state w) = Some (Raise RKConditionLockException, cw_state w1) \<and>
      (\<forall>w2. condition_run ops w1 w2 \<longrightarrow> w2 = w1) \<and> t \<in> cw_owners w1 \<and>
      condition_unlock ops True t (cw_state w1) = None)"
proof -
  have "world_sound ops w" using world_run [OF assms(1,3)] new_world_sound [OF assms(2)] by blast
  then show ?thesis using condition_exception_kills [OF assms(1) _ assms(4,5)] assms(6,7) by blast
qed

section \<open>The methods and their strategies\<close>

text \<open>\<open>tryLock\<close> waits like \<open>lock\<close>; a strategy that really tries does not.\<close>

lemma tryLock_waits:
  assumes "mutex_documented ops" "mutex_free_in ops st" "conditionIsLocked (cond_self st)" "lockOwner (cond_self st) \<noteq> Some t"
  shows "\<exists>st'. condition_tryLock ops mt t st = Waits st'"
    and "\<exists>st'. tryLockWhenCondition ops mt t c st = Answers (Ok False) st'"
  using lock_call [OF assms(1,2), of mt t 0 RKConditionLockAnyCondition]
    lock_call [OF assms(1,2), of mt t c RKConditionLockTryWhenCondition] assms(3,4)
  by (auto simp: condition_tryLock_def tryLockWhenCondition_def lock_ready_def tryToLock_def)

text \<open>The date of \<open>lockBeforeDate:\<close> is dropped: the wait ends in 1970, that is, at once.\<close>

lemma date_ignored:
  "wait_deadline RKConditionLockTryAnyConditionUntilTime date now = 0"
  "wait_deadline RKConditionLockTryWhenConditionUntilTime date now = 0"
  by (simp_all add: wait_deadline_def canTimeOut_def isRelativeTime_def)

section \<open>Witnesses\<close>

definition idle_condition_world :: "nat option condition_world" where
  "idle_condition_world =
     \<lparr>cw_state = \<lparr>cond_self = \<lparr>conditionIsLocked = False, lockOwner = None, currentLockCondition = 3\<rparr>,
        cond_mutex = \<lparr>the_mutex = None, globalIsMultiThreaded = True\<rparr>\<rparr>,
      cw_waiting = (\<lambda>t. None), cw_owners = {}\<rparr>"

definition taken_state :: "nat option condition_state" where
  "taken_state = \<lparr>cond_self = \<lparr>conditionIsLocked = True, lockOwner = Some 7, currentLockCondition = 3\<rparr>,
     cond_mutex = \<lparr>the_mutex = None, globalIsMultiThreaded = True\<rparr>\<rparr>"

lemma idle_new_condition: "new_condition_world holder_ops idle_condition_world"
  by (simp add: new_condition_world_def idle_condition_world_def mutex_free_in_def holder_ops_def)

lemma idle_taken:
  "RKFastConditionLock holder_ops True 7 3 RKConditionLockWhenCondition (cw_state idle_condition_world) = Answers (Ok True) taken_state"
  by (simp add: RKFastConditionLock_def RKFastMutexLock_def RKFastMutexUnlock_def condition_loop_def exit_lock_def lock_ready_def
      tryToLock_def lockOnAnyCondition_def idle_condition_world_def taken_state_def holder_ops_def)

definition taken_world :: "nat option condition_world" where
  "taken_world = after_answer 7 RKConditionLockWhenCondition 3 (Answers (Ok True) taken_state) idle_condition_world"

lemma taken_reachable: "condition_run holder_ops idle_condition_world taken_world"
  unfolding taken_world_def
  by (rule runs_on [OF runs_none calls_lock [OF _ idle_taken]]) (simp add: idle_condition_world_def)

text \<open>A thread that waits for the condition 4 and is woken when the lock is free with this condition.\<close>

definition free_state :: "nat option \<Rightarrow> nat option condition_state" where
  "free_state holder = \<lparr>cond_self = \<lparr>conditionIsLocked = False, lockOwner = None, currentLockCondition = 4\<rparr>,
     cond_mutex = \<lparr>the_mutex = holder, globalIsMultiThreaded = True\<rparr>\<rparr>"

definition free_world :: "nat option condition_world" where
  "free_world = \<lparr>cw_state = free_state None, cw_waiting = (\<lambda>t. None), cw_owners = {}\<rparr>"

lemma free_new_condition: "new_condition_world holder_ops free_world"
  by (simp add: new_condition_world_def free_world_def free_state_def mutex_free_in_def holder_ops_def)

theorem condition_lock_excludes_witness:
  "card (cw_owners taken_world) \<le> 1 \<and> grant_allowed idle_condition_world 7 RKConditionLockWhenCondition 3 taken_state \<and>
   (\<exists>st'. condition_wake holder_ops RKConditionLockWhenCondition 4 5 Success (free_state (Some 5)) = Answers (Ok True) st' \<and>
      grant_allowed free_world 5 RKConditionLockWhenCondition 4 st')"
proof -
  have m: "mutex_lock holder_ops 5 (the_mutex (cond_mutex (cw_state free_world))) = Some (Success, Some 5)"
    by (simp add: holder_ops_def free_world_def free_state_def)
  have woken: "(cw_state free_world)\<lparr>cond_mutex := (cond_mutex (cw_state free_world))\<lparr>the_mutex := Some 5\<rparr>\<rparr> = free_state (Some 5)"
    by (simp add: free_world_def free_state_def)
  obtain st' where st': "condition_wake holder_ops RKConditionLockWhenCondition 4 5 Success (free_state (Some 5)) = Answers (Ok True) st'"
    by (simp add: condition_wake_def condition_loop_def exit_lock_def RKFastMutexUnlock_def lock_ready_def
        lockOnAnyCondition_def free_state_def holder_ops_def)
  have "grant_allowed free_world 5 RKConditionLockWhenCondition 4 st'"
    using condition_lock_excludes [OF holder_ops_documented free_new_condition runs_none, of 5 4 RKConditionLockWhenCondition st' "Some 5" Success]
      m st' unfolding woken by simp
  then show ?thesis
    using condition_lock_excludes [OF holder_ops_documented idle_new_condition taken_reachable]
      condition_lock_excludes [OF holder_ops_documented idle_new_condition runs_none, of 7 3 RKConditionLockWhenCondition taken_state] idle_taken st'
    by blast
qed

theorem condition_exception_deadlocks_witness:
  "\<exists>w1. condition_step holder_ops taken_world w1 \<and> 7 \<in> cw_owners w1 \<and>
    condition_unlock holder_ops True 7 (cw_state w1) = Some (Raise RKLockingException, cw_state w1)"
proof -
  have free: "mutex_free_in holder_ops (cw_state taken_world)" "7 \<in> cw_owners taken_world" "cw_waiting taken_world 8 = None"
    by (simp_all add: taken_world_def taken_state_def mutex_free_in_def holder_ops_def idle_condition_world_def)
  show ?thesis
    using condition_exception_deadlocks [OF holder_ops_documented idle_new_condition taken_reachable free(1,2) _ free(3)] by auto
qed

end
