(* ===== verification/RK_ThreadPool.thy ===== *)
theory RK_ThreadPool
  imports RK_Prelude
begin

text \<open>
  \<open>RKThreadPool\<close>: the worker threads that run the function of a caller. The model is a step relation between the caller
  and the worker threads, at the grain of the sections that run under one \<open>RKConditionLock\<close>: a section that locks when
  a condition holds and unlocks with another is one step, every look at a condition without the lock is another.
\<close>

section \<open>Conditions, jobs and workers\<close>

definition RKThreadPoolStop :: u64 where "RKThreadPoolStop = 1"
definition RKThreadPoolThreadsReaped :: u64 where "RKThreadPoolThreadsReaped = 2"

datatype thread_condition =
    RKThreadConditionNotRunning | RKThreadConditionStarting | RKThreadConditionSleeping | RKThreadConditionWakeup
  | RKThreadConditionAwake | RKThreadConditionRunningJob

datatype job_condition =
    RKJobConditionAvailable | RKJobConditionExecuting | RKJobConditionFinishing | RKJobConditionCompleted

text \<open>A function with its argument is the number of the call that gave it. \<open>job_abandoned\<close>: its lock was left locked by an exception.\<close>

record pool_job =
  job_condition :: job_condition
  activeThreadsCount :: nat
  job_call :: "nat option"
  job_abandoned :: bool

text \<open>Where a worker is in \<open>workerThreadStart:\<close>, and where a caller is in \<open>threadFunction:argument:\<close>.\<close>

datatype worker_pc = NotStarted | Starting | LoopHead | WaitWakeup | Running | WaitRunning | Exiting | Gone

record pool_worker =
  thread_condition :: thread_condition
  threadQueue :: "nat option"
  currentJob :: "nat option"
  worker_pc :: worker_pc

datatype caller_pc =
    Outside | Seeking | Trying | Dispatching nat nat | Handing nat nat nat | InlineJob nat | WaitCompleted nat
  | Returned | Raised

text \<open>The pool, the callers, and the calls whose function has been run to its end at least once.\<close>

record pool =
  threadCount :: nat
  liveThreads :: nat
  stopped :: bool
  workers :: "nat \<Rightarrow> pool_worker"
  pool_jobs :: "nat \<Rightarrow> pool_job"
  callers :: "nat \<Rightarrow> caller_pc"
  executed :: "nat set"

definition new_worker :: pool_worker where
  "new_worker = \<lparr>thread_condition = RKThreadConditionStarting, threadQueue = None, currentJob = None, worker_pc = NotStarted\<rparr>"

definition new_job :: pool_job where
  "new_job = \<lparr>job_condition = RKJobConditionAvailable, activeThreadsCount = 0, job_call = None, job_abandoned = False\<rparr>"

text \<open>\<open>initWithThreadCount:error:\<close> with memory for everything.\<close>

definition initWithThreadCount :: "bool \<Rightarrow> nat \<Rightarrow> pool" where
  "initWithThreadCount isMultiThreaded initThreadCount =
     \<lparr>threadCount = (if isMultiThreaded then initThreadCount else 0), liveThreads = 0, stopped = False,
      workers = (\<lambda>w. new_worker), pool_jobs = (\<lambda>j. new_job), callers = (\<lambda>c. Outside), executed = {}\<rparr>"

section \<open>Updates\<close>

definition set_worker :: "nat \<Rightarrow> pool_worker \<Rightarrow> pool \<Rightarrow> pool" where
  "set_worker w x p = p\<lparr>workers := (workers p)(w := x)\<rparr>"

definition set_job :: "nat \<Rightarrow> pool_job \<Rightarrow> pool \<Rightarrow> pool" where
  "set_job j x p = p\<lparr>pool_jobs := (pool_jobs p)(j := x)\<rparr>"

definition set_caller :: "nat \<Rightarrow> caller_pc \<Rightarrow> pool \<Rightarrow> pool" where
  "set_caller c x p = p\<lparr>callers := (callers p)(c := x)\<rparr>"

definition run_inline :: "nat \<Rightarrow> pool \<Rightarrow> pool" where
  "run_inline c p = p\<lparr>executed := insert c (executed p)\<rparr>"

section \<open>The caller\<close>

text \<open>The lock of a job taken when it is available, given up with the function in it.\<close>

definition take_job :: "nat \<Rightarrow> pool_job \<Rightarrow> pool_job" where
  "take_job c job = job\<lparr>job_call := Some c, job_condition := RKJobConditionExecuting\<rparr>"

definition free_job :: "pool_job \<Rightarrow> pool_job" where
  "free_job job = job\<lparr>job_call := None, job_condition := RKJobConditionAvailable\<rparr>"

text \<open>What follows the loop that hands the job to workers.\<close>

definition exit_loop :: "nat \<Rightarrow> nat \<Rightarrow> caller_pc" where
  "exit_loop j startedJobThreads = (if startedJobThreads = 0 then InlineJob j else WaitCompleted j)"

inductive caller_step :: "nat \<Rightarrow> pool \<Rightarrow> pool \<Rightarrow> bool" for c where
  begins_inline: "callers p c = Outside \<Longrightarrow> caller_step c p (set_caller c Returned (run_inline c p))"
| begins: "callers p c = Outside \<Longrightarrow> threadCount p \<noteq> 0 \<Longrightarrow> liveThreads p \<noteq> 0 \<Longrightarrow> caller_step c p (set_caller c Seeking p)"
| seeks: "callers p c = Seeking \<Longrightarrow> \<not> stopped p \<Longrightarrow> liveThreads p > 0 \<Longrightarrow> caller_step c p (set_caller c Trying p)"
| seeks_no_more: "callers p c = Seeking \<Longrightarrow> stopped p \<or> liveThreads p = 0 \<Longrightarrow>
     caller_step c p (set_caller c Returned (run_inline c p))"
| takes: "callers p c = Trying \<Longrightarrow> j < threadCount p \<Longrightarrow> job_condition (pool_jobs p j) = RKJobConditionAvailable \<Longrightarrow>
     \<not> job_abandoned (pool_jobs p j) \<Longrightarrow>
     caller_step c p (set_caller c (Dispatching j 0) (set_job j (take_job c (pool_jobs p j)) p))"
| tries_again: "callers p c = Trying \<Longrightarrow> caller_step c p (set_caller c Seeking p)"
| hands: "callers p c = Dispatching j k \<Longrightarrow> w < threadCount p \<Longrightarrow>
     thread_condition (workers p w) = RKThreadConditionSleeping \<Longrightarrow> job_condition (pool_jobs p j) = RKJobConditionExecuting \<Longrightarrow>
     caller_step c p (set_caller c (Handing j k w)
       (set_worker w ((workers p w)\<lparr>threadQueue := Some j, thread_condition := RKThreadConditionWakeup\<rparr>) p))"
| handed: "callers p c = Handing j k w \<Longrightarrow> thread_condition (workers p w) = RKThreadConditionAwake \<Longrightarrow>
     caller_step c p (set_caller c (if liveThreads p \<le> k + 1 then exit_loop j (k + 1) else Dispatching j (k + 1))
       (set_worker w ((workers p w)\<lparr>thread_condition := RKThreadConditionRunningJob\<rparr>) p))"
| dispatched: "callers p c = Dispatching j k \<Longrightarrow>
     job_condition (pool_jobs p j) \<noteq> RKJobConditionExecuting \<or> liveThreads p \<le> k \<or> stopped p \<Longrightarrow>
     caller_step c p (set_caller c (exit_loop j k) p)"
| completes: "callers p c = WaitCompleted j \<Longrightarrow> job_condition (pool_jobs p j) = RKJobConditionCompleted \<Longrightarrow>
     activeThreadsCount (pool_jobs p j) = 0 \<Longrightarrow>
     caller_step c p (set_caller c Returned (set_job j (free_job (pool_jobs p j)) p))"
| completes_raises: "callers p c = WaitCompleted j \<Longrightarrow> job_condition (pool_jobs p j) = RKJobConditionCompleted \<Longrightarrow>
     activeThreadsCount (pool_jobs p j) \<noteq> 0 \<Longrightarrow>
     caller_step c p (set_caller c Raised (set_job j ((pool_jobs p j)\<lparr>job_abandoned := True\<rparr>) p))"
| inline_raises: "callers p c = InlineJob j \<Longrightarrow>
     caller_step c p (set_caller c Raised (set_job j ((pool_jobs p j)\<lparr>job_abandoned := True\<rparr>) (run_inline c p)))"

section \<open>The worker\<close>

definition job_is_executing :: "pool \<Rightarrow> nat \<Rightarrow> bool" where
  "job_is_executing p j \<longleftrightarrow> job_condition (pool_jobs p j) = RKJobConditionExecuting \<and> \<not> job_abandoned (pool_jobs p j)"

definition enter_job :: "pool_job \<Rightarrow> pool_job" where
  "enter_job job = job\<lparr>activeThreadsCount := activeThreadsCount job + 1\<rparr>"

definition leave_job :: "pool_job \<Rightarrow> pool_job" where
  "leave_job job = job\<lparr>activeThreadsCount := activeThreadsCount job - 1,
     job_condition := if activeThreadsCount job - 1 = 0 then RKJobConditionCompleted else RKJobConditionFinishing\<rparr>"

definition awake :: "nat option \<Rightarrow> pool_worker \<Rightarrow> pool_worker" where
  "awake job x = x\<lparr>threadQueue := None, currentJob := job, thread_condition := RKThreadConditionAwake,
     worker_pc := if job = None then WaitRunning else Running\<rparr>"

definition exits :: "pool_worker \<Rightarrow> pool_worker" where
  "exits x = x\<lparr>thread_condition := RKThreadConditionNotRunning, worker_pc := Gone\<rparr>"

inductive worker_step :: "nat \<Rightarrow> pool \<Rightarrow> pool \<Rightarrow> bool" for w where
  starts: "worker_pc (workers p w) = NotStarted \<Longrightarrow>
     worker_step w p (set_worker w ((workers p w)\<lparr>worker_pc := Starting\<rparr>) (p\<lparr>liveThreads := liveThreads p + 1\<rparr>))"
| goes_to_sleep: "worker_pc (workers p w) = Starting \<Longrightarrow> thread_condition (workers p w) = RKThreadConditionStarting \<Longrightarrow>
     worker_step w p (set_worker w ((workers p w)\<lparr>thread_condition := RKThreadConditionSleeping, worker_pc := LoopHead\<rparr>) p)"
| loops: "worker_pc (workers p w) = LoopHead \<Longrightarrow>
     worker_step w p (set_worker w ((workers p w)\<lparr>worker_pc := if stopped p then Exiting else WaitWakeup\<rparr>) p)"
| wakes_to_exit: "worker_pc (workers p w) = WaitWakeup \<Longrightarrow> thread_condition (workers p w) = RKThreadConditionWakeup \<Longrightarrow> stopped p \<Longrightarrow>
     worker_step w p (set_worker w (exits (workers p w)) (p\<lparr>liveThreads := liveThreads p - 1\<rparr>))"
| wakes_for_job: "worker_pc (workers p w) = WaitWakeup \<Longrightarrow> thread_condition (workers p w) = RKThreadConditionWakeup \<Longrightarrow>
     \<not> stopped p \<Longrightarrow> threadQueue (workers p w) = Some j \<Longrightarrow> job_is_executing p j \<Longrightarrow>
     worker_step w p (set_worker w (awake (Some j) (workers p w)) (set_job j (enter_job (pool_jobs p j)) p))"
| wakes_for_nothing: "worker_pc (workers p w) = WaitWakeup \<Longrightarrow> thread_condition (workers p w) = RKThreadConditionWakeup \<Longrightarrow>
     \<not> stopped p \<Longrightarrow>
     (case threadQueue (workers p w) of None \<Rightarrow> True
      | Some j \<Rightarrow> \<not> job_abandoned (pool_jobs p j) \<and> job_condition (pool_jobs p j) \<noteq> RKJobConditionExecuting) \<Longrightarrow>
     worker_step w p (set_worker w (awake None (workers p w)) p)"
| runs: "worker_pc (workers p w) = Running \<Longrightarrow> currentJob (workers p w) = Some j \<Longrightarrow> job_call (pool_jobs p j) = Some c \<Longrightarrow>
     \<not> job_abandoned (pool_jobs p j) \<Longrightarrow>
     job_condition (pool_jobs p j) = RKJobConditionExecuting \<or> job_condition (pool_jobs p j) = RKJobConditionFinishing \<Longrightarrow>
     worker_step w p (set_worker w ((workers p w)\<lparr>currentJob := None, worker_pc := WaitRunning\<rparr>)
       (set_job j (leave_job (pool_jobs p j)) (run_inline c p)))"
| sleeps_again: "worker_pc (workers p w) = WaitRunning \<Longrightarrow> thread_condition (workers p w) = RKThreadConditionRunningJob \<Longrightarrow>
     worker_step w p (set_worker w ((workers p w)\<lparr>thread_condition := RKThreadConditionSleeping, worker_pc := LoopHead\<rparr>) p)"
| leaves: "worker_pc (workers p w) = Exiting \<Longrightarrow>
     worker_step w p (set_worker w (exits (workers p w)) (p\<lparr>liveThreads := liveThreads p - 1\<rparr>))"

text \<open>
  \<open>wakeThread:\<close> takes the lock of a worker, within half a second, and unlocks with the condition that it found: the pool
  is as before. \<open>reapThreads\<close> sets the stop flag, and then calls \<open>wakeThread:\<close> for each worker until none is alive.
\<close>

definition wakeThread :: "bool \<Rightarrow> nat \<Rightarrow> pool \<Rightarrow> (bool \<times> pool) run" where
  "wakeThread locks_in_time threadNumber p =
     (if threadNumber > threadCount p then Raise NSInvalidArgumentException
      else if threadNumber = threadCount p then Undefined
      else Ok (locks_in_time, if locks_in_time
        then set_worker threadNumber ((workers p threadNumber)\<lparr>thread_condition := thread_condition (workers p threadNumber)\<rparr>) p
        else p))"

definition reaped_control :: "u64 \<Rightarrow> u64" where
  "reaped_control control = (if control = RKThreadPoolStop then RKThreadPoolStop AND RKThreadPoolThreadsReaped else control)"

inductive pool_step :: "pool \<Rightarrow> pool \<Rightarrow> bool" where
  caller: "caller_step c p p' \<Longrightarrow> pool_step p p'"
| worker: "w < threadCount p \<Longrightarrow> worker_step w p p' \<Longrightarrow> pool_step p p'"
| stops: "pool_step p (p\<lparr>stopped := True\<rparr>)"

inductive pool_run :: "pool \<Rightarrow> pool \<Rightarrow> bool" where
  pool_here: "pool_run p p"
| pool_on: "pool_run p p' \<Longrightarrow> pool_step p' p'' \<Longrightarrow> pool_run p p''"

lemma reaped_control_lost: "reaped_control RKThreadPoolStop = 0"
  by (simp add: reaped_control_def RKThreadPoolStop_def RKThreadPoolThreadsReaped_def)

lemma wakeThread_wakes_nothing: "wakeThread b w p = Ok (b', p') \<Longrightarrow> p' = p"
  by (cases p) (simp add: wakeThread_def set_worker_def split: if_splits)

section \<open>The invariant\<close>

text \<open>A caller that has a job: between taking it and giving it back.\<close>

fun has_job :: "caller_pc \<Rightarrow> nat \<Rightarrow> bool" where
  "has_job (Dispatching j k) i \<longleftrightarrow> i = j"
| "has_job (Handing j k w) i \<longleftrightarrow> i = j"
| "has_job (InlineJob j) i \<longleftrightarrow> i = j"
| "has_job (WaitCompleted j) i \<longleftrightarrow> i = j"
| "has_job pc i \<longleftrightarrow> False"

definition running_in :: "pool \<Rightarrow> nat \<Rightarrow> nat set" where
  "running_in p j = {w. w < threadCount p \<and> currentJob (workers p w) = Some j}"

definition workers_ok :: "pool \<Rightarrow> bool" where
  "workers_ok p \<longleftrightarrow> (\<forall>w. currentJob (workers p w) \<noteq> None \<longleftrightarrow> worker_pc (workers p w) = Running)"

definition count_ok :: "pool \<Rightarrow> bool" where
  "count_ok p \<longleftrightarrow> (\<forall>j. activeThreadsCount (pool_jobs p j) = card (running_in p j))"

definition job_ok :: "pool_job \<Rightarrow> bool" where
  "job_ok job \<longleftrightarrow>
     (job_call job = None \<longleftrightarrow> job_condition job = RKJobConditionAvailable) \<and>
     (job_condition job = RKJobConditionAvailable \<longrightarrow> activeThreadsCount job = 0 \<and> \<not> job_abandoned job) \<and>
     (job_condition job = RKJobConditionCompleted \<longrightarrow> activeThreadsCount job = 0) \<and>
     (job_condition job = RKJobConditionFinishing \<longrightarrow> activeThreadsCount job \<noteq> 0) \<and>
     (job_abandoned job \<longrightarrow> activeThreadsCount job = 0)"

definition jobs_ok :: "pool \<Rightarrow> bool" where
  "jobs_ok p \<longleftrightarrow> (\<forall>j. job_ok (pool_jobs p j))"

definition callers_ok :: "pool \<Rightarrow> bool" where
  "callers_ok p \<longleftrightarrow> (\<forall>j c.
     (has_job (callers p c) j \<longrightarrow> job_call (pool_jobs p j) = Some c \<and> \<not> job_abandoned (pool_jobs p j)) \<and>
     (job_call (pool_jobs p j) = Some c \<longrightarrow> has_job (callers p c) j \<or> job_abandoned (pool_jobs p j) \<and> callers p c = Raised))"

definition executed_ok :: "pool \<Rightarrow> bool" where
  "executed_ok p \<longleftrightarrow> (\<forall>c. callers p c = Returned \<longrightarrow> c \<in> executed p) \<and>
     (\<forall>j c. job_call (pool_jobs p j) = Some c \<longrightarrow>
        job_condition (pool_jobs p j) = RKJobConditionFinishing \<or> job_condition (pool_jobs p j) = RKJobConditionCompleted \<longrightarrow> c \<in> executed p)"

definition queue_ok :: "pool \<Rightarrow> bool" where
  "queue_ok p \<longleftrightarrow> (\<forall>w j. threadQueue (workers p w) = Some j \<longrightarrow>
     thread_condition (workers p w) \<noteq> RKThreadConditionAwake \<and> (\<exists>c k. callers p c = Handing j k w))"

definition unhanded :: "caller_pc \<Rightarrow> nat \<Rightarrow> bool" where
  "unhanded pc j \<longleftrightarrow> pc = Dispatching j 0 \<or> pc = InlineJob j"

definition first_ok :: "pool \<Rightarrow> bool" where
  "first_ok p \<longleftrightarrow> (\<forall>c j. unhanded (callers p c) j \<longrightarrow>
     job_condition (pool_jobs p j) = RKJobConditionExecuting \<and> activeThreadsCount (pool_jobs p j) = 0)"

definition pool_ok :: "pool \<Rightarrow> bool" where
  "pool_ok p \<longleftrightarrow> workers_ok p \<and> count_ok p \<and> jobs_ok p \<and> callers_ok p \<and> executed_ok p \<and> queue_ok p \<and> first_ok p"

lemmas pool_updates = set_worker_def set_job_def set_caller_def run_inline_def take_job_def free_job_def exit_loop_def
  enter_job_def leave_job_def awake_def exits_def job_is_executing_def

lemma unhanded_has_job: "unhanded pc j \<Longrightarrow> has_job pc j"
  by (auto simp: unhanded_def)

lemma same_running: "threadCount p' = threadCount p \<Longrightarrow> (\<And>w. currentJob (workers p' w) = currentJob (workers p w)) \<Longrightarrow>
    running_in p' j = running_in p j"
  by (simp add: running_in_def)

lemma finite_running: "finite (running_in p j)"
  by (rule finite_subset [of _ "{..<threadCount p}"]) (auto simp: running_in_def)

lemma caller_keeps_workers: "caller_step c p p' \<Longrightarrow> workers_ok p \<Longrightarrow> workers_ok p'"
  by (induction rule: caller_step.induct) (auto simp: workers_ok_def pool_updates)

lemma caller_running: "caller_step c p p' \<Longrightarrow> running_in p' j = running_in p j"
  by (induction rule: caller_step.induct) (auto simp: running_in_def pool_updates)

lemma caller_keeps_count: "caller_step c p p' \<Longrightarrow> count_ok p \<Longrightarrow> count_ok p'"
proof -
  assume step: "caller_step c p p'" and ok: "count_ok p"
  from step have "activeThreadsCount (pool_jobs p' j) = activeThreadsCount (pool_jobs p j)" for j
    by (induction rule: caller_step.induct) (auto simp: pool_updates)
  then show ?thesis using ok caller_running [OF step] by (simp add: count_ok_def)
qed

text \<open>How the parts of the invariant are used and shown.\<close>

lemma callersI:
  "(\<And>j c. has_job (callers p c) j \<Longrightarrow> job_call (pool_jobs p j) = Some c \<and> \<not> job_abandoned (pool_jobs p j)) \<Longrightarrow>
   (\<And>j c. job_call (pool_jobs p j) = Some c \<Longrightarrow> has_job (callers p c) j \<or> job_abandoned (pool_jobs p j) \<and> callers p c = Raised) \<Longrightarrow>
   callers_ok p"
  by (auto simp: callers_ok_def)

lemma callersD:
  "pool_ok p \<Longrightarrow> has_job (callers p c) j \<Longrightarrow> job_call (pool_jobs p j) = Some c \<and> \<not> job_abandoned (pool_jobs p j)"
  "pool_ok p \<Longrightarrow> job_call (pool_jobs p j) = Some c \<Longrightarrow> has_job (callers p c) j \<or> job_abandoned (pool_jobs p j) \<and> callers p c = Raised"
  by (auto simp: pool_ok_def callers_ok_def)

lemma jobsD: "pool_ok p \<Longrightarrow> job_ok (pool_jobs p j)"
  by (simp add: pool_ok_def jobs_ok_def)

lemma executedD:
  "pool_ok p \<Longrightarrow> callers p c = Returned \<Longrightarrow> c \<in> executed p"
  "pool_ok p \<Longrightarrow> job_call (pool_jobs p j) = Some c \<Longrightarrow>
     job_condition (pool_jobs p j) = RKJobConditionFinishing \<or> job_condition (pool_jobs p j) = RKJobConditionCompleted \<Longrightarrow> c \<in> executed p"
  by (auto simp: pool_ok_def executed_ok_def)

lemma queueD:
  "pool_ok p \<Longrightarrow> threadQueue (workers p w) = Some j \<Longrightarrow>
     thread_condition (workers p w) \<noteq> RKThreadConditionAwake \<and> (\<exists>c k. callers p c = Handing j k w)"
  by (simp add: pool_ok_def queue_ok_def)

lemma firstD:
  "pool_ok p \<Longrightarrow> unhanded (callers p c) j \<Longrightarrow> job_condition (pool_jobs p j) = RKJobConditionExecuting \<and> activeThreadsCount (pool_jobs p j) = 0"
  by (simp add: pool_ok_def first_ok_def)

text \<open>A caller without a job has none of the jobs, one with a job just that.\<close>

lemma has_job_unique: "has_job pc i \<Longrightarrow> has_job pc j \<Longrightarrow> i = j"
  by (cases pc) auto

lemma job_has_one_caller: "pool_ok p \<Longrightarrow> has_job (callers p c) j \<Longrightarrow> has_job (callers p d) j \<Longrightarrow> c = d"
  using callersD(1) by (metis option.inject)

lemma caller_keeps_jobs: "caller_step c p p' \<Longrightarrow> pool_ok p \<Longrightarrow> jobs_ok p'"
proof (induction rule: caller_step.induct)
  case (completes p j)
  then show ?case using callersD(1) [of p c j] jobsD [of p] by (auto simp: jobs_ok_def job_ok_def pool_updates)
next
  case (completes_raises p j)
  then show ?case using jobsD [of p j] by (simp add: job_ok_def)
next
  case (inline_raises p j)
  have "unhanded (callers p c) j" using inline_raises by (simp add: unhanded_def)
  then show ?case using inline_raises firstD [of p c j] jobsD [of p] by (auto simp: jobs_ok_def job_ok_def pool_updates)
qed (auto simp: jobs_ok_def pool_updates dest: jobsD, auto simp: job_ok_def dest: jobsD)

lemma caller_keeps_callers: "caller_step c p p' \<Longrightarrow> pool_ok p \<Longrightarrow> callers_ok p'"
proof (induction rule: caller_step.induct)
  case (takes p j)
  have "job_call (pool_jobs p j) = None" using takes jobsD [of p j] by (simp add: job_ok_def)
  then show ?case
    using takes callersD(1) [of p] callersD(2) [of p] by (intro callersI) (force simp: pool_updates split: if_splits)+
next
  case (completes p j)
  then have c: "job_call (pool_jobs p j) = Some c" using callersD(1) [of p c j] by simp
  show ?case
    using completes c callersD(1) [of p] callersD(2) [of p] by (intro callersI) (fastforce simp: pool_updates split: if_splits)+
next
  case (completes_raises p j)
  then show ?case using jobsD [of p j] by (simp add: job_ok_def)
next
  case (inline_raises p j)
  then have c: "job_call (pool_jobs p j) = Some c" using callersD(1) [of p c j] by simp
  show ?case
    using inline_raises c callersD(1) [of p] callersD(2) [of p] by (intro callersI) (fastforce simp: pool_updates split: if_splits)+
qed (intro callersI; fastforce simp: pool_updates dest: callersD split: if_splits)+

lemma caller_keeps_executed: "caller_step c p p' \<Longrightarrow> pool_ok p \<Longrightarrow> executed_ok p'"
proof (induction rule: caller_step.induct)
  case (completes p j)
  then have "c \<in> executed p" using callersD(1) [of p c j] executedD(2) [of p j c] by simp
  then show ?case using completes executedD [OF completes(4)] by (auto simp: executed_ok_def pool_updates split: if_splits)
qed (auto simp: executed_ok_def pool_updates dest: executedD split: if_splits)

lemma queue_step:
  assumes "pool_ok p" "\<And>d. d \<noteq> c \<Longrightarrow> callers p' d = callers p d"
    and "\<And>w j. threadQueue (workers p' w) = Some j \<Longrightarrow>
      threadQueue (workers p w) = Some j \<and> thread_condition (workers p' w) = thread_condition (workers p w) \<and>
        (\<forall>k. callers p c \<noteq> Handing j k w) \<or>
      thread_condition (workers p' w) \<noteq> RKThreadConditionAwake \<and> (\<exists>k. callers p' c = Handing j k w)"
  shows "queue_ok p'"
  unfolding queue_ok_def
proof (intro allI impI)
  fix w j
  assume q: "threadQueue (workers p' w) = Some j"
  show "thread_condition (workers p' w) \<noteq> RKThreadConditionAwake \<and> (\<exists>c k. callers p' c = Handing j k w)"
    using assms(3) [OF q]
  proof
    assume old: "threadQueue (workers p w) = Some j \<and> thread_condition (workers p' w) = thread_condition (workers p w) \<and>
        (\<forall>k. callers p c \<noteq> Handing j k w)"
    then obtain d k where d: "callers p d = Handing j k w" "thread_condition (workers p w) \<noteq> RKThreadConditionAwake"
      using queueD [OF assms(1), of w j] by blast
    then have "callers p' d = Handing j k w" using old assms(2) [of d] by metis
    then show ?thesis using d(2) old by metis
  qed blast
qed

lemma caller_keeps_queue: "caller_step c p p' \<Longrightarrow> pool_ok p \<Longrightarrow> queue_ok p'"
proof (induction rule: caller_step.induct)
  case (handed p j k w)
  then show ?case
    by (intro queue_step [of p c]) (auto simp: pool_updates dest: queueD split: if_splits)
qed (rule queue_step [of _ c], assumption, simp add: pool_updates, force simp: pool_updates split: if_splits)+

lemma firstI:
  assumes "pool_ok p"
    and "\<And>d j. unhanded (callers p' d) j \<Longrightarrow>
      unhanded (callers p d) j \<and> job_condition (pool_jobs p' j) = job_condition (pool_jobs p j) \<and>
        activeThreadsCount (pool_jobs p' j) = activeThreadsCount (pool_jobs p j) \<or>
      job_condition (pool_jobs p' j) = RKJobConditionExecuting \<and> activeThreadsCount (pool_jobs p' j) = 0"
  shows "first_ok p'"
  unfolding first_ok_def using assms(2) firstD [OF assms(1)] by metis

lemma caller_keeps_first: "caller_step c p p' \<Longrightarrow> pool_ok p \<Longrightarrow> first_ok p'"
proof (induction rule: caller_step.induct)
  case (takes p j)
  have "activeThreadsCount (pool_jobs p j) = 0" using takes jobsD [of p j] by (simp add: job_ok_def)
  then show ?case
    using takes firstD [of p _ j] by (intro firstI [of p]) (auto simp: pool_updates unhanded_def split: if_splits)
next
  case (completes p j)
  then show ?case
    using firstD [of p _ j] by (intro firstI [of p]) (auto simp: pool_updates unhanded_def split: if_splits)
qed (rule firstI, assumption, force simp: pool_updates unhanded_def split: if_splits)+

section \<open>The steps of the workers\<close>

lemma worker_keeps_workers: "worker_step w p p' \<Longrightarrow> workers_ok p \<Longrightarrow> workers_ok p'"
  by (induction rule: worker_step.induct) (auto simp: workers_ok_def pool_updates split: if_splits)

lemma currentD: "pool_ok p \<Longrightarrow> currentJob (workers p w) = Some j \<longleftrightarrow> worker_pc (workers p w) = Running \<and> currentJob (workers p w) = Some j"
  by (auto simp: pool_ok_def workers_ok_def)

lemma countD: "pool_ok p \<Longrightarrow> activeThreadsCount (pool_jobs p j) = card (running_in p j)"
  by (simp add: pool_ok_def count_ok_def)

lemma countI:
  assumes "pool_ok p" "threadCount p' = threadCount p" "\<And>v. currentJob (workers p' v) = currentJob (workers p v)"
    and "\<And>j. activeThreadsCount (pool_jobs p' j) = activeThreadsCount (pool_jobs p j)"
  shows "count_ok p'"
  using assms countD [OF assms(1)] by (simp add: count_ok_def running_in_def)

lemma worker_keeps_count: "worker_step w p p' \<Longrightarrow> w < threadCount p \<Longrightarrow> pool_ok p \<Longrightarrow> count_ok p'"
proof (induction rule: worker_step.induct)
  case (wakes_for_job p j)
  have none: "currentJob (workers p w) = None" using wakes_for_job currentD [of p w] by (cases "currentJob (workers p w)") auto
  have "running_in (set_worker w (awake (Some j) (workers p w)) (set_job j (enter_job (pool_jobs p j)) p)) i =
      (if i = j then insert w (running_in p i) else running_in p i)" for i
    using none wakes_for_job(6) by (auto simp: running_in_def pool_updates)
  moreover have "w \<notin> running_in p j" using none by (simp add: running_in_def)
  ultimately show ?case
    using countD [OF wakes_for_job(7)] finite_running [of p j] by (simp add: count_ok_def pool_updates)
next
  case (runs p j c)
  have "running_in (set_worker w ((workers p w)\<lparr>currentJob := None, worker_pc := WaitRunning\<rparr>)
       (set_job j (leave_job (pool_jobs p j)) (run_inline c p))) i = (if i = j then running_in p i - {w} else running_in p i)" for i
    using runs(2) by (auto simp: running_in_def pool_updates)
  moreover have "w \<in> running_in p j" using runs by (simp add: running_in_def)
  ultimately show ?case
    using countD [OF runs(7)] finite_running [of p j] by (simp add: count_ok_def pool_updates)
next
  case (wakes_for_nothing p)
  have "currentJob (workers p w) = None" using wakes_for_nothing currentD [of p w] by (cases "currentJob (workers p w)") auto
  then have "running_in (set_worker w (awake None (workers p w)) p) i = running_in p i" for i
    by (auto simp: running_in_def pool_updates)
  then show ?case using countD [OF wakes_for_nothing(6)] by (simp add: count_ok_def pool_updates)
next
  case (starts p)
  then show ?case by (intro countI [of p]) (auto simp: pool_updates)
next
  case (goes_to_sleep p)
  then show ?case by (intro countI [of p]) (auto simp: pool_updates)
next
  case (loops p)
  then show ?case by (intro countI [of p]) (auto simp: pool_updates)
next
  case (wakes_to_exit p)
  then show ?case by (intro countI [of p]) (auto simp: pool_updates)
next
  case (sleeps_again p)
  then show ?case by (intro countI [of p]) (auto simp: pool_updates)
next
  case (leaves p)
  then show ?case by (intro countI [of p]) (auto simp: pool_updates)
qed

lemma worker_keeps_jobs: "worker_step w p p' \<Longrightarrow> pool_ok p \<Longrightarrow> jobs_ok p'"
proof (induction rule: worker_step.induct)
  case (wakes_for_job p j)
  then show ?case using jobsD [of p] by (auto simp: jobs_ok_def job_ok_def pool_updates)
next
  case (runs p j c)
  then show ?case using jobsD [of p] by (auto simp: jobs_ok_def job_ok_def pool_updates)
qed (auto simp: jobs_ok_def pool_updates dest: jobsD)

lemma worker_same_callers:
  "worker_step w p p' \<Longrightarrow> callers p' = callers p \<and> job_call (pool_jobs p' j) = job_call (pool_jobs p j) \<and>
     job_abandoned (pool_jobs p' j) = job_abandoned (pool_jobs p j)"
  by (induction rule: worker_step.induct) (auto simp: pool_updates)

lemma worker_keeps_callers: "worker_step w p p' \<Longrightarrow> pool_ok p \<Longrightarrow> callers_ok p'"
  using worker_same_callers [of w p p'] by (simp add: pool_ok_def callers_ok_def)

lemma worker_keeps_executed: "worker_step w p p' \<Longrightarrow> pool_ok p \<Longrightarrow> executed_ok p'"
proof (induction rule: worker_step.induct)
  case (runs p j c)
  then show ?case by (auto simp: executed_ok_def pool_updates dest: executedD split: if_splits)
qed (auto simp: executed_ok_def pool_updates dest: executedD split: if_splits)

lemma worker_keeps_queue: "worker_step w p p' \<Longrightarrow> pool_ok p \<Longrightarrow> queue_ok p'"
proof -
  assume step: "worker_step w p p'" and ok: "pool_ok p"
  have "threadQueue (workers p' v) = Some j \<Longrightarrow> threadQueue (workers p v) = Some j \<and>
      (thread_condition (workers p v) \<noteq> RKThreadConditionAwake \<longrightarrow> thread_condition (workers p' v) \<noteq> RKThreadConditionAwake)" for v j
    using step by (induction rule: worker_step.induct) (auto simp: pool_updates split: if_splits)
  then show ?thesis
    using queueD [OF ok] worker_same_callers [OF step] unfolding queue_ok_def by metis
qed

lemma worker_keeps_first: "worker_step w p p' \<Longrightarrow> w < threadCount p \<Longrightarrow> pool_ok p \<Longrightarrow> first_ok p'"
proof (induction rule: worker_step.induct)
  case (wakes_for_job p j)
  obtain d k where d: "callers p d = Handing j k w" using queueD [of p w j] wakes_for_job by blast
  have "\<not> unhanded (callers p e) j" for e
  proof
    assume u: "unhanded (callers p e) j"
    then have "e = d" using job_has_one_caller [of p e j d] wakes_for_job(7) unhanded_has_job d by simp
    then show False using u d by (simp add: unhanded_def)
  qed
  then show ?case
    using wakes_for_job(7) by (intro firstI [of p]) (auto simp: pool_updates)
next
  case (runs p j c)
  have "w \<in> running_in p j" using runs by (simp add: running_in_def)
  then have "activeThreadsCount (pool_jobs p j) \<noteq> 0" using countD [OF runs(7)] finite_running by auto
  then have "\<not> unhanded (callers p e) j" for e using firstD [OF runs(7), of e j] by auto
  then show ?case
    using runs(7) by (intro firstI [of p]) (auto simp: pool_updates)
qed (rule firstI, assumption, force simp: pool_updates)+

section \<open>Every reachable state\<close>

lemma pool_step_ok: "pool_step p p' \<Longrightarrow> pool_ok p \<Longrightarrow> pool_ok p'"
proof (induction rule: pool_step.induct)
  case (caller c p p')
  have parts: "workers_ok p" "count_ok p" using caller(2) by (simp_all add: pool_ok_def)
  show ?case
    using caller_keeps_workers [OF caller(1) parts(1)] caller_keeps_count [OF caller(1) parts(2)] caller_keeps_jobs [OF caller]
      caller_keeps_callers [OF caller] caller_keeps_executed [OF caller] caller_keeps_queue [OF caller] caller_keeps_first [OF caller]
    by (simp add: pool_ok_def)
next
  case (worker w p p')
  have parts: "workers_ok p" using worker(3) by (simp add: pool_ok_def)
  show ?case
    using worker_keeps_workers [OF worker(2) parts] worker_keeps_count [OF worker(2,1,3)] worker_keeps_jobs [OF worker(2,3)]
      worker_keeps_callers [OF worker(2,3)] worker_keeps_executed [OF worker(2,3)] worker_keeps_queue [OF worker(2,3)]
      worker_keeps_first [OF worker(2,1,3)]
    by (simp add: pool_ok_def)
next
  case (stops p)
  have run: "running_in (p\<lparr>stopped := True\<rparr>) j = running_in p j" for j by (simp add: running_in_def)
  have "count_ok (p\<lparr>stopped := True\<rparr>)" using countD [OF stops] run by (simp add: count_ok_def)
  moreover have "first_ok (p\<lparr>stopped := True\<rparr>)" using firstD [OF stops] by (simp add: first_ok_def)
  moreover have "workers_ok p" "jobs_ok p" "callers_ok p" "executed_ok p" "queue_ok p" using stops by (simp_all add: pool_ok_def)
  ultimately show ?case
    by (simp add: pool_ok_def workers_ok_def jobs_ok_def callers_ok_def executed_ok_def queue_ok_def)
qed

lemma pool_start_ok: "pool_ok (initWithThreadCount m n)"
  by (simp add: pool_ok_def workers_ok_def count_ok_def running_in_def jobs_ok_def job_ok_def callers_ok_def executed_ok_def
      queue_ok_def first_ok_def unhanded_def initWithThreadCount_def new_worker_def new_job_def)

lemma pool_run_ok: "pool_run p p' \<Longrightarrow> pool_ok p \<Longrightarrow> pool_ok p'"
  by (induction rule: pool_run.induct) (auto dest: pool_step_ok)

section \<open>What the pool promises\<close>

text \<open>No worker finds its job in a state that its assertion refuses, and no caller its job with workers still in it.\<close>

lemma running_is_sound:
  assumes "pool_ok p" "w < threadCount p" "worker_pc (workers p w) = Running"
  obtains j c where "currentJob (workers p w) = Some j" "job_call (pool_jobs p j) = Some c" "has_job (callers p c) j"
    "job_condition (pool_jobs p j) = RKJobConditionExecuting \<or> job_condition (pool_jobs p j) = RKJobConditionFinishing"
proof -
  have "currentJob (workers p w) \<noteq> None" using assms(1,3) by (simp add: pool_ok_def workers_ok_def)
  then obtain j where j: "currentJob (workers p w) = Some j" by auto
  then have "w \<in> running_in p j" using assms(2) by (simp add: running_in_def)
  then have active: "activeThreadsCount (pool_jobs p j) \<noteq> 0" using countD [OF assms(1)] finite_running by auto
  then have job: "\<not> job_abandoned (pool_jobs p j)" "job_condition (pool_jobs p j) \<noteq> RKJobConditionAvailable"
    "job_condition (pool_jobs p j) \<noteq> RKJobConditionCompleted"
    using jobsD [OF assms(1), of j] by (auto simp: job_ok_def)
  then obtain c where c: "job_call (pool_jobs p j) = Some c" using jobsD [OF assms(1), of j] by (auto simp: job_ok_def)
  show thesis
    using that [OF j c] callersD(2) [OF assms(1) c] job job_condition.exhaust [of "job_condition (pool_jobs p j)"] by blast
qed

lemma only_inline_raises:
  "caller_step c p p' \<Longrightarrow> pool_ok p \<Longrightarrow> callers p' c = Raised \<Longrightarrow> \<exists>j. callers p c = InlineJob j"
proof (induction rule: caller_step.induct)
  case (completes_raises p j)
  then show ?case using jobsD [of p j] by (simp add: job_ok_def)
qed (simp_all add: pool_updates split: if_splits)

lemma returned_is_over:
  assumes "pool_ok p" "callers p c = Returned"
  shows "c \<in> executed p" "job_call (pool_jobs p j) \<noteq> Some c"
  using assms executedD(1) callersD(2) [OF assms(1), of j c] by auto

section \<open>An example: one worker\<close>

lemma worker_on: "pool_run p q \<Longrightarrow> w < threadCount q \<Longrightarrow> worker_step w q r \<Longrightarrow> pool_run p r"
  by (blast intro: pool_on worker)

lemma caller_on: "pool_run p q \<Longrightarrow> caller_step c q r \<Longrightarrow> pool_run p r"
  by (blast intro: pool_on caller)

definition one_worker :: pool where
  "one_worker = \<lparr>threadCount = 1, liveThreads = 1, stopped = False,
     workers = (\<lambda>w. new_worker)(0 := \<lparr>thread_condition = RKThreadConditionSleeping, threadQueue = None, currentJob = None, worker_pc = WaitWakeup\<rparr>),
     pool_jobs = (\<lambda>j. new_job), callers = (\<lambda>c. Outside), executed = {}\<rparr>"

lemma one_worker_reached: "pool_run (initWithThreadCount True 1) one_worker"
proof -
  let ?p = "initWithThreadCount True 1"
  have "pool_run ?p ?p" by (rule pool_here)
  note worker_on [OF this _ starts [of _ 0]]
  note worker_on [OF this _ goes_to_sleep]
  note run = worker_on [OF this _ loops]
  have "set_worker 0 ((workers q 0)\<lparr>worker_pc := if stopped q then Exiting else WaitWakeup\<rparr>) q = one_worker"
    if "q = set_worker 0 ((workers r 0)\<lparr>thread_condition := RKThreadConditionSleeping, worker_pc := LoopHead\<rparr>) r"
      "r = set_worker 0 ((workers ?p 0)\<lparr>worker_pc := Starting\<rparr>) (?p\<lparr>liveThreads := liveThreads ?p + 1\<rparr>)" for q r
    using that by (simp add: one_worker_def initWithThreadCount_def set_worker_def new_worker_def fun_eq_iff)
  then show ?thesis
    using run by (simp add: initWithThreadCount_def set_worker_def new_worker_def)
qed


text \<open>The worker of the example runs the function of call 7.\<close>

definition one_running :: pool where
  "one_running = \<lparr>threadCount = 1, liveThreads = 1, stopped = False,
     workers = (\<lambda>w. new_worker)(0 := \<lparr>thread_condition = RKThreadConditionAwake, threadQueue = None, currentJob = Some 0, worker_pc = Running\<rparr>),
     pool_jobs = (\<lambda>j. new_job)(0 := \<lparr>job_condition = RKJobConditionExecuting, activeThreadsCount = 1, job_call = Some 7, job_abandoned = False\<rparr>),
     callers = (\<lambda>c. Outside)(7 := Handing 0 0 0), executed = {}\<rparr>"

lemma one_running_reached: "pool_run (initWithThreadCount True 1) one_running"
proof -
  note caller_on [OF one_worker_reached begins [of _ 7]]
  note caller_on [OF this seeks [of _ 7]]
  note caller_on [OF this takes [of _ 7 0]]
  note caller_on [OF this hands [of _ 7 0 0 0]]
  note run = worker_on [OF this _ wakes_for_job [of _ 0 0]]
  show ?thesis
    using run by (simp add: one_worker_def pool_updates new_job_def new_worker_def) (simp add: one_running_def new_job_def new_worker_def fun_upd_def)
qed

section \<open>What holds in every state\<close>

text \<open>
  C12. In every state that any callers and workers can reach: a call that has returned has run its function to the end and is in no
  job any more; a worker that runs a job runs the function of a call that still waits with that job, so that the assertion of the
  worker about the condition of the job holds; and a job that is complete has no worker in it, so that the assertion of the caller holds.
\<close>

theorem thread_pool_sound:
  assumes "pool_run (initWithThreadCount isMultiThreaded n) p" "w < threadCount p"
  shows "(callers p c = Returned \<longrightarrow> c \<in> executed p \<and> job_call (pool_jobs p j) \<noteq> Some c) \<and>
    (worker_pc (workers p w) = Running \<longrightarrow> (\<exists>i d. currentJob (workers p w) = Some i \<and> job_call (pool_jobs p i) = Some d \<and> has_job (callers p d) i \<and>
       (job_condition (pool_jobs p i) = RKJobConditionExecuting \<or> job_condition (pool_jobs p i) = RKJobConditionFinishing))) \<and>
    (callers p c = WaitCompleted j \<longrightarrow> job_condition (pool_jobs p j) = RKJobConditionCompleted \<longrightarrow> activeThreadsCount (pool_jobs p j) = 0)"
proof -
  have ok: "pool_ok p" using pool_run_ok [OF assms(1) pool_start_ok] .
  have completed: "job_condition (pool_jobs p j) = RKJobConditionCompleted \<Longrightarrow> activeThreadsCount (pool_jobs p j) = 0"
    using jobsD [OF ok, of j] by (simp add: job_ok_def)
  have running: "worker_pc (workers p w) = Running \<Longrightarrow>
      \<exists>i d. currentJob (workers p w) = Some i \<and> job_call (pool_jobs p i) = Some d \<and> has_job (callers p d) i \<and>
        (job_condition (pool_jobs p i) = RKJobConditionExecuting \<or> job_condition (pool_jobs p i) = RKJobConditionFinishing)"
    by (rule running_is_sound [OF ok assms(2)]) blast+
  show ?thesis using returned_is_over [OF ok] completed running by blast
qed

theorem thread_pool_sound_witness:
  "\<exists>i d. currentJob (workers one_running 0) = Some i \<and> job_call (pool_jobs one_running i) = Some d \<and> has_job (callers one_running d) i"
  using thread_pool_sound [OF one_running_reached, of 0] by (force simp: one_running_def)

end
