(* ===== verification/RK_ThreadPoolProgress.thy ===== *)
theory RK_ThreadPoolProgress
  imports RK_ThreadPool
begin

text \<open>
  What the thread pool does in the end: a call that waits is served while the pool is not stopped, a job that no worker took is
  lost, and stopping the pool can leave its callers and itself waiting for ever.
\<close>

section \<open>A job that ran inline\<close>

definition job_lost :: "nat \<Rightarrow> pool \<Rightarrow> bool" where
  "job_lost j p \<longleftrightarrow> job_abandoned (pool_jobs p j) \<and> job_condition (pool_jobs p j) \<noteq> RKJobConditionAvailable"

lemma caller_keeps_lost: "caller_step c p p' \<Longrightarrow> pool_ok p \<Longrightarrow> job_lost j p \<Longrightarrow> job_lost j p'"
proof (induction rule: caller_step.induct)
  case (completes p i)
  then show ?case using callersD(1) [of p c i] by (auto simp: job_lost_def pool_updates)
qed (auto simp: job_lost_def pool_updates)

lemma worker_keeps_lost: "worker_step w p p' \<Longrightarrow> job_lost j p \<Longrightarrow> job_lost j p'"
  by (induction rule: worker_step.induct) (auto simp: job_lost_def pool_updates)

lemma run_keeps_lost: "pool_run p p' \<Longrightarrow> pool_ok p \<Longrightarrow> job_lost j p \<Longrightarrow> job_lost j p'"
proof (induction rule: pool_run.induct)
  case (pool_on p p' p'')
  have "pool_ok p'" "job_lost j p'" using pool_on pool_run_ok by auto
  with pool_on(2) show ?case
    by (cases rule: pool_step.cases) (auto dest: caller_keeps_lost worker_keeps_lost simp: job_lost_def)
qed

section \<open>Threads that are alive\<close>

definition alive :: "worker_pc \<Rightarrow> bool" where "alive pc \<longleftrightarrow> pc \<noteq> NotStarted \<and> pc \<noteq> Gone"

definition alive_in :: "pool \<Rightarrow> nat set" where
  "alive_in p = {w. w < threadCount p \<and> alive (worker_pc (workers p w))}"

definition live_ok :: "pool \<Rightarrow> bool" where "live_ok p \<longleftrightarrow> liveThreads p = card (alive_in p)"

lemma finite_alive: "finite (alive_in p)"
  by (rule finite_subset [of _ "{..<threadCount p}"]) (auto simp: alive_in_def)

lemma caller_keeps_live: "caller_step c p p' \<Longrightarrow> liveThreads p' = liveThreads p \<and> alive_in p' = alive_in p"
  by (induction rule: caller_step.induct) (auto simp: alive_in_def pool_updates)

lemma liveI:
  assumes "live_ok p" "threadCount p' = threadCount p" "liveThreads p' = liveThreads p"
    and "\<And>v. alive (worker_pc (workers p' v)) = alive (worker_pc (workers p v))"
  shows "live_ok p'"
  using assms by (simp add: live_ok_def alive_in_def)

lemma live_leaves:
  assumes "live_ok p" "w < threadCount p" "alive (worker_pc (workers p w))"
  shows "live_ok (set_worker w (exits (workers p w)) (p\<lparr>liveThreads := liveThreads p - 1\<rparr>))"
proof -
  have "alive_in (set_worker w (exits (workers p w)) (p\<lparr>liveThreads := liveThreads p - 1\<rparr>)) = alive_in p - {w}"
    by (auto simp: alive_in_def pool_updates alive_def)
  moreover have "w \<in> alive_in p" using assms by (simp add: alive_in_def)
  ultimately show ?thesis using assms(1) finite_alive [of p] by (simp add: live_ok_def pool_updates)
qed

lemma worker_keeps_live: "worker_step w p p' \<Longrightarrow> w < threadCount p \<Longrightarrow> live_ok p \<Longrightarrow> live_ok p'"
proof (induction rule: worker_step.induct)
  case (starts p)
  have "alive_in (set_worker w ((workers p w)\<lparr>worker_pc := Starting\<rparr>) (p\<lparr>liveThreads := liveThreads p + 1\<rparr>)) = insert w (alive_in p)"
    using starts by (auto simp: alive_in_def pool_updates alive_def)
  moreover have "w \<notin> alive_in p" using starts by (simp add: alive_in_def alive_def)
  ultimately show ?case using starts finite_alive [of p] by (simp add: live_ok_def pool_updates)
next
  case (wakes_to_exit p)
  then show ?case by (intro live_leaves) (simp_all add: alive_def)
next
  case (leaves p)
  then show ?case by (intro live_leaves) (simp_all add: alive_def)
qed (erule liveI; simp add: pool_updates alive_def)+

lemma run_keeps_live: "pool_run p p' \<Longrightarrow> live_ok p \<Longrightarrow> live_ok p'"
proof (induction rule: pool_run.induct)
  case (pool_on p p' p'')
  have "live_ok p'" using pool_on by simp
  with pool_on(2) show ?case
  proof (cases rule: pool_step.cases)
    case (caller c)
    have "liveThreads p'' = liveThreads p' \<and> alive_in p'' = alive_in p'" using caller_keeps_live [OF caller] .
    then show ?thesis using \<open>live_ok p'\<close> by (simp add: live_ok_def)
  next
    case (worker w)
    then show ?thesis using worker_keeps_live \<open>live_ok p'\<close> by blast
  next
    case stops
    then show ?thesis using \<open>live_ok p'\<close> by (auto intro: liveI [of p'])
  qed
qed

lemma live_start: "live_ok (initWithThreadCount m n)"
  by (simp add: live_ok_def alive_in_def alive_def initWithThreadCount_def new_worker_def)

section \<open>Reaping the threads\<close>

text \<open>A call that can hand nothing to a worker any more, once the pool is stopped.\<close>

definition quiet :: "caller_pc \<Rightarrow> bool" where
  "quiet pc \<longleftrightarrow> pc = Outside \<or> pc = Seeking \<or> pc = Returned \<or> pc = Raised \<or> (\<exists>j. pc = InlineJob j \<or> pc = WaitCompleted j)"

definition asleep :: "nat \<Rightarrow> pool \<Rightarrow> bool" where
  "asleep w p \<longleftrightarrow> stopped p \<and> w < threadCount p \<and> worker_pc (workers p w) = WaitWakeup \<and>
     thread_condition (workers p w) = RKThreadConditionSleeping \<and> (\<forall>c. quiet (callers p c))"

lemma caller_keeps_asleep: "caller_step c p p' \<Longrightarrow> asleep w p \<Longrightarrow> asleep w p'"
proof (induction rule: caller_step.induct)
  case (takes p j)
  then have "quiet Trying" by (metis asleep_def)
  then show ?case by (simp add: quiet_def)
next
  case (tries_again p)
  then have "quiet Trying" by (metis asleep_def)
  then show ?case by (simp add: quiet_def)
next
  case (hands p j k v)
  then have "quiet (Dispatching j k)" by (metis asleep_def)
  then show ?case by (simp add: quiet_def)
next
  case (handed p j k v)
  then have "quiet (Handing j k v)" by (metis asleep_def)
  then show ?case by (simp add: quiet_def)
next
  case (dispatched p j k)
  then have "quiet (Dispatching j k)" by (metis asleep_def)
  then show ?case by (simp add: quiet_def)
qed (auto simp: asleep_def pool_updates quiet_def)

lemma worker_keeps_asleep: "worker_step v p p' \<Longrightarrow> asleep w p \<Longrightarrow> asleep w p'"
  by (induction rule: worker_step.induct) (auto simp: asleep_def pool_updates)

lemma run_keeps_asleep: "pool_run p p' \<Longrightarrow> asleep w p \<Longrightarrow> asleep w p'"
proof (induction rule: pool_run.induct)
  case (pool_on p p' p'')
  then have "asleep w p'" by simp
  with pool_on(2) show ?case
    by (cases rule: pool_step.cases) (auto dest: caller_keeps_asleep worker_keeps_asleep simp: asleep_def)
qed

lemma asleep_lives: "asleep w p \<Longrightarrow> live_ok p \<Longrightarrow> liveThreads p \<noteq> 0"
proof -
  assume a: "asleep w p" and live: "live_ok p"
  have "w \<in> alive_in p" using a by (simp add: asleep_def alive_in_def alive_def)
  then show ?thesis using live finite_alive [of p] by (auto simp: live_ok_def)
qed

text \<open>A worker that found the stop flag after it was woken is gone, and the call that woke it waits for it.\<close>

definition stranded :: "nat \<Rightarrow> pool \<Rightarrow> bool" where
  "stranded c p \<longleftrightarrow> (\<exists>j k w. callers p c = Handing j k w \<and> worker_pc (workers p w) = Gone \<and>
     thread_condition (workers p w) = RKThreadConditionNotRunning)"

lemma run_keeps_stranded: "pool_run p p' \<Longrightarrow> stranded c p \<Longrightarrow> stranded c p'"
proof (induction rule: pool_run.induct)
  case (pool_on p p' p'')
  then obtain j k w where s: "callers p' c = Handing j k w" "worker_pc (workers p' w) = Gone"
    "thread_condition (workers p' w) = RKThreadConditionNotRunning"
    by (auto simp: stranded_def)
  have "caller_step d p' q \<Longrightarrow> callers q c = Handing j k w \<and> worker_pc (workers q w) = Gone \<and>
      thread_condition (workers q w) = RKThreadConditionNotRunning" for d q
    by (cases "d = c"; erule caller_step.cases) (use s in \<open>auto simp: pool_updates\<close>)
  moreover have "worker_step v p' q \<Longrightarrow> callers q c = Handing j k w \<and> worker_pc (workers q w) = Gone \<and>
      thread_condition (workers q w) = RKThreadConditionNotRunning" for v q
    by (erule worker_step.cases) (use s in \<open>auto simp: pool_updates\<close>)
  ultimately have "callers p'' c = Handing j k w \<and> worker_pc (workers p'' w) = Gone \<and>
      thread_condition (workers p'' w) = RKThreadConditionNotRunning"
    by - (rule pool_step.cases [OF pool_on(2)]; use s in auto)
  then show ?case by (auto simp: stranded_def)
qed


section \<open>Progress\<close>

text \<open>How the condition of a worker and its place in the code go together.\<close>

definition worker_ok :: "bool \<Rightarrow> pool_worker \<Rightarrow> bool" where
  "worker_ok stop x \<longleftrightarrow> (case worker_pc x of
      NotStarted \<Rightarrow> thread_condition x = RKThreadConditionStarting
    | Starting \<Rightarrow> thread_condition x = RKThreadConditionStarting
    | LoopHead \<Rightarrow> thread_condition x = RKThreadConditionSleeping \<or> thread_condition x = RKThreadConditionWakeup
    | WaitWakeup \<Rightarrow> thread_condition x = RKThreadConditionSleeping \<or> thread_condition x = RKThreadConditionWakeup
    | Running \<Rightarrow> thread_condition x = RKThreadConditionAwake \<or> thread_condition x = RKThreadConditionRunningJob
    | WaitRunning \<Rightarrow> thread_condition x = RKThreadConditionAwake \<or> thread_condition x = RKThreadConditionRunningJob
    | Exiting \<Rightarrow> stop \<and> (thread_condition x = RKThreadConditionSleeping \<or> thread_condition x = RKThreadConditionWakeup)
    | Gone \<Rightarrow> stop \<and> thread_condition x = RKThreadConditionNotRunning)"

text \<open>The worker that a caller hands its job to: woken with the job, awake, or gone because the pool is stopped.\<close>

definition woken :: "bool \<Rightarrow> nat \<Rightarrow> pool_worker \<Rightarrow> bool" where
  "woken stop j x \<longleftrightarrow> thread_condition x = RKThreadConditionWakeup \<and> threadQueue x = Some j \<or>
     thread_condition x = RKThreadConditionAwake \<or> stop \<and> thread_condition x = RKThreadConditionNotRunning"

definition handing_ok :: "pool \<Rightarrow> bool" where
  "handing_ok p \<longleftrightarrow> (\<forall>w. worker_ok (stopped p) (workers p w)) \<and>
     (\<forall>c j k w. callers p c = Handing j k w \<longrightarrow> w < threadCount p \<and> woken (stopped p) j (workers p w) \<and>
        (\<forall>d i l. callers p d = Handing i l w \<longrightarrow> d = c))"

text \<open>A job that a worker took is not executing without a worker in it.\<close>

definition entered :: "pool_job \<Rightarrow> bool" where
  "entered job \<longleftrightarrow> job_condition job = RKJobConditionExecuting \<longrightarrow> activeThreadsCount job \<noteq> 0"

fun needs_entered :: "(nat \<Rightarrow> pool_worker) \<Rightarrow> caller_pc \<Rightarrow> nat \<Rightarrow> bool" where
  "needs_entered ws (WaitCompleted j) i \<longleftrightarrow> i = j"
| "needs_entered ws (Dispatching j k) i \<longleftrightarrow> i = j \<and> k \<noteq> 0"
| "needs_entered ws (Handing j k w) i \<longleftrightarrow> i = j \<and> (k \<noteq> 0 \<or> thread_condition (ws w) = RKThreadConditionAwake)"
| "needs_entered ws pc i \<longleftrightarrow> False"

definition taken_ok :: "pool \<Rightarrow> bool" where
  "taken_ok p \<longleftrightarrow> (\<forall>c j. needs_entered (workers p) (callers p c) j \<longrightarrow> entered (pool_jobs p j))"

lemma handingD:
  "handing_ok p \<Longrightarrow> worker_ok (stopped p) (workers p w)"
  "handing_ok p \<Longrightarrow> callers p c = Handing j k w \<Longrightarrow> w < threadCount p \<and> woken (stopped p) j (workers p w)"
  "handing_ok p \<Longrightarrow> callers p c = Handing j k w \<Longrightarrow> callers p d = Handing i l w \<Longrightarrow> d = c"
  unfolding handing_ok_def by blast+

lemma handingI:
  "(\<And>w. worker_ok (stopped p) (workers p w)) \<Longrightarrow>
   (\<And>c j k w. callers p c = Handing j k w \<Longrightarrow> w < threadCount p \<and> woken (stopped p) j (workers p w)) \<Longrightarrow>
   (\<And>c d i j k l w. callers p c = Handing j k w \<Longrightarrow> callers p d = Handing i l w \<Longrightarrow> d = c) \<Longrightarrow> handing_ok p"
  unfolding handing_ok_def by blast

text \<open>A caller that leaves the workers alone and hands nothing.\<close>

lemma handing_same_workers:
  assumes "handing_ok p" "workers p' = workers p" "stopped p' = stopped p" "threadCount p' = threadCount p"
    and "\<And>d j k w. callers p' d = Handing j k w \<Longrightarrow> callers p d = Handing j k w"
  shows "handing_ok p'"
proof (rule handingI, goal_cases)
  case (1 w)
  show ?case using handingD(1) [OF assms(1)] assms by simp
next
  case (2 c j k w)
  then show ?case using handingD(2) [OF assms(1) assms(5)] assms by simp
next
  case (3 c d i j k l w)
  then show ?case using handingD(3) [OF assms(1) assms(5) assms(5)] by blast
qed

lemma worker_ok_hands: "worker_ok s x \<Longrightarrow> thread_condition x = RKThreadConditionSleeping \<Longrightarrow>
    worker_ok s (x\<lparr>threadQueue := q, thread_condition := RKThreadConditionWakeup\<rparr>)"
  by (simp add: worker_ok_def split: worker_pc.splits)

lemma worker_ok_handed: "worker_ok s x \<Longrightarrow> thread_condition x = RKThreadConditionAwake \<Longrightarrow>
    worker_ok s (x\<lparr>thread_condition := RKThreadConditionRunningJob\<rparr>)"
  by (simp add: worker_ok_def split: worker_pc.splits)

lemma caller_keeps_handing: "caller_step c p p' \<Longrightarrow> handing_ok p \<Longrightarrow> handing_ok p'"
proof (induction rule: caller_step.induct)
  case (hands p j k w)
  have none: "callers p d \<noteq> Handing i l w" for d i l
    using handingD(2) [OF hands(5), of d i l w] hands(3) by (auto simp: woken_def)
  show ?case
  proof (rule handingI, goal_cases)
    case (1 v)
    show ?case using handingD(1) [OF hands(5), of v] hands(3) worker_ok_hands by (auto simp: pool_updates)
  next
    case (2 d i l v)
    then show ?case using handingD(2) [OF hands(5), of d i l v] hands(2) none by (auto simp: pool_updates woken_def split: if_splits)
  next
    case (3 d e i i' l l' v)
    then show ?case using handingD(3) [OF hands(5)] none by (fastforce simp: pool_updates split: if_splits)
  qed
next
  case (handed p j k w)
  have only: "callers p d = Handing i l w \<Longrightarrow> d = c" for d i l
    using handingD(3) [OF handed(3) handed(1)] by blast
  show ?case
  proof (rule handingI, goal_cases)
    case (1 v)
    show ?case using handingD(1) [OF handed(3), of v] handed(2) worker_ok_handed by (auto simp: pool_updates)
  next
    case (2 d i l v)
    then show ?case using handingD(2) [OF handed(3), of d i l v] only by (auto simp: pool_updates woken_def split: if_splits)
  next
    case (3 d e i i' l l' v)
    then show ?case using handingD(3) [OF handed(3)] by (fastforce simp: pool_updates split: if_splits)
  qed
qed (erule handing_same_workers; force simp: pool_updates split: if_splits)+

lemma handing_worker:
  assumes "handing_ok p" "callers p' = callers p" "stopped p' = stopped p" "threadCount p' = threadCount p"
    and "\<And>v. v \<noteq> w \<Longrightarrow> workers p' v = workers p v"
    and "worker_ok (stopped p) (workers p' w)"
    and "\<And>j. woken (stopped p) j (workers p w) \<Longrightarrow> woken (stopped p) j (workers p' w)"
  shows "handing_ok p'"
proof (rule handingI, goal_cases)
  case (1 v)
  show ?case using assms handingD(1) [OF assms(1), of v] by (cases "v = w") auto
next
  case (2 c j k v)
  then show ?case using assms handingD(2) [OF assms(1), of c j k v] by (cases "v = w") auto
next
  case (3 c d i j k l v)
  then show ?case using assms handingD(3) [OF assms(1)] by metis
qed

lemma worker_step_local:
  "worker_step w p p' \<Longrightarrow> callers p' = callers p \<and> stopped p' = stopped p \<and> threadCount p' = threadCount p \<and>
     (v \<noteq> w \<longrightarrow> workers p' v = workers p v)"
  by (induction rule: worker_step.induct) (auto simp: pool_updates)

lemma worker_step_ok: "worker_step w p p' \<Longrightarrow> worker_ok (stopped p) (workers p w) \<Longrightarrow> worker_ok (stopped p) (workers p' w)"
  by (induction rule: worker_step.induct) (auto simp: pool_updates worker_ok_def)

lemma worker_step_woken:
  "worker_step w p p' \<Longrightarrow> worker_ok (stopped p) (workers p w) \<Longrightarrow> woken (stopped p) j (workers p w) \<Longrightarrow> woken (stopped p) j (workers p' w)"
  by (induction rule: worker_step.induct) (auto simp: pool_updates worker_ok_def woken_def)

lemma worker_keeps_handing:
  assumes "worker_step w p p'" "handing_ok p"
  shows "handing_ok p'"
  using worker_step_local [OF assms(1)] worker_step_ok [OF assms(1)] worker_step_woken [OF assms(1)] handingD(1) [OF assms(2), of w]
  by (intro handing_worker [OF assms(2), of p' w]) blast+

lemma takenD: "taken_ok p \<Longrightarrow> needs_entered (workers p) (callers p c) j \<Longrightarrow> entered (pool_jobs p j)"
  by (simp add: taken_ok_def)

lemma takenI:
  assumes "taken_ok p"
    and "\<And>d j. needs_entered (workers p') (callers p' d) j \<Longrightarrow> entered (pool_jobs p' j) \<or>
       needs_entered (workers p) (callers p d) j \<and> (entered (pool_jobs p j) \<longrightarrow> entered (pool_jobs p' j))"
  shows "taken_ok p'"
  unfolding taken_ok_def using assms(2) takenD [OF assms(1)] by blast

lemma needs_entered_hands:
  "needs_entered (ws(w := x)) pc j \<Longrightarrow>
     (thread_condition x = RKThreadConditionAwake \<Longrightarrow> thread_condition (ws w) = RKThreadConditionAwake) \<Longrightarrow> needs_entered ws pc j"
  by (cases pc) (auto split: if_splits)

lemma needs_entered_has_job: "needs_entered ws pc j \<Longrightarrow> has_job pc j"
  by (cases pc) auto

lemma caller_keeps_taken: "caller_step c p p' \<Longrightarrow> taken_ok p \<Longrightarrow> pool_ok p \<Longrightarrow> taken_ok p'"
proof (induction rule: caller_step.induct)
  case (takes p j)
  have "job_call (pool_jobs p j) = None" using takes jobsD [of p j] by (simp add: job_ok_def)
  then have "\<not> needs_entered (workers p) (callers p d) j" for d
    using callersD(1) [OF takes(6), of d j] needs_entered_has_job by auto
  then show ?case
    using takes(5) by - (rule takenI [of p], assumption, auto simp: pool_updates split: if_splits)
next
  case (hands p j k w)
  let ?x = "(workers p w)\<lparr>threadQueue := Some j, thread_condition := RKThreadConditionWakeup\<rparr>"
  have same: "needs_entered ((workers p)(w := ?x)) pc i \<Longrightarrow> needs_entered (workers p) pc i" for pc i
    by (rule needs_entered_hands [of _ w ?x]) simp_all
  show ?case
    using hands(1,5) by - (rule takenI [of p], assumption, auto simp: set_worker_def set_caller_def dest!: same split: if_splits)
next
  case (handed p j k w)
  let ?x = "(workers p w)\<lparr>thread_condition := RKThreadConditionRunningJob\<rparr>"
  have same: "needs_entered ((workers p)(w := ?x)) pc i \<Longrightarrow> needs_entered (workers p) pc i" for pc i
    by (rule needs_entered_hands [of _ w ?x]) simp_all
  show ?case
    using handed by - (rule takenI [of p], assumption, auto simp: set_worker_def set_caller_def exit_loop_def dest!: same split: if_splits)
next
  case (dispatched p j k)
  then show ?case
    using takenD [of p c j] by - (rule takenI [of p], assumption, auto simp: pool_updates split: if_splits)
qed (rule takenI, assumption, auto simp: pool_updates entered_def split: if_splits)+

text \<open>A step of a worker that wakes nobody and leaves the jobs alone.\<close>

lemma taken_other_worker:
  assumes "taken_ok p" "callers p' = callers p" "pool_jobs p' = pool_jobs p"
    and "\<And>v. thread_condition (workers p' v) = RKThreadConditionAwake \<Longrightarrow> thread_condition (workers p v) = RKThreadConditionAwake"
  shows "taken_ok p'"
proof (rule takenI [OF assms(1)])
  fix d j
  assume "needs_entered (workers p') (callers p' d) j"
  then show "entered (pool_jobs p' j) \<or> needs_entered (workers p) (callers p d) j \<and> (entered (pool_jobs p j) \<longrightarrow> entered (pool_jobs p' j))"
    using assms(2-4) by (cases "callers p d") auto
qed

lemma worker_keeps_taken: "worker_step w p p' \<Longrightarrow> handing_ok p \<Longrightarrow> taken_ok p \<Longrightarrow> taken_ok p'"
proof (induction rule: worker_step.induct)
  case (wakes_for_nothing p)
  have idle: "entered (pool_jobs p j)" if "callers p d = Handing j k w" for d j k
    using handingD(2) [OF wakes_for_nothing(5) that] wakes_for_nothing(2-4) by (auto simp: woken_def entered_def)
  have "needs_entered ((workers p)(w := awake None (workers p w))) (callers p d) j \<Longrightarrow>
      entered (pool_jobs p j) \<or> needs_entered (workers p) (callers p d) j" for d j
    using idle [of d j] by (cases "callers p d") (auto split: if_splits)
  then show ?case
    using wakes_for_nothing(6) by - (rule takenI [of p], assumption, auto simp: set_worker_def)
next
  case (wakes_for_job p j)
  have idle: "i = j" if "callers p d = Handing i k w" for d i k
    using handingD(2) [OF wakes_for_job(6) that] wakes_for_job(2-4) by (auto simp: woken_def)
  have "needs_entered ((workers p)(w := awake (Some j) (workers p w))) (callers p d) i \<Longrightarrow>
      i = j \<or> needs_entered (workers p) (callers p d) i" for d i
    using idle [of d i] by (cases "callers p d") (auto split: if_splits)
  then show ?case
    using wakes_for_job(7) by - (rule takenI [of p], assumption, auto simp: set_worker_def set_job_def enter_job_def entered_def)
next
  case (runs p j c)
  let ?x = "(workers p w)\<lparr>currentJob := None, worker_pc := WaitRunning\<rparr>"
  have same: "needs_entered ((workers p)(w := ?x)) pc i \<Longrightarrow> needs_entered (workers p) pc i" for pc i
    by (rule needs_entered_hands [of _ w ?x]) simp_all
  show ?case
    using runs(7) by - (rule takenI [of p], assumption,
      auto simp: set_worker_def set_job_def run_inline_def leave_job_def entered_def dest!: same)
next
  case (starts p)
  show ?case by (rule taken_other_worker [OF starts(3)]) (simp_all add: pool_updates split: if_splits)
next
  case (goes_to_sleep p)
  show ?case by (rule taken_other_worker [OF goes_to_sleep(4)]) (simp_all add: pool_updates split: if_splits)
next
  case (loops p)
  show ?case by (rule taken_other_worker [OF loops(3)]) (simp_all add: pool_updates split: if_splits)
next
  case (wakes_to_exit p)
  show ?case by (rule taken_other_worker [OF wakes_to_exit(5)]) (simp_all add: pool_updates split: if_splits)
next
  case (sleeps_again p)
  show ?case by (rule taken_other_worker [OF sleeps_again(4)]) (simp_all add: pool_updates split: if_splits)
next
  case (leaves p)
  show ?case by (rule taken_other_worker [OF leaves(3)]) (simp_all add: pool_updates split: if_splits)
qed

definition progress_ok :: "pool \<Rightarrow> bool" where
  "progress_ok p \<longleftrightarrow> pool_ok p \<and> handing_ok p \<and> taken_ok p"

lemma progress_start: "progress_ok (initWithThreadCount m n)"
  using pool_start_ok [of m n]
  by (auto simp: progress_ok_def handing_ok_def worker_ok_def taken_ok_def initWithThreadCount_def new_worker_def)

lemma worker_ok_stops: "worker_ok s x \<Longrightarrow> worker_ok True x"
  by (simp add: worker_ok_def split: worker_pc.splits)

lemma pool_step_progress: "pool_step p p' \<Longrightarrow> progress_ok p \<Longrightarrow> progress_ok p'"
proof (induction rule: pool_step.induct)
  case (caller c p p')
  then show ?case
    using pool_step_ok [OF pool_step.caller] caller_keeps_handing caller_keeps_taken by (simp add: progress_ok_def)
next
  case (worker w p p')
  then show ?case
    using pool_step_ok [OF pool_step.worker] worker_keeps_handing worker_keeps_taken by (simp add: progress_ok_def)
next
  case (stops p)
  have hand: "handing_ok p" using stops by (simp add: progress_ok_def)
  have "handing_ok (p\<lparr>stopped := True\<rparr>)"
  proof (rule handingI, goal_cases)
    case (1 w)
    show ?case using handingD(1) [OF hand, of w] worker_ok_stops by simp
  next
    case (2 c j k w)
    then show ?case using handingD(2) [OF hand, of c j k w] by (auto simp: woken_def)
  next
    case (3 c d i j k l w)
    then show ?case using handingD(3) [OF hand] by simp
  qed
  then show ?case using stops pool_step_ok [OF pool_step.stops] by (simp add: progress_ok_def taken_ok_def)
qed

lemma run_progress: "pool_run p p' \<Longrightarrow> progress_ok p \<Longrightarrow> progress_ok p'"
  by (induction rule: pool_run.induct) (auto dest: pool_step_progress)

text \<open>A caller that waits for a worker: the worker can act, or it has and the caller can.\<close>

lemma handing_goes_on:
  assumes "progress_ok p" "\<not> stopped p" "callers p c = Handing j k w"
  shows "(\<exists>p'. caller_step c p p') \<or> (\<exists>p'. worker_step w p p')"
proof -
  have ok: "pool_ok p" "handing_ok p" using assms(1) by (simp_all add: progress_ok_def)
  consider "thread_condition (workers p w) = RKThreadConditionAwake"
    | "thread_condition (workers p w) = RKThreadConditionWakeup" "threadQueue (workers p w) = Some j"
    using handingD(2) [OF ok(2) assms(3)] assms(2) by (auto simp: woken_def)
  then show ?thesis
  proof cases
    case 1
    then show ?thesis using handed [OF assms(3)] by blast
  next
    case 2
    then consider "worker_pc (workers p w) = LoopHead" | "worker_pc (workers p w) = WaitWakeup"
      using handingD(1) [OF ok(2), of w] assms(2) by (auto simp: worker_ok_def split: worker_pc.splits)
    then show ?thesis
    proof cases
      case 1
      then show ?thesis using loops by blast
    next
      case wait: 2
      have "\<not> job_abandoned (pool_jobs p j)" using callersD(1) [OF ok(1), of c j] assms(3) by simp
      then show ?thesis
        using wakes_for_job [OF wait 2(1) assms(2) 2(2)] wakes_for_nothing [OF wait 2(1) assms(2)] 2(2)
        by (cases "job_condition (pool_jobs p j) = RKJobConditionExecuting") (auto simp: job_is_executing_def)
    qed
  qed
qed

text \<open>A caller that waits for its job to be complete: it is, or a worker is in it and can leave it.\<close>

lemma waiting_goes_on:
  assumes "progress_ok p" "callers p c = WaitCompleted j"
  shows "(\<exists>p'. caller_step c p p') \<or> (\<exists>w p'. w < threadCount p \<and> currentJob (workers p w) = Some j \<and> worker_step w p p')"
proof (cases "activeThreadsCount (pool_jobs p j) = 0")
  case True
  have ok: "pool_ok p" "taken_ok p" using assms(1) by (simp_all add: progress_ok_def)
  have call: "job_call (pool_jobs p j) = Some c" using callersD(1) [OF ok(1), of c j] assms(2) by simp
  have "entered (pool_jobs p j)" using takenD [OF ok(2), of c j] assms(2) by simp
  then have "job_condition (pool_jobs p j) = RKJobConditionCompleted"
    using True call jobsD [OF ok(1), of j] by (cases "job_condition (pool_jobs p j)") (auto simp: entered_def job_ok_def)
  then show ?thesis using completes [OF assms(2)] True by blast
next
  case False
  have ok: "pool_ok p" using assms(1) by (simp add: progress_ok_def)
  then obtain w where w: "w < threadCount p" "currentJob (workers p w) = Some j"
    using False countD [OF ok, of j] by (auto simp: running_in_def)
  then have pc: "worker_pc (workers p w) = Running" using currentD [OF ok] by blast
  obtain i d where r: "currentJob (workers p w) = Some i" "job_call (pool_jobs p i) = Some d"
    "job_condition (pool_jobs p i) = RKJobConditionExecuting \<or> job_condition (pool_jobs p i) = RKJobConditionFinishing"
    using running_is_sound [OF ok w(1) pc] by metis
  have "\<not> job_abandoned (pool_jobs p j)" using callersD(1) [OF ok, of c j] assms(2) by simp
  then have "\<exists>p'. worker_step w p p'" using runs [OF pc w(2)] r w(2) by auto
  then show ?thesis using w by blast
qed

text \<open>
  C13. No call hangs while the pool is not stopped: in every state that can be reached, a call that has handed its job to a worker and
  waits for it to be awake can go on, or that worker can; a call that waits for its job to be complete can go on, or a worker that
  runs its function can. The second holds in a stopped pool too.
\<close>

theorem thread_pool_progress:
  assumes "pool_run (initWithThreadCount isMultiThreaded n) p"
  shows "(\<not> stopped p \<longrightarrow> callers p c = Handing j k w \<longrightarrow> (\<exists>p'. caller_step c p p') \<or> (\<exists>p'. worker_step w p p')) \<and>
    (callers p c = WaitCompleted j \<longrightarrow> (\<exists>p'. caller_step c p p') \<or>
       (\<exists>v p'. v < threadCount p \<and> currentJob (workers p v) = Some j \<and> worker_step v p p'))"
  using run_progress [OF assms progress_start] handing_goes_on waiting_goes_on by blast

theorem thread_pool_progress_witness:
  "(\<exists>p'. caller_step 7 one_running p') \<or> (\<exists>p'. worker_step 0 one_running p')"
  using thread_pool_progress [OF one_running_reached, of 7 0 0 0] by (simp add: one_running_def)

section \<open>Calls and threads that are lost\<close>

lemma inline_step:
  assumes "caller_step c p p'" "callers p c = InlineJob j" "pool_ok p"
  shows "callers p' c = Raised \<and> c \<in> executed p' \<and> job_lost j p'"
proof -
  have "unhanded (callers p c) j" using assms(2) by (simp add: unhanded_def)
  then have "job_condition (pool_jobs p j) = RKJobConditionExecuting" using firstD [OF assms(3)] by blast
  with assms(1,2) show ?thesis by (cases rule: caller_step.cases) (auto simp: job_lost_def pool_updates)
qed

text \<open>
  C15. A call that finds no worker for its job runs its function itself, and then raises all the same: the assertion
  \<open>startedJobThreads > 0\<close> after it fails. The lock of the job stays taken and the job is never available again, whatever calls and
  workers do afterwards.
\<close>

theorem inline_run_loses_the_job:
  assumes "pool_run (initWithThreadCount isMultiThreaded n) p" "callers p c = InlineJob j" "caller_step c p p'" "pool_run p' p''"
  shows "callers p' c = Raised \<and> c \<in> executed p' \<and>
    job_abandoned (pool_jobs p'' j) \<and> job_condition (pool_jobs p'' j) \<noteq> RKJobConditionAvailable"
proof -
  have ok: "pool_ok p" using pool_run_ok [OF assms(1) pool_start_ok] .
  have "pool_ok p'" using pool_step_ok [OF pool_step.caller [OF assms(3)] ok] .
  then show ?thesis
    using inline_step [OF assms(3,2) ok] run_keeps_lost [OF assms(4)] by (auto simp: job_lost_def)
qed

text \<open>The worker of the example is stopped before call 7 can hand its job to it.\<close>

definition one_inline :: pool where
  "one_inline = one_worker\<lparr>pool_jobs := (\<lambda>j. new_job)(0 := take_job 7 new_job), callers := (\<lambda>c. Outside)(7 := InlineJob 0), stopped := True\<rparr>"

lemma one_inline_reached: "pool_run (initWithThreadCount True 1) one_inline"
proof -
  note caller_on [OF one_worker_reached begins [of _ 7]]
  note caller_on [OF this seeks [of _ 7]]
  note caller_on [OF this takes [of _ 7 0]]
  note pool_on [OF this stops]
  note run = caller_on [OF this dispatched [of _ 7 0 0]]
  show ?thesis
    using run by (simp add: one_worker_def pool_updates new_job_def) (simp add: one_inline_def one_worker_def pool_updates new_job_def fun_upd_def)
qed

theorem inline_run_loses_the_job_witness:
  "job_abandoned (pool_jobs (set_caller 7 Raised (set_job 0 ((pool_jobs one_inline 0)\<lparr>job_abandoned := True\<rparr>) (run_inline 7 one_inline))) 0)"
proof -
  have inline: "callers one_inline 7 = InlineJob 0" by (simp add: one_inline_def)
  show ?thesis
    using inline_run_loses_the_job [OF one_inline_reached inline inline_raises [OF inline] pool_here] by blast
qed

text \<open>
  C14. Stopping the pool can hang. First, a worker that already waits to be woken when the stop flag is set, with no call that can
  still hand it a job, is alive for ever, since \<open>wakeThread:\<close> does not change the condition it waits for: \<open>reapThreads\<close> never returns.
  Second, if the flag is set after a call has woken a worker, the next step of that worker is to exit, and the call never returns.
\<close>

theorem stopping_can_hang:
  assumes "pool_run (initWithThreadCount isMultiThreaded n) p" "stopped p" "w < threadCount p" "worker_pc (workers p w) = WaitWakeup"
  shows "(thread_condition (workers p w) = RKThreadConditionSleeping \<longrightarrow> (\<forall>c. quiet (callers p c)) \<longrightarrow>
       (\<forall>q. pool_run p q \<longrightarrow> liveThreads q \<noteq> 0)) \<and>
    (thread_condition (workers p w) = RKThreadConditionWakeup \<longrightarrow> callers p c = Handing j k w \<longrightarrow>
       (\<forall>q r. worker_step w p q \<longrightarrow> pool_run q r \<longrightarrow> callers r c \<noteq> Returned))"
proof (intro conjI impI allI)
  fix q
  assume "thread_condition (workers p w) = RKThreadConditionSleeping" "\<forall>c. quiet (callers p c)" "pool_run p q"
  then show "liveThreads q \<noteq> 0"
    using assms(2-4) asleep_lives run_keeps_asleep [of p q w] run_keeps_live [of p q] run_keeps_live [OF assms(1) live_start]
    by (simp add: asleep_def)
next
  fix q r
  assume woken: "thread_condition (workers p w) = RKThreadConditionWakeup" "callers p c = Handing j k w" "worker_step w p q" "pool_run q r"
  have "stranded c q" using woken(3,1,2) assms(2,4) by (cases rule: worker_step.cases) (auto simp: stranded_def pool_updates)
  then have "stranded c r" using run_keeps_stranded [OF woken(4)] by simp
  then show "callers r c \<noteq> Returned" by (auto simp: stranded_def)
qed

theorem stopping_can_hang_witness: "liveThreads (one_worker\<lparr>stopped := True\<rparr>) \<noteq> 0"
  using stopping_can_hang [OF pool_on [OF one_worker_reached stops], of 0] pool_here by (simp add: one_worker_def quiet_def)

end
