(* ===== verification/RK_Coder.thy ===== *)
theory RK_Coder
  imports RK_Regex
begin

text \<open>
  \<open>RKCoder.m\<close>: the archive of a regex, reading it back, also through the placeholder (\<open>RKPlaceholder.m\<close>) that \<open>+alloc\<close> of
  \<open>RKRegex\<close> returns, and the list of differences between the library of the archive and the one that reads it, which goes
  with the exception if that fails.
\<close>

section \<open>Archives\<close>

text \<open>A keyed archive: the strings and the 32 bit integers under their keys. A key that is not there gives \<open>nil\<close> or 0.\<close>

record keyed_archive =
  archived_objects :: "string \<rightharpoonup> string"
  archived_ints :: "string \<rightharpoonup> u32"

definition empty_archive :: keyed_archive where
  "empty_archive = \<lparr>archived_objects = Map.empty, archived_ints = Map.empty\<rparr>"

definition encodeObject :: "string \<Rightarrow> string \<Rightarrow> keyed_archive \<Rightarrow> keyed_archive" where
  "encodeObject object key coder = coder\<lparr>archived_objects := (archived_objects coder)(key \<mapsto> object)\<rparr>"

definition encodeInt32 :: "u32 \<Rightarrow> string \<Rightarrow> keyed_archive \<Rightarrow> keyed_archive" where
  "encodeInt32 n key coder = coder\<lparr>archived_ints := (archived_ints coder)(key \<mapsto> n)\<rparr>"

definition decodeObjectForKey :: "keyed_archive \<Rightarrow> string \<Rightarrow> string option" where
  "decodeObjectForKey coder key = archived_objects coder key"

definition decodeInt32ForKey :: "keyed_archive \<Rightarrow> string \<Rightarrow> u32" where
  "decodeInt32ForKey coder key = (case archived_ints coder key of None \<Rightarrow> 0 | Some n \<Rightarrow> n)"

lemma decode_encode [simp]:
  "decodeObjectForKey (encodeObject x k c) k' = (if k' = k then Some x else decodeObjectForKey c k')"
  "decodeObjectForKey (encodeInt32 n k c) k' = decodeObjectForKey c k'"
  "decodeInt32ForKey (encodeInt32 n k c) k' = (if k' = k then n else decodeInt32ForKey c k')"
  "decodeInt32ForKey (encodeObject x k c) k' = decodeInt32ForKey c k'"
  by (simp_all add: decodeObjectForKey_def decodeInt32ForKey_def encodeObject_def encodeInt32_def)

text \<open>What the class methods of \<open>RKRegex\<close> tell of the library in use.\<close>

record pcre_information =
  PCREVersionString :: string
  PCREMajorVersion :: u32
  PCREMinorVersion :: u32
  PCREBuildConfig :: u32

definition RKRegexEncodeWithCoder :: "pcre_information \<Rightarrow> RKRegex \<Rightarrow> keyed_archive \<Rightarrow> keyed_archive" where
  "RKRegexEncodeWithCoder info self coder =
     encodeInt32 (PCREBuildConfig info) ''PCREBuildConfig''
     (encodeInt32 (PCREMinorVersion info) ''PCREMinorVersion''
     (encodeInt32 (PCREMajorVersion info) ''PCREMajorVersion''
     (encodeObject (PCREVersionString info) ''PCREVersionString''
     (encodeInt32 (compileOption self) ''RKCompileOption''
     (encodeObject (compiledRegexString self) ''RKRegexString'' coder)))))"

section \<open>Differences\<close>

text \<open>A line of the additional information, with the values that it prints.\<close>

datatype coder_difference =
    EncodedPCREVersion "string option" string
  | DecodedCompileOptions u32 | UnknownOptionBits u32 | UnknownNewlineType u32
  | EncodedBuildConfig u32 | CurrentBuildConfig u32 | DifferenceInBuilds u32

definition unknownCompileOption :: "u32 \<Rightarrow> u32" where
  "unknownCompileOption codedCompileOption = codedCompileOption AND NOT (RKCompileAllOptions OR RKCompileNewlineMask)"

definition valid_newline :: "u32 \<Rightarrow> bool" where
  "valid_newline codedCompileOption \<longleftrightarrow>
     codedCompileOption AND RKCompileNewlineMask \<in> {RKCompileNewlineCR, RKCompileNewlineLF, RKCompileNewlineCRLF,
       RKCompileNewlineAnyCRLF, RKCompileNewlineAny, RKCompileNewlineDefault}"

definition differenceBuildConfig :: "u32 \<Rightarrow> u32 \<Rightarrow> u32" where
  "differenceBuildConfig codedBuildConfig currentBuildConfig =
     ((codedBuildConfig AND NOT RKBuildConfigNewlineMask) XOR (currentBuildConfig AND NOT RKBuildConfigNewlineMask)) OR
     (if codedBuildConfig AND RKBuildConfigNewlineMask \<noteq> currentBuildConfig AND RKBuildConfigNewlineMask
      then codedBuildConfig AND RKBuildConfigNewlineMask else 0)"

definition RKRegexCoderDifferencesDictionary :: "pcre_information \<Rightarrow> keyed_archive \<Rightarrow> u32 \<Rightarrow> coder_difference list" where
  "RKRegexCoderDifferencesDictionary info coder codedCompileOption =
     (let codedVersionString = decodeObjectForKey coder ''PCREVersionString'';
          codedBuildConfig = decodeInt32ForKey coder ''PCREBuildConfig'';
          unknown = unknownCompileOption codedCompileOption;
          difference = differenceBuildConfig codedBuildConfig (PCREBuildConfig info)
      in (if codedVersionString \<noteq> Some (PCREVersionString info)
          then [EncodedPCREVersion codedVersionString (PCREVersionString info)] else []) @
         (if unknown \<noteq> 0 then [DecodedCompileOptions codedCompileOption, UnknownOptionBits unknown] else []) @
         (if \<not> valid_newline codedCompileOption then [UnknownNewlineType (codedCompileOption AND RKCompileNewlineMask)] else []) @
         (if difference \<noteq> 0
          then [EncodedBuildConfig codedBuildConfig, CurrentBuildConfig (PCREBuildConfig info), DifferenceInBuilds difference]
          else []))"

section \<open>Reading an archive\<close>

text \<open>
  \<open>init\<close> is \<open>initWithRegexString:options:\<close> of the object that gets the message. An exception of it is replaced by one with
  the old exception and the differences in its user info. \<open>init\<close> never returns \<open>NULL\<close>, so that the last test never fails.
\<close>

definition RKRegexInitWithCoder ::
  "(string option \<Rightarrow> u32 \<Rightarrow> RKRegex run \<times> RKRegex RKCache) \<Rightarrow> pcre_information \<Rightarrow> keyed_archive \<Rightarrow>
     RKRegex run \<times> (ns_exception \<times> coder_difference list) option \<times> RKRegex RKCache" where
  "RKRegexInitWithCoder init info coder =
     (let codedRegexString = decodeObjectForKey coder ''RKRegexString'';
          codedCompileOption = decodeInt32ForKey coder ''RKCompileOption'';
          (decoded, cache) = init codedRegexString codedCompileOption
      in case decoded of
           Ok r \<Rightarrow> (Ok r, None, cache)
         | Raise localException \<Rightarrow>
             (Raise NSInvalidUnarchiveOperationException,
              Some (localException, RKRegexCoderDifferencesDictionary info coder codedCompileOption), cache)
         | Undefined \<Rightarrow> (Undefined, None, cache))"

text \<open>The placeholder sends its initialisers through the cache.\<close>

definition placeholder_initWithRegexString ::
  "foundation \<Rightarrow> pcre_library \<Rightarrow> bool \<Rightarrow> RKRegex RKCache \<Rightarrow> string option \<Rightarrow> u32 \<Rightarrow> RKRegex run \<times> RKRegex RKCache" where
  "placeholder_initWithRegexString F L locked cache regexString options =
     RKRegexFromStringOrRegex F L locked cache (case regexString of None \<Rightarrow> ArgNULL | Some s \<Rightarrow> ArgString s) options"

definition placeholder_initWithRegexString_error ::
  "foundation \<Rightarrow> pcre_library \<Rightarrow> bool \<Rightarrow> RKRegex RKCache \<Rightarrow> string option \<Rightarrow> bool \<Rightarrow> u32 \<Rightarrow>
     (RKRegex option \<times> ns_error option) run \<times> RKRegex RKCache" where
  "placeholder_initWithRegexString_error F L locked cache regexString libraryIsPCRE libraryOptions =
     RKRegexFromStringOrRegexWithError F L locked cache (case regexString of None \<Rightarrow> ArgNULL | Some s \<Rightarrow> ArgString s)
       libraryIsPCRE libraryOptions"

definition placeholder_initWithCoder where
  "placeholder_initWithCoder F L locked cache info coder =
     RKRegexInitWithCoder (placeholder_initWithRegexString F L locked cache) info coder"

text \<open>\<open>initWithCoder:\<close> of \<open>RKRegex\<close> itself, which compiles anew.\<close>

definition regex_initWithCoder where
  "regex_initWithCoder F L locked cache info coder =
     RKRegexInitWithCoder (initWithRegexString F L locked cache) info coder"

section \<open>What the archive keeps\<close>

lemma decoded_fields [simp]:
  "decodeObjectForKey (RKRegexEncodeWithCoder info r coder) ''RKRegexString'' = Some (compiledRegexString r)"
  "decodeInt32ForKey (RKRegexEncodeWithCoder info r coder) ''RKCompileOption'' = compileOption r"
  "decodeObjectForKey (RKRegexEncodeWithCoder info r coder) ''PCREVersionString'' = Some (PCREVersionString info)"
  "decodeInt32ForKey (RKRegexEncodeWithCoder info r coder) ''PCREBuildConfig'' = PCREBuildConfig info"
  by (simp_all add: RKRegexEncodeWithCoder_def)

lemma from_cache:
  assumes "cache_built F L cache" "no_collision F cache s options"
  shows "fst (placeholder_initWithRegexString F L locked cache (Some s) options) = older_api (build_regex F L (Some s) True options)"
proof -
  obtain d cache' where d: "regex_from_string F L locked cache s True options = (d, cache')" by force
  then show ?thesis
    using from_string_transparent [OF assms, of locked]
    by (simp add: placeholder_initWithRegexString_def RKRegexFromStringOrRegex_def RKRegexFromStringOrRegexWithError_def)
qed

lemma from_compiler:
  "fst (initWithRegexString F L locked cache s options) = older_api (build_regex F L s True options)"
  by (simp add: initWithRegexString_def initWithRegexString_error_def Let_def split: run.split prod.split option.split)

text \<open>The result of reading an archive, from that of the initialiser.\<close>

definition unarchived :: "RKRegex run \<Rightarrow> pcre_information \<Rightarrow> keyed_archive \<Rightarrow> RKRegex run \<times> (ns_exception \<times> coder_difference list) option" where
  "unarchived decoded info coder =
     (case decoded of
        Ok r \<Rightarrow> (Ok r, None)
      | Raise e \<Rightarrow> (Raise NSInvalidUnarchiveOperationException,
          Some (e, RKRegexCoderDifferencesDictionary info coder (decodeInt32ForKey coder ''RKCompileOption'')))
      | Undefined \<Rightarrow> (Undefined, None))"

lemma init_unarchived:
  assumes "fst (init (decodeObjectForKey coder ''RKRegexString'') (decodeInt32ForKey coder ''RKCompileOption'')) = decoded"
  shows "(case RKRegexInitWithCoder init info coder of (r, e, cache) \<Rightarrow> (r, e)) = unarchived decoded info coder"
proof -
  obtain d cache where "init (decodeObjectForKey coder ''RKRegexString'') (decodeInt32ForKey coder ''RKCompileOption'') = (d, cache)" by force
  then show ?thesis
    using assms by (cases decoded) (simp_all add: RKRegexInitWithCoder_def unarchived_def)
qed

lemma mask_split: "(a = b) = ((a :: u32) AND NOT m = b AND NOT m \<and> a AND m = b AND m)"
proof
  assume same: "a AND NOT m = b AND NOT m \<and> a AND m = b AND m"
  have "c = (c AND NOT m) OR (c AND m)" for c :: u32
    by (rule bit_eqI) (auto simp: bit_simps)
  then show "a = b" using same by metis
qed simp

lemma or_zero: "((a :: u32) OR b = 0) = (a = 0 \<and> b = 0)"
  by (auto simp: bit_eq_iff bit_simps)

lemma xor_zero: "((a :: u32) XOR b = 0) = (a = b)"
  by (auto simp: bit_eq_iff bit_simps)

lemma difference_zero:
  "(differenceBuildConfig coded current = 0) =
     (coded = current \<or> coded AND NOT RKBuildConfigNewlineMask = current AND NOT RKBuildConfigNewlineMask \<and>
        coded AND RKBuildConfigNewlineMask = RKBuildConfigNewlineDefault)"
  by (auto simp: differenceBuildConfig_def or_zero xor_zero RKBuildConfigNewlineDefault_def
      mask_split [of coded current RKBuildConfigNewlineMask])

section \<open>What the differences say\<close>

text \<open>
  Bits 20 to 22 of the options and of the build configuration are the newline, a number; 0 is the default, 5 the last one known.
\<close>

definition newline_type :: "u32 \<Rightarrow> nat" where
  "newline_type config = unat (drop_bit 20 config AND 7)"

lemma bit_7: "bit (7 :: u32) n \<longleftrightarrow> n < 3"
proof -
  have seven: "(7 :: u32) = mask 3" by (simp add: mask_eq_exp_minus_1)
  show ?thesis unfolding seven bit_mask_iff by auto
qed

lemma bit_newline_mask: "bit (0x700000 :: u32) n \<longleftrightarrow> n \<in> {20, 21, 22}"
proof -
  have shifted: "(0x700000 :: u32) = push_bit 20 7" by (simp add: push_bit_eq_mult)
  show ?thesis unfolding shifted bit_push_bit_iff bit_7 by auto
qed

lemma newline_part: "config AND 0x700000 = push_bit 20 (drop_bit 20 config AND 7)" for config :: u32
  by (rule bit_eqI, unfold bit_and_iff bit_push_bit_iff bit_drop_bit_eq o_def bit_newline_mask bit_7) auto

lemma newline_drop: "drop_bit 20 config AND 7 = drop_bit 20 (config AND 0x700000)" for config :: u32
  by (rule bit_eqI, unfold bit_and_iff bit_drop_bit_eq o_def bit_newline_mask bit_7) auto

lemma same_newline: "a AND 0x700000 = b AND 0x700000 \<longleftrightarrow> newline_type a = newline_type b"
  by (metis newline_type_def newline_part newline_drop word_unat_eq_iff)

lemma newline_small: "(w AND 7 :: u32) \<in> {0, 1, 2, 3, 4, 5, 6, 7}"
proof -
  have "w AND 7 = take_bit 3 w" by (rule bit_eqI, unfold bit_and_iff bit_take_bit_iff bit_7) auto
  then have "unat (w AND 7) < 8" by (simp add: take_bit_eq_mod unat_mod)
  then have "unat (w AND 7) \<in> {0, 1, 2, 3, 4, 5, 6, 7}" by auto
  then show ?thesis by (auto simp: word_unat_eq_iff)
qed

lemma valid_newline_type: "valid_newline options \<longleftrightarrow> newline_type options \<le> 5"
proof -
  define w where "w = drop_bit 20 options AND 7"
  have "w \<in> {0, 1, 2, 3, 4, 5, 6, 7}" unfolding w_def by (rule newline_small)
  then have "push_bit 20 w \<in> {RKCompileNewlineCR, RKCompileNewlineLF, RKCompileNewlineCRLF, RKCompileNewlineAnyCRLF,
      RKCompileNewlineAny, RKCompileNewlineDefault} \<longleftrightarrow> unat w \<le> 5"
    by (auto simp: push_bit_eq_mult RKCompileNewlineCR_def RKCompileNewlineLF_def RKCompileNewlineCRLF_def
        RKCompileNewlineAnyCRLF_def RKCompileNewlineAny_def RKCompileNewlineDefault_def)
  then show ?thesis unfolding valid_newline_def RKCompileNewlineMask_def newline_part newline_type_def w_def .
qed

text \<open>
  What the differences tell of the library that wrote the archive and the one in use. A newline in which the two
  differ is told only if that of the archive is not the default.
\<close>

definition differences_told :: "pcre_information \<Rightarrow> pcre_information \<Rightarrow> u32 \<Rightarrow> coder_difference list \<Rightarrow> bool" where
  "differences_told writer info options ds \<longleftrightarrow>
     ((\<exists>old new. EncodedPCREVersion old new \<in> set ds) \<longleftrightarrow> PCREVersionString writer \<noteq> PCREVersionString info) \<and>
     ((\<exists>bits. UnknownOptionBits bits \<in> set ds) \<longleftrightarrow>
        (\<exists>n. bit options n \<and> \<not> bit RKCompileAllOptions n \<and> n \<notin> {20, 21, 22})) \<and>
     ((\<exists>t. UnknownNewlineType t \<in> set ds) \<longleftrightarrow> 5 < newline_type options) \<and>
     (\<forall>d n. DifferenceInBuilds d \<in> set ds \<and> n \<notin> {20, 21, 22} \<longrightarrow>
        (bit d n \<longleftrightarrow> bit (PCREBuildConfig writer) n \<noteq> bit (PCREBuildConfig info) n)) \<and>
     ((\<exists>d. DifferenceInBuilds d \<in> set ds) \<longleftrightarrow>
        (\<exists>n. n \<notin> {20, 21, 22} \<and> bit (PCREBuildConfig writer) n \<noteq> bit (PCREBuildConfig info) n) \<or>
        newline_type (PCREBuildConfig writer) \<noteq> newline_type (PCREBuildConfig info) \<and> newline_type (PCREBuildConfig writer) \<noteq> 0)"

lemma zero_iff_no_bit: "(w :: u32) = 0 \<longleftrightarrow> (\<forall>n. \<not> bit w n)"
  by (metis bit_0_eq bot_apply bot_bool_def bit_eqI)

lemma unknown_bits:
  "unknownCompileOption options \<noteq> 0 \<longleftrightarrow> (\<exists>n. bit options n \<and> \<not> bit RKCompileAllOptions n \<and> n \<notin> {20, 21, 22})"
  unfolding zero_iff_no_bit unknownCompileOption_def RKCompileNewlineMask_def bit_and_iff bit_not_iff bit_or_iff bit_newline_mask
  using bit_imp_le_length [of options] by auto

lemma other_bits:
  "(a :: u32) AND NOT 0x700000 = b AND NOT 0x700000 \<longleftrightarrow> (\<forall>n. n \<notin> {20, 21, 22} \<longrightarrow> (bit a n \<longleftrightarrow> bit b n))"
proof
  assume same: "a AND NOT 0x700000 = b AND NOT 0x700000"
  show "\<forall>n. n \<notin> {20, 21, 22} \<longrightarrow> (bit a n \<longleftrightarrow> bit b n)"
  proof (intro allI impI)
    fix n :: nat
    assume "n \<notin> {20, 21, 22}"
    moreover have "bit (a AND NOT 0x700000) n \<longleftrightarrow> bit (b AND NOT 0x700000) n" by (simp only: same)
    ultimately show "bit a n \<longleftrightarrow> bit b n"
      unfolding bit_and_iff bit_not_iff bit_newline_mask by (auto dest: bit_imp_le_length)
  qed
next
  assume "\<forall>n. n \<notin> {20, 21, 22} \<longrightarrow> (bit a n \<longleftrightarrow> bit b n)"
  then show "a AND NOT 0x700000 = b AND NOT 0x700000"
    by (intro bit_eqI) (auto simp only: bit_and_iff bit_not_iff bit_newline_mask)
qed

lemma difference_bits:
  assumes "n \<notin> {20, 21, 22}"
  shows "bit (differenceBuildConfig a b) n \<longleftrightarrow> bit a n \<noteq> bit b n"
proof -
  have "\<not> bit (a AND 0x700000) n" using assms unfolding bit_and_iff bit_newline_mask by simp
  moreover have "\<not> bit x n \<Longrightarrow> \<not> bit (if c then x else (0 :: u32)) n" for c x by simp
  ultimately have "\<not> bit (if c then a AND 0x700000 else 0) n" for c by blast
  then show ?thesis
    using assms unfolding differenceBuildConfig_def RKBuildConfigNewlineMask_def bit_or_iff bit_xor_iff bit_and_iff bit_not_iff
      bit_newline_mask
    by (auto dest: bit_imp_le_length)
qed

lemma difference_told:
  "differenceBuildConfig a b \<noteq> 0 \<longleftrightarrow> (\<exists>n. n \<notin> {20, 21, 22} \<and> bit a n \<noteq> bit b n) \<or>
     newline_type a \<noteq> newline_type b \<and> newline_type a \<noteq> 0"
proof -
  have "a AND 0x700000 = 0 \<longleftrightarrow> newline_type a = 0" using same_newline [of a 0] by (simp add: newline_type_def)
  then show ?thesis
    using difference_zero [of a b] mask_split [of a b "0x700000"] same_newline [of a b] other_bits [of a b]
    unfolding RKBuildConfigNewlineMask_def RKBuildConfigNewlineDefault_def by metis
qed

lemma dictionary_tells:
  assumes "decodeObjectForKey coder ''PCREVersionString'' = Some (PCREVersionString writer)"
    "decodeInt32ForKey coder ''PCREBuildConfig'' = PCREBuildConfig writer"
  shows "differences_told writer info options (RKRegexCoderDifferencesDictionary info coder options)"
proof -
  let ?ds = "RKRegexCoderDifferencesDictionary info coder options"
  note dictionary = RKRegexCoderDifferencesDictionary_def Let_def assms
  let ?difference = "differenceBuildConfig (PCREBuildConfig writer) (PCREBuildConfig info)"
  have difference: "DifferenceInBuilds d \<in> set ?ds \<longleftrightarrow> d = ?difference \<and> ?difference \<noteq> 0" for d
    by (auto simp: dictionary)
  show ?thesis
    unfolding differences_told_def unknown_bits [symmetric] difference_told [symmetric] not_le [symmetric]
      valid_newline_type [symmetric]
  proof (intro conjI)
    show "(\<exists>old new. EncodedPCREVersion old new \<in> set ?ds) \<longleftrightarrow> PCREVersionString writer \<noteq> PCREVersionString info"
      and "(\<exists>bits. UnknownOptionBits bits \<in> set ?ds) \<longleftrightarrow> unknownCompileOption options \<noteq> 0"
      and "(\<exists>t. UnknownNewlineType t \<in> set ?ds) \<longleftrightarrow> \<not> valid_newline options"
      by (auto simp: dictionary)
    show "(\<exists>d. DifferenceInBuilds d \<in> set ?ds) \<longleftrightarrow> ?difference \<noteq> 0" unfolding difference by simp
    show "\<forall>d n. DifferenceInBuilds d \<in> set ?ds \<and> n \<notin> {20, 21, 22} \<longrightarrow>
        (bit d n \<longleftrightarrow> bit (PCREBuildConfig writer) n \<noteq> bit (PCREBuildConfig info) n)"
      unfolding difference using difference_bits by blast
  qed
qed

section \<open>Round trip\<close>

text \<open>
  C20. A regex is read back from its archive, whatever library wrote the archive and whatever else is in it, as what its
  pattern and options give with the library in use: by the placeholder through the cache, provided that no other regex in the
  cache has the hash of the request, and compiled anew by an \<open>RKRegex\<close>. That is the same regex where the library still makes
  it. Where the pattern does not compile the result is \<open>NSInvalidUnarchiveOperationException\<close> with the exception of the
  initialiser and the differences: a line for another version, for unknown option bits, for an unknown newline type, and for the
  bits in which the build configurations differ. A newline in which only the builds differ is not told when that of
  the archive is the default.
\<close>

theorem regex_survives_archiving:
  assumes "cache_built F L cache" "no_collision F cache (compiledRegexString r) (compileOption r)"
    and "older_api (build_regex F L (Some (compiledRegexString r)) True (compileOption r)) = current"
    and "coder = RKRegexEncodeWithCoder writer r archive"
    and "init = placeholder_initWithCoder F L locked cache info coder \<or> init = regex_initWithCoder F L locked cache info coder"
  shows "(current = Ok r \<longrightarrow> (\<exists>cache'. init = (Ok r, None, cache'))) \<and>
    (\<forall>e. current = Raise e \<longrightarrow>
      (\<exists>ds cache'. init = (Raise NSInvalidUnarchiveOperationException, Some (e, ds), cache') \<and>
         differences_told writer info (compileOption r) ds))"
proof -
  have "(case init of (result, err, cache') \<Rightarrow> (result, err)) = unarchived current info coder"
    using assms(5)
  proof
    assume init: "init = placeholder_initWithCoder F L locked cache info coder"
    show ?thesis
      unfolding init placeholder_initWithCoder_def by (rule init_unarchived) (simp add: assms(3,4) from_cache [OF assms(1,2)])
  next
    assume init: "init = regex_initWithCoder F L locked cache info coder"
    show ?thesis
      unfolding init regex_initWithCoder_def by (rule init_unarchived) (simp add: assms(3,4) from_compiler)
  qed
  moreover have "differences_told writer info (compileOption r)
      (RKRegexCoderDifferencesDictionary info coder (decodeInt32ForKey coder ''RKCompileOption''))"
    using dictionary_tells [of coder writer info "compileOption r"] by (simp add: assms(4))
  ultimately show ?thesis by (cases init) (auto simp: unarchived_def)
qed

definition archived_sample :: RKRegex where
  "archived_sample = \<lparr>compiledPCRE = 2, regex_jchanged = Some 0, compiledRegexString = ''ab'', compileOption = 0,
      captureCount = 1, captureNameTable = [], captureNameTableLength = 0, captureNameLength = 0,
      captureNameArray = None, regex_hash = 2\<rparr>"

definition sample_information :: pcre_information where
  "sample_information = \<lparr>PCREVersionString = ''7.6'', PCREMajorVersion = 7, PCREMinorVersion = 6, PCREBuildConfig = 0x00200003\<rparr>"

theorem regex_survives_archiving_witness:
  "(case placeholder_initWithCoder sample_foundation sample_pcre False ready_cache sample_information
      (RKRegexEncodeWithCoder sample_information archived_sample empty_archive) of (result, err, cache') \<Rightarrow> (result, err)) = (Ok archived_sample, None)"
proof -
  have built: "cache_built sample_foundation sample_pcre ready_cache" "no_collision sample_foundation ready_cache s opts" for s opts
    by (simp_all add: cache_built_def no_collision_def ready_cache_invar)
  have current: "older_api (build_regex sample_foundation sample_pcre (Some (compiledRegexString archived_sample)) True
      (compileOption archived_sample)) = Ok archived_sample"
    by (simp add: archived_sample_def sample_build older_api_def)
  obtain cache' where "placeholder_initWithCoder sample_foundation sample_pcre False ready_cache sample_information
      (RKRegexEncodeWithCoder sample_information archived_sample empty_archive) = (Ok archived_sample, None, cache')"
    using regex_survives_archiving [OF built(1) built(2) current refl disjI1 [OF refl], where writer = sample_information and
        archive = empty_archive and locked = False and info = sample_information]
    by blast
  then show ?thesis by simp
qed

text \<open>The newline in which two libraries differ is not reported when that of the archive is the default.\<close>

lemma default_newline_not_reported:
  "differenceBuildConfig (RKBuildConfigUTF8 OR RKBuildConfigNewlineDefault) (RKBuildConfigUTF8 OR RKBuildConfigNewlineCR) = 0"
  by (simp add: differenceBuildConfig_def RKBuildConfigUTF8_def RKBuildConfigNewlineDefault_def RKBuildConfigNewlineCR_def
      RKBuildConfigNewlineMask_def)

end
