(* ===== verification/RK_Placeholder.thy ===== *)
theory RK_Placeholder
  imports RK_Prelude
begin

text \<open>
  \<open>RKPlaceholder.m\<close>: the one object that \<open>+alloc\<close> of \<open>RKRegex\<close> returns, made by the first threads that ask for it. The
  model is a step relation of any number of threads in \<open>sharedObject\<close>, one access to the shared pointer a step.
\<close>

section \<open>Counting references\<close>

text \<open>The placeholder is immortal: counting references does nothing, and a copy is the object itself.\<close>

definition placeholder_retain :: "nat \<Rightarrow> nat" where "placeholder_retain self = self"
definition placeholder_autorelease :: "nat \<Rightarrow> nat" where "placeholder_autorelease self = self"
definition placeholder_copyWithZone :: "nat \<Rightarrow> nat" where "placeholder_copyWithZone self = self"
definition placeholder_retainCount :: u64 where "placeholder_retainCount = RKIntegerMax - 1"

text \<open>Objects are numbered in the order of their allocation; the heap holds those that are not deallocated.\<close>

record placeholder_state =
  singletonRKRegexPlaceholder :: "nat option"
  next_object :: nat
  live_objects :: "nat set"

definition placeholder_release :: "nat \<Rightarrow> placeholder_state \<Rightarrow> placeholder_state" where
  "placeholder_release self st = st"

section \<open>The shared object\<close>

datatype shared_point =
    ReadShared | AllocObject | ExchangeShared nat | ReleaseTemp nat | ReturnShared | HasShared "nat option"

text \<open>\<open>allocWithZone:\<close>: the shared object if there is one, or a new one.\<close>

definition placeholder_allocWithZone :: "placeholder_state \<Rightarrow> placeholder_state \<times> nat" where
  "placeholder_allocWithZone st =
     (case singletonRKRegexPlaceholder st of
        Some x \<Rightarrow> (st, x)
      | None \<Rightarrow> (st\<lparr>next_object := Suc (next_object st), live_objects := insert (next_object st) (live_objects st)\<rparr>, next_object st))"

fun shared_step :: "placeholder_state \<Rightarrow> shared_point \<Rightarrow> placeholder_state \<times> shared_point" where
  "shared_step st ReadShared =
     (st, if singletonRKRegexPlaceholder st \<noteq> None then HasShared (singletonRKRegexPlaceholder st) else AllocObject)"
| "shared_step st AllocObject = (case placeholder_allocWithZone st of (st', x) \<Rightarrow> (st', ExchangeShared x))"
| "shared_step st (ExchangeShared x) =
     (if singletonRKRegexPlaceholder st = None then (st\<lparr>singletonRKRegexPlaceholder := Some x\<rparr>, ReturnShared)
      else (st, ReleaseTemp x))"
| "shared_step st (ReleaseTemp x) = (placeholder_release x st, ReturnShared)"
| "shared_step st ReturnShared = (st, HasShared (singletonRKRegexPlaceholder st))"
| "shared_step st (HasShared x) = (st, HasShared x)"

definition shared_start :: placeholder_state where
  "shared_start = \<lparr>singletonRKRegexPlaceholder = None, next_object = 0, live_objects = {}\<rparr>"

inductive shared_run :: "placeholder_state \<Rightarrow> (nat \<Rightarrow> shared_point) \<Rightarrow> bool" where
  shared_init: "shared_run shared_start (\<lambda>t. ReadShared)"
| shared_next: "shared_run st points \<Longrightarrow> shared_step st (points t) = (st', point) \<Longrightarrow> shared_run st' (points(t := point))"

text \<open>Every object that is live, but the shared one, was made by a thread that came too late.\<close>

fun point_ok :: "placeholder_state \<Rightarrow> shared_point \<Rightarrow> bool" where
  "point_ok st (ExchangeShared x) \<longleftrightarrow> x \<in> live_objects st"
| "point_ok st (ReleaseTemp x) \<longleftrightarrow> x \<in> live_objects st \<and> singletonRKRegexPlaceholder st \<noteq> None"
| "point_ok st ReturnShared \<longleftrightarrow> singletonRKRegexPlaceholder st \<noteq> None"
| "point_ok st (HasShared x) \<longleftrightarrow> x \<noteq> None \<and> x = singletonRKRegexPlaceholder st"
| "point_ok st pc \<longleftrightarrow> True"

definition shared_ok :: "placeholder_state \<Rightarrow> bool" where
  "shared_ok st \<longleftrightarrow> live_objects st = {..<next_object st} \<and>
     (case singletonRKRegexPlaceholder st of None \<Rightarrow> True | Some x \<Rightarrow> x \<in> live_objects st)"

lemma shared_step_ok:
  assumes "shared_step st pc = (st', pc')" "shared_ok st" "point_ok st pc"
  shows "shared_ok st' \<and> point_ok st' pc'"
proof (cases pc)
  case ReadShared
  then show ?thesis using assms by auto
next
  case AllocObject
  show ?thesis
  proof (cases "singletonRKRegexPlaceholder st")
    case None
    have made: "st' = st\<lparr>next_object := Suc (next_object st), live_objects := insert (next_object st) (live_objects st)\<rparr>"
      "pc' = ExchangeShared (next_object st)"
      using None AllocObject assms(1) by (simp_all add: placeholder_allocWithZone_def)
    show ?thesis using assms(2) None by (simp add: made shared_ok_def lessThan_Suc)
  next
    case (Some x)
    have same: "st' = st" "pc' = ExchangeShared x"
      using Some AllocObject assms(1) by (simp_all add: placeholder_allocWithZone_def)
    show ?thesis using assms(2) Some by (auto simp: same shared_ok_def)
  qed
next
  case (ExchangeShared x)
  have live: "x \<in> live_objects st" using ExchangeShared assms(3) by simp
  show ?thesis
  proof (cases "singletonRKRegexPlaceholder st")
    case None
    have made: "st' = st\<lparr>singletonRKRegexPlaceholder := Some x\<rparr>" "pc' = ReturnShared"
      using None ExchangeShared assms(1) by simp_all
    show ?thesis using assms(2) live None by (simp add: made shared_ok_def)
  next
    case (Some y)
    have same: "st' = st" "pc' = ReleaseTemp x"
      using Some ExchangeShared assms(1) by simp_all
    show ?thesis using assms(2) live Some by (simp add: same)
  qed
next
  case (ReleaseTemp x)
  have same: "st' = st" "pc' = ReturnShared" using ReleaseTemp assms(1) by (simp_all add: placeholder_release_def)
  show ?thesis using ReleaseTemp assms(2,3) by (simp add: same)
next
  case ReturnShared
  have same: "st' = st" "pc' = HasShared (singletonRKRegexPlaceholder st)" using ReturnShared assms(1) by auto
  show ?thesis using ReturnShared assms(2,3) by (simp add: same)
next
  case (HasShared x)
  then show ?thesis using assms by simp
qed

lemma shared_step_grows:
  "shared_step st pc = (st', pc') \<Longrightarrow> live_objects st \<subseteq> live_objects st' \<and>
     (singletonRKRegexPlaceholder st \<noteq> None \<longrightarrow> singletonRKRegexPlaceholder st' = singletonRKRegexPlaceholder st)"
  by (cases pc) (auto simp: placeholder_allocWithZone_def placeholder_release_def split: if_splits option.splits)

lemma shared_step_keeps_points:
  assumes "shared_step st pc = (st', pc')" "point_ok st q"
  shows "point_ok st' q"
  using shared_step_grows [OF assms(1)] assms(2) by (cases q) auto

lemma shared_run_ok: "shared_run st points \<Longrightarrow> shared_ok st \<and> (\<forall>t. point_ok st (points t))"
proof (induction rule: shared_run.induct)
  case shared_init
  then show ?case by (simp add: shared_ok_def shared_start_def)
next
  case (shared_next st points t st' point)
  then have "shared_ok st' \<and> point_ok st' point" using shared_step_ok [OF shared_next(2)] by blast
  then show ?case using shared_step_keeps_points [OF shared_next(2)] shared_next(3) by simp
qed

text \<open>
  C29. In every interleaving, all calls of \<open>sharedObject\<close> that return have returned the same object, which is live and is what
  every later call returns.
\<close>

theorem shared_object_unique:
  assumes "shared_run st points" "points t = HasShared x" "points u = HasShared y"
  shows "x = y \<and> (\<exists>object. x = Some object \<and> object \<in> live_objects st) \<and> shared_step st ReadShared = (st, HasShared x)"
proof -
  have "shared_ok st" "point_ok st (HasShared x)" "point_ok st (HasShared y)"
    using shared_run_ok [OF assms(1)] assms(2,3) by metis+
  then show ?thesis by (auto simp: shared_ok_def)
qed

text \<open>One thread, which finds no object, makes it and returns it.\<close>

definition made_shared :: placeholder_state where
  "made_shared = \<lparr>singletonRKRegexPlaceholder = Some 0, next_object = 1, live_objects = {0}\<rparr>"

lemma shared_go: "shared_run st points \<Longrightarrow> shared_step st (points t) = (st', point) \<Longrightarrow> points' = points(t := point) \<Longrightarrow> shared_run st' points'"
  using shared_next by blast

lemma made_shared_reached: "shared_run made_shared ((\<lambda>t. ReadShared)(0 := HasShared (Some 0)))"
proof -
  let ?at = "\<lambda>point. (\<lambda>t :: nat. ReadShared)(0 := point)"
  let ?made = "\<lparr>singletonRKRegexPlaceholder = None, next_object = 1, live_objects = {0}\<rparr>"
  have "shared_run shared_start (?at AllocObject)"
    by (rule shared_go [OF shared_init, where t = 0]) (simp_all add: shared_start_def)
  then have "shared_run ?made (?at (ExchangeShared 0))"
    by (rule shared_go [where t = 0]) (simp_all add: shared_start_def placeholder_allocWithZone_def)
  then have "shared_run made_shared (?at ReturnShared)"
    by (rule shared_go [where t = 0]) (simp_all add: made_shared_def)
  then show ?thesis
    by (rule shared_go [where t = 0]) (simp_all add: made_shared_def)
qed

theorem shared_object_unique_witness: "0 \<in> live_objects made_shared \<and> shared_step made_shared ReadShared = (made_shared, HasShared (Some 0))"
  using shared_object_unique [OF made_shared_reached, of 0 "Some 0" 0 "Some 0"] by simp

text \<open>A thread that came too late releases its own object, but \<open>release\<close> does nothing: the object is never deallocated.\<close>

lemma late_object_is_kept:
  assumes "shared_step st (ReleaseTemp x) = (st', pc')" "x \<in> live_objects st"
  shows "x \<in> live_objects st'"
  using assms by (simp add: placeholder_release_def)

end
