(* ===== verification/RK_AutoreleasedMemory.thy ===== *)
theory RK_AutoreleasedMemory
  imports RK_Prelude
begin

text \<open>
  \<open>RKAutoreleasedMemory.m\<close>: memory behind an object in the autorelease pool, in the configuration that uses it, Mac OS X
  before 10.5 with 32 bit pointers. The address that the allocation gives and the size of an instance are parameters.
\<close>

section \<open>The code\<close>

record autoreleased_class =
  RKAutoreleasedMemoryLoadInitialized :: bool
  classSizeDifference :: u32
  classAlignedSize :: u32

definition not_loaded :: autoreleased_class where
  "not_loaded = \<lparr>RKAutoreleasedMemoryLoadInitialized = False, classSizeDifference = 0, classAlignedSize = 0\<rparr>"

text \<open>\<open>+initialize\<close>.\<close>

definition initialize_memory :: "u32 \<Rightarrow> autoreleased_class \<Rightarrow> autoreleased_class" where
  "initialize_memory instance_size st =
     (if RKAutoreleasedMemoryLoadInitialized st then st
      else let difference = 16 - instance_size mod 16
           in \<lparr>RKAutoreleasedMemoryLoadInitialized = True, classSizeDifference = difference,
               classAlignedSize = instance_size + difference\<rparr>)"

text \<open>
  Sending a message runs \<open>+initialize\<close> of the class first. The message that the code sends, \<open>initalize\<close>, is none that the
  class knows: the runtime raises.
\<close>

definition send_initalize :: "u32 \<Rightarrow> autoreleased_class \<Rightarrow> unit run \<times> autoreleased_class" where
  "send_initalize instance_size st = (Raise NSInvalidArgumentException, initialize_memory instance_size st)"

text \<open>The number of bytes after the instance that \<open>NSAllocateObject\<close> is asked for, and the pointer returned for the object at \<open>base\<close>.\<close>

definition extraBytes :: "autoreleased_class \<Rightarrow> u32 \<Rightarrow> u32" where
  "extraBytes st bytes = bytes + classSizeDifference st"

definition autoreleasedMalloc :: "u32 \<Rightarrow> u32 \<Rightarrow> autoreleased_class \<Rightarrow> u32 \<Rightarrow> u32 run \<times> autoreleased_class" where
  "autoreleasedMalloc instance_size base st bytes =
     (if \<not> RKAutoreleasedMemoryLoadInitialized st
      then (case send_initalize instance_size st of
              (Ok u, st') \<Rightarrow> (Ok (base + classAlignedSize st'), st')
            | (Raise e, st') \<Rightarrow> (Raise e, st')
            | (Undefined, st') \<Rightarrow> (Undefined, st'))
      else (Ok (base + classAlignedSize st), st))"

section \<open>Alignment and bounds\<close>

definition memory_loaded :: "u32 \<Rightarrow> autoreleased_class \<Rightarrow> bool" where
  "memory_loaded instance_size st \<longleftrightarrow> st = initialize_memory instance_size not_loaded"

lemma first_call_raises:
  "autoreleasedMalloc instance_size base not_loaded bytes = (Raise NSInvalidArgumentException, initialize_memory instance_size not_loaded)"
  by (simp add: autoreleasedMalloc_def send_initalize_def not_loaded_def)

lemma aligned_size:
  assumes "memory_loaded instance_size st" "unat instance_size + 16 < 2 ^ 32"
  shows "unat (classSizeDifference st) = 16 - unat instance_size mod 16"
    "unat (classAlignedSize st) = unat instance_size + (16 - unat instance_size mod 16)"
proof -
  have m: "unat (instance_size mod 16) = unat instance_size mod 16" by (simp add: unat_mod)
  have "unat (16 - instance_size mod 16) = 16 - unat instance_size mod 16"
    using m by (subst unat_sub) (auto simp: word_le_nat_alt)
  moreover have "unat (instance_size + (16 - instance_size mod 16)) = unat instance_size + (16 - unat instance_size mod 16)"
    using calculation assms(2) by (subst unat_add_lem [THEN iffD1]) auto
  ultimately show "unat (classSizeDifference st) = 16 - unat instance_size mod 16"
    "unat (classAlignedSize st) = unat instance_size + (16 - unat instance_size mod 16)"
    using assms(1) by (simp_all add: memory_loaded_def initialize_memory_def not_loaded_def Let_def)
qed

text \<open>
  The first call raises, since the name of the message is misspelled, and loads the class. After that, for an object at an address
  that is a multiple of 16, and unless a size wraps around, the memory returned is aligned to 16 bytes, lies behind the
  instance and ends exactly where the bytes that were asked for end.
\<close>

lemma autoreleased_memory_bounds:
  assumes "memory_loaded instance_size st" "unat base mod 16 = 0"
    and "unat base + unat instance_size + unat bytes + 16 < 2 ^ 32"
  shows "autoreleasedMalloc instance_size base not_loaded bytes = (Raise NSInvalidArgumentException, st) \<and>
    (\<exists>p. autoreleasedMalloc instance_size base st bytes = (Ok p, st) \<and> unat p mod 16 = 0 \<and>
       unat base + unat instance_size < unat p \<and> unat p + unat bytes = unat base + unat instance_size + unat (extraBytes st bytes))"
proof -
  obtain d where size: "unat (classSizeDifference st) = d" "unat (classAlignedSize st) = unat instance_size + d"
    and d: "0 < d" "d \<le> 16" "(unat instance_size + d) mod 16 = 0"
  proof
    show "unat (classSizeDifference st) = 16 - unat instance_size mod 16"
      "unat (classAlignedSize st) = unat instance_size + (16 - unat instance_size mod 16)"
      using aligned_size [OF assms(1)] assms(3) by auto
    show "(unat instance_size + (16 - unat instance_size mod 16)) mod 16 = 0" by presburger
  qed simp_all
  have p: "unat (base + classAlignedSize st) = unat base + (unat instance_size + d)"
    using size d(2) assms(3) by (subst unat_add_lem [THEN iffD1]) auto
  have e: "unat (extraBytes st bytes) = unat bytes + d"
    unfolding extraBytes_def using size d(2) assms(3) by (subst unat_add_lem [THEN iffD1]) auto
  have "(unat base + (unat instance_size + d)) mod 16 = 0" using assms(2) d(3) by presburger
  moreover have "RKAutoreleasedMemoryLoadInitialized st"
    using assms(1) by (simp add: memory_loaded_def initialize_memory_def not_loaded_def Let_def)
  then have "autoreleasedMalloc instance_size base st bytes = (Ok (base + classAlignedSize st), st)"
    by (simp add: autoreleasedMalloc_def)
  ultimately show ?thesis
    using first_call_raises [of instance_size base bytes] assms(1) p e d(1) by (simp add: memory_loaded_def)
qed

lemma autoreleased_memory_bounds_witness:
  "\<exists>p. autoreleasedMalloc 4 4096 (initialize_memory 4 not_loaded) 100 = (Ok p, initialize_memory 4 not_loaded) \<and> unat p mod 16 = 0 \<and>
     4100 < unat p"
  using autoreleased_memory_bounds [of 4 "initialize_memory 4 not_loaded" 4096 100] by (force simp: memory_loaded_def)

text \<open>A length near the largest size wraps around: fewer bytes are asked for than the caller gets.\<close>

lemma length_wraps: "extraBytes (initialize_memory 4 not_loaded) 0xFFFFFFFF = 11"
  by (simp add: extraBytes_def initialize_memory_def not_loaded_def Let_def)

end
