(* ===== verification/RK_SharedCollection.thy ===== *)
theory RK_SharedCollection
  imports RK_ObjectMethods
begin

text \<open>
  Any number of callers of \<open>regexMatching:lowestIndexInCollection:\<close> on one sorted collection. The read write lock, the flag
  that asks for sorting, the hit counts and the cache of misses are shared; each call runs its own matching threads. A step is
  one access to the shared state, or one step of a matching thread. Then the cache that hands the same collection to all.
\<close>

section \<open>The calls\<close>

record 'r concurrent_call =
  its_matches :: "'r \<Rightarrow> bool"
  its_hash :: u64
  its_lowest :: bool
  its_threads :: nat

datatype 'r calling_point =
    CallStart | FlagRead bool | HasLock | Matching "'r match_state \<times> match_point list"
  | CountHit nat 'r | ReadHit nat 'r | CompareHit nat 'r u64 | Unlocking "'r option" | StoreMiss | Answered "'r option"

record 'r shared_collection =
  collection_of :: "'r RKSortedRegexCollection"
  reading :: "nat set"
  writing_by :: "nat option"
  calling :: "nat \<Rightarrow> 'r calling_point"

definition call_at :: "nat \<Rightarrow> 'r calling_point \<Rightarrow> 'r shared_collection \<Rightarrow> 'r shared_collection" where
  "call_at t point s = s\<lparr>calling := (calling s)(t := point)\<rparr>"

definition unlock_collection :: "nat \<Rightarrow> 'r shared_collection \<Rightarrow> 'r shared_collection" where
  "unlock_collection t s = s\<lparr>reading := reading s - {t}, writing_by := if writing_by s = Some t then None else writing_by s\<rparr>"

definition add_hit :: "nat \<Rightarrow> 'r RKSortedRegexCollection \<Rightarrow> 'r RKSortedRegexCollection" where
  "add_hit k c =
     (let i = sortedElements c ! k; e = coll_elements c ! i
      in c\<lparr>coll_elements := (coll_elements c)[i := e\<lparr>hitCount := hitCount e + 1\<rparr>]\<rparr>)"

definition store_miss :: "u64 \<Rightarrow> 'r RKSortedRegexCollection \<Rightarrow> 'r RKSortedRegexCollection" where
  "store_miss h c = c\<lparr>missedObjectHashCache := (missedObjectHashCache c)[cache_bucket h := h]\<rparr>"

definition is_known_miss :: "u64 \<Rightarrow> 'r RKSortedRegexCollection \<Rightarrow> bool" where
  "is_known_miss h c \<longleftrightarrow> missedObjectHashCache c ! cache_bucket h = h"

text \<open>
  The strategy of a call that found the flag set, \<open>RKLockTryForWritingThenForReading\<close>, gives the lock for writing if it is
  free and else for reading. The two counters of the cache, which are not synchronised, are left out.
\<close>

inductive calling_step :: "(nat \<Rightarrow> 'r concurrent_call) \<Rightarrow> nat \<Rightarrow> 'r shared_collection \<Rightarrow> 'r shared_collection \<Rightarrow> bool" for calls t where
  reads_flag: "calling s t = CallStart \<Longrightarrow> calling_step calls t s (call_at t (FlagRead (resortRequired (collection_of s))) s)"
| locks_reading: "calling s t = FlagRead sorting \<Longrightarrow> writing_by s = None \<Longrightarrow>
     calling_step calls t s (call_at t HasLock (s\<lparr>reading := insert t (reading s)\<rparr>))"
| locks_writing: "calling s t = FlagRead True \<Longrightarrow> writing_by s = None \<Longrightarrow> reading s = {} \<Longrightarrow>
     calling_step calls t s (call_at t HasLock (s\<lparr>writing_by := Some t, collection_of := resort (collection_of s)\<rparr>))"
| knows_miss: "calling s t = HasLock \<Longrightarrow> is_known_miss (its_hash (calls t)) (collection_of s) \<Longrightarrow>
     calling_step calls t s (call_at t (Answered None) (unlock_collection t s))"
| starts_matching: "calling s t = HasLock \<Longrightarrow> \<not> is_known_miss (its_hash (calls t)) (collection_of s) \<Longrightarrow>
     calling_step calls t s (call_at t (Matching (start_threads (its_threads (calls t)) (its_lowest (calls t)))) s)"
| matches_on: "calling s t = Matching q \<Longrightarrow> match_step (collection_of s) (its_matches (calls t)) q q' \<Longrightarrow>
     calling_step calls t s (call_at t (Matching q') s)"
| reports: "calling s t = Matching (st, points) \<Longrightarrow> all_done points \<Longrightarrow> matchedRegex st = Some r \<Longrightarrow>
     calling_step calls t s (call_at t (CountHit (matchingSortedIndex st) r) s)"
| reports_none: "calling s t = Matching (st, points) \<Longrightarrow> all_done points \<Longrightarrow> matchedRegex st = None \<Longrightarrow>
     calling_step calls t s (call_at t (Unlocking None) s)"
| counts: "calling s t = CountHit k r \<Longrightarrow>
     calling_step calls t s (call_at t (ReadHit k r) (s\<lparr>collection_of := add_hit k (collection_of s)\<rparr>))"
| reads_hit: "calling s t = ReadHit k r \<Longrightarrow>
     calling_step calls t s (call_at t (if k > 0 then CompareHit k r (sorted_hits (collection_of s) k) else Unlocking (Some r)) s)"
| compares_hits: "calling s t = CompareHit k r h \<Longrightarrow>
     calling_step calls t s (call_at t (Unlocking (Some r))
       (if h > sorted_hits (collection_of s) (k - 1) then s\<lparr>collection_of := (collection_of s)\<lparr>resortRequired := True\<rparr>\<rparr> else s))"
| unlocks: "calling s t = Unlocking result \<Longrightarrow>
     calling_step calls t s (call_at t (if result = None then StoreMiss else Answered result) (unlock_collection t s))"
| stores: "calling s t = StoreMiss \<Longrightarrow>
     calling_step calls t s (call_at t (Answered None) (s\<lparr>collection_of := store_miss (its_hash (calls t)) (collection_of s)\<rparr>))"

definition no_calls :: "'r RKSortedRegexCollection \<Rightarrow> 'r shared_collection" where
  "no_calls c = \<lparr>collection_of = c, reading = {}, writing_by = None, calling = (\<lambda>t. CallStart)\<rparr>"

inductive calling_run :: "(nat \<Rightarrow> 'r concurrent_call) \<Rightarrow> 'r RKSortedRegexCollection \<Rightarrow> 'r shared_collection \<Rightarrow> bool" for calls c where
  calling_here: "calling_run calls c (no_calls c)"
| calling_on: "calling_run calls c s \<Longrightarrow> calling_step calls t s s' \<Longrightarrow> calling_run calls c s'"

section \<open>What does not change\<close>

text \<open>Two collections that the matching threads cannot tell apart.\<close>

definition same_view :: "'r RKSortedRegexCollection \<Rightarrow> 'r RKSortedRegexCollection \<Rightarrow> bool" where
  "same_view c c' \<longleftrightarrow> collectionType c' = collectionType c \<and> sortedElements c' = sortedElements c \<and>
     length (coll_elements c') = length (coll_elements c) \<and> (\<forall>i. element_regex (coll_elements c' ! i) = element_regex (coll_elements c ! i))"

lemma same_view_refl: "same_view c c"
  by (simp add: same_view_def)

lemma update_regex: "element_regex (xs[i := (xs ! i)\<lparr>hitCount := n\<rparr>] ! j) = element_regex (xs ! j)"
  by (cases "i < length xs"; cases "j = i") (simp_all add: list_update_beyond)

lemma same_view_steps:
  "same_view c (add_hit k c)" "same_view c (store_miss h c)" "same_view c (c\<lparr>resortRequired := b\<rparr>)"
  by (simp_all add: same_view_def add_hit_def Let_def update_regex store_miss_def)

lemma same_view_seen:
  assumes "same_view c c'"
  shows "collectionCount c' = collectionCount c" "sorted_regex c' = sorted_regex c" "settles c' = settles c"
    "records_match c' = records_match c"
proof -
  have v: "collectionType c' = collectionType c" "sortedElements c' = sortedElements c" "length (coll_elements c') = length (coll_elements c)"
    "\<And>i. element_regex (coll_elements c' ! i) = element_regex (coll_elements c ! i)"
    using assms by (auto simp: same_view_def)
  show "collectionCount c' = collectionCount c" "sorted_regex c' = sorted_regex c" "settles c' = settles c"
    using v by (simp_all add: collectionCount_def sorted_regex_def settles_def fun_eq_iff)
  show "records_match c' = records_match c"
  proof (intro ext)
    fix st k p
    show "records_match c' st k p = records_match c st k p" using v(2) by (cases p) auto
  qed
qed

lemma same_view_sound:
  assumes "same_view c c'"
  shows "match_sound c' matches q = match_sound c matches q"
proof -
  have "reported_once c' = reported_once c"
    by (intro ext) (simp add: reported_once_def same_view_seen [OF assms])
  then show ?thesis by (cases q) (simp add: match_sound_def same_view_seen [OF assms])
qed

lemma same_view_regexes: "same_view c c' \<Longrightarrow> regexes_of c' = regexes_of c"
  by (auto simp: same_view_def regexes_of_def intro: nth_equalityI)

lemma same_view_valid:
  "same_view c c' \<Longrightarrow> length (missedObjectHashCache c') = length (missedObjectHashCache c) \<Longrightarrow> valid_collection c' = valid_collection c"
  by (simp add: valid_collection_def same_view_def collectionCount_def)

lemma resort_valid: "valid_collection (resort c) = valid_collection c" "regexes_of (resort c) = regexes_of c"
  by (simp_all add: valid_collection_def collectionCount_def regexes_of_def resort_keeps)

section \<open>The invariant\<close>

fun holds_lock :: "'r calling_point \<Rightarrow> bool" where
  "holds_lock HasLock = True" | "holds_lock (Matching q) = True" | "holds_lock (CountHit k r) = True"
| "holds_lock (ReadHit k r) = True" | "holds_lock (CompareHit k r h) = True" | "holds_lock (Unlocking result) = True"
| "holds_lock point = False"

definition found :: "'r RKSortedRegexCollection \<Rightarrow> ('r \<Rightarrow> bool) \<Rightarrow> 'r option \<Rightarrow> bool" where
  "found c matches result \<longleftrightarrow> (\<forall>r. result = Some r \<longrightarrow> r \<in> set (regexes_of c) \<and> matches r)"

definition hit_at :: "'r RKSortedRegexCollection \<Rightarrow> ('r \<Rightarrow> bool) \<Rightarrow> nat \<Rightarrow> 'r \<Rightarrow> bool" where
  "hit_at c matches k r \<longleftrightarrow> k < collectionCount c \<and> sorted_regex c k = r \<and> matches r"

fun calling_ok :: "'r RKSortedRegexCollection \<Rightarrow> ('r \<Rightarrow> bool) \<Rightarrow> 'r calling_point \<Rightarrow> bool" where
  "calling_ok c matches (Matching q) \<longleftrightarrow> match_sound c matches q"
| "calling_ok c matches (CountHit k r) \<longleftrightarrow> hit_at c matches k r"
| "calling_ok c matches (ReadHit k r) \<longleftrightarrow> hit_at c matches k r"
| "calling_ok c matches (CompareHit k r h) \<longleftrightarrow> hit_at c matches k r"
| "calling_ok c matches (Unlocking result) \<longleftrightarrow> found c matches result"
| "calling_ok c matches (Answered result) \<longleftrightarrow> found c matches result"
| "calling_ok c matches point \<longleftrightarrow> True"

definition locks_ok :: "'r shared_collection \<Rightarrow> bool" where
  "locks_ok s \<longleftrightarrow> (\<forall>t. holds_lock (calling s t) \<longleftrightarrow> t \<in> reading s \<or> writing_by s = Some t) \<and> (writing_by s \<noteq> None \<longrightarrow> reading s = {})"

definition calls_ok :: "(nat \<Rightarrow> 'r concurrent_call) \<Rightarrow> 'r RKSortedRegexCollection \<Rightarrow> 'r shared_collection \<Rightarrow> bool" where
  "calls_ok calls c s \<longleftrightarrow> locks_ok s \<and> valid_collection (collection_of s) \<and> regexes_of (collection_of s) = regexes_of c \<and>
     (\<forall>t. calling_ok (collection_of s) (its_matches (calls t)) (calling s t))"

lemma same_view_calling: "same_view c c' \<Longrightarrow> calling_ok c' matches point = calling_ok c matches point"
  by (cases point) (simp_all add: same_view_sound hit_at_def found_def same_view_seen same_view_regexes)

lemma free_calling: "\<not> holds_lock point \<Longrightarrow> regexes_of c' = regexes_of c \<Longrightarrow> calling_ok c' matches point = calling_ok c matches point"
  by (cases point) (simp_all add: found_def)

lemma hit_found: "valid_collection c \<Longrightarrow> hit_at c matches k r \<Longrightarrow> found c matches (Some r)"
  using sorted_regex_member [of c k] by (auto simp: hit_at_def found_def)

lemma sound_reports:
  "match_sound c matches (st, points) \<Longrightarrow> all_done points \<Longrightarrow> matchedRegex st = Some r \<Longrightarrow> hit_at c matches (matchingSortedIndex st) r"
  by (auto simp: match_sound_def reported_once_def hit_at_def all_done_def list_all_length)

lemma locks_step:
  assumes "calling_step calls t s s'" "locks_ok s"
  shows "locks_ok s'"
proof -
  have "holds_lock (calling s t) \<longleftrightarrow> t \<in> reading s \<or> writing_by s = Some t" using assms(2) by (simp add: locks_ok_def)
  with assms show ?thesis
    by (cases rule: calling_step.cases) (auto simp: locks_ok_def call_at_def unlock_collection_def split: if_splits)
qed

text \<open>A step of one call leaves the others where they are, and sorts only if none of them has the lock.\<close>

lemma other_calls: "calling_step calls t s s' \<Longrightarrow> u \<noteq> t \<Longrightarrow> calling s' u = calling s u"
  by (induction rule: calling_step.induct) (auto simp: call_at_def unlock_collection_def)

lemma step_view:
  assumes "calling_step calls t s s'" "locks_ok s"
  shows "same_view (collection_of s) (collection_of s') \<or>
    collection_of s' = resort (collection_of s) \<and> (\<forall>u. \<not> holds_lock (calling s u)) \<and> calling s' t = HasLock"
  using assms(1)
proof cases
  case locks_writing
  then show ?thesis using assms(2) by (auto simp: locks_ok_def call_at_def)
qed (auto simp: call_at_def unlock_collection_def same_view_refl same_view_steps)

lemma step_buckets: "calling_step calls t s s' \<Longrightarrow>
    length (missedObjectHashCache (collection_of s')) = length (missedObjectHashCache (collection_of s))"
  by (induction rule: calling_step.induct)
    (simp_all add: call_at_def unlock_collection_def resort_keeps add_hit_def store_miss_def Let_def)

lemma step_regexes:
  assumes "calling_step calls t s s'" "calls_ok calls c s"
  shows "valid_collection (collection_of s') \<and> regexes_of (collection_of s') = regexes_of c"
proof -
  have ok: "locks_ok s" "valid_collection (collection_of s)" "regexes_of (collection_of s) = regexes_of c"
    using assms(2) by (simp_all add: calls_ok_def)
  from step_view [OF assms(1) ok(1)] show ?thesis
  proof
    assume "same_view (collection_of s) (collection_of s')"
    then show ?thesis using same_view_valid [OF _ step_buckets [OF assms(1)]] same_view_regexes ok(2,3) by metis
  next
    assume "collection_of s' = resort (collection_of s) \<and> (\<forall>u. \<not> holds_lock (calling s u)) \<and> calling s' t = HasLock"
    then show ?thesis using resort_valid ok(2,3) by metis
  qed
qed

lemma step_own:
  assumes "calling_step calls t s s'" "calls_ok calls c s"
  shows "calling_ok (collection_of s') (its_matches (calls t)) (calling s' t)"
proof -
  have ok: "calling_ok (collection_of s) (its_matches (calls t)) (calling s t)" "valid_collection (collection_of s)"
    using assms(2) by (auto simp: calls_ok_def)
  from assms(1) show ?thesis
  proof cases
    case (matches_on q q')
    then show ?thesis using ok(1) match_sound_step [of "collection_of s" _ q q'] by (simp add: call_at_def)
  next
    case (reports st points r)
    then show ?thesis using ok(1) sound_reports [of "collection_of s"] by (auto simp: call_at_def)
  next
    case (counts k r)
    then show ?thesis using ok(1) by (simp add: call_at_def hit_at_def same_view_seen [OF same_view_steps(1)])
  next
    case (reads_hit k r)
    then show ?thesis using ok hit_found by (auto simp: call_at_def)
  next
    case (compares_hits k r h)
    have "found (collection_of s) (its_matches (calls t)) (Some r)" using ok compares_hits hit_found by (auto simp: call_at_def)
    then show ?thesis using compares_hits by (simp add: call_at_def found_def regexes_of_def)
  next
    case (unlocks result)
    then show ?thesis using ok(1) by (auto simp: call_at_def unlock_collection_def)
  qed (auto simp: call_at_def unlock_collection_def match_sound_start found_def)
qed

lemma calls_step:
  assumes "calling_step calls t s s'" "calls_ok calls c s"
  shows "calls_ok calls c s'"
proof -
  have locks: "locks_ok s" using assms(2) by (simp add: calls_ok_def)
  have "calling_ok (collection_of s') (its_matches (calls u)) (calling s' u)" for u
  proof (cases "u = t")
    case True
    then show ?thesis using step_own [OF assms] by simp
  next
    case False
    have "calling_ok (collection_of s) (its_matches (calls u)) (calling s u)" using assms(2) by (simp add: calls_ok_def)
    then have "calling_ok (collection_of s') (its_matches (calls u)) (calling s u)"
      using step_view [OF assms(1) locks] same_view_calling [of "collection_of s" "collection_of s'"]
        free_calling [of "calling s u" "collection_of s'" "collection_of s"] resort_valid(2) [of "collection_of s"] by metis
    then show ?thesis by (simp only: other_calls [OF assms(1) False])
  qed
  then show ?thesis using locks_step [OF assms(1) locks] step_regexes [OF assms] by (simp add: calls_ok_def)
qed

section \<open>Counting hits\<close>

definition total_hits :: "'r RKSortedRegexCollection \<Rightarrow> u64" where
  "total_hits c = sum_list (map hitCount (coll_elements c))"

fun has_counted :: "'r calling_point \<Rightarrow> bool" where
  "has_counted (ReadHit k r) = True" | "has_counted (CompareHit k r h) = True" | "has_counted (Unlocking result) = (result \<noteq> None)"
| "has_counted (Answered result) = (result \<noteq> None)" | "has_counted point = False"

definition counted :: "'r shared_collection \<Rightarrow> nat set" where
  "counted s = {t. has_counted (calling s t)}"

definition hits_ok :: "'r RKSortedRegexCollection \<Rightarrow> 'r shared_collection \<Rightarrow> bool" where
  "hits_ok c s \<longleftrightarrow> finite (counted s) \<and> total_hits (collection_of s) = total_hits c + of_nat (card (counted s))"

lemma sum_list_update_word:
  "i < length xs \<Longrightarrow> sum_list (map hitCount (xs[i := (xs ! i)\<lparr>hitCount := hitCount (xs ! i) + 1\<rparr>])) = sum_list (map hitCount xs) + 1"
proof (induction xs arbitrary: i)
  case (Cons x xs)
  then show ?case by (cases i) (auto simp: algebra_simps)
qed simp

lemma total_hits_add:
  assumes "valid_collection c" "k < collectionCount c"
  shows "total_hits (add_hit k c) = total_hits c + 1"
  using sum_list_update_word [of "sortedElements c ! k" "coll_elements c"] valid_sorted_index [OF assms]
  by (simp add: total_hits_def add_hit_def Let_def collectionCount_def)

lemma total_hits_same: "total_hits (resort c) = total_hits c" "total_hits (store_miss h c) = total_hits c"
    "total_hits (c\<lparr>resortRequired := b\<rparr>) = total_hits c"
  by (simp_all add: total_hits_def resort_keeps store_miss_def)

text \<open>A step counts one hit, and its call with it, or neither.\<close>

lemma step_counts:
  assumes "calling_step calls t s s'" "calls_ok calls c s"
  shows "has_counted (calling s' t) = has_counted (calling s t) \<and> total_hits (collection_of s') = total_hits (collection_of s) \<or>
    has_counted (calling s' t) \<and> \<not> has_counted (calling s t) \<and> total_hits (collection_of s') = total_hits (collection_of s) + 1"
  using assms(1)
proof cases
  case (counts k r)
  have "calling_ok (collection_of s) (its_matches (calls t)) (calling s t)" "valid_collection (collection_of s)"
    using assms(2) by (auto simp: calls_ok_def)
  then show ?thesis using counts total_hits_add [of "collection_of s" k] by (simp add: call_at_def hit_at_def)
qed (auto simp: call_at_def unlock_collection_def total_hits_same)

lemma hits_step:
  assumes "calling_step calls t s s'" "calls_ok calls c s" "hits_ok c s"
  shows "hits_ok c s'"
proof -
  have others: "counted s' - {t} = counted s - {t}" using other_calls [OF assms(1)] by (auto simp: counted_def)
  from step_counts [OF assms(1,2)] show ?thesis
  proof
    assume same: "has_counted (calling s' t) = has_counted (calling s t) \<and> total_hits (collection_of s') = total_hits (collection_of s)"
    then have "counted s' = counted s" using others by (auto simp: counted_def)
    then show ?thesis using same assms(3) by (simp add: hits_ok_def)
  next
    assume new: "has_counted (calling s' t) \<and> \<not> has_counted (calling s t) \<and> total_hits (collection_of s') = total_hits (collection_of s) + 1"
    then have "counted s' = insert t (counted s)" "t \<notin> counted s" using others by (auto simp: counted_def)
    then show ?thesis using new assms(3) by (simp add: hits_ok_def)
  qed
qed

section \<open>Misses\<close>

text \<open>A hash in the cache of misses is there from the start or belongs to a call that has answered \<open>NULL\<close>.\<close>

definition misses_ok :: "(nat \<Rightarrow> 'r concurrent_call) \<Rightarrow> 'r RKSortedRegexCollection \<Rightarrow> 'r shared_collection \<Rightarrow> bool" where
  "misses_ok calls c s \<longleftrightarrow> (\<forall>h \<in> set (missedObjectHashCache (collection_of s)). h \<in> set (missedObjectHashCache c) \<or>
     (\<exists>t. its_hash (calls t) = h \<and> calling s t = Answered None))"

lemma answered_stays: "calling_step calls t s s' \<Longrightarrow> calling s u = Answered r \<Longrightarrow> calling s' u = Answered r"
  by (induction rule: calling_step.induct) (auto simp: call_at_def unlock_collection_def)

lemma misses_step:
  assumes "calling_step calls t s s'" "misses_ok calls c s"
  shows "misses_ok calls c s'"
  unfolding misses_ok_def
proof
  fix h
  assume h: "h \<in> set (missedObjectHashCache (collection_of s'))"
  have "h \<in> set (missedObjectHashCache (collection_of s)) \<or> its_hash (calls t) = h \<and> calling s' t = Answered None"
    using assms(1)
  proof cases
    case stores
    then show ?thesis using h set_update_subset_insert by (force simp: call_at_def store_miss_def)
  qed (use h in \<open>auto simp: call_at_def unlock_collection_def resort_keeps add_hit_def Let_def split: if_splits\<close>)
  then show "h \<in> set (missedObjectHashCache c) \<or> (\<exists>t. its_hash (calls t) = h \<and> calling s' t = Answered None)"
    using assms(2) answered_stays [OF assms(1)] unfolding misses_ok_def by blast
qed

lemma no_calls_ok: "valid_collection c \<Longrightarrow> calls_ok calls c (no_calls c) \<and> hits_ok c (no_calls c) \<and> misses_ok calls c (no_calls c)"
  by (simp add: calls_ok_def locks_ok_def hits_ok_def counted_def misses_ok_def no_calls_def)

lemma calling_run_ok: "calling_run calls c s \<Longrightarrow> valid_collection c \<Longrightarrow> calls_ok calls c s \<and> hits_ok c s \<and> misses_ok calls c s"
proof (induction rule: calling_run.induct)
  case calling_here
  then show ?case by (rule no_calls_ok)
next
  case (calling_on s t s')
  then show ?case using calls_step hits_step misses_step by blast
qed

text \<open>
  C11. Whatever calls run on one collection at the same time, each with any number of matching threads: the collection keeps its
  regexes and stays well formed; a regex that a call answers is one of them and matches its object; the place that a call is about to
  count a hit at is still that of the regex it found, although others may want to sort; the hit counts together are the hits of
  all calls, none is lost (modulo the width); and a hash in the cache of misses is one that a call with that hash missed.
\<close>

theorem shared_collection_sound:
  assumes "calling_run calls c s" "valid_collection c"
  shows "valid_collection (collection_of s) \<and> regexes_of (collection_of s) = regexes_of c \<and>
    (calling s t = Answered (Some r) \<longrightarrow> r \<in> set (regexes_of c) \<and> its_matches (calls t) r) \<and>
    (calling s t = CountHit k r \<longrightarrow> k < collectionCount c \<and> sorted_regex (collection_of s) k = r) \<and>
    total_hits (collection_of s) = total_hits c + of_nat (card (counted s)) \<and>
    (h \<in> set (missedObjectHashCache (collection_of s)) \<longrightarrow> h \<in> set (missedObjectHashCache c) \<or>
      (\<exists>u. its_hash (calls u) = h \<and> calling s u = Answered None))"
proof -
  have ok: "calls_ok calls c s" "hits_ok c s" "misses_ok calls c s" using calling_run_ok [OF assms] by simp_all
  have own: "calling_ok (collection_of s) (its_matches (calls t)) (calling s t)" and same: "regexes_of (collection_of s) = regexes_of c"
    using ok(1) by (simp_all add: calls_ok_def)
  have "collectionCount (collection_of s) = collectionCount c"
    using arg_cong [OF same, of length] by (simp add: regexes_of_def collectionCount_def)
  then have "calling s t = CountHit k r \<Longrightarrow> k < collectionCount c \<and> sorted_regex (collection_of s) k = r"
    "calling s t = Answered (Some r) \<Longrightarrow> r \<in> set (regexes_of c) \<and> its_matches (calls t) r"
    using own same by (simp_all add: found_def hit_at_def)
  then show ?thesis
    using ok same by (simp add: calls_ok_def hits_ok_def misses_ok_def)
qed

text \<open>One call on a collection of two regexes with two threads, up to where it has found one.\<close>

definition sample_calls :: "nat \<Rightarrow> string concurrent_call" where
  "sample_calls t = \<lparr>its_matches = (\<lambda>r. r = ''a''), its_hash = 7, its_lowest = False, its_threads = 2\<rparr>"

lemma matching_within:
  assumes "match_run (collection_of s) (its_matches (calls t)) q q'" "calling_run calls c s" "calling s t = Matching q"
  shows "calling_run calls c (call_at t (Matching q') s)"
  using assms(1)
proof (induction rule: rtranclp_induct)
  case base
  have "call_at t (Matching q) s = s" using assms(3) by (simp add: call_at_def fun_upd_idem)
  then show ?case using assms(2) by simp
next
  case (step q1 q2)
  have "calling_step calls t (call_at t (Matching q1) s) (call_at t (Matching q2) (call_at t (Matching q1) s))"
    using step(2) by (intro matches_on) (simp_all add: call_at_def)
  then have "calling_run calls c (call_at t (Matching q2) (call_at t (Matching q1) s))" using calling_on [OF step(3)] by blast
  then show ?case by (simp add: call_at_def)
qed

lemma sample_call_finds: "\<exists>s k. calling_run sample_calls two_regexes s \<and> calling s 0 = CountHit k ''a''"
proof -
  let ?locked = "\<lparr>collection_of = two_regexes, reading = {0}, writing_by = None, calling = (\<lambda>t. CallStart)(0 := HasLock)\<rparr>"
  let ?at = "\<lambda>point. call_at 0 point ?locked"
  obtain st points where run: "match_run two_regexes (\<lambda>r. r = ''a'') (start_threads 2 False) (st, points)"
    "all_done points" "matchedRegex st = Some ''a''"
    using winning_run by blast
  have "calling_run sample_calls two_regexes (call_at 0 (FlagRead False) (no_calls two_regexes))"
    using calling_on [OF calling_here reads_flag [of "no_calls two_regexes" 0]]
    by (simp add: no_calls_def two_regexes_def)
  from calling_on [OF this locks_reading [of _ 0 False]] have "calling_run sample_calls two_regexes ?locked"
    by (simp add: no_calls_def call_at_def)
  moreover have "calling_step sample_calls 0 ?locked (?at (Matching (start_threads 2 False)))"
  proof -
    have miss: "\<not> is_known_miss (its_hash (sample_calls 0)) (collection_of ?locked)"
      by (simp add: is_known_miss_def sample_calls_def two_regexes_def cache_bucket_def RK_SORTED_REGEX_COLLECTION_CACHE_BUCKETS_def)
    have "calling ?locked 0 = HasLock" by simp
    from starts_matching [where calls = sample_calls, OF this miss] show ?thesis by (simp add: sample_calls_def)
  qed
  ultimately have "calling_run sample_calls two_regexes (?at (Matching (start_threads 2 False)))" using calling_on by blast
  then have "calling_run sample_calls two_regexes (call_at 0 (Matching (st, points)) (?at (Matching (start_threads 2 False))))"
    using run(1) by - (rule matching_within [where q = "start_threads 2 False"], simp_all add: call_at_def sample_calls_def)
  from calling_on [OF this reports [of _ 0 st points "''a''"]] run(2,3) show ?thesis
    by (force simp: call_at_def)
qed

theorem shared_collection_sound_witness:
  "\<exists>s k. calling_run sample_calls two_regexes s \<and> calling s 0 = CountHit k ''a'' \<and> sorted_regex (collection_of s) k = ''a'' \<and>
     total_hits (collection_of s) = total_hits two_regexes + of_nat (card (counted s))"
proof -
  obtain s k where s: "calling_run sample_calls two_regexes s" "calling s 0 = CountHit k ''a''" using sample_call_finds by blast
  show ?thesis using shared_collection_sound [OF s(1) two_regexes_valid, of 0 "''a''" k] s by blast
qed

end
