(* ===== verification/RK_CollectionCache.thy ===== *)
theory RK_CollectionCache
  imports RK_SharedCollection RK_ErrorInfo
begin

text \<open>
  The cache of sorted collections: \<open>sortedRegexCollectionForCollection:\<close>, through which the methods of \<open>NSObject.m\<close> get the
  collection for an array or a set, the initialiser behind it, and equality, hash and the sorted array.
\<close>

section \<open>The cached object\<close>

text \<open>A collection as the caller gives it: its address, its \<open>hash\<close>, and what it contains when it is looked at.\<close>

record collection_object =
  object_address :: u64
  object_hash :: u64
  object_contents :: collection_argument

record cached_collection =
  sortedRegexCollectionHash :: u64
  regexLibraryString :: string
  regexLibraryCompileOptions :: u32
  cached_object :: collection_object
  sorted_collection :: "RKRegex RKSortedRegexCollection"

definition collection_hash_for :: "foundation \<Rightarrow> collection_object \<Rightarrow> string \<Rightarrow> u32 \<Rightarrow> u64" where
  "collection_hash_for F object library options =
     RKSortedRegexCollectionHashForCollection (object_hash object) (object_address object) (string_hash F library) options"

type_synonym collection_result = "(cached_collection option \<times> collection_error option) run \<times> RKRegex RKCache \<times> cached_collection RKCache"

text \<open>
  \<open>initWithCollection:library:options:error:\<close>. A second lookup comes first; a new collection enters the cache last.
  \<open>regexes\<close> and \<open>locked\<close> belong to the cache of regexes, \<open>colls\<close> and \<open>coll_locked\<close> to that of collections.
\<close>

definition initWithCollection_library ::
  "foundation \<Rightarrow> pcre_library \<Rightarrow> bool \<Rightarrow> bool \<Rightarrow> collection_object \<Rightarrow> string option \<Rightarrow> u32 \<Rightarrow>
     RKRegex RKCache \<Rightarrow> cached_collection RKCache \<Rightarrow> collection_result" where
  "initWithCollection_library F L locked coll_locked object library options regexes colls =
     (case library of None \<Rightarrow> (Raise NSInvalidArgumentException, regexes, colls)
      | Some lib \<Rightarrow>
        if object_contents object = CollectionNULL then (Raise NSInvalidArgumentException, regexes, colls)
        else case RKFastCacheLookup coll_locked colls (collection_hash_for F object lib options) of
               (Some c, colls') \<Rightarrow> (Ok (Some c, None), regexes, colls')
             | (None, colls') \<Rightarrow>
                 (case initWithCollection F L locked regexes (object_contents object) (lib = RKRegexPCRELibrary) options of
                    (Ok (Some made, err), regexes') \<Rightarrow>
                      let c = \<lparr>sortedRegexCollectionHash = collection_hash_for F object lib options, regexLibraryString = lib,
                               regexLibraryCompileOptions = options, cached_object = object, sorted_collection = made\<rparr>
                      in (Ok (Some c, err), regexes',
                          snd (addObjectToCache_withHash coll_locked colls' (Some c) (sortedRegexCollectionHash c)))
                  | (Ok (None, err), regexes') \<Rightarrow> (Ok (None, err), regexes', colls')
                  | (Raise e, regexes') \<Rightarrow> (Raise e, regexes', colls')
                  | (Undefined, regexes') \<Rightarrow> (Undefined, regexes', colls')))"

definition sortedRegexCollectionForCollection_library ::
  "foundation \<Rightarrow> pcre_library \<Rightarrow> bool \<Rightarrow> bool \<Rightarrow> collection_object \<Rightarrow> string option \<Rightarrow> u32 \<Rightarrow>
     RKRegex RKCache \<Rightarrow> cached_collection RKCache \<Rightarrow> collection_result" where
  "sortedRegexCollectionForCollection_library F L locked coll_locked object library options regexes colls =
     (case library of None \<Rightarrow> (Raise NSInvalidArgumentException, regexes, colls)
      | Some lib \<Rightarrow>
        if object_contents object = CollectionNULL then (Raise NSInvalidArgumentException, regexes, colls)
        else case RKFastCacheLookup coll_locked colls (collection_hash_for F object lib options) of
               (Some c, colls') \<Rightarrow> (Ok (Some c, None), regexes, colls')
             | (None, colls') \<Rightarrow> initWithCollection_library F L locked coll_locked object library options regexes colls')"

definition sortedRegexCollectionForCollection where
  "sortedRegexCollectionForCollection F L locked coll_locked object regexes colls =
     sortedRegexCollectionForCollection_library F L locked coll_locked object (Some RKRegexPCRELibrary)
       RKSortedRegexCollectionDefaultRegexLibraryOptions regexes colls"

text \<open>\<open>isEqual:\<close>; \<open>same\<close> tells whether the pointers are equal, \<open>equal_objects\<close> is \<open>isEqual:\<close> of the collections.\<close>

definition sorted_collection_isEqual ::
  "(collection_object \<Rightarrow> collection_object \<Rightarrow> bool) \<Rightarrow> bool \<Rightarrow> cached_collection \<Rightarrow> cached_collection option \<Rightarrow> bool" where
  "sorted_collection_isEqual equal_objects same self anObject =
     (if same then True
      else case anObject of None \<Rightarrow> False
      | Some other \<Rightarrow>
          if sortedRegexCollectionHash self \<noteq> sortedRegexCollectionHash other then False
          else if regexLibraryCompileOptions self \<noteq> regexLibraryCompileOptions other then False
          else if regexLibraryString self \<noteq> regexLibraryString other then False
          else equal_objects (cached_object self) (cached_object other))"

text \<open>\<open>sortedArrayForSortedRegexCollection:\<close>: the regexes in sorted order with their hit counts.\<close>

definition sortedArrayForSortedRegexCollection :: "cached_collection option \<Rightarrow> (RKRegex \<times> u64) list run" where
  "sortedArrayForSortedRegexCollection self =
     (case self of None \<Rightarrow> Raise NSInvalidArgumentException
      | Some c \<Rightarrow> Ok (map (\<lambda>i. (element_regex (coll_elements (sorted_collection c) ! i), hitCount (coll_elements (sorted_collection c) ! i)))
                       (sortedElements (sorted_collection c))))"

section \<open>What is shared\<close>

lemma lookup_keeps_switches:
  "cache_serving (snd (RKFastCacheLookup locked cache h)) = cache_serving cache"
  "cache_accepting (snd (RKFastCacheLookup locked cache h)) = cache_accepting cache"
  by (simp_all add: RKFastCacheLookup_def rk_defs Let_def)

lemma lookup_nothing: "cache_invar cache \<Longrightarrow> cache_content cache h = None \<Longrightarrow> fst (RKFastCacheLookup locked cache h) = None"
  using lookup_found [of cache locked h] by (cases "fst (RKFastCacheLookup locked cache h)") auto

text \<open>
  A collection that was made for an object is the answer for every other object with the same hash, address and contents or not:
  the array that has got other patterns since keeps the collection of the old ones, if its \<open>hash\<close> stays, as that of an array
  does as long as the number of its elements.
\<close>

lemma collection_cache_ignores_contents:
  assumes "cache_invar colls" "cache_serving colls" "cache_accepting colls"
    and "cache_content colls (collection_hash_for F object lib options) = None"
    and "sortedRegexCollectionForCollection_library F L locked True object (Some lib) options regexes colls = (Ok (Some c, err), regexes', colls')"
    and "object_contents other \<noteq> CollectionNULL" "collection_hash_for F other lib options = collection_hash_for F object lib options"
  shows "fst (sortedRegexCollectionForCollection_library F L locked True other (Some lib) options regexes'' colls') = Ok (Some c, None) \<and>
    cached_object c = object"
proof -
  define h where "h = collection_hash_for F object lib options"
  define c1 where "c1 = snd (RKFastCacheLookup True colls h)"
  define c2 where "c2 = snd (RKFastCacheLookup True c1 h)"
  have c1: "cache_invar c1" "cache_serving c1" "cache_accepting c1" "cache_content c1 h = None"
    using assms(1-4) by (simp_all add: c1_def h_def lookup_keeps_content lookup_keeps_switches)
  have look1: "RKFastCacheLookup True colls h = (None, c1)"
    using lookup_nothing [OF assms(1,4)] by (simp add: c1_def h_def prod_eq_iff)
  have look2: "RKFastCacheLookup True c1 h = (None, c2)"
    using lookup_nothing [OF c1(1,4)] by (simp add: c2_def prod_eq_iff)
  have contents: "object_contents object \<noteq> CollectionNULL"
    using assms(5) by (auto simp: sortedRegexCollectionForCollection_library_def)
  have made: "initWithCollection_library F L locked True object (Some lib) options regexes c1 = (Ok (Some c, err), regexes', colls')"
    using assms(5) look1 contents by (simp add: sortedRegexCollectionForCollection_library_def h_def)
  obtain result regexes1 where init: "initWithCollection F L locked regexes (object_contents object) (lib = RKRegexPCRELibrary) options = (result, regexes1)"
    by force
  have c: "colls' = snd (addObjectToCache_withHash True c2 (Some c) h) \<and> cached_object c = object"
  proof (cases result)
    case (Ok res)
    obtain made1 err1 where res: "res = (made1, err1)" by force
    show ?thesis
    proof (cases made1)
      case None
      then show ?thesis using made init Ok res contents look2 by (simp add: initWithCollection_library_def flip: h_def)
    next
      case (Some m)
      then show ?thesis using made init Ok res contents look2 by (auto simp: initWithCollection_library_def Let_def simp flip: h_def)
    qed
  next
    case (Raise e)
    then show ?thesis using made init contents look2 by (simp add: initWithCollection_library_def flip: h_def)
  next
    case Undefined
    then show ?thesis using made init contents look2 by (simp add: initWithCollection_library_def flip: h_def)
  qed
  have "fst (RKFastCacheLookup True colls' h) = Some c"
    using rkcache.find_or_make_again [OF c1(1-3), of h c] look2 c by simp
  then obtain c3 where look3: "RKFastCacheLookup True colls' h = (Some c, c3)" by (metis prod.collapse)
  have hash: "collection_hash_for F other lib options = h" using assms(7) by (simp only: h_def)
  show ?thesis
    unfolding sortedRegexCollectionForCollection_library_def option.case hash if_not_P [OF assms(6)] look3 prod.case fst_conv
    using c by (intro conjI refl) (elim conjE)
qed

text \<open>Objects that are equal have equal hashes, where the hash that \<open>isEqual:\<close> compares is that of the object.\<close>

lemma equal_collections_hash: "sorted_collection_isEqual eq False a (Some b) \<Longrightarrow> sortedRegexCollectionHash a = sortedRegexCollectionHash b"
  by (simp add: sorted_collection_isEqual_def split: if_splits)

end
