(* ===== verification/Spec2Isabelle.thy ===== *)
theory Spec2Isabelle
  imports RK_Utility RK_Regex RK_SearchReplace RK_PCRE RK_Config RK_StackGuard RK_Atomic RK_Memory RK_ThreadLocal RK_CacheContract RK_MatchContract RK_ErrorInfo RK_CreateContract RK_StringMethods RK_Collections RK_DataMethods RK_UtilityContract RK_ObjectContract RK_EnumeratorContract RK_ReplaceMethods RK_ExtractContract RK_ReadWriteLock RK_ConditionLock RK_ThreadPoolProgress RK_Coder RK_Placeholder RK_AutoreleasedMemory RK_CollectionCache
begin

text \<open>
  RegexKit: regular expressions for Objective-C on top of the PCRE library.

  \<^bold>\<open>The program.\<close> \<open>RKRegex\<close> (src/Source/RKRegex.m) compiles a pattern with PCRE, keeps it in a cache
  (RKCache.m), runs matches and turns PCRE's vectors into ranges. Strings, arrays, sets, dictionaries, data and plain objects
  get methods that match with it (NSString.m, NSArray.m, NSSet.m, NSDictionary.m, NSData.m, NSObject.m); strings are
  converted between UTF-16 and UTF-8 positions on the way (RKUnicode.m). NSString.m also parses capture references,
  compiles replacement templates and builds the replaced text. RKSortedRegexCollection.m matches one object against many
  regexes in several threads. Headers under src/Source/Headers/RegexKit declare the interfaces and document them, and hold
  the macros for atomic operations, memory, thread local data and the build configuration.

  The model follows the configuration of Mac OS X 10.5, 64 bit, with Core Foundation, PCRE 7.6 and assertions active,
  where a theory does not model all configurations. A function of the source has a definition of the same name; an
  Objective-C exception is the value \<open>Raise e\<close> of the type \<open>run\<close>, undefined behaviour is \<open>Undefined\<close>, integers are words of their
  width, objects are records, changed state is returned. PCRE, Foundation and Core Foundation are parameters.

  \<^bold>\<open>The theories.\<close>
  \<^item> \<open>RK_Prelude\<close>: words, results, exceptions, ranges; \<open>RK_Types\<close>: option constants and error codes of RegexKitTypes.h.
  \<^item> \<open>RK_Unicode\<close>: string buffers and the conversion of positions between UTF-8 and UTF-16, proved exact for texts and
    free of reads outside the buffer for arbitrary bytes.
  \<^item> \<open>RK_Utility\<close>, \<open>RK_UtilityContract\<close>: names of options and error codes.
  \<^item> \<open>RK_Vectors\<close>: the private match method, the in-place conversion of vectors and its bounds.
  \<^item> \<open>RK_CaptureNames\<close>: the binary search in the name table, duplicate names, sign extension of index bytes.
  \<^item> \<open>RK_Cache\<close>, \<open>RK_CacheContract\<close>: the cache as a finite map with switches, through the locale \<open>object_cache\<close>; counters.
  \<^item> \<open>RK_Regex\<close>, \<open>RK_ErrorInfo\<close>: creating a regex, the error objects, conversion through the cache.
  \<^item> \<open>RK_MatchContract\<close>, \<open>RK_CreateContract\<close>: what RKRegex.h documents, with proofs that the code keeps it.
  \<^item> \<open>RK_Reference\<close>, \<open>RK_Replace\<close>, \<open>RK_Template\<close>, \<open>RK_SearchReplace\<close>: capture references, the two instruction buffers (the
    locale \<open>instruction_buffer\<close>), templates and the search and replace loop.
  \<^item> \<open>RK_StringMethods\<close>, \<open>RK_Collections\<close>, \<open>RK_DataMethods\<close>: the matching methods of the Foundation classes and their documentation.
  \<^item> \<open>RK_SortedCollection\<close>: the thread function as a step relation over the shared match state, one access a step,
    for any number of threads: soundness of a reported match by rule induction, termination by a lexicographic measure.
    \<open>RK_SortedMatching\<close>: what one thread computes, and a schedule of two threads that loses a match.
    \<open>RK_SharedCollection\<close>: any number of callers of one collection, each with its matching threads; \<open>RK_CollectionCache\<close>: the
    cache that hands out collections.
    \<open>RK_ObjectMethods\<close>, \<open>RK_ObjectContract\<close>: creation, hit counts, sorting, the cache of misses, the methods of NSObject.m.
  \<^item> \<open>RK_Enumerator\<close>, \<open>RK_EnumeratorContract\<close>: the enumerator as a state machine that represents the enumeration of successive
    matches, the end of the enumeration, and the empty match that it repeats.
  \<^item> \<open>RK_ReplaceLoop\<close>: when search and replace ends, the empty match that makes it go on for ever, and the bytes it
    makes; \<open>RK_ReplaceText\<close>: search and replace on characters and the proof that the loop makes that text;
    \<open>RK_ReplaceMethods\<close>: the methods of strings and mutable strings and what NSString.h documents of them.
  \<^item> \<open>RK_Extract\<close>, \<open>RK_ExtractContract\<close>: the getCaptures methods of strings and enumerators: variable arguments, keys with
    conversions, stores through pointers, both error interfaces, and the proof that they do what is documented.
  \<^item> \<open>RK_Lock\<close>, \<open>RK_ReadWriteLock\<close>, \<open>RK_ConditionLock\<close>: the locks of RKLock.m over the functions of POSIX threads, as step
    relations of any number of threads: exclusion, the condition on the single threaded bypass, deadlock after an exception.
  \<^item> \<open>RK_ThreadPool\<close>, \<open>RK_ThreadPoolProgress\<close>: the workers and any number of callers as a step relation of sections under the
    locks: the invariant behind the assertions of the code, progress while the pool runs, and what a stop makes wait for ever.
  \<^item> \<open>RK_Coder\<close>: the archive of a regex and reading it back; \<open>RK_Placeholder\<close>: the one object behind \<open>+alloc\<close>, made by threads
    that race; \<open>RK_AutoreleasedMemory\<close>: sizes and alignment of memory in the autorelease pool.
  \<^item> \<open>RK_PCRE\<close>, \<open>RK_Config\<close>, \<open>RK_Memory\<close>, \<open>RK_Atomic\<close>, \<open>RK_ThreadLocal\<close>, \<open>RK_StackGuard\<close>: constants of pcre.h, the build
    configuration, memory macros, atomic operations of four platforms under interleaving, per thread data, the stack guard.

  A definition that ends in \<open>_contract\<close> states what a header documents of the method of that name.

  \<^bold>\<open>Bounds.\<close> Buffers are under 4 GiB and subjects of a match at most \<open>INT_MAX\<close> bytes, as the code checks; captures up to 170
    where PCRE gets a vector pair for each; templates of up to 15 pieces, which both instruction buffers hold on the stack.
    A search and replace needs at most 62 copy instructions, and its loop, a partial function, is shown to return; its
    specification takes the number of characters or the count as fuel. Other loops are structural or have measures.

  \<^bold>\<open>Not modelled.\<close> Text of messages and descriptions and their localization, DTrace probes, the singleton and the delays of the
  thread pool (where a lock is taken in another theory, getting it is an input), which of the threads that wait for a condition
  are woken, the counters of the collections that no lock guards, the unit tests and the Perl scripts: they are output, timing,
  or code that only exercises the rest.
\<close>

end
